(* ===== verification/Prelude.thy ===== *)
theory Prelude
  imports Main "HOL-Library.Word"
begin

section \<open>Prelude: machine types, outcomes and linked lists\<close>

text \<open>
  What every component shares.

  The target of the sources is the Atari ST (\<open>MACHINE = ATARI\<close>, \<open>CHIP = M68000\<close> in
  include/minix/config.h), whose \<open>int\<close> has 16 bits and whose \<open>long\<close> and pointers have
  32 (include/limits.h).  An unsigned 16-bit quantity (clicks, \<open>unshort\<close>, flag words) is a
  \<open>u16\<close>, a 32-bit byte address an \<open>addr\<close>; a C \<open>int\<close> that is only compared and
  stored is an \<open>int\<close> of HOL, and conversions between widths are written out.

  A pointer into a table of structures is the index of the entry, or \<open>None\<close> for the nil
  pointer.  A C function that may panic, dereference nil or loop returns an
  \<open>'a run\<close>; loops over linked lists take as fuel the number of table entries, and the
  lemmas of each component show that this is enough in every well-formed state.
\<close>

unbundle bit_operations_syntax

type_synonym u16 = "16 word"
type_synonym addr = "32 word"
type_synonym ptr = "nat option"

named_theorems outcome_simps \<open>how the outcomes of operations compose\<close>
named_theorems chain_simps \<open>rewrite rules for linked lists\<close>

subsection \<open>Outcomes\<close>

datatype 'a run = Done 'a | Panics string | Stuck

primrec andthen :: "'a run \<Rightarrow> ('a \<Rightarrow> 'b run) \<Rightarrow> 'b run" where
  "andthen (Done a) f = f a"
| "andthen (Panics msg) f = Panics msg"
| "andthen Stuck f = Stuck"

text \<open>Reading through a pointer: nil has no entry to read.\<close>

primrec deref :: "ptr \<Rightarrow> nat run" where
  "deref None = Stuck"
| "deref (Some i) = Done i"

lemma andthen_Done_iff [outcome_simps]:
  "andthen m f = Done b \<longleftrightarrow> (\<exists>a. m = Done a \<and> f a = Done b)"
  by (cases m) auto

lemma andthen_assoc [outcome_simps]:
  "andthen (andthen m f) g = andthen m (\<lambda>a. andthen (f a) g)"
  by (cases m) auto

lemma andthen_Done_right [simp]: "andthen m Done = m"
  by (cases m) auto

subsection \<open>Linked lists\<close>

text \<open>
  \<open>lseg nx p xs q\<close>: following the link field \<open>nx\<close> from \<open>p\<close> visits exactly
  the entries \<open>xs\<close>, in order, and then arrives at \<open>q\<close>.  A \<open>chain\<close> ends in nil.
\<close>

primrec lseg :: "(nat \<Rightarrow> ptr) \<Rightarrow> ptr \<Rightarrow> nat list \<Rightarrow> ptr \<Rightarrow> bool" where
  "lseg nx p [] q = (p = q)"
| "lseg nx p (x # xs) q = (p = Some x \<and> lseg nx (nx x) xs q)"

definition chain :: "(nat \<Rightarrow> ptr) \<Rightarrow> ptr \<Rightarrow> nat list \<Rightarrow> bool" where
  "chain nx p xs = lseg nx p xs None"

definition first_of :: "nat list \<Rightarrow> ptr" where
  "first_of xs = (case xs of [] \<Rightarrow> None | x # _ \<Rightarrow> Some x)"

lemma first_of_simps [simp]:
  "first_of [] = None" "first_of (x # xs) = Some x"
  by (simp_all add: first_of_def)

lemma lseg_append: "lseg nx p (xs @ ys) q \<longleftrightarrow> (\<exists>r. lseg nx p xs r \<and> lseg nx r ys q)"
  by (induction xs arbitrary: p) auto

lemma lseg_upd: "a \<notin> set xs \<Longrightarrow> lseg (nx(a := b)) p xs q = lseg nx p xs q"
  by (induction xs arbitrary: p) auto

lemma chain_Nil [simp, chain_simps]: "chain nx p [] \<longleftrightarrow> p = None"
  by (simp add: chain_def)

lemma chain_Cons [simp, chain_simps]: "chain nx p (x # xs) \<longleftrightarrow> p = Some x \<and> chain nx (nx x) xs"
  by (simp add: chain_def)

lemma chain_None [simp, chain_simps]: "chain nx None xs \<longleftrightarrow> xs = []"
  by (cases xs) auto

lemma chain_Some [chain_simps]:
  "chain nx (Some x) xs \<longleftrightarrow> (\<exists>ys. xs = x # ys \<and> chain nx (nx x) ys)"
  by (cases xs) auto

lemma chain_append: "chain nx p (xs @ ys) \<longleftrightarrow> (\<exists>r. lseg nx p xs r \<and> chain nx r ys)"
  by (simp add: chain_def lseg_append)

lemma chain_upd [simp]: "a \<notin> set xs \<Longrightarrow> chain (nx(a := b)) p xs = chain nx p xs"
  by (simp add: chain_def lseg_upd)

lemma chain_cong:
  assumes "\<And>i. i \<in> set xs \<Longrightarrow> nx' i = nx i"
  shows "chain nx' p xs = chain nx p xs"
  using assms by (induction xs arbitrary: p) auto

lemma chain_first: "chain nx p xs \<Longrightarrow> p = first_of xs"
  by (cases xs) auto

lemma chain_unique: "chain nx p xs \<Longrightarrow> chain nx p ys \<Longrightarrow> xs = ys"
proof (induction xs arbitrary: p ys)
  case Nil
  then show ?case by simp
next
  case (Cons x xs)
  then show ?case by (cases ys) auto
qed

lemma chain_tail: "chain nx p (xs @ y # ys) \<Longrightarrow> chain nx (nx y) ys"
  by (auto simp: chain_append)

lemma chain_next: "chain nx p (xs @ y # ys) \<Longrightarrow> nx y = first_of ys"
  using chain_tail chain_first by blast

lemma chain_distinct: "chain nx p xs \<Longrightarrow> distinct xs"
proof (induction xs arbitrary: p)
  case Nil
  then show ?case by simp
next
  case (Cons x xs)
  have "x \<notin> set xs"
  proof
    assume "x \<in> set xs"
    then obtain as bs where xs: "xs = as @ x # bs" by (auto simp: in_set_conv_decomp)
    with Cons.prems have "chain nx (nx x) bs" "chain nx (nx x) (as @ x # bs)"
      using chain_tail [of nx p "x # as" x bs] by auto
    then have "bs = as @ x # bs" by (rule chain_unique)
    then have "length bs = length (as @ x # bs)" by (rule arg_cong)
    then show False by simp
  qed
  with Cons show ?case by auto
qed

text \<open>The four ways the sources edit a list.\<close>

lemma chain_push: "chain nx p xs \<Longrightarrow> n \<notin> set xs \<Longrightarrow> chain (nx(n := p)) (Some n) (n # xs)"
  by simp

lemma chain_insert_after:
  assumes "chain nx p (xs @ a # ys)" and "n \<notin> set (xs @ a # ys)"
  shows "chain (nx(n := nx a, a := Some n)) p (xs @ a # n # ys)"
proof -
  have d: "distinct (xs @ a # ys)" using assms(1) by (rule chain_distinct)
  from assms(1) have s: "lseg nx p xs (Some a)" and t: "chain nx (nx a) ys"
    by (auto simp: chain_append)
  have "lseg (nx(n := nx a, a := Some n)) p xs (Some a)"
    using s d assms(2) by (simp add: lseg_upd)
  moreover have "chain (nx(n := nx a, a := Some n)) (Some a) (a # n # ys)"
    using t d assms(2) by auto
  ultimately show ?thesis by (auto simp: chain_append)
qed

lemma chain_delete_after:
  assumes "chain nx p (xs @ a # b # ys)"
  shows "chain (nx(a := nx b)) p (xs @ a # ys)"
proof -
  have d: "distinct (xs @ a # b # ys)" using assms by (rule chain_distinct)
  from assms have s: "lseg nx p xs (Some a)" and t: "chain nx (nx b) ys"
    by (auto simp: chain_append)
  have "lseg (nx(a := nx b)) p xs (Some a)" using s d by (simp add: lseg_upd)
  moreover have "chain (nx(a := nx b)) (Some a) (a # ys)" using t d by auto
  ultimately show ?thesis by (auto simp: chain_append)
qed

lemma chain_append_last:
  assumes "chain nx p (xs @ [a])" and "n \<notin> set (xs @ [a])"
  shows "chain (nx(a := Some n, n := None)) p (xs @ [a, n])"
proof -
  have d: "distinct (xs @ [a])" using assms(1) by (rule chain_distinct)
  from assms(1) have s: "lseg nx p xs (Some a)" by (auto simp: chain_append)
  have "lseg (nx(a := Some n, n := None)) p xs (Some a)"
    using s d assms(2) by (simp add: lseg_upd)
  moreover have "chain (nx(a := Some n, n := None)) (Some a) [a, n]"
    using assms(2) by auto
  ultimately show ?thesis by (auto simp: chain_append)
qed

lemma chain_length: "chain nx p xs \<Longrightarrow> set xs \<subseteq> {..<n} \<Longrightarrow> length xs \<le> n"
  using distinct_card [OF chain_distinct, of nx p xs] card_mono [of "{..<n}" "set xs"]
  by auto

text \<open>Reading off the list, at most \<open>n\<close> entries of it.\<close>

fun follow :: "nat \<Rightarrow> (nat \<Rightarrow> ptr) \<Rightarrow> ptr \<Rightarrow> nat list" where
  "follow 0 nx p = []"
| "follow (Suc n) nx None = []"
| "follow (Suc n) nx (Some x) = x # follow n nx (nx x)"

lemma follow_chain: "chain nx p xs \<Longrightarrow> length xs \<le> n \<Longrightarrow> follow n nx p = xs"
proof (induction xs arbitrary: p n)
  case Nil
  then show ?case by (cases n) auto
next
  case (Cons x xs)
  then show ?case by (cases n) auto
qed

lemma chain_upt:
  assumes "\<And>i. i < n \<Longrightarrow> nx i = (if Suc i < n then Some (Suc i) else None)"
  shows "chain nx (if k < n then Some k else None) [k..<n]"
proof (induction "n - k" arbitrary: k)
  case 0
  then show ?case by simp
next
  case (Suc m)
  then have "k < n" "m = n - Suc k" by auto
  then show ?case using Suc(1) [of "Suc k"] assms [of k] by (simp add: upt_conv_Cons)
qed

end
