(* ===== verification/Mm_Alloc.thy ===== *)
theory Mm_Alloc
  imports Prelude
begin

section \<open>mm/alloc.c: the hole list\<close>

text \<open>
  The memory manager's allocator of physical memory: the hole table, its two linked
  lists (the holes, in address order, and the unused table slots) and the operations
  alloc_mem, free_mem, del_slot, merge, max_hole, mem_init and mem_left, with pointers
  into the table as in the code and click counts as 16-bit words.  Then the abstract
  view, a sorted list of blocks with first fit and coalescing, the refinement of the one
  by the other, and the allocator's contract as a locale, interpreted on the code.
\<close>

unbundle bit_operations_syntax

subsection \<open>The table and its operations\<close>

definition NR_HOLES :: nat where "NR_HOLES = 128"

definition NO_MEM :: u16 where "NO_MEM = 0"

record hole =
  h_base :: u16
  h_len :: u16
  h_next :: ptr

record hole_tab =
  hole :: "nat \<Rightarrow> hole"
  hole_head :: ptr
  free_slots :: ptr

definition upd_hole :: "nat \<Rightarrow> (hole \<Rightarrow> hole) \<Rightarrow> hole_tab \<Rightarrow> hole_tab" where
  "upd_hole i f s = s\<lparr>hole := (hole s)(i := f (hole s i))\<rparr>"

text \<open>Remove an entry from the hole list and put it on the list of unused slots.\<close>

definition del_slot :: "hole_tab \<Rightarrow> ptr \<Rightarrow> nat \<Rightarrow> hole_tab run" where
  "del_slot s prev_ptr hp =
     andthen
       (if Some hp = hole_head s then Done (s\<lparr>hole_head := h_next (hole s hp)\<rparr>)
        else andthen (deref prev_ptr) (\<lambda>p.
          Done (upd_hole p (\<lambda>h. h\<lparr>h_next := h_next (hole s hp)\<rparr>) s)))
       (\<lambda>s. Done ((upd_hole hp (\<lambda>h. h\<lparr>h_next := free_slots s\<rparr>) s)\<lparr>free_slots := Some hp\<rparr>))"

text \<open>The while loop of alloc_mem, with \<open>prev_ptr\<close> and \<open>hp\<close> as in the code.\<close>

fun alloc_scan :: "nat \<Rightarrow> hole_tab \<Rightarrow> ptr \<Rightarrow> ptr \<Rightarrow> u16 \<Rightarrow> (u16 \<times> hole_tab) run" where
  "alloc_scan 0 s prev_ptr hp clicks = Stuck"
| "alloc_scan (Suc n) s prev_ptr hp clicks =
     (case hp of
        None \<Rightarrow> Done (NO_MEM, s)
      | Some i \<Rightarrow>
          if clicks \<le> h_len (hole s i) then
            (let old_base = h_base (hole s i);
                 s = upd_hole i (\<lambda>h. h\<lparr>h_base := h_base h + clicks\<rparr>) s;
                 s = upd_hole i (\<lambda>h. h\<lparr>h_len := h_len h - clicks\<rparr>) s
             in if h_len (hole s i) \<noteq> 0 then Done (old_base, s)
                else andthen (del_slot s prev_ptr i) (\<lambda>s. Done (old_base, s)))
          else alloc_scan n s hp (h_next (hole s i)) clicks)"

definition alloc_mem :: "hole_tab \<Rightarrow> u16 \<Rightarrow> (u16 \<times> hole_tab) run" where
  "alloc_mem s clicks = alloc_scan (Suc NR_HOLES) s None (hole_head s) clicks"

text \<open>
  One of the two absorbing steps of merge: the length grows, the slot is deleted.  merge
  itself tries to absorb the successor of \<open>hp\<close>, then (merge_tail) the successor of the
  hole it has reached.
\<close>

definition absorb :: "hole_tab \<Rightarrow> nat \<Rightarrow> nat \<Rightarrow> hole_tab run" where
  "absorb s hp next_ptr =
     (let s = upd_hole hp (\<lambda>h. h\<lparr>h_len := h_len h + h_len (hole s next_ptr)\<rparr>) s
      in del_slot s (Some hp) next_ptr)"

definition abuts :: "hole_tab \<Rightarrow> nat \<Rightarrow> nat \<Rightarrow> bool" where
  "abuts s i j \<longleftrightarrow> h_base (hole s i) + h_len (hole s i) = h_base (hole s j)"

definition merge_tail :: "hole_tab \<Rightarrow> nat \<Rightarrow> hole_tab run" where
  "merge_tail s hp =
     (case h_next (hole s hp) of
        None \<Rightarrow> Done s
      | Some next_ptr \<Rightarrow> if abuts s hp next_ptr then absorb s hp next_ptr else Done s)"

definition merge_holes :: "hole_tab \<Rightarrow> nat \<Rightarrow> hole_tab run" where
  "merge_holes s hp =
     (case h_next (hole s hp) of
        None \<Rightarrow> Done s
      | Some next_ptr \<Rightarrow>
          if abuts s hp next_ptr
          then andthen (absorb s hp next_ptr) (\<lambda>s. merge_tail s hp)
          else merge_tail s next_ptr)"

text \<open>The search of free_mem for the place of the block; it returns \<open>prev_ptr\<close>.\<close>

fun free_scan :: "nat \<Rightarrow> hole_tab \<Rightarrow> ptr \<Rightarrow> ptr \<Rightarrow> u16 \<Rightarrow> ptr run" where
  "free_scan 0 s prev_ptr hp base = Stuck"
| "free_scan (Suc n) s prev_ptr hp base =
     (case hp of
        None \<Rightarrow> Done prev_ptr
      | Some i \<Rightarrow> if h_base (hole s i) < base then free_scan n s hp (h_next (hole s i)) base
                  else Done prev_ptr)"

definition free_mem :: "hole_tab \<Rightarrow> u16 \<Rightarrow> u16 \<Rightarrow> hole_tab run" where
  "free_mem s base clicks =
     (case free_slots s of
        None \<Rightarrow> Panics ''Hole table full''
      | Some new_ptr \<Rightarrow>
         (let s = upd_hole new_ptr (\<lambda>h. h\<lparr>h_base := base, h_len := clicks\<rparr>) s;
              s = s\<lparr>free_slots := h_next (hole s new_ptr)\<rparr>
          in if (case hole_head s of None \<Rightarrow> True | Some hp \<Rightarrow> base \<le> h_base (hole s hp))
             then
               (let s = upd_hole new_ptr (\<lambda>h. h\<lparr>h_next := hole_head s\<rparr>) s;
                    s = s\<lparr>hole_head := Some new_ptr\<rparr>
                in merge_holes s new_ptr)
             else
               andthen (free_scan (Suc NR_HOLES) s None (hole_head s) base) (\<lambda>prev.
               andthen (deref prev) (\<lambda>prev_ptr.
               (let s = upd_hole new_ptr (\<lambda>h. h\<lparr>h_next := h_next (hole s prev_ptr)\<rparr>) s;
                    s = upd_hole prev_ptr (\<lambda>h. h\<lparr>h_next := Some new_ptr\<rparr>) s
                in merge_holes s prev_ptr)))))"

fun hole_scan :: "nat \<Rightarrow> hole_tab \<Rightarrow> ptr \<Rightarrow> (u16 \<Rightarrow> u16 \<Rightarrow> u16) \<Rightarrow> u16 \<Rightarrow> u16 run" where
  "hole_scan 0 s hp f acc = Stuck"
| "hole_scan (Suc n) s hp f acc =
     (case hp of
        None \<Rightarrow> Done acc
      | Some i \<Rightarrow> hole_scan n s (h_next (hole s i)) f (f (h_len (hole s i)) acc))"

definition max_hole :: "hole_tab \<Rightarrow> u16 run" where
  "max_hole s =
     hole_scan (Suc NR_HOLES) s (hole_head s) (\<lambda>len m. if m < len then len else m) 0"

definition mem_left :: "hole_tab \<Rightarrow> u16 run" where
  "mem_left s = hole_scan (Suc NR_HOLES) s (hole_head s) (\<lambda>len tot. tot + len) 0"

text \<open>
  mem_init links all slots into the free list and frees each chunk the kernel reports;
  \<open>chunks\<close> is the sequence of replies \<open>(base, size)\<close> of get_mem, which ends with
  size 0.
\<close>

definition mem_clear :: hole_tab where
  "mem_clear =
     \<lparr>hole = (\<lambda>i. \<lparr>h_base = 0, h_len = 0,
                   h_next = (if i < NR_HOLES - 1 then Some (Suc i) else None)\<rparr>),
      hole_head = None, free_slots = Some 0\<rparr>"

fun free_chunks :: "hole_tab \<Rightarrow> (u16 \<times> u16) list \<Rightarrow> hole_tab run" where
  "free_chunks s [] = Done s"
| "free_chunks s ((base, sz) # cs) =
     (if sz \<noteq> 0 then andthen (free_mem s base sz) (\<lambda>s. free_chunks s cs) else Done s)"

definition mem_init :: "(u16 \<times> u16) list \<Rightarrow> hole_tab run" where
  "mem_init chunks = free_chunks mem_clear chunks"

subsection \<open>Well-formed tables\<close>

text \<open>
  \<open>table_ok s hs fs\<close>: the hole list visits the slots \<open>hs\<close>, the free list the slots
  \<open>fs\<close>, and every slot of the table is on exactly one of the two, once.
\<close>

definition nexts :: "hole_tab \<Rightarrow> nat \<Rightarrow> ptr" where
  "nexts s = (\<lambda>i. h_next (hole s i))"

definition table_ok :: "hole_tab \<Rightarrow> nat list \<Rightarrow> nat list \<Rightarrow> bool" where
  "table_ok s hs fs \<longleftrightarrow>
     chain (nexts s) (hole_head s) hs \<and> chain (nexts s) (free_slots s) fs \<and>
     distinct (hs @ fs) \<and> set (hs @ fs) = {..<NR_HOLES}"

definition blk :: "hole_tab \<Rightarrow> nat \<Rightarrow> nat \<times> nat" where
  "blk s i = (unat (h_base (hole s i)), unat (h_len (hole s i)))"

abbreviation blocks :: "hole_tab \<Rightarrow> nat list \<Rightarrow> (nat \<times> nat) list" where
  "blocks s hs \<equiv> map (blk s) hs"

lemma upd_hole_simps [simp]:
  "hole (upd_hole i f s) j = (if j = i then f (hole s i) else hole s j)"
  "hole_head (upd_hole i f s) = hole_head s"
  "free_slots (upd_hole i f s) = free_slots s"
  by (simp_all add: upd_hole_def)

lemma nexts_upd [simp]:
  "nexts (upd_hole i f s) = (nexts s)(i := h_next (f (hole s i)))"
  by (auto simp: nexts_def fun_eq_iff)

lemma nexts_frame [simp]:
  "nexts (s\<lparr>hole_head := p\<rparr>) = nexts s" "nexts (s\<lparr>free_slots := p\<rparr>) = nexts s"
  by (simp_all add: nexts_def)

lemma h_next_nexts: "h_next (hole s i) = nexts s i"
  by (simp add: nexts_def)

lemma nexts_same [simp]: "(nexts s)(i := h_next (hole s i)) = nexts s"
  by (simp add: nexts_def fun_eq_iff)

lemma blk_frame [simp]:
  "blk (s\<lparr>hole_head := p\<rparr>) i = blk s i" "blk (s\<lparr>free_slots := p\<rparr>) i = blk s i"
  by (simp_all add: blk_def)

lemma blk_upd:
  "blk (upd_hole i f s) j =
     (if j = i then (unat (h_base (f (hole s i))), unat (h_len (f (hole s i)))) else blk s j)"
  by (simp add: blk_def)

lemma table_ok_bound: "table_ok s hs fs \<Longrightarrow> length hs \<le> NR_HOLES"
  by (rule chain_length [of "nexts s" "hole_head s"]) (auto simp: table_ok_def)

lemma table_ok_cong:
  assumes "table_ok s hs fs"
    and "nexts s' = nexts s" "hole_head s' = hole_head s" "free_slots s' = free_slots s"
  shows "table_ok s' hs fs"
  using assms by (simp add: table_ok_def)

text \<open>Deleting the entry after \<open>xs\<close>.\<close>

lemma del_slot_ok:
  assumes ok: "table_ok s (xs @ y # ys) fs"
    and prev: "xs \<noteq> [] \<Longrightarrow> prev = Some (last xs)"
  shows "\<exists>s'. del_slot s prev y = Done s' \<and> table_ok s' (xs @ ys) (y # fs) \<and> blk s' = blk s"
proof (cases xs rule: rev_cases)
  case Nil
  with ok have head: "hole_head s = Some y" by (simp add: table_ok_def)
  define s' where "s' = (upd_hole y (\<lambda>h. h\<lparr>h_next := free_slots s\<rparr>)
    (s\<lparr>hole_head := h_next (hole s y)\<rparr>))\<lparr>free_slots := Some y\<rparr>"
  have "del_slot s prev y = Done s'" using head by (simp add: del_slot_def s'_def)
  moreover have "table_ok s' (xs @ ys) (y # fs)"
    using ok Nil by (auto simp: table_ok_def s'_def h_next_nexts)
  moreover have "blk s' = blk s" by (auto simp: s'_def blk_def fun_eq_iff)
  ultimately show ?thesis by blast
next
  case (snoc xs' p)
  have ch: "chain (nexts s) (hole_head s) (xs' @ p # y # ys)"
    and fr: "chain (nexts s) (free_slots s) fs"
    and d: "distinct (xs' @ p # y # ys @ fs)"
    and st: "set (xs' @ p # y # ys @ fs) = {..<NR_HOLES}"
    using ok snoc by (auto simp: table_ok_def)
  have head: "hole_head s \<noteq> Some y" using chain_first [OF ch] d by (cases xs') auto
  define s' where "s' = (upd_hole y (\<lambda>h. h\<lparr>h_next := free_slots s\<rparr>)
    (upd_hole p (\<lambda>h. h\<lparr>h_next := h_next (hole s y)\<rparr>) s))\<lparr>free_slots := Some y\<rparr>"
  have "del_slot s prev y = Done s'" using head prev snoc by (auto simp: del_slot_def s'_def)
  moreover have "table_ok s' (xs @ ys) (y # fs)"
    using chain_delete_after [OF ch] fr d st snoc
    by (auto simp: table_ok_def s'_def h_next_nexts)
  moreover have "blk s' = blk s" by (auto simp: s'_def blk_def fun_eq_iff)
  ultimately show ?thesis by blast
qed

subsection \<open>The abstract allocator\<close>

text \<open>
  Blocks are pairs of base and length in natural numbers.  The hole list is well formed
  when every block is non-empty and ends below the last click of the 16-bit click space
  (16 Mbyte; an ST has at most 4), so that no sum of the code wraps, and any two
  neighbours are in address order with at least one click between them.
\<close>

definition fits :: "nat \<times> nat \<Rightarrow> bool" where
  "fits x \<longleftrightarrow> 0 < snd x \<and> fst x + snd x < 65536"

definition apart :: "nat \<times> nat \<Rightarrow> nat \<times> nat \<Rightarrow> bool" where
  "apart x y \<longleftrightarrow> fst x + snd x < fst y"

definition blocks_ok :: "(nat \<times> nat) list \<Rightarrow> bool" where
  "blocks_ok xs \<longleftrightarrow> successively apart xs \<and> (\<forall>x\<in>set xs. fits x)"

definition clicks_in :: "(nat \<times> nat) list \<Rightarrow> nat set" where
  "clicks_in xs = (\<Union>x\<in>set xs. {fst x..<fst x + snd x})"

fun first_fit :: "nat \<Rightarrow> (nat \<times> nat) list \<Rightarrow> (nat \<times> (nat \<times> nat) list) option" where
  "first_fit c [] = None"
| "first_fit c ((b, l) # xs) =
     (if c \<le> l then Some (b, if c = l then xs else (b + c, l - c) # xs)
      else map_option (\<lambda>(r, ys). (r, (b, l) # ys)) (first_fit c xs))"

text \<open>Coalescing at the head of a list: the first block may swallow its two successors.\<close>

fun join :: "(nat \<times> nat) list \<Rightarrow> (nat \<times> nat) list" where
  "join ((b, l) # (b', l') # xs) =
     (if b + l = b' then (b, l + l') # xs else (b, l) # (b', l') # xs)"
| "join xs = xs"

fun join3 :: "(nat \<times> nat) list \<Rightarrow> (nat \<times> nat) list" where
  "join3 ((b, l) # (b', l') # xs) =
     (if b + l = b' then join ((b, l + l') # xs) else (b, l) # join ((b', l') # xs))"
| "join3 xs = xs"

definition release :: "nat \<Rightarrow> nat \<Rightarrow> (nat \<times> nat) list \<Rightarrow> (nat \<times> nat) list" where
  "release b l xs =
     (let lo = takeWhile (\<lambda>x. fst x < b) xs; hi = dropWhile (\<lambda>x. fst x < b) xs
      in if lo = [] then join3 ((b, l) # hi)
         else butlast lo @ join3 (last lo # (b, l) # hi))"

lemma blocks_ok_Nil [simp]: "blocks_ok []"
  by (simp add: blocks_ok_def)

lemma blocks_ok_Cons:
  "blocks_ok (x # xs) \<longleftrightarrow> fits x \<and> (xs \<noteq> [] \<longrightarrow> apart x (hd xs)) \<and> blocks_ok xs"
  by (cases xs) (auto simp: blocks_ok_def)

lemma blocks_ok_append:
  "blocks_ok (xs @ ys) \<longleftrightarrow>
     blocks_ok xs \<and> blocks_ok ys \<and> (xs \<noteq> [] \<and> ys \<noteq> [] \<longrightarrow> apart (last xs) (hd ys))"
  by (auto simp: blocks_ok_def successively_append_iff)

lemma blocks_ok_above: "blocks_ok (x # xs) \<Longrightarrow> y \<in> set xs \<Longrightarrow> apart x y"
proof (induction xs arbitrary: x)
  case Nil
  then show ?case by simp
next
  case (Cons z xs)
  have xz: "apart x z" and ok: "blocks_ok (z # xs)"
    using Cons.prems(1) by (simp_all add: blocks_ok_Cons)
  have "y = z \<or> apart z y" using Cons.IH [OF ok] Cons.prems(2) by auto
  with xz show ?case by (auto simp: apart_def)
qed

lemma clicks_in_simps [simp]:
  "clicks_in [] = {}"
  "clicks_in (x # xs) = {fst x..<fst x + snd x} \<union> clicks_in xs"
  "clicks_in (xs @ ys) = clicks_in xs \<union> clicks_in ys"
  by (auto simp: clicks_in_def)

lemma clicks_in_above: "blocks_ok (x # xs) \<Longrightarrow> k \<in> clicks_in xs \<Longrightarrow> fst x + snd x < k"
  by (auto simp: clicks_in_def apart_def dest!: blocks_ok_above)

lemma clicks_in_bound: "blocks_ok xs \<Longrightarrow> clicks_in xs \<subseteq> {..<65536}"
  by (fastforce simp: blocks_ok_def clicks_in_def fits_def)

lemma first_fit_None: "first_fit c xs = None \<longleftrightarrow> (\<forall>x\<in>set xs. snd x < c)"
proof (induction xs)
  case Nil
  then show ?case by simp
next
  case (Cons x xs)
  then show ?case by (cases x) (auto simp: not_le split: if_splits)
qed

lemma first_fit_Some:
  assumes "first_fit c xs = Some (r, ys)" and "blocks_ok xs"
  shows "{r..<r + c} \<subseteq> clicks_in xs \<and> clicks_in ys = clicks_in xs - {r..<r + c} \<and>
    blocks_ok ys \<and> (\<exists>x\<in>set xs. fst x = r) \<and> (ys \<noteq> [] \<longrightarrow> fst (hd xs) \<le> fst (hd ys))"
  using assms
proof (induction xs arbitrary: r ys)
  case Nil
  then show ?case by simp
next
  case (Cons x xs)
  obtain b l where x: "x = (b, l)" by (cases x)
  have above: "\<And>k. k \<in> clicks_in xs \<Longrightarrow> b + l < k"
    using clicks_in_above [OF Cons.prems(2)] x by auto
  show ?case
  proof (cases "c \<le> l")
    case True
    with Cons.prems(1) x have r: "r = b"
      and ys: "ys = (if c = l then xs else (b + c, l - c) # xs)" by auto
    have "blocks_ok ys" using Cons.prems(2) True x ys
      by (auto simp: blocks_ok_Cons fits_def apart_def)
    moreover have "clicks_in ys = clicks_in (x # xs) - {b..<b + c}"
    proof -
      have "clicks_in xs - {b..<b + c} = clicks_in xs"
        using above True by fastforce
      moreover have "{b + c..<b + l} = {b..<b + l} - {b..<b + c}" using True by auto
      ultimately have "clicks_in (x # xs) - {b..<b + c} = {b + c..<b + l} \<union> clicks_in xs"
        by (simp add: Un_Diff x)
      then show ?thesis using True ys by (cases "c = l") simp_all
    qed
    moreover have "ys \<noteq> [] \<longrightarrow> fst (hd (x # xs)) \<le> fst (hd ys)"
      using ys Cons.prems(2) x by (cases "c = l") (auto simp: blocks_ok_Cons apart_def)
    moreover have "{r..<r + c} \<subseteq> clicks_in (x # xs)" using True r x by auto
    moreover have "\<exists>y\<in>set (x # xs). fst y = r" using r x by simp
    ultimately show ?thesis using r by blast
  next
    case False
    with Cons.prems(1) x obtain zs where ff: "first_fit c xs = Some (r, zs)"
      and ys: "ys = (b, l) # zs" by auto
    have IH: "{r..<r + c} \<subseteq> clicks_in xs \<and> clicks_in zs = clicks_in xs - {r..<r + c} \<and>
        blocks_ok zs \<and> (\<exists>x\<in>set xs. fst x = r) \<and> (zs \<noteq> [] \<longrightarrow> fst (hd xs) \<le> fst (hd zs))"
      using Cons.IH [OF ff] Cons.prems(2) by (simp add: blocks_ok_Cons)
    have "xs \<noteq> []" using ff by auto
    with IH Cons.prems(2) have "blocks_ok ys"
      by (auto simp: blocks_ok_Cons ys x apart_def)
    moreover have "{b..<b + l} \<inter> {r..<r + c} = {}"
    proof -
      have "b + l < k" if "k \<in> {r..<r + c}" for k
        using that IH above by blast
      then show ?thesis by fastforce
    qed
    ultimately show ?thesis using IH x ys by auto
  qed
qed

subsection \<open>alloc_mem is first fit\<close>

lemma unat_len_left:
  fixes l c :: u16
  shows "c \<le> l \<Longrightarrow> unat (l - c) = unat l - unat c"
  by (rule unat_sub)

lemma unat_base_up:
  fixes b c :: u16
  assumes "unat b + unat c < 65536"
  shows "unat (b + c) = unat b + unat c"
  using assms by (simp add: unat_word_ariths)

lemma next_in_table: "table_ok s (xs @ y # ys) fs \<Longrightarrow> h_next (hole s y) = first_of ys"
  using chain_next by (auto simp: table_ok_def h_next_nexts)

lemma head_of_table: "table_ok s hs fs \<Longrightarrow> hole_head s = first_of hs"
  by (auto simp: table_ok_def dest: chain_first)

lemma first_fit_Cons:
  "first_fit c (x # xs) =
     (if c \<le> snd x then Some (fst x, if c = snd x then xs else (fst x + c, snd x - c) # xs)
      else map_option (\<lambda>(r, ys). (r, x # ys)) (first_fit c xs))"
  by (cases x) simp

lemma alloc_scan_None:
  assumes "table_ok s (xs @ ys) fs" and "first_fit (unat c) (blocks s ys) = None"
    and "length ys < n"
  shows "alloc_scan n s prev (first_of ys) c = Done (NO_MEM, s)"
  using assms
proof (induction ys arbitrary: xs prev n)
  case Nil
  then show ?case by (cases n) auto
next
  case (Cons y ys)
  obtain m where n: "n = Suc m" and m: "length ys < m" using Cons.prems(3) by (cases n) auto
  have "alloc_scan m s (Some y) (first_of ys) c = Done (NO_MEM, s)"
    using Cons.prems Cons.IH [of "xs @ [y]"] m by (auto simp: first_fit_None)
  then show ?case
    using Cons.prems next_in_table [OF Cons.prems(1)]
    by (auto simp: n first_fit_None blk_def word_le_nat_alt)
qed

text \<open>Taking \<open>c\<close> clicks out of the hole in slot \<open>y\<close>.\<close>

definition bite :: "nat \<Rightarrow> u16 \<Rightarrow> hole_tab \<Rightarrow> hole_tab" where
  "bite y c s = upd_hole y (\<lambda>h. h\<lparr>h_len := h_len h - c\<rparr>)
     (upd_hole y (\<lambda>h. h\<lparr>h_base := h_base h + c\<rparr>) s)"

lemma bite_table: "table_ok s hs fs \<Longrightarrow> table_ok (bite y c s) hs fs"
  by (erule table_ok_cong) (simp_all add: bite_def)

lemma bite_blocks: "y \<notin> set hs \<Longrightarrow> blocks (bite y c s) hs = blocks s hs"
  by (auto simp: bite_def blk_upd)

lemma bite_blk:
  assumes "fits (blk s y)" and "c \<le> h_len (hole s y)" and "unat c \<noteq> snd (blk s y)"
  shows "blk (bite y c s) y = (fst (blk s y) + unat c, snd (blk s y) - unat c)"
proof -
  have "unat c < unat (h_len (hole s y))" using assms(2,3) by (simp add: blk_def word_le_nat_alt)
  then show ?thesis using assms
    by (simp add: bite_def blk_upd blk_def fits_def unat_len_left unat_base_up)
qed

lemma alloc_scan_here:
  assumes "c \<le> h_len (hole s y)"
  shows "alloc_scan (Suc n) s prev (Some y) c =
    (if unat c \<noteq> snd (blk s y) then Done (h_base (hole s y), bite y c s)
     else andthen (del_slot (bite y c s) prev y) (\<lambda>t. Done (h_base (hole s y), t)))"
  using assms by (auto simp: bite_def Let_def blk_def word_unat_eq_iff unat_len_left word_le_nat_alt)

lemma alloc_scan_Some:
  assumes "table_ok s (xs @ ys) fs"
    and "xs \<noteq> [] \<Longrightarrow> prev = Some (last xs)"
    and "\<forall>y\<in>set ys. fits (blk s y)"
    and "length ys < n"
    and "first_fit (unat c) (blocks s ys) = Some (b, zs)"
  shows "\<exists>s' ys' fs'. alloc_scan n s prev (first_of ys) c = Done (word_of_nat b, s') \<and>
    table_ok s' (xs @ ys') fs' \<and> blocks s' xs = blocks s xs \<and> blocks s' ys' = zs"
  using assms
proof (induction ys arbitrary: xs prev n zs)
  case Nil
  then show ?case by simp
next
  case (Cons y ys)
  obtain m where n: "n = Suc m" and m: "length ys < m" using Cons.prems(4) by (cases n) auto
  have notin: "y \<notin> set xs" "y \<notin> set ys" using Cons.prems(1) by (auto simp: table_ok_def)
  show ?case
  proof (cases "c \<le> h_len (hole s y)")
    case fit: True
    then have c: "unat c \<le> snd (blk s y)" by (simp add: blk_def word_le_nat_alt)
    have b: "word_of_nat b = h_base (hole s y)"
      using Cons.prems(5) c by (auto simp: first_fit_Cons blk_def)
    have tok: "table_ok (bite y c s) (xs @ y # ys) fs" using Cons.prems(1) by (rule bite_table)
    note scan = alloc_scan_here [OF fit, of m prev]
    show ?thesis
    proof (cases "unat c = snd (blk s y)")
      case True
      obtain s' where s': "del_slot (bite y c s) prev y = Done s'"
        "table_ok s' (xs @ ys) (y # fs)" "blk s' = blk (bite y c s)"
        using del_slot_ok [OF tok Cons.prems(2)] by blast
      have "zs = blocks s ys" using Cons.prems(5) True by (simp add: first_fit_Cons)
      then have "alloc_scan n s prev (first_of (y # ys)) c = Done (word_of_nat b, s') \<and>
        table_ok s' (xs @ ys) (y # fs) \<and> blocks s' xs = blocks s xs \<and> blocks s' ys = zs"
        using scan True s' b notin n by (simp add: bite_blocks)
      then show ?thesis by blast
    next
      case False
      have "zs = (fst (blk s y) + unat c, snd (blk s y) - unat c) # blocks s ys"
        using Cons.prems(5) False c by (auto simp: first_fit_Cons)
      moreover have "blk (bite y c s) y = (fst (blk s y) + unat c, snd (blk s y) - unat c)"
        using Cons.prems(3) fit False by (intro bite_blk) auto
      ultimately have "alloc_scan n s prev (first_of (y # ys)) c =
          Done (word_of_nat b, bite y c s) \<and> table_ok (bite y c s) (xs @ (y # ys)) fs \<and>
          blocks (bite y c s) xs = blocks s xs \<and> blocks (bite y c s) (y # ys) = zs"
        using scan False b n notin tok by (simp add: bite_blocks)
      then show ?thesis by blast
    qed
  next
    case False
    then have big: "\<not> unat c \<le> snd (blk s y)" by (simp add: blk_def word_le_nat_alt)
    then obtain ws where ws: "first_fit (unat c) (blocks s ys) = Some (b, ws)" "zs = blk s y # ws"
      using Cons.prems(5) by (auto simp: first_fit_Cons)
    have "table_ok s ((xs @ [y]) @ ys) fs" using Cons.prems(1) by simp
    from Cons.IH [OF this _ _ m ws(1), of "Some y"]
    obtain s' ys' fs' where *: "alloc_scan m s (Some y) (first_of ys) c = Done (word_of_nat b, s')"
      "table_ok s' ((xs @ [y]) @ ys') fs'" "blocks s' (xs @ [y]) = blocks s (xs @ [y])"
      "blocks s' ys' = ws" using Cons.prems(3) by auto
    have "alloc_scan n s prev (first_of (y # ys)) c = Done (word_of_nat b, s')"
      using False *(1) next_in_table [OF Cons.prems(1)] by (simp add: n)
    moreover have "table_ok s' (xs @ (y # ys')) fs'" "blocks s' xs = blocks s xs"
      "blocks s' (y # ys') = zs" using *(2-4) ws(2) by auto
    ultimately show ?thesis by blast
  qed
qed

lemma alloc_mem_fails:
  assumes "table_ok s hs fs" and "first_fit (unat c) (blocks s hs) = None"
  shows "alloc_mem s c = Done (NO_MEM, s)"
  using assms alloc_scan_None [of s "[]" hs] table_ok_bound [OF assms(1)]
  by (simp add: alloc_mem_def head_of_table del: alloc_scan.simps)

lemma alloc_mem_takes:
  assumes "table_ok s hs fs" and "blocks_ok (blocks s hs)"
    and "first_fit (unat c) (blocks s hs) = Some (b, ys)"
  shows "\<exists>s' hs' fs'. alloc_mem s c = Done (word_of_nat b, s') \<and> table_ok s' hs' fs' \<and>
    blocks s' hs' = ys"
  using assms alloc_scan_Some [of s "[]" hs fs None "Suc NR_HOLES" c b ys]
    table_ok_bound [OF assms(1)]
  by (simp add: alloc_mem_def head_of_table blocks_ok_def del: alloc_scan.simps)

subsection \<open>free_mem releases and coalesces\<close>

text \<open>While a block is being inserted, neighbours may touch.\<close>

definition below :: "nat \<times> nat \<Rightarrow> nat \<times> nat \<Rightarrow> bool" where
  "below x y \<longleftrightarrow> fst x + snd x \<le> fst y"

definition touch_ok :: "(nat \<times> nat) list \<Rightarrow> bool" where
  "touch_ok xs \<longleftrightarrow> successively below xs \<and> (\<forall>x\<in>set xs. fits x)"

lemma touch_ok_Cons:
  "touch_ok (x # xs) \<longleftrightarrow> fits x \<and> (xs \<noteq> [] \<longrightarrow> below x (hd xs)) \<and> touch_ok xs"
  by (cases xs) (auto simp: touch_ok_def)

lemma abuts_blk:
  assumes "fits (blk s i)" and "fits (blk s j)"
  shows "abuts s i j \<longleftrightarrow> fst (blk s i) + snd (blk s i) = fst (blk s j)"
  using assms by (auto simp: abuts_def blk_def fits_def word_unat_eq_iff unat_base_up)

lemma absorb_ok:
  assumes ok: "table_ok s (xs @ y # z # zs) fs"
    and fit: "fits (blk s y)" "fits (blk s z)" "below (blk s y) (blk s z)"
  shows "\<exists>s'. absorb s y z = Done s' \<and> table_ok s' (xs @ y # zs) (z # fs) \<and>
    blk s' = (blk s)(y := (fst (blk s y), snd (blk s y) + snd (blk s z)))"
proof -
  define t where "t = upd_hole y (\<lambda>h. h\<lparr>h_len := h_len h + h_len (hole s z)\<rparr>) s"
  have "table_ok t ((xs @ [y]) @ z # zs) fs"
    using ok by (simp, elim table_ok_cong) (simp_all add: t_def)
  from del_slot_ok [OF this, of "Some y"]
  obtain s' where s': "del_slot t (Some y) z = Done s'" "table_ok s' (xs @ y # zs) (z # fs)"
    "blk s' = blk t" by auto
  have "blk t = (blk s)(y := (fst (blk s y), snd (blk s y) + snd (blk s z)))"
    using fit by (auto simp: t_def blk_upd blk_def fits_def below_def fun_eq_iff unat_base_up)
  moreover have "absorb s y z = del_slot t (Some y) z"
    by (simp add: absorb_def t_def)
  ultimately show ?thesis using s' by auto
qed

lemma merge_tail_ok:
  assumes ok: "table_ok s (xs @ y # ys) fs" and fit: "touch_ok (blocks s (y # ys))"
  shows "\<exists>s' ys' fs'. merge_tail s y = Done s' \<and> table_ok s' (xs @ ys') fs' \<and>
    blocks s' xs = blocks s xs \<and> blocks s' ys' = join (blocks s (y # ys))"
proof (cases ys)
  case Nil
  have "merge_tail s y = Done s" using next_in_table [OF ok] Nil by (simp add: merge_tail_def)
  moreover have "join (blocks s (y # ys)) = blocks s (y # ys)" using Nil by simp
  ultimately show ?thesis using ok by auto
next
  case (Cons z zs)
  have nxt: "h_next (hole s y) = Some z" using next_in_table [OF ok] Cons by simp
  have f: "fits (blk s y)" "fits (blk s z)" "below (blk s y) (blk s z)"
    using fit Cons by (auto simp: touch_ok_Cons)
  have notin: "y \<notin> set xs" "y \<notin> set zs" using ok Cons by (auto simp: table_ok_def)
  obtain b l b' l' where bl: "blk s y = (b, l)" "blk s z = (b', l')"
    by (cases "blk s y", cases "blk s z")
  show ?thesis
  proof (cases "abuts s y z")
    case True
    obtain s' where s': "absorb s y z = Done s'" "table_ok s' (xs @ y # zs) (z # fs)"
      "blk s' = (blk s)(y := (fst (blk s y), snd (blk s y) + snd (blk s z)))"
      using absorb_ok [OF _ f] ok Cons by blast
    have "b + l = b'" using True abuts_blk [OF f(1,2)] bl by simp
    then have "blocks s' (y # zs) = join (blocks s (y # ys))"
      using s'(3) notin bl Cons by auto
    moreover have "blocks s' xs = blocks s xs" using s'(3) notin by auto
    moreover have "merge_tail s y = Done s'" using nxt True s'(1) by (simp add: merge_tail_def)
    ultimately show ?thesis using s'(2) by blast
  next
    case False
    then have "b + l \<noteq> b'" using abuts_blk [OF f(1,2)] bl by simp
    then have "join (blocks s (y # ys)) = blocks s (y # ys)" using bl Cons by simp
    moreover have "merge_tail s y = Done s" using nxt False by (simp add: merge_tail_def)
    ultimately show ?thesis using ok by metis
  qed
qed

lemma merge_holes_ok:
  assumes ok: "table_ok s (xs @ y # ys) fs" and fit: "touch_ok (blocks s (y # ys))"
  shows "\<exists>s' ys' fs'. merge_holes s y = Done s' \<and> table_ok s' (xs @ ys') fs' \<and>
    blocks s' xs = blocks s xs \<and> blocks s' ys' = join3 (blocks s (y # ys))"
proof (cases ys)
  case Nil
  have "merge_holes s y = Done s" using next_in_table [OF ok] Nil by (simp add: merge_holes_def)
  moreover have "join3 (blocks s (y # ys)) = blocks s (y # ys)" using Nil by simp
  ultimately show ?thesis using ok by metis
next
  case (Cons z zs)
  have nxt: "h_next (hole s y) = Some z" using next_in_table [OF ok] Cons by simp
  have f: "fits (blk s y)" "fits (blk s z)" "below (blk s y) (blk s z)"
    using fit Cons by (auto simp: touch_ok_Cons)
  have notin: "y \<notin> set xs" "y \<notin> set zs" using ok Cons by (auto simp: table_ok_def)
  obtain b l b' l' where bl: "blk s y = (b, l)" "blk s z = (b', l')"
    by (cases "blk s y", cases "blk s z")
  show ?thesis
  proof (cases "abuts s y z")
    case True
    obtain s' where s': "absorb s y z = Done s'" "table_ok s' (xs @ y # zs) (z # fs)"
      "blk s' = (blk s)(y := (fst (blk s y), snd (blk s y) + snd (blk s z)))"
      using absorb_ok [OF _ f] ok Cons by blast
    have eq: "b + l = b'" using True abuts_blk [OF f(1,2)] bl by simp
    have bs: "blocks s' (y # zs) = (b, l + l') # blocks s zs" "blocks s' xs = blocks s xs"
      using s'(3) notin bl by auto
    have "touch_ok (blocks s' (y # zs))"
      unfolding bs(1) using fit Cons bl eq by (auto simp: touch_ok_Cons fits_def below_def)
    from merge_tail_ok [OF s'(2) this] bs
    obtain s'' ys' fs' where "merge_tail s' y = Done s''" "table_ok s'' (xs @ ys') fs'"
      "blocks s'' xs = blocks s xs" "blocks s'' ys' = join ((b, l + l') # blocks s zs)" by metis
    moreover have "merge_holes s y = merge_tail s' y"
      using nxt True s'(1) by (simp add: merge_holes_def)
    moreover have "join3 (blocks s (y # ys)) = join ((b, l + l') # blocks s zs)"
      using Cons bl eq by simp
    ultimately show ?thesis by metis
  next
    case False
    have ok': "table_ok s ((xs @ [y]) @ z # zs) fs" using ok Cons by simp
    have "touch_ok (blocks s (z # zs))" using fit Cons by (simp add: touch_ok_Cons)
    from merge_tail_ok [OF ok' this]
    obtain s'' ys' fs' where *: "merge_tail s z = Done s''" "table_ok s'' ((xs @ [y]) @ ys') fs'"
      "blocks s'' (xs @ [y]) = blocks s (xs @ [y])"
      "blocks s'' ys' = join (blocks s (z # zs))" by metis
    have "merge_holes s y = Done s''" using nxt False *(1) by (simp add: merge_holes_def)
    moreover have "blocks s'' (y # ys') = join3 (blocks s (y # ys))"
      using False abuts_blk [OF f(1,2)] bl Cons *(3,4) by auto
    moreover have "table_ok s'' (xs @ (y # ys')) fs'" "blocks s'' xs = blocks s xs"
      using *(2,3) by auto
    ultimately show ?thesis by metis
  qed
qed

lemma free_scan_ok:
  assumes "chain (nexts s) hp ys" and "length ys < n"
  shows "free_scan n s prev hp base =
    Done (case takeWhile (\<lambda>i. h_base (hole s i) < base) ys of [] \<Rightarrow> prev | z # zs \<Rightarrow> Some (last (z # zs)))"
  using assms
proof (induction ys arbitrary: hp prev n)
  case Nil
  then show ?case by (cases n) auto
next
  case (Cons y ys)
  obtain m where n: "n = Suc m" and m: "length ys < m" using Cons.prems(2) by (cases n) auto
  have "hp = Some y" "chain (nexts s) (h_next (hole s y)) ys"
    using Cons.prems(1) by (simp_all add: h_next_nexts)
  with Cons.IH [OF this(2) m, of "Some y"] show ?case
    by (auto simp: n split: list.splits)
qed

text \<open>Putting the block on the list: at the front, or after the slot \<open>p\<close>.\<close>

lemma insert_front_ok:
  fixes b l :: u16
  assumes ok: "table_ok s hs (n # fs)"
  defines "t \<equiv> (upd_hole n (\<lambda>h. h\<lparr>h_next := hole_head s\<rparr>)
    ((upd_hole n (\<lambda>h. h\<lparr>h_base := b, h_len := l\<rparr>) s)\<lparr>free_slots := first_of fs\<rparr>))
    \<lparr>hole_head := Some n\<rparr>"
  shows "table_ok t (n # hs) fs \<and> blk t = (blk s)(n := (unat b, unat l))"
proof -
  have ch: "chain (nexts s) (hole_head s) hs" and n: "n \<notin> set hs" "n \<notin> set fs"
    and fr: "chain (nexts s) (nexts s n) fs"
    using ok by (auto simp: table_ok_def)
  have nx: "nexts t = (nexts s)(n := hole_head s)"
    by (auto simp: t_def nexts_def fun_eq_iff)
  have "chain (nexts t) (hole_head t) (n # hs)" using ch n nx by (simp add: t_def)
  moreover have "chain (nexts t) (free_slots t) fs"
    using fr n nx chain_first [OF fr] by (simp add: t_def)
  moreover have "blk t = (blk s)(n := (unat b, unat l))"
    by (auto simp: t_def blk_def fun_eq_iff)
  ultimately show ?thesis using ok by (auto simp: table_ok_def)
qed

lemma insert_after_ok:
  fixes b l :: u16
  assumes ok: "table_ok s (xs @ p # ys) (n # fs)"
  defines "u \<equiv> (upd_hole n (\<lambda>h. h\<lparr>h_base := b, h_len := l\<rparr>) s)\<lparr>free_slots := first_of fs\<rparr>"
  defines "t \<equiv> upd_hole p (\<lambda>h. h\<lparr>h_next := Some n\<rparr>)
    (upd_hole n (\<lambda>h. h\<lparr>h_next := h_next (hole u p)\<rparr>) u)"
  shows "table_ok t (xs @ p # n # ys) fs \<and> blk t = (blk s)(n := (unat b, unat l))"
proof -
  have ch: "chain (nexts s) (hole_head s) (xs @ p # ys)" and n: "n \<notin> set (xs @ p # ys)"
    and fr: "chain (nexts s) (nexts s n) fs" and d: "p \<notin> set fs" "n \<notin> set fs"
    using ok by (auto simp: table_ok_def)
  have nx: "nexts t = (nexts s)(n := nexts s p, p := Some n)"
    using n by (auto simp: t_def u_def nexts_def fun_eq_iff)
  have "chain (nexts t) (hole_head t) (xs @ p # n # ys)"
    using chain_insert_after [OF ch n] nx by (simp add: t_def u_def)
  moreover have "chain (nexts t) (free_slots t) fs"
    using fr d nx chain_first [OF fr] by (simp add: t_def u_def)
  moreover have "blk t = (blk s)(n := (unat b, unat l))"
    using n by (auto simp: t_def u_def blk_def fun_eq_iff)
  ultimately show ?thesis using ok by (auto simp: table_ok_def)
qed

lemma touch_ok_release:
  assumes ok: "blocks_ok xs" and new: "fits (b, l)" "{b..<b + l} \<inter> clicks_in xs = {}"
  defines "lo \<equiv> takeWhile (\<lambda>x. fst x < b) xs" and "hi \<equiv> dropWhile (\<lambda>x. fst x < b) xs"
  shows "touch_ok ((if lo = [] then [] else [last lo]) @ (b, l) # hi)"
    and "blocks_ok lo" and "blocks_ok hi"
proof -
  have xs: "xs = lo @ hi" by (simp add: lo_def hi_def)
  show lo_ok: "blocks_ok lo" and hi_ok: "blocks_ok hi"
    using ok by (simp_all add: xs blocks_ok_append)
  have touch: "touch_ok ys" if "blocks_ok ys" for ys
    using that unfolding touch_ok_def blocks_ok_def
    by (auto elim!: successively_mono simp: apart_def below_def)
  have hi: "below (b, l) (hd hi)" if "hi \<noteq> []"
  proof -
    have in_hi: "hd hi \<in> set hi" using that by simp
    have "\<not> fst (hd hi) < b" using that hd_dropWhile [of "\<lambda>x. fst x < b" xs] by (simp only: hi_def) blast
    moreover have "fst (hd hi) \<in> clicks_in xs"
    proof -
      have "fits (hd hi)" using hi_ok in_hi by (auto simp: blocks_ok_def)
      then show ?thesis using in_hi by (force simp: xs clicks_in_def fits_def)
    qed
    ultimately have "fst (hd hi) \<notin> {b..<b + l}" "b \<le> fst (hd hi)"
      using new(2) by (blast, simp)
    then show ?thesis by (auto simp: below_def)
  qed
  have lo: "below (last lo) (b, l)" "fits (last lo)" if "lo \<noteq> []"
  proof -
    have in_lo: "last lo \<in> set lo" using that by simp
    then have lt: "fst (last lo) < b" unfolding lo_def by (blast dest: set_takeWhileD)
    have "{fst (last lo)..<fst (last lo) + snd (last lo)} \<subseteq> clicks_in xs"
      using in_lo by (force simp: xs clicks_in_def)
    then have "b \<notin> {fst (last lo)..<fst (last lo) + snd (last lo)}"
      using new by (auto simp: fits_def disjoint_iff)
    with lt show "below (last lo) (b, l)" by (auto simp: below_def)
    show "fits (last lo)" using lo_ok in_lo by (auto simp: blocks_ok_def)
  qed
  have "touch_ok ((b, l) # hi)" using touch [OF hi_ok] hi new(1) by (simp add: touch_ok_Cons)
  then show "touch_ok ((if lo = [] then [] else [last lo]) @ (b, l) # hi)"
    using lo by (auto simp: touch_ok_Cons)
qed

lemma free_mem_unfold:
  fixes b l :: u16
  assumes "free_slots s = Some n" and "h_next (hole s n) = q"
  defines "u \<equiv> (upd_hole n (\<lambda>h. h\<lparr>h_base := b, h_len := l\<rparr>) s)\<lparr>free_slots := q\<rparr>"
  shows "free_mem s b l =
    (if case hole_head s of None \<Rightarrow> True | Some hp \<Rightarrow> b \<le> h_base (hole u hp)
     then merge_holes ((upd_hole n (\<lambda>h. h\<lparr>h_next := hole_head s\<rparr>) u)\<lparr>hole_head := Some n\<rparr>) n
     else andthen (free_scan (Suc NR_HOLES) u None (hole_head s) b) (\<lambda>prev.
       andthen (deref prev) (\<lambda>p.
         merge_holes (upd_hole p (\<lambda>h. h\<lparr>h_next := Some n\<rparr>)
           (upd_hole n (\<lambda>h. h\<lparr>h_next := h_next (hole u p)\<rparr>) u)) p)))"
proof -
  have q: "h_next (hole (upd_hole n (\<lambda>h. h\<lparr>h_base := b, h_len := l\<rparr>) s) n) = q"
    using assms(2) by simp
  show ?thesis
    unfolding free_mem_def assms(1) u_def Let_def option.case(2) q by (simp del: free_scan.simps)
qed

lemma free_mem_refines:
  assumes ok: "table_ok s hs fs" "blocks_ok (blocks s hs)"
    and new: "fits (unat b, unat l)" "{unat b..<unat b + unat l} \<inter> clicks_in (blocks s hs) = {}"
    and room: "fs \<noteq> []"
  shows "\<exists>s' hs' fs'. free_mem s b l = Done s' \<and> table_ok s' hs' fs' \<and>
    blocks s' hs' = release (unat b) (unat l) (blocks s hs)"
proof -
  obtain n fs0 where fs: "fs = n # fs0" using room by (cases fs) auto
  have n: "free_slots s = Some n" "h_next (hole s n) = first_of fs0" "n \<notin> set hs"
    using ok(1) fs chain_first by (auto simp: table_ok_def h_next_nexts)
  define lo where "lo = takeWhile (\<lambda>i. h_base (hole s i) < b) hs"
  define hi where "hi = dropWhile (\<lambda>i. h_base (hole s i) < b) hs"
  have hs: "hs = lo @ hi" by (simp add: lo_def hi_def)
  have blo: "takeWhile (\<lambda>x. fst x < unat b) (blocks s hs) = blocks s lo"
    and bhi: "dropWhile (\<lambda>x. fst x < unat b) (blocks s hs) = blocks s hi"
    by (simp_all add: lo_def hi_def takeWhile_map dropWhile_map comp_def blk_def word_less_nat_alt)
  note rel = release_def [of "unat b" "unat l" "blocks s hs", unfolded blo bhi Let_def]
  note touch = touch_ok_release(1) [OF ok(2) new, unfolded blo bhi]
  define u where "u = (upd_hole n (\<lambda>h. h\<lparr>h_base := b, h_len := l\<rparr>) s)\<lparr>free_slots := first_of fs0\<rparr>"
  have bu: "\<forall>i\<in>set hs. h_base (hole u i) = h_base (hole s i)" using n(3) by (auto simp: u_def)
  show ?thesis
  proof (cases lo rule: rev_cases)
    case Nil
    define t where "t = (upd_hole n (\<lambda>h. h\<lparr>h_next := hole_head s\<rparr>) u)\<lparr>hole_head := Some n\<rparr>"
    have t: "table_ok t ([] @ n # hs) fs0" "blk t = (blk s)(n := (unat b, unat l))"
      using insert_front_ok [OF ok(1) [unfolded fs], where b = b and l = l] by (simp_all add: t_def u_def)
    have bt: "blocks t (n # hs) = (unat b, unat l) # blocks s hi" using t(2) n(3) hs Nil by auto
    have "case hole_head s of None \<Rightarrow> True | Some hp \<Rightarrow> b \<le> h_base (hole u hp)"
    proof (cases hs)
      case (Cons h hs')
      with Nil have "\<not> h_base (hole s h) < b" by (auto simp: lo_def split: if_splits)
      with bu Cons show ?thesis by (simp add: head_of_table [OF ok(1)])
    qed (simp add: head_of_table [OF ok(1)])
    then have fm: "free_mem s b l = merge_holes t n"
      unfolding t_def u_def free_mem_unfold [OF n(1,2)] by (rule if_P)
    have "touch_ok (blocks t (n # hs))" unfolding bt using touch Nil by simp
    from merge_holes_ok [OF t(1) this]
    obtain s' ys' fs' where "merge_holes t n = Done s'" "table_ok s' ([] @ ys') fs'"
      "blocks s' ys' = join3 (blocks t (n # hs))" by metis
    moreover have "release (unat b) (unat l) (blocks s hs) = join3 (blocks t (n # hs))"
      unfolding rel bt using Nil by simp
    ultimately show ?thesis using fm by auto
  next
    case (snoc lo' p)
    define t where "t = upd_hole p (\<lambda>h. h\<lparr>h_next := Some n\<rparr>)
      (upd_hole n (\<lambda>h. h\<lparr>h_next := h_next (hole u p)\<rparr>) u)"
    have "table_ok s (lo' @ p # hi) (n # fs0)" using ok(1) hs snoc fs by simp
    from insert_after_ok [OF this, where b = b and l = l]
    have t: "table_ok t (lo' @ p # n # hi) fs0" "blk t = (blk s)(n := (unat b, unat l))"
      by (simp_all add: t_def u_def)
    have bt: "blocks t (p # n # hi) = last (blocks s lo) # (unat b, unat l) # blocks s hi"
      "blocks t lo' = butlast (blocks s lo)"
      using t(2) n(3) hs snoc by auto
    have "chain (nexts u) (hole_head s) hs"
      using ok(1) n(3) by (simp add: u_def table_ok_def)
    moreover have "takeWhile (\<lambda>i. h_base (hole u i) < b) hs = lo"
      unfolding lo_def using bu by (intro takeWhile_cong) auto
    ultimately have scan: "free_scan (Suc NR_HOLES) u None (hole_head s) b = Done (Some p)"
      using free_scan_ok [of u "hole_head s" hs "Suc NR_HOLES" None b]
        table_ok_bound [OF ok(1)] snoc
      by (cases lo') (simp_all del: free_scan.simps)
    have "\<exists>h. hole_head s = Some h \<and> \<not> b \<le> h_base (hole u h)"
    proof -
      have "lo \<noteq> []" using snoc by simp
      then have "hd lo \<in> set lo" by (rule hd_in_set)
      then have "h_base (hole s (hd lo)) < b" unfolding lo_def by (blast dest: set_takeWhileD)
      moreover have "hole_head s = Some (hd lo)"
        using head_of_table [OF ok(1)] hs snoc by (cases lo') auto
      ultimately show ?thesis using bu hs snoc by (cases lo') auto
    qed
    then obtain h where h: "hole_head s = Some h" "\<not> b \<le> h_base (hole u h)" by blast
    have fm: "free_mem s b l = merge_holes t p"
      using h scan unfolding t_def u_def free_mem_unfold [OF n(1,2)]
      by (simp del: free_scan.simps)
    have "touch_ok (blocks t (p # n # hi))" unfolding bt(1) using touch snoc by simp
    from merge_holes_ok [OF t(1) this]
    obtain s' ys' fs' where "merge_holes t p = Done s'" "table_ok s' (lo' @ ys') fs'"
      "blocks s' lo' = blocks t lo'" "blocks s' ys' = join3 (blocks t (p # n # hi))" by metis
    moreover have "release (unat b) (unat l) (blocks s hs) =
        blocks t lo' @ join3 (blocks t (p # n # hi))"
      unfolding rel bt using snoc by simp
    ultimately show ?thesis using fm by (metis map_append)
  qed
qed

subsection \<open>What the abstract operations do to the set of free clicks\<close>

lemma join_ok:
  assumes "touch_ok (x # xs)" and "blocks_ok xs"
  shows "blocks_ok (join (x # xs)) \<and> clicks_in (join (x # xs)) = clicks_in (x # xs) \<and>
    join (x # xs) \<noteq> [] \<and> fst (hd (join (x # xs))) = fst x"
proof (cases xs)
  case Nil
  then show ?thesis using assms by (cases x) (auto simp: blocks_ok_def touch_ok_def)
next
  case (Cons y ys)
  obtain b l b' l' where xy: "x = (b, l)" "y = (b', l')" by (cases x, cases y)
  show ?thesis
  proof (cases "b + l = b'")
    case True
    then have "{b..<b + (l + l')} = {b..<b + l} \<union> {b'..<b' + l'}" by auto
    then show ?thesis using assms Cons xy True
      by (auto simp: touch_ok_Cons blocks_ok_Cons fits_def apart_def below_def)
  next
    case False
    then show ?thesis using assms Cons xy
      by (auto simp: touch_ok_Cons blocks_ok_Cons fits_def apart_def below_def)
  qed
qed

lemma join3_ok:
  assumes "touch_ok (x # y # ys)" and "blocks_ok ys"
  shows "blocks_ok (join3 (x # y # ys)) \<and> clicks_in (join3 (x # y # ys)) = clicks_in (x # y # ys) \<and>
    join3 (x # y # ys) \<noteq> [] \<and> fst (hd (join3 (x # y # ys))) = fst x"
proof -
  obtain b l b' l' where xy: "x = (b, l)" "y = (b', l')" by (cases x, cases y)
  show ?thesis
  proof (cases "b + l = b'")
    case True
    then have eq: "{b..<b + (l + l')} = {b..<b + l} \<union> {b'..<b' + l'}" by auto
    have "touch_ok ((b, l + l') # ys)"
      using assms(1) xy True by (auto simp: touch_ok_Cons fits_def below_def)
    from join_ok [OF this assms(2)] show ?thesis using xy True eq by auto
  next
    case False
    have "touch_ok (y # ys)" using assms(1) by (simp add: touch_ok_Cons)
    note j = join_ok [OF this assms(2)]
    have "blocks_ok (x # join (y # ys))"
      using j assms(1) xy False by (auto simp: blocks_ok_Cons touch_ok_Cons apart_def below_def)
    then show ?thesis using j xy False by simp
  qed
qed

lemma release_ok:
  assumes ok: "blocks_ok xs" and new: "fits (b, l)" "{b..<b + l} \<inter> clicks_in xs = {}"
  shows "blocks_ok (release b l xs)" and "clicks_in (release b l xs) = clicks_in xs \<union> {b..<b + l}"
proof -
  define lo hi where "lo = takeWhile (\<lambda>x. fst x < b) xs" and "hi = dropWhile (\<lambda>x. fst x < b) xs"
  note t = touch_ok_release [OF ok new, folded lo_def hi_def]
  have xs: "xs = lo @ hi" by (simp add: lo_def hi_def)
  have rel: "release b l xs = (if lo = [] then join3 ((b, l) # hi)
      else butlast lo @ join3 (last lo # (b, l) # hi))"
    by (simp add: release_def Let_def lo_def hi_def)
  have "blocks_ok (release b l xs) \<and> clicks_in (release b l xs) = clicks_in xs \<union> {b..<b + l}"
  proof (cases lo rule: rev_cases)
    case Nil
    show ?thesis
    proof (cases hi)
      case Nil
      then show ?thesis using \<open>lo = []\<close> rel xs new by (auto simp: blocks_ok_Cons)
    next
      case (Cons h hs)
      have "blocks_ok hs" using t(3) Cons by (simp add: blocks_ok_Cons)
      with join3_ok [of "(b, l)" h hs] t(1) show ?thesis using Nil Cons rel xs by auto
    qed
  next
    case (snoc lo' p)
    have "touch_ok (p # (b, l) # hi)" using t(1) snoc by simp
    note j = join3_ok [OF this t(3)]
    have "blocks_ok lo'" "lo' \<noteq> [] \<Longrightarrow> apart (last lo') p"
      using t(2) snoc by (auto simp: blocks_ok_append)
    then have "blocks_ok (lo' @ join3 (p # (b, l) # hi))"
      using j by (auto simp: blocks_ok_append apart_def)
    then show ?thesis using j snoc rel xs by auto
  qed
  then show "blocks_ok (release b l xs)"
    and "clicks_in (release b l xs) = clicks_in xs \<union> {b..<b + l}" by auto
qed

text \<open>A run of free clicks lies inside one hole.\<close>

lemma run_in_block:
  assumes "blocks_ok xs" and "{b..<b + c} \<subseteq> clicks_in xs" and "0 < c"
  shows "\<exists>x\<in>set xs. c \<le> snd x"
  using assms
proof (induction xs)
  case Nil
  then show ?case by auto
next
  case (Cons x xs)
  have above: "\<And>k. k \<in> clicks_in xs \<Longrightarrow> fst x + snd x < k"
    using clicks_in_above [OF Cons.prems(1)] by auto
  have ok: "blocks_ok xs" using Cons.prems(1) by (simp add: blocks_ok_Cons)
  have b: "b \<in> clicks_in (x # xs)" using Cons.prems(2,3) by (auto simp: subset_eq)
  show ?case
  proof (cases "b \<in> {fst x..<fst x + snd x}")
    case True
    have "b + c \<le> fst x + snd x"
    proof (rule ccontr)
      assume "\<not> b + c \<le> fst x + snd x"
      then have "fst x + snd x \<in> {b..<b + c}" using True by auto
      then have "fst x + snd x \<in> clicks_in xs" using Cons.prems(2) by auto
      then show False using above by auto
    qed
    then show ?thesis using True by auto
  next
    case False
    then have "b \<in> clicks_in xs" using b by auto
    then have "fst x + snd x < b" by (rule above)
    then have "{b..<b + c} \<inter> {fst x..<fst x + snd x} = {}" by auto
    then have "{b..<b + c} \<subseteq> clicks_in xs" using Cons.prems(2) by auto
    then show ?thesis using Cons.IH [OF ok] Cons.prems(3) by auto
  qed
qed

subsection \<open>The allocator seen from outside\<close>

definition hole_ids :: "hole_tab \<Rightarrow> nat list" where
  "hole_ids s = follow NR_HOLES (nexts s) (hole_head s)"

definition slot_ids :: "hole_tab \<Rightarrow> nat list" where
  "slot_ids s = follow NR_HOLES (nexts s) (free_slots s)"

definition hole_blocks :: "hole_tab \<Rightarrow> (nat \<times> nat) list" where
  "hole_blocks s = blocks s (hole_ids s)"

definition pool_ok :: "hole_tab \<Rightarrow> bool" where
  "pool_ok s \<longleftrightarrow> table_ok s (hole_ids s) (slot_ids s) \<and> blocks_ok (hole_blocks s)"

definition avail :: "hole_tab \<Rightarrow> nat set" where
  "avail s = clicks_in (hole_blocks s)"

lemma table_ids:
  assumes "table_ok s hs fs"
  shows "hole_ids s = hs" and "slot_ids s = fs"
proof -
  have "length hs \<le> NR_HOLES" "length fs \<le> NR_HOLES"
    using assms chain_length [of "nexts s" "hole_head s" hs NR_HOLES]
      chain_length [of "nexts s" "free_slots s" fs NR_HOLES] by (auto simp: table_ok_def)
  then show "hole_ids s = hs" "slot_ids s = fs"
    using assms by (auto simp: hole_ids_def slot_ids_def table_ok_def follow_chain)
qed

lemma pool_okI: "table_ok s hs fs \<Longrightarrow> blocks_ok (blocks s hs) \<Longrightarrow> pool_ok s"
  by (auto simp: pool_ok_def table_ids hole_blocks_def)

lemma pool_okD:
  "pool_ok s \<Longrightarrow> table_ok s (hole_ids s) (slot_ids s)"
  "pool_ok s \<Longrightarrow> blocks_ok (hole_blocks s)"
  by (simp_all add: pool_ok_def)

lemma avail_bound: "pool_ok s \<Longrightarrow> avail s \<subseteq> {..<65536}"
  by (auto simp: avail_def pool_ok_def dest: clicks_in_bound)

lemma table_size:
  assumes "table_ok s hs fs"
  shows "length hs + length fs = NR_HOLES"
proof -
  have "card (set (hs @ fs)) = length (hs @ fs)"
    using assms by (intro distinct_card) (auto simp: table_ok_def)
  then show ?thesis using assms by (simp add: table_ok_def)
qed

lemma first_fit_length: "first_fit c xs = Some (b, ys) \<Longrightarrow> length ys \<le> length xs"
  by (induction xs arbitrary: ys) (auto simp: first_fit_Cons split: if_splits)

lemma alloc_none: "pool_ok s \<Longrightarrow> first_fit (unat c) (hole_blocks s) = None \<Longrightarrow>
    alloc_mem s c = Done (NO_MEM, s)"
  using alloc_mem_fails [OF pool_okD(1)] by (simp add: hole_blocks_def)

lemma alloc_some:
  assumes "pool_ok s" and "first_fit (unat c) (hole_blocks s) = Some (b, ys)"
  shows "\<exists>s'. alloc_mem s c = Done (word_of_nat b, s') \<and> pool_ok s' \<and> hole_blocks s' = ys"
proof -
  have "blocks_ok ys" using first_fit_Some [OF assms(2) pool_okD(2) [OF assms(1)]] by simp
  with alloc_mem_takes [OF pool_okD(1) [OF assms(1)]] assms show ?thesis
    by (metis pool_okD(2) hole_blocks_def pool_okI table_ids(1))
qed

lemma free_some:
  assumes "pool_ok s" and "fits (unat b, unat l)"
    and "{unat b..<unat b + unat l} \<inter> avail s = {}" and "slot_ids s \<noteq> []"
  shows "\<exists>s'. free_mem s b l = Done s' \<and> pool_ok s' \<and>
    hole_blocks s' = release (unat b) (unat l) (hole_blocks s)"
proof -
  note d = pool_okD [OF assms(1), unfolded hole_blocks_def]
  obtain s' hs' fs' where s': "free_mem s b l = Done s'" "table_ok s' hs' fs'"
    "blocks s' hs' = release (unat b) (unat l) (hole_blocks s)"
    using free_mem_refines [OF d assms(2) _ assms(4)] assms(3)
    unfolding avail_def hole_blocks_def by auto
  have "blocks_ok (blocks s' hs')"
    using release_ok(1) pool_okD(2) [OF assms(1)] assms(2,3) s'(3) by (simp add: avail_def)
  then show ?thesis using s' by (metis pool_okI table_ids(1) hole_blocks_def)
qed

lemma free_panics: "slot_ids s = [] \<Longrightarrow> pool_ok s \<Longrightarrow> free_mem s b l = Panics ''Hole table full''"
  using pool_okD(1) [of s] by (simp add: free_mem_def table_ok_def)

subsection \<open>The contract fork, exec and exit rely on\<close>

text \<open>
  An allocator of clicks: a successful request takes a run of available clicks out of the
  pool, a failed one changes nothing and means that no such run exists, and returning a
  run puts it back.  \<open>slots\<close> bounds how many more separate runs the pool can describe.
\<close>

locale click_pool =
  fixes alloc :: "'s \<Rightarrow> u16 \<Rightarrow> (u16 \<times> 's) run"
    and release_mem :: "'s \<Rightarrow> u16 \<Rightarrow> u16 \<Rightarrow> 's run"
    and ok :: "'s \<Rightarrow> bool"
    and free_clicks :: "'s \<Rightarrow> nat set"
    and has_slot :: "'s \<Rightarrow> bool"
  assumes alloc_takes:
      "ok s \<Longrightarrow> {p..<p + unat c} \<subseteq> free_clicks s \<Longrightarrow> 0 < c \<Longrightarrow>
       \<exists>r s'. alloc s c = Done (r, s') \<and> ok s' \<and> {unat r..<unat r + unat c} \<subseteq> free_clicks s \<and>
         free_clicks s' = free_clicks s - {unat r..<unat r + unat c} \<and> (has_slot s \<longrightarrow> has_slot s')"
    and alloc_refuses:
      "ok s \<Longrightarrow> \<forall>p. \<not> {p..<p + unat c} \<subseteq> free_clicks s \<Longrightarrow> alloc s c = Done (NO_MEM, s)"
    and release_returns:
      "ok s \<Longrightarrow> 0 < l \<Longrightarrow> unat b + unat l < 65536 \<Longrightarrow>
       {unat b..<unat b + unat l} \<inter> free_clicks s = {} \<Longrightarrow> has_slot s \<Longrightarrow>
       \<exists>s'. release_mem s b l = Done s' \<and> ok s' \<and>
         free_clicks s' = free_clicks s \<union> {unat b..<unat b + unat l}"
    and clicks_bounded: "ok s \<Longrightarrow> free_clicks s \<subseteq> {..<65535}"
begin

lemma alloc_cases:
  assumes "ok s" and "0 < c"
  shows "\<exists>r s'. alloc s c = Done (r, s') \<and> ok s' \<and>
    (if \<exists>b. {b..<b + unat c} \<subseteq> free_clicks s
     then {unat r..<unat r + unat c} \<subseteq> free_clicks s \<and>
       free_clicks s' = free_clicks s - {unat r..<unat r + unat c}
     else r = NO_MEM \<and> s' = s)"
proof (cases "\<exists>b. {b..<b + unat c} \<subseteq> free_clicks s")
  case True
  then show ?thesis using alloc_takes [OF assms(1) _ assms(2)] by metis
next
  case False
  then show ?thesis using alloc_refuses [OF assms(1)] assms(1) by auto
qed

lemma alloc_never_faults: "ok s \<Longrightarrow> 0 < c \<Longrightarrow> \<exists>r s'. alloc s c = Done (r, s') \<and> ok s'"
  using alloc_cases [of s c] by blast

lemma nonzero_base:
  assumes "ok s" and "0 < c" and "0 \<notin> free_clicks s" and "alloc s c = Done (r, s')"
  shows "r = NO_MEM \<longleftrightarrow> \<not> (\<exists>b. {b..<b + unat c} \<subseteq> free_clicks s)"
proof (cases "\<exists>b. {b..<b + unat c} \<subseteq> free_clicks s")
  case True
  then have "{unat r..<unat r + unat c} \<subseteq> free_clicks s"
    using alloc_cases [OF assms(1,2)] assms(4) by auto
  moreover have "0 < unat c" using assms(2) by (simp add: word_less_nat_alt)
  ultimately have "unat r \<in> free_clicks s" by auto
  then have "r \<noteq> NO_MEM" using assms(3) by (auto simp: NO_MEM_def)
  then show ?thesis using True by simp
next
  case False
  then show ?thesis using alloc_refuses [OF assms(1)] assms(4) by auto
qed

lemma alloc_release:
  assumes "ok s" "has_slot s" "0 < c" "{b..<b + unat c} \<subseteq> free_clicks s"
    and "alloc s c = Done (r, s')"
  shows "\<exists>s''. release_mem s' r c = Done s'' \<and> ok s'' \<and> free_clicks s'' = free_clicks s"
proof -
  have s': "ok s'" "{unat r..<unat r + unat c} \<subseteq> free_clicks s"
    "free_clicks s' = free_clicks s - {unat r..<unat r + unat c}" "has_slot s'"
    using alloc_takes [OF assms(1,4,3)] assms(2,5) by auto
  have "unat r + unat c - 1 \<in> {unat r..<unat r + unat c}"
    using assms(3) by (auto simp: word_less_nat_alt)
  then have "unat r + unat c - 1 < 65535" using s'(2) clicks_bounded [OF assms(1)] by blast
  then have "unat r + unat c < 65536" by simp
  moreover have "{unat r..<unat r + unat c} \<inter> free_clicks s' = {}" using s'(3) by auto
  ultimately show ?thesis using release_returns [OF s'(1) assms(3) _ _ s'(4)] s'(2,3) by (metis Diff_partition sup_commute)
qed

lemma two_allocs_disjoint:
  assumes "ok s" "0 < c" "0 < d"
    and "alloc s c = Done (r, s')" "\<exists>b. {b..<b + unat c} \<subseteq> free_clicks s"
    and "alloc s' d = Done (q, s'')" "\<exists>b. {b..<b + unat d} \<subseteq> free_clicks s'"
  shows "{unat r..<unat r + unat c} \<inter> {unat q..<unat q + unat d} = {}"
proof -
  have s': "ok s'" "free_clicks s' = free_clicks s - {unat r..<unat r + unat c}"
    using alloc_cases [OF assms(1,2)] assms(4,5) by auto
  have "{unat q..<unat q + unat d} \<subseteq> free_clicks s'"
    using alloc_cases [OF s'(1) assms(3)] assms(6,7) by auto
  then show ?thesis using s'(2) by blast
qed

end

text \<open>The code's allocator keeps the contract.\<close>

lemma alloc_mem_takes_run:
  assumes ok: "pool_ok s" and run: "{b..<b + unat c} \<subseteq> avail s" and pos: "0 < c"
  shows "\<exists>r s'. alloc_mem s c = Done (r, s') \<and> pool_ok s' \<and>
    {unat r..<unat r + unat c} \<subseteq> avail s \<and> avail s' = avail s - {unat r..<unat r + unat c} \<and>
    (slot_ids s \<noteq> [] \<longrightarrow> slot_ids s' \<noteq> [])"
proof -
  have c: "0 < unat c" using pos by (simp add: word_less_nat_alt)
  obtain x where "x \<in> set (hole_blocks s)" "unat c \<le> snd x"
    using run_in_block [OF pool_okD(2) [OF ok]] run c unfolding avail_def by blast
  then have "first_fit (unat c) (hole_blocks s) \<noteq> None" by (auto simp: first_fit_None not_less)
  then obtain p ys where ff: "first_fit (unat c) (hole_blocks s) = Some (p, ys)" by auto
  note fs = first_fit_Some [OF ff pool_okD(2) [OF ok]]
  obtain s' where s': "alloc_mem s c = Done (word_of_nat p, s')" "pool_ok s'" "hole_blocks s' = ys"
    using alloc_some [OF ok ff] by blast
  have "p \<in> {p..<p + unat c}" using c by simp
  then have "p \<in> avail s" using fs unfolding avail_def by blast
  then have "p < 65536" using avail_bound [OF ok] by auto
  then have p: "unat (word_of_nat p :: u16) = p" by (simp add: unat_of_nat)
  have "slot_ids s \<noteq> [] \<longrightarrow> slot_ids s' \<noteq> []"
    using first_fit_length [OF ff] table_size [OF pool_okD(1) [OF ok]]
      table_size [OF pool_okD(1) [OF s'(2)]] s'(3)
    by (cases "slot_ids s") (auto simp: hole_blocks_def)
  then show ?thesis using s' fs p unfolding avail_def by auto
qed

lemma alloc_mem_refuses:
  assumes "pool_ok s" and "\<forall>p. \<not> {p..<p + unat c} \<subseteq> avail s"
  shows "alloc_mem s c = Done (NO_MEM, s)"
proof -
  have "first_fit (unat c) (hole_blocks s) = None"
  proof (rule ccontr)
    assume "first_fit (unat c) (hole_blocks s) \<noteq> None"
    then obtain p ys where "first_fit (unat c) (hole_blocks s) = Some (p, ys)" by auto
    from first_fit_Some [OF this pool_okD(2) [OF assms(1)]] assms(2) show False
      by (auto simp: avail_def)
  qed
  then show ?thesis using alloc_none assms(1) by blast
qed

lemma free_mem_returns_run:
  assumes "pool_ok s" "0 < l" "unat b + unat l < 65536"
    and "{unat b..<unat b + unat l} \<inter> avail s = {}" "slot_ids s \<noteq> []"
  shows "\<exists>s'. free_mem s b l = Done s' \<and> pool_ok s' \<and>
    avail s' = avail s \<union> {unat b..<unat b + unat l}"
proof -
  have f: "fits (unat b, unat l)" using assms(2,3) by (simp add: fits_def word_less_nat_alt)
  from free_some [OF assms(1) f assms(4,5)]
    release_ok(2) [OF pool_okD(2) [OF assms(1)] f] assms(4)
  show ?thesis by (auto simp: avail_def)
qed

interpretation pool: click_pool alloc_mem free_mem pool_ok avail "\<lambda>s. slot_ids s \<noteq> []"
proof unfold_locales
  show "avail s \<subseteq> {..<65535}" if "pool_ok s" for s
    using that by (auto simp: avail_def pool_ok_def blocks_ok_def clicks_in_def fits_def)
qed (use alloc_mem_takes_run alloc_mem_refuses free_mem_returns_run in blast)+

subsection \<open>max_hole, mem_left and mem_init\<close>

lemma hole_scan_ok:
  assumes "chain (nexts s) hp ys" and "length ys < n"
  shows "hole_scan n s hp f acc = Done (fold (\<lambda>i. f (h_len (hole s i))) ys acc)"
  using assms
proof (induction ys arbitrary: hp acc n)
  case Nil
  then show ?case by (cases n) auto
next
  case (Cons y ys)
  then show ?case by (cases n) (auto simp: h_next_nexts)
qed

lemma hole_scan_table:
  assumes "pool_ok s"
  shows "hole_scan (Suc NR_HOLES) s (hole_head s) f acc =
    Done (fold (\<lambda>i. f (h_len (hole s i))) (hole_ids s) acc)"
  using pool_okD(1) [OF assms] table_ok_bound [OF pool_okD(1) [OF assms]]
  by (intro hole_scan_ok) (auto simp: table_ok_def)

lemma fold_max_le:
  fixes g :: "nat \<Rightarrow> u16"
  shows "c \<le> fold (\<lambda>i m. if m < g i then g i else m) is a \<longleftrightarrow> c \<le> a \<or> (\<exists>i\<in>set is. c \<le> g i)"
  by (induction "is" arbitrary: a) (auto simp: not_less)

lemma run_avail_iff:
  assumes "pool_ok s" and "0 < c"
  shows "(\<exists>b. {b..<b + c} \<subseteq> avail s) \<longleftrightarrow> (\<exists>x\<in>set (hole_blocks s). c \<le> snd x)"
proof
  assume "\<exists>b. {b..<b + c} \<subseteq> avail s"
  then show "\<exists>x\<in>set (hole_blocks s). c \<le> snd x"
    using run_in_block [OF pool_okD(2) [OF assms(1)]] assms(2) by (auto simp: avail_def)
next
  assume "\<exists>x\<in>set (hole_blocks s). c \<le> snd x"
  then obtain x where "x \<in> set (hole_blocks s)" "c \<le> snd x" by blast
  then have "{fst x..<fst x + c} \<subseteq> avail s" by (force simp: avail_def clicks_in_def)
  then show "\<exists>b. {b..<b + c} \<subseteq> avail s" by blast
qed

lemma max_hole_serves:
  assumes "pool_ok s"
  shows "\<exists>m. max_hole s = Done m \<and> (\<forall>c>0. c \<le> m \<longleftrightarrow> (\<exists>b. {b..<b + unat c} \<subseteq> avail s))"
proof -
  let ?m = "fold (\<lambda>i m. if m < h_len (hole s i) then h_len (hole s i) else m) (hole_ids s) 0"
  have "max_hole s = Done ?m" unfolding max_hole_def by (rule hole_scan_table [OF assms])
  moreover have "c \<le> ?m \<longleftrightarrow> (\<exists>b. {b..<b + unat c} \<subseteq> avail s)" if "0 < c" for c
  proof -
    have "0 < unat c" using that by (simp add: word_less_nat_alt)
    then show ?thesis unfolding fold_max_le run_avail_iff [OF assms \<open>0 < unat c\<close>]
      using that by (auto simp: hole_blocks_def blk_def word_le_nat_alt)
  qed
  ultimately show ?thesis by blast
qed

lemma clicks_in_card: "blocks_ok xs \<Longrightarrow> card (clicks_in xs) = sum_list (map snd xs)"
proof (induction xs)
  case Nil
  then show ?case by simp
next
  case (Cons x xs)
  have "{fst x..<fst x + snd x} \<inter> clicks_in xs = {}"
    using clicks_in_above [OF Cons.prems] by fastforce
  moreover have "finite (clicks_in xs)" by (auto simp: clicks_in_def)
  ultimately show ?case using Cons by (simp add: card_Un_disjoint blocks_ok_Cons)
qed

lemma fold_sum_word:
  "fold (\<lambda>i tot. tot + g i) is (a :: u16) = a + sum_list (map g is)"
  by (induction "is" arbitrary: a) (simp_all add: algebra_simps)

lemma unat_sum_list:
  "sum_list (map (\<lambda>i. unat (g i :: u16)) is) < 65536 \<Longrightarrow>
   unat (sum_list (map g is)) = sum_list (map (\<lambda>i. unat (g i)) is)"
  by (induction "is") (simp_all add: unat_word_ariths)

lemma release_length: "length (release b l xs) \<le> Suc (length xs)"
proof -
  have j: "length (join ys) \<le> length ys" for ys by (induction ys rule: join.induct) auto
  have j3: "length (join3 ys) \<le> length ys" for ys
  proof (induction ys rule: join3.induct)
    case (1 b l b' l' xs)
    then show ?case using j [of "(b, l + l') # xs"] j [of "(b', l') # xs"] by auto
  qed auto
  let ?lo = "takeWhile (\<lambda>x. fst x < b) xs" and ?hi = "dropWhile (\<lambda>x. fst x < b) xs"
  have len: "length ?lo + length ?hi = length xs" by (metis length_append takeWhile_dropWhile_id)
  show ?thesis
  proof (cases "?lo = []")
    case True
    then show ?thesis using j3 [of "(b, l) # ?hi"] len by (simp add: release_def)
  next
    case False
    then have "0 < length ?lo" by simp
    then show ?thesis using False j3 [of "last ?lo # (b, l) # ?hi"] len
      by (simp add: release_def Let_def del: length_greater_0_conv)
  qed
qed

definition chunks_ok :: "(u16 \<times> u16) list \<Rightarrow> bool" where
  "chunks_ok cs \<longleftrightarrow>
     (\<forall>(b, l)\<in>set cs. 0 < l \<and> unat b + unat l < 65536) \<and>
     sorted_wrt (\<lambda>(b, l) (b', l').
       {unat b..<unat b + unat l} \<inter> {unat b'..<unat b' + unat l'} = {}) cs"

definition chunk_clicks :: "(u16 \<times> u16) list \<Rightarrow> nat set" where
  "chunk_clicks cs = (\<Union>(b, l)\<in>set cs. {unat b..<unat b + unat l})"

lemma free_chunks_ok:
  assumes "pool_ok s" "chunks_ok cs" "chunk_clicks cs \<inter> avail s = {}"
    and "length cs \<le> length (slot_ids s)"
  shows "\<exists>s'. free_chunks s cs = Done s' \<and> pool_ok s' \<and> avail s' = avail s \<union> chunk_clicks cs"
  using assms
proof (induction cs arbitrary: s)
  case Nil
  then show ?case by (simp add: chunk_clicks_def)
next
  case (Cons c cs)
  obtain b l where c: "c = (b, l)" by (cases c)
  have bl: "0 < l" "unat b + unat l < 65536" and cs: "chunks_ok cs"
    and dis: "{unat b..<unat b + unat l} \<inter> chunk_clicks cs = {}"
    using Cons.prems(2) c by (auto simp: chunks_ok_def chunk_clicks_def)
  have cc: "chunk_clicks (c # cs) = {unat b..<unat b + unat l} \<union> chunk_clicks cs"
    by (simp add: chunk_clicks_def c)
  have dis': "{unat b..<unat b + unat l} \<inter> avail s = {}" using Cons.prems(3) cc by blast
  have room: "slot_ids s \<noteq> []" using Cons.prems(4) by auto
  have f: "fits (unat b, unat l)" using bl by (simp add: fits_def word_less_nat_alt)
  obtain s' where s': "free_mem s b l = Done s'" "pool_ok s'"
    "hole_blocks s' = release (unat b) (unat l) (hole_blocks s)"
    using free_some [OF Cons.prems(1) f dis' room] by blast
  have av: "avail s' = avail s \<union> {unat b..<unat b + unat l}"
    using release_ok(2) [OF pool_okD(2) [OF Cons.prems(1)] f] dis' s'(3) by (simp add: avail_def)
  have "length (hole_blocks s') \<le> Suc (length (hole_blocks s))"
    using s'(3) release_length by simp
  then have "length cs \<le> length (slot_ids s')"
    using Cons.prems(4) table_size [OF pool_okD(1) [OF Cons.prems(1)]]
      table_size [OF pool_okD(1) [OF s'(2)]] by (simp add: hole_blocks_def)
  moreover have "chunk_clicks cs \<inter> avail s' = {}" using av dis Cons.prems(3) cc by blast
  ultimately obtain t where "free_chunks s' cs = Done t" "pool_ok t"
    "avail t = avail s' \<union> chunk_clicks cs" using Cons.IH [OF s'(2) cs] by blast
  moreover have "free_chunks s (c # cs) = free_chunks s' cs" using s'(1) bl(1) c by (auto simp: word_less_nat_alt)
  ultimately show ?case using av cc by (simp add: Un_assoc)
qed

lemma mem_clear_ok: "pool_ok mem_clear" "hole_blocks mem_clear = []"
  "length (slot_ids mem_clear) = NR_HOLES"
proof -
  have "chain (nexts mem_clear) (if 0 < NR_HOLES then Some 0 else None) [0..<NR_HOLES]"
    by (rule chain_upt) (auto simp: nexts_def mem_clear_def)
  then have t: "table_ok mem_clear [] [0..<NR_HOLES]"
    by (auto simp: table_ok_def mem_clear_def NR_HOLES_def)
  show "pool_ok mem_clear" using t by (rule pool_okI) simp
  show "hole_blocks mem_clear = []" "length (slot_ids mem_clear) = NR_HOLES"
    using table_ids [OF t] by (simp_all add: hole_blocks_def)
qed

subsection \<open>Properties\<close>

text \<open>A concrete pool, used by the witnesses: one chunk of 256 clicks from click 16.\<close>

lemma small_pool: "\<exists>s. mem_init [(16, 256)] = Done s \<and> pool_ok s \<and> avail s = {16..<272} \<and>
    slot_ids s \<noteq> []"
proof -
  have "chunks_ok [(16, 256)]" by (simp add: chunks_ok_def)
  then obtain s where s: "mem_init [(16, 256)] = Done s" "pool_ok s"
    "avail s = avail mem_clear \<union> chunk_clicks [(16, 256)]"
    using free_chunks_ok [of mem_clear "[(16, 256)]"] mem_clear_ok
    by (auto simp: mem_init_def avail_def NR_HOLES_def)
  have "hole_blocks s = [(16, 256)]"
  proof -
    have f: "fits (unat (16::u16), unat (256::u16))" by (simp add: fits_def)
    have "slot_ids mem_clear \<noteq> []" using mem_clear_ok(3) by (auto simp: NR_HOLES_def)
    then obtain u where "free_mem mem_clear 16 256 = Done u"
      "hole_blocks u = release (unat (16::u16)) (unat (256::u16)) (hole_blocks mem_clear)"
      using free_some [OF mem_clear_ok(1) f] mem_clear_ok(2) by (auto simp: avail_def)
    moreover have "mem_init [(16, 256)] = free_mem mem_clear 16 256" by (simp add: mem_init_def)
    ultimately show ?thesis using s(1) mem_clear_ok(2) by (simp add: release_def)
  qed
  then have "length (slot_ids s) \<noteq> 0"
    using table_size [OF pool_okD(1) [OF s(2)]] by (auto simp: hole_blocks_def NR_HOLES_def)
  moreover have "avail s = {16..<272}"
    using s(3) mem_clear_ok(2) by (simp add: avail_def chunk_clicks_def)
  ultimately show ?thesis using s by auto
qed

text \<open>
  C1: alloc_mem is first fit.  In a well-formed hole table the request is served from the
  lowest hole that is long enough, from its low end; a hole that is used up leaves the list
  and its slot joins the free slots; when no hole is long enough the table is unchanged and
  NO_MEM is returned.  The loop always ends and no nil pointer is followed.
\<close>
theorem alloc_mem_first_fit:
  assumes "pool_ok s"
  shows "case first_fit (unat c) (hole_blocks s) of
      None \<Rightarrow> alloc_mem s c = Done (NO_MEM, s)
    | Some (b, ys) \<Rightarrow> \<exists>s'. alloc_mem s c = Done (word_of_nat b, s') \<and> pool_ok s' \<and> hole_blocks s' = ys"
  using alloc_none [OF assms] alloc_some [OF assms] by (auto split: option.splits)

theorem alloc_mem_first_fit_witness:
  "pool_ok mem_clear \<and> alloc_mem mem_clear 5 = Done (NO_MEM, mem_clear)"
  using alloc_mem_first_fit [OF mem_clear_ok(1), of 5] mem_clear_ok by simp

text \<open>
  C2: free_mem returns exactly the block to the pool and coalesces.  With a free table slot,
  releasing a non-empty block of clicks that are not already free adds these clicks and no
  others, and leaves a table in which holes are in address order and no two of them abut;
  with no slot left it panics.
\<close>
theorem free_mem_coalesces:
  assumes "pool_ok s" and "0 < l" and "unat b + unat l < 65536"
    and "{unat b..<unat b + unat l} \<inter> avail s = {}"
  shows "if slot_ids s = [] then free_mem s b l = Panics ''Hole table full''
    else \<exists>s'. free_mem s b l = Done s' \<and> pool_ok s' \<and>
      hole_blocks s' = release (unat b) (unat l) (hole_blocks s) \<and>
      avail s' = avail s \<union> {unat b..<unat b + unat l}"
proof (cases "slot_ids s = []")
  case True
  then show ?thesis using free_panics assms(1) by simp
next
  case False
  have f: "fits (unat b, unat l)" using assms(2,3) by (simp add: fits_def word_less_nat_alt)
  show ?thesis
    using False free_some [OF assms(1) f assms(4) False] assms(4)
      release_ok(2) [OF pool_okD(2) [OF assms(1)] f] by (auto simp: avail_def)
qed

theorem free_mem_coalesces_witness:
  "\<exists>s s'. pool_ok s \<and> free_mem s 272 8 = Done s' \<and> pool_ok s' \<and> avail s' = {16..<280}"
proof -
  obtain s where s: "pool_ok s" "avail s = {16..<272}" "slot_ids s \<noteq> []" using small_pool by blast
  moreover have "{16..<272} \<union> {272..<280} = {16..<280::nat}" by auto
  ultimately show ?thesis using free_mem_coalesces [of s 8 272] by auto
qed

text \<open>
  C3: allocating and then freeing is the identity on the pool.  Whatever alloc_mem hands out
  for a satisfiable request was free, is no longer free afterwards, and free_mem of it puts
  the pool back as it was.
\<close>
theorem alloc_free_roundtrip:
  assumes "pool_ok s" "slot_ids s \<noteq> []" "0 < c" "{p..<p + unat c} \<subseteq> avail s"
    and "alloc_mem s c = Done (r, s')"
  shows "{unat r..<unat r + unat c} \<subseteq> avail s - avail s' \<and>
    (\<exists>s''. free_mem s' r c = Done s'' \<and> pool_ok s'' \<and> avail s'' = avail s)"
  using pool.alloc_release [OF assms] pool.alloc_takes [OF assms(1,4,3)] assms(5) by auto

theorem alloc_free_roundtrip_witness:
  "\<exists>s r s' s''. avail s = {16..<272} \<and> alloc_mem s 100 = Done (r, s') \<and>
     free_mem s' r 100 = Done s'' \<and> avail s'' = avail s"
proof -
  obtain s where s: "pool_ok s" "avail s = {16..<272}" "slot_ids s \<noteq> []" using small_pool by blast
  obtain r s' where a: "alloc_mem s 100 = Done (r, s')"
    using pool.alloc_never_faults [OF s(1), of 100] by auto
  have "{16..<16 + unat (100 :: u16)} \<subseteq> avail s" using s(2) by auto
  from alloc_free_roundtrip [OF s(1,3) _ this a] s(2) a show ?thesis by auto
qed

text \<open>
  C4: two live allocations never overlap.
\<close>
theorem allocations_disjoint:
  assumes "pool_ok s" "0 < c" "0 < d"
    and "alloc_mem s c = Done (r, s')" "\<exists>b. {b..<b + unat c} \<subseteq> avail s"
    and "alloc_mem s' d = Done (q, s'')" "\<exists>b. {b..<b + unat d} \<subseteq> avail s'"
  shows "{unat r..<unat r + unat c} \<inter> {unat q..<unat q + unat d} = {}"
  using assms by (rule pool.two_allocs_disjoint)

theorem allocations_disjoint_witness:
  "\<exists>s r s' q s''. alloc_mem s 100 = Done (r, s') \<and> alloc_mem s' 50 = Done (q, s'') \<and>
     {unat r..<unat r + 100} \<inter> {unat q..<unat q + 50} = {}"
proof -
  obtain s where s: "pool_ok s" "avail s = {16..<272}" using small_pool by blast
  obtain r s' where a: "alloc_mem s 100 = Done (r, s')" "pool_ok s'"
    using pool.alloc_never_faults [OF s(1), of 100] by auto
  obtain q s'' where b: "alloc_mem s' 50 = Done (q, s'')"
    using pool.alloc_never_faults [OF a(2), of 50] by auto
  have run: "{16..<16 + unat (100 :: u16)} \<subseteq> avail s" using s(2) by auto
  have r: "{unat r..<unat r + 100} \<subseteq> {16..<272}" "avail s' = {16..<272} - {unat r..<unat r + 100}"
    using pool.alloc_takes [OF s(1) run] a(1) s(2) by auto
  have "{16..<16 + unat (50 :: u16)} \<subseteq> avail s' \<or> {222..<222 + unat (50 :: u16)} \<subseteq> avail s'"
    using r by (auto simp: subset_iff)
  then have "\<exists>p. {p..<p + unat (50 :: u16)} \<subseteq> avail s'" by blast
  moreover have "\<exists>p. {p..<p + unat (100 :: u16)} \<subseteq> avail s" using run by blast
  ultimately have "{unat r..<unat r + unat (100 :: u16)} \<inter> {unat q..<unat q + unat (50 :: u16)} = {}"
    using allocations_disjoint [OF s(1) _ _ a(1) _ b] by simp
  then have "alloc_mem s 100 = Done (r, s') \<and> alloc_mem s' 50 = Done (q, s'') \<and>
      {unat r..<unat r + 100} \<inter> {unat q..<unat q + 50} = {}" using a(1) b by simp
  then show ?thesis by blast
qed

text \<open>
  max_hole is exact: a non-zero request can be served if and only if it is at most
  max_hole.  This is what lets exec check max_hole first and then allocate without fail.
\<close>
theorem max_hole_exact:
  assumes "pool_ok s"
  shows "\<exists>m. max_hole s = Done m \<and> (\<forall>c>0. c \<le> m \<longleftrightarrow> (\<exists>b. {b..<b + unat c} \<subseteq> avail s))"
  by (rule max_hole_serves [OF assms])

theorem max_hole_exact_witness:
  "\<exists>s m. pool_ok s \<and> max_hole s = Done m \<and> 256 \<le> m \<and> \<not> 257 \<le> m"
proof -
  obtain s where s: "pool_ok s" "avail s = {16..<272}" using small_pool by blast
  obtain m where m: "max_hole s = Done m"
    "\<And>c. 0 < c \<Longrightarrow> c \<le> m \<longleftrightarrow> (\<exists>b. {b..<b + unat c} \<subseteq> avail s)"
    using max_hole_exact [OF s(1)] by blast
  have "\<exists>b. {b..<b + unat (256::u16)} \<subseteq> avail s" using s(2) by (intro exI [of _ 16]) auto
  moreover have "\<not> (\<exists>b. {b..<b + unat (257::u16)} \<subseteq> avail s)"
  proof
    assume "\<exists>b. {b..<b + unat (257::u16)} \<subseteq> avail s"
    then obtain b :: nat where "{b..<b + 257} \<subseteq> {16..<272}" using s(2) by auto
    then have "card {b..<b + 257} \<le> card {16..<272::nat}" by (intro card_mono) auto
    then show False by simp
  qed
  ultimately show ?thesis using m(1) m(2) [of 256] m(2) [of 257] s(1) by auto
qed

text \<open>
  mem_left is the number of free clicks.
\<close>
theorem mem_left_counts:
  assumes "pool_ok s"
  shows "\<exists>m. mem_left s = Done m \<and> unat m = card (avail s)"
proof -
  let ?m = "fold (\<lambda>i tot. tot + h_len (hole s i)) (hole_ids s) 0"
  have "mem_left s = Done ?m" unfolding mem_left_def by (rule hole_scan_table [OF assms])
  moreover have "card (avail s) = sum_list (map (\<lambda>i. unat (h_len (hole s i))) (hole_ids s))"
    using clicks_in_card [OF pool_okD(2) [OF assms]]
    by (simp add: avail_def hole_blocks_def blk_def comp_def)
  moreover have "card (avail s) < 65536"
  proof -
    have "card (avail s) \<le> card {..<65535::nat}"
      by (intro card_mono pool.clicks_bounded assms) simp
    then show ?thesis by simp
  qed
  ultimately show ?thesis by (simp add: fold_sum_word unat_sum_list)
qed

theorem mem_left_counts_witness: "\<exists>s m. pool_ok s \<and> mem_left s = Done m \<and> unat m = 256"
proof -
  obtain s where "pool_ok s" "avail s = {16..<272}" using small_pool by blast
  then show ?thesis using mem_left_counts [of s] by auto
qed

text \<open>
  mem_init builds a well-formed pool that holds exactly the chunks of memory the kernel
  reports, for up to NR_HOLES disjoint non-empty chunks.
\<close>
theorem mem_init_pool:
  assumes "chunks_ok cs" and "length cs \<le> NR_HOLES"
  shows "\<exists>s. mem_init cs = Done s \<and> pool_ok s \<and> avail s = chunk_clicks cs"
  using free_chunks_ok [OF mem_clear_ok(1) assms(1)] assms(2) mem_clear_ok
  by (simp add: mem_init_def avail_def)

theorem mem_init_pool_witness:
  "\<exists>s. mem_init [(8, 100), (2000, 48)] = Done s \<and> pool_ok s \<and> avail s = {8..<108} \<union> {2000..<2048}"
  using mem_init_pool [of "[(8, 100), (2000, 48)]"]
  by (simp add: chunks_ok_def chunk_clicks_def NR_HOLES_def)

end
