(* ===== verification/Kernel_State.thy ===== *)
theory Kernel_State
  imports Prelude
begin

section \<open>Kernel: the process table and the memory it manages\<close>

text \<open>
  The data of kernel/proc.h, kernel/type.h and kernel/glo.h for the 68000: the process
  table, the ready queues, the queue of held-up interrupts, and the bytes of main memory
  (the 68000 has no relocation hardware, so addresses are physical).  A pointer to a
  process-table slot is the index of the slot; slot \<open>i\<close> holds process number
  \<open>i - NR_TASKS\<close>.  The registers of a stack frame are numbered as the words of
  \<open>struct stackframe_s\<close>: 0 to 14 are d0 to a6, 15 is sp and 16 is pc.
\<close>

unbundle bit_operations_syntax

abbreviation (input) "NR_TASKS \<equiv> (9::int)"
abbreviation (input) "NR_PROCS \<equiv> (32::int)"
abbreviation (input) "LOW_USER \<equiv> (2::int)"
abbreviation (input) "NR_SLOTS \<equiv> (41::nat)"

abbreviation (input) "TASK_Q \<equiv> (0::nat)"
abbreviation (input) "SERVER_Q \<equiv> (1::nat)"
abbreviation (input) "USER_Q \<equiv> (2::nat)"
abbreviation (input) "SHADOW_Q \<equiv> (3::nat)"
abbreviation (input) "NQ \<equiv> (4::nat)"

abbreviation (input) "P_SLOT_FREE \<equiv> (1::u16)"
abbreviation (input) "NO_MAP \<equiv> (2::u16)"
abbreviation (input) "SENDING \<equiv> (4::u16)"
abbreviation (input) "RECEIVING \<equiv> (8::u16)"
abbreviation (input) "PENDING \<equiv> (16::u16)"
abbreviation (input) "SIG_PENDING \<equiv> (32::u16)"
abbreviation (input) "P_STOP \<equiv> (64::u16)"

abbreviation (input) "ANY \<equiv> (132::int)"
abbreviation (input) "HARDWARE \<equiv> (-1::int)"
abbreviation (input) "SYSTASK \<equiv> (-2::int)"
abbreviation (input) "CLOCK \<equiv> (-3::int)"
abbreviation (input) "IDLE \<equiv> (-8::int)"
abbreviation (input) "MM_PROC_NR \<equiv> (0::int)"
abbreviation (input) "FS_PROC_NR \<equiv> (1::int)"

abbreviation (input) "seg_T \<equiv> (0::nat)"
abbreviation (input) "seg_D \<equiv> (1::nat)"
abbreviation (input) "seg_S \<equiv> (2::nat)"

abbreviation (input) "reg_ret \<equiv> (0::nat)"
abbreviation (input) "reg_sp \<equiv> (15::nat)"
abbreviation (input) "reg_pc \<equiv> (16::nat)"

abbreviation (input) "CLICK_SHIFT \<equiv> (8::nat)"
abbreviation (input) "MESS_SIZE \<equiv> (26::addr)"
abbreviation (input) "HZ \<equiv> (60::int)"

abbreviation (input) "OK \<equiv> (0::int)"

record mem_map =
  mem_vir :: u16
  mem_phys :: u16
  mem_len :: u16

record proc =
  p_reg :: "nat \<Rightarrow> addr"
  p_psw :: u16
  p_splow :: addr
  p_shadow :: u16
  p_nflips :: int
  p_physio :: bool
  p_nr :: int
  p_int_blocked :: bool
  p_int_held :: bool
  p_nextheld :: ptr
  p_flags :: u16
  p_map :: "nat \<Rightarrow> mem_map"
  p_pid :: int
  user_time :: addr
  sys_time :: addr
  child_utime :: addr
  child_stime :: addr
  p_alarm :: addr
  p_callerq :: ptr
  p_sendlink :: ptr
  p_messbuf :: addr
  p_getfrom :: int
  p_nextready :: ptr
  p_pending :: u16
  p_pendcount :: u16

record kstate =
  procs :: "nat \<Rightarrow> proc"
  rdy_head :: "nat \<Rightarrow> ptr"
  rdy_tail :: "nat \<Rightarrow> ptr"
  held_head :: ptr
  held_tail :: ptr
  proc_ptr :: nat
  bill_ptr :: nat
  switching :: bool
  k_reenter :: int
  sig_procs :: int
  kmem :: "addr \<Rightarrow> 8 word"
  sys_m :: addr
  realtime :: addr
  pending_ticks :: addr
  next_alarm :: addr
  boot_time :: addr
  sched_ticks :: int
  prev_ptr :: ptr
  mc :: addr
  watch_dog :: "nat \<Rightarrow> addr"
  flipwait :: int

subsection \<open>The macros of proc.h\<close>

definition isidlehardware :: "int \<Rightarrow> bool" where
  "isidlehardware n = (n = IDLE \<or> n = HARDWARE)"

definition isokprocn :: "int \<Rightarrow> bool" where
  "isokprocn n = (0 \<le> n + NR_TASKS \<and> n + NR_TASKS < NR_PROCS + NR_TASKS)"

definition isoksrc_dest :: "int \<Rightarrow> bool" where
  "isoksrc_dest n = (isokprocn n \<or> n = ANY)"

definition isoksusern :: "int \<Rightarrow> bool" where
  "isoksusern n = (0 \<le> n \<and> n < NR_PROCS)"

definition isokusern :: "int \<Rightarrow> bool" where
  "isokusern n = (0 \<le> n - LOW_USER \<and> n - LOW_USER < NR_PROCS - LOW_USER)"

definition isrxhardware :: "int \<Rightarrow> bool" where
  "isrxhardware n = (n = ANY \<or> n = HARDWARE)"

definition isservn :: "int \<Rightarrow> bool" where
  "isservn n = (0 \<le> n \<and> n < LOW_USER)"

definition cproc_addr :: "int \<Rightarrow> nat" where
  "cproc_addr n = nat (n + NR_TASKS)"

text \<open>The slots a loop from one entry to \<open>END_PROC_ADDR\<close> visits.\<close>

definition slots_from :: "nat \<Rightarrow> nat list" where
  "slots_from n = [n..<NR_SLOTS]"

lemma set_slots_from [simp]: "set (slots_from n) = {n..<NR_SLOTS}"
  by (simp add: slots_from_def)

text \<open>
  \<open>proc_addr(n)\<close> reads \<open>pproc_addr[NR_TASKS + n]\<close>; a number that is not a
  process number is outside that table.
\<close>

definition proc_addr :: "int \<Rightarrow> nat run" where
  "proc_addr n = (if isokprocn n then Done (cproc_addr n) else Stuck)"

definition istaskp :: "nat \<Rightarrow> bool" where
  "istaskp rp = (rp < 9 \<and> rp \<noteq> cproc_addr IDLE)"

definition isuserp :: "nat \<Rightarrow> bool" where
  "isuserp rp = (rp \<ge> 11)"

definition isshadowp :: "proc \<Rightarrow> bool" where
  "isshadowp p = (p_shadow p \<noteq> 0)"

definition upd_proc :: "nat \<Rightarrow> (proc \<Rightarrow> proc) \<Rightarrow> kstate \<Rightarrow> kstate" where
  "upd_proc i f s = s\<lparr>procs := (procs s)(i := f (procs s i))\<rparr>"

subsection \<open>Memory\<close>

text \<open>Words in memory are big-endian.  \<open>phys_copy\<close> and its click-sized relatives
  are the assembly routines of kernel/copy68k.s.\<close>

definition get16 :: "(addr \<Rightarrow> 8 word) \<Rightarrow> addr \<Rightarrow> u16" where
  "get16 m a = push_bit 8 (ucast (m a)) OR ucast (m (a + 1))"

definition put16 :: "addr \<Rightarrow> u16 \<Rightarrow> (addr \<Rightarrow> 8 word) \<Rightarrow> addr \<Rightarrow> 8 word" where
  "put16 a v m = m(a := ucast (drop_bit 8 v), a + 1 := ucast v)"

definition get32 :: "(addr \<Rightarrow> 8 word) \<Rightarrow> addr \<Rightarrow> addr" where
  "get32 m a = push_bit 16 (ucast (get16 m a)) OR ucast (get16 m (a + 2))"

definition put32 :: "addr \<Rightarrow> addr \<Rightarrow> (addr \<Rightarrow> 8 word) \<Rightarrow> addr \<Rightarrow> 8 word" where
  "put32 a v m = put16 (a + 2) (ucast v) (put16 a (ucast (drop_bit 16 v)) m)"

definition get_int :: "(addr \<Rightarrow> 8 word) \<Rightarrow> addr \<Rightarrow> int" where
  "get_int m a = sint (get16 m a)"

definition put_int :: "addr \<Rightarrow> int \<Rightarrow> (addr \<Rightarrow> 8 word) \<Rightarrow> addr \<Rightarrow> 8 word" where
  "put_int a v = put16 a (word_of_int v)"

definition phys_copy :: "addr \<Rightarrow> addr \<Rightarrow> nat \<Rightarrow> (addr \<Rightarrow> 8 word) \<Rightarrow> addr \<Rightarrow> 8 word" where
  "phys_copy src dst n m = (\<lambda>a. if unat (a - dst) < n then m (src + (a - dst)) else m a)"

definition click_addr :: "u16 \<Rightarrow> addr" where
  "click_addr c = push_bit CLICK_SHIFT (ucast c)"

definition copyclicks :: "u16 \<Rightarrow> u16 \<Rightarrow> u16 \<Rightarrow> (addr \<Rightarrow> 8 word) \<Rightarrow> addr \<Rightarrow> 8 word" where
  "copyclicks c1 c2 nc = phys_copy (click_addr c1) (click_addr c2) (unat nc * 256)"

definition zeroclicks :: "u16 \<Rightarrow> u16 \<Rightarrow> (addr \<Rightarrow> 8 word) \<Rightarrow> addr \<Rightarrow> 8 word" where
  "zeroclicks c nc m = (\<lambda>a. if unat (a - click_addr c) < unat nc * 256 then 0 else m a)"

definition flipclicks :: "u16 \<Rightarrow> u16 \<Rightarrow> u16 \<Rightarrow> (addr \<Rightarrow> 8 word) \<Rightarrow> addr \<Rightarrow> 8 word" where
  "flipclicks c1 c2 nc m =
     (\<lambda>a. if unat (a - click_addr c1) < unat nc * 256 then m (click_addr c2 + (a - click_addr c1))
          else if unat (a - click_addr c2) < unat nc * 256 then m (click_addr c1 + (a - click_addr c2))
          else m a)"

text \<open>The offsets of the message fields of include/minix/type.h that the kernel uses.\<close>

abbreviation (input) "off_source \<equiv> (0::addr)"
abbreviation (input) "off_type \<equiv> (2::addr)"
abbreviation (input) "m1_i1 \<equiv> (4::addr)"
abbreviation (input) "m1_i2 \<equiv> (6::addr)"
abbreviation (input) "m1_i3 \<equiv> (8::addr)"
abbreviation (input) "m1_p1 \<equiv> (10::addr)"
abbreviation (input) "m2_i1 \<equiv> (4::addr)"
abbreviation (input) "m2_i2 \<equiv> (6::addr)"
abbreviation (input) "m2_i3 \<equiv> (8::addr)"
abbreviation (input) "m2_l1 \<equiv> (10::addr)"
abbreviation (input) "m2_l2 \<equiv> (14::addr)"
abbreviation (input) "m4_l1 \<equiv> (4::addr)"
abbreviation (input) "m4_l2 \<equiv> (8::addr)"
abbreviation (input) "m4_l3 \<equiv> (12::addr)"
abbreviation (input) "m4_l4 \<equiv> (16::addr)"
abbreviation (input) "m5_c1 \<equiv> (4::addr)"
abbreviation (input) "m5_c2 \<equiv> (5::addr)"
abbreviation (input) "m5_i1 \<equiv> (6::addr)"
abbreviation (input) "m5_i2 \<equiv> (8::addr)"
abbreviation (input) "m5_l1 \<equiv> (10::addr)"
abbreviation (input) "m5_l2 \<equiv> (14::addr)"
abbreviation (input) "m5_l3 \<equiv> (18::addr)"
abbreviation (input) "m6_i1 \<equiv> (4::addr)"
abbreviation (input) "m6_i2 \<equiv> (6::addr)"
abbreviation (input) "m6_l1 \<equiv> (10::addr)"
abbreviation (input) "m6_f1 \<equiv> (14::addr)"

definition upd_mem :: "((addr \<Rightarrow> 8 word) \<Rightarrow> addr \<Rightarrow> 8 word) \<Rightarrow> kstate \<Rightarrow> kstate" where
  "upd_mem f s = s\<lparr>kmem := f (kmem s)\<rparr>"

subsection \<open>Rewrite rules\<close>

named_theorems kernel_simps \<open>projections of updated kernel states\<close>

lemma upd_proc_simps [simp, kernel_simps]:
  "procs (upd_proc i f s) = (procs s)(i := f (procs s i))"
  "rdy_head (upd_proc i f s) = rdy_head s"
  "rdy_tail (upd_proc i f s) = rdy_tail s"
  "held_head (upd_proc i f s) = held_head s"
  "held_tail (upd_proc i f s) = held_tail s"
  "proc_ptr (upd_proc i f s) = proc_ptr s"
  "bill_ptr (upd_proc i f s) = bill_ptr s"
  "switching (upd_proc i f s) = switching s"
  "k_reenter (upd_proc i f s) = k_reenter s"
  "sig_procs (upd_proc i f s) = sig_procs s"
  "kmem (upd_proc i f s) = kmem s"
  "sys_m (upd_proc i f s) = sys_m s"
  "realtime (upd_proc i f s) = realtime s"
  "pending_ticks (upd_proc i f s) = pending_ticks s"
  "next_alarm (upd_proc i f s) = next_alarm s"
  "boot_time (upd_proc i f s) = boot_time s"
  "sched_ticks (upd_proc i f s) = sched_ticks s"
  "prev_ptr (upd_proc i f s) = prev_ptr s"
  "mc (upd_proc i f s) = mc s"
  "watch_dog (upd_proc i f s) = watch_dog s"
  "flipwait (upd_proc i f s) = flipwait s"
  by (simp_all add: upd_proc_def)

lemma upd_mem_simps [simp, kernel_simps]:
  "procs (upd_mem g s) = procs s"
  "rdy_head (upd_mem g s) = rdy_head s"
  "rdy_tail (upd_mem g s) = rdy_tail s"
  "held_head (upd_mem g s) = held_head s"
  "held_tail (upd_mem g s) = held_tail s"
  "proc_ptr (upd_mem g s) = proc_ptr s"
  "bill_ptr (upd_mem g s) = bill_ptr s"
  "switching (upd_mem g s) = switching s"
  "k_reenter (upd_mem g s) = k_reenter s"
  "sig_procs (upd_mem g s) = sig_procs s"
  "kmem (upd_mem g s) = g (kmem s)"
  "sys_m (upd_mem g s) = sys_m s"
  "realtime (upd_mem g s) = realtime s"
  "pending_ticks (upd_mem g s) = pending_ticks s"
  "next_alarm (upd_mem g s) = next_alarm s"
  "boot_time (upd_mem g s) = boot_time s"
  "sched_ticks (upd_mem g s) = sched_ticks s"
  "prev_ptr (upd_mem g s) = prev_ptr s"
  "mc (upd_mem g s) = mc s"
  "watch_dog (upd_mem g s) = watch_dog s"
  "flipwait (upd_mem g s) = flipwait s"
  by (simp_all add: upd_mem_def)

lemma cproc_addr_simps [simp, kernel_simps]:
  "cproc_addr IDLE = 1" "cproc_addr HARDWARE = 8" "cproc_addr MM_PROC_NR = 9"
  "cproc_addr FS_PROC_NR = 10" "cproc_addr CLOCK = 6" "cproc_addr SYSTASK = 7"
  by (simp_all add: cproc_addr_def)

lemma proc_addr_Done: "proc_addr n = Done i \<longleftrightarrow> i < NR_SLOTS \<and> n = int i - NR_TASKS"
  by (auto simp: proc_addr_def isokprocn_def cproc_addr_def)

lemma proc_addr_slot [simp]: "i < NR_SLOTS \<Longrightarrow> proc_addr (int i - NR_TASKS) = Done i"
  by (simp add: proc_addr_Done)

subsubsection \<open>Flag words\<close>

text \<open>Setting or clearing flags leaves the other flags alone.\<close>

lemma flag_or: "(x OR a) AND b = (x AND b) OR (a AND b)" for x a b :: u16
  by (rule bit.conj_disj_distrib2)

lemma flag_clear: "(x AND NOT a) AND b = x AND (NOT a AND b)" for x a b :: u16
  by (rule and.assoc)

lemma flag_clear_zero: "x AND NOT a = 0 \<Longrightarrow> NOT a AND b = b \<Longrightarrow> x AND b = 0" for x a b :: u16
  by (metis and.assoc bit.conj_zero_left)

lemma flag_or_zero [simp]: "x OR a = 0 \<longleftrightarrow> x = 0 \<and> a = 0" for x a :: u16
  by (rule or_eq_0_iff)

lemma and_exp: "x AND 2 ^ n = (if bit x n then 2 ^ n else 0)" for x :: u16
  by (rule bit_eqI) (auto simp: bit_and_iff bit_exp_iff)

lemma send_recv_bits:
  "(x AND (RECEIVING OR SENDING)) \<noteq> RECEIVING \<longleftrightarrow> \<not> (x AND RECEIVING \<noteq> 0 \<and> x AND SENDING = 0)"
  using and_exp [of x 3] and_exp [of x 2]
  by (simp only: bit.conj_disj_distrib) (auto split: if_splits)

subsubsection \<open>Words in memory\<close>

lemma get16_put16: "get16 (put16 a v m) a = v"
proof -
  have "a + 1 \<noteq> a" by simp
  then show ?thesis
    unfolding get16_def put16_def
    by (intro bit_eqI) (auto simp: bit_or_iff bit_push_bit_iff bit_unsigned_iff bit_drop_bit_eq not_le)
qed

lemma get_int_put_int: "-32768 \<le> v \<Longrightarrow> v < 32768 \<Longrightarrow> get_int (put_int a v m) a = v"
  by (simp add: get_int_def put_int_def get16_put16 signed_of_int signed_take_bit_int_eq_self_iff)

lemma get16_other:
  "b \<noteq> a \<Longrightarrow> b \<noteq> a + 1 \<Longrightarrow> b + 1 \<noteq> a \<Longrightarrow> get16 (put16 a v m) b = get16 m b"
  by (simp add: get16_def put16_def)

lemma get32_put32: "get32 (put32 a v m) a = v"
proof -
  have "a + 2 \<noteq> a" "a + 2 + 1 \<noteq> a" "a \<noteq> a + 2 + 1" "a + 1 \<noteq> a + 2" "a + 1 \<noteq> a + 2 + 1"
    by (simp_all add: add.assoc)
  then have "get16 (put32 a v m) a = ucast (drop_bit 16 v)" "get16 (put32 a v m) (a + 2) = ucast v"
    by (simp_all add: put32_def get16_put16 get16_other)
  then show ?thesis
    unfolding get32_def
    by (intro bit_eqI) (auto simp: bit_or_iff bit_push_bit_iff bit_unsigned_iff bit_drop_bit_eq not_le)
qed

end
