(* ===== verification/Kernel_Sched.thy ===== *)
theory Kernel_Sched
  imports Kernel_State
begin

section \<open>Kernel: the ready queues\<close>

text \<open>
  The scheduler of kernel/proc.c: \<open>ready\<close>, \<open>unready\<close>, \<open>sched\<close>,
  \<open>pick_proc\<close> and their \<open>lock_\<close> gateways.  There are four queues, for tasks,
  servers, users and shadowed users; each is a singly linked list through
  \<open>p_nextready\<close> with a head and a tail pointer.  The lemmas show that the operations
  act on the lists as append, removal and rotation, and touch nothing else.
\<close>

unbundle bit_operations_syntax

subsection \<open>The operations\<close>

definition pick_proc :: "kstate \<Rightarrow> kstate" where
  "pick_proc s =
     (case rdy_head s TASK_Q of Some rp \<Rightarrow> s\<lparr>proc_ptr := rp\<rparr> | None \<Rightarrow>
     (case rdy_head s SERVER_Q of Some rp \<Rightarrow> s\<lparr>proc_ptr := rp\<rparr> | None \<Rightarrow>
     (case rdy_head s USER_Q of Some rp \<Rightarrow> s\<lparr>proc_ptr := rp, bill_ptr := rp\<rparr> | None \<Rightarrow>
        s\<lparr>proc_ptr := cproc_addr IDLE, bill_ptr := cproc_addr IDLE\<rparr>)))"

text \<open>Adding to the tail of one queue; the source repeats this for every queue.\<close>

definition rdy_append :: "nat \<Rightarrow> nat \<Rightarrow> kstate \<Rightarrow> kstate run" where
  "rdy_append q rp s =
     andthen
       (case rdy_head s q of
          Some _ \<Rightarrow> andthen (deref (rdy_tail s q))
                     (\<lambda>t. Done (upd_proc t (p_nextready_update (\<lambda>_. Some rp)) s))
        | None \<Rightarrow> Done (s\<lparr>rdy_head := (rdy_head s)(q := Some rp)\<rparr>))
       (\<lambda>s. Done (upd_proc rp (p_nextready_update (\<lambda>_. None))
                    (s\<lparr>rdy_tail := (rdy_tail s)(q := Some rp)\<rparr>)))"

definition ready :: "nat \<Rightarrow> kstate \<Rightarrow> kstate run" where
  "ready rp s =
     (if istaskp rp then rdy_append TASK_Q rp s
      else if \<not> isuserp rp then rdy_append SERVER_Q rp s
      else if isshadowp (procs s rp) then rdy_append SHADOW_Q rp s
      else rdy_append USER_Q rp s)"

text \<open>Searching the body of the queue from \<open>xp\<close>: the entry before \<open>rp\<close>, if any.\<close>

fun unready_scan :: "nat \<Rightarrow> nat \<Rightarrow> nat \<Rightarrow> kstate \<Rightarrow> nat option run" where
  "unready_scan 0 xp rp s = Stuck"
| "unready_scan (Suc n) xp rp s =
     (if p_nextready (procs s xp) = Some rp then Done (Some xp)
      else (case p_nextready (procs s xp) of
              None \<Rightarrow> Done None
            | Some y \<Rightarrow> unready_scan n y rp s))"

fun last_ready :: "nat \<Rightarrow> nat \<Rightarrow> kstate \<Rightarrow> nat run" where
  "last_ready 0 xp s = Stuck"
| "last_ready (Suc n) xp s =
     (case p_nextready (procs s xp) of None \<Rightarrow> Done xp | Some y \<Rightarrow> last_ready n y s)"

definition unready_body :: "nat \<Rightarrow> nat \<Rightarrow> nat \<Rightarrow> kstate \<Rightarrow> kstate run" where
  "unready_body q xp rp s =
     andthen (unready_scan NR_SLOTS xp rp s)
       (\<lambda>found. case found of
          None \<Rightarrow> Done s
        | Some xp \<Rightarrow>
            andthen (deref (p_nextready (procs s xp))) (\<lambda>nx.
            let s = upd_proc xp (p_nextready_update (\<lambda>_. p_nextready (procs s nx))) s in
            andthen (last_ready NR_SLOTS xp s) (\<lambda>xp.
            Done (s\<lparr>rdy_tail := (rdy_tail s)(q := Some xp)\<rparr>))))"

definition rdy_remove :: "nat \<Rightarrow> nat \<Rightarrow> kstate \<Rightarrow> kstate run" where
  "rdy_remove q rp s =
     (case rdy_head s q of
        None \<Rightarrow> Done s
      | Some xp \<Rightarrow>
          if xp = rp then
            let s = s\<lparr>rdy_head := (rdy_head s)(q := p_nextready (procs s xp))\<rparr> in
            Done (if rp = proc_ptr s then pick_proc s else s)
          else unready_body q xp rp s)"

definition unready :: "nat \<Rightarrow> kstate \<Rightarrow> kstate run" where
  "unready rp s =
     (if istaskp rp then rdy_remove TASK_Q rp s
      else if \<not> isuserp rp then rdy_remove SERVER_Q rp s
      else if isshadowp (procs s rp) then rdy_remove SHADOW_Q rp s
      else rdy_remove USER_Q rp s)"

definition sched :: "kstate \<Rightarrow> kstate run" where
  "sched s =
     (case rdy_head s USER_Q of
        None \<Rightarrow> Done s
      | Some h \<Rightarrow>
          andthen (deref (rdy_tail s USER_Q)) (\<lambda>t.
          let s = upd_proc t (p_nextready_update (\<lambda>_. Some h)) s;
              s = s\<lparr>rdy_tail := (rdy_tail s)(USER_Q := Some h)\<rparr>;
              s = s\<lparr>rdy_head := (rdy_head s)(USER_Q := p_nextready (procs s h))\<rparr>;
              s = upd_proc h (p_nextready_update (\<lambda>_. None)) s
          in Done (pick_proc s)))"

definition lock_pick_proc :: "kstate \<Rightarrow> kstate" where
  "lock_pick_proc s = (pick_proc (s\<lparr>switching := True\<rparr>))\<lparr>switching := False\<rparr>"

definition lock_ready :: "nat \<Rightarrow> kstate \<Rightarrow> kstate run" where
  "lock_ready rp s = andthen (ready rp (s\<lparr>switching := True\<rparr>)) (\<lambda>s. Done (s\<lparr>switching := False\<rparr>))"

definition lock_unready :: "nat \<Rightarrow> kstate \<Rightarrow> kstate run" where
  "lock_unready rp s =
     andthen (unready rp (s\<lparr>switching := True\<rparr>)) (\<lambda>s. Done (s\<lparr>switching := False\<rparr>))"

definition lock_sched :: "kstate \<Rightarrow> kstate run" where
  "lock_sched s = andthen (sched (s\<lparr>switching := True\<rparr>)) (\<lambda>s. Done (s\<lparr>switching := False\<rparr>))"

subsection \<open>The queues as lists\<close>

definition nextready :: "(nat \<Rightarrow> proc) \<Rightarrow> nat \<Rightarrow> ptr" where
  "nextready ps i = p_nextready (ps i)"

definition ready_q :: "kstate \<Rightarrow> nat \<Rightarrow> nat list" where
  "ready_q s q = follow NR_SLOTS (nextready (procs s)) (rdy_head s q)"

text \<open>The queue a process belongs to when it is runnable.\<close>

definition queue_of :: "kstate \<Rightarrow> nat \<Rightarrow> nat" where
  "queue_of s i = (if istaskp i then TASK_Q else if \<not> isuserp i then SERVER_Q
                   else if isshadowp (procs s i) then SHADOW_Q else USER_Q)"

definition ready_lists :: "(nat \<Rightarrow> nat list) \<Rightarrow> kstate \<Rightarrow> bool" where
  "ready_lists R s \<longleftrightarrow>
     (\<forall>q<NQ. chain (nextready (procs s)) (rdy_head s q) (R q) \<and>
             (R q \<noteq> [] \<longrightarrow> rdy_tail s q = Some (last (R q))) \<and>
             (\<forall>i\<in>set (R q). i < NR_SLOTS \<and> queue_of s i = q))"

text \<open>A state without its ready queues: what the scheduler may not change.\<close>

definition off_queues :: "kstate \<Rightarrow> kstate" where
  "off_queues s = s\<lparr>procs := (\<lambda>i. (procs s i)\<lparr>p_nextready := None\<rparr>),
                   rdy_head := (\<lambda>_. None), rdy_tail := (\<lambda>_. None),
                   proc_ptr := 0, bill_ptr := 0, switching := False\<rparr>"

text \<open>Which process runs next, given the queues.\<close>

definition head_proc :: "(nat \<Rightarrow> nat list) \<Rightarrow> nat" where
  "head_proc R = (if R TASK_Q \<noteq> [] then hd (R TASK_Q) else if R SERVER_Q \<noteq> [] then hd (R SERVER_Q)
                  else if R USER_Q \<noteq> [] then hd (R USER_Q) else cproc_addr IDLE)"

lemma nextready_upd [simp, kernel_simps]:
  "nextready (ps(i := p)) = (nextready ps)(i := p_nextready p)"
  by (auto simp: nextready_def)

lemma nextready_triv [simp, kernel_simps]:
  "(nextready ps)(i := p_nextready (ps i)) = nextready ps"
  by (auto simp: nextready_def)

lemma queue_of_less: "queue_of s i < NQ"
  by (simp add: queue_of_def)

lemma ready_lists_cong:
  "(\<And>q. q < NQ \<Longrightarrow> R q = R' q) \<Longrightarrow> ready_lists R s = ready_lists R' s"
  by (auto simp: ready_lists_def)

lemma ready_lists_q: "ready_lists R s \<Longrightarrow> q < NQ \<Longrightarrow> ready_q s q = R q"
  unfolding ready_q_def ready_lists_def
  by (rule follow_chain) (auto intro!: chain_length)

lemma off_queues_proc:
  assumes "off_queues s' = off_queues s"
  shows "(procs s' i)\<lparr>p_nextready := None\<rparr> = (procs s i)\<lparr>p_nextready := None\<rparr>"
  using assms by (cases s, cases s') (auto simp: off_queues_def dest: fun_cong [where x = i])

lemma off_queues_fields:
  assumes "off_queues s' = off_queues s"
  shows "held_head s' = held_head s" "held_tail s' = held_tail s" "k_reenter s' = k_reenter s"
    "sig_procs s' = sig_procs s" "kmem s' = kmem s" "sys_m s' = sys_m s"
    "realtime s' = realtime s" "pending_ticks s' = pending_ticks s" "next_alarm s' = next_alarm s"
    "mc s' = mc s" "flipwait s' = flipwait s" "sched_ticks s' = sched_ticks s"
    "prev_ptr s' = prev_ptr s" "watch_dog s' = watch_dog s" "boot_time s' = boot_time s"
  using assms by (cases s, cases s'; simp add: off_queues_def)+

subsection \<open>What the operations do to the lists\<close>

lemma queue_of_off: "off_queues s' = off_queues s \<Longrightarrow> queue_of s' = queue_of s"
proof
  fix i assume "off_queues s' = off_queues s"
  from off_queues_proc [OF this, of i] have "p_shadow (procs s' i) = p_shadow (procs s i)"
    by (cases "procs s i", cases "procs s' i") simp
  then show "queue_of s' i = queue_of s i" by (simp add: queue_of_def isshadowp_def)
qed

lemma ready_listsD:
  assumes "ready_lists R s" and "q < NQ"
  shows "chain (nextready (procs s)) (rdy_head s q) (R q)"
    "R q \<noteq> [] \<Longrightarrow> rdy_tail s q = Some (last (R q))"
    "\<And>i. i \<in> set (R q) \<Longrightarrow> i < NR_SLOTS \<and> queue_of s i = q"
    "distinct (R q)" "length (R q) \<le> NR_SLOTS"
proof -
  show c: "chain (nextready (procs s)) (rdy_head s q) (R q)"
    and t: "R q \<noteq> [] \<Longrightarrow> rdy_tail s q = Some (last (R q))"
    and m: "\<And>i. i \<in> set (R q) \<Longrightarrow> i < NR_SLOTS \<and> queue_of s i = q"
    using assms unfolding ready_lists_def by blast+
  show "distinct (R q)" by (rule chain_distinct [OF c])
  show "length (R q) \<le> NR_SLOTS" using m by (intro chain_length [OF c]) blast
qed

lemma ready_lists_other:
  assumes "ready_lists R s" and "q < NQ" and "q' < NQ" and "q' \<noteq> q"
  shows "set (R q) \<inter> set (R q') = {}"
  using ready_listsD(3) [OF assms(1,2)] ready_listsD(3) [OF assms(1,3)] assms(4) by blast

lemma off_queues_upd [simp, kernel_simps]:
  "off_queues (upd_proc i (p_nextready_update f) s) = off_queues s"
  "off_queues (s\<lparr>rdy_head := h\<rparr>) = off_queues s"
  "off_queues (s\<lparr>rdy_tail := h\<rparr>) = off_queues s"
  "off_queues (s\<lparr>proc_ptr := n\<rparr>) = off_queues s"
  "off_queues (s\<lparr>bill_ptr := n\<rparr>) = off_queues s"
  "off_queues (s\<lparr>switching := b\<rparr>) = off_queues s"
  by (cases s; auto simp: off_queues_def upd_proc_def fun_eq_iff)+

text \<open>A change of one list, the links of the other lists being left alone.\<close>

lemma ready_lists_change:
  assumes R: "ready_lists R s" and q: "q < NQ"
    and off: "off_queues s' = off_queues s"
    and chain: "chain (nextready (procs s')) (rdy_head s' q) xs"
    and tail: "xs \<noteq> [] \<Longrightarrow> rdy_tail s' q = Some (last xs)"
    and xs: "\<And>i. i \<in> set xs \<Longrightarrow> i < NR_SLOTS \<and> queue_of s i = q"
    and links: "\<And>q' i. q' < NQ \<Longrightarrow> q' \<noteq> q \<Longrightarrow> i \<in> set (R q') \<Longrightarrow>
                   nextready (procs s') i = nextready (procs s) i"
    and heads: "\<And>q'. q' < NQ \<Longrightarrow> q' \<noteq> q \<Longrightarrow> rdy_head s' q' = rdy_head s q' \<and> rdy_tail s' q' = rdy_tail s q'"
  shows "ready_lists (R(q := xs)) s'"
proof -
  have old: "chain (nextready (procs s')) (rdy_head s' q') (R q')" if "q' < NQ" "q' \<noteq> q" for q'
    using ready_listsD(1) [OF R that(1)] heads [OF that] links [OF that]
      chain_cong [of "R q'" "nextready (procs s')" "nextready (procs s)"] by simp
  have off': "queue_of s' i = queue_of s i" for i by (simp add: queue_of_off [OF off])
  show ?thesis
    unfolding ready_lists_def off'
  proof (intro allI impI)
    fix q' assume q': "q' < NQ"
    show "chain (nextready (procs s')) (rdy_head s' q') ((R(q := xs)) q') \<and>
          ((R(q := xs)) q' \<noteq> [] \<longrightarrow> rdy_tail s' q' = Some (last ((R(q := xs)) q'))) \<and>
          (\<forall>i\<in>set ((R(q := xs)) q'). i < NR_SLOTS \<and> queue_of s i = q')"
    proof (cases "q' = q")
      case True
      then show ?thesis using chain tail xs by simp
    next
      case False
      then show ?thesis using old [OF q' False] heads [OF q' False] ready_listsD [OF R q'] by simp
    qed
  qed
qed

lemma rdy_append_lists:
  assumes R: "ready_lists R s" and q: "q < NQ" and rp: "rp < NR_SLOTS" "queue_of s rp = q"
    and new: "rp \<notin> set (R q)"
  shows "\<exists>s'. rdy_append q rp s = Done s' \<and> ready_lists (R(q := R q @ [rp])) s' \<and>
              off_queues s' = off_queues s \<and> proc_ptr s' = proc_ptr s \<and>
              bill_ptr s' = bill_ptr s \<and> switching s' = switching s"
proof (cases "R q")
  case Nil
  let ?s = "upd_proc rp (p_nextready_update (\<lambda>_. None))
              (s\<lparr>rdy_head := (rdy_head s)(q := Some rp), rdy_tail := (rdy_tail s)(q := Some rp)\<rparr>)"
  have h: "rdy_head s q = None" using ready_listsD(1) [OF R q] Nil by simp
  have notin: "i \<noteq> rp" if "q' < NQ" "q' \<noteq> q" "i \<in> set (R q')" for q' i
    using ready_listsD(3) [OF R that(1,3)] that(2) rp(2) by auto
  have "ready_lists (R(q := R q @ [rp])) ?s"
    by (rule ready_lists_change [OF R q]) (use Nil rp notin in auto)
  moreover have "rdy_append q rp s = Done ?s" by (simp add: rdy_append_def h)
  ultimately show ?thesis by auto
next
  case (Cons a as)
  define t where "t = last (R q)"
  let ?s = "upd_proc rp (p_nextready_update (\<lambda>_. None))
              ((upd_proc t (p_nextready_update (\<lambda>_. Some rp)) s)
                 \<lparr>rdy_tail := (rdy_tail s)(q := Some rp)\<rparr>)"
  have h: "rdy_head s q = Some a" using ready_listsD(1) [OF R q] Cons by simp
  have tl: "rdy_tail s q = Some t" using ready_listsD(2) [OF R q] Cons by (simp add: t_def)
  have tin: "t \<in> set (R q)" using Cons by (simp add: t_def)
  have split: "R q = butlast (R q) @ [t]" using Cons by (simp add: t_def)
  have notin: "i \<noteq> rp \<and> i \<noteq> t" if "q' < NQ" "q' \<noteq> q" "i \<in> set (R q')" for q' i
    using ready_listsD(3) [OF R that(1,3)] ready_listsD(3) [OF R q tin] that(2) rp(2) by auto
  have "chain ((nextready (procs s))(t := Some rp, rp := None)) (rdy_head s q) (butlast (R q) @ [t, rp])"
    by (rule chain_append_last) (use ready_listsD(1) [OF R q] split new in metis)+
  moreover have "butlast (R q) @ [t, rp] = R q @ [rp]" using split by (metis append.assoc append_Cons append_Nil)
  ultimately have c: "chain ((nextready (procs s))(t := Some rp, rp := None)) (rdy_head s q) (R q @ [rp])"
    by simp
  have "ready_lists (R(q := R q @ [rp])) ?s"
    by (rule ready_lists_change [OF R q]) (use c rp notin ready_listsD(3) [OF R q] in auto)
  moreover have "rdy_append q rp s = Done ?s" by (simp add: rdy_append_def h tl)
  ultimately show ?thesis by auto
qed

lemma unready_scan_found:
  assumes "chain (nextready (procs s)) (Some xp) (xp # as @ rp # bs)" and "length as < n"
  shows "unready_scan n xp rp s = Done (Some (last (xp # as)))"
  using assms
proof (induction as arbitrary: xp n)
  case Nil
  then show ?case by (cases n) (auto simp: nextready_def)
next
  case (Cons a as)
  from chain_distinct [OF Cons.prems(1)] have "a \<noteq> rp" by auto
  with Cons.prems Cons.IH [of a "n - 1"] show ?case
    by (cases n) (auto simp: nextready_def)
qed

lemma unready_scan_none:
  assumes "chain (nextready (procs s)) (Some xp) (xp # ys)" and "rp \<notin> set ys" and "length ys < n"
  shows "unready_scan n xp rp s = Done None"
  using assms
proof (induction ys arbitrary: xp n)
  case Nil
  then show ?case by (cases n) (auto simp: nextready_def)
next
  case (Cons a ys)
  then show ?case by (cases n) (auto simp: nextready_def)
qed

lemma last_ready_chain:
  assumes "chain (nextready (procs s)) (Some xp) (xp # ys)" and "length ys < n"
  shows "last_ready n xp s = Done (last (xp # ys))"
  using assms
proof (induction ys arbitrary: xp n)
  case Nil
  then show ?case by (cases n) (auto simp: nextready_def)
next
  case (Cons a ys)
  then show ?case by (cases n) (auto simp: nextready_def)
qed

lemma pick_proc_lists:
  assumes "ready_lists R s"
  shows "ready_lists R (pick_proc s)" "proc_ptr (pick_proc s) = head_proc R"
    "off_queues (pick_proc s) = off_queues s" "switching (pick_proc s) = switching s"
proof -
  have h: "rdy_head s q = (if R q = [] then None else Some (hd (R q)))" if "q < NQ" for q
    using ready_listsD(1) [OF assms that] by (cases "R q") auto
  have q: "queue_of (s\<lparr>proc_ptr := m\<rparr>) = queue_of s"
    "queue_of (s\<lparr>proc_ptr := m, bill_ptr := n\<rparr>) = queue_of s" for m n
    by (simp_all add: queue_of_def fun_eq_iff)
  show "ready_lists R (pick_proc s)"
    using assms by (auto simp: pick_proc_def ready_lists_def q split: option.splits)
  show "proc_ptr (pick_proc s) = head_proc R"
    by (simp add: pick_proc_def head_proc_def h)
  show "off_queues (pick_proc s) = off_queues s" "switching (pick_proc s) = switching s"
    by (auto simp: pick_proc_def split: option.splits)
qed

lemma rdy_remove_body:
  assumes R: "ready_lists R s" and q: "q < NQ" and split: "R q = a # as @ rp # bs"
  shows "\<exists>s'. unready_body q a rp s = Done s' \<and> ready_lists (R(q := a # as @ bs)) s' \<and>
              off_queues s' = off_queues s \<and> proc_ptr s' = proc_ptr s \<and> bill_ptr s' = bill_ptr s \<and>
              switching s' = switching s"
proof -
  let ?nx = "nextready (procs s)"
  define xp where "xp = last (a # as)"
  define pre where "pre = butlast (a # as)"
  have pre: "a # as = pre @ [xp]" by (simp add: xp_def pre_def)
  have Rq: "R q = pre @ xp # rp # bs"
  proof -
    have "R q = (a # as) @ rp # bs" by (simp add: split)
    then show ?thesis by (simp only: pre) simp
  qed
  have c: "chain ?nx (rdy_head s q) (R q)" by (rule ready_listsD(1) [OF R q])
  have d: "distinct (R q)" and len: "length (R q) \<le> NR_SLOTS" using ready_listsD [OF R q] by auto
  have ca: "chain ?nx (Some a) (a # as @ rp # bs)" using c split by simp
  have scan: "unready_scan NR_SLOTS a rp s = Done (Some xp)"
    using unready_scan_found [OF ca, of NR_SLOTS] len split by (simp add: xp_def)
  have nxp: "?nx xp = Some rp" and nrp: "?nx rp = first_of bs"
    using chain_next [of ?nx "rdy_head s q" pre xp "rp # bs"]
      chain_next [of ?nx "rdy_head s q" "pre @ [xp]" rp bs] c Rq by auto
  let ?s = "upd_proc xp (p_nextready_update (\<lambda>_. p_nextready (procs s rp))) s"
  have nx': "nextready (procs ?s) = ?nx(xp := ?nx rp)" by (simp add: nextready_def)
  have cdel: "chain (nextready (procs ?s)) (rdy_head s q) (pre @ xp # bs)"
    unfolding nx' using chain_delete_after c Rq by metis
  then have cl: "chain (nextready (procs ?s)) (Some xp) (xp # bs)"
    using chain_append [of "nextready (procs ?s)" "rdy_head s q" pre "xp # bs"] by auto
  have last: "last_ready NR_SLOTS xp ?s = Done (last (xp # bs))"
    using last_ready_chain [OF cl] len Rq by simp
  let ?s' = "?s\<lparr>rdy_tail := (rdy_tail s)(q := Some (last (xp # bs)))\<rparr>"
  have res: "unready_body q a rp s = Done ?s'"
    using nxp last by (simp add: unready_body_def scan nextready_def)
  have list: "a # as @ bs = pre @ xp # bs" using pre by (metis append.assoc append_Cons append_Nil)
  have other: "i \<noteq> xp" if "q' < NQ" "q' \<noteq> q" "i \<in> set (R q')" for q' i
    using ready_lists_other [OF R that(1) q] that Rq by auto
  have "ready_lists (R(q := pre @ xp # bs)) ?s'"
    by (rule ready_lists_change [OF R q])
      (use cdel ready_listsD(3) [OF R q] Rq other in auto)
  then have "ready_lists (R(q := a # as @ bs)) ?s'" unfolding list .
  with res show ?thesis by auto
qed

lemma rdy_remove_lists:
  assumes R: "ready_lists R s" and q: "q < NQ"
  shows "\<exists>s'. rdy_remove q rp s = Done s' \<and> ready_lists (R(q := remove1 rp (R q))) s' \<and>
              off_queues s' = off_queues s \<and> switching s' = switching s \<and>
              proc_ptr s' = (if R q \<noteq> [] \<and> hd (R q) = rp \<and> proc_ptr s = rp
                             then head_proc (R(q := remove1 rp (R q))) else proc_ptr s)"
proof (cases "R q")
  case Nil
  then have "rdy_head s q = None" using ready_listsD(1) [OF R q] by simp
  moreover have "R(q := remove1 rp (R q)) = R" using Nil by auto
  ultimately show ?thesis using R Nil by (simp add: rdy_remove_def)
next
  case (Cons a ys)
  have c: "chain (nextready (procs s)) (rdy_head s q) (R q)" by (rule ready_listsD(1) [OF R q])
  have d: "distinct (R q)" by (rule ready_listsD(4) [OF R q])
  show ?thesis
  proof (cases "a = rp")
    case True
    let ?s = "s\<lparr>rdy_head := (rdy_head s)(q := nextready (procs s) rp)\<rparr>"
    have r: "ready_lists (R(q := remove1 rp (R q))) ?s"
      by (rule ready_lists_change [OF R q])
        (use Cons True c ready_listsD [OF R q] in \<open>auto split: if_splits\<close>)
    have "rdy_remove q rp s = Done (if rp = proc_ptr s then pick_proc ?s else ?s)"
      using c Cons True by (simp add: rdy_remove_def nextready_def)
    then show ?thesis using r pick_proc_lists [OF r] Cons True by auto
  next
    case False
    show ?thesis
    proof (cases "rp \<in> set ys")
      case True
      then obtain as bs where ys: "ys = as @ rp # bs" and "rp \<notin> set as"
        by (meson split_list_first)
      then have "remove1 rp (R q) = a # as @ bs" using Cons False by (simp add: remove1_append)
      then show ?thesis
        using rdy_remove_body [OF R q, of a as rp bs] Cons False ys c by (auto simp: rdy_remove_def)
    next
      case notin: False
      have "chain (nextready (procs s)) (Some a) (a # ys)" using c Cons by simp
      then have "unready_scan NR_SLOTS a rp s = Done None"
        by (rule unready_scan_none) (use notin ready_listsD(5) [OF R q] Cons in auto)
      moreover have "R(q := remove1 rp (R q)) = R" using Cons False notin
        by (auto simp: remove1_idem)
      ultimately show ?thesis using R c Cons False by (simp add: rdy_remove_def unready_body_def)
    qed
  qed
qed

lemma ready_lists_ready:
  assumes R: "ready_lists R s" and rp: "rp < NR_SLOTS" and new: "rp \<notin> set (R (queue_of s rp))"
  defines "q \<equiv> queue_of s rp"
  shows "\<exists>s'. ready rp s = Done s' \<and> ready_lists (R(q := R q @ [rp])) s' \<and>
              off_queues s' = off_queues s \<and> proc_ptr s' = proc_ptr s \<and>
              bill_ptr s' = bill_ptr s \<and> switching s' = switching s"
proof -
  have "ready rp s = rdy_append q rp s" by (simp add: ready_def q_def queue_of_def)
  then show ?thesis
    using rdy_append_lists [OF R queue_of_less rp refl new] by (simp add: q_def)
qed

lemma ready_lists_unready:
  fixes rp :: nat
  assumes R: "ready_lists R s"
  defines "q \<equiv> queue_of s rp"
  shows "\<exists>s'. unready rp s = Done s' \<and> ready_lists (R(q := remove1 rp (R q))) s' \<and>
              off_queues s' = off_queues s \<and> switching s' = switching s \<and>
              proc_ptr s' = (if R q \<noteq> [] \<and> hd (R q) = rp \<and> proc_ptr s = rp
                             then head_proc (R(q := remove1 rp (R q))) else proc_ptr s)"
proof -
  have "unready rp s = rdy_remove q rp s" by (simp add: unready_def q_def queue_of_def)
  then show ?thesis using rdy_remove_lists [OF R queue_of_less, of s rp rp] by (simp only: q_def)
qed

lemma sched_lists:
  assumes R: "ready_lists R s"
  defines "R' \<equiv> R(USER_Q := rotate1 (R USER_Q))"
  shows "\<exists>s'. sched s = Done s' \<and> ready_lists R' s' \<and> off_queues s' = off_queues s \<and>
              switching s' = switching s \<and>
              proc_ptr s' = (if R USER_Q = [] then proc_ptr s else head_proc R')"
proof (cases "R USER_Q")
  case Nil
  then have "rdy_head s USER_Q = None" using ready_listsD(1) [OF R, of USER_Q] by simp
  moreover have "R' = R" using Nil by (auto simp: R'_def)
  ultimately show ?thesis using R Nil by (simp add: sched_def)
next
  case (Cons h ys)
  let ?nx = "nextready (procs s)"
  define t where "t = last (h # ys)"
  have c: "chain ?nx (rdy_head s USER_Q) (R USER_Q)" by (rule ready_listsD(1) [OF R]) simp
  have d: "distinct (h # ys)" using chain_distinct [OF c] Cons by simp
  have hd: "rdy_head s USER_Q = Some h" and ch: "chain ?nx (?nx h) ys" using c Cons by auto
  have tl: "rdy_tail s USER_Q = Some t" using ready_listsD(2) [OF R, of USER_Q] Cons t_def by simp
  let ?s = "upd_proc h (p_nextready_update (\<lambda>_. None))
              ((upd_proc t (p_nextready_update (\<lambda>_. Some h)) s)
                 \<lparr>rdy_tail := (rdy_tail s)(USER_Q := Some h),
                  rdy_head := (rdy_head s)(USER_Q := (?nx(t := Some h)) h)\<rparr>)"
  have run: "sched s = Done (pick_proc ?s)"
    by (simp add: sched_def hd tl Let_def nextready_def)
  have nx': "nextready (procs ?s) = ?nx(t := Some h, h := None)"
    by simp
  have "chain (nextready (procs ?s)) (rdy_head ?s USER_Q) (ys @ [h])"
  proof (cases "ys = []")
    case True
    then show ?thesis using ch by (simp add: t_def)
  next
    case False
    then have ys: "ys = butlast ys @ [t]" by (simp add: t_def)
    have th: "t \<noteq> h" using False d by (auto simp: t_def)
    have "chain (?nx(t := Some h, h := None)) (?nx h) (butlast ys @ [t, h])"
      by (rule chain_append_last) (use ch ys d in \<open>metis distinct.simps(2)\<close>)+
    moreover have "butlast ys @ [t, h] = ys @ [h]"
      using ys by (metis append.assoc append_Cons append_Nil)
    ultimately show ?thesis using th by simp
  qed
  moreover have "i \<noteq> h \<and> i \<noteq> t" if "q' < NQ" "q' \<noteq> USER_Q" "i \<in> set (R q')" for q' i
    using ready_lists_other [OF R that(1), of USER_Q] that Cons by (auto simp: t_def)
  ultimately have "ready_lists (R(USER_Q := ys @ [h])) ?s"
    by (intro ready_lists_change [OF R])
      (use ready_listsD(3) [OF R, of USER_Q] Cons in auto)
  then have r: "ready_lists R' ?s" by (simp add: R'_def Cons)
  show ?thesis using pick_proc_lists [OF r] run r Cons by (auto simp: R'_def)
qed

subsection \<open>The gateways for tasks\<close>

lemma ready_lists_switching [simp]: "ready_lists R (s\<lparr>switching := b\<rparr>) = ready_lists R s"
  by (simp add: ready_lists_def queue_of_def)

lemma queue_of_switching [simp]: "queue_of (s\<lparr>switching := b\<rparr>) = queue_of s"
  by (simp add: queue_of_def fun_eq_iff)

lemma ready_lists_lock_ready:
  assumes R: "ready_lists R s" and rp: "rp < NR_SLOTS" and new: "rp \<notin> set (R (queue_of s rp))"
  shows "\<exists>s'. lock_ready rp s = Done s' \<and>
              ready_lists (R(queue_of s rp := R (queue_of s rp) @ [rp])) s' \<and>
              off_queues s' = off_queues s \<and> proc_ptr s' = proc_ptr s \<and> switching s' = False"
proof -
  have "ready_lists R (s\<lparr>switching := True\<rparr>)" using R by simp
  from ready_lists_ready [OF this rp] new show ?thesis by (auto simp: lock_ready_def)
qed

lemma ready_lists_lock_unready:
  fixes rp :: nat
  assumes R: "ready_lists R s"
  defines "q \<equiv> queue_of s rp"
  shows "\<exists>s'. lock_unready rp s = Done s' \<and> ready_lists (R(q := remove1 rp (R q))) s' \<and>
              off_queues s' = off_queues s \<and> switching s' = False \<and>
              proc_ptr s' = (if R q \<noteq> [] \<and> hd (R q) = rp \<and> proc_ptr s = rp
                             then head_proc (R(q := remove1 rp (R q))) else proc_ptr s)"
proof -
  have "ready_lists R (s\<lparr>switching := True\<rparr>)" using R by simp
  from ready_lists_unready [OF this, of rp] show ?thesis
    by (auto simp: lock_unready_def q_def simp del: if_split split: if_split_asm)
qed

lemma lock_sched_lists:
  assumes R: "ready_lists R s"
  defines "R' \<equiv> R(USER_Q := rotate1 (R USER_Q))"
  shows "\<exists>s'. lock_sched s = Done s' \<and> ready_lists R' s' \<and> off_queues s' = off_queues s \<and>
              switching s' = False \<and>
              proc_ptr s' = (if R USER_Q = [] then proc_ptr s else head_proc R')"
proof -
  have "ready_lists R (s\<lparr>switching := True\<rparr>)" using R by simp
  from sched_lists [OF this] obtain s' where "sched (s\<lparr>switching := True\<rparr>) = Done s'"
    "ready_lists R' s'" "off_queues s' = off_queues s"
    "proc_ptr s' = (if R USER_Q = [] then proc_ptr s else head_proc R')"
    by (auto simp: R'_def)
  then show ?thesis by (simp add: lock_sched_def)
qed

lemma lock_pick_proc_lists:
  assumes "ready_lists R s"
  shows "ready_lists R (lock_pick_proc s)" "proc_ptr (lock_pick_proc s) = head_proc R"
    "off_queues (lock_pick_proc s) = off_queues s" "switching (lock_pick_proc s) = False"
proof -
  have "ready_lists R (s\<lparr>switching := True\<rparr>)" using assms by simp
  from pick_proc_lists [OF this]
  show "ready_lists R (lock_pick_proc s)" "proc_ptr (lock_pick_proc s) = head_proc R"
    "off_queues (lock_pick_proc s) = off_queues s" "switching (lock_pick_proc s) = False"
    by (simp_all add: lock_pick_proc_def)
qed

end
