(* ===== verification/Kernel_Ipc.thy ===== *)
theory Kernel_Ipc
  imports Kernel_Sched
begin

section \<open>Kernel: messages, signals and interrupts\<close>

text \<open>
  The message passing of kernel/proc.c (\<open>sys_call\<close>, \<open>mini_send\<close>,
  \<open>mini_rec\<close>, \<open>cp_mess\<close>), its interrupt entry points (\<open>interrupt\<close>,
  \<open>unhold\<close>), and \<open>cause_sig\<close> and \<open>inform\<close> of kernel/system.c,
  which \<open>mini_rec\<close> calls.
\<close>

unbundle bit_operations_syntax

abbreviation (input) "E_BAD_DEST \<equiv> (-1::int)"
abbreviation (input) "E_BAD_SRC \<equiv> (-2::int)"
abbreviation (input) "E_NO_PERM \<equiv> (-8::int)"
abbreviation (input) "E_BAD_ADDR \<equiv> (-10::int)"
abbreviation (input) "E_BAD_PROC \<equiv> (-11::int)"
abbreviation (input) "ELOCKED \<equiv> (-101::int)"
abbreviation (input) "SEND \<equiv> (1::int)"
abbreviation (input) "RECEIVE \<equiv> (2::int)"
abbreviation (input) "BOTH \<equiv> (3::int)"
abbreviation (input) "HARD_INT \<equiv> (2::int)"
abbreviation (input) "KSIG \<equiv> (64::int)"
abbreviation (input) "SIGSTKFLT \<equiv> (16::int)"

subsection \<open>Copying a message\<close>

definition shadow_addr :: "proc \<Rightarrow> addr \<Rightarrow> addr" where
  "shadow_addr p a =
     (let clk = p_shadow p in
      if clk \<noteq> 0 then a + click_addr (clk - mem_phys (p_map p seg_D)) else a)"

definition cp_mess :: "int \<Rightarrow> nat \<Rightarrow> addr \<Rightarrow> nat \<Rightarrow> addr \<Rightarrow> kstate \<Rightarrow> kstate" where
  "cp_mess src src_p src_m dst_p dst_m s =
     (let src_m = shadow_addr (procs s src_p) src_m;
          dst_m = shadow_addr (procs s dst_p) dst_m
      in upd_mem (\<lambda>m. put_int (dst_m + off_source) src (phys_copy src_m dst_m (unat MESS_SIZE) m)) s)"

subsection \<open>Sending\<close>

text \<open>Is \<open>dest_ptr\<close> among the senders queued from \<open>next_ptr\<close> on?\<close>

fun locked_scan :: "nat \<Rightarrow> ptr \<Rightarrow> nat \<Rightarrow> kstate \<Rightarrow> bool run" where
  "locked_scan n None dest_ptr s = Done False"
| "locked_scan 0 (Some p) dest_ptr s = Stuck"
| "locked_scan (Suc n) (Some p) dest_ptr s =
     (if p = dest_ptr then Done True else locked_scan n (p_sendlink (procs s p)) dest_ptr s)"

fun last_sender :: "nat \<Rightarrow> nat \<Rightarrow> kstate \<Rightarrow> nat run" where
  "last_sender 0 p s = Stuck"
| "last_sender (Suc n) p s =
     (case p_sendlink (procs s p) of None \<Rightarrow> Done p | Some y \<Rightarrow> last_sender n y s)"

definition mess_ok :: "proc \<Rightarrow> addr \<Rightarrow> bool" where
  "mess_ok p vb =
     (let vlo = ucast (drop_bit CLICK_SHIFT vb) :: u16;
          vhi = ucast (drop_bit CLICK_SHIFT (vb + MESS_SIZE - 1)) :: u16
      in \<not> (vhi < vlo \<or> vhi - mem_vir (p_map p seg_D) \<ge> mem_len (p_map p seg_D)))"

definition send_deliver :: "nat \<Rightarrow> nat \<Rightarrow> addr \<Rightarrow> kstate \<Rightarrow> kstate run" where
  "send_deliver caller_ptr dest_ptr m_ptr s =
     (let s = cp_mess (p_nr (procs s caller_ptr)) caller_ptr m_ptr dest_ptr
                (p_messbuf (procs s dest_ptr)) s;
          s = upd_proc dest_ptr (p_flags_update (\<lambda>f. f AND NOT RECEIVING)) s
      in if p_flags (procs s dest_ptr) = 0 then ready dest_ptr s else Done s)"

definition send_block :: "nat \<Rightarrow> nat \<Rightarrow> addr \<Rightarrow> kstate \<Rightarrow> kstate run" where
  "send_block caller_ptr dest_ptr m_ptr s =
     (let s = upd_proc caller_ptr (p_messbuf_update (\<lambda>_. m_ptr)) s in
      andthen (if p_flags (procs s caller_ptr) = 0 then unready caller_ptr s else Done s) (\<lambda>s.
      let s = upd_proc caller_ptr (p_flags_update (\<lambda>f. f OR SENDING)) s in
      andthen
        (case p_callerq (procs s dest_ptr) of
           None \<Rightarrow> Done (upd_proc dest_ptr (p_callerq_update (\<lambda>_. Some caller_ptr)) s)
         | Some next_ptr \<Rightarrow>
             andthen (last_sender NR_SLOTS next_ptr s) (\<lambda>next_ptr.
             Done (upd_proc next_ptr (p_sendlink_update (\<lambda>_. Some caller_ptr)) s)))
        (\<lambda>s. Done (upd_proc caller_ptr (p_sendlink_update (\<lambda>_. None)) s))))"

definition mini_send :: "nat \<Rightarrow> int \<Rightarrow> addr \<Rightarrow> kstate \<Rightarrow> (int \<times> kstate) run" where
  "mini_send caller_ptr dest m_ptr s =
     (if isuserp caller_ptr \<and> \<not> isservn dest then Done (E_BAD_DEST, s)
      else andthen (proc_addr dest) (\<lambda>dest_ptr.
      if p_flags (procs s dest_ptr) AND P_SLOT_FREE \<noteq> 0 then Done (E_BAD_DEST, s)
      else if \<not> mess_ok (procs s caller_ptr) m_ptr then Done (E_BAD_ADDR, s)
      else andthen
        (if p_flags (procs s dest_ptr) AND SENDING \<noteq> 0
         then locked_scan NR_SLOTS (p_callerq (procs s caller_ptr)) dest_ptr s
         else Done False) (\<lambda>locked.
      if locked then Done (ELOCKED, s)
      else andthen
        (if (p_flags (procs s dest_ptr) AND (RECEIVING OR SENDING)) = RECEIVING \<and>
            (p_getfrom (procs s dest_ptr) = ANY \<or>
             p_getfrom (procs s dest_ptr) = p_nr (procs s caller_ptr))
         then send_deliver caller_ptr dest_ptr m_ptr s
         else send_block caller_ptr dest_ptr m_ptr s)
        (\<lambda>s. Done (OK, s)))))"

definition lock_mini_send :: "nat \<Rightarrow> int \<Rightarrow> addr \<Rightarrow> kstate \<Rightarrow> (int \<times> kstate) run" where
  "lock_mini_send caller_ptr dest m_ptr s =
     andthen (mini_send caller_ptr dest m_ptr (s\<lparr>switching := True\<rparr>))
       (\<lambda>(result, s). Done (result, s\<lparr>switching := False\<rparr>))"

subsection \<open>Kernel signals\<close>

text \<open>\<open>if (rp->p_pendcount != 0 && --rp->p_pendcount == 0 && (rp->p_flags &= ~SIG_PENDING) == 0)
  lock_ready(rp)\<close>: one signal of the process has been dealt with.\<close>

definition finish_ksig :: "nat \<Rightarrow> kstate \<Rightarrow> kstate run" where
  "finish_ksig rp s =
     (if p_pendcount (procs s rp) \<noteq> 0 then
        let s = upd_proc rp (p_pendcount_update (\<lambda>n. n - 1)) s in
        if p_pendcount (procs s rp) = 0 then
          let s = upd_proc rp (p_flags_update (\<lambda>f. f AND NOT SIG_PENDING)) s in
          if p_flags (procs s rp) = 0 then lock_ready rp s else Done s
        else Done s
      else Done s)"

definition inform :: "kstate \<Rightarrow> kstate run" where
  "inform s =
     (case find (\<lambda>i. p_flags (procs s i) AND PENDING \<noteq> 0) (slots_from 9) of
        None \<Rightarrow> Done s
      | Some rp \<Rightarrow>
          let sig_map = p_pending (procs s rp);
              s = upd_mem (put_int (sys_m s + off_type) KSIG) s;
              s = upd_mem (put_int (sys_m s + m1_i1) (p_nr (procs s rp))) s;
              s = upd_mem (put16 (sys_m s + m1_i2) sig_map) s;
              s = s\<lparr>sig_procs := sig_procs s - 1\<rparr>
          in andthen (lock_mini_send (cproc_addr HARDWARE) MM_PROC_NR (sys_m s) s) (\<lambda>(r, s).
             if r \<noteq> OK then Panics ''can't inform MM''
             else
               let s = upd_proc rp (p_pending_update (\<lambda>_. 0)) s;
                   s = upd_proc rp (p_flags_update (\<lambda>f. f AND NOT PENDING)) s
               in andthen
                 (if get16 (kmem s) (sys_m s + m1_i2) = push_bit (nat (SIGSTKFLT - 1)) 1 then
                    finish_ksig rp s
                  else Done s)
                 (\<lambda>s. Done (lock_pick_proc s))))"

definition cause_sig :: "int \<Rightarrow> int \<Rightarrow> kstate \<Rightarrow> kstate run" where
  "cause_sig proc_nr sig_nr s =
     andthen (proc_addr proc_nr) (\<lambda>rp.
     let bits = push_bit (nat (sig_nr - 1)) 1 in
     if p_pending (procs s rp) AND bits \<noteq> 0 then Done s
     else
       let s = upd_proc rp (p_pending_update (\<lambda>p. p OR bits)) s;
           s = upd_proc rp (p_pendcount_update (\<lambda>n. n + 1)) s
       in if p_flags (procs s rp) AND PENDING \<noteq> 0 then Done s
       else andthen (if p_flags (procs s rp) = 0 then lock_unready rp s else Done s) (\<lambda>s.
       let s = upd_proc rp (p_flags_update (\<lambda>f. f OR (PENDING OR SIG_PENDING))) s;
           s = s\<lparr>sig_procs := sig_procs s + 1\<rparr>;
           mmp = cproc_addr MM_PROC_NR
       in if p_flags (procs s mmp) AND RECEIVING = 0 \<or> p_getfrom (procs s mmp) \<noteq> ANY then Done s
          else inform s))"

subsection \<open>Receiving\<close>

text \<open>Looking along the caller queue for an acceptable sender: the one found, with the
  entry before it.\<close>

fun rec_scan :: "nat \<Rightarrow> int \<Rightarrow> ptr \<Rightarrow> ptr \<Rightarrow> kstate \<Rightarrow> (ptr \<times> nat) option run" where
  "rec_scan n src prev None s = Done None"
| "rec_scan 0 src prev (Some sender) s = Stuck"
| "rec_scan (Suc n) src prev (Some sender) s =
     (if src = ANY \<or> src = p_nr (procs s sender) then Done (Some (prev, sender))
      else rec_scan n src (Some sender) (p_sendlink (procs s sender)) s)"

definition rec_accept :: "nat \<Rightarrow> ptr \<Rightarrow> nat \<Rightarrow> addr \<Rightarrow> kstate \<Rightarrow> kstate run" where
  "rec_accept caller_ptr prev sender m_ptr s =
     (let s = cp_mess (p_nr (procs s sender)) sender (p_messbuf (procs s sender)) caller_ptr m_ptr s;
          link = p_sendlink (procs s sender)
      in andthen
        (if p_callerq (procs s caller_ptr) = Some sender
         then Done (upd_proc caller_ptr (p_callerq_update (\<lambda>_. link)) s)
         else andthen (deref prev) (\<lambda>p. Done (upd_proc p (p_sendlink_update (\<lambda>_. link)) s)))
        (\<lambda>s. let s = upd_proc sender (p_flags_update (\<lambda>f. f AND NOT SENDING)) s
             in if p_flags (procs s sender) = 0 then ready sender s else Done s))"

definition rec_block :: "nat \<Rightarrow> int \<Rightarrow> addr \<Rightarrow> kstate \<Rightarrow> kstate run" where
  "rec_block caller_ptr src m_ptr s =
     (let s = upd_proc caller_ptr (p_getfrom_update (\<lambda>_. src)) s;
          s = upd_proc caller_ptr (p_messbuf_update (\<lambda>_. m_ptr)) s
      in andthen (if p_flags (procs s caller_ptr) = 0 then unready caller_ptr s else Done s) (\<lambda>s.
      let s = upd_proc caller_ptr (p_flags_update (\<lambda>f. f OR RECEIVING)) s
      in if sig_procs s > 0 \<and> p_nr (procs s caller_ptr) = MM_PROC_NR \<and> src = ANY
         then inform s else Done s))"

definition mini_rec :: "nat \<Rightarrow> int \<Rightarrow> addr \<Rightarrow> kstate \<Rightarrow> (int \<times> kstate) run" where
  "mini_rec caller_ptr src m_ptr s =
     (if p_flags (procs s caller_ptr) AND SENDING = 0 then
        andthen (rec_scan NR_SLOTS src None (p_callerq (procs s caller_ptr)) s) (\<lambda>found.
        case found of
          Some (prev, sender) \<Rightarrow>
            andthen (rec_accept caller_ptr prev sender m_ptr s) (\<lambda>s. Done (OK, s))
        | None \<Rightarrow>
            if p_int_blocked (procs s caller_ptr) \<and> isrxhardware src then
              let s = upd_mem (put_int (m_ptr + off_source) HARDWARE) s;
                  s = upd_mem (put_int (m_ptr + off_type) HARD_INT) s
              in Done (OK, upd_proc caller_ptr (p_int_blocked_update (\<lambda>_. False)) s)
            else andthen (rec_block caller_ptr src m_ptr s) (\<lambda>s. Done (OK, s)))
      else andthen (rec_block caller_ptr src m_ptr s) (\<lambda>s. Done (OK, s)))"

definition sys_call :: "int \<Rightarrow> int \<Rightarrow> addr \<Rightarrow> kstate \<Rightarrow> (int \<times> kstate) run" where
  "sys_call function src_dest m_ptr s =
     (if \<not> isoksrc_dest src_dest then Done (E_BAD_SRC, s)
      else
        let rp = proc_ptr s in
        if function \<noteq> BOTH \<and> isuserp rp then Done (E_NO_PERM, s)
        else if function AND SEND \<noteq> 0 then
          andthen (mini_send rp src_dest m_ptr s) (\<lambda>(n, s).
          if function = SEND \<or> n \<noteq> OK then Done (n, s)
          else mini_rec rp src_dest m_ptr s)
        else mini_rec rp src_dest m_ptr s)"

subsection \<open>Interrupts\<close>

definition hold_int :: "nat \<Rightarrow> kstate \<Rightarrow> kstate run" where
  "hold_int rp s =
     (if p_int_held (procs s rp) then Done s
      else
        let s = upd_proc rp (p_int_held_update (\<lambda>_. True)) s in
        andthen
          (case held_head s of
             Some _ \<Rightarrow> andthen (deref (held_tail s))
                        (\<lambda>t. Done (upd_proc t (p_nextheld_update (\<lambda>_. Some rp)) s))
           | None \<Rightarrow> Done (s\<lparr>held_head := Some rp\<rparr>))
          (\<lambda>s. Done (upd_proc rp (p_nextheld_update (\<lambda>_. None)) (s\<lparr>held_tail := Some rp\<rparr>))))"

definition interrupt :: "int \<Rightarrow> kstate \<Rightarrow> kstate run" where
  "interrupt task s =
     andthen (proc_addr task) (\<lambda>rp.
     if k_reenter s \<noteq> 0 \<or> switching s then hold_int rp s
     else if (p_flags (procs s rp) AND (RECEIVING OR SENDING)) \<noteq> RECEIVING \<or>
             \<not> isrxhardware (p_getfrom (procs s rp)) then
       Done (upd_proc rp (p_int_blocked_update (\<lambda>_. True)) s)
     else
       let s = upd_mem (put_int (p_messbuf (procs s rp) + off_source) HARDWARE) s;
           s = upd_mem (put_int (p_messbuf (procs s rp) + off_type) HARD_INT) s;
           s = upd_proc rp (p_flags_update (\<lambda>f. f AND NOT RECEIVING)) s;
           s = upd_proc rp (p_int_blocked_update (\<lambda>_. False)) s
       in rdy_append TASK_Q rp s)"

text \<open>Flushing the held interrupts, as the loop runs when nothing else intervenes.\<close>

fun unhold_loop :: "nat \<Rightarrow> ptr \<Rightarrow> kstate \<Rightarrow> kstate run" where
  "unhold_loop n None s = Done s"
| "unhold_loop 0 (Some rp) s = Stuck"
| "unhold_loop (Suc n) (Some rp) s =
     (let s = s\<lparr>held_head := p_nextheld (procs s rp)\<rparr>;
          s = (if held_head s = None then s\<lparr>held_tail := None\<rparr> else s);
          s = upd_proc rp (p_int_held_update (\<lambda>_. False)) s
      in andthen (interrupt (p_nr (procs s rp)) s) (\<lambda>s. unhold_loop n (held_head s) s))"

definition unhold :: "kstate \<Rightarrow> kstate run" where
  "unhold s =
     (if switching s then Done s
      else andthen (deref (held_head s)) (\<lambda>rp. unhold_loop NR_SLOTS (Some rp) s))"

end
