(* ===== verification/Kernel_Inv.thy ===== *)
theory Kernel_Inv
  imports Kernel_Ipc
begin

section \<open>Kernel: the invariant of the process table\<close>

text \<open>
  When the process table is consistent: the ready queues hold exactly the runnable
  processes; every process that is blocked sending is on exactly one caller queue; no two
  processes wait to send to each other; a process that is blocked receiving has no
  acceptable sender and no acceptable interrupt waiting; \<open>sig_procs\<close> counts the
  processes with a signal the memory manager has not seen; and the held interrupts form one
  list.  The invariant is stated over the abstract lists (\<open>R\<close> ready queues,
  \<open>C\<close> caller queues, \<open>H\<close> held interrupts) that the links of a state represent.
\<close>

unbundle bit_operations_syntax

definition sendlink :: "(nat \<Rightarrow> proc) \<Rightarrow> nat \<Rightarrow> ptr" where
  "sendlink ps i = p_sendlink (ps i)"

definition nextheld :: "(nat \<Rightarrow> proc) \<Rightarrow> nat \<Rightarrow> ptr" where
  "nextheld ps i = p_nextheld (ps i)"

definition callers :: "kstate \<Rightarrow> nat \<Rightarrow> nat list" where
  "callers s i = follow NR_SLOTS (sendlink (procs s)) (p_callerq (procs s i))"

definition held :: "kstate \<Rightarrow> nat list" where
  "held s = follow NR_SLOTS (nextheld (procs s)) (held_head s)"

definition sending :: "kstate \<Rightarrow> nat \<Rightarrow> bool" where
  "sending s i \<longleftrightarrow> p_flags (procs s i) AND SENDING \<noteq> 0"

definition receiving :: "kstate \<Rightarrow> nat \<Rightarrow> bool" where
  "receiving s i \<longleftrightarrow> p_flags (procs s i) AND RECEIVING \<noteq> 0"

definition pending :: "kstate \<Rightarrow> nat \<Rightarrow> bool" where
  "pending s i \<longleftrightarrow> p_flags (procs s i) AND PENDING \<noteq> 0"

definition runnable :: "kstate \<Rightarrow> nat \<Rightarrow> bool" where
  "runnable s i \<longleftrightarrow> p_flags (procs s i) = 0 \<and> i \<noteq> cproc_addr IDLE \<and> i \<noteq> cproc_addr HARDWARE"

definition ready_exact :: "(nat \<Rightarrow> nat list) \<Rightarrow> kstate \<Rightarrow> bool" where
  "ready_exact R s \<longleftrightarrow> (\<forall>i<NR_SLOTS. i \<in> set (R (queue_of s i)) \<longleftrightarrow> runnable s i)"

definition current_ok :: "(nat \<Rightarrow> nat list) \<Rightarrow> kstate \<Rightarrow> bool" where
  "current_ok R s \<longleftrightarrow> proc_ptr s = cproc_addr IDLE \<or>
     (\<exists>q<SHADOW_Q. R q \<noteq> [] \<and> proc_ptr s = hd (R q))"

definition callers_ok :: "(nat \<Rightarrow> nat list) \<Rightarrow> kstate \<Rightarrow> bool" where
  "callers_ok C s \<longleftrightarrow>
     (\<forall>i<NR_SLOTS. chain (sendlink (procs s)) (p_callerq (procs s i)) (C i)) \<and>
     (\<forall>i<NR_SLOTS. \<forall>j\<in>set (C i). j < NR_SLOTS \<and> sending s j) \<and>
     (\<forall>j<NR_SLOTS. sending s j \<longrightarrow> (\<exists>i<NR_SLOTS. j \<in> set (C i))) \<and>
     (\<forall>i<NR_SLOTS. \<forall>i'<NR_SLOTS. \<forall>j\<in>set (C i). j \<in> set (C i') \<longrightarrow> i = i')"

definition accepts :: "kstate \<Rightarrow> nat \<Rightarrow> nat \<Rightarrow> bool" where
  "accepts s i j \<longleftrightarrow> p_getfrom (procs s i) = ANY \<or> p_getfrom (procs s i) = int j - NR_TASKS"

definition waiting :: "kstate \<Rightarrow> nat \<Rightarrow> bool" where
  "waiting s i \<longleftrightarrow> receiving s i \<and> \<not> sending s i"

definition wait_ok :: "(nat \<Rightarrow> nat list) \<Rightarrow> kstate \<Rightarrow> bool" where
  "wait_ok C s \<longleftrightarrow>
     (\<forall>i<NR_SLOTS. \<forall>j<NR_SLOTS. i \<in> set (C j) \<longrightarrow> j \<in> set (C i) \<longrightarrow> i = j) \<and>
     (\<forall>i<NR_SLOTS. waiting s i \<longrightarrow> (\<forall>j\<in>set (C i). \<not> accepts s i j)) \<and>
     (\<forall>i<NR_SLOTS. sending s i \<longrightarrow> receiving s i \<longrightarrow>
        (\<exists>d<NR_SLOTS. p_getfrom (procs s i) = int d - NR_TASKS \<and> i \<in> set (C d)))"

definition ints_ok :: "kstate \<Rightarrow> bool" where
  "ints_ok s \<longleftrightarrow> (\<forall>i<NR_SLOTS. p_int_blocked (procs s i) \<longrightarrow>
                     \<not> (waiting s i \<and> isrxhardware (p_getfrom (procs s i))))"

definition held_ok :: "nat list \<Rightarrow> kstate \<Rightarrow> bool" where
  "held_ok H s \<longleftrightarrow> chain (nextheld (procs s)) (held_head s) H \<and>
     held_tail s = (if H = [] then None else Some (last H)) \<and>
     (\<forall>i<NR_SLOTS. p_int_held (procs s i) \<longleftrightarrow> i \<in> set H) \<and>
     set H \<subseteq> {..<9} - {1, 8}"

definition signals_ok :: "kstate \<Rightarrow> bool" where
  "signals_ok s \<longleftrightarrow> sig_procs s = int (card {i. i < NR_SLOTS \<and> pending s i}) \<and>
     (\<forall>i<NR_SLOTS. pending s i \<longleftrightarrow> p_pending (procs s i) \<noteq> 0) \<and>
     (\<forall>i<NR_SLOTS. pending s i \<or> p_pendcount (procs s i) \<noteq> 0 \<longrightarrow>
                    p_flags (procs s i) AND SIG_PENDING \<noteq> 0)"

definition slots_ok :: "kstate \<Rightarrow> bool" where
  "slots_ok s \<longleftrightarrow>
     (\<forall>i<NR_SLOTS. p_nr (procs s i) = int i - NR_TASKS) \<and>
     (\<forall>i<11. p_flags (procs s i) AND NOT (SENDING OR RECEIVING) = 0) \<and>
     p_flags (procs s (cproc_addr IDLE)) = 0 \<and> p_flags (procs s (cproc_addr HARDWARE)) = 0 \<and>
     mess_ok (procs s (cproc_addr HARDWARE)) (sys_m s)"

definition sched_inv :: "(nat \<Rightarrow> nat list) \<Rightarrow> kstate \<Rightarrow> bool" where
  "sched_inv R s \<longleftrightarrow> ready_lists R s \<and> ready_exact R s \<and> current_ok R s"

definition rest_inv :: "(nat \<Rightarrow> nat list) \<Rightarrow> nat list \<Rightarrow> kstate \<Rightarrow> bool" where
  "rest_inv C H s \<longleftrightarrow> callers_ok C s \<and> wait_ok C s \<and> ints_ok s \<and> held_ok H s \<and> slots_ok s"

definition core_inv ::
  "(nat \<Rightarrow> nat list) \<Rightarrow> (nat \<Rightarrow> nat list) \<Rightarrow> nat list \<Rightarrow> kstate \<Rightarrow> bool" where
  "core_inv R C H s \<longleftrightarrow> sched_inv R s \<and> rest_inv C H s"

definition kernel_inv ::
  "(nat \<Rightarrow> nat list) \<Rightarrow> (nat \<Rightarrow> nat list) \<Rightarrow> nat list \<Rightarrow> kstate \<Rightarrow> bool" where
  "kernel_inv R C H s \<longleftrightarrow> core_inv R C H s \<and> signals_ok s"

text \<open>The lists are determined by the links, so the invariant is a property of the state.\<close>

definition kernel_ok :: "kstate \<Rightarrow> bool" where
  "kernel_ok s \<longleftrightarrow> kernel_inv (ready_q s) (callers s) (held s) s"

subsection \<open>The invariant outside the ready queues\<close>

lemma off_projs:
  assumes "off_queues s' = off_queues s"
  shows "p_flags (procs s' i) = p_flags (procs s i)" "p_callerq (procs s' i) = p_callerq (procs s i)"
    "p_sendlink (procs s' i) = p_sendlink (procs s i)" "p_getfrom (procs s' i) = p_getfrom (procs s i)"
    "p_nr (procs s' i) = p_nr (procs s i)" "p_int_blocked (procs s' i) = p_int_blocked (procs s i)"
    "p_int_held (procs s' i) = p_int_held (procs s i)" "p_nextheld (procs s' i) = p_nextheld (procs s i)"
    "p_map (procs s' i) = p_map (procs s i)" "p_shadow (procs s' i) = p_shadow (procs s i)"
    "p_messbuf (procs s' i) = p_messbuf (procs s i)" "p_pending (procs s' i) = p_pending (procs s i)"
    "p_pendcount (procs s' i) = p_pendcount (procs s i)" "p_alarm (procs s' i) = p_alarm (procs s i)"
    "p_physio (procs s' i) = p_physio (procs s i)" "child_utime (procs s' i) = child_utime (procs s i)"
    "child_stime (procs s' i) = child_stime (procs s i)"
  using off_queues_proc [OF assms, of i] by (cases "procs s i", cases "procs s' i"; simp)+

lemma off_states:
  assumes "off_queues s' = off_queues s"
  shows "sending s' = sending s" "receiving s' = receiving s" "pending s' = pending s"
    "runnable s' = runnable s" "accepts s' = accepts s" "waiting s' = waiting s"
    "sendlink (procs s') = sendlink (procs s)" "nextheld (procs s') = nextheld (procs s)"
    "queue_of s' = queue_of s" "mess_ok (procs s' i) a = mess_ok (procs s i) a"
  by (auto simp: fun_eq_iff sending_def receiving_def pending_def runnable_def accepts_def waiting_def
      sendlink_def nextheld_def mess_ok_def queue_of_off [OF assms] off_projs [OF assms])

lemma rest_inv_off:
  assumes "off_queues s' = off_queues s"
  shows "rest_inv C H s' = rest_inv C H s"
  by (simp add: rest_inv_def callers_ok_def wait_ok_def ints_ok_def held_ok_def signals_ok_def
      slots_ok_def off_states [OF assms] off_projs [OF assms] off_queues_fields [OF assms])

lemma follow_unique:
  assumes "chain nx p xs" and "set xs \<subseteq> {..<n}"
  shows "follow n nx p = xs"
  using assms by (intro follow_chain chain_length)

lemma kernel_inv_lists:
  assumes inv: "kernel_inv R C H s"
  shows "q < NQ \<Longrightarrow> ready_q s q = R q" "i < NR_SLOTS \<Longrightarrow> callers s i = C i" "held s = H"
proof -
  show "ready_q s q = R q" if "q < NQ"
    using inv that by (simp add: kernel_inv_def core_inv_def sched_inv_def ready_lists_q)
  have "callers_ok C s" and h: "held_ok H s" using inv by (simp_all add: kernel_inv_def core_inv_def rest_inv_def)
  then show "callers s i = C i" if "i < NR_SLOTS"
    using that unfolding callers_def by (intro follow_unique) (auto simp: callers_ok_def)
  show "held s = H"
    using h unfolding held_def by (intro follow_unique) (auto simp: held_ok_def)
qed

lemma kernel_inv_cong:
  assumes "kernel_inv R C H s" and "\<And>q. q < NQ \<Longrightarrow> R' q = R q" and "\<And>i. i < NR_SLOTS \<Longrightarrow> C' i = C i"
  shows "kernel_inv R' C' H s"
proof -
  have "ready_lists R' s = ready_lists R s" using assms(2) by (rule ready_lists_cong)
  moreover have "ready_exact R' s = ready_exact R s"
    using assms(2) queue_of_less by (simp add: ready_exact_def)
  moreover have "current_ok R' s = current_ok R s"
    using assms(2) by (simp add: current_ok_def cong: conj_cong)
  moreover have "callers_ok C' s = callers_ok C s" "wait_ok C' s = wait_ok C s"
    using assms(3) unfolding callers_ok_def wait_ok_def
    by (simp_all cong: conj_cong)
  ultimately show ?thesis using assms(1)
    by (simp add: kernel_inv_def core_inv_def sched_inv_def rest_inv_def)
qed

lemma kernel_okI: "kernel_inv R C H s \<Longrightarrow> kernel_ok s"
  unfolding kernel_ok_def using kernel_inv_lists [of R C H s]
  by (metis kernel_inv_cong)

lemma kernel_okD: "kernel_ok s \<Longrightarrow> kernel_inv (ready_q s) (callers s) (held s) s"
  by (simp add: kernel_ok_def)

subsection \<open>Steps of the scheduler\<close>

lemmas flag_simps = and.assoc bit.conj_disj_distrib2

text \<open>What the ready queues depend on.\<close>

definition sched_part where
  "sched_part s = (nextready (procs s), (\<lambda>i. p_shadow (procs s i)), rdy_head s, rdy_tail s, proc_ptr s)"

lemma sched_part_lists:
  assumes "sched_part s' = sched_part s"
  shows "ready_lists R s' = ready_lists R s" "current_ok R s' = current_ok R s"
    "queue_of s' = queue_of s"
proof -
  have *: "nextready (procs s') = nextready (procs s)" "rdy_head s' = rdy_head s"
    "rdy_tail s' = rdy_tail s" "proc_ptr s' = proc_ptr s" "\<And>i. p_shadow (procs s' i) = p_shadow (procs s i)"
    using assms by (auto simp: sched_part_def fun_eq_iff)
  show "queue_of s' = queue_of s" by (simp add: queue_of_def isshadowp_def * fun_eq_iff)
  then show "ready_lists R s' = ready_lists R s" "current_ok R s' = current_ok R s"
    by (simp_all add: ready_lists_def current_ok_def *)
qed

lemma sched_part_upd [simp]:
  "sched_part (upd_mem g s) = sched_part s"
  "sched_part (upd_proc i (p_flags_update f1) s) = sched_part s"
  "sched_part (upd_proc i (p_messbuf_update f2) s) = sched_part s"
  "sched_part (upd_proc i (p_getfrom_update f3) s) = sched_part s"
  "sched_part (upd_proc i (p_callerq_update f4) s) = sched_part s"
  "sched_part (upd_proc i (p_sendlink_update f4) s) = sched_part s"
  "sched_part (upd_proc i (p_pending_update f1) s) = sched_part s"
  "sched_part (upd_proc i (p_pendcount_update f1) s) = sched_part s"
  "sched_part (upd_proc i (p_int_blocked_update f5) s) = sched_part s"
  "sched_part (upd_proc i (p_int_held_update f5) s) = sched_part s"
  "sched_part (upd_proc i (p_nextheld_update f4) s) = sched_part s"
  "sched_part (s\<lparr>sig_procs := n\<rparr>) = sched_part s"
  "sched_part (s\<lparr>switching := b\<rparr>) = sched_part s"
  "sched_part (s\<lparr>held_head := h\<rparr>) = sched_part s"
  "sched_part (s\<lparr>held_tail := h\<rparr>) = sched_part s"
  by (auto simp: sched_part_def nextready_def fun_eq_iff)

text \<open>The queues are exact but for one process.\<close>

definition exact_but :: "nat \<Rightarrow> (nat \<Rightarrow> nat list) \<Rightarrow> kstate \<Rightarrow> bool" where
  "exact_but rp R s \<longleftrightarrow>
     (\<forall>i<NR_SLOTS. i \<noteq> rp \<longrightarrow> (i \<in> set (R (queue_of s i)) \<longleftrightarrow> runnable s i))"

lemma ready_exact_but: "ready_exact R s \<Longrightarrow> exact_but rp R s"
  by (simp add: ready_exact_def exact_but_def)

lemma sched_invI:
  assumes "ready_lists R s" and "current_ok R s" and "exact_but rp R s"
    and "rp \<in> set (R (queue_of s rp)) \<longleftrightarrow> runnable s rp"
  shows "sched_inv R s"
  using assms by (auto simp: sched_inv_def ready_exact_def exact_but_def)

lemma sched_inv_same:
  assumes "sched_inv R s" and "sched_part s' = sched_part s"
    and "\<And>i. runnable s' i = runnable s i"
  shows "sched_inv R s'"
  using assms by (simp add: sched_inv_def ready_exact_def sched_part_lists [OF assms(2)])

lemma current_ok_append:
  "current_ok R s \<Longrightarrow> proc_ptr s' = proc_ptr s \<Longrightarrow> current_ok (R(q := R q @ [rp])) s'"
  unfolding current_ok_def by (metis append_is_Nil_conv fun_upd_apply hd_append2)

lemma ex_less_3: "(\<exists>q<3. P q) \<longleftrightarrow> P 0 \<or> P 1 \<or> P (2::nat)"
proof -
  have "q < 3 \<longleftrightarrow> q = 0 \<or> q = 1 \<or> q = 2" for q :: nat by auto
  then show ?thesis by auto
qed

lemma current_ok_head: "current_ok R s" if "proc_ptr s = head_proc R"
  using that unfolding current_ok_def ex_less_3 head_proc_def by (auto split: if_splits)

lemma sched_append:
  assumes "current_ok R s" and "exact_but rp R s" and "runnable s rp"
    and s': "ready_lists (R(queue_of s rp := R (queue_of s rp) @ [rp])) s'"
      "off_queues s' = off_queues s" "proc_ptr s' = proc_ptr s"
  shows "sched_inv (R(queue_of s rp := R (queue_of s rp) @ [rp])) s'"
proof (rule sched_invI [OF s'(1)])
  show "current_ok (R(queue_of s rp := R (queue_of s rp) @ [rp])) s'"
    by (rule current_ok_append [OF assms(1) s'(3)])
  show "exact_but rp (R(queue_of s rp := R (queue_of s rp) @ [rp])) s'"
    using assms(2) by (auto simp: exact_but_def off_states [OF s'(2)])
  show "rp \<in> set ((R(queue_of s rp := R (queue_of s rp) @ [rp])) (queue_of s' rp)) \<longleftrightarrow> runnable s' rp"
    using assms(3) by (simp add: off_states [OF s'(2)])
qed

lemma sched_ready:
  assumes "ready_lists R s" and "current_ok R s" and "exact_but rp R s" and "rp < NR_SLOTS"
    and "runnable s rp" and "rp \<notin> set (R (queue_of s rp))"
  defines "R' \<equiv> R(queue_of s rp := R (queue_of s rp) @ [rp])"
  shows "\<exists>s'. ready rp s = Done s' \<and> sched_inv R' s' \<and> off_queues s' = off_queues s \<and>
              proc_ptr s' = proc_ptr s \<and> switching s' = switching s"
    "\<exists>s'. lock_ready rp s = Done s' \<and> sched_inv R' s' \<and> off_queues s' = off_queues s \<and>
              proc_ptr s' = proc_ptr s \<and> switching s' = False"
  using ready_lists_ready [OF assms(1,4,6)] ready_lists_lock_ready [OF assms(1,4,6)]
    sched_append [OF assms(2,3,5)] unfolding R'_def by blast+

lemma current_ok_remove:
  assumes R: "ready_lists R s" and cur: "current_ok R s" and q: "q < NQ"
    and p: "proc_ptr s' = (if R q \<noteq> [] \<and> hd (R q) = rp \<and> proc_ptr s = rp
                           then head_proc (R(q := remove1 rp (R q))) else proc_ptr s)"
  shows "current_ok (R(q := remove1 rp (R q))) s'"
proof (cases "R q \<noteq> [] \<and> hd (R q) = rp \<and> proc_ptr s = rp")
  case True
  then show ?thesis using p by (intro current_ok_head) simp
next
  case False
  then have same: "proc_ptr s' = proc_ptr s" using p by auto
  show ?thesis
  proof (cases "proc_ptr s = cproc_addr IDLE")
    case True
    then show ?thesis using same by (simp add: current_ok_def)
  next
    case nidle: False
    then obtain q' where q': "q' < SHADOW_Q" "R q' \<noteq> []" "proc_ptr s = hd (R q')"
      using cur by (auto simp: current_ok_def)
    show ?thesis
    proof (cases "q' = q")
      case True
      with q' False have "hd (R q) \<noteq> rp" by auto
      then have "remove1 rp (R q) \<noteq> []" "hd (remove1 rp (R q)) = hd (R q)"
        using q' True by (cases "R q"; auto)+
      then show ?thesis unfolding current_ok_def same using q' True by auto
    next
      case other: False
      then show ?thesis unfolding current_ok_def same using q' by auto
    qed
  qed
qed

lemma sched_remove:
  fixes rp :: nat
  assumes inv: "sched_inv R s"
    and s': "ready_lists (R(queue_of s rp := remove1 rp (R (queue_of s rp)))) s'"
      "off_queues s' = off_queues s"
      "proc_ptr s' = (if R (queue_of s rp) \<noteq> [] \<and> hd (R (queue_of s rp)) = rp \<and> proc_ptr s = rp
                      then head_proc (R(queue_of s rp := remove1 rp (R (queue_of s rp))))
                      else proc_ptr s)"
  shows "current_ok (R(queue_of s rp := remove1 rp (R (queue_of s rp)))) s'"
    "exact_but rp (R(queue_of s rp := remove1 rp (R (queue_of s rp)))) s'"
    "rp \<notin> set (remove1 rp (R (queue_of s rp)))"
proof -
  have R: "ready_lists R s" and ex: "ready_exact R s" and cur: "current_ok R s"
    using inv by (auto simp: sched_inv_def)
  show "current_ok (R(queue_of s rp := remove1 rp (R (queue_of s rp)))) s'"
    by (rule current_ok_remove [OF R cur queue_of_less s'(3)])
  have d: "distinct (R (queue_of s rp))" by (rule ready_listsD(4) [OF R queue_of_less])
  show "rp \<notin> set (remove1 rp (R (queue_of s rp)))"
    using d by simp
  show "exact_but rp (R(queue_of s rp := remove1 rp (R (queue_of s rp)))) s'"
    using ex d by (auto simp: exact_but_def ready_exact_def off_states [OF s'(2)])
qed

lemma sched_unready:
  fixes rp :: nat
  assumes inv: "sched_inv R s"
  defines "R' \<equiv> R(queue_of s rp := remove1 rp (R (queue_of s rp)))"
  shows "\<exists>s'. unready rp s = Done s' \<and> ready_lists R' s' \<and> current_ok R' s' \<and> exact_but rp R' s' \<and>
              rp \<notin> set (R' (queue_of s rp)) \<and> off_queues s' = off_queues s \<and> switching s' = switching s"
    "\<exists>s'. lock_unready rp s = Done s' \<and> ready_lists R' s' \<and> current_ok R' s' \<and> exact_but rp R' s' \<and>
              rp \<notin> set (R' (queue_of s rp)) \<and> off_queues s' = off_queues s \<and> switching s' = False"
proof -
  have R: "ready_lists R s" using inv by (simp add: sched_inv_def)
  obtain s' where "unready rp s = Done s'" and s': "ready_lists R' s'" "off_queues s' = off_queues s"
    "proc_ptr s' = (if R (queue_of s rp) \<noteq> [] \<and> hd (R (queue_of s rp)) = rp \<and> proc_ptr s = rp
                    then head_proc R' else proc_ptr s)" "switching s' = switching s"
    using ready_lists_unready [OF R, of rp] unfolding R'_def by blast
  with sched_remove [OF inv s'(1-3) [unfolded R'_def]]
  show "\<exists>s'. unready rp s = Done s' \<and> ready_lists R' s' \<and> current_ok R' s' \<and> exact_but rp R' s' \<and>
             rp \<notin> set (R' (queue_of s rp)) \<and> off_queues s' = off_queues s \<and> switching s' = switching s"
    by (intro exI [of _ s']) (simp add: R'_def)
  obtain s2 where "lock_unready rp s = Done s2" and s2: "ready_lists R' s2" "off_queues s2 = off_queues s"
    "proc_ptr s2 = (if R (queue_of s rp) \<noteq> [] \<and> hd (R (queue_of s rp)) = rp \<and> proc_ptr s = rp
                    then head_proc R' else proc_ptr s)" "switching s2 = False"
    using ready_lists_lock_unready [OF R, of rp] unfolding R'_def by blast
  with sched_remove [OF inv s2(1-3) [unfolded R'_def]]
  show "\<exists>s'. lock_unready rp s = Done s' \<and> ready_lists R' s' \<and> current_ok R' s' \<and> exact_but rp R' s' \<and>
             rp \<notin> set (R' (queue_of s rp)) \<and> off_queues s' = off_queues s \<and> switching s' = False"
    by (intro exI [of _ s2]) (simp add: R'_def)
qed

subsection \<open>Steps outside the ready queues\<close>

definition rest_part where
  "rest_part s = ((\<lambda>i. p_flags (procs s i)), (\<lambda>i. p_callerq (procs s i)), sendlink (procs s),
     (\<lambda>i. p_getfrom (procs s i)), (\<lambda>i. p_nr (procs s i)), (\<lambda>i. p_int_blocked (procs s i)),
     (\<lambda>i. p_int_held (procs s i)), nextheld (procs s), held_head s, held_tail s, 
     mess_ok (procs s 8), sys_m s)"

lemma rest_inv_same:
  assumes "rest_part s' = rest_part s"
  shows "rest_inv C H s' = rest_inv C H s"
proof -
  have *: "\<And>i. p_flags (procs s' i) = p_flags (procs s i)" "\<And>i. p_callerq (procs s' i) = p_callerq (procs s i)"
    "sendlink (procs s') = sendlink (procs s)" "\<And>i. p_getfrom (procs s' i) = p_getfrom (procs s i)"
    "\<And>i. p_nr (procs s' i) = p_nr (procs s i)" "\<And>i. p_int_blocked (procs s' i) = p_int_blocked (procs s i)"
    "\<And>i. p_int_held (procs s' i) = p_int_held (procs s i)" "nextheld (procs s') = nextheld (procs s)"
    "held_head s' = held_head s" "held_tail s' = held_tail s"
    "mess_ok (procs s' 8) = mess_ok (procs s 8)" "sys_m s' = sys_m s"
    using assms unfolding rest_part_def fun_eq_iff prod.inject by blast+
  have "sending s' = sending s" "receiving s' = receiving s" "pending s' = pending s"
    "accepts s' = accepts s" "waiting s' = waiting s"
    by (simp_all add: fun_eq_iff sending_def receiving_def pending_def accepts_def waiting_def *)
  then show ?thesis
    by (simp add: rest_inv_def callers_ok_def wait_ok_def ints_ok_def held_ok_def slots_ok_def *)
qed

lemma rest_part_upd [simp]:
  "rest_part (upd_mem g s) = rest_part s"
  "rest_part (upd_proc i (p_messbuf_update f1) s) = rest_part s"
  "rest_part (upd_proc i (p_pending_update f2) s) = rest_part s"
  "rest_part (upd_proc i (p_pendcount_update f2) s) = rest_part s"
  "rest_part (upd_proc i (p_alarm_update f1) s) = rest_part s"
  "rest_part (upd_proc i (p_nextready_update f3) s) = rest_part s"
  "rest_part (s\<lparr>switching := b\<rparr>) = rest_part s"
  "rest_part (s\<lparr>sig_procs := k\<rparr>) = rest_part s"
  "rest_part (s\<lparr>rdy_head := h\<rparr>) = rest_part s"
  "rest_part (s\<lparr>rdy_tail := h\<rparr>) = rest_part s"
  "rest_part (s\<lparr>proc_ptr := n\<rparr>) = rest_part s"
  "rest_part (s\<lparr>bill_ptr := n\<rparr>) = rest_part s"
  by (auto simp: rest_part_def sendlink_def nextheld_def fun_eq_iff mess_ok_def)

lemma sendlink_upd [simp, kernel_simps]:
  "sendlink (ps(i := p)) = (sendlink ps)(i := p_sendlink p)"
  by (auto simp: sendlink_def)

lemma sendlink_triv [simp, kernel_simps]:
  "(sendlink ps)(i := p_sendlink (ps i)) = sendlink ps"
  by (auto simp: sendlink_def)

lemma nextheld_upd [simp, kernel_simps]:
  "nextheld (ps(i := p)) = (nextheld ps)(i := p_nextheld p)"
  by (auto simp: nextheld_def)

lemma nextheld_triv [simp, kernel_simps]:
  "(nextheld ps)(i := p_nextheld (ps i)) = nextheld ps"
  by (auto simp: nextheld_def)

lemma mess_ok_upd [simp]:
  "mess_ok (p_flags_update f1 p) = mess_ok p" "mess_ok (p_callerq_update f2 p) = mess_ok p"
  "mess_ok (p_sendlink_update f2 p) = mess_ok p" "mess_ok (p_getfrom_update f3 p) = mess_ok p"
  "mess_ok (p_int_blocked_update f4 p) = mess_ok p" "mess_ok (p_int_held_update f4 p) = mess_ok p"
  "mess_ok (p_nextheld_update f2 p) = mess_ok p"
  by (simp_all add: mess_ok_def fun_eq_iff)

lemma flags_upd:
  "sending (upd_proc i (p_flags_update g) s) = (sending s)(i := g (p_flags (procs s i)) AND SENDING \<noteq> 0)"
  "receiving (upd_proc i (p_flags_update g) s) = (receiving s)(i := g (p_flags (procs s i)) AND RECEIVING \<noteq> 0)"
  "pending (upd_proc i (p_flags_update g) s) = (pending s)(i := g (p_flags (procs s i)) AND PENDING \<noteq> 0)"
  "accepts (upd_proc i (p_flags_update g) s) = accepts s"
  by (auto simp: fun_eq_iff sending_def receiving_def pending_def accepts_def)

lemma fun_upd_same_eq: "f i = b \<Longrightarrow> f(i := b) = f"
  by auto

lemma rest_inv_clear_receiving:
  assumes inv: "rest_inv C H s" and i: "i < NR_SLOTS"
  shows "rest_inv C H (upd_proc i (p_flags_update (\<lambda>f. f AND NOT RECEIVING)) s)"
proof -
  define s' where "s' = upd_proc i (p_flags_update (\<lambda>f. f AND NOT RECEIVING)) s"
  have s: "sending s' = sending s"
    unfolding s'_def flags_upd by (rule fun_upd_same_eq) (simp add: sending_def flag_simps)
  have r: "receiving s' = (receiving s)(i := False)"
    unfolding s'_def flags_upd by (simp add: flag_simps)
  have a: "accepts s' = accepts s" by (simp add: s'_def flags_upd)
  have w: "waiting s' j \<Longrightarrow> waiting s j" for j by (auto simp: waiting_def s r split: if_splits)
  have other: "sendlink (procs s') = sendlink (procs s)" "nextheld (procs s') = nextheld (procs s)"
    "\<And>j. p_callerq (procs s' j) = p_callerq (procs s j)" "\<And>j. p_getfrom (procs s' j) = p_getfrom (procs s j)"
    by (auto simp: s'_def)
  have "callers_ok C s'" using inv by (simp add: rest_inv_def callers_ok_def s other)
  moreover have "wait_ok C s'"
    using inv w unfolding rest_inv_def wait_ok_def s a r other by (auto split: if_splits)
  moreover have "ints_ok s'" using inv w by (auto simp: rest_inv_def ints_ok_def s'_def)
  moreover have "held_ok H s'" using inv by (auto simp: rest_inv_def held_ok_def s'_def)
  moreover have "slots_ok s'" using inv by (auto simp: rest_inv_def slots_ok_def flag_simps s'_def)
  ultimately show ?thesis by (simp add: rest_inv_def s'_def)
qed

text \<open>Blocking on a destination: the sender joins the end of its caller queue.\<close>

lemma callers_okD:
  assumes "callers_ok C s" and "i < NR_SLOTS"
  shows "chain (sendlink (procs s)) (p_callerq (procs s i)) (C i)"
    "\<And>j. j \<in> set (C i) \<Longrightarrow> j < NR_SLOTS \<and> sending s j" "distinct (C i)" "length (C i) \<le> NR_SLOTS"
proof -
  show c: "chain (sendlink (procs s)) (p_callerq (procs s i)) (C i)"
    and m: "\<And>j. j \<in> set (C i) \<Longrightarrow> j < NR_SLOTS \<and> sending s j"
    using assms by (auto simp: callers_ok_def)
  show "distinct (C i)" by (rule chain_distinct [OF c])
  show "length (C i) \<le> NR_SLOTS" using m by (intro chain_length [OF c]) blast
qed

lemma callers_ok_unique:
  "callers_ok C s \<Longrightarrow> i < NR_SLOTS \<Longrightarrow> i' < NR_SLOTS \<Longrightarrow> j \<in> set (C i) \<Longrightarrow> j \<in> set (C i') \<Longrightarrow> i = i'"
  unfolding callers_ok_def by blast

lemma wait_okD:
  assumes "wait_ok C s"
  shows "i < NR_SLOTS \<Longrightarrow> j < NR_SLOTS \<Longrightarrow> i \<in> set (C j) \<Longrightarrow> j \<in> set (C i) \<Longrightarrow> i = j"
    "i < NR_SLOTS \<Longrightarrow> waiting s i \<Longrightarrow> j \<in> set (C i) \<Longrightarrow> \<not> accepts s i j"
    "i < NR_SLOTS \<Longrightarrow> sending s i \<Longrightarrow> receiving s i \<Longrightarrow>
       \<exists>d<NR_SLOTS. p_getfrom (procs s i) = int d - NR_TASKS \<and> i \<in> set (C d)"
  using assms by (simp_all add: wait_ok_def)

lemma last_sender_chain:
  assumes "chain (sendlink (procs s)) (Some x) (x # ys)" and "length ys < n"
  shows "last_sender n x s = Done (last (x # ys))"
  using assms
proof (induction ys arbitrary: x n)
  case Nil
  then show ?case by (cases n) (auto simp: sendlink_def)
next
  case (Cons a ys)
  then show ?case by (cases n) (auto simp: sendlink_def)
qed

lemma locked_scan_chain:
  assumes "chain (sendlink (procs s)) p xs" and "length xs \<le> n"
  shows "locked_scan n p d s = Done (d \<in> set xs)"
  using assms
proof (induction xs arbitrary: p n)
  case Nil
  then show ?case by simp
next
  case (Cons a xs)
  then show ?case by (cases n) (auto simp: sendlink_def)
qed

lemma callers_ok_enqueue:
  assumes C: "callers_ok C s" and c: "c < NR_SLOTS" and d: "d < NR_SLOTS" and ns: "\<not> sending s c"
    and s': "\<And>i. p_callerq (procs s' i) = (if i = d \<and> C d = [] then Some c else p_callerq (procs s i))"
      "sendlink (procs s') = (if C d = [] then (sendlink (procs s))(c := None)
                              else (sendlink (procs s))(last (C d) := Some c, c := None))"
      "sending s' = (sending s)(c := True)"
  shows "callers_ok (C(d := C d @ [c])) s'"
proof -
  have new: "c \<notin> set (C i)" if "i < NR_SLOTS" for i
    using callers_okD(2) [OF C that, of c] ns by auto
  have chain: "chain (sendlink (procs s')) (p_callerq (procs s' i)) ((C(d := C d @ [c])) i)"
    if i: "i < NR_SLOTS" for i
  proof (cases "i = d")
    case True
    show ?thesis
    proof (cases "C d = []")
      case empty: True
      then show ?thesis using True by (simp add: s')
    next
      case False
      have split: "C d = butlast (C d) @ [last (C d)]" using False by simp
      have "chain ((sendlink (procs s))(last (C d) := Some c, c := None)) (p_callerq (procs s d))
              (butlast (C d) @ [last (C d), c])"
        by (rule chain_append_last) (use callers_okD(1) [OF C d] split new [OF d] in metis)+
      moreover have "butlast (C d) @ [last (C d), c] = C d @ [c]"
        using split by (metis append.assoc append_Cons append_Nil)
      ultimately show ?thesis using True False by (simp add: s')
    qed
  next
    case False
    have "i' \<noteq> c \<and> (C d \<noteq> [] \<longrightarrow> i' \<noteq> last (C d))" if "i' \<in> set (C i)" for i'
    proof -
      have "last (C d) \<notin> set (C i)" if "C d \<noteq> []"
        using C i d False that unfolding callers_ok_def by (metis last_in_set)
      then show ?thesis using new [OF i] that by auto
    qed
    then have "chain (sendlink (procs s')) p (C i) = chain (sendlink (procs s)) p (C i)" for p
      by (intro chain_cong) (auto simp: s')
    then show ?thesis using callers_okD(1) [OF C i] False by (simp add: s')
  qed
  have mem: "\<forall>i<NR_SLOTS. \<forall>j\<in>set ((C(d := C d @ [c])) i). j < NR_SLOTS \<and> sending s' j"
    using callers_okD(2) [OF C] c by (auto simp: s' split: if_splits)
  have all: "\<forall>j<NR_SLOTS. sending s' j \<longrightarrow> (\<exists>i<NR_SLOTS. j \<in> set ((C(d := C d @ [c])) i))"
  proof (intro allI impI)
    fix j assume j: "j < NR_SLOTS" "sending s' j"
    show "\<exists>i<NR_SLOTS. j \<in> set ((C(d := C d @ [c])) i)"
    proof (cases "j = c")
      case True
      then show ?thesis using d by (intro exI [of _ d]) simp
    next
      case False
      then obtain i where "i < NR_SLOTS" "j \<in> set (C i)"
        using C j by (auto simp: callers_ok_def s')
      then show ?thesis by (intro exI [of _ i]) auto
    qed
  qed
  have one: "\<forall>i<NR_SLOTS. \<forall>i'<NR_SLOTS. \<forall>j\<in>set ((C(d := C d @ [c])) i).
               j \<in> set ((C(d := C d @ [c])) i') \<longrightarrow> i = i'"
  proof -
    have "j \<in> set ((C(d := C d @ [c])) i) \<longleftrightarrow> j \<in> set (C i) \<or> (j = c \<and> i = d)" for i j by auto
    then show ?thesis using C new unfolding callers_ok_def by metis
  qed
  show ?thesis unfolding callers_ok_def using chain mem all one by blast
qed

lemma rest_inv_enqueue:
  assumes inv: "rest_inv C H s" and c: "c < NR_SLOTS" and d: "d < NR_SLOTS"
    and free: "\<not> sending s c" "\<not> receiving s c" and ord: "c \<noteq> 1" "c \<noteq> 8"
    and lock: "d \<in> set (C c) \<Longrightarrow> d = c" and wait: "waiting s d \<Longrightarrow> \<not> accepts s d c"
    and s': "\<And>i. p_callerq (procs s' i) = (if i = d \<and> C d = [] then Some c else p_callerq (procs s i))"
      "sendlink (procs s') = (if C d = [] then (sendlink (procs s))(c := None)
                              else (sendlink (procs s))(last (C d) := Some c, c := None))"
      "\<And>i. p_flags (procs s' i) = (if i = c then p_flags (procs s i) OR SENDING else p_flags (procs s i))"
      "\<And>i. p_getfrom (procs s' i) = p_getfrom (procs s i)" "\<And>i. p_nr (procs s' i) = p_nr (procs s i)"
      "\<And>i. p_int_blocked (procs s' i) = p_int_blocked (procs s i)"
      "\<And>i. p_int_held (procs s' i) = p_int_held (procs s i)"
      "nextheld (procs s') = nextheld (procs s)" "held_head s' = held_head s" "held_tail s' = held_tail s"
      "mess_ok (procs s' 8) = mess_ok (procs s 8)" "sys_m s' = sys_m s"
  shows "rest_inv (C(d := C d @ [c])) H s'"
proof -
  have C: "callers_ok C s" and W: "wait_ok C s" and I: "ints_ok s" and Hd: "held_ok H s"
    and L: "slots_ok s"
    using inv by (simp_all add: rest_inv_def)
  have s: "sending s' = (sending s)(c := True)" "receiving s' = receiving s" "pending s' = pending s"
    "accepts s' = accepts s"
    by (auto simp: fun_eq_iff sending_def receiving_def pending_def accepts_def s' flag_simps)
  have w: "waiting s' i \<longleftrightarrow> waiting s i" for i using free by (auto simp: waiting_def s)
  have "callers_ok (C(d := C d @ [c])) s'"
    by (rule callers_ok_enqueue [OF C c d free(1) s'(1,2) s(1)])
  moreover have "wait_ok (C(d := C d @ [c])) s'"
    unfolding wait_ok_def s w s'
  proof (intro conjI)
    show "\<forall>i<NR_SLOTS. \<forall>j<NR_SLOTS. i \<in> set ((C(d := C d @ [c])) j) \<longrightarrow>
            j \<in> set ((C(d := C d @ [c])) i) \<longrightarrow> i = j"
      using W lock unfolding wait_ok_def by (auto split: if_splits)
    show "\<forall>i<NR_SLOTS. waiting s i \<longrightarrow> (\<forall>j\<in>set ((C(d := C d @ [c])) i). \<not> accepts s i j)"
      using W wait unfolding wait_ok_def by (auto split: if_splits)
    show "\<forall>i<NR_SLOTS. ((sending s)(c := True)) i \<longrightarrow> receiving s i \<longrightarrow>
            (\<exists>da<NR_SLOTS. p_getfrom (procs s i) = int da - NR_TASKS \<and> i \<in> set ((C(d := C d @ [c])) da))"
    proof (intro allI impI)
      fix i assume i: "i < NR_SLOTS" "((sending s)(c := True)) i" "receiving s i"
      then have "sending s i" using free by (auto split: if_splits)
      then obtain e where "e < NR_SLOTS" "p_getfrom (procs s i) = int e - NR_TASKS" "i \<in> set (C e)"
        using W i unfolding wait_ok_def by blast
      then show "\<exists>da<NR_SLOTS. p_getfrom (procs s i) = int da - NR_TASKS \<and> i \<in> set ((C(d := C d @ [c])) da)"
        by (intro exI [of _ e]) auto
    qed
  qed
  moreover have "ints_ok s'" using I by (simp add: ints_ok_def w s')
  moreover have "held_ok H s'" using Hd by (simp add: held_ok_def s')
  moreover have "slots_ok s'" using L ord by (auto simp: slots_ok_def s' flag_simps)
  ultimately show ?thesis by (simp add: rest_inv_def)
qed

text \<open>Taking a sender off the caller queue of the process that accepts its message.\<close>

lemma chain_remove1:
  assumes "chain nx p (xs @ a # b # ys)"
  shows "chain (nx(a := nx b)) p (remove1 b (xs @ a # b # ys))"
proof -
  have "distinct (xs @ a # b # ys)" by (rule chain_distinct [OF assms])
  then have "remove1 b (xs @ a # b # ys) = xs @ a # ys" by (simp add: remove1_append)
  then show ?thesis using chain_delete_after [OF assms] by simp
qed

lemma callers_ok_dequeue:
  assumes C: "callers_ok C s" and c: "c < NR_SLOTS" and split: "C c = pre @ j # post"
    and s': "\<And>i. p_callerq (procs s' i) = (if i = c \<and> pre = [] then p_sendlink (procs s j) else p_callerq (procs s i))"
      "sendlink (procs s') = (if pre = [] then sendlink (procs s)
                              else (sendlink (procs s))(last pre := p_sendlink (procs s j)))"
      "sending s' = (sending s)(j := False)"
  shows "callers_ok (C(c := pre @ post)) s'"
proof -
  have d: "distinct (C c)" by (rule callers_okD(3) [OF C c])
  have only: "j \<notin> set (C i)" if "i < NR_SLOTS" "i \<noteq> c" for i
    using C c that split unfolding callers_ok_def by (metis in_set_conv_decomp)
  have chain: "chain (sendlink (procs s')) (p_callerq (procs s' i)) ((C(c := pre @ post)) i)"
    if i: "i < NR_SLOTS" for i
  proof (cases "i = c")
    case True
    have ch: "chain (sendlink (procs s)) (p_callerq (procs s c)) (pre @ j # post)"
      using callers_okD(1) [OF C c] split by simp
    show ?thesis
    proof (cases "pre = []")
      case empty: True
      then show ?thesis using ch True by (simp add: s' sendlink_def)
    next
      case False
      then have pre: "pre = butlast pre @ [last pre]" by simp
      have "chain ((sendlink (procs s))(last pre := sendlink (procs s) j)) (p_callerq (procs s c))
              (butlast pre @ last pre # post)"
        by (rule chain_delete_after) (use ch pre in \<open>metis append.assoc append_Cons append_Nil\<close>)
      moreover have "butlast pre @ last pre # post = pre @ post"
        using pre by (metis append.assoc append_Cons append_Nil)
      ultimately show ?thesis using True False by (simp add: s' sendlink_def)
    qed
  next
    case False
    have "last pre \<notin> set (C i)" if "pre \<noteq> []"
    proof -
      have "last pre \<in> set (C c)" using split that by simp
      then show ?thesis using C c i False unfolding callers_ok_def by metis
    qed
    then have "chain (sendlink (procs s')) p (C i) = chain (sendlink (procs s)) p (C i)" for p
      by (intro chain_cong) (auto simp: s')
    then show ?thesis using callers_okD(1) [OF C i] False by (simp add: s')
  qed
  have sub: "set ((C(c := pre @ post)) i) \<subseteq> set (C i)" for i using split by auto
  have jout: "j \<notin> set ((C(c := pre @ post)) i)" if "i < NR_SLOTS" for i
    using only [OF that] d split by auto
  have mem: "\<forall>i<NR_SLOTS. \<forall>k\<in>set ((C(c := pre @ post)) i). k < NR_SLOTS \<and> sending s' k"
  proof (intro allI ballI impI)
    fix i k assume i: "i < NR_SLOTS" and k: "k \<in> set ((C(c := pre @ post)) i)"
    then have "k \<in> set (C i)" "k \<noteq> j" using sub jout [OF i] by blast+
    then show "k < NR_SLOTS \<and> sending s' k" using callers_okD(2) [OF C i] by (simp add: s'(3))
  qed
  have all: "\<forall>k<NR_SLOTS. sending s' k \<longrightarrow> (\<exists>i<NR_SLOTS. k \<in> set ((C(c := pre @ post)) i))"
  proof (intro allI impI)
    fix k assume k: "k < NR_SLOTS" "sending s' k"
    then have "k \<noteq> j" "sending s k" by (auto simp: s'(3) split: if_splits)
    then obtain i where "i < NR_SLOTS" "k \<in> set (C i)" using C k by (auto simp: callers_ok_def)
    then show "\<exists>i<NR_SLOTS. k \<in> set ((C(c := pre @ post)) i)"
      using \<open>k \<noteq> j\<close> split by (intro exI [of _ i]) auto
  qed
  have one: "\<forall>i<NR_SLOTS. \<forall>i'<NR_SLOTS. \<forall>k\<in>set ((C(c := pre @ post)) i).
               k \<in> set ((C(c := pre @ post)) i') \<longrightarrow> i = i'"
    using C sub unfolding callers_ok_def by blast
  show ?thesis unfolding callers_ok_def using chain mem all one by blast
qed

lemma rest_inv_dequeue:
  assumes inv: "rest_inv C H s" and c: "c < NR_SLOTS" and split: "C c = pre @ j # post"
    and free: "\<not> sending s c" and ord: "c \<noteq> 8"
    and s': "\<And>i. p_callerq (procs s' i) = (if i = c \<and> pre = [] then p_sendlink (procs s j) else p_callerq (procs s i))"
      "sendlink (procs s') = (if pre = [] then sendlink (procs s)
                              else (sendlink (procs s))(last pre := p_sendlink (procs s j)))"
      "\<And>i. p_flags (procs s' i) = (if i = j then p_flags (procs s i) AND NOT SENDING else p_flags (procs s i))"
      "\<And>i. p_getfrom (procs s' i) = p_getfrom (procs s i)" "\<And>i. p_nr (procs s' i) = p_nr (procs s i)"
      "\<And>i. p_int_blocked (procs s' i) = p_int_blocked (procs s i)"
      "\<And>i. p_int_held (procs s' i) = p_int_held (procs s i)"
      "nextheld (procs s') = nextheld (procs s)" "held_head s' = held_head s" "held_tail s' = held_tail s"
      "mess_ok (procs s' 8) = mess_ok (procs s 8)" "sys_m s' = sys_m s"
  shows "rest_inv (C(c := pre @ post)) H s'"
proof -
  have C: "callers_ok C s" and W: "wait_ok C s" and I: "ints_ok s" and Hd: "held_ok H s"
    and L: "slots_ok s"
    using inv by (simp_all add: rest_inv_def)
  have jc: "j \<in> set (C c)" using split by simp
  then have j: "j < NR_SLOTS" "sending s j" "j \<noteq> c" using callers_okD(2) [OF C c] free by auto
  have s: "sending s' = (sending s)(j := False)" "receiving s' = receiving s" "pending s' = pending s"
    "accepts s' = accepts s"
    by (auto simp: fun_eq_iff sending_def receiving_def pending_def accepts_def s' flag_simps)
  have w: "waiting s' i \<longleftrightarrow> (if i = j then receiving s j else waiting s i)" for i
    by (auto simp: waiting_def s)
  have gf: "p_getfrom (procs s j) = int c - NR_TASKS" if rj: "receiving s j"
  proof -
    obtain e where e: "e < NR_SLOTS" "p_getfrom (procs s j) = int e - NR_TASKS" "j \<in> set (C e)"
      using wait_okD(3) [OF W j(1) j(2) rj] by auto
    then have "e = c" using callers_ok_unique [OF C e(1) c e(3) jc] by simp
    then show ?thesis using e by simp
  qed
  have sub: "set ((C(c := pre @ post)) i) \<subseteq> set (C i)" for i using split by auto
  have C': "callers_ok (C(c := pre @ post)) s'"
    by (rule callers_ok_dequeue [where s = s and j = j, OF C c split s'(1,2) s(1)])
  moreover have "wait_ok (C(c := pre @ post)) s'"
    unfolding wait_ok_def
  proof (intro conjI)
    show "\<forall>i<NR_SLOTS. \<forall>k<NR_SLOTS. i \<in> set ((C(c := pre @ post)) k) \<longrightarrow>
            k \<in> set ((C(c := pre @ post)) i) \<longrightarrow> i = k"
      using W sub unfolding wait_ok_def by blast
    show "\<forall>i<NR_SLOTS. waiting s' i \<longrightarrow> (\<forall>k\<in>set ((C(c := pre @ post)) i). \<not> accepts s' i k)"
    proof (intro allI impI ballI)
      fix i k assume i: "i < NR_SLOTS" "waiting s' i" and k: "k \<in> set ((C(c := pre @ post)) i)"
      have ki: "k \<in> set (C i)" using k sub by blast
      show "\<not> accepts s' i k"
      proof (cases "i = j")
        case True
        then have r: "receiving s j" using i w by simp
        have "k \<noteq> c" using wait_okD(1) [OF W j(1) c jc] ki True j(3) by auto
        moreover have "k < NR_SLOTS" using callers_okD(2) [OF C i(1) ki] by simp
        ultimately show ?thesis using gf [OF r] c True by (simp add: s accepts_def)
      next
        case False
        then show ?thesis using wait_okD(2) [OF W i(1) _ ki] i w by (simp add: s)
      qed
    qed
    show "\<forall>i<NR_SLOTS. sending s' i \<longrightarrow> receiving s' i \<longrightarrow>
            (\<exists>d<NR_SLOTS. p_getfrom (procs s' i) = int d - NR_TASKS \<and> i \<in> set ((C(c := pre @ post)) d))"
    proof (intro allI impI)
      fix i assume i: "i < NR_SLOTS" "sending s' i" "receiving s' i"
      then have ne: "i \<noteq> j" and si: "sending s i" "receiving s i" by (auto simp: s split: if_splits)
      obtain d where "d < NR_SLOTS" "p_getfrom (procs s i) = int d - NR_TASKS" "i \<in> set (C d)"
        using wait_okD(3) [OF W i(1) si(1) si(2)] by auto
      then show "\<exists>d<NR_SLOTS. p_getfrom (procs s' i) = int d - NR_TASKS \<and> i \<in> set ((C(c := pre @ post)) d)"
        using ne split by (intro exI [of _ d]) (auto simp: s')
    qed
  qed
  moreover have "ints_ok s'"
    using I gf c ord unfolding ints_ok_def by (auto simp: w s' isrxhardware_def)
  moreover have "held_ok H s'" using Hd by (simp add: held_ok_def s')
  moreover have "slots_ok s'" using L by (auto simp: slots_ok_def s' flag_simps)
  ultimately show ?thesis by (simp add: rest_inv_def)
qed

text \<open>Blocking to receive.\<close>

lemma rest_inv_receive:
  assumes inv: "rest_inv C H s" and c: "c < NR_SLOTS" and ord: "c \<noteq> 1" "c \<noteq> 8"
    and none: "\<And>j. \<not> sending s c \<Longrightarrow> j \<in> set (C c) \<Longrightarrow> src \<noteq> ANY \<and> src \<noteq> int j - NR_TASKS"
    and noint: "\<not> sending s c \<Longrightarrow> \<not> (p_int_blocked (procs s c) \<and> isrxhardware src)"
    and both: "sending s c \<Longrightarrow> \<exists>d<NR_SLOTS. src = int d - NR_TASKS \<and> c \<in> set (C d)"
    and s': "\<And>i. p_getfrom (procs s' i) = (if i = c then src else p_getfrom (procs s i))"
      "\<And>i. p_flags (procs s' i) = (if i = c then p_flags (procs s i) OR RECEIVING else p_flags (procs s i))"
      "\<And>i. p_callerq (procs s' i) = p_callerq (procs s i)"
      "sendlink (procs s') = sendlink (procs s)" "\<And>i. p_nr (procs s' i) = p_nr (procs s i)"
      "\<And>i. p_int_blocked (procs s' i) = p_int_blocked (procs s i)"
      "\<And>i. p_int_held (procs s' i) = p_int_held (procs s i)"
      "nextheld (procs s') = nextheld (procs s)" "held_head s' = held_head s" "held_tail s' = held_tail s"
      "mess_ok (procs s' 8) = mess_ok (procs s 8)" "sys_m s' = sys_m s"
  shows "rest_inv C H s'"
proof -
  have C: "callers_ok C s" and W: "wait_ok C s" and I: "ints_ok s" and Hd: "held_ok H s"
    and L: "slots_ok s"
    using inv by (simp_all add: rest_inv_def)
  have s: "sending s' = sending s" "receiving s' = (receiving s)(c := True)" "pending s' = pending s"
    by (auto simp: fun_eq_iff sending_def receiving_def pending_def s' flag_simps)
  have w: "waiting s' i \<longleftrightarrow> (if i = c then \<not> sending s c else waiting s i)" for i
    by (auto simp: waiting_def s)
  have a: "accepts s' i j \<longleftrightarrow> (if i = c then src = ANY \<or> src = int j - NR_TASKS else accepts s i j)" for i j
    by (auto simp: accepts_def s')
  have "callers_ok C s'" using C by (simp add: callers_ok_def s s')
  moreover have "wait_ok C s'"
    unfolding wait_ok_def
  proof (intro conjI)
    show "\<forall>i<NR_SLOTS. \<forall>j<NR_SLOTS. i \<in> set (C j) \<longrightarrow> j \<in> set (C i) \<longrightarrow> i = j"
      using W by (simp add: wait_ok_def)
    show "\<forall>i<NR_SLOTS. waiting s' i \<longrightarrow> (\<forall>j\<in>set (C i). \<not> accepts s' i j)"
      using W none unfolding wait_ok_def w a by (metis (full_types))
    show "\<forall>i<NR_SLOTS. sending s' i \<longrightarrow> receiving s' i \<longrightarrow>
            (\<exists>d<NR_SLOTS. p_getfrom (procs s' i) = int d - NR_TASKS \<and> i \<in> set (C d))"
      using W both unfolding wait_ok_def by (auto simp: s s')
  qed
  moreover have "ints_ok s'" using I noint unfolding ints_ok_def by (auto simp: w s')
  moreover have "held_ok H s'" using Hd by (simp add: held_ok_def s')
  moreover have "slots_ok s'" using L ord by (auto simp: slots_ok_def s' flag_simps)
  ultimately show ?thesis by (simp add: rest_inv_def)
qed

end
