(* ===== verification/Kernel_Msg.thy ===== *)
theory Kernel_Msg
  imports Kernel_Inv
begin

section \<open>Kernel: message passing preserves the invariant\<close>

text \<open>
  \<open>mini_send\<close>, \<open>mini_rec\<close>, \<open>inform\<close>, \<open>cause_sig\<close>, \<open>interrupt\<close> and
  \<open>unhold\<close> always return in a state that satisfies the invariant, and what they do to the
  queues, the flags and the memory.
\<close>

unbundle bit_operations_syntax

lemma cp_mess_parts [simp]:
  "sched_part (cp_mess a b c d e s) = sched_part s" "rest_part (cp_mess a b c d e s) = rest_part s"
  "procs (cp_mess a b c d e s) = procs s" "switching (cp_mess a b c d e s) = switching s"
  "proc_ptr (cp_mess a b c d e s) = proc_ptr s"
  "runnable (cp_mess a b c d e s) = runnable s" "queue_of (cp_mess a b c d e s) = queue_of s"
  by (simp_all add: cp_mess_def Let_def runnable_def queue_of_def fun_eq_iff)

lemma runnable_upd:
  "runnable (upd_proc i (p_flags_update g) s) =
   (runnable s)(i := (g (p_flags (procs s i)) = 0 \<and> i \<noteq> 1 \<and> i \<noteq> 8))"
  by (auto simp: runnable_def fun_eq_iff)

text \<open>Clearing a flag of a process that is not runnable, and readying it if none is left.\<close>

lemma clear_flag_ready:
  assumes inv: "sched_inv R s" and i: "i < NR_SLOTS" and nr: "\<not> runnable s i" and ord: "i \<noteq> 1" "i \<noteq> 8"
    and part: "sched_part s' = sched_part s"
    and other: "\<And>j. j \<noteq> i \<Longrightarrow> p_flags (procs s' j) = p_flags (procs s j)"
  shows "\<exists>s'' R'. (if p_flags (procs s' i) = 0 then ready i s' else Done s') = Done s'' \<and>
                  sched_inv R' s'' \<and> off_queues s'' = off_queues s' \<and>
                  proc_ptr s'' = proc_ptr s' \<and> switching s'' = switching s'"
    "\<exists>s'' R'. (if p_flags (procs s' i) = 0 then lock_ready i s' else Done s') = Done s'' \<and>
                  sched_inv R' s'' \<and> off_queues s'' = off_queues s' \<and>
                  proc_ptr s'' = proc_ptr s' \<and> (switching s'' = switching s' \<or> \<not> switching s'')"
proof -
  have R: "ready_lists R s" "ready_exact R s" "current_ok R s" using inv by (simp_all add: sched_inv_def)
  have R': "ready_lists R s'" "current_ok R s'" and q: "queue_of s' = queue_of s"
    using R by (simp_all add: sched_part_lists [OF part])
  have run: "runnable s' j = runnable s j" if "j \<noteq> i" for j
    using other [OF that] by (simp add: runnable_def)
  have ex: "exact_but i R s'"
    using R(2) run by (simp add: exact_but_def ready_exact_def q)
  have ni: "i \<notin> set (R (queue_of s' i))" using R(2) nr i by (simp add: ready_exact_def q)
  have keep: "sched_inv R s'" if "p_flags (procs s' i) \<noteq> 0"
    by (rule sched_invI [OF R' ex]) (use ni that in \<open>simp add: runnable_def\<close>)
  have run_i: "runnable s' i" if "p_flags (procs s' i) = 0"
    using that ord by (simp add: runnable_def)
  show "\<exists>s'' R'. (if p_flags (procs s' i) = 0 then ready i s' else Done s') = Done s'' \<and>
                  sched_inv R' s'' \<and> off_queues s'' = off_queues s' \<and>
                  proc_ptr s'' = proc_ptr s' \<and> switching s'' = switching s'"
    using keep sched_ready(1) [OF R' ex i run_i ni] by (cases "p_flags (procs s' i) = 0") auto
  show "\<exists>s'' R'. (if p_flags (procs s' i) = 0 then lock_ready i s' else Done s') = Done s'' \<and>
                  sched_inv R' s'' \<and> off_queues s'' = off_queues s' \<and>
                  proc_ptr s'' = proc_ptr s' \<and> (switching s'' = switching s' \<or> \<not> switching s'')"
    using keep sched_ready(2) [OF R' ex i run_i ni] by (cases "p_flags (procs s' i) = 0") auto
qed

lemma core_invD:
  assumes "core_inv R C H s"
  shows "sched_inv R s" "rest_inv C H s" "ready_lists R s" "ready_exact R s" "current_ok R s"
    "callers_ok C s" "wait_ok C s" "ints_ok s" "held_ok H s" "slots_ok s"
  using assms by (simp_all add: core_inv_def sched_inv_def rest_inv_def)

lemma idle_hardware_flags:
  assumes "slots_ok s"
  shows "p_flags (procs s 1) = 0" "p_flags (procs s 8) = 0" "p_flags (procs s (Suc 0)) = 0"
  using assms by (simp_all add: slots_ok_def)

text \<open>The state after a delivery, but for the ready queues.\<close>

definition delivered :: "nat \<Rightarrow> nat \<Rightarrow> addr \<Rightarrow> kstate \<Rightarrow> kstate" where
  "delivered c d m s = upd_proc d (p_flags_update (\<lambda>f. f AND NOT RECEIVING))
     (cp_mess (p_nr (procs s c)) c m d (p_messbuf (procs s d)) s)"

lemma send_deliver_inv:
  assumes inv: "core_inv R C H s" and d: "d < NR_SLOTS" and w: "waiting s d"
  shows "\<exists>s' R'. send_deliver c d m s = Done s' \<and> core_inv R' C H s' \<and>
                 off_queues s' = off_queues (delivered c d m s) \<and> switching s' = switching s \<and>
                 proc_ptr s' = proc_ptr s"
proof -
  define s1 where "s1 = cp_mess (p_nr (procs s c)) c m d (p_messbuf (procs s d)) s"
  define s2 where "s2 = upd_proc d (p_flags_update (\<lambda>f. f AND NOT RECEIVING)) s1"
  have ord: "d \<noteq> 1" "d \<noteq> 8"
    using w idle_hardware_flags [OF core_invD(10) [OF inv]] by (auto simp: waiting_def receiving_def)
  have nr: "\<not> runnable s d" using w by (auto simp: waiting_def receiving_def runnable_def)
  have part: "sched_part s2 = sched_part s" by (simp add: s2_def s1_def)
  have "rest_part s1 = rest_part s" by (simp add: s1_def)
  then have "rest_inv C H s1" using core_invD(2) [OF inv] rest_inv_same by blast
  then have r2: "rest_inv C H s2" unfolding s2_def by (rule rest_inv_clear_receiving [OF _ d])
  have fl: "p_flags (procs s2 j) = p_flags (procs s j)" if "j \<noteq> d" for j
    using that by (simp add: s2_def s1_def)
  obtain s3 R' where s3: "(if p_flags (procs s2 d) = 0 then ready d s2 else Done s2) = Done s3"
    "sched_inv R' s3" "off_queues s3 = off_queues s2" "proc_ptr s3 = proc_ptr s2" "switching s3 = switching s2"
    using clear_flag_ready(1) [OF core_invD(1) [OF inv] d nr ord part fl] by auto
  have "send_deliver c d m s = Done s3"
    unfolding send_deliver_def Let_def s1_def [symmetric] s2_def [symmetric] by (rule s3(1))
  moreover have "core_inv R' C H s3"
    using s3(2) r2 rest_inv_off [OF s3(3)] by (simp add: core_inv_def)
  ultimately show ?thesis using s3(3-5)
    by (intro exI [of _ s3] exI [of _ R']) (simp add: delivered_def s2_def s1_def)
qed

lemma current_not_blocked:
  assumes "sched_inv R s" and "i \<noteq> 1" and "p_flags (procs s i) \<noteq> 0"
  shows "proc_ptr s \<noteq> i"
proof
  assume p: "proc_ptr s = i"
  have R: "ready_lists R s" "ready_exact R s" "current_ok R s" using assms(1) by (simp_all add: sched_inv_def)
  obtain q where q: "q < SHADOW_Q" "R q \<noteq> []" "i = hd (R q)"
    using R(3) p assms(2) by (auto simp: current_ok_def)
  then have "i \<in> set (R q)" by simp
  moreover have "q < NQ" using q(1) by simp
  ultimately have "i < NR_SLOTS" "i \<in> set (R (queue_of s i))"
    using ready_listsD(3) [OF R(1)] by auto
  then have "runnable s i" using R(2) by (simp add: ready_exact_def)
  then show False using assms(3) by (simp add: runnable_def)
qed

lemma blocked_sched:
  assumes R: "ready_lists R s" "current_ok R s" "exact_but i R s" "i \<notin> set (R (queue_of s i))"
    and part: "sched_part s' = sched_part s"
    and other: "\<And>j. j \<noteq> i \<Longrightarrow> p_flags (procs s' j) = p_flags (procs s j)"
    and fl: "p_flags (procs s' i) \<noteq> 0"
  shows "sched_inv R s'"
proof (rule sched_invI)
  show "ready_lists R s'" "current_ok R s'" using R by (simp_all add: sched_part_lists [OF part])
  have "runnable s' j = runnable s j" if "j \<noteq> i" for j using other [OF that] by (simp add: runnable_def)
  then show "exact_but i R s'" using R(3) by (simp add: exact_but_def sched_part_lists(3) [OF part])
  show "i \<in> set (R (queue_of s' i)) \<longleftrightarrow> runnable s' i"
    using R(4) fl by (simp add: runnable_def sched_part_lists(3) [OF part])
qed

lemma send_block_inv:
  assumes inv: "core_inv R C H s" and c: "c < NR_SLOTS" "p_flags (procs s c) = 0" "c \<noteq> 1" "c \<noteq> 8"
    and d: "d < NR_SLOTS" and lock: "d \<in> set (C c) \<Longrightarrow> d = c" and wait: "\<not> (waiting s d \<and> accepts s d c)"
  shows "\<exists>s' R'. send_block c d m s = Done s' \<and> core_inv R' (C(d := C d @ [c])) H s' \<and>
           (\<forall>i. p_flags (procs s' i) = (if i = c then SENDING else p_flags (procs s i))) \<and>
           (\<forall>i. p_messbuf (procs s' i) = (if i = c then m else p_messbuf (procs s i))) \<and>
           (\<forall>i. p_getfrom (procs s' i) = p_getfrom (procs s i)) \<and>
           (\<forall>i. p_nr (procs s' i) = p_nr (procs s i)) \<and>
           (\<forall>i. p_pending (procs s' i) = p_pending (procs s i)) \<and>
           (\<forall>i. p_pendcount (procs s' i) = p_pendcount (procs s i)) \<and>
           kmem s' = kmem s \<and> sig_procs s' = sig_procs s \<and> switching s' = switching s \<and> proc_ptr s' \<noteq> c"
proof -
  define s1 where "s1 = upd_proc c (p_messbuf_update (\<lambda>_. m)) s"
  have inv1: "sched_inv R s1"
    by (rule sched_inv_same [OF core_invD(1) [OF inv]]) (auto simp: s1_def runnable_def)
  obtain s2 where s2: "unready c s1 = Done s2" "off_queues s2 = off_queues s1" "switching s2 = switching s1"
    and R2: "ready_lists (R(queue_of s1 c := remove1 c (R (queue_of s1 c)))) s2"
      "current_ok (R(queue_of s1 c := remove1 c (R (queue_of s1 c)))) s2"
      "exact_but c (R(queue_of s1 c := remove1 c (R (queue_of s1 c)))) s2"
      "c \<notin> set ((R(queue_of s1 c := remove1 c (R (queue_of s1 c)))) (queue_of s1 c))"
    using sched_unready(1) [OF inv1, of c] by auto
  note p2 = off_projs [OF s2(2)] off_queues_fields [OF s2(2)] off_states [OF s2(2)]
  define s3 where "s3 = upd_proc c (p_flags_update (\<lambda>f. f OR SENDING)) s2"
  have link3: "sendlink (procs s3) = sendlink (procs s)" by (simp add: s3_def p2) (simp add: s1_def)
  have sl3: "p_sendlink (procs s3 i) = p_sendlink (procs s i)" for i by (simp add: s3_def p2 s1_def)
  have cq3: "p_callerq (procs s3 i) = p_callerq (procs s i)" for i by (simp add: s3_def p2 s1_def)
  define s4 where "s4 = (if C d = [] then upd_proc d (p_callerq_update (\<lambda>_. Some c)) s3
                         else upd_proc (last (C d)) (p_sendlink_update (\<lambda>_. Some c)) s3)"
  define s5 where "s5 = upd_proc c (p_sendlink_update (\<lambda>_. None)) s4"
  have ch: "chain (sendlink (procs s3)) (p_callerq (procs s3 d)) (C d)" and len: "length (C d) \<le> NR_SLOTS"
    using callers_okD [OF core_invD(6) [OF inv] d] by (simp_all add: link3 cq3)
  have f1: "p_flags (procs s1 c) = 0" using c by (simp add: s1_def)
  have enq: "(case p_callerq (procs s3 d) of
               None \<Rightarrow> Done (upd_proc d (p_callerq_update (\<lambda>_. Some c)) s3)
             | Some next_ptr \<Rightarrow> andthen (last_sender NR_SLOTS next_ptr s3)
                 (\<lambda>next_ptr. Done (upd_proc next_ptr (p_sendlink_update (\<lambda>_. Some c)) s3))) = Done s4"
  proof (cases "C d")
    case Nil
    then show ?thesis using ch by (simp add: s4_def)
  next
    case (Cons x ys)
    have "last_sender NR_SLOTS x s3 = Done (last (x # ys))"
      by (rule last_sender_chain) (use ch len Cons in auto)
    then show ?thesis using ch Cons by (simp add: s4_def)
  qed
  have run: "send_block c d m s = Done s5"
    unfolding send_block_def Let_def s1_def [symmetric]
    by (simp only: f1 s2(1) refl if_True andthen.simps s3_def [symmetric] enq s5_def)
  have part: "sched_part s5 = sched_part s2" by (simp add: s5_def s4_def s3_def)
  have fl: "p_flags (procs s5 i) = (if i = c then SENDING else p_flags (procs s i))" for i
    using c by (auto simp: s5_def s4_def s3_def p2 s1_def)
  have sch: "sched_inv (R(queue_of s1 c := remove1 c (R (queue_of s1 c)))) s5"
    by (rule blocked_sched [OF R2(1-3) _ part]) (use R2(4) in \<open>auto simp: fl p2 s1_def\<close>)
  have rest: "rest_inv (C(d := C d @ [c])) H s5"
  proof (rule rest_inv_enqueue [OF core_invD(2) [OF inv] c(1) d])
    show "sendlink (procs s5) = (if C d = [] then (sendlink (procs s))(c := None)
            else (sendlink (procs s))(last (C d) := Some c, c := None))"
      by (auto simp: s5_def s4_def link3 sl3)
    show "nextheld (procs s5) = nextheld (procs s)"
      by (simp add: s5_def s4_def s3_def p2) (simp add: s1_def)
  qed (use c lock wait fl in \<open>auto simp: sending_def receiving_def s5_def s4_def s3_def p2 s1_def
         mess_ok_def fun_eq_iff\<close>)
  have cur: "proc_ptr s5 \<noteq> c" by (rule current_not_blocked [OF sch c(3)]) (simp add: fl)
  have fields: "p_messbuf (procs s5 i) = (if i = c then m else p_messbuf (procs s i))"
    "p_getfrom (procs s5 i) = p_getfrom (procs s i)" "p_nr (procs s5 i) = p_nr (procs s i)"
    "p_pending (procs s5 i) = p_pending (procs s i)" "p_pendcount (procs s5 i) = p_pendcount (procs s i)" for i
    by (auto simp: s5_def s4_def s3_def p2 s1_def)
  have state: "kmem s5 = kmem s" "sig_procs s5 = sig_procs s" "switching s5 = switching s"
    by (simp_all add: s5_def s4_def s3_def p2 s2(3)) (simp_all add: s1_def)
  show ?thesis
    by (intro exI [of _ s5] exI [of _ "R(queue_of s1 c := remove1 c (R (queue_of s1 c)))"])
      (simp add: run core_inv_def sch rest fl cur fields state)
qed

subsection \<open>Sending\<close>

text \<open>Why a send is refused: the checks of \<open>mini_send\<close> over the abstract queues.\<close>

definition send_error :: "(nat \<Rightarrow> nat list) \<Rightarrow> nat \<Rightarrow> nat \<Rightarrow> addr \<Rightarrow> kstate \<Rightarrow> int" where
  "send_error C c d m s =
     (if isuserp c \<and> \<not> (d = 9 \<or> d = 10) then E_BAD_DEST
      else if p_flags (procs s d) AND P_SLOT_FREE \<noteq> 0 then E_BAD_DEST
      else if \<not> mess_ok (procs s c) m then E_BAD_ADDR
      else if d \<in> set (C c) then ELOCKED else OK)"

lemma isservn_slot: "isservn (int d - NR_TASKS) \<longleftrightarrow> d = 9 \<or> d = 10"
  by (auto simp: isservn_def)

lemma slots_nr: "slots_ok s \<Longrightarrow> i < NR_SLOTS \<Longrightarrow> p_nr (procs s i) = int i - NR_TASKS"
  by (simp add: slots_ok_def)

lemma mini_send_eq:
  assumes inv: "core_inv R C H s" and c: "c < NR_SLOTS" "p_flags (procs s c) = 0" and d: "d < NR_SLOTS"
  shows "mini_send c (int d - NR_TASKS) m s =
     (if send_error C c d m s \<noteq> OK then Done (send_error C c d m s, s)
      else andthen (if waiting s d \<and> accepts s d c then send_deliver c d m s else send_block c d m s)
             (\<lambda>s. Done (OK, s)))"
proof -
  have lock: "(if p_flags (procs s d) AND SENDING \<noteq> 0
               then locked_scan NR_SLOTS (p_callerq (procs s c)) d s else Done False) = Done (d \<in> set (C c))"
  proof (cases "sending s d")
    case True
    then show ?thesis
      using locked_scan_chain [OF callers_okD(1,4) [OF core_invD(6) [OF inv] c(1)], of d]
      by (simp add: sending_def)
  next
    case False
    then have "d \<notin> set (C c)" using callers_okD(2) [OF core_invD(6) [OF inv] c(1)] by blast
    then show ?thesis using False by (simp add: sending_def)
  qed
  have wait: "(p_flags (procs s d) AND (RECEIVING OR SENDING)) = RECEIVING \<longleftrightarrow> waiting s d"
    using send_recv_bits [of "p_flags (procs s d)"] unfolding waiting_def sending_def receiving_def by blast
  have acc: "(p_getfrom (procs s d) = ANY \<or> p_getfrom (procs s d) = p_nr (procs s c)) \<longleftrightarrow> accepts s d c"
    using slots_nr [OF core_invD(10) [OF inv] c(1)] by (simp add: accepts_def)
  show ?thesis
    unfolding mini_send_def isservn_slot proc_addr_slot [OF d] andthen.simps lock wait acc send_error_def
    by simp
qed

text \<open>The state after the sender has been queued.\<close>

definition blocked_sending :: "nat \<Rightarrow> addr \<Rightarrow> kstate \<Rightarrow> kstate \<Rightarrow> bool" where
  "blocked_sending c m s s' \<longleftrightarrow>
     (\<forall>i. p_flags (procs s' i) = (if i = c then SENDING else p_flags (procs s i))) \<and>
     (\<forall>i. p_messbuf (procs s' i) = (if i = c then m else p_messbuf (procs s i))) \<and>
     (\<forall>i. p_getfrom (procs s' i) = p_getfrom (procs s i)) \<and>
     (\<forall>i. p_nr (procs s' i) = p_nr (procs s i)) \<and>
     (\<forall>i. p_pending (procs s' i) = p_pending (procs s i)) \<and>
     (\<forall>i. p_pendcount (procs s' i) = p_pendcount (procs s i)) \<and>
     kmem s' = kmem s \<and> sig_procs s' = sig_procs s \<and> switching s' = switching s \<and> proc_ptr s' \<noteq> c"

lemma mini_send_cases:
  assumes inv: "core_inv R C H s" and c: "c < NR_SLOTS" "p_flags (procs s c) = 0" "c \<noteq> 1" and d: "d < NR_SLOTS"
    and hw: "c = 8 \<Longrightarrow> waiting s d \<and> accepts s d c"
  obtains (refused) "send_error C c d m s \<noteq> OK"
      "mini_send c (int d - NR_TASKS) m s = Done (send_error C c d m s, s)"
  | (delivered) s' R' where "send_error C c d m s = OK" "waiting s d" "accepts s d c"
      "mini_send c (int d - NR_TASKS) m s = Done (OK, s')" "core_inv R' C H s'"
      "off_queues s' = off_queues (delivered c d m s)" "switching s' = switching s" "proc_ptr s' = proc_ptr s"
  | (blocked) s' R' where "send_error C c d m s = OK" "\<not> (waiting s d \<and> accepts s d c)"
      "mini_send c (int d - NR_TASKS) m s = Done (OK, s')" "core_inv R' (C(d := C d @ [c])) H s'"
      "blocked_sending c m s s'"
proof -
  note eq = mini_send_eq [OF inv c(1,2) d, of m]
  show thesis
  proof (cases "send_error C c d m s = OK")
    case False
    then show ?thesis using eq by (intro refused) auto
  next
    case ok: True
    show ?thesis
    proof (cases "waiting s d \<and> accepts s d c")
      case True
      then show ?thesis
        using send_deliver_inv [OF inv d, of c m] eq ok delivered by auto
    next
      case False
      have "d \<notin> set (C c)" using ok by (auto simp: send_error_def split: if_splits)
      have "c \<noteq> 8" using hw False by auto
      then obtain s' R' where s': "send_block c d m s = Done s'" "core_inv R' (C(d := C d @ [c])) H s'"
        "blocked_sending c m s s'"
        using send_block_inv [OF inv c(1-3) _ d _ False, of m] \<open>d \<notin> set (C c)\<close>
        unfolding blocked_sending_def by blast
      have "mini_send c (int d - NR_TASKS) m s = Done (OK, s')"
        unfolding eq using ok False s'(1) by auto
      then show ?thesis using blocked [OF ok False _ s'(2,3)] by blast
    qed
  qed
qed

subsection \<open>Telling the memory manager about signals\<close>

lemma card_remove_one:
  fixes n :: nat
  assumes "finite A" and "a \<in> A" and "B = A - {a}"
  shows "int (card B) = int (card A) - 1"
  using assms by (simp add: card_Diff_singleton) (metis card_gt_0_iff empty_iff Suc_pred' int_ops(4) One_nat_def
      add.commute add_diff_cancel_left' of_nat_Suc)

lemma server_flags:
  assumes "slots_ok s" and "i < 11" and "NOT (SENDING OR RECEIVING) AND b = b"
  shows "p_flags (procs s i) AND b = 0"
proof -
  have "p_flags (procs s i) AND NOT (SENDING OR RECEIVING) = 0" using assms by (simp add: slots_ok_def)
  then show ?thesis by (rule flag_clear_zero) (rule assms(3))
qed

lemma find_pending:
  assumes "signals_ok s" and "slots_ok s" and "0 < sig_procs s"
  shows "\<exists>rp. find (\<lambda>i. p_flags (procs s i) AND PENDING \<noteq> 0) (slots_from 9) = Some rp"
proof -
  have "{i. i < NR_SLOTS \<and> pending s i} \<noteq> {}" using assms by (auto simp: signals_ok_def card_gt_0_iff)
  then obtain i where i: "i < NR_SLOTS" "pending s i" by auto
  have "\<not> pending s j" if "j < 11" for j
    using server_flags [OF assms(2) that, of PENDING] by (simp add: pending_def)
  then have "\<not> i < 11" using i by blast
  then have "i \<in> set (slots_from 9)" using i by simp
  then have "find (\<lambda>i. p_flags (procs s i) AND PENDING \<noteq> 0) (slots_from 9) \<noteq> None"
    using i(2) unfolding find_None_iff pending_def by blast
  then show ?thesis by blast
qed

lemma find_pending_user:
  assumes "slots_ok s" and "find (\<lambda>i. p_flags (procs s i) AND PENDING \<noteq> 0) (slots_from 9) = Some rp"
  shows "11 \<le> rp" "rp < NR_SLOTS" "pending s rp"
proof -
  have rp: "rp \<in> set (slots_from 9) \<and> p_flags (procs s rp) AND PENDING \<noteq> 0"
    using assms(2) unfolding find_Some_iff by (metis nth_mem)
  then show "rp < NR_SLOTS" "pending s rp" unfolding pending_def by auto
  show "11 \<le> rp"
    using rp server_flags [OF assms(1), of rp PENDING] by (intro leI notI) simp
qed

lemma core_inv_same:
  assumes "core_inv R C H s" and "sched_part s' = sched_part s" and "rest_part s' = rest_part s"
    and "\<And>i. p_flags (procs s' i) = p_flags (procs s i)"
  shows "core_inv R C H s'"
  using assms sched_inv_same [of R s s'] rest_inv_same [of s' s]
  by (simp add: core_inv_def runnable_def)

text \<open>A flag of a user process other than the message flags is changed.\<close>

lemma rest_inv_user_flag:
  assumes inv: "rest_inv C H s" and i: "11 \<le> i"
    and s': "\<And>j. p_flags (procs s' j) = (if j = i then f else p_flags (procs s j))"
      "f AND SENDING = p_flags (procs s i) AND SENDING" "f AND RECEIVING = p_flags (procs s i) AND RECEIVING"
      "\<And>j. p_callerq (procs s' j) = p_callerq (procs s j)"
      "sendlink (procs s') = sendlink (procs s)" "\<And>j. p_getfrom (procs s' j) = p_getfrom (procs s j)"
      "\<And>j. p_nr (procs s' j) = p_nr (procs s j)"
      "\<And>j. p_int_blocked (procs s' j) = p_int_blocked (procs s j)"
      "\<And>j. p_int_held (procs s' j) = p_int_held (procs s j)"
      "nextheld (procs s') = nextheld (procs s)" "held_head s' = held_head s" "held_tail s' = held_tail s"
      "mess_ok (procs s' 8) = mess_ok (procs s 8)" "sys_m s' = sys_m s"
  shows "rest_inv C H s'"
proof -
  have s: "sending s' = sending s" "receiving s' = receiving s" "accepts s' = accepts s"
    "waiting s' = waiting s"
    using s'(2,3) by (auto simp: fun_eq_iff sending_def receiving_def accepts_def waiting_def s')
  show ?thesis using inv i
    by (simp add: rest_inv_def callers_ok_def wait_ok_def ints_ok_def held_ok_def slots_ok_def s s')
qed

lemma signals_ok_same:
  assumes "signals_ok s" and "\<And>i. p_flags (procs s' i) = p_flags (procs s i)"
    and "\<And>i. p_pending (procs s' i) = p_pending (procs s i)" and "sig_procs s' = sig_procs s"
    and "\<And>i. p_pendcount (procs s' i) = p_pendcount (procs s i)"
  shows "signals_ok s'"
  using assms by (simp add: signals_ok_def pending_def)

lemma finish_ksig_inv:
  assumes inv: "core_inv R C H s" "signals_ok s" and rp: "11 \<le> rp" "rp < NR_SLOTS"
    and last: "p_pendcount (procs s rp) = 1 \<Longrightarrow> \<not> pending s rp"
  shows "\<exists>s' R'. finish_ksig rp s = Done s' \<and> core_inv R' C H s' \<and> signals_ok s' \<and>
           sending s' = sending s \<and> receiving s' = receiving s \<and> pending s' = pending s \<and>
           sig_procs s' = sig_procs s \<and> kmem s' = kmem s \<and>
           (\<forall>i. p_getfrom (procs s' i) = p_getfrom (procs s i)) \<and>
           (\<forall>i. p_pending (procs s' i) = p_pending (procs s i)) \<and>
           (\<forall>i. i \<noteq> rp \<longrightarrow> p_flags (procs s' i) = p_flags (procs s i)) \<and>
           p_pendcount (procs s' rp) = (if p_pendcount (procs s rp) = 0 then 0 else p_pendcount (procs s rp) - 1)"
proof -
  consider (none) "p_pendcount (procs s rp) = 0" | (more) "p_pendcount (procs s rp) \<noteq> 0" "p_pendcount (procs s rp) \<noteq> 1"
    | (one) "p_pendcount (procs s rp) = 1" by blast
  then show ?thesis
  proof cases
    case none
    then show ?thesis using inv by (intro exI [of _ s] exI [of _ R]) (simp add: finish_ksig_def)
  next
    case more
    define s1 where "s1 = upd_proc rp (p_pendcount_update (\<lambda>n. n - 1)) s"
    have same: "sending s1 = sending s" "receiving s1 = receiving s" "pending s1 = pending s"
      by (auto simp: s1_def sending_def receiving_def pending_def fun_eq_iff)
    have "core_inv R C H s1" by (rule core_inv_same [OF inv(1)]) (auto simp: s1_def)
    moreover have "signals_ok s1"
      using inv(2) more unfolding signals_ok_def same by (auto simp: s1_def)
    moreover have "finish_ksig rp s = Done s1" using more by (simp add: finish_ksig_def s1_def)
    ultimately show ?thesis using more same
      by (intro exI [of _ s1] exI [of _ R]) (auto simp: s1_def)
  next
    case one
    define s1 where "s1 = upd_proc rp (p_pendcount_update (\<lambda>n. n - 1)) s"
    define s2 where "s2 = upd_proc rp (p_flags_update (\<lambda>f. f AND NOT SIG_PENDING)) s1"
    have sig: "p_flags (procs s rp) AND SIG_PENDING \<noteq> 0" using inv(2) one rp by (simp add: signals_ok_def)
    have nr: "\<not> runnable s rp" using sig by (auto simp: runnable_def)
    have part: "sched_part s2 = sched_part s" by (simp add: s2_def s1_def)
    have fl: "p_flags (procs s2 j) = (if j = rp then p_flags (procs s rp) AND NOT SIG_PENDING else p_flags (procs s j))"
      for j by (simp add: s2_def s1_def)
    obtain s3 R' where s3: "(if p_flags (procs s2 rp) = 0 then lock_ready rp s2 else Done s2) = Done s3"
      "sched_inv R' s3" "off_queues s3 = off_queues s2"
      using clear_flag_ready(2) [OF core_invD(1) [OF inv(1)] rp(2) nr _ _ part] rp fl by auto
    have r2: "rest_inv C H s2"
      by (rule rest_inv_user_flag [OF core_invD(2) [OF inv(1)] rp(1) fl])
        (auto simp: flag_simps s2_def s1_def mess_ok_def fun_eq_iff)
    note p3 = off_projs [OF s3(3)] off_queues_fields [OF s3(3)] off_states [OF s3(3)]
    have "finish_ksig rp s = Done s3"
      unfolding finish_ksig_def Let_def s1_def [symmetric] s2_def [symmetric]
      using one s3(1) by (simp add: s1_def)
    moreover have "core_inv R' C H s3" using s3(2) r2 rest_inv_off [OF s3(3)] by (simp add: core_inv_def)
    moreover have same: "sending s3 = sending s" "receiving s3 = receiving s" "pending s3 = pending s"
      by (auto simp: p3 fun_eq_iff sending_def receiving_def pending_def fl flag_simps)
    moreover have f2: "p_pending (procs s2 i) = p_pending (procs s i)"
      "p_pendcount (procs s2 i) = (if i = rp then 0 else p_pendcount (procs s i))"
      "p_getfrom (procs s2 i) = p_getfrom (procs s i)" "sig_procs s2 = sig_procs s" "kmem s2 = kmem s" for i
      using one by (auto simp: s2_def s1_def)
    moreover have "signals_ok s3"
      using inv(2) last [OF one] unfolding signals_ok_def same
      by (auto simp: p3 f2 fl flag_simps)
    ultimately show ?thesis using one
      by (intro exI [of _ s3] exI [of _ R']) (auto simp: p3 fl)
  qed
qed

lemma core_inv_pick:
  assumes "core_inv R C H s"
  shows "core_inv R C H (lock_pick_proc s)"
proof -
  have R: "ready_lists R s" "ready_exact R s" using core_invD [OF assms] by simp_all
  note l = lock_pick_proc_lists [OF R(1)]
  have "sched_inv R (lock_pick_proc s)"
    using l current_ok_head [OF l(2)] R(2)
    by (simp add: sched_inv_def ready_exact_def off_states [OF l(3)])
  moreover have "rest_inv C H (lock_pick_proc s)"
    using rest_inv_off [OF l(3)] core_invD(2) [OF assms] by simp
  ultimately show ?thesis by (simp add: core_inv_def)
qed

text \<open>The state in which \<open>inform\<close> sends its message, and what it changes.\<close>

definition ksig_msg :: "nat \<Rightarrow> kstate \<Rightarrow> kstate" where
  "ksig_msg rp s = (upd_mem (put16 (sys_m s + m1_i2) (p_pending (procs s rp)))
     (upd_mem (put_int (sys_m s + m1_i1) (p_nr (procs s rp)))
       (upd_mem (put_int (sys_m s + off_type) KSIG) s)))\<lparr>sig_procs := sig_procs s - 1\<rparr>"

definition first_pending :: "kstate \<Rightarrow> nat option" where
  "first_pending s = find (\<lambda>i. p_flags (procs s i) AND PENDING \<noteq> 0) (slots_from 9)"

definition informed :: "kstate \<Rightarrow> kstate \<Rightarrow> bool" where
  "informed s s' \<longleftrightarrow>
     (case first_pending s of
        None \<Rightarrow> s' = s
      | Some rp \<Rightarrow> pending s' = (pending s)(rp := False) \<and> p_pending (procs s' rp) = 0 \<and>
          sig_procs s' = sig_procs s - 1 \<and> sending s' = sending s \<and>
          receiving s' = (receiving s)(9 := False) \<and>
          kmem s' = kmem (delivered 8 9 (sys_m s) (ksig_msg rp s)) \<and>
          (\<forall>i. i \<noteq> rp \<longrightarrow> i \<noteq> 9 \<longrightarrow> p_flags (procs s' i) = p_flags (procs s i)))"

lemma ksig_msg_parts [simp]:
  "sched_part (ksig_msg rp s) = sched_part s" "rest_part (ksig_msg rp s) = rest_part s"
  "procs (ksig_msg rp s) = procs s" "sig_procs (ksig_msg rp s) = sig_procs s - 1" "sys_m (ksig_msg rp s) = sys_m s"
  by (simp_all add: ksig_msg_def)

lemma inform_send:
  assumes inv: "core_inv R C H s" and mm: "waiting s 9" "p_getfrom (procs s 9) = ANY"
  shows "\<exists>s' R'. lock_mini_send (cproc_addr HARDWARE) MM_PROC_NR (sys_m s) (ksig_msg rp s) = Done (OK, s') \<and>
           core_inv R' C H s' \<and> off_queues s' = off_queues (delivered 8 9 (sys_m s) (ksig_msg rp s))"
proof -
  define s1 where "s1 = (ksig_msg rp s)\<lparr>switching := True\<rparr>"
  have pr: "procs s1 = procs s" by (simp add: s1_def)
  have inv1: "core_inv R C H s1" by (rule core_inv_same [OF inv]) (simp_all add: s1_def)
  have L: "slots_ok s" by (rule core_invD(10) [OF inv])
  have w: "waiting s1 9" "accepts s1 9 8" "p_flags (procs s1 8) = 0"
    using mm idle_hardware_flags [OF L] by (simp_all add: waiting_def receiving_def sending_def accepts_def pr)
  have "9 \<notin> set (C 8)"
    using callers_okD(2) [OF core_invD(6) [OF inv], of 8 9] mm by (auto simp: waiting_def)
  then have ok: "send_error C 8 9 (sys_m s) s1 = OK"
    using L server_flags [OF L, of 9 P_SLOT_FREE] by (simp add: send_error_def isuserp_def pr slots_ok_def)
  have d: "MM_PROC_NR = int 9 - NR_TASKS" by simp
  from inv1 show ?thesis
  proof (rule mini_send_cases [where c = 8 and d = 9 and m = "sys_m s"])
    fix s2 R' assume s2: "mini_send 8 (int 9 - NR_TASKS) (sys_m s) s1 = Done (OK, s2)" "core_inv R' C H s2"
      "off_queues s2 = off_queues (delivered 8 9 (sys_m s) s1)"
    have "lock_mini_send (cproc_addr HARDWARE) MM_PROC_NR (sys_m s) (ksig_msg rp s) = Done (OK, s2\<lparr>switching := False\<rparr>)"
      unfolding lock_mini_send_def s1_def [symmetric] cproc_addr_simps d s2(1) by simp
    moreover have "core_inv R' C H (s2\<lparr>switching := False\<rparr>)"
      by (rule core_inv_same [OF s2(2)]) simp_all
    moreover have "off_queues (delivered 8 9 (sys_m s) s1) = off_queues (delivered 8 9 (sys_m s) (ksig_msg rp s))"
      by (simp add: off_queues_def delivered_def s1_def cp_mess_def upd_proc_def upd_mem_def Let_def)
    ultimately show ?thesis using s2(3)
      by (intro exI [of _ "s2\<lparr>switching := False\<rparr>"] exI [of _ R']) simp
  qed (use w ok in auto)
qed

lemma delivered_fields:
  "p_flags (procs (delivered c d m s) i) = (if i = d then p_flags (procs s d) AND NOT RECEIVING else p_flags (procs s i))"
  "p_pending (procs (delivered c d m s) i) = p_pending (procs s i)"
  "p_pendcount (procs (delivered c d m s) i) = p_pendcount (procs s i)"
  "p_getfrom (procs (delivered c d m s) i) = p_getfrom (procs s i)"
  "sig_procs (delivered c d m s) = sig_procs s" "sys_m (delivered c d m s) = sys_m s"
  by (simp_all add: delivered_def cp_mess_def Let_def upd_mem_def)

lemma inform_eq:
  assumes "first_pending s = Some rp"
  shows "inform s =
    andthen (lock_mini_send (cproc_addr HARDWARE) MM_PROC_NR (sys_m s) (ksig_msg rp s)) (\<lambda>(r, s1).
      if r \<noteq> OK then Panics ''can't inform MM''
      else let s2 = upd_proc rp (p_pending_update (\<lambda>_. 0)) s1;
               s3 = upd_proc rp (p_flags_update (\<lambda>f. f AND NOT PENDING)) s2
           in andthen (if get16 (kmem s3) (sys_m s3 + m1_i2) = push_bit (nat (SIGSTKFLT - 1)) 1
                       then finish_ksig rp s3 else Done s3) (\<lambda>s. Done (lock_pick_proc s)))"
  using assms unfolding inform_def first_pending_def by (simp add: ksig_msg_def)

lemma inform_inv:
  assumes inv: "kernel_inv R C H s" and mm: "waiting s 9" "p_getfrom (procs s 9) = ANY"
  shows "\<exists>s' R'. inform s = Done s' \<and> kernel_inv R' C H s' \<and> informed s s'"
proof (cases "first_pending s")
  case None
  then have "inform s = Done s" by (simp add: inform_def first_pending_def)
  then show ?thesis using inv None by (auto simp: informed_def)
next
  case (Some rp)
  have inv0: "core_inv R C H s" and sig0: "signals_ok s" using inv by (simp_all add: kernel_inv_def)
  have L: "slots_ok s" by (rule core_invD(10) [OF inv0])
  note rp = find_pending_user [OF L Some [unfolded first_pending_def]]
  obtain s1 R1 where s1: "lock_mini_send (cproc_addr HARDWARE) MM_PROC_NR (sys_m s) (ksig_msg rp s) = Done (OK, s1)"
    "core_inv R1 C H s1" "off_queues s1 = off_queues (delivered 8 9 (sys_m s) (ksig_msg rp s))"
    using inform_send [OF inv0 mm] by blast
  note p1 = off_projs [OF s1(3)] off_queues_fields [OF s1(3)]
  define s2 where "s2 = upd_proc rp (p_pending_update (\<lambda>_. 0)) s1"
  define s3 where "s3 = upd_proc rp (p_flags_update (\<lambda>f. f AND NOT PENDING)) s2"
  have fl1: "p_flags (procs s1 i) = (if i = 9 then p_flags (procs s 9) AND NOT RECEIVING else p_flags (procs s i))" for i
    by (simp add: p1 delivered_fields)
  have fl: "p_flags (procs s3 i) = (if i = rp then p_flags (procs s rp) AND NOT PENDING
                                    else p_flags (procs s1 i))" for i
    using rp by (simp add: s3_def s2_def fl1)
  have sp: "p_flags (procs s rp) AND SIG_PENDING \<noteq> 0" using sig0 rp by (simp add: signals_ok_def)
  have flrp: "p_flags (procs s3 rp) \<noteq> 0" using sp flag_clear_zero [of "p_flags (procs s rp)" PENDING SIG_PENDING]
    by (auto simp: fl)
  have part: "sched_part s3 = sched_part s1" by (simp add: s3_def s2_def)
  have "runnable s3 i = runnable s1 i" for i
    using flrp rp by (auto simp: runnable_def fl fl1 pending_def)
  then have sch3: "sched_inv R1 s3" by (rule sched_inv_same [OF core_invD(1) [OF s1(2)] part])
  have rest3: "rest_inv C H s3"
    by (rule rest_inv_user_flag [OF core_invD(2) [OF s1(2)] rp(1), of s3 "p_flags (procs s rp) AND NOT PENDING"])
      (use rp in \<open>auto simp: fl fl1 flag_simps s3_def s2_def mess_ok_def fun_eq_iff\<close>)
  have st3: "sending s3 = sending s" "receiving s3 = (receiving s)(9 := False)" "pending s3 = (pending s)(rp := False)"
    using rp by (auto simp: fun_eq_iff sending_def receiving_def pending_def fl fl1 flag_simps)
  have f3: "p_pending (procs s3 i) = (if i = rp then 0 else p_pending (procs s i))"
    "p_pendcount (procs s3 i) = p_pendcount (procs s i)" "sig_procs s3 = sig_procs s - 1"
    "p_getfrom (procs s3 i) = p_getfrom (procs s i)" "kmem s3 = kmem (delivered 8 9 (sys_m s) (ksig_msg rp s))" for i
    by (auto simp: s3_def s2_def p1 delivered_fields)
  have "{i. i < NR_SLOTS \<and> ((pending s)(rp := False)) i} = {i. i < NR_SLOTS \<and> pending s i} - {rp}"
    using rp by auto
  then have "int (card {i. i < NR_SLOTS \<and> pending s3 i}) = int (card {i. i < NR_SLOTS \<and> pending s i}) - 1"
    unfolding st3 using rp by (intro card_remove_one [of _ rp]) auto
  then have sig3: "signals_ok s3" using sig0 rp
    unfolding signals_ok_def by (auto simp: st3 f3 fl fl1 flag_simps)
  obtain s4 R4 where s4: "(if get16 (kmem s3) (sys_m s3 + m1_i2) = push_bit (nat (SIGSTKFLT - 1)) 1
      then finish_ksig rp s3 else Done s3) = Done s4"
    "core_inv R4 C H s4" "signals_ok s4" "sending s4 = sending s3" "receiving s4 = receiving s3"
    "pending s4 = pending s3" "sig_procs s4 = sig_procs s3" "kmem s4 = kmem s3"
    "\<forall>i. p_pending (procs s4 i) = p_pending (procs s3 i)"
    "\<forall>i. i \<noteq> rp \<longrightarrow> p_flags (procs s4 i) = p_flags (procs s3 i)"
  proof (cases "get16 (kmem s3) (sys_m s3 + m1_i2) = push_bit (nat (SIGSTKFLT - 1)) 1")
    case True
    have c3: "core_inv R1 C H s3" using sch3 rest3 by (simp add: core_inv_def)
    then show ?thesis using finish_ksig_inv [OF c3 sig3 rp(1,2)] st3 that True by (auto simp: st3)
  next
    case False
    then show ?thesis using that [of s3 R1] sch3 rest3 sig3 by (auto simp: core_inv_def)
  qed
  define s5 where "s5 = lock_pick_proc s4"
  have off5: "off_queues s5 = off_queues s4"
    unfolding s5_def by (rule lock_pick_proc_lists(3) [OF core_invD(3) [OF s4(2)]])
  have run: "inform s = Done s5"
    unfolding inform_eq [OF Some] s1(1) andthen.simps prod.case Let_def s2_def [symmetric] s3_def [symmetric]
    unfolding s4(1) andthen.simps s5_def by (simp only: simp_thms if_False)
  note p5 = off_projs [OF off5] off_queues_fields [OF off5] off_states [OF off5]
  have "signals_ok s5" by (rule signals_ok_same [OF s4(3)]) (simp_all add: p5)
  then have "kernel_inv R4 C H s5" using core_inv_pick [OF s4(2)] by (simp add: kernel_inv_def s5_def)
  moreover have "informed s s5"
    using s4 rp by (auto simp: informed_def Some p5 st3 f3 fl fl1)
  ultimately show ?thesis using run by blast
qed

subsection \<open>Causing a signal\<close>

lemma sig_bit_nonzero: "1 \<le> sig \<Longrightarrow> sig \<le> 16 \<Longrightarrow> (push_bit (nat (sig - 1)) 1 :: u16) \<noteq> 0"
proof -
  assume "1 \<le> sig" "sig \<le> 16"
  then have "bit (push_bit (nat (sig - 1)) 1 :: u16) (nat (sig - 1))"
    by (simp add: bit_exp_iff)
  then show ?thesis by (metis bit_0_eq bot_apply bot_bool_def)
qed

text \<open>Blocking a user process for a signal: it leaves the ready queue and is counted.\<close>

lemma rest_inv_off_part:
  assumes "rest_inv C H s" and "off_queues s' = off_queues s"
  shows "rest_inv C H s'"
  using assms rest_inv_off by blast

lemma inhibit_inv:
  assumes inv: "core_inv R C H s" and i: "11 \<le> i" "i < NR_SLOTS"
    and f: "f \<noteq> 0" "f AND SENDING = 0" "f AND RECEIVING = 0"
  shows "\<exists>s1 R'. (if p_flags (procs s i) = 0 then lock_unready i s else Done s) = Done s1 \<and>
           off_queues s1 = off_queues s \<and>
           core_inv R' C H (upd_proc i (p_flags_update (\<lambda>x. x OR f)) s1)"
proof -
  note D = core_invD [OF inv]
  obtain s1 R' where s1: "(if p_flags (procs s i) = 0 then lock_unready i s else Done s) = Done s1"
    "off_queues s1 = off_queues s" "ready_lists R' s1" "current_ok R' s1" "exact_but i R' s1"
    "i \<notin> set (R' (queue_of s1 i))"
  proof (cases "p_flags (procs s i) = 0")
    case True
    obtain s1 where u: "lock_unready i s = Done s1" "off_queues s1 = off_queues s"
      "ready_lists (R(queue_of s i := remove1 i (R (queue_of s i)))) s1"
      "current_ok (R(queue_of s i := remove1 i (R (queue_of s i)))) s1"
      "exact_but i (R(queue_of s i := remove1 i (R (queue_of s i)))) s1"
      "i \<notin> set ((R(queue_of s i := remove1 i (R (queue_of s i)))) (queue_of s i))"
      using sched_unready(2) [OF D(1), of i] by blast
    then show ?thesis using that [of s1] True by (simp add: off_states [OF u(2)])
  next
    case False
    then have "\<not> runnable s i" by (simp add: runnable_def)
    then have "i \<notin> set (R (queue_of s i))" using D(4) i by (simp add: ready_exact_def)
    then show ?thesis using that [of s R] False D ready_exact_but by simp
  qed
  note p1 = off_projs [OF s1(2)] off_states [OF s1(2)]
  define s2 where "s2 = upd_proc i (p_flags_update (\<lambda>x. x OR f)) s1"
  have "sched_inv R' s2"
    by (rule blocked_sched [OF s1(3-6)]) (use f in \<open>auto simp: s2_def\<close>)
  moreover have "rest_inv C H s2"
    by (rule rest_inv_user_flag [OF rest_inv_off_part [OF D(2) s1(2)] i(1), where f = "p_flags (procs s1 i) OR f"])
      (use f in \<open>auto simp: s2_def bit.conj_disj_distrib2 mess_ok_def fun_eq_iff\<close>)
  ultimately show ?thesis using s1 by (auto simp: core_inv_def s2_def)
qed

lemma cause_sig_inv:
  assumes inv: "kernel_inv R C H s" and i: "11 \<le> i" "i < NR_SLOTS" and sig: "1 \<le> sig" "sig \<le> 16"
  shows "\<exists>s' R'. cause_sig (int i - NR_TASKS) sig s = Done s' \<and> kernel_inv R' C H s' \<and> sending s' = sending s \<and>
           (\<forall>j. j \<noteq> i \<and> j \<noteq> 9 \<and> \<not> pending s j \<longrightarrow> p_flags (procs s' j) = p_flags (procs s j))"
proof -
  define bits where "bits = (push_bit (nat (sig - 1)) 1 :: u16)"
  have b: "bits \<noteq> 0" unfolding bits_def by (rule sig_bit_nonzero [OF sig])
  have inv0: "core_inv R C H s" and sig0: "signals_ok s" using inv by (simp_all add: kernel_inv_def)
  have pa: "proc_addr (int i - NR_TASKS) = Done i" by (rule proc_addr_slot [OF i(2)])
  define s1 where "s1 = upd_proc i (p_pendcount_update (\<lambda>n. n + 1)) (upd_proc i (p_pending_update (\<lambda>p. p OR bits)) s)"
  have fl1: "p_flags (procs s1 j) = p_flags (procs s j)" for j by (simp add: s1_def)
  have core1: "core_inv R C H s1" by (rule core_inv_same [OF inv0]) (simp_all add: s1_def)
  have eq: "cause_sig (int i - NR_TASKS) sig s =
    (if p_pending (procs s i) AND bits \<noteq> 0 then Done s
     else if p_flags (procs s1 i) AND PENDING \<noteq> 0 then Done s1
     else andthen (if p_flags (procs s1 i) = 0 then lock_unready i s1 else Done s1) (\<lambda>s.
       let s = upd_proc i (p_flags_update (\<lambda>f. f OR (PENDING OR SIG_PENDING))) s;
           s = s\<lparr>sig_procs := sig_procs s + 1\<rparr>
       in if p_flags (procs s 9) AND RECEIVING = 0 \<or> p_getfrom (procs s 9) \<noteq> ANY then Done s else inform s))"
    unfolding cause_sig_def pa andthen.simps Let_def bits_def [symmetric] s1_def [symmetric] cproc_addr_simps
    by (rule refl)
  consider (already) "p_pending (procs s i) AND bits \<noteq> 0"
    | (more) "p_pending (procs s i) AND bits = 0" "pending s i"
    | (new) "p_pending (procs s i) AND bits = 0" "\<not> pending s i" by blast
  then show ?thesis
  proof cases
    case already
    then show ?thesis using inv by (intro exI [of _ s] exI [of _ R]) (simp add: eq)
  next
    case more
    have st: "pending s1 = pending s" "sending s1 = sending s"
      by (simp_all add: fun_eq_iff pending_def sending_def fl1)
    have f1: "p_pending (procs s1 j) = (if j = i then p_pending (procs s i) OR bits else p_pending (procs s j))"
      "p_pendcount (procs s1 j) = (if j = i then p_pendcount (procs s i) + 1 else p_pendcount (procs s j))"
      "sig_procs s1 = sig_procs s" for j
      by (simp_all add: s1_def)
    have "signals_ok s1" using sig0 more b
      unfolding signals_ok_def st by (auto simp: fl1 f1)
    moreover have "cause_sig (int i - NR_TASKS) sig s = Done s1" using more by (simp add: eq fl1 pending_def)
    ultimately show ?thesis using core1 st fl1
      by (intro exI [of _ s1] exI [of _ R]) (simp add: kernel_inv_def)
  next
    case new
    obtain s2 R' where s2: "(if p_flags (procs s1 i) = 0 then lock_unready i s1 else Done s1) = Done s2"
      "off_queues s2 = off_queues s1"
      "core_inv R' C H (upd_proc i (p_flags_update (\<lambda>f. f OR (PENDING OR SIG_PENDING))) s2)"
      using inhibit_inv [OF core1 i, of "PENDING OR SIG_PENDING"] by auto
    define s3 where "s3 = (upd_proc i (p_flags_update (\<lambda>f. f OR (PENDING OR SIG_PENDING))) s2)\<lparr>sig_procs := sig_procs s2 + 1\<rparr>"
    note p2 = off_projs [OF s2(2)] off_queues_fields [OF s2(2)]
    have core3: "core_inv R' C H s3" by (rule core_inv_same [OF s2(3)]) (simp_all add: s3_def)
    have fl3: "p_flags (procs s3 j) = (if j = i then p_flags (procs s i) OR (PENDING OR SIG_PENDING) else p_flags (procs s j))" for j
      by (simp add: s3_def p2 fl1)
    have st3: "pending s3 = (pending s)(i := True)" "sending s3 = sending s" "receiving s3 = receiving s"
      by (auto simp: fun_eq_iff pending_def sending_def receiving_def fl3 flag_simps)
    have f3: "p_pending (procs s3 j) = (if j = i then p_pending (procs s i) OR bits else p_pending (procs s j))"
      "p_pendcount (procs s3 j) = (if j = i then p_pendcount (procs s i) + 1 else p_pendcount (procs s j))"
      "sig_procs s3 = sig_procs s + 1" "p_getfrom (procs s3 j) = p_getfrom (procs s j)" for j
      by (simp_all add: s3_def p2) (simp_all add: s1_def)
    have "{j. j < NR_SLOTS \<and> pending s j} = {j. j < NR_SLOTS \<and> pending s3 j} - {i}"
      using new by (auto simp: st3)
    then have "int (card {j. j < NR_SLOTS \<and> pending s j}) = int (card {j. j < NR_SLOTS \<and> pending s3 j}) - 1"
      using i by (intro card_remove_one [of _ i]) (auto simp: st3)
    then have sig3: "signals_ok s3" using sig0 b
      unfolding signals_ok_def by (auto simp: st3 f3 fl3 flag_simps)
    have kin3: "kernel_inv R' C H s3" using core3 sig3 by (simp add: kernel_inv_def)
    have eq3: "cause_sig (int i - NR_TASKS) sig s =
       (if p_flags (procs s3 9) AND RECEIVING = 0 \<or> p_getfrom (procs s3 9) \<noteq> ANY then Done s3 else inform s3)"
      unfolding eq s2(1) andthen.simps Let_def using new
      by (simp add: fl1 pending_def s3_def)
    show ?thesis
    proof (cases "p_flags (procs s3 9) AND RECEIVING = 0 \<or> p_getfrom (procs s3 9) \<noteq> ANY")
      case True
      then show ?thesis using eq3 kin3 st3 fl3 by (intro exI [of _ s3] exI [of _ R']) auto
    next
      case False
      then have r: "receiving s3 9" "p_getfrom (procs s3 9) = ANY" by (auto simp: receiving_def)
      have "\<not> sending s3 9"
        using wait_okD(3) [OF core_invD(7) [OF core3], of 9] r by auto
      then have "waiting s3 9" using r by (simp add: waiting_def)
      from inform_inv [OF kin3 this r(2)] obtain s4 R4
        where s4: "inform s3 = Done s4" "kernel_inv R4 C H s4" "informed s3 s4" by blast
      have "sending s4 = sending s" using s4(3) by (auto simp: informed_def st3 split: option.splits)
      moreover have "p_flags (procs s4 j) = p_flags (procs s j)" if "j \<noteq> i" "j \<noteq> 9" "\<not> pending s j" for j
      proof (cases "first_pending s3")
        case None
        then show ?thesis using s4(3) that fl3 by (simp add: informed_def)
      next
        case (Some rp)
        then have "pending s3 rp"
          using find_pending_user(3) [OF core_invD(10) [OF core3]] by (simp add: first_pending_def)
        then have "rp \<noteq> j" using that by (auto simp: st3)
        then show ?thesis using s4(3) Some that fl3 by (simp add: informed_def)
      qed
      ultimately show ?thesis using eq3 False s4 by auto
    qed
  qed
qed

subsection \<open>Receiving\<close>

definition wanted :: "int \<Rightarrow> nat \<Rightarrow> bool" where
  "wanted src j \<longleftrightarrow> src = ANY \<or> src = int j - NR_TASKS"

lemma rec_scan_found:
  assumes "chain (sendlink (procs s)) p (pre @ j # post)" and "length pre < n"
    and "\<And>k. k \<in> set (pre @ [j]) \<Longrightarrow> p_nr (procs s k) = int k - NR_TASKS"
    and "\<And>k. k \<in> set pre \<Longrightarrow> \<not> wanted src k" and "wanted src j"
  shows "rec_scan n src prev p s = Done (Some (if pre = [] then prev else Some (last pre), j))"
  using assms
proof (induction pre arbitrary: p n prev)
  case Nil
  then show ?case by (cases n) (auto simp: wanted_def)
next
  case (Cons a pre)
  obtain n' where n: "n = Suc n'" using Cons.prems(2) by (cases n) auto
  have "rec_scan n src prev p s = rec_scan n' src (Some a) (p_sendlink (procs s a)) s"
    using Cons.prems n by (auto simp: wanted_def)
  also have "\<dots> = Done (Some (if pre = [] then Some a else Some (last pre), j))"
    using Cons.prems n by (intro Cons.IH) (auto simp: sendlink_def)
  finally show ?case by simp
qed

lemma rec_scan_none:
  assumes "chain (sendlink (procs s)) p xs" and "length xs \<le> n"
    and "\<And>k. k \<in> set xs \<Longrightarrow> p_nr (procs s k) = int k - NR_TASKS"
    and "\<And>k. k \<in> set xs \<Longrightarrow> \<not> wanted src k"
  shows "rec_scan n src prev p s = Done None"
  using assms
proof (induction xs arbitrary: p n prev)
  case Nil
  then show ?case by simp
next
  case (Cons a xs)
  obtain n' where n: "n = Suc n'" using Cons.prems(2) by (cases n) auto
  have "rec_scan n src prev p s = rec_scan n' src (Some a) (p_sendlink (procs s a)) s"
    using Cons.prems(1) Cons.prems(3) [of a] Cons.prems(4) [of a] n by (auto simp: wanted_def)
  also have "\<dots> = Done None"
    using Cons.prems n by (intro Cons.IH) (auto simp: sendlink_def)
  finally show ?case .
qed

text \<open>The state after a queued message has been accepted, but for the ready queues.\<close>

definition accepted :: "nat \<Rightarrow> nat list \<Rightarrow> nat \<Rightarrow> addr \<Rightarrow> kstate \<Rightarrow> kstate" where
  "accepted c pre j m s =
     (let s1 = cp_mess (p_nr (procs s j)) j (p_messbuf (procs s j)) c m s;
          s2 = (if pre = [] then upd_proc c (p_callerq_update (\<lambda>_. p_sendlink (procs s j))) s1
                else upd_proc (last pre) (p_sendlink_update (\<lambda>_. p_sendlink (procs s j))) s1)
      in upd_proc j (p_flags_update (\<lambda>f. f AND NOT SENDING)) s2)"

lemma accepted_fields:
  "p_flags (procs (accepted c pre j m s) i) = (if i = j then p_flags (procs s j) AND NOT SENDING else p_flags (procs s i))"
  "p_pending (procs (accepted c pre j m s) i) = p_pending (procs s i)"
  "p_pendcount (procs (accepted c pre j m s) i) = p_pendcount (procs s i)"
  "p_getfrom (procs (accepted c pre j m s) i) = p_getfrom (procs s i)"
  "sig_procs (accepted c pre j m s) = sig_procs s"
  "kmem (accepted c pre j m s) = kmem (cp_mess (p_nr (procs s j)) j (p_messbuf (procs s j)) c m s)"
  by (auto simp: accepted_def cp_mess_def Let_def upd_mem_def)

lemma rec_accept_inv:
  assumes inv: "core_inv R C H s" and c: "c < NR_SLOTS" "c \<noteq> 8" "\<not> sending s c"
    and split: "C c = pre @ j # post"
  shows "\<exists>s' R'. rec_accept c (if pre = [] then None else Some (last pre)) j m s = Done s' \<and>
           core_inv R' (C(c := pre @ post)) H s' \<and> off_queues s' = off_queues (accepted c pre j m s) \<and>
           proc_ptr s' = proc_ptr s \<and> switching s' = switching s"
proof -
  note D = core_invD [OF inv]
  have j: "j < NR_SLOTS" "sending s j" using callers_okD(2) [OF D(6) c(1)] split by auto
  have ord: "j \<noteq> 1" "j \<noteq> 8" using j idle_hardware_flags [OF D(10)] by (auto simp: sending_def)
  have nr: "\<not> runnable s j" using j by (auto simp: sending_def runnable_def)
  define s1 where "s1 = cp_mess (p_nr (procs s j)) j (p_messbuf (procs s j)) c m s"
  define s2 where "s2 = (if pre = [] then upd_proc c (p_callerq_update (\<lambda>_. p_sendlink (procs s j))) s1
                else upd_proc (last pre) (p_sendlink_update (\<lambda>_. p_sendlink (procs s j))) s1)"
  define s3 where "s3 = upd_proc j (p_flags_update (\<lambda>f. f AND NOT SENDING)) s2"
  have s3': "s3 = accepted c pre j m s" by (simp add: s3_def s2_def s1_def accepted_def)
  have pr1: "procs s1 = procs s" by (simp add: s1_def)
  have ch: "chain (sendlink (procs s)) (p_callerq (procs s c)) (pre @ j # post)"
    using callers_okD(1) [OF D(6) c(1)] split by simp
  have d: "distinct (pre @ j # post)" by (rule chain_distinct [OF ch])
  have unlink: "(if p_callerq (procs s1 c) = Some j
       then Done (upd_proc c (p_callerq_update (\<lambda>_. p_sendlink (procs s1 j))) s1)
       else andthen (deref (if pre = [] then None else Some (last pre)))
              (\<lambda>p. Done (upd_proc p (p_sendlink_update (\<lambda>_. p_sendlink (procs s1 j))) s1))) = Done s2"
    using ch d by (cases pre) (auto simp: s2_def pr1)
  have part: "sched_part s3 = sched_part s" by (simp add: s3_def s2_def s1_def)
  have fl: "p_flags (procs s3 i) = (if i = j then p_flags (procs s i) AND NOT SENDING else p_flags (procs s i))" for i
    by (simp add: s3' accepted_fields)
  obtain s4 R' where s4: "(if p_flags (procs s3 j) = 0 then ready j s3 else Done s3) = Done s4"
    "sched_inv R' s4" "off_queues s4 = off_queues s3" "proc_ptr s4 = proc_ptr s3" "switching s4 = switching s3"
    using clear_flag_ready(1) [OF D(1) j(1) nr ord part] fl by auto
  have "rec_accept c (if pre = [] then None else Some (last pre)) j m s = Done s4"
    unfolding rec_accept_def Let_def s1_def [symmetric] unlink [unfolded pr1] pr1 andthen.simps s3_def [symmetric]
    by (rule s4(1))
  moreover have "rest_inv (C(c := pre @ post)) H s3"
  proof (rule rest_inv_dequeue [OF D(2) c(1) split c(3) c(2)])
    show "sendlink (procs s3) = (if pre = [] then sendlink (procs s)
            else (sendlink (procs s))(last pre := p_sendlink (procs s j)))"
      by (simp add: s3_def s2_def pr1)
    show "nextheld (procs s3) = nextheld (procs s)" by (auto simp: s3_def s2_def pr1 nextheld_def)
    show "p_callerq (procs s3 i) = (if i = c \<and> pre = [] then p_sendlink (procs s j) else p_callerq (procs s i))" for i
      by (auto simp: s3_def s2_def pr1)
  qed (auto simp: fl s3_def s2_def s1_def cp_mess_def Let_def)
  ultimately show ?thesis using s4(2-5) rest_inv_off [OF s4(3)]
    by (intro exI [of _ s4] exI [of _ R']) (simp add: core_inv_def s3' accepted_def cp_mess_def Let_def)
qed

lemma signals_ok_flags:
  assumes "signals_ok s"
    and "\<And>i. p_flags (procs s' i) AND PENDING = p_flags (procs s i) AND PENDING"
    and "\<And>i. p_flags (procs s' i) AND SIG_PENDING = p_flags (procs s i) AND SIG_PENDING"
    and "\<And>i. p_pending (procs s' i) = p_pending (procs s i)" and "sig_procs s' = sig_procs s"
    and "\<And>i. p_pendcount (procs s' i) = p_pendcount (procs s i)"
  shows "signals_ok s'"
  using assms by (simp add: signals_ok_def pending_def)

definition blocked_receiving :: "nat \<Rightarrow> int \<Rightarrow> addr \<Rightarrow> kstate \<Rightarrow> kstate \<Rightarrow> bool" where
  "blocked_receiving c src m s s' \<longleftrightarrow>
     (\<forall>i. p_flags (procs s' i) = (if i = c then p_flags (procs s c) OR RECEIVING else p_flags (procs s i))) \<and>
     (\<forall>i. p_messbuf (procs s' i) = (if i = c then m else p_messbuf (procs s i))) \<and>
     (\<forall>i. p_getfrom (procs s' i) = (if i = c then src else p_getfrom (procs s i))) \<and>
     (\<forall>i. p_pending (procs s' i) = p_pending (procs s i)) \<and>
     kmem s' = kmem s \<and> sig_procs s' = sig_procs s \<and> proc_ptr s' \<noteq> c"

lemma rec_block_inv:
  assumes inv: "kernel_inv R C H s" and c: "c < NR_SLOTS" "c \<noteq> 1" "c \<noteq> 8"
    and none: "\<And>j. \<not> sending s c \<Longrightarrow> j \<in> set (C c) \<Longrightarrow> \<not> wanted src j"
    and noint: "\<not> sending s c \<Longrightarrow> \<not> (p_int_blocked (procs s c) \<and> isrxhardware src)"
    and both: "sending s c \<Longrightarrow> \<exists>d<NR_SLOTS. src = int d - NR_TASKS \<and> c \<in> set (C d)"
  shows "\<exists>s1 s' R'. rec_block c src m s = Done s' \<and> kernel_inv R' C H s' \<and> blocked_receiving c src m s s1 \<and>
           (if sig_procs s > 0 \<and> c = 9 \<and> src = ANY then informed s1 s' else s' = s1)"
proof -
  have inv0: "core_inv R C H s" and sig0: "signals_ok s" using inv by (simp_all add: kernel_inv_def)
  note D = core_invD [OF inv0]
  define s1 where "s1 = upd_proc c (p_messbuf_update (\<lambda>_. m)) (upd_proc c (p_getfrom_update (\<lambda>_. src)) s)"
  have fl1: "p_flags (procs s1 i) = p_flags (procs s i)" for i by (simp add: s1_def)
  have part1: "sched_part s1 = sched_part s" by (simp add: s1_def)
  have sch1: "sched_inv R s1" by (rule sched_inv_same [OF D(1) part1]) (simp add: runnable_def fl1)
  obtain s2 R' where s2: "(if p_flags (procs s1 c) = 0 then unready c s1 else Done s1) = Done s2"
    "off_queues s2 = off_queues s1" "ready_lists R' s2" "current_ok R' s2" "exact_but c R' s2"
    "c \<notin> set (R' (queue_of s2 c))"
  proof (cases "p_flags (procs s1 c) = 0")
    case True
    obtain s2 where u: "unready c s1 = Done s2" "off_queues s2 = off_queues s1"
      "ready_lists (R(queue_of s1 c := remove1 c (R (queue_of s1 c)))) s2"
      "current_ok (R(queue_of s1 c := remove1 c (R (queue_of s1 c)))) s2"
      "exact_but c (R(queue_of s1 c := remove1 c (R (queue_of s1 c)))) s2"
      "c \<notin> set ((R(queue_of s1 c := remove1 c (R (queue_of s1 c)))) (queue_of s1 c))"
      using sched_unready(1) [OF sch1, of c] by blast
    then show ?thesis using that [of s2] True by (simp add: off_states [OF u(2)])
  next
    case False
    have e: "ready_lists R s1" "ready_exact R s1" "current_ok R s1" using sch1 by (simp_all add: sched_inv_def)
    have "\<not> runnable s1 c" using False by (simp add: runnable_def)
    then have "c \<notin> set (R (queue_of s1 c))" using e(2) c by (simp add: ready_exact_def)
    then show ?thesis using that [of s1 R] False e ready_exact_but by simp
  qed
  note p2 = off_projs [OF s2(2)] off_queues_fields [OF s2(2)] off_states [OF s2(2)]
  define s3 where "s3 = upd_proc c (p_flags_update (\<lambda>f. f OR RECEIVING)) s2"
  have fl3: "p_flags (procs s3 i) = (if i = c then p_flags (procs s c) OR RECEIVING else p_flags (procs s i))" for i
    by (simp add: s3_def p2 fl1)
  have sch3: "sched_inv R' s3"
    by (rule blocked_sched [OF s2(3-6)]) (auto simp: s3_def)
  have f3: "p_messbuf (procs s3 i) = (if i = c then m else p_messbuf (procs s i))"
      "p_getfrom (procs s3 i) = (if i = c then src else p_getfrom (procs s i))"
      "p_pending (procs s3 i) = p_pending (procs s i)" "p_pendcount (procs s3 i) = p_pendcount (procs s i)"
      "p_nr (procs s3 i) = p_nr (procs s i)" "kmem s3 = kmem s" "sig_procs s3 = sig_procs s" for i
    by (simp_all add: s3_def p2) (auto simp: s1_def)
  have "rest_inv C H s3"
    by (rule rest_inv_receive [OF D(2) c, where src = src])
      (use none noint both in \<open>auto simp: fl3 s3_def p2 s1_def wanted_def sendlink_def nextheld_def
         fun_eq_iff mess_ok_def\<close>)
  then have core3: "core_inv R' C H s3" using sch3 by (simp add: core_inv_def)
  have sig3: "signals_ok s3"
    by (rule signals_ok_flags [OF sig0]) (auto simp: fl3 f3 flag_simps)
  have k3: "kernel_inv R' C H s3" using core3 sig3 by (simp add: kernel_inv_def)
  have "proc_ptr s3 \<noteq> c" by (rule current_not_blocked [OF sch3 c(2)]) (simp add: fl3)
  then have b: "blocked_receiving c src m s s3" by (simp add: blocked_receiving_def fl3 f3)
  have mm: "p_nr (procs s3 c) = MM_PROC_NR \<longleftrightarrow> c = 9"
    using slots_nr [OF D(10) c(1)] by (auto simp: f3)
  have eq: "rec_block c src m s =
      (if sig_procs s > 0 \<and> c = 9 \<and> src = ANY then inform s3 else Done s3)"
    unfolding rec_block_def Let_def s1_def [symmetric] s2(1) andthen.simps s3_def [symmetric] mm f3(7)
    by (rule refl)
  show ?thesis
  proof (cases "sig_procs s > 0 \<and> c = 9 \<and> src = ANY")
    case True
    then have "\<not> sending s c" using both by force
    then have "waiting s3 9" "p_getfrom (procs s3 9) = ANY"
      using True by (simp_all add: waiting_def receiving_def sending_def fl3 f3 flag_simps)
    from inform_inv [OF k3 this] show ?thesis using eq True b by auto
  next
    case False
    then show ?thesis using eq b k3 by auto
  qed
qed

lemma rest_inv_int_blocked:
  assumes inv: "rest_inv C H s" and b: "b \<Longrightarrow> \<not> (waiting s i \<and> isrxhardware (p_getfrom (procs s i)))"
  shows "rest_inv C H (upd_proc i (p_int_blocked_update (\<lambda>_. b)) s)"
proof -
  define s' where "s' = upd_proc i (p_int_blocked_update (\<lambda>_. b)) s"
  have st: "sending s' = sending s" "receiving s' = receiving s" "accepts s' = accepts s" "waiting s' = waiting s"
    by (auto simp: s'_def fun_eq_iff sending_def receiving_def accepts_def waiting_def)
  have f: "p_callerq (procs s' j) = p_callerq (procs s j)" "sendlink (procs s') = sendlink (procs s)"
    "p_getfrom (procs s' j) = p_getfrom (procs s j)" "p_nr (procs s' j) = p_nr (procs s j)"
    "p_flags (procs s' j) = p_flags (procs s j)" "p_int_held (procs s' j) = p_int_held (procs s j)"
    "nextheld (procs s') = nextheld (procs s)" "held_head s' = held_head s" "held_tail s' = held_tail s"
    "sys_m s' = sys_m s" "mess_ok (procs s' j) = mess_ok (procs s j)"
    "p_int_blocked (procs s' j) = (if j = i then b else p_int_blocked (procs s j))" for j
    by (auto simp: s'_def)
  have "ints_ok s'" using inv b by (simp add: rest_inv_def ints_ok_def st f)
  then show ?thesis using inv
    unfolding s'_def [symmetric]
    by (simp add: rest_inv_def callers_ok_def wait_ok_def held_ok_def slots_ok_def st f)
qed

lemma mini_rec_cases:
  assumes inv: "kernel_inv R C H s" and c: "c < NR_SLOTS" "c \<noteq> 1" "c \<noteq> 8"
    and both: "sending s c \<Longrightarrow> \<exists>d<NR_SLOTS. src = int d - NR_TASKS \<and> c \<in> set (C d)"
  obtains (accepted) pre j post s' R' where "\<not> sending s c" "C c = pre @ j # post" "wanted src j"
      "\<forall>k\<in>set pre. \<not> wanted src k" "mini_rec c src m s = Done (OK, s')"
      "kernel_inv R' (C(c := pre @ post)) H s'" "off_queues s' = off_queues (accepted c pre j m s)"
      "proc_ptr s' = proc_ptr s"
  | (interrupted) "\<not> sending s c" "\<forall>k\<in>set (C c). \<not> wanted src k" "p_int_blocked (procs s c)" "isrxhardware src"
      "mini_rec c src m s = Done (OK, upd_proc c (p_int_blocked_update (\<lambda>_. False))
         (upd_mem (put_int (m + off_type) HARD_INT) (upd_mem (put_int (m + off_source) HARDWARE) s)))"
      "kernel_inv R C H (upd_proc c (p_int_blocked_update (\<lambda>_. False))
         (upd_mem (put_int (m + off_type) HARD_INT) (upd_mem (put_int (m + off_source) HARDWARE) s)))"
  | (blocked) s1 s' R' where "\<not> sending s c \<Longrightarrow> \<forall>k\<in>set (C c). \<not> wanted src k"
      "mini_rec c src m s = Done (OK, s')" "kernel_inv R' C H s'" "blocked_receiving c src m s s1"
      "if sig_procs s > 0 \<and> c = 9 \<and> src = ANY then informed s1 s' else s' = s1"
      "\<not> sending s c \<Longrightarrow> \<not> (p_int_blocked (procs s c) \<and> isrxhardware src)"
proof -
  have inv0: "core_inv R C H s" and sig0: "signals_ok s" using inv by (simp_all add: kernel_inv_def)
  note D = core_invD [OF inv0]
  have nr: "p_nr (procs s k) = int k - NR_TASKS" if "k \<in> set (C c)" for k
    using callers_okD(2) [OF D(6) c(1) that] slots_nr [OF D(10)] by simp
  have ch: "chain (sendlink (procs s)) (p_callerq (procs s c)) (C c)" and len: "length (C c) \<le> NR_SLOTS"
    using callers_okD [OF D(6) c(1)] by simp_all
  consider (snd) "sending s c"
    | (acc) "\<not> sending s c" "\<exists>j\<in>set (C c). wanted src j"
    | (int) "\<not> sending s c" "\<forall>j\<in>set (C c). \<not> wanted src j" "p_int_blocked (procs s c)" "isrxhardware src"
    | (blk) "\<not> sending s c" "\<forall>j\<in>set (C c). \<not> wanted src j" "\<not> (p_int_blocked (procs s c) \<and> isrxhardware src)"
    by blast
  then show thesis
  proof cases
    case snd
    obtain s1 s' R' where b: "rec_block c src m s = Done s'" "kernel_inv R' C H s'" "blocked_receiving c src m s s1"
      "if sig_procs s > 0 \<and> c = 9 \<and> src = ANY then informed s1 s' else s' = s1"
      using rec_block_inv [OF inv c, of src m] snd both by blast
    have "mini_rec c src m s = Done (OK, s')" using snd b(1) by (simp add: mini_rec_def sending_def)
    then show ?thesis using blocked [of s' R' s1] b snd by blast
  next
    case acc
    then obtain pre j post where split: "C c = pre @ j # post" "wanted src j" "\<forall>k\<in>set pre. \<not> wanted src k"
      using split_list_first_prop [of "C c" "wanted src"] by blast
    have "rec_scan NR_SLOTS src None (p_callerq (procs s c)) s =
          Done (Some (if pre = [] then None else Some (last pre), j))"
      by (rule rec_scan_found [where post = post]) (use ch len nr split in auto)
    moreover obtain s' R' where s': "rec_accept c (if pre = [] then None else Some (last pre)) j m s = Done s'"
      "core_inv R' (C(c := pre @ post)) H s'" "off_queues s' = off_queues (accepted c pre j m s)"
      "proc_ptr s' = proc_ptr s"
      using rec_accept_inv [OF inv0 c(1,3) acc(1) split(1), of m] by blast
    ultimately have "mini_rec c src m s = Done (OK, s')"
      using acc(1) by (simp add: mini_rec_def sending_def)
    moreover have "signals_ok s'"
      by (rule signals_ok_flags [OF sig0])
        (auto simp: off_projs [OF s'(3)] off_queues_fields [OF s'(3)] accepted_fields flag_simps)
    ultimately show ?thesis using accepted [OF acc(1) split(1,2,3)] s' by (simp add: kernel_inv_def)
  next
    case int
    have scan: "rec_scan NR_SLOTS src None (p_callerq (procs s c)) s = Done None"
      by (rule rec_scan_none [OF ch len nr]) (use int in auto)
    define s1 where "s1 = upd_mem (put_int (m + off_type) HARD_INT) (upd_mem (put_int (m + off_source) HARDWARE) s)"
    define s2 where "s2 = upd_proc c (p_int_blocked_update (\<lambda>_. False)) s1"
    have "sched_inv R s2" by (rule sched_inv_same [OF D(1)]) (auto simp: s2_def s1_def runnable_def)
    moreover have "rest_inv C H s2"
    proof -
      have "rest_part s1 = rest_part s" by (simp add: s1_def)
      then have "rest_inv C H s1" using D(2) rest_inv_same by blast
      then show ?thesis unfolding s2_def by (rule rest_inv_int_blocked) simp
    qed
    moreover have "signals_ok s2" by (rule signals_ok_same [OF sig0]) (auto simp: s2_def s1_def)
    ultimately have "kernel_inv R C H s2" by (simp add: kernel_inv_def core_inv_def)
    then show ?thesis using interrupted [OF int] int(1,3,4) scan
      by (simp add: mini_rec_def sending_def s2_def s1_def)
  next
    case blk
    have scan: "rec_scan NR_SLOTS src None (p_callerq (procs s c)) s = Done None"
      by (rule rec_scan_none [OF ch len nr]) (use blk in auto)
    obtain s1 s' R' where b: "rec_block c src m s = Done s'" "kernel_inv R' C H s'" "blocked_receiving c src m s s1"
      "if sig_procs s > 0 \<and> c = 9 \<and> src = ANY then informed s1 s' else s' = s1"
      using rec_block_inv [OF inv c, of src m] blk both by blast
    have "mini_rec c src m s = Done (OK, s')" using blk b(1) scan by (auto simp: mini_rec_def sending_def)
    then show ?thesis using blocked [of s' R' s1] b blk by blast
  qed
qed

end
