(* ===== verification/Kernel_Call.thy ===== *)
theory Kernel_Call
  imports Kernel_Msg
begin

section \<open>Kernel: system calls and interrupts\<close>

text \<open>
  The two entry points of kernel/proc.c from outside: a process making a system call, and an
  interrupt handler waking a task, with the queue of interrupts held up while the kernel was
  busy.
\<close>

unbundle bit_operations_syntax

lemma delivered_inv_signals:
  assumes "signals_ok s" and "off_queues s' = off_queues (delivered c d m s)"
  shows "signals_ok s'"
  by (rule signals_ok_flags [OF assms(1)])
    (auto simp: off_projs [OF assms(2)] off_queues_fields [OF assms(2)] delivered_fields flag_simps)

subsection \<open>System calls\<close>

text \<open>The guard on the caller: it is a running process, and only users are checked, so a
  task or server must not send to \<open>ANY\<close>.\<close>

definition call_ok :: "int \<Rightarrow> int \<Rightarrow> kstate \<Rightarrow> bool" where
  "call_ok function src_dest s \<longleftrightarrow> proc_ptr s < NR_SLOTS \<and> p_flags (procs s (proc_ptr s)) = 0 \<and>
     proc_ptr s \<noteq> cproc_addr IDLE \<and> proc_ptr s \<noteq> cproc_addr HARDWARE \<and>
     (function AND SEND \<noteq> 0 \<and> src_dest = ANY \<longrightarrow> isuserp (proc_ptr s))"

lemma isoksrc_slot: "isoksrc_dest n \<Longrightarrow> n \<noteq> ANY \<Longrightarrow> \<exists>d<NR_SLOTS. n = int d - NR_TASKS"
proof -
  assume "isoksrc_dest n" "n \<noteq> ANY"
  then have "0 \<le> n + NR_TASKS" "n + NR_TASKS < 41" by (simp_all add: isoksrc_dest_def isokprocn_def)
  then show ?thesis by (intro exI [of _ "nat (n + NR_TASKS)"]) simp
qed

lemma mini_send_any_user:
  "isuserp c \<Longrightarrow> mini_send c ANY m s = Done (E_BAD_DEST, s)"
  by (simp add: mini_send_def isservn_def)

lemma blocked_sending_signals:
  assumes "signals_ok s" and "p_flags (procs s c) = 0" and "blocked_sending c m s s'"
  shows "signals_ok s'"
  using assms by (intro signals_ok_flags [OF assms(1)]) (auto simp: blocked_sending_def)

text \<open>What a completed call has done: the send half, then the receive half.\<close>

lemma sys_call_send:
  assumes inv: "kernel_inv R C H s" and c: "c < NR_SLOTS" "p_flags (procs s c) = 0" "c \<noteq> 1" "c \<noteq> 8"
    and d: "d < NR_SLOTS"
  shows "\<exists>n s' R' C'. mini_send c (int d - NR_TASKS) m s = Done (n, s') \<and> kernel_inv R' C' H s' \<and>
           (n \<noteq> OK \<longrightarrow> s' = s) \<and>
           (if sending s' c then c \<in> set (C' d) else p_flags (procs s' c) = 0)"
proof -
  have inv0: "core_inv R C H s" and sig0: "signals_ok s" using inv by (simp_all add: kernel_inv_def)
  have ns: "\<not> sending s c" using c by (simp add: sending_def)
  from inv0 c(1-3) d show ?thesis
  proof (rule mini_send_cases [where m = m])
    show "c = 8 \<Longrightarrow> waiting s d \<and> accepts s d c" using c by simp
  next
    assume "send_error C c d m s \<noteq> OK"
      "mini_send c (int d - NR_TASKS) m s = Done (send_error C c d m s, s)"
    then show ?thesis using inv ns c(2)
      by (intro exI [of _ "send_error C c d m s"] exI [of _ s] exI [of _ R] exI [of _ C]) simp
  next
    fix s' R' assume a: "waiting s d" "mini_send c (int d - NR_TASKS) m s = Done (OK, s')"
      "core_inv R' C H s'" "off_queues s' = off_queues (delivered c d m s)"
    have "c \<noteq> d" using a(1) c(2) by (auto simp: waiting_def receiving_def)
    then have f: "p_flags (procs s' c) = 0"
      using c(2) by (simp add: off_projs [OF a(4)] delivered_fields)
    then have "\<not> sending s' c" by (simp add: sending_def)
    moreover have "kernel_inv R' C H s'"
      using a(3) delivered_inv_signals [OF sig0 a(4)] by (simp add: kernel_inv_def)
    ultimately show ?thesis using a(2) f
      by (intro exI [of _ OK] exI [of _ s'] exI [of _ R'] exI [of _ C]) simp
  next
    fix s' R' assume a: "mini_send c (int d - NR_TASKS) m s = Done (OK, s')"
      "core_inv R' (C(d := C d @ [c])) H s'" "blocked_sending c m s s'"
    have "sending s' c" using a(3) by (simp add: sending_def blocked_sending_def)
    moreover have "kernel_inv R' (C(d := C d @ [c])) H s'"
      using a(2) blocked_sending_signals [OF sig0 c(2) a(3)] by (simp add: kernel_inv_def)
    ultimately show ?thesis using a(1)
      by (intro exI [of _ OK] exI [of _ s'] exI [of _ R'] exI [of _ "C(d := C d @ [c])"]) simp
  qed
qed

lemma mini_rec_inv:
  assumes inv: "kernel_inv R C H s" and c: "c < NR_SLOTS" "c \<noteq> 1" "c \<noteq> 8"
    and both: "sending s c \<Longrightarrow> \<exists>d<NR_SLOTS. src = int d - NR_TASKS \<and> c \<in> set (C d)"
  shows "\<exists>s' R' C'. mini_rec c src m s = Done (OK, s') \<and> kernel_inv R' C' H s'"
  using inv c both by (rule mini_rec_cases [where m = m]) blast+

lemma sys_call_inv:
  assumes ok: "kernel_ok s" and call: "call_ok function src_dest s"
  shows "\<exists>n s'. sys_call function src_dest m s = Done (n, s') \<and> kernel_ok s'"
proof -
  define c where "c = proc_ptr s"
  have c: "c < NR_SLOTS" "p_flags (procs s c) = 0" "c \<noteq> 1" "c \<noteq> 8"
    using call by (simp_all add: call_ok_def c_def)
  note inv = kernel_okD [OF ok]
  have ns: "\<not> sending s c" using c by (simp add: sending_def)
  consider (bad) "\<not> isoksrc_dest src_dest" | (perm) "isoksrc_dest src_dest" "function \<noteq> BOTH" "isuserp c"
    | (recv) "isoksrc_dest src_dest" "function AND SEND = 0" "\<not> (function \<noteq> BOTH \<and> isuserp c)"
    | (any) "src_dest = ANY" "function AND SEND \<noteq> 0" "isuserp c" "function = BOTH"
    | (send) "isoksrc_dest src_dest" "function AND SEND \<noteq> 0" "\<not> (function \<noteq> BOTH \<and> isuserp c)" "src_dest \<noteq> ANY"
    using call by (auto simp: call_ok_def c_def)
  then show ?thesis
  proof cases
    case bad
    then show ?thesis using ok by (simp add: sys_call_def)
  next
    case perm
    then show ?thesis using ok by (simp add: sys_call_def c_def)
  next
    case recv
    then have "sys_call function src_dest m s = mini_rec c src_dest m s"
      by (auto simp: sys_call_def c_def Let_def)
    then show ?thesis
      using mini_rec_inv [OF inv c(1,3,4), of src_dest m] ns kernel_okI by auto
  next
    case any
    then have "sys_call function src_dest m s = Done (E_BAD_DEST, s)"
      by (simp add: sys_call_def isoksrc_dest_def mini_send_any_user Let_def c_def)
    then show ?thesis using ok by simp
  next
    case send
    obtain d where d: "d < NR_SLOTS" "src_dest = int d - NR_TASKS"
      using isoksrc_slot [OF send(1,4)] by blast
    obtain n s1 R' C' where s1: "mini_send c src_dest m s = Done (n, s1)" "kernel_inv R' C' (held s) s1"
      "if sending s1 c then c \<in> set (C' d) else p_flags (procs s1 c) = 0"
      using sys_call_send [OF inv c d(1), of m] d(2) by blast
    have eq: "sys_call function src_dest m s =
        (if function = SEND \<or> n \<noteq> OK then Done (n, s1) else mini_rec c src_dest m s1)"
      using send s1(1) by (auto simp: sys_call_def c_def Let_def)
    show ?thesis
    proof (cases "function = SEND \<or> n \<noteq> OK")
      case True
      then show ?thesis using eq s1(2) kernel_okI by auto
    next
      case False
      have "\<exists>d<NR_SLOTS. src_dest = int d - NR_TASKS \<and> c \<in> set (C' d)" if "sending s1 c"
        using s1(3) d that by auto
      then show ?thesis
        using mini_rec_inv [OF s1(2) c(1,3,4), of src_dest m] eq False kernel_okI by auto
    qed
  qed
qed

subsection \<open>Interrupts\<close>

lemma hold_int_inv:
  assumes inv: "kernel_inv R C H s" and t: "t < 9" "t \<noteq> 1" "t \<noteq> 8"
  shows "\<exists>s'. hold_int t s = Done s' \<and> kernel_inv R C (if t \<in> set H then H else H @ [t]) s' \<and>
           (\<forall>i. p_flags (procs s' i) = p_flags (procs s i)) \<and>
           (\<forall>i. p_int_blocked (procs s' i) = p_int_blocked (procs s i)) \<and>
           switching s' = switching s \<and> k_reenter s' = k_reenter s"
proof (cases "t \<in> set H")
  case True
  have "held_ok H s" using inv by (simp add: kernel_inv_def core_inv_def rest_inv_def)
  then have "p_int_held (procs s t)" using True t by (simp add: held_ok_def)
  then show ?thesis using True inv by (auto simp: hold_int_def)
next
  case False
  have hd: "held_ok H s" and inv0: "core_inv R C H s" and sig0: "signals_ok s"
    using inv by (simp_all add: kernel_inv_def core_inv_def rest_inv_def)
  note D = core_invD [OF inv0]
  have nh: "\<not> p_int_held (procs s t)" using hd False t by (simp add: held_ok_def)
  have ch: "chain (nextheld (procs s)) (held_head s) H" and tl: "H \<noteq> [] \<Longrightarrow> held_tail s = Some (last H)"
    using hd by (simp_all add: held_ok_def)
  define s1 where "s1 = upd_proc t (p_int_held_update (\<lambda>_. True)) s"
  define s2 where "s2 = (if H = [] then s1\<lparr>held_head := Some t\<rparr>
                         else upd_proc (last H) (p_nextheld_update (\<lambda>_. Some t)) s1)"
  define s3 where "s3 = upd_proc t (p_nextheld_update (\<lambda>_. None)) (s2\<lparr>held_tail := Some t\<rparr>)"
  have step: "(case held_head s1 of
               Some _ \<Rightarrow> andthen (deref (held_tail s1)) (\<lambda>tl. Done (upd_proc tl (p_nextheld_update (\<lambda>_. Some t)) s1))
             | None \<Rightarrow> Done (s1\<lparr>held_head := Some t\<rparr>)) = Done s2"
    using ch tl by (cases H) (auto simp: s1_def s2_def)
  have run: "hold_int t s = Done s3"
    unfolding hold_int_def Let_def s1_def [symmetric] step andthen.simps s3_def [symmetric]
    using nh by simp
  have same: "p_flags (procs s3 i) = p_flags (procs s i)" "p_callerq (procs s3 i) = p_callerq (procs s i)"
    "sendlink (procs s3) = sendlink (procs s)" "p_getfrom (procs s3 i) = p_getfrom (procs s i)"
    "p_nr (procs s3 i) = p_nr (procs s i)" "p_int_blocked (procs s3 i) = p_int_blocked (procs s i)"
    "mess_ok (procs s3 i) = mess_ok (procs s i)" "p_pending (procs s3 i) = p_pending (procs s i)"
    "p_pendcount (procs s3 i) = p_pendcount (procs s i)"
    "p_int_held (procs s3 i) = (i = t \<or> p_int_held (procs s i))" for i
    by (auto simp: s3_def s2_def s1_def sendlink_def)
  have glob: "sys_m s3 = sys_m s" "sig_procs s3 = sig_procs s" "switching s3 = switching s"
    "k_reenter s3 = k_reenter s" "held_tail s3 = Some t"
    "nextheld (procs s3) = (if H = [] then (nextheld (procs s))(t := None)
                            else (nextheld (procs s))(last H := Some t, t := None))"
    "held_head s3 = (if H = [] then Some t else held_head s)"
    by (auto simp: s3_def s2_def s1_def nextheld_def)
  have "chain (nextheld (procs s3)) (held_head s3) (H @ [t])"
  proof (cases "H = []")
    case True
    then show ?thesis by (simp add: glob)
  next
    case ne: False
    then have split: "H = butlast H @ [last H]" by simp
    have "chain ((nextheld (procs s))(last H := Some t, t := None)) (held_head s) (butlast H @ [last H, t])"
      by (rule chain_append_last) (use ch split False in metis)+
    moreover have "butlast H @ [last H, t] = H @ [t]"
      using split by (metis append.assoc append_Cons append_Nil)
    ultimately show ?thesis using ne by (simp add: glob)
  qed
  then have "held_ok (H @ [t]) s3" using hd t unfolding held_ok_def by (auto simp: glob same)
  moreover have st: "sending s3 = sending s" "receiving s3 = receiving s" "accepts s3 = accepts s"
    "waiting s3 = waiting s"
    by (simp_all add: fun_eq_iff sending_def receiving_def accepts_def waiting_def same)
  ultimately have "rest_inv C (H @ [t]) s3"
    using D(2) by (simp add: rest_inv_def callers_ok_def wait_ok_def ints_ok_def slots_ok_def same glob)
  moreover have "sched_inv R s3"
    by (rule sched_inv_same [OF D(1)]) (simp_all add: runnable_def same, simp add: s3_def s2_def s1_def)
  moreover have "signals_ok s3" by (rule signals_ok_same [OF sig0]) (simp_all add: same glob)
  ultimately show ?thesis using run False
    by (intro exI [of _ s3]) (simp add: kernel_inv_def core_inv_def same glob)
qed

lemma task_flags:
  assumes "slots_ok s" and "waiting s t" and "t < 11"
  shows "p_flags (procs s t) AND NOT RECEIVING = 0"
proof -
  have z: "p_flags (procs s t) AND NOT (SENDING OR RECEIVING) = 0" using assms(1,3) by (simp add: slots_ok_def)
  have s: "p_flags (procs s t) AND SENDING = 0" using assms(2) by (simp add: waiting_def sending_def)
  have "NOT RECEIVING = NOT (SENDING OR RECEIVING) OR SENDING" by simp
  then have "p_flags (procs s t) AND NOT RECEIVING =
        (p_flags (procs s t) AND NOT (SENDING OR RECEIVING)) OR (p_flags (procs s t) AND SENDING)"
    by (simp only: bit.conj_disj_distrib)
  then show ?thesis using z s by simp
qed

text \<open>What an interrupt does when the kernel is idle: the task is woken by a HARD\_INT
  message, or the interrupt is remembered.\<close>

definition hard_int_msg :: "nat \<Rightarrow> kstate \<Rightarrow> addr \<Rightarrow> 8 word" where
  "hard_int_msg t s = put_int (p_messbuf (procs s t) + off_type) HARD_INT
     (put_int (p_messbuf (procs s t) + off_source) HARDWARE (kmem s))"

definition int_taken :: "nat \<Rightarrow> kstate \<Rightarrow> kstate \<Rightarrow> bool" where
  "int_taken t s s' \<longleftrightarrow>
     (if waiting s t \<and> isrxhardware (p_getfrom (procs s t))
      then runnable s' t \<and> kmem s' = hard_int_msg t s
      else p_int_blocked (procs s' t) \<and> kmem s' = kmem s \<and> p_flags (procs s' t) = p_flags (procs s t)) \<and>
     (\<forall>i. i \<noteq> t \<longrightarrow> p_flags (procs s' i) = p_flags (procs s i) \<and>
                     p_int_blocked (procs s' i) = p_int_blocked (procs s i))"

lemma interrupt_now_inv:
  assumes inv: "kernel_inv R C H s" and t: "t < 9" "t \<noteq> 1" "t \<noteq> 8"
    and idle: "k_reenter s = 0" "\<not> switching s"
  shows "\<exists>s' R'. interrupt (int t - NR_TASKS) s = Done s' \<and> kernel_inv R' C H s' \<and> int_taken t s s' \<and>
           k_reenter s' = 0 \<and> \<not> switching s' \<and> held_head s' = held_head s \<and> proc_ptr s' = proc_ptr s"
proof -
  have inv0: "core_inv R C H s" and sig0: "signals_ok s" using inv by (simp_all add: kernel_inv_def)
  note D = core_invD [OF inv0]
  have pa: "proc_addr (int t - NR_TASKS) = Done t" using t by (intro proc_addr_slot) simp
  have cond: "(p_flags (procs s t) AND (RECEIVING OR SENDING)) \<noteq> RECEIVING \<longleftrightarrow> \<not> waiting s t"
    using send_recv_bits [of "p_flags (procs s t)"] unfolding waiting_def sending_def receiving_def by blast
  show ?thesis
  proof (cases "waiting s t \<and> isrxhardware (p_getfrom (procs s t))")
    case False
    define s1 where "s1 = upd_proc t (p_int_blocked_update (\<lambda>_. True)) s"
    have "interrupt (int t - NR_TASKS) s = Done s1"
      unfolding interrupt_def pa andthen.simps cond s1_def using idle False by auto
    moreover have "rest_inv C H s1" unfolding s1_def
      by (rule rest_inv_int_blocked [OF D(2)]) (use False in blast)
    moreover have "sched_inv R s1" by (rule sched_inv_same [OF D(1)]) (auto simp: s1_def runnable_def)
    moreover have "signals_ok s1" by (rule signals_ok_same [OF sig0]) (auto simp: s1_def)
    ultimately show ?thesis using False idle
      by (intro exI [of _ s1] exI [of _ R])
        (auto simp: kernel_inv_def core_inv_def int_taken_def s1_def)
  next
    case True
    define s1 where "s1 = upd_mem (put_int (p_messbuf (procs s t) + off_source) HARDWARE) s"
    define s2 where "s2 = upd_mem (put_int (p_messbuf (procs s1 t) + off_type) HARD_INT) s1"
    define s3 where "s3 = upd_proc t (p_flags_update (\<lambda>f. f AND NOT RECEIVING)) s2"
    define s4 where "s4 = upd_proc t (p_int_blocked_update (\<lambda>_. False)) s3"
    have eq: "interrupt (int t - NR_TASKS) s = rdy_append TASK_Q t s4"
      unfolding interrupt_def pa andthen.simps Let_def s1_def [symmetric] s2_def [symmetric]
        s3_def [symmetric] s4_def [symmetric] cond using idle True by simp
    have fl: "p_flags (procs s4 i) = (if i = t then 0 else p_flags (procs s i))" for i
      using task_flags [OF D(10), of t] True t by (simp add: s4_def s3_def s2_def s1_def)
    have nr: "\<not> runnable s t" using True by (auto simp: waiting_def receiving_def runnable_def)
    have part: "sched_part s4 = sched_part s" by (simp add: s4_def s3_def s2_def s1_def)
    have q: "queue_of s4 t = TASK_Q" using t by (simp add: queue_of_def istaskp_def)
    have R4: "ready_lists R s4" "current_ok R s4" "queue_of s4 = queue_of s"
      using D by (simp_all add: sched_part_lists [OF part])
    have run4: "runnable s4 i = (i = t \<or> runnable s i)" for i
      using t by (auto simp: runnable_def fl)
    have ex4: "exact_but t R s4" using D(4) by (simp add: exact_but_def ready_exact_def R4 run4)
    have "t \<in> set (R (queue_of s t)) \<longleftrightarrow> runnable s t" using D(4) t by (simp add: ready_exact_def)
    then have ni: "t \<notin> set (R TASK_Q)" using nr q R4(3) by simp
    obtain s5 where s5: "rdy_append TASK_Q t s4 = Done s5" "ready_lists (R(TASK_Q := R TASK_Q @ [t])) s5"
      "off_queues s5 = off_queues s4" "proc_ptr s5 = proc_ptr s4" "switching s5 = switching s4"
      using rdy_append_lists [OF R4(1), of TASK_Q t] q ni t by auto
    have sch5: "sched_inv (R(TASK_Q := R TASK_Q @ [t])) s5"
      using sched_append [OF R4(2) ex4, of s5] s5 run4 q by simp
    have "rest_part s2 = rest_part s" by (simp add: s2_def s1_def)
    then have "rest_inv C H s2" using D(2) rest_inv_same by blast
    then have "rest_inv C H s3" unfolding s3_def by (rule rest_inv_clear_receiving) (use t in simp)
    then have "rest_inv C H s4" unfolding s4_def by (rule rest_inv_int_blocked) simp
    then have "rest_inv C H s5" by (rule rest_inv_off_part [OF _ s5(3)])
    moreover have "signals_ok s5"
    proof (rule signals_ok_flags [OF sig0])
      fix i
      have "p_flags (procs s t) AND PENDING = 0" "p_flags (procs s t) AND SIG_PENDING = 0"
        using server_flags [OF D(10), of t] t by simp_all
      then show "p_flags (procs s5 i) AND PENDING = p_flags (procs s i) AND PENDING"
        "p_flags (procs s5 i) AND SIG_PENDING = p_flags (procs s i) AND SIG_PENDING"
        by (simp_all add: off_projs [OF s5(3)] fl)
    qed (auto simp: off_projs [OF s5(3)] off_queues_fields [OF s5(3)] s4_def s3_def s2_def s1_def)
    moreover have "int_taken t s s5"
      using True run4 unfolding int_taken_def
      by (simp add: off_states [OF s5(3)] off_projs [OF s5(3)] off_queues_fields [OF s5(3)] fl)
        (simp add: hard_int_msg_def s4_def s3_def s2_def s1_def)
    ultimately show ?thesis using eq s5 sch5 idle
      by (intro exI [of _ s5] exI [of _ "R(TASK_Q := R TASK_Q @ [t])"])
        (simp add: kernel_inv_def core_inv_def off_queues_fields [OF s5(3)], simp add: s4_def s3_def s2_def s1_def)
  qed
qed

text \<open>The held interrupts are replayed in order.\<close>

lemma unhold_head:
  assumes inv: "kernel_inv R C (t # H) s"
  defines "s1 \<equiv> s\<lparr>held_head := p_nextheld (procs s t)\<rparr>"
  defines "s2 \<equiv> (if held_head s1 = None then s1\<lparr>held_tail := None\<rparr> else s1)"
  defines "s3 \<equiv> upd_proc t (p_int_held_update (\<lambda>_. False)) s2"
  shows "kernel_inv R C H s3" "p_nr (procs s3 t) = int t - NR_TASKS" "held_head s3 = first_of H"
    "\<And>i. p_flags (procs s3 i) = p_flags (procs s i)" "\<And>i. p_int_blocked (procs s3 i) = p_int_blocked (procs s i)"
    "k_reenter s3 = k_reenter s" "switching s3 = switching s" "t < 9" "t \<noteq> 1" "t \<noteq> 8"
proof -
  have inv0: "core_inv R C (t # H) s" and sig0: "signals_ok s" using inv by (simp_all add: kernel_inv_def)
  note D = core_invD [OF inv0]
  show t: "t < 9" "t \<noteq> 1" "t \<noteq> 8" using D(9) by (simp_all add: held_ok_def)
  have ch: "held_head s = Some t" "chain (nextheld (procs s)) (p_nextheld (procs s t)) H"
    using D(9) by (simp_all add: held_ok_def nextheld_def)
  then have hd: "p_nextheld (procs s t) = first_of H" using chain_first by blast
  have d: "t \<notin> set H" using chain_distinct [of "nextheld (procs s)" "held_head s" "t # H"] ch
    by (simp add: nextheld_def)
  have fo: "first_of H = None \<longleftrightarrow> H = []" by (cases H) auto
  have same: "p_flags (procs s3 i) = p_flags (procs s i)" "p_callerq (procs s3 i) = p_callerq (procs s i)"
    "sendlink (procs s3) = sendlink (procs s)" "p_getfrom (procs s3 i) = p_getfrom (procs s i)"
    "p_nr (procs s3 i) = p_nr (procs s i)" "p_int_blocked (procs s3 i) = p_int_blocked (procs s i)"
    "mess_ok (procs s3 i) = mess_ok (procs s i)" "p_pending (procs s3 i) = p_pending (procs s i)"
    "p_pendcount (procs s3 i) = p_pendcount (procs s i)"
    "p_int_held (procs s3 i) = (i \<noteq> t \<and> p_int_held (procs s i))" for i
    by (auto simp: s3_def s2_def s1_def sendlink_def)
  have glob: "sys_m s3 = sys_m s" "sig_procs s3 = sig_procs s" "switching s3 = switching s"
    "k_reenter s3 = k_reenter s" "held_tail s3 = (if H = [] then None else held_tail s)"
    "nextheld (procs s3) = nextheld (procs s)" "held_head s3 = first_of H"
    using hd fo by (auto simp: s3_def s2_def s1_def nextheld_def)
  have st: "sending s3 = sending s" "receiving s3 = receiving s" "accepts s3 = accepts s"
    "waiting s3 = waiting s"
    by (simp_all add: fun_eq_iff sending_def receiving_def accepts_def waiting_def same)
  have "held_ok H s3" using D(9) ch hd d by (auto simp: held_ok_def glob same nextheld_def)
  then have "rest_inv C H s3"
    using D(2) by (simp add: rest_inv_def callers_ok_def wait_ok_def ints_ok_def slots_ok_def same glob st)
  moreover have "sched_inv R s3"
    by (rule sched_inv_same [OF D(1)]) (simp_all add: runnable_def same, simp add: s3_def s2_def s1_def)
  moreover have "signals_ok s3" by (rule signals_ok_same [OF sig0]) (simp_all add: same glob)
  ultimately show "kernel_inv R C H s3" by (simp add: kernel_inv_def core_inv_def)
  show "p_nr (procs s3 t) = int t - NR_TASKS" using slots_nr [OF D(10), of t] t by (simp add: same)
  show "held_head s3 = first_of H" "\<And>i. p_flags (procs s3 i) = p_flags (procs s i)"
    "\<And>i. p_int_blocked (procs s3 i) = p_int_blocked (procs s i)" "k_reenter s3 = k_reenter s"
    "switching s3 = switching s"
    by (simp_all add: glob same)
qed

lemma unhold_loop_inv:
  assumes "kernel_inv R C H s" and "k_reenter s = 0" and "\<not> switching s" and "length H \<le> n"
  shows "\<exists>s' R'. unhold_loop n (first_of H) s = Done s' \<and> kernel_inv R' C [] s' \<and>
           (\<forall>t\<in>set H. p_int_blocked (procs s' t) \<or> runnable s' t) \<and>
           (\<forall>i. p_int_blocked (procs s i) \<longrightarrow> i \<notin> set H \<longrightarrow> p_int_blocked (procs s' i)) \<and>
           (\<forall>i. i \<notin> set H \<longrightarrow> p_flags (procs s' i) = p_flags (procs s i))"
  using assms
proof (induction H arbitrary: s R n)
  case Nil
  then show ?case by (intro exI [of _ s] exI [of _ R]) simp
next
  case (Cons t H)
  obtain n' where n: "n = Suc n'" using Cons.prems(4) by (cases n) auto
  define s1 where "s1 = s\<lparr>held_head := p_nextheld (procs s t)\<rparr>"
  define s2 where "s2 = (if held_head s1 = None then s1\<lparr>held_tail := None\<rparr> else s1)"
  define s3 where "s3 = upd_proc t (p_int_held_update (\<lambda>_. False)) s2"
  note h = unhold_head [OF Cons.prems(1), folded s1_def, folded s2_def, folded s3_def]
  have d: "t \<notin> set H"
    using Cons.prems(1) chain_distinct [of "nextheld (procs s)" "held_head s" "t # H"]
    by (simp add: kernel_inv_def core_inv_def rest_inv_def held_ok_def)
  obtain s4 R4 where s4: "interrupt (int t - NR_TASKS) s3 = Done s4" "kernel_inv R4 C H s4" "int_taken t s3 s4"
    "k_reenter s4 = 0" "\<not> switching s4" "held_head s4 = held_head s3"
    using interrupt_now_inv [OF h(1) h(8-10)] Cons.prems h by auto
  obtain s5 R5 where s5: "unhold_loop n' (first_of H) s4 = Done s5" "kernel_inv R5 C [] s5"
    "\<forall>u\<in>set H. p_int_blocked (procs s5 u) \<or> runnable s5 u"
    "\<forall>i. p_int_blocked (procs s4 i) \<longrightarrow> i \<notin> set H \<longrightarrow> p_int_blocked (procs s5 i)"
    "\<forall>i. i \<notin> set H \<longrightarrow> p_flags (procs s5 i) = p_flags (procs s4 i)"
    using Cons.IH [OF s4(2,4,5), of n'] Cons.prems n by auto
  have "unhold_loop n (first_of (t # H)) s = unhold_loop n' (held_head s4) s4"
    unfolding n first_of_simps unhold_loop.simps Let_def s1_def [symmetric] s2_def [symmetric]
      s3_def [symmetric] h(2) s4(1) andthen.simps by (rule refl)
  then have "unhold_loop n (first_of (t # H)) s = Done s5" using s5(1) s4(6) h(3) by simp
  moreover have "p_int_blocked (procs s5 t) \<or> runnable s5 t"
    using s4(3) s5(4,5) d h(9,10) by (auto simp: int_taken_def runnable_def split: if_splits)
  moreover have "\<forall>i. p_int_blocked (procs s i) \<longrightarrow> i \<notin> set (t # H) \<longrightarrow> p_int_blocked (procs s5 i)"
    using s4(3) s5(4) h(5) by (auto simp: int_taken_def)
  moreover have "\<forall>i. i \<notin> set (t # H) \<longrightarrow> p_flags (procs s5 i) = p_flags (procs s i)"
    using s4(3) s5(5) h(4) by (auto simp: int_taken_def)
  ultimately show ?case using s5 by (intro exI [of _ s5] exI [of _ R5]) auto
qed

subsection \<open>Interrupts on consistent tables\<close>

lemma interrupt_inv:
  assumes ok: "kernel_ok s" and t: "t < 9" "t \<noteq> 1" "t \<noteq> 8"
  shows "\<exists>s'. interrupt (int t - NR_TASKS) s = Done s' \<and> kernel_ok s' \<and>
           (if k_reenter s \<noteq> 0 \<or> switching s
            then held s' = (if t \<in> set (held s) then held s else held s @ [t])
            else held s' = held s \<and> int_taken t s s')"
proof (cases "k_reenter s \<noteq> 0 \<or> switching s")
  case True
  have pa: "proc_addr (int t - NR_TASKS) = Done t" using t by (intro proc_addr_slot) simp
  obtain s' where s': "hold_int t s = Done s'"
    "kernel_inv (ready_q s) (callers s) (if t \<in> set (held s) then held s else held s @ [t]) s'"
    using hold_int_inv [OF kernel_okD [OF ok] t] by blast
  have "interrupt (int t - NR_TASKS) s = Done s'"
    unfolding interrupt_def pa andthen.simps using True s'(1) by simp
  then show ?thesis using True s'(2) kernel_okI kernel_inv_lists(3) by auto
next
  case False
  then show ?thesis
    using interrupt_now_inv [OF kernel_okD [OF ok] t] kernel_okI kernel_inv_lists(3) by metis
qed

lemma unhold_inv:
  assumes ok: "kernel_ok s" and idle: "k_reenter s = 0" "\<not> switching s" and some: "held s \<noteq> []"
  shows "\<exists>s'. unhold s = Done s' \<and> kernel_ok s' \<and> held s' = [] \<and>
           (\<forall>t\<in>set (held s). p_int_blocked (procs s' t) \<or> runnable s' t)"
proof -
  note inv = kernel_okD [OF ok]
  have h: "held_ok (held s) s" using inv by (simp add: kernel_inv_def core_inv_def rest_inv_def)
  then have hd: "held_head s = first_of (held s)" using chain_first by (auto simp: held_ok_def)
  have len: "length (held s) \<le> NR_SLOTS"
    using h by (intro chain_length [of "nextheld (procs s)" "held_head s"]) (auto simp: held_ok_def)
  obtain s' R' where s': "unhold_loop NR_SLOTS (first_of (held s)) s = Done s'" "kernel_inv R' (callers s) [] s'"
    "\<forall>t\<in>set (held s). p_int_blocked (procs s' t) \<or> runnable s' t"
    using unhold_loop_inv [OF inv idle len] by blast
  have "first_of (held s) \<noteq> None" using some by (cases "held s") auto
  then have "unhold s = Done s'" using s'(1) idle hd by (auto simp: unhold_def)
  then show ?thesis using s' kernel_okI kernel_inv_lists(3) by metis
qed

end
