(* ===== verification/Kernel_System.thy ===== *)
theory Kernel_System
  imports Kernel_Call "HOL-Library.Signed_Division"
begin

section \<open>Kernel: the system task\<close>

text \<open>
  kernel/system.c and kernel/stshadow.c: the requests of the memory manager and the file
  system, and the shadow images with which fork works on a machine that cannot relocate.
  A handler gets the address of the request message and reads and writes its fields in
  memory; its result is the value of \<open>m_type\<close> in the reply.
\<close>

unbundle bit_operations_syntax

abbreviation (input) "E_BAD_FCN \<equiv> (-9::int)"
abbreviation (input) "EIO \<equiv> (-5::int)"
abbreviation (input) "EFAULT \<equiv> (-14::int)"
abbreviation (input) "TRACEBIT \<equiv> (0x8000::u16)"
abbreviation (input) "SIG_PUSH_BYTES \<equiv> (8::addr)"
abbreviation (input) "SIGTRAP \<equiv> (5::int)"
abbreviation (input) "SIGALRM \<equiv> (14::int)"

subsection \<open>Shadow images\<close>

definition image_clicks :: "proc \<Rightarrow> u16" where
  "image_clicks p = mem_phys (p_map p seg_S) - mem_phys (p_map p seg_D) + mem_len (p_map p seg_S)"

definition mkshadow :: "nat \<Rightarrow> u16 \<Rightarrow> kstate \<Rightarrow> kstate" where
  "mkshadow p c2 s =
     (let c1 = (if p_shadow (procs s p) \<noteq> 0 then p_shadow (procs s p)
                else mem_phys (p_map (procs s p) seg_D));
          s = upd_proc p (p_shadow_update (\<lambda>_. c2)) s;
          nc = image_clicks (procs s p);
          s = upd_mem (copyclicks c1 c2 nc) s
      in s\<lparr>flipwait := 5\<rparr>)"

text \<open>Another process in the same place as \<open>p\<close>.\<close>

definition same_place :: "nat \<Rightarrow> kstate \<Rightarrow> nat \<Rightarrow> bool" where
  "same_place p s q =
     (\<not> (p_flags (procs s q) AND P_SLOT_FREE \<noteq> 0) \<and> q \<noteq> p \<and>
      mem_phys (p_map (procs s q) seg_D) = mem_phys (p_map (procs s p) seg_D))"

definition rmshadow :: "nat \<Rightarrow> kstate \<Rightarrow> ((u16 \<times> u16) \<times> kstate) run" where
  "rmshadow p s =
     (let nc = image_clicks (procs s p) in
      if p_shadow (procs s p) \<noteq> 0 then
        Done ((p_shadow (procs s p), nc), upd_proc p (p_shadow_update (\<lambda>_. 0)) s)
      else
        (case find (same_place p s) (slots_from 11) of
           Some q \<Rightarrow>
             if p_shadow (procs s q) = 0 then Panics ''no shadow?''
             else if p_physio (procs s q) then Panics ''rmshadow: cannot handle physio shadows''
             else
               let base = p_shadow (procs s q);
                   s = upd_mem (copyclicks base (mem_phys (p_map (procs s p) seg_D)) nc) s
               in andthen (if p_flags (procs s q) = 0 then lock_unready q s else Done s) (\<lambda>s.
               let s = upd_proc q (p_shadow_update (\<lambda>_. 0)) s
               in andthen (if p_flags (procs s q) = 0 then lock_ready q s else Done s) (\<lambda>s.
               Done ((base, nc), s)))
         | None \<Rightarrow>
             Done ((mem_phys (p_map (procs s p) seg_T), nc + mem_len (p_map (procs s p) seg_T)), s)))"

definition unshadow :: "nat \<Rightarrow> kstate \<Rightarrow> kstate run" where
  "unshadow p s =
     (if flipwait s \<noteq> 0 then Done (s\<lparr>flipwait := flipwait s - 1\<rparr>)
      else if p_physio (procs s p) then Done s
      else
        (case find (\<lambda>q. same_place p s q \<and> p_shadow (procs s q) = 0) (slots_from 11) of
           None \<Rightarrow> Panics ''only shadow(s)''
         | Some q \<Rightarrow>
             if p_physio (procs s q) then Done s
             else
               let s = upd_mem (flipclicks (p_shadow (procs s p)) (mem_phys (p_map (procs s q) seg_D))
                                 (image_clicks (procs s q))) s;
                   s = s\<lparr>flipwait := 5\<rparr>
               in andthen (lock_unready p s) (\<lambda>s.
               andthen (if p_flags (procs s q) = 0 then lock_unready q s else Done s) (\<lambda>s.
               let s = upd_proc q (p_shadow_update (\<lambda>_. p_shadow (procs s p))) s;
                   s = upd_proc p (p_shadow_update (\<lambda>_. 0)) s
               in andthen (lock_ready p s) (\<lambda>s.
               andthen (if p_flags (procs s q) = 0 then lock_ready q s else Done s) (\<lambda>s.
               let s = upd_proc p (p_nflips_update (\<lambda>n. n + 1)) s
               in Done (upd_proc q (p_nflips_update (\<lambda>n. n + 1)) s)))))))"

subsection \<open>Addresses\<close>

text \<open>Addresses are signed longs, clicks are unsigned 16-bit numbers: the last click is
  truncated, and only the upper end of the segment is checked.\<close>

definition umap :: "proc \<Rightarrow> int \<Rightarrow> addr \<Rightarrow> addr \<Rightarrow> addr" where
  "umap rp seg vir_addr bytes =
     (if sint bytes \<le> 0 then 0
      else
        let vc = ucast (drop_bit CLICK_SHIFT (vir_addr + bytes - 1)) :: u16;
            sg = (if seg \<noteq> 0 then (if vc < mem_vir (p_map rp seg_D) + mem_len (p_map rp seg_D)
                                   then seg_D else seg_S) else seg_T)
        in if sint vir_addr div 256 \<ge> uint (mem_vir (p_map rp sg) + mem_len (p_map rp sg)) then 0
           else if p_shadow rp \<noteq> 0 \<and> sg \<noteq> seg_T
           then vir_addr - click_addr (mem_phys (p_map rp seg_D)) + click_addr (p_shadow rp)
           else vir_addr)"

definition numap :: "int \<Rightarrow> addr \<Rightarrow> addr \<Rightarrow> kstate \<Rightarrow> addr run" where
  "numap proc_nr vir_addr bytes s =
     andthen (proc_addr proc_nr) (\<lambda>rp. Done (umap (procs s rp) 1 vir_addr bytes))"

subsection \<open>Reading the request\<close>

abbreviation "msg_int m_ptr off s \<equiv> get_int (kmem s) (m_ptr + off)"
abbreviation "msg_long m_ptr off s \<equiv> get32 (kmem s) (m_ptr + off)"
abbreviation "msg_byte m_ptr off s \<equiv> kmem s (m_ptr + off)"

definition set_int :: "addr \<Rightarrow> addr \<Rightarrow> int \<Rightarrow> kstate \<Rightarrow> kstate" where
  "set_int m_ptr off v = upd_mem (put_int (m_ptr + off) v)"

definition set_long :: "addr \<Rightarrow> addr \<Rightarrow> addr \<Rightarrow> kstate \<Rightarrow> kstate" where
  "set_long m_ptr off v = upd_mem (put32 (m_ptr + off) v)"

subsection \<open>Process management\<close>

definition forked :: "proc \<Rightarrow> int \<Rightarrow> int \<Rightarrow> proc" where
  "forked rpp nr pid = rpp\<lparr>p_nr := nr,
     p_flags := p_flags rpp AND NOT (PENDING OR SIG_PENDING OR P_STOP),
     p_pending := 0, p_pendcount := 0, p_pid := pid, p_reg := (p_reg rpp)(reg_ret := 0),
     user_time := 0, sys_time := 0, child_utime := 0, child_stime := 0, p_nflips := 0\<rparr>"

definition do_fork :: "addr \<Rightarrow> kstate \<Rightarrow> (int \<times> kstate) run" where
  "do_fork m_ptr s =
     (let proc1 = msg_int m_ptr m1_i1 s; proc2 = msg_int m_ptr m1_i2 s in
      if \<not> isoksusern proc1 \<or> \<not> isoksusern proc2 then Done (E_BAD_PROC, s)
      else
        andthen (proc_addr proc1) (\<lambda>rpp. andthen (proc_addr proc2) (\<lambda>rpc.
        let s = upd_proc rpc (\<lambda>_. forked (procs s rpp) proc2 (msg_int m_ptr m1_i3 s)) s;
            s = mkshadow rpp (ucast (msg_long m_ptr m1_p1 s)) s
        in Done (OK, s))))"

definition read_map :: "addr \<Rightarrow> kstate \<Rightarrow> nat \<Rightarrow> mem_map" where
  "read_map a s seg =
     (let b = a + of_nat (6 * seg)
      in \<lparr>mem_vir = get16 (kmem s) b, mem_phys = get16 (kmem s) (b + 2), mem_len = get16 (kmem s) (b + 4)\<rparr>)"

text \<open>The new map is copied from the caller straight into the process-table entry.\<close>

definition do_newmap :: "addr \<Rightarrow> kstate \<Rightarrow> (int \<times> kstate) run" where
  "do_newmap m_ptr s =
     (let caller = msg_int m_ptr off_source s; k = msg_int m_ptr m1_i1 s in
      if \<not> isokprocn k then Done (E_BAD_PROC, s)
      else
        andthen (proc_addr k) (\<lambda>rp. andthen (proc_addr caller) (\<lambda>rsrc.
        let src_phys = umap (procs s rsrc) 1 (msg_long m_ptr m1_p1 s) 18 in
        if src_phys = 0 then Panics ''bad call to sys_newmap (src)''
        else Done (OK, upd_proc rp (p_map_update
               (\<lambda>old seg. if seg < 3 then read_map src_phys s seg else old seg)) s))))"

definition do_exec :: "addr \<Rightarrow> kstate \<Rightarrow> (int \<times> kstate) run" where
  "do_exec m_ptr s =
     (let sp = msg_long m_ptr m1_p1 s; proc1 = msg_int m_ptr m1_i1 s in
      if \<not> isoksusern proc1 then Done (E_BAD_PROC, s)
      else
        andthen (if msg_int m_ptr m1_i2 s \<noteq> 0 then cause_sig proc1 SIGTRAP s else Done s) (\<lambda>s.
        andthen (proc_addr proc1) (\<lambda>rp.
        let s = upd_proc rp (p_reg_update (\<lambda>r. r(reg_sp := sp))) s;
            s = upd_proc rp (p_splow_update (\<lambda>_. sp)) s;
            pc = click_addr (mem_vir (p_map (procs s rp) seg_T));
            s = upd_proc rp (p_reg_update (\<lambda>r. r(reg_pc := pc))) s;
            s = upd_proc rp (p_alarm_update (\<lambda>_. 0)) s;
            s = upd_proc rp (p_flags_update (\<lambda>f. f AND NOT RECEIVING)) s
        in andthen (if p_flags (procs s rp) = 0 then lock_ready rp s else Done s) (\<lambda>s.
        Done (OK, s)))))"

text \<open>Looking for the dying process \<open>rc\<close> in one caller queue, after its head.\<close>

fun unqueue_scan :: "nat \<Rightarrow> nat \<Rightarrow> nat \<Rightarrow> kstate \<Rightarrow> kstate run" where
  "unqueue_scan 0 np rc s = Stuck"
| "unqueue_scan (Suc n) np rc s =
     (case p_sendlink (procs s np) of
        None \<Rightarrow> Done s
      | Some xp \<Rightarrow>
          if xp = rc then Done (upd_proc np (p_sendlink_update (\<lambda>_. p_sendlink (procs s xp))) s)
          else unqueue_scan n xp rc s)"

text \<open>The loop over all process slots; it stops early only when \<open>rc\<close> heads a queue.\<close>

fun unqueue :: "nat list \<Rightarrow> nat \<Rightarrow> kstate \<Rightarrow> kstate run" where
  "unqueue [] rc s = Done s"
| "unqueue (rp # rps) rc s =
     (case p_callerq (procs s rp) of
        None \<Rightarrow> unqueue rps rc s
      | Some h \<Rightarrow>
          if h = rc then Done (upd_proc rp (p_callerq_update (\<lambda>_. p_sendlink (procs s rc))) s)
          else andthen (unqueue_scan NR_SLOTS h rc s) (unqueue rps rc))"

definition do_xit :: "addr \<Rightarrow> kstate \<Rightarrow> (int \<times> kstate) run" where
  "do_xit m_ptr s =
     (let parent = msg_int m_ptr m1_i1 s; proc_nr = msg_int m_ptr m1_i2 s in
      if \<not> isoksusern parent \<or> \<not> isoksusern proc_nr then Done (E_BAD_PROC, s)
      else
        andthen (proc_addr parent) (\<lambda>rp. andthen (proc_addr proc_nr) (\<lambda>rc.
        let s = upd_proc rp (\<lambda>p. p\<lparr>child_utime := child_utime p + (user_time (procs s rc) + child_utime (procs s rc))\<rparr>) s;
            s = upd_proc rp (\<lambda>p. p\<lparr>child_stime := child_stime p + (sys_time (procs s rc) + child_stime (procs s rc))\<rparr>) s;
            s = upd_proc rc (p_alarm_update (\<lambda>_. 0)) s
        in andthen (if p_flags (procs s rc) = 0 then lock_unready rc s else Done s) (\<lambda>s.
        andthen (rmshadow rc s) (\<lambda>((base, len), s).
        let s = set_int m_ptr m1_i1 (uint base) s;
            s = set_int m_ptr m1_i2 (uint len) s
        in andthen (if p_flags (procs s rc) AND SENDING \<noteq> 0 then unqueue (slots_from 0) rc s else Done s) (\<lambda>s.
        let s = (if p_flags (procs s rc) AND PENDING \<noteq> 0 then s\<lparr>sig_procs := sig_procs s - 1\<rparr> else s);
            s = upd_proc rc (\<lambda>p. p\<lparr>p_pending := 0, p_pendcount := 0, p_flags := P_SLOT_FREE\<rparr>) s
        in Done (OK, s)))))))"

definition do_getsp :: "addr \<Rightarrow> kstate \<Rightarrow> (int \<times> kstate) run" where
  "do_getsp m_ptr s =
     (let proc1 = msg_int m_ptr m1_i1 s in
      if \<not> isoksusern proc1 then Done (E_BAD_PROC, s)
      else andthen (proc_addr proc1) (\<lambda>rp.
        Done (OK, set_long (sys_m s) m1_p1 (p_reg (procs s rp) reg_sp) s)))"

definition do_times :: "addr \<Rightarrow> kstate \<Rightarrow> (int \<times> kstate) run" where
  "do_times m_ptr s =
     (let proc1 = msg_int m_ptr m1_i1 s in
      if \<not> isoksusern proc1 then Done (E_BAD_PROC, s)
      else andthen (proc_addr proc1) (\<lambda>rp.
        let s = set_long m_ptr m4_l1 (user_time (procs s rp)) s;
            s = set_long m_ptr m4_l2 (sys_time (procs s rp)) s;
            s = set_long m_ptr m4_l3 (child_utime (procs s rp)) s;
            s = set_long m_ptr m4_l4 (child_stime (procs s rp)) s
        in Done (OK, s)))"

definition do_abort :: "addr \<Rightarrow> kstate \<Rightarrow> (int \<times> kstate) run" where
  "do_abort m_ptr s = Panics ''''"

definition do_fresh :: "addr \<Rightarrow> kstate \<Rightarrow> (int \<times> kstate) run" where
  "do_fresh m_ptr s =
     (let proc_nr = msg_int m_ptr m1_i1 s in
      if proc_nr < 0 \<or> proc_nr \<ge> NR_PROCS then Done (E_BAD_PROC, s)
      else
        andthen (proc_addr proc_nr) (\<lambda>p.
        andthen (rmshadow p s) (\<lambda>((base, len), s).
        andthen (do_newmap m_ptr s) (\<lambda>(_, s).
        let data = word_of_int (msg_int m_ptr m1_i2 s);
            c1 = mem_phys (p_map (procs s p) seg_D) + data;
            nc = image_clicks (procs s p) - data;
            s = upd_mem (zeroclicks c1 nc) s;
            s = set_int m_ptr m1_i1 (uint base) s;
            s = set_int m_ptr m1_i2 (uint len) s
        in Done (OK, s)))))"

subsection \<open>Signals\<close>

text \<open>\<open>stuff\<close> is the address of the kernel buffer \<open>sig_stuff\<close>; the frame is the
  signal number, the status word and the program counter.\<close>

definition build_sig :: "addr \<Rightarrow> proc \<Rightarrow> int \<Rightarrow> kstate \<Rightarrow> kstate" where
  "build_sig stuff rp sig s =
     upd_mem (put32 (stuff + 4) (p_reg rp reg_pc))
       (upd_mem (put16 (stuff + 2) (p_psw rp)) (upd_mem (put_int stuff sig) s))"

definition do_sig :: "addr \<Rightarrow> addr \<Rightarrow> kstate \<Rightarrow> (int \<times> kstate) run" where
  "do_sig stuff m_ptr s =
     (let proc_nr = msg_int m_ptr m6_i1 s in
      if \<not> isokusern proc_nr then Done (E_BAD_PROC, s)
      else
        andthen (proc_addr proc_nr) (\<lambda>rp.
        let sig = msg_int m_ptr m6_i2 s in
        if sig = -1 then andthen (finish_ksig rp s) (\<lambda>s. Done (OK, s))
        else
          let handler = msg_long m_ptr m6_f1 s;
              s = build_sig stuff (procs s rp) sig s;
              new_sp = p_reg (procs s rp) reg_sp - SIG_PUSH_BYTES;
              src_phys = umap (procs s (proc_ptr s)) 1 stuff SIG_PUSH_BYTES;
              dst_phys = umap (procs s rp) 2 new_sp SIG_PUSH_BYTES
          in if dst_phys = 0 then Panics ''do_sig can't signal; SP bad''
             else
               let s = upd_mem (phys_copy src_phys dst_phys 8) s;
                   s = upd_proc rp (p_reg_update (\<lambda>r. r(reg_sp := new_sp, reg_pc := handler))) s
               in Done (OK, s)))"

definition do_kill :: "addr \<Rightarrow> kstate \<Rightarrow> (int \<times> kstate) run" where
  "do_kill m_ptr s =
     (let proc_nr = msg_int m_ptr m6_i1 s; sig = msg_int m_ptr m6_i2 s in
      if \<not> isokusern proc_nr then Done (E_BAD_PROC, s)
      else andthen (cause_sig proc_nr sig s) (\<lambda>s. Done (OK, s)))"

subsection \<open>Copying\<close>

definition do_copy :: "addr \<Rightarrow> kstate \<Rightarrow> (int \<times> kstate) run" where
  "do_copy m_ptr s =
     (let src_space = sint (msg_byte m_ptr m5_c1 s); dst_space = sint (msg_byte m_ptr m5_c2 s);
          src_vir = msg_long m_ptr m5_l1 s; dst_vir = msg_long m_ptr m5_l2 s;
          bytes = msg_long m_ptr m5_l3 s
      in andthen (proc_addr (msg_int m_ptr m5_i1 s)) (\<lambda>src.
      andthen (proc_addr (msg_int m_ptr m5_i2 s)) (\<lambda>dst.
      let src_phys = umap (procs s src) src_space src_vir bytes;
          dst_phys = umap (procs s dst) dst_space dst_vir bytes
      in if src_phys = 0 \<or> dst_phys = 0 then Done (EFAULT, s)
         else Done (OK, upd_mem (phys_copy src_phys dst_phys (nat (sint bytes))) s))))"

definition do_umap :: "addr \<Rightarrow> kstate \<Rightarrow> (int \<times> kstate) run" where
  "do_umap m_ptr s =
     andthen (proc_addr (msg_int m_ptr m5_i1 s)) (\<lambda>rp.
     Done (OK, set_long m_ptr m5_l1
       (umap (procs s rp) (sint (msg_byte m_ptr m5_c1 s)) (msg_long m_ptr m5_l1 s) (msg_long m_ptr m5_l3 s)) s))"

text \<open>\<open>params\<close> is the address of \<open>boot_parameters\<close>, ten bytes in the kernel.\<close>

definition do_gboot :: "addr \<Rightarrow> addr \<Rightarrow> kstate \<Rightarrow> (int \<times> kstate) run" where
  "do_gboot params m_ptr s =
     (let src_phys = umap (procs s (proc_ptr s)) 1 params 10 in
      andthen (proc_addr (msg_int m_ptr m1_i1 s)) (\<lambda>rp.
      let dst_phys = umap (procs s rp) 1 (msg_long m_ptr m1_p1 s) 10 in
      if dst_phys = 0 then Panics ''bad call to SYS_GBOOT''
      else Done (OK, upd_mem (phys_copy src_phys dst_phys 10) s)))"

text \<open>\<open>beenhere\<close> is the static variable of \<open>do_mem\<close>; the memory size is a long at 0x436.\<close>

definition do_mem :: "bool \<Rightarrow> addr \<Rightarrow> kstate \<Rightarrow> (int \<times> bool \<times> kstate) run" where
  "do_mem beenhere m_ptr s =
     (let count = (if beenhere then 0 else sint (ucast (drop_bit CLICK_SHIFT (get32 (kmem s) 0x436)) :: u16));
          s = set_int m_ptr m2_i3 count s;
          s = set_long m_ptr m2_l1 0 s
      in Done (OK, True, s))"

subsection \<open>Tracing\<close>

text \<open>\<open>layout\<close> is the compiler's layout of \<open>struct proc\<close>, the long at each offset of an
  entry, and \<open>plen\<close> its size; registers start at offset 0 and are 72 bytes long.  An
  offset below the entry is outside the table.\<close>

definition set_reg :: "nat \<Rightarrow> int \<Rightarrow> addr \<Rightarrow> kstate \<Rightarrow> kstate run" where
  "set_reg rp i v s =
     (if i = 68 then Done (upd_proc rp (\<lambda>p. p\<lparr>p_psw := (p_psw p AND NOT 0xFF) OR (ucast v AND 0xFF)\<rparr>) s)
      else if i < 0 then Stuck
      else Done (upd_proc rp (p_reg_update (\<lambda>r. r(nat (i div 4) := v))) s))"

definition resume :: "nat \<Rightarrow> kstate \<Rightarrow> kstate run" where
  "resume rp s =
     (let s = upd_proc rp (p_flags_update (\<lambda>f. f AND NOT P_STOP)) s
      in if p_flags (procs s rp) = 0 then lock_ready rp s else Done s)"

definition do_trace :: "(proc \<Rightarrow> int \<Rightarrow> addr) \<Rightarrow> int \<Rightarrow> addr \<Rightarrow> kstate \<Rightarrow> (int \<times> kstate) run" where
  "do_trace layout plen m s =
     (let request = msg_int m m2_i2 s; a = msg_long m m2_l1 s; data = m + m2_l2 in
      andthen (proc_addr (msg_int m m2_i1 s)) (\<lambda>rp.
      let peek = (\<lambda>seg. let src = umap (procs s rp) seg a 4 in
                   if src = 0 then Done (EIO, s)
                   else Done (OK, upd_mem (phys_copy src (umap (procs s (proc_ptr s)) 1 data 4) 4) s));
          poke = (\<lambda>seg. let dst = umap (procs s rp) seg a 4 in
                   if dst = 0 then Done (EIO, s)
                   else Done (OK, set_long m m2_l2 0
                          (upd_mem (phys_copy (umap (procs s (proc_ptr s)) 1 data 4) dst 4) s)))
      in if p_flags (procs s rp) AND P_SLOT_FREE \<noteq> 0 then Done (EIO, s)
      else if request = -1 then
        andthen (lock_unready rp s) (\<lambda>s.
        Done (OK, upd_proc rp (\<lambda>p. p\<lparr>p_flags := p_flags p OR P_STOP, p_psw := p_psw p AND NOT TRACEBIT\<rparr>) s))
      else if request = 1 then (if mem_len (p_map (procs s rp) seg_T) \<noteq> 0 then peek 0 else peek 1)
      else if request = 2 then peek 1
      else if request = 3 then
        (if a AND 3 \<noteq> 0 \<or> sint a > plen - 4 then Done (EIO, s)
         else Done (OK, set_long m m2_l2 (layout (procs s rp) (sint (ucast a :: u16))) s))
      else if request = 4 then (if mem_len (p_map (procs s rp) seg_T) \<noteq> 0 then poke 0 else poke 1)
      else if request = 5 then poke 1
      else if request = 6 then
        (if a AND 3 \<noteq> 0 \<or> sint a > 68 then Done (EIO, s)
         else andthen (set_reg rp (sint (ucast a :: u16)) (msg_long m m2_l2 s) s)
                (\<lambda>s. Done (OK, set_long m m2_l2 0 s)))
      else if request = 7 then
        andthen (resume rp s) (\<lambda>s. Done (OK, set_long m m2_l2 0 s))
      else if request = 9 then
        andthen (resume rp (upd_proc rp (\<lambda>p. p\<lparr>p_psw := p_psw p OR TRACEBIT\<rparr>) s))
          (\<lambda>s. Done (OK, set_long m m2_l2 0 s))
      else Done (EIO, s)))"

subsection \<open>The dispatcher\<close>

text \<open>One turn of the loop of \<open>sys_task\<close>, between receiving a request in \<open>m\<close> and
  sending the reply; \<open>env\<close> holds the addresses and layout the handlers refer to.\<close>

record sys_env =
  sig_stuff :: addr
  boot_params :: addr
  proc_image :: "proc \<Rightarrow> int \<Rightarrow> addr"
  proc_size :: int

definition sys_task :: "sys_env \<Rightarrow> bool \<Rightarrow> kstate \<Rightarrow> (bool \<times> kstate) run" where
  "sys_task env been s =
     (let m = sys_m s; t = msg_int m off_type s;
          keep = (\<lambda>r. andthen r (\<lambda>(r, s). Done (r, been, s)))
      in andthen
        (if t = 4 then keep (do_fork m s)
         else if t = 5 then keep (do_newmap m s)
         else if t = 7 then keep (do_exec m s)
         else if t = 1 then keep (do_xit m s)
         else if t = 2 then keep (do_getsp m s)
         else if t = 8 then keep (do_times m s)
         else if t = 9 then keep (do_abort m s)
         else if t = 10 then keep (do_fresh m s)
         else if t = 3 then keep (do_sig (sig_stuff env) m s)
         else if t = 11 then keep (do_kill m s)
         else if t = 6 then keep (do_copy m s)
         else if t = 12 then keep (do_gboot (boot_params env) m s)
         else if t = 13 then keep (do_umap m s)
         else if t = 14 then do_mem been m s
         else if t = 15 then keep (do_trace (proc_image env) (proc_size env) m s)
         else Done (E_BAD_FCN, been, s))
        (\<lambda>(r, been, s). Done (been, set_int m off_type r s)))"

end
