(* ===== verification/Kernel_Proc.thy ===== *)
theory Kernel_Proc
  imports Kernel_System
begin

section \<open>Kernel: the system task preserves the invariant\<close>

text \<open>
  Fork, exec, exit, signal delivery and tracing, as the memory manager requests them, keep
  the process table consistent.  The guards say what the memory manager ensures: the
  process it operates on is a user, a forking or exec-ing process is blocked in its call.
\<close>

unbundle bit_operations_syntax

text \<open>Fields that neither the queues nor the invariant look at.\<close>

lemma quiet_upd [simp]:
  "sched_part (upd_proc i (p_reg_update f1) s) = sched_part s"
  "sched_part (upd_proc i (p_splow_update f2) s) = sched_part s"
  "sched_part (upd_proc i (p_alarm_update f2) s) = sched_part s"
  "sched_part (upd_proc i (p_psw_update f3) s) = sched_part s"
  "sched_part (upd_proc i (p_nflips_update f4) s) = sched_part s"
  "sched_part (upd_proc i (child_utime_update f2) s) = sched_part s"
  "sched_part (upd_proc i (child_stime_update f2) s) = sched_part s"
  "rest_part (upd_proc i (p_reg_update f1) s) = rest_part s"
  "rest_part (upd_proc i (p_splow_update f2) s) = rest_part s"
  "rest_part (upd_proc i (p_psw_update f3) s) = rest_part s"
  "rest_part (upd_proc i (p_nflips_update f4) s) = rest_part s"
  "rest_part (upd_proc i (child_utime_update f2) s) = rest_part s"
  "rest_part (upd_proc i (child_stime_update f2) s) = rest_part s"
  by (auto simp: sched_part_def rest_part_def nextready_def sendlink_def nextheld_def fun_eq_iff mess_ok_def)

lemma msg_parts [simp]:
  "sched_part (set_int m off v s) = sched_part s" "rest_part (set_int m off v s) = rest_part s"
  "procs (set_int m off v s) = procs s" "sig_procs (set_int m off v s) = sig_procs s"
  "sched_part (set_long m off w s) = sched_part s" "rest_part (set_long m off w s) = rest_part s"
  "procs (set_long m off w s) = procs s" "sig_procs (set_long m off w s) = sig_procs s"
  by (simp_all add: set_int_def set_long_def)

lemma kernel_inv_same:
  assumes "kernel_inv R C H s" and "sched_part s' = sched_part s" and "rest_part s' = rest_part s"
    and "\<And>i. p_flags (procs s' i) = p_flags (procs s i)" and "\<And>i. p_pending (procs s' i) = p_pending (procs s i)"
    and "\<And>i. p_pendcount (procs s' i) = p_pendcount (procs s i)" and "sig_procs s' = sig_procs s"
  shows "kernel_inv R C H s'"
  using assms core_inv_same [of R C H s s'] signals_ok_same [of s s'] by (simp add: kernel_inv_def)

subsection \<open>Exec\<close>

lemma unblock_inv:
  assumes inv: "kernel_inv R C H s" and rp: "11 \<le> rp" "rp < NR_SLOTS" and r: "receiving s rp"
  defines "s1 \<equiv> upd_proc rp (p_flags_update (\<lambda>f. f AND NOT RECEIVING)) s"
  shows "\<exists>s' R'. (if p_flags (procs s1 rp) = 0 then lock_ready rp s1 else Done s1) = Done s' \<and>
                 kernel_inv R' C H s' \<and> off_queues s' = off_queues s1"
proof -
  have inv0: "core_inv R C H s" and sig0: "signals_ok s" using inv by (simp_all add: kernel_inv_def)
  note D = core_invD [OF inv0]
  have nr: "\<not> runnable s rp" using r by (auto simp: receiving_def runnable_def)
  have part: "sched_part s1 = sched_part s" by (simp add: s1_def)
  have fl: "p_flags (procs s1 j) = p_flags (procs s j)" if "j \<noteq> rp" for j using that by (simp add: s1_def)
  obtain s2 R' where s2: "(if p_flags (procs s1 rp) = 0 then lock_ready rp s1 else Done s1) = Done s2"
    "sched_inv R' s2" "off_queues s2 = off_queues s1"
    using clear_flag_ready(2) [OF D(1) rp(2) nr _ _ part fl] rp by auto
  have "rest_inv C H s1" unfolding s1_def by (rule rest_inv_clear_receiving [OF D(2) rp(2)])
  then have "core_inv R' C H s2" using s2(2) rest_inv_off [OF s2(3)] by (simp add: core_inv_def)
  moreover have "signals_ok s2"
    by (rule signals_ok_flags [OF sig0])
      (auto simp: off_projs [OF s2(3)] off_queues_fields [OF s2(3)] s1_def flag_simps)
  ultimately show ?thesis using s2 by (auto simp: kernel_inv_def)
qed

lemma get_int_slot:
  assumes "isoksusern n" shows "\<exists>i<NR_SLOTS. 9 \<le> i \<and> n = int i - NR_TASKS"
  using assms by (intro exI [of _ "nat (n + NR_TASKS)"]) (auto simp: isoksusern_def)

text \<open>The fields of a process after exec.\<close>

definition exec_image :: "addr \<Rightarrow> proc \<Rightarrow> bool" where
  "exec_image sp p \<longleftrightarrow> p_reg p reg_sp = sp \<and> p_reg p reg_pc = click_addr (mem_vir (p_map p seg_T)) \<and> p_alarm p = 0"

lemma off_reg:
  assumes "off_queues s' = off_queues s"
  shows "p_reg (procs s' i) = p_reg (procs s i)"
  using off_queues_proc [OF assms, of i] by (cases "procs s i", cases "procs s' i") simp

lemma do_exec_inv:
  assumes ok: "kernel_ok s" and i: "11 \<le> i" "i < NR_SLOTS" and m: "msg_int m m1_i1 s = int i - NR_TASKS"
    and r: "receiving s i" "\<not> sending s i" and nt: "msg_int m m1_i2 s = 0"
  shows "\<exists>s'. do_exec m s = Done (OK, s') \<and> kernel_ok s' \<and> exec_image (msg_long m m1_p1 s) (procs s' i) \<and>
           \<not> receiving s' i \<and> (p_flags (procs s i) = RECEIVING \<longrightarrow> runnable s' i)"
proof -
  note inv = kernel_okD [OF ok]
  have pa: "proc_addr (int i - NR_TASKS) = Done i" by (rule proc_addr_slot [OF i(2)])
  have us: "isoksusern (int i - NR_TASKS)" using i by (auto simp: isoksusern_def)
  let ?sp = "msg_long m m1_p1 s"
  define s1 where "s1 = upd_proc i (p_reg_update (\<lambda>r. r(reg_sp := ?sp))) s"
  define s2 where "s2 = upd_proc i (p_splow_update (\<lambda>_. ?sp)) s1"
  define s3 where "s3 = upd_proc i (p_reg_update (\<lambda>r. r(reg_pc := click_addr (mem_vir (p_map (procs s2 i) seg_T))))) s2"
  define s4 where "s4 = upd_proc i (p_alarm_update (\<lambda>_. 0)) s3"
  define s5 where "s5 = upd_proc i (p_flags_update (\<lambda>f. f AND NOT RECEIVING)) s4"
  have fl4: "p_flags (procs s4 j) = p_flags (procs s j)" for j
    by (simp add: s4_def s3_def s2_def s1_def)
  have k4: "kernel_inv (ready_q s) (callers s) (held s) s4"
    by (rule kernel_inv_same [OF inv]) (simp_all add: s4_def s3_def s2_def s1_def)
  have r4: "receiving s4 i" using r fl4 by (simp add: receiving_def)
  obtain s6 R' where s6: "(if p_flags (procs s5 i) = 0 then lock_ready i s5 else Done s5) = Done s6"
    "kernel_inv R' (callers s) (held s) s6" "off_queues s6 = off_queues s5"
    using unblock_inv [OF k4 i r4] unfolding s5_def by blast
  have "do_exec m s = Done (OK, s6)"
    unfolding do_exec_def Let_def m nt using us
    by (simp only: simp_thms if_True if_False pa andthen.simps s1_def [symmetric] s2_def [symmetric]
        s3_def [symmetric] s4_def [symmetric] s5_def [symmetric] s6(1))
  moreover have "exec_image ?sp (procs s6 i)"
    unfolding exec_image_def off_reg [OF s6(3)] off_projs [OF s6(3)]
    by (simp add: s5_def s4_def s3_def s2_def s1_def)
  moreover have "p_flags (procs s6 i) = p_flags (procs s i) AND NOT RECEIVING"
    unfolding off_projs [OF s6(3)] by (simp add: s5_def fl4)
  ultimately show ?thesis using kernel_okI [OF s6(2)] i
    by (intro exI [of _ s6]) (simp add: receiving_def runnable_def flag_simps)
qed

subsection \<open>Processes taken off the ready queues\<close>

text \<open>The processes in \<open>I\<close> are on no ready queue, whatever their flags; the queues are
  exact for the others.\<close>

definition limbo :: "nat set \<Rightarrow> (nat \<Rightarrow> nat list) \<Rightarrow> kstate \<Rightarrow> bool" where
  "limbo I R s \<longleftrightarrow> ready_lists R s \<and> current_ok R s \<and>
     (\<forall>i<NR_SLOTS. i \<notin> I \<longrightarrow> (i \<in> set (R (queue_of s i)) \<longleftrightarrow> runnable s i)) \<and>
     (\<forall>i\<in>I. \<forall>q<NQ. i \<notin> set (R q))"

lemma limbo_none: "limbo {} R s \<longleftrightarrow> sched_inv R s"
  by (auto simp: limbo_def sched_inv_def ready_exact_def)

lemma not_queued:
  assumes "ready_lists R s" and "i \<notin> set (R (queue_of s i))" and "q < NQ"
  shows "i \<notin> set (R q)"
  using assms ready_listsD(3) [OF assms(1,3)] by blast

lemma limbo_insert:
  assumes "limbo I R s" and "i < NR_SLOTS" and "\<not> runnable s i"
  shows "limbo (insert i I) R s"
proof (cases "i \<in> I")
  case True
  then show ?thesis using assms by (simp add: insert_absorb)
next
  case False
  then have "i \<notin> set (R (queue_of s i))" using assms by (simp add: limbo_def)
  then have "\<forall>q<NQ. i \<notin> set (R q)" using not_queued assms(1) by (auto simp: limbo_def)
  then show ?thesis using assms(1) by (simp add: limbo_def)
qed

lemma limbo_remove:
  assumes "limbo (insert i I) R s" and "\<not> runnable s i" and "i \<notin> I"
  shows "limbo I R s"
  using assms queue_of_less [of s] by (auto simp: limbo_def)

lemma limbo_same:
  assumes "limbo I R s" and "sched_part s' = sched_part s"
    and "\<And>i. i \<notin> I \<Longrightarrow> p_flags (procs s' i) = p_flags (procs s i)"
  shows "limbo I R s'"
  using assms by (simp add: limbo_def sched_part_lists [OF assms(2)] runnable_def)

lemma limbo_unready:
  assumes l: "limbo I R s" and i: "i < NR_SLOTS" "i \<notin> I"
  shows "\<exists>s' R'. lock_unready i s = Done s' \<and> limbo (insert i I) R' s' \<and> off_queues s' = off_queues s"
proof -
  have R: "ready_lists R s" and cur: "current_ok R s" using l by (simp_all add: limbo_def)
  let ?q = "queue_of s i"
  let ?R = "R(?q := remove1 i (R ?q))"
  obtain s' where s': "lock_unready i s = Done s'" "ready_lists ?R s'" "off_queues s' = off_queues s"
    "proc_ptr s' = (if R ?q \<noteq> [] \<and> hd (R ?q) = i \<and> proc_ptr s = i then head_proc ?R else proc_ptr s)"
    using ready_lists_lock_unready [OF R, of i] by blast
  have "current_ok ?R s'" by (rule current_ok_remove [OF R cur queue_of_less s'(4)])
  moreover have d: "distinct (R ?q)" by (rule ready_listsD(4) [OF R queue_of_less])
  have "i \<notin> set (?R ?q)" using d by simp
  then have "\<forall>q<NQ. i \<notin> set (?R q)" using not_queued [OF s'(2)] off_states(9) [OF s'(3)] by auto
  moreover have "set (?R q) \<subseteq> set (R q)" for q using set_remove1_subset by (cases "q = ?q") fastforce+
  then have "\<forall>j\<in>I. \<forall>q<NQ. j \<notin> set (?R q)" using l by (auto simp: limbo_def)
  moreover have "j \<in> set (?R (queue_of s' j)) \<longleftrightarrow> runnable s' j"
    if "j < NR_SLOTS" "j \<notin> insert i I" for j
    using l that d by (auto simp: limbo_def off_states [OF s'(3)])
  ultimately show ?thesis using s' unfolding limbo_def
    by (intro exI [of _ s'] exI [of _ ?R]) simp
qed

lemma limbo_ready:
  assumes l: "limbo (insert i I) R s" and i: "i < NR_SLOTS" "i \<notin> I" and run: "runnable s i"
  shows "\<exists>s' R'. lock_ready i s = Done s' \<and> limbo I R' s' \<and> off_queues s' = off_queues s"
proof -
  have R: "ready_lists R s" and cur: "current_ok R s" using l by (simp_all add: limbo_def)
  let ?q = "queue_of s i"
  let ?R = "R(?q := R ?q @ [i])"
  have "i \<notin> set (R ?q)" using l queue_of_less by (simp add: limbo_def)
  from ready_lists_lock_ready [OF R i(1) this] obtain s' where s': "lock_ready i s = Done s'"
    "ready_lists ?R s'" "off_queues s' = off_queues s" "proc_ptr s' = proc_ptr s" by blast
  have "current_ok ?R s'" by (rule current_ok_append [OF cur s'(4)])
  moreover have "j \<in> set (?R (queue_of s' j)) \<longleftrightarrow> runnable s' j" if "j < NR_SLOTS" "j \<notin> I" for j
    using l that run by (auto simp: limbo_def off_states [OF s'(3)])
  moreover have "\<forall>j\<in>I. \<forall>q<NQ. j \<notin> set (?R q)" using l i by (auto simp: limbo_def)
  ultimately show ?thesis using s' unfolding limbo_def
    by (intro exI [of _ s'] exI [of _ ?R]) simp
qed

text \<open>A process off the queues can be changed freely, for instance between user and
  shadow.\<close>

lemma limbo_any:
  assumes l: "limbo I R s" and i: "i \<in> I"
  shows "limbo I R (upd_proc i f s)"
proof -
  define s' where "s' = upd_proc i f s"
  have q: "queue_of s' j = queue_of s j" if "j \<noteq> i" for j
    using that by (simp add: s'_def queue_of_def)
  have ne: "j \<noteq> i" if "q < NQ" "j \<in> set (R q)" for q j using l i that by (auto simp: limbo_def)
  have R: "ready_lists R s" using l by (simp add: limbo_def)
  have ch: "chain (nextready (procs s')) p (R q) = chain (nextready (procs s)) p (R q)" if "q < NQ" for p q
    using ne [OF that] by (intro chain_cong) (simp add: s'_def)
  have heads: "rdy_head s' = rdy_head s" "rdy_tail s' = rdy_tail s" by (simp_all add: s'_def)
  have "ready_lists R s'"
    unfolding ready_lists_def heads
  proof (intro allI impI)
    fix q assume q4: "q < NQ"
    show "chain (nextready (procs s')) (rdy_head s q) (R q) \<and>
          (R q \<noteq> [] \<longrightarrow> rdy_tail s q = Some (last (R q))) \<and>
          (\<forall>i\<in>set (R q). i < NR_SLOTS \<and> queue_of s' i = q)"
      using ch [OF q4] ready_listsD [OF R q4] q ne [OF q4] by auto
  qed
  moreover have "current_ok R s'" using l by (simp add: limbo_def current_ok_def s'_def)
  moreover have "j \<in> set (R (queue_of s' j)) \<longleftrightarrow> runnable s' j" if "j < NR_SLOTS" "j \<notin> I" for j
  proof -
    have "j \<noteq> i" using that i by blast
    then show ?thesis using l that q [of j] by (simp add: limbo_def runnable_def s'_def)
  qed
  ultimately show ?thesis using l unfolding limbo_def s'_def [symmetric] by blast
qed

lemmas limbo_shadow = limbo_any [where f = "p_shadow_update f" for f]

lemma limbo_intro: "sched_inv R s \<Longrightarrow> i < NR_SLOTS \<Longrightarrow> \<not> runnable s i \<Longrightarrow> limbo {i} R s"
  using limbo_insert [of "{}" R s i] by (simp add: limbo_none)

text \<open>\<open>if (rp->p_flags == 0) lock_unready(rp)\<close> and its converse.\<close>

lemma limbo_take:
  assumes l: "limbo I R s" and i: "11 \<le> i" "i < NR_SLOTS" "i \<notin> I"
  shows "\<exists>s' R'. (if p_flags (procs s i) = 0 then lock_unready i s else Done s) = Done s' \<and>
                 limbo (insert i I) R' s' \<and> off_queues s' = off_queues s"
proof (cases "p_flags (procs s i) = 0")
  case True
  then show ?thesis using limbo_unready [OF l i(2,3)] by simp
next
  case False
  then have "\<not> runnable s i" by (simp add: runnable_def)
  then show ?thesis using limbo_insert [OF l i(2)] False by auto
qed

lemma limbo_put:
  assumes l: "limbo (insert i I) R s" and i: "11 \<le> i" "i < NR_SLOTS" "i \<notin> I"
  shows "\<exists>s' R'. (if p_flags (procs s i) = 0 then lock_ready i s else Done s) = Done s' \<and>
                 limbo I R' s' \<and> off_queues s' = off_queues s"
proof (cases "p_flags (procs s i) = 0")
  case True
  then have "runnable s i" using i by (simp add: runnable_def)
  then show ?thesis using limbo_ready [OF l i(2,3)] True by simp
next
  case False
  then have "\<not> runnable s i" by (simp add: runnable_def)
  then show ?thesis using limbo_remove [OF l _ i(3)] False by auto
qed

subsection \<open>Shadows\<close>

text \<open>A step that touches only the ready queues, shadows and memory.\<close>

definition quiet :: "kstate \<Rightarrow> kstate \<Rightarrow> bool" where
  "quiet s s' \<longleftrightarrow> rest_part s' = rest_part s \<and> sig_procs s' = sig_procs s \<and>
     (\<forall>i. p_pending (procs s' i) = p_pending (procs s i)) \<and>
     (\<forall>i. p_pendcount (procs s' i) = p_pendcount (procs s i)) \<and>
     (\<forall>i. p_flags (procs s' i) = p_flags (procs s i)) \<and>
     (\<forall>i. p_map (procs s' i) = p_map (procs s i))"

lemma quiet_trans: "quiet s s' \<Longrightarrow> quiet s' s'' \<Longrightarrow> quiet s s''"
  by (simp add: quiet_def)

lemma rest_part_off:
  assumes "off_queues s' = off_queues s"
  shows "rest_part s' = rest_part s"
  by (simp add: rest_part_def off_projs [OF assms] off_queues_fields [OF assms] off_states [OF assms]
      fun_eq_iff)

lemma quiet_off:
  assumes "off_queues s' = off_queues s"
  shows "quiet s s'"
  by (simp add: quiet_def rest_part_off [OF assms] off_projs [OF assms] off_queues_fields [OF assms])

lemma quiet_mem [simp]: "quiet s (upd_mem f s)"
  by (simp add: quiet_def)

lemma quiet_shadow [simp]: "quiet s (upd_proc i (p_shadow_update f) s)"
  by (auto simp: quiet_def rest_part_def sendlink_def nextheld_def fun_eq_iff mess_ok_def)

lemma quiet_nflips [simp]: "quiet s (upd_proc i (p_nflips_update f) s)"
  by (simp add: quiet_def)

lemma quiet_flipwait [simp]: "quiet s (s\<lparr>flipwait := n\<rparr>)"
  by (simp add: quiet_def rest_part_def)

lemma sched_part_flipwait [simp]: "sched_part (s\<lparr>flipwait := n\<rparr>) = sched_part s"
  by (simp add: sched_part_def)

lemma find_slot:
  assumes "find P (slots_from 11) = Some q"
  shows "11 \<le> q" "q < NR_SLOTS" "P q"
proof -
  have "q \<in> set (slots_from 11) \<and> P q" using assms unfolding find_Some_iff by (metis nth_mem)
  then show "11 \<le> q" "q < NR_SLOTS" "P q" by auto
qed

text \<open>When \<open>rmshadow\<close> does not panic: another process in the same place has a shadow.\<close>

definition shadow_ok :: "nat \<Rightarrow> kstate \<Rightarrow> bool" where
  "shadow_ok p s = (p_shadow (procs s p) \<noteq> 0 \<or>
     (case find (same_place p s) (slots_from 11) of
        None \<Rightarrow> True
      | Some q \<Rightarrow> p_shadow (procs s q) \<noteq> 0 \<and> \<not> p_physio (procs s q)))"

lemma rmshadow_inv:
  assumes l: "limbo {p} R s" and p: "p < NR_SLOTS" and ok: "shadow_ok p s"
  shows "\<exists>b s' R'. rmshadow p s = Done (b, s') \<and> limbo {p} R' s' \<and> quiet s s'"
proof (cases "p_shadow (procs s p) \<noteq> 0")
  case True
  then show ?thesis using limbo_shadow [OF l, of p] by (auto simp: rmshadow_def)
next
  case ns: False
  show ?thesis
  proof (cases "find (same_place p s) (slots_from 11)")
    case None
    then show ?thesis using ns l by (auto simp: rmshadow_def quiet_def)
  next
    case (Some q)
    note q = find_slot [OF Some]
    have qp: "q \<noteq> p" using q(3) by (simp add: same_place_def)
    have sh: "p_shadow (procs s q) \<noteq> 0" "\<not> p_physio (procs s q)" using ok ns Some by (simp_all add: shadow_ok_def)
    let ?nc = "image_clicks (procs s p)"
    let ?b = "p_shadow (procs s q)"
    define s1 where "s1 = upd_mem (copyclicks ?b (mem_phys (p_map (procs s p) seg_D)) ?nc) s"
    have l1: "limbo {p} R s1" by (rule limbo_same [OF l]) (simp_all add: s1_def)
    obtain s2 R2 where s2: "(if p_flags (procs s1 q) = 0 then lock_unready q s1 else Done s1) = Done s2"
      "limbo {q, p} R2 s2" "off_queues s2 = off_queues s1"
      using limbo_take [OF l1 q(1,2)] qp by auto
    define s3 where "s3 = upd_proc q (p_shadow_update (\<lambda>_. 0)) s2"
    have l3: "limbo {q, p} R2 s3" unfolding s3_def by (rule limbo_shadow [OF s2(2)]) simp
    obtain s4 R4 where s4: "(if p_flags (procs s3 q) = 0 then lock_ready q s3 else Done s3) = Done s4"
      "limbo {p} R4 s4" "off_queues s4 = off_queues s3"
      using limbo_put [OF l3 q(1,2)] qp by auto
    have "rmshadow p s = Done ((?b, ?nc), s4)"
      unfolding rmshadow_def Let_def Some option.case s1_def [symmetric] using ns sh
      by (simp only: simp_thms if_False s2(1) andthen.simps s3_def [symmetric] s4(1))
    moreover have "quiet s s4"
      using quiet_trans [of s s1 s2] quiet_trans [of s s2 s3] quiet_trans [of s s3 s4]
        quiet_off [OF s2(3)] quiet_off [OF s4(3)] by (simp add: s1_def s3_def)
    ultimately show ?thesis using s4(2) by blast
  qed
qed

lemma kernel_inv_limbo:
  assumes inv: "kernel_inv R C H s" and l: "limbo {} R' s'" and q: "quiet s s'"
  shows "kernel_inv R' C H s'"
proof -
  have inv0: "core_inv R C H s" and sig0: "signals_ok s" using inv by (simp_all add: kernel_inv_def)
  have "rest_inv C H s'" using core_invD(2) [OF inv0] rest_inv_same [of s' s] q by (simp add: quiet_def)
  moreover have "signals_ok s'" by (rule signals_ok_same [OF sig0]) (use q in \<open>simp_all add: quiet_def\<close>)
  ultimately show ?thesis using l by (simp add: kernel_inv_def core_inv_def limbo_none)
qed

lemma unshadow_inv:
  assumes inv: "kernel_inv R C H s" and p: "11 \<le> p" "p < NR_SLOTS" "p_flags (procs s p) = 0"
    and ok: "\<exists>q. find (\<lambda>q. same_place p s q \<and> p_shadow (procs s q) = 0) (slots_from 11) = Some q"
  shows "\<exists>s' R'. unshadow p s = Done s' \<and> kernel_inv R' C H s'"
proof -
  have sch: "sched_inv R s" using inv by (simp add: kernel_inv_def core_inv_def)
  obtain q where Some: "find (\<lambda>q. same_place p s q \<and> p_shadow (procs s q) = 0) (slots_from 11) = Some q"
    using ok by blast
  note q = find_slot [OF Some]
  have qp: "q \<noteq> p" using q(3) by (simp add: same_place_def)
  consider (wait) "flipwait s \<noteq> 0" | (busy) "flipwait s = 0" "p_physio (procs s p) \<or> p_physio (procs s q)"
    | (flip) "flipwait s = 0" "\<not> p_physio (procs s p)" "\<not> p_physio (procs s q)" by blast
  then show ?thesis
  proof cases
    case wait
    have "limbo {} R (s\<lparr>flipwait := flipwait s - 1\<rparr>)"
      by (rule limbo_same [of _ _ s]) (use sch in \<open>simp_all add: limbo_none\<close>)
    from kernel_inv_limbo [OF inv this quiet_flipwait] show ?thesis using wait by (auto simp: unshadow_def)
  next
    case busy
    then show ?thesis using inv Some by (auto simp: unshadow_def)
  next
    case flip
    define s1 where "s1 = upd_mem (flipclicks (p_shadow (procs s p)) (mem_phys (p_map (procs s q) seg_D))
                                 (image_clicks (procs s q))) s"
    define s2 where "s2 = s1\<lparr>flipwait := 5\<rparr>"
    have l2: "limbo {} R s2"
      by (rule limbo_same [of _ _ s]) (use sch in \<open>simp_all add: limbo_none s2_def s1_def\<close>)
    obtain s3 R3 where s3: "lock_unready p s2 = Done s3" "limbo {p} R3 s3" "off_queues s3 = off_queues s2"
      using limbo_unready [OF l2 p(2)] by auto
    obtain s4 R4 where s4: "(if p_flags (procs s3 q) = 0 then lock_unready q s3 else Done s3) = Done s4"
      "limbo {q, p} R4 s4" "off_queues s4 = off_queues s3"
      using limbo_take [OF s3(2) q(1,2)] qp by auto
    define s5 where "s5 = upd_proc q (p_shadow_update (\<lambda>_. p_shadow (procs s4 p))) s4"
    define s6 where "s6 = upd_proc p (p_shadow_update (\<lambda>_. 0)) s5"
    have "limbo {q, p} R4 s5" unfolding s5_def by (rule limbo_shadow [OF s4(2)]) simp
    then have "limbo {q, p} R4 s6" unfolding s6_def by (rule limbo_shadow) simp
    then have l6: "limbo (insert p {q}) R4 s6" by (simp add: insert_commute)
    have f6: "p_flags (procs s6 p) = 0"
      using p(3) qp by (auto simp: s6_def s5_def off_projs [OF s4(3)] off_projs [OF s3(3)] s2_def s1_def)
    obtain s7 R7 where s7: "lock_ready p s6 = Done s7" "limbo {q} R7 s7" "off_queues s7 = off_queues s6"
      using limbo_ready [OF l6 p(2)] qp f6 p by (auto simp: runnable_def)
    obtain s8 R8 where s8: "(if p_flags (procs s7 q) = 0 then lock_ready q s7 else Done s7) = Done s8"
      "limbo {} R8 s8" "off_queues s8 = off_queues s7"
      using limbo_put [of q "{}" R7 s7] s7(2) q by auto
    define s9 where "s9 = upd_proc p (p_nflips_update (\<lambda>n. n + 1)) s8"
    define s10 where "s10 = upd_proc q (p_nflips_update (\<lambda>n. n + 1)) s9"
    have "unshadow p s = Done s10"
      unfolding unshadow_def Let_def Some option.case s1_def [symmetric] s2_def [symmetric] using flip
      by (simp only: simp_thms if_True if_False s3(1) s4(1) andthen.simps s5_def [symmetric] s6_def [symmetric]
          s7(1) s8(1) s9_def [symmetric] s10_def [symmetric])
    moreover have "limbo {} R8 s10" by (rule limbo_same [OF s8(2)]) (simp_all add: s10_def s9_def)
    moreover have "quiet s s10"
    proof -
      have "quiet s s1" "quiet s1 s2" "quiet s2 s3" "quiet s3 s4" "quiet s4 s5" "quiet s5 s6" "quiet s6 s7"
        "quiet s7 s8" "quiet s8 s9" "quiet s9 s10"
        using quiet_off s3(3) s4(3) s7(3) s8(3) by (simp_all add: s1_def s2_def s5_def s6_def s9_def s10_def)
      then show ?thesis using quiet_trans by meson
    qed
    ultimately show ?thesis using kernel_inv_limbo [OF inv] by blast
  qed
qed

subsection \<open>Exit\<close>

lemma unqueue_scan_none:
  assumes "chain (sendlink (procs s)) (Some h) (h # ys)" and "rc \<notin> set ys" and "length ys < n"
  shows "unqueue_scan n h rc s = Done s"
  using assms
proof (induction ys arbitrary: h n)
  case Nil
  then show ?case by (cases n) (auto simp: sendlink_def)
next
  case (Cons a ys)
  then show ?case by (cases n) (auto simp: sendlink_def)
qed

lemma unqueue_scan_found:
  assumes "chain (sendlink (procs s)) (Some h) (h # as @ rc # bs)" and "length as < n"
  shows "unqueue_scan n h rc s =
           Done (upd_proc (last (h # as)) (p_sendlink_update (\<lambda>_. p_sendlink (procs s rc))) s)"
  using assms
proof (induction as arbitrary: h n)
  case Nil
  then show ?case by (cases n) (auto simp: sendlink_def)
next
  case (Cons a as)
  from chain_distinct [OF Cons.prems(1)] have "a \<noteq> rc" by auto
  with Cons.prems Cons.IH [of a "n - 1"] show ?case by (cases n) (auto simp: sendlink_def)
qed

text \<open>Slots whose queues do not hold \<open>rc\<close> are passed over.\<close>

lemma unqueue_skip:
  assumes "\<And>i. i \<in> set rps \<Longrightarrow> chain (sendlink (procs s)) (p_callerq (procs s i)) (C i) \<and>
              length (C i) \<le> NR_SLOTS \<and> rc \<notin> set (C i)"
  shows "unqueue (rps @ rest) rc s = unqueue rest rc s"
  using assms
proof (induction rps)
  case Nil
  then show ?case by simp
next
  case (Cons i rps)
  then have c: "chain (sendlink (procs s)) (p_callerq (procs s i)) (C i)" "length (C i) \<le> NR_SLOTS" "rc \<notin> set (C i)"
    and IH: "unqueue (rps @ rest) rc s = unqueue rest rc s" by auto
  show ?case
  proof (cases "C i")
    case Nil
    then show ?thesis using c IH by simp
  next
    case (Cons h ys)
    have "unqueue_scan NR_SLOTS h rc s = Done s"
      by (rule unqueue_scan_none [of s h ys]) (use c Cons in auto)
    then show ?thesis using c Cons IH by simp
  qed
qed

text \<open>The state with \<open>rc\<close> unlinked from its place in the queue of \<open>c\<close>.\<close>

definition unlinked :: "nat \<Rightarrow> nat list \<Rightarrow> nat \<Rightarrow> kstate \<Rightarrow> kstate" where
  "unlinked c pre rc s =
     (if pre = [] then upd_proc c (p_callerq_update (\<lambda>_. p_sendlink (procs s rc))) s
      else upd_proc (last pre) (p_sendlink_update (\<lambda>_. p_sendlink (procs s rc))) s)"

lemma unqueue_sender:
  assumes C: "callers_ok C s" and c: "c < NR_SLOTS" and split: "C c = pre @ rc # post"
  shows "unqueue (slots_from 0) rc s = Done (unlinked c pre rc s)"
proof -
  have only: "rc \<notin> set (C i)" if "i < NR_SLOTS" "i \<noteq> c" for i
    using callers_ok_unique [OF C that(1) c] split that by auto
  have all: "slots_from 0 = [0..<c] @ c # [Suc c..<NR_SLOTS]" unfolding slots_from_def
    using upt_add_eq_append [of 0 c "NR_SLOTS - c"] c by (simp only: upt_conv_Cons) simp
  have skip: "unqueue ([0..<c] @ rest) rc s = unqueue rest rc s" for rest
    by (rule unqueue_skip [where C = C]) (use callers_okD [OF C] only c in auto)
  have ch: "chain (sendlink (procs s)) (p_callerq (procs s c)) (C c)" and len: "length (C c) \<le> NR_SLOTS"
    and d: "distinct (C c)"
    using callers_okD [OF C c] by simp_all
  show ?thesis
  proof (cases pre)
    case Nil
    then have "p_callerq (procs s c) = Some rc" using ch split by simp
    then show ?thesis unfolding all skip by (simp add: unlinked_def Nil)
  next
    case (Cons h as)
    have hd: "p_callerq (procs s c) = Some h" using ch split Cons by simp
    have ne: "h \<noteq> rc" using d split Cons by auto
    have scan: "unqueue_scan NR_SLOTS h rc s = Done (unlinked c pre rc s)"
      using unqueue_scan_found [of s h as rc post NR_SLOTS] ch split Cons len by (simp add: unlinked_def)
    let ?s = "unlinked c pre rc s"
    have lin: "last pre \<in> set (C c)" using split Cons by simp
    have "unqueue ([Suc c..<NR_SLOTS] @ []) rc ?s = unqueue [] rc ?s"
    proof (rule unqueue_skip [where C = C])
      fix i assume "i \<in> set [Suc c..<NR_SLOTS]"
      then have i: "i < NR_SLOTS" "i \<noteq> c" by auto
      have "last pre \<notin> set (C i)" using callers_ok_unique [OF C i(1) c _ lin] i by auto
      moreover have "sendlink (procs ?s) = (sendlink (procs s))(last pre := p_sendlink (procs s rc))"
        using Cons by (simp add: unlinked_def)
      moreover have "p_callerq (procs ?s i) = p_callerq (procs s i)" using Cons by (simp add: unlinked_def)
      ultimately show "chain (sendlink (procs ?s)) (p_callerq (procs ?s i)) (C i) \<and>
              length (C i) \<le> NR_SLOTS \<and> rc \<notin> set (C i)"
        using callers_okD [OF C i(1)] only [OF i] by simp
    qed
    then have "unqueue [Suc c..<NR_SLOTS] rc ?s = Done ?s" by simp
    then show ?thesis unfolding all skip using hd ne scan by simp
  qed
qed

lemma unqueue_absent:
  assumes C: "callers_ok C s" and "\<And>i. i < NR_SLOTS \<Longrightarrow> rc \<notin> set (C i)"
  shows "unqueue (slots_from 0) rc s = Done s"
proof -
  have "unqueue ((slots_from 0) @ []) rc s = unqueue [] rc s"
    by (rule unqueue_skip [where C = C]) (use callers_okD [OF C] assms(2) in auto)
  then show ?thesis by simp
qed

lemma rest_inv_exit:
  assumes inv: "rest_inv C H s" and rc: "11 \<le> rc" "rc < NR_SLOTS"
    and C': "\<And>i. i < NR_SLOTS \<Longrightarrow> set (C' i) = set (C i) - {rc}" and ok: "callers_ok C' s'"
    and s': "\<And>j. p_flags (procs s' j) = (if j = rc then P_SLOT_FREE else p_flags (procs s j))"
      "\<And>j. p_getfrom (procs s' j) = p_getfrom (procs s j)" "\<And>j. p_nr (procs s' j) = p_nr (procs s j)"
      "\<And>j. p_int_blocked (procs s' j) = p_int_blocked (procs s j)"
      "\<And>j. p_int_held (procs s' j) = p_int_held (procs s j)"
      "nextheld (procs s') = nextheld (procs s)" "held_head s' = held_head s" "held_tail s' = held_tail s"
      "mess_ok (procs s' 8) = mess_ok (procs s 8)" "sys_m s' = sys_m s"
  shows "rest_inv C' H s'"
proof -
  have W: "wait_ok C s" and I: "ints_ok s" and Hd: "held_ok H s" and L: "slots_ok s"
    using inv by (simp_all add: rest_inv_def)
  have s: "sending s' = (sending s)(rc := False)" "receiving s' = (receiving s)(rc := False)" "accepts s' = accepts s"
    by (auto simp: fun_eq_iff sending_def receiving_def accepts_def s')
  have w: "waiting s' i \<Longrightarrow> waiting s i" for i by (auto simp: waiting_def s split: if_splits)
  have "wait_ok C' s'"
    unfolding wait_ok_def
  proof (intro conjI)
    show "\<forall>i<NR_SLOTS. \<forall>j<NR_SLOTS. i \<in> set (C' j) \<longrightarrow> j \<in> set (C' i) \<longrightarrow> i = j"
      using W C' by (simp add: wait_ok_def)
    show "\<forall>i<NR_SLOTS. waiting s' i \<longrightarrow> (\<forall>j\<in>set (C' i). \<not> accepts s' i j)"
      using W C' w unfolding wait_ok_def s by simp
    show "\<forall>i<NR_SLOTS. sending s' i \<longrightarrow> receiving s' i \<longrightarrow>
            (\<exists>d<NR_SLOTS. p_getfrom (procs s' i) = int d - NR_TASKS \<and> i \<in> set (C' d))"
      using W C' unfolding wait_ok_def by (auto simp: s s' split: if_splits)
  qed
  moreover have "ints_ok s'" using I w by (auto simp: ints_ok_def s')
  moreover have "held_ok H s'" using Hd by (simp add: held_ok_def s')
  moreover have "slots_ok s'" using L rc by (auto simp: slots_ok_def s')
  ultimately show ?thesis using ok by (simp add: rest_inv_def)
qed

lemma unlinked_fields:
  "p_flags (procs (unlinked c pre rc s) i) = p_flags (procs s i)"
  "p_getfrom (procs (unlinked c pre rc s) i) = p_getfrom (procs s i)"
  "p_nr (procs (unlinked c pre rc s) i) = p_nr (procs s i)"
  "p_int_blocked (procs (unlinked c pre rc s) i) = p_int_blocked (procs s i)"
  "p_int_held (procs (unlinked c pre rc s) i) = p_int_held (procs s i)"
  "p_pending (procs (unlinked c pre rc s) i) = p_pending (procs s i)"
  "p_pendcount (procs (unlinked c pre rc s) i) = p_pendcount (procs s i)"
  "nextheld (procs (unlinked c pre rc s)) = nextheld (procs s)"
  "mess_ok (procs (unlinked c pre rc s) i) = mess_ok (procs s i)"
  "held_head (unlinked c pre rc s) = held_head s" "held_tail (unlinked c pre rc s) = held_tail s"
  "sig_procs (unlinked c pre rc s) = sig_procs s" "sys_m (unlinked c pre rc s) = sys_m s"
  "sched_part (unlinked c pre rc s) = sched_part s"
  by (auto simp: unlinked_def)

text \<open>The last part of \<open>do_xit\<close>: off the caller queues, and the slot is free.\<close>

definition slot_freed :: "nat \<Rightarrow> kstate \<Rightarrow> kstate" where
  "slot_freed rc s = upd_proc rc (\<lambda>p. p\<lparr>p_pending := 0, p_pendcount := 0, p_flags := P_SLOT_FREE\<rparr>)
     (if p_flags (procs s rc) AND PENDING \<noteq> 0 then s\<lparr>sig_procs := sig_procs s - 1\<rparr> else s)"

lemma slot_freed_fields:
  "p_flags (procs (slot_freed rc s) j) = (if j = rc then P_SLOT_FREE else p_flags (procs s j))"
  "p_pending (procs (slot_freed rc s) j) = (if j = rc then 0 else p_pending (procs s j))"
  "p_pendcount (procs (slot_freed rc s) j) = (if j = rc then 0 else p_pendcount (procs s j))"
  "p_callerq (procs (slot_freed rc s) j) = p_callerq (procs s j)"
  "sendlink (procs (slot_freed rc s)) = sendlink (procs s)"
  "p_getfrom (procs (slot_freed rc s) j) = p_getfrom (procs s j)"
  "p_nr (procs (slot_freed rc s) j) = p_nr (procs s j)"
  "p_int_blocked (procs (slot_freed rc s) j) = p_int_blocked (procs s j)"
  "p_int_held (procs (slot_freed rc s) j) = p_int_held (procs s j)"
  "nextheld (procs (slot_freed rc s)) = nextheld (procs s)"
  "mess_ok (procs (slot_freed rc s) j) = mess_ok (procs s j)"
  "held_head (slot_freed rc s) = held_head s" "held_tail (slot_freed rc s) = held_tail s"
  "sys_m (slot_freed rc s) = sys_m s" "sched_part (slot_freed rc s) = sched_part s"
  "sig_procs (slot_freed rc s) = sig_procs s - (if pending s rc then 1 else 0)"
  by (auto simp: slot_freed_def pending_def sched_part_def sendlink_def nextheld_def nextready_def fun_eq_iff mess_ok_def)

lemma slot_freed_signals:
  assumes sig: "signals_ok s" and rc: "rc < NR_SLOTS"
  shows "signals_ok (slot_freed rc s)"
proof -
  have p: "pending (slot_freed rc s) = (pending s)(rc := False)"
    by (auto simp: fun_eq_iff pending_def slot_freed_fields)
  have "{i. i < NR_SLOTS \<and> ((pending s)(rc := False)) i} = {i. i < NR_SLOTS \<and> pending s i} - {rc}" by auto
  then have "int (card {i. i < NR_SLOTS \<and> ((pending s)(rc := False)) i}) =
             int (card {i. i < NR_SLOTS \<and> pending s i}) - (if pending s rc then 1 else 0)"
    using card_remove_one [of "{i. i < NR_SLOTS \<and> pending s i}" rc] rc by auto
  then show ?thesis using sig unfolding signals_ok_def p by (auto simp: slot_freed_fields)
qed

lemma exit_unqueue:
  assumes rest: "rest_inv C H s" and sig: "signals_ok s" and l: "limbo {rc} R s" and rc: "11 \<le> rc" "rc < NR_SLOTS"
  shows "\<exists>s' C'. (if p_flags (procs s rc) AND SENDING \<noteq> 0 then unqueue (slots_from 0) rc s else Done s) = Done s' \<and>
           kernel_inv R C' H (slot_freed rc s') \<and>
           (\<forall>i<NR_SLOTS. set (C' i) = set (C i) - {rc})"
proof -
  have C: "callers_ok C s" using rest by (simp add: rest_inv_def)
  obtain s' C' where s': "(if p_flags (procs s rc) AND SENDING \<noteq> 0 then unqueue (slots_from 0) rc s else Done s) = Done s'"
    "callers_ok C' (slot_freed rc s')" "\<And>i. i < NR_SLOTS \<Longrightarrow> set (C' i) = set (C i) - {rc}"
    "s' = s \<or> (\<exists>c pre. s' = unlinked c pre rc s)"
  proof (cases "sending s rc")
    case True
    then obtain c where c: "c < NR_SLOTS" "rc \<in> set (C c)" using C rc by (auto simp: callers_ok_def)
    then obtain pre post where split: "C c = pre @ rc # post" by (meson split_list)
    define s1 where "s1 = unlinked c pre rc s"
    have "(if p_flags (procs s rc) AND SENDING \<noteq> 0 then unqueue (slots_from 0) rc s else Done s) = Done s1"
      using True unqueue_sender [OF C c(1) split] by (simp only: sending_def if_True s1_def) simp
    moreover have "callers_ok (C(c := pre @ post)) (slot_freed rc s1)"
      by (rule callers_ok_dequeue [where s = s, OF C c(1) split])
        (auto simp: slot_freed_fields s1_def unlinked_def fun_eq_iff sending_def)
    moreover have "set ((C(c := pre @ post)) i) = set (C i) - {rc}" if "i < NR_SLOTS" for i
    proof (cases "i = c")
      case True
      then show ?thesis using callers_okD(3) [OF C c(1)] split by auto
    next
      case ne: False
      then have "rc \<notin> set (C i)" using callers_ok_unique [OF C that c(1) _ c(2)] by blast
      then show ?thesis using ne by simp
    qed
    ultimately show ?thesis using that s1_def by blast
  next
    case False
    have no: "rc \<notin> set (C i)" if "i < NR_SLOTS" for i
      using callers_okD(2) [OF C that] False by blast
    have "sending (slot_freed rc s) = sending s" using False by (auto simp: fun_eq_iff sending_def slot_freed_fields)
    then have "callers_ok C (slot_freed rc s)" using C by (simp add: callers_ok_def slot_freed_fields)
    then show ?thesis using that [of s C] False no by (auto simp: sending_def)
  qed
  have f: "p_flags (procs s' i) = p_flags (procs s i)" "p_getfrom (procs s' i) = p_getfrom (procs s i)"
    "p_nr (procs s' i) = p_nr (procs s i)" "p_int_blocked (procs s' i) = p_int_blocked (procs s i)"
    "p_int_held (procs s' i) = p_int_held (procs s i)" "p_pending (procs s' i) = p_pending (procs s i)"
    "p_pendcount (procs s' i) = p_pendcount (procs s i)" "nextheld (procs s') = nextheld (procs s)"
    "mess_ok (procs s' i) = mess_ok (procs s i)" "held_head s' = held_head s" "held_tail s' = held_tail s"
    "sig_procs s' = sig_procs s" "sys_m s' = sys_m s" "sched_part s' = sched_part s" for i
    using s'(4) by (auto simp: unlinked_fields)
  have "rest_inv C' H (slot_freed rc s')"
    by (rule rest_inv_exit [OF rest rc s'(3,2)]) (simp_all add: slot_freed_fields f)
  moreover have "signals_ok (slot_freed rc s')"
    by (rule slot_freed_signals [OF signals_ok_same [OF sig] rc(2)]) (simp_all add: f)
  moreover have "limbo {rc} R (slot_freed rc s')"
    by (rule limbo_same [OF l]) (simp_all add: slot_freed_fields f)
  then have "limbo {} R (slot_freed rc s')"
    by (rule limbo_remove) (simp_all add: runnable_def slot_freed_fields)
  ultimately show ?thesis using s'(1,3)
    by (intro exI [of _ s'] exI [of _ C']) (simp add: kernel_inv_def core_inv_def limbo_none)
qed

text \<open>Exit as a whole.\<close>

definition exit_request :: "addr \<Rightarrow> nat \<Rightarrow> nat \<Rightarrow> kstate \<Rightarrow> bool" where
  "exit_request m p rc s \<longleftrightarrow> 9 \<le> p \<and> p < NR_SLOTS \<and> 11 \<le> rc \<and> rc < NR_SLOTS \<and>
     msg_int m m1_i1 s = int p - NR_TASKS \<and> msg_int m m1_i2 s = int rc - NR_TASKS \<and> shadow_ok rc s"

lemma do_xit_inv:
  assumes ok: "kernel_ok s" and req: "exit_request m p rc s"
  shows "\<exists>s'. do_xit m s = Done (OK, s') \<and> kernel_ok s' \<and> p_flags (procs s' rc) = P_SLOT_FREE \<and>
           (\<forall>q<NQ. rc \<notin> set (ready_q s' q)) \<and> (\<forall>i<NR_SLOTS. set (callers s' i) = set (callers s i) - {rc})"
proof -
  note inv = kernel_okD [OF ok]
  have p: "9 \<le> p" "p < NR_SLOTS" and rc: "11 \<le> rc" "rc < NR_SLOTS" and sh: "shadow_ok rc s"
    and m1: "msg_int m m1_i1 s = int p - NR_TASKS" and m2: "msg_int m m1_i2 s = int rc - NR_TASKS"
    using req by (simp_all add: exit_request_def)
  have us: "isoksusern (int p - NR_TASKS)" "isoksusern (int rc - NR_TASKS)"
    using p rc by (auto simp: isoksusern_def)
  have pa: "proc_addr (int p - NR_TASKS) = Done p" "proc_addr (int rc - NR_TASKS) = Done rc"
    using p rc by (simp_all only: proc_addr_slot)
  define s1 where "s1 = upd_proc p (\<lambda>q. q\<lparr>child_utime := child_utime q + (user_time (procs s rc) + child_utime (procs s rc))\<rparr>) s"
  define s2 where "s2 = upd_proc p (\<lambda>q. q\<lparr>child_stime := child_stime q + (sys_time (procs s1 rc) + child_stime (procs s1 rc))\<rparr>) s1"
  define s3 where "s3 = upd_proc rc (p_alarm_update (\<lambda>_. 0)) s2"
  have q3: "quiet s s3" and part3: "sched_part s3 = sched_part s"
    by (auto simp: quiet_def s3_def s2_def s1_def rest_part_def sched_part_def sendlink_def nextheld_def
        nextready_def fun_eq_iff mess_ok_def)
  have f3: "p_shadow (procs s3 i) = p_shadow (procs s i)" "p_physio (procs s3 i) = p_physio (procs s i)" for i
    by (auto simp: s3_def s2_def s1_def)
  have l3: "limbo {} (ready_q s) s3"
    by (rule limbo_same [of _ _ s]) (use inv part3 q3 in \<open>simp_all add: limbo_none kernel_inv_def core_inv_def quiet_def\<close>)
  obtain s4 R4 where s4: "(if p_flags (procs s3 rc) = 0 then lock_unready rc s3 else Done s3) = Done s4"
    "limbo {rc} R4 s4" "off_queues s4 = off_queues s3"
    using limbo_take [OF l3 rc] by auto
  have "shadow_ok rc s4"
    using sh q3 unfolding shadow_ok_def same_place_def quiet_def
    by (simp add: off_projs [OF s4(3)] f3 cong: option.case_cong)
  then obtain base len s5 R5 where s5: "rmshadow rc s4 = Done ((base, len), s5)" "limbo {rc} R5 s5" "quiet s4 s5"
    using rmshadow_inv [OF s4(2) rc(2)] by (metis surj_pair)
  define s6 where "s6 = set_int m m1_i1 (uint base) s5"
  define s7 where "s7 = set_int m m1_i2 (uint len) s6"
  have q7: "quiet s s7"
  proof -
    have "quiet s5 s7" by (simp add: s7_def s6_def set_int_def quiet_def)
    then show ?thesis using q3 quiet_off [OF s4(3)] s5(3) quiet_trans by meson
  qed
  have l7: "limbo {rc} R5 s7" by (rule limbo_same [OF s5(2)]) (simp_all add: s7_def s6_def)
  have rest7: "rest_inv (callers s) (held s) s7" and sig7: "signals_ok s7"
    using inv rest_inv_same [of s7 s] signals_ok_same [of s s7] q7
    by (simp_all add: kernel_inv_def core_inv_def quiet_def)
  obtain s8 C8 where s8: "(if p_flags (procs s7 rc) AND SENDING \<noteq> 0 then unqueue (slots_from 0) rc s7 else Done s7) = Done s8"
    "kernel_inv R5 C8 (held s) (slot_freed rc s8)" "\<forall>i<NR_SLOTS. set (C8 i) = set (callers s i) - {rc}"
    using exit_unqueue [OF rest7 sig7 l7 rc] by blast
  define s9 where "s9 = slot_freed rc s8"
  have run: "do_xit m s = Done (OK, s9)"
    unfolding do_xit_def Let_def m1 m2 using us
    by (simp only: simp_thms if_False pa andthen.simps s1_def [symmetric] s2_def [symmetric] s3_def [symmetric]
        s4(1) s5(1) prod.case s6_def [symmetric] s7_def [symmetric] s8(1) s9_def slot_freed_def)
  have fr: "p_flags (procs s9 rc) = P_SLOT_FREE" by (simp add: s9_def slot_freed_fields)
  then have "\<not> runnable s9 rc" by (simp add: runnable_def)
  then have "limbo {rc} R5 s9"
    using s8(2) rc limbo_intro by (simp add: kernel_inv_def core_inv_def s9_def)
  then have "\<forall>q<NQ. rc \<notin> set (ready_q s9 q)"
    using kernel_inv_lists(1) [OF s8(2)] by (simp add: limbo_def s9_def)
  then show ?thesis using run fr s8(2,3) kernel_okI [OF s8(2)] kernel_inv_lists(2) [OF s8(2)]
    by (intro exI [of _ s9]) (simp add: s9_def)
qed

subsection \<open>Fork\<close>

text \<open>What the memory manager ensures: the parent is blocked in its call and nobody waits to
  send to it, and the child slot is free.\<close>

definition fork_request :: "addr \<Rightarrow> nat \<Rightarrow> nat \<Rightarrow> kstate \<Rightarrow> bool" where
  "fork_request m p c s \<longleftrightarrow> 11 \<le> p \<and> p < NR_SLOTS \<and> 11 \<le> c \<and> c < NR_SLOTS \<and> p \<noteq> c \<and>
     msg_int m m1_i1 s = int p - NR_TASKS \<and> msg_int m m1_i2 s = int c - NR_TASKS \<and>
     receiving s p \<and> \<not> sending s p \<and> callers s p = [] \<and>
     p_flags (procs s c) = P_SLOT_FREE \<and> callers s c = []"

lemma fork_rest:
  assumes inv: "rest_inv C H s" and p: "11 \<le> p" "p < NR_SLOTS" "receiving s p" "\<not> sending s p" "C p = []"
    and c: "11 \<le> c" "c < NR_SLOTS" "p \<noteq> c" "p_flags (procs s c) = P_SLOT_FREE" "C c = []"
  shows "rest_inv C H (upd_proc c (\<lambda>_. forked (procs s p) (int c - NR_TASKS) pid) s)"
proof -
  define s' where "s' = upd_proc c (\<lambda>_. forked (procs s p) (int c - NR_TASKS) pid) s"
  have C: "callers_ok C s" and W: "wait_ok C s" and I: "ints_ok s" and Hd: "held_ok H s" and L: "slots_ok s"
    using inv by (simp_all add: rest_inv_def)
  have nc: "\<not> sending s c" "\<not> receiving s c" using c by (simp_all add: sending_def receiving_def)
  have f: "p_flags (procs s' i) = (if i = c then p_flags (procs s p) AND NOT (PENDING OR SIG_PENDING OR P_STOP)
                                   else p_flags (procs s i))"
    "p_nr (procs s' i) = (if i = c then int c - NR_TASKS else p_nr (procs s i))"
    "p_callerq (procs s' i) = (if i = c then p_callerq (procs s p) else p_callerq (procs s i))"
    "p_getfrom (procs s' i) = (if i = c then p_getfrom (procs s p) else p_getfrom (procs s i))"
    "p_int_blocked (procs s' i) = (if i = c then p_int_blocked (procs s p) else p_int_blocked (procs s i))"
    "p_int_held (procs s' i) = (if i = c then p_int_held (procs s p) else p_int_held (procs s i))" for i
    by (auto simp: s'_def forked_def)
  have links: "sendlink (procs s') = (sendlink (procs s))(c := sendlink (procs s) p)"
    "nextheld (procs s') = (nextheld (procs s))(c := nextheld (procs s) p)"
    "held_head s' = held_head s" "held_tail s' = held_tail s" "sys_m s' = sys_m s"
    by (auto simp: s'_def forked_def sendlink_def nextheld_def)
  have st: "sending s' = sending s" "receiving s' = (receiving s)(c := True)"
    using p nc by (auto simp: fun_eq_iff sending_def receiving_def f flag_simps)
  have w: "waiting s' i \<longleftrightarrow> (if i = c then True else waiting s i)" for i
    using nc by (auto simp: waiting_def st)
  have notin: "c \<notin> set (C i)" if "i < NR_SLOTS" for i using callers_okD(2) [OF C that] nc by blast
  have pq: "p_callerq (procs s p) = None" using callers_okD(1) [OF C p(2)] p(5) by simp
  have "chain (sendlink (procs s')) (p_callerq (procs s' i)) (C i)" if i: "i < NR_SLOTS" for i
    using callers_okD(1) [OF C i] notin [OF i] c(5) pq by (cases "i = c") (simp_all add: links f)
  then have "callers_ok C s'"
    using C unfolding callers_ok_def st by blast
  moreover have "wait_ok C s'"
    unfolding wait_ok_def
  proof (intro conjI)
    show "\<forall>i<NR_SLOTS. \<forall>j<NR_SLOTS. i \<in> set (C j) \<longrightarrow> j \<in> set (C i) \<longrightarrow> i = j"
      using W by (simp add: wait_ok_def)
    show "\<forall>i<NR_SLOTS. waiting s' i \<longrightarrow> (\<forall>j\<in>set (C i). \<not> accepts s' i j)"
      using wait_okD(2) [OF W] c(5) w by (auto simp: accepts_def f split: if_splits)
    show "\<forall>i<NR_SLOTS. sending s' i \<longrightarrow> receiving s' i \<longrightarrow>
            (\<exists>d<NR_SLOTS. p_getfrom (procs s' i) = int d - NR_TASKS \<and> i \<in> set (C d))"
      using wait_okD(3) [OF W] nc by (auto simp: st f split: if_splits)
  qed
  moreover have "ints_ok s'"
  proof -
    have "waiting s p" using p by (simp add: waiting_def)
    then show ?thesis using I p unfolding ints_ok_def by (auto simp: w f)
  qed
  moreover have "held_ok H s'"
  proof -
    have n: "c \<notin> set H" "\<not> p_int_held (procs s p)" using Hd p c by (auto simp: held_ok_def)
    then have "chain (nextheld (procs s')) (held_head s) H" using Hd by (simp add: held_ok_def links)
    then show ?thesis using Hd n by (auto simp: held_ok_def f links)
  qed
  moreover have "slots_ok s'" using L c by (auto simp: slots_ok_def f links) (simp add: s'_def mess_ok_def)
  ultimately show ?thesis by (simp add: rest_inv_def s'_def)
qed

lemma do_fork_inv:
  assumes ok: "kernel_ok s" and req: "fork_request m p c s"
  shows "\<exists>s'. do_fork m s = Done (OK, s') \<and> kernel_ok s' \<and> waiting s' c \<and> p_nr (procs s' c) = int c - NR_TASKS \<and>
           p_reg (procs s' c) reg_ret = 0 \<and> p_pid (procs s' c) = msg_int m m1_i3 s \<and>
           p_shadow (procs s' c) = p_shadow (procs s p) \<and> p_shadow (procs s' p) = ucast (msg_long m m1_p1 s)"
proof -
  note inv = kernel_okD [OF ok]
  have p: "11 \<le> p" "p < NR_SLOTS" "receiving s p" "\<not> sending s p" "callers s p = []"
    and c: "11 \<le> c" "c < NR_SLOTS" "p \<noteq> c" "p_flags (procs s c) = P_SLOT_FREE" "callers s c = []"
    and m1: "msg_int m m1_i1 s = int p - NR_TASKS" and m2: "msg_int m m1_i2 s = int c - NR_TASKS"
    using req by (simp_all add: fork_request_def)
  have us: "isoksusern (int p - NR_TASKS)" "isoksusern (int c - NR_TASKS)"
    using p c by (auto simp: isoksusern_def)
  have pa: "proc_addr (int p - NR_TASKS) = Done p" "proc_addr (int c - NR_TASKS) = Done c"
    using p c by (simp_all only: proc_addr_slot)
  define s1 where "s1 = upd_proc c (\<lambda>_. forked (procs s p) (int c - NR_TASKS) (msg_int m m1_i3 s)) s"
  define s2 where "s2 = mkshadow p (ucast (msg_long m m1_p1 s1)) s1"
  have run: "do_fork m s = Done (OK, s2)"
    unfolding do_fork_def Let_def m1 m2 using us
    by (simp only: simp_thms if_False pa andthen.simps s1_def s2_def)
  have sch: "sched_inv (ready_q s) s" using inv by (simp add: kernel_inv_def core_inv_def)
  have nr: "\<not> runnable s p" "\<not> runnable s c" using p c by (auto simp: runnable_def receiving_def)
  have "limbo {c, p} (ready_q s) s" using limbo_insert [OF limbo_intro [OF sch p(2) nr(1)] c(2) nr(2)] .
  then have l1: "limbo {c, p} (ready_q s) s1" unfolding s1_def by (rule limbo_any) simp
  have mk: "s2 = (upd_mem (\<lambda>mem. kmem s2) (upd_proc p (p_shadow_update (\<lambda>_. ucast (msg_long m m1_p1 s1))) s1))\<lparr>flipwait := 5\<rparr>"
    by (simp add: s2_def mkshadow_def Let_def upd_mem_def upd_proc_def)
  define s3 where "s3 = upd_proc p (p_shadow_update (\<lambda>_. ucast (msg_long m m1_p1 s1))) s1"
  have l3: "limbo {c, p} (ready_q s) s3" unfolding s3_def by (rule limbo_any [OF l1]) simp
  have q2: "quiet s3 s2" by (subst mk) (simp add: s3_def quiet_def rest_part_def)
  have "sched_part s2 = sched_part s3" by (subst mk) (simp add: s3_def)
  then have l2: "limbo {c, p} (ready_q s) s2"
    by (rule limbo_same [OF l3]) (use q2 in \<open>simp add: quiet_def\<close>)
  have fl: "p_flags (procs s2 i) = (if i = c then p_flags (procs s p) AND NOT (PENDING OR SIG_PENDING OR P_STOP)
                                    else p_flags (procs s i))" for i
    using q2 c(3) by (simp add: quiet_def s3_def s1_def forked_def)
  have nz: "(p_flags (procs s p) AND NOT (PENDING OR SIG_PENDING OR P_STOP)) \<noteq> 0"
    using p(3) flag_clear_zero [of "p_flags (procs s p)" "PENDING OR SIG_PENDING OR P_STOP" RECEIVING]
    by (auto simp: receiving_def)
  have "limbo {p} (ready_q s) s2"
    by (rule limbo_remove [OF l2]) (use nz c in \<open>auto simp: runnable_def fl\<close>)
  then have l0: "limbo {} (ready_q s) s2"
    by (rule limbo_remove) (use p c in \<open>auto simp: runnable_def fl receiving_def\<close>)
  have "rest_inv (callers s) (held s) s1"
    unfolding s1_def by (rule fork_rest [OF _ p c]) (use inv in \<open>simp add: kernel_inv_def core_inv_def\<close>)
  moreover have "rest_part s2 = rest_part s1"
    using q2 quiet_shadow [of s1 p] unfolding s3_def quiet_def by metis
  ultimately have rest: "rest_inv (callers s) (held s) s2" using rest_inv_same by blast
  have sig0: "signals_ok s" using inv by (simp add: kernel_inv_def)
  have pend: "pending s2 = pending s" using c(4) by (auto simp: fun_eq_iff pending_def fl flag_simps)
  have f: "p_pending (procs s2 i) = (if i = c then 0 else p_pending (procs s i))"
    "p_pendcount (procs s2 i) = (if i = c then 0 else p_pendcount (procs s i))" "sig_procs s2 = sig_procs s" for i
    using q2 c(3) by (auto simp: quiet_def s3_def s1_def forked_def)
  have npc: "\<not> pending s c" using c(4) by (simp add: pending_def)
  have "signals_ok s2"
    using sig0 npc unfolding signals_ok_def pend by (auto simp: f fl)
  then have "kernel_inv (ready_q s) (callers s) (held s) s2"
    using rest l0 by (simp add: kernel_inv_def core_inv_def limbo_none)
  moreover have "waiting s2 c" using p(3,4) by (simp add: waiting_def sending_def receiving_def fl flag_simps)
  moreover have "p_nr (procs s2 c) = int c - NR_TASKS" "p_reg (procs s2 c) reg_ret = 0"
    "p_pid (procs s2 c) = msg_int m m1_i3 s" "p_shadow (procs s2 c) = p_shadow (procs s p)"
    "p_shadow (procs s2 p) = ucast (msg_long m m1_p1 s)"
    using c(3) by (simp_all add: s2_def mkshadow_def Let_def s1_def forked_def)
  ultimately show ?thesis using run kernel_okI by (intro exI [of _ s2]) simp
qed

end
