(* ===== verification/Kernel_Main.thy ===== *)
theory Kernel_Main
  imports Kernel_Proc
begin

section \<open>Kernel: start-up\<close>

text \<open>
  \<open>main\<close> of kernel/stmain.c sets up the process table: the tasks, the two servers and
  init are runnable, every other slot is free.  The sizes of the programs in the boot image
  and the table of tasks are parameters.
\<close>

unbundle bit_operations_syntax

record boot =
  sizes :: "nat \<Rightarrow> u16"
  initial_pc :: "nat \<Rightarrow> addr"
  stksize :: "nat \<Rightarrow> addr"
  t_stack :: addr

definition main_clear :: "kstate \<Rightarrow> kstate" where
  "main_clear s = fold (\<lambda>i. upd_proc i (\<lambda>p. p\<lparr>p_flags := P_SLOT_FREE, p_nr := int i - NR_TASKS\<rparr>)) (slots_from 0) s"

definition kernel_seg :: "boot \<Rightarrow> nat \<Rightarrow> mem_map \<Rightarrow> mem_map" where
  "kernel_seg b seg mm =
     (let end = sizes b 0 + sizes b 1 in
      if seg = seg_T then mm\<lparr>mem_len := sizes b 0\<rparr>
      else if seg = seg_D then \<lparr>mem_vir = sizes b 0, mem_phys = sizes b 0, mem_len = sizes b 1\<rparr>
      else if seg = seg_S then mm\<lparr>mem_phys := end, mem_vir := end\<rparr>
      else mm)"

text \<open>One driver: slot \<open>i\<close>, its stack growing down from \<open>ktsb\<close>.\<close>

definition main_task :: "boot \<Rightarrow> nat \<Rightarrow> addr \<Rightarrow> kstate \<Rightarrow> kstate run" where
  "main_task b i ktsb s =
     (let s = upd_proc i (\<lambda>p. p\<lparr>p_flags := 0,
                 p_reg := (p_reg p)(reg_sp := ktsb, reg_pc := initial_pc b i), p_splow := ktsb\<rparr>) s
      in andthen (if isidlehardware (int i - NR_TASKS) then Done s else lock_ready i s) (\<lambda>s.
      let s = upd_proc i (p_psw_update (\<lambda>_. if isidlehardware (int i - NR_TASKS) then 0x0200 else 0x2200)) s
      in Done (upd_proc i (\<lambda>p. p\<lparr>p_map := (\<lambda>seg. kernel_seg b seg (p_map p seg))\<rparr>) s)))"

fun main_tasks :: "boot \<Rightarrow> nat list \<Rightarrow> addr \<Rightarrow> kstate \<Rightarrow> kstate run" where
  "main_tasks b [] ktsb s = Done s"
| "main_tasks b (i # is) ktsb s =
     andthen (main_task b i (ktsb + stksize b i) s) (main_tasks b is (ktsb + stksize b i))"

definition user_seg :: "u16 \<Rightarrow> u16 \<Rightarrow> u16 \<Rightarrow> nat \<Rightarrow> mem_map \<Rightarrow> mem_map" where
  "user_seg base text data seg mm =
     (if seg = seg_T then \<lparr>mem_vir = base, mem_phys = base, mem_len = text\<rparr>
      else if seg = seg_D then \<lparr>mem_vir = base + text, mem_phys = base + text, mem_len = data\<rparr>
      else if seg = seg_S then \<lparr>mem_vir = base + text + data, mem_phys = base + text + data, mem_len = 0\<rparr>
      else mm)"

text \<open>MM, FS and init: process number \<open>t\<close> is loaded at click \<open>base\<close>.\<close>

definition main_user :: "boot \<Rightarrow> nat \<Rightarrow> u16 \<Rightarrow> kstate \<Rightarrow> kstate run" where
  "main_user b t base s =
     (let i = t + 9;
          s = upd_proc i (p_flags_update (\<lambda>_. 0)) s
      in andthen (lock_ready i s) (\<lambda>s.
      let s = upd_proc i (p_psw_update (\<lambda>_. 0x0200)) s;
          s = upd_proc i (p_reg_update (\<lambda>r. r(reg_pc := click_addr base))) s
      in Done (upd_proc i (\<lambda>p. p\<lparr>p_map := (\<lambda>seg. user_seg base (sizes b (2 * t + 2)) (sizes b (2 * t + 3)) seg (p_map p seg))\<rparr>) s)))"

fun main_users :: "boot \<Rightarrow> nat list \<Rightarrow> u16 \<Rightarrow> kstate \<Rightarrow> kstate run" where
  "main_users b [] base s = Done s"
| "main_users b (t # ts) base s =
     andthen (main_user b t base s) (main_users b ts (base + sizes b (2 * t + 2) + sizes b (2 * t + 3)))"

definition main :: "boot \<Rightarrow> kstate \<Rightarrow> kstate run" where
  "main b s =
     (let s = main_clear s;
          ktsb = (t_stack b + 3) AND NOT 3
      in andthen (main_tasks b [0..<9] ktsb s) (\<lambda>s.
      let s = upd_proc (cproc_addr HARDWARE) (\<lambda>p. p\<lparr>p_map := (p_map p)(seg_D :=
                 \<lparr>mem_vir = 0, mem_phys = 0, mem_len = NOT 0\<rparr>)\<rparr>) s
      in andthen (main_users b [0..<3] (sizes b 0 + sizes b 1) s) (\<lambda>s.
      let s = s\<lparr>bill_ptr := cproc_addr HARDWARE\<rparr>
      in Done (lock_pick_proc s))))"

subsection \<open>The table at start-up\<close>

text \<open>Uninitialised data is zero when the kernel starts.\<close>

definition zeroed :: "kstate \<Rightarrow> bool" where
  "zeroed s \<longleftrightarrow> rdy_head s = (\<lambda>_. None) \<and> held_head s = None \<and> held_tail s = None \<and> sig_procs s = 0 \<and>
     (\<forall>i. p_callerq (procs s i) = None \<and> \<not> p_int_blocked (procs s i) \<and> \<not> p_int_held (procs s i) \<and>
          p_pending (procs s i) = 0 \<and> p_pendcount (procs s i) = 0 \<and> p_shadow (procs s i) = 0)"

definition boot_table :: "nat set \<Rightarrow> (nat \<Rightarrow> nat list) \<Rightarrow> kstate \<Rightarrow> bool" where
  "boot_table A R s \<longleftrightarrow> ready_lists R s \<and> (\<forall>i<NR_SLOTS. i \<in> set (R (queue_of s i)) \<longleftrightarrow> runnable s i) \<and>
     held_head s = None \<and> held_tail s = None \<and> sig_procs s = 0 \<and>
     (\<forall>i. p_callerq (procs s i) = None \<and> \<not> p_int_blocked (procs s i) \<and> \<not> p_int_held (procs s i) \<and>
          p_pending (procs s i) = 0 \<and> p_pendcount (procs s i) = 0 \<and> p_shadow (procs s i) = 0) \<and>
     (\<forall>i<NR_SLOTS. p_nr (procs s i) = int i - NR_TASKS \<and>
        p_flags (procs s i) = (if i \<in> A then 0 else P_SLOT_FREE))"

lemma boot_table_start:
  assumes "zeroed s" shows "boot_table {} (\<lambda>_. []) (main_clear s)"
proof -
  have pr: "procs (fold (\<lambda>i. upd_proc i (\<lambda>p. p\<lparr>p_flags := P_SLOT_FREE, p_nr := int i - NR_TASKS\<rparr>)) xs s) j =
      (if j \<in> set xs then (procs s j)\<lparr>p_flags := P_SLOT_FREE, p_nr := int j - NR_TASKS\<rparr> else procs s j)" for xs j s
    by (induction xs arbitrary: s) auto
  have other: "rdy_head (fold (\<lambda>i. upd_proc i (f i)) xs s) = rdy_head s"
    "held_head (fold (\<lambda>i. upd_proc i (f i)) xs s) = held_head s"
    "held_tail (fold (\<lambda>i. upd_proc i (f i)) xs s) = held_tail s"
    "sig_procs (fold (\<lambda>i. upd_proc i (f i)) xs s) = sig_procs s" for f xs s
    by (induction xs arbitrary: s) auto
  show ?thesis using assms
    by (auto simp: boot_table_def main_clear_def pr other zeroed_def ready_lists_def runnable_def)
qed

text \<open>One slot more is runnable.\<close>

lemma boot_ready:
  assumes b: "boot_table A R s" and i: "i < NR_SLOTS" "i \<notin> A" "i \<noteq> 1" "i \<noteq> 8"
    and s1: "s1 = upd_proc i f s" "f (procs s i) = (procs s i)\<lparr>p_flags := 0, p_reg := r, p_splow := l\<rparr>"
  shows "\<exists>s' R'. lock_ready i s1 = Done s' \<and> boot_table (insert i A) R' s' \<and>
           (\<forall>j. p_map (procs s' j) = p_map (procs s1 j)) \<and> sys_m s' = sys_m s"
proof -
  have pr: "procs s1 j = (if j = i then (procs s i)\<lparr>p_flags := 0, p_reg := r, p_splow := l\<rparr> else procs s j)" for j
    by (simp add: s1)
  have nx: "nextready (procs s1) = nextready (procs s)" by (auto simp: fun_eq_iff nextready_def pr)
  have q: "queue_of s1 = queue_of s" by (auto simp: fun_eq_iff queue_of_def isshadowp_def pr)
  have R1: "ready_lists R s1" using b by (simp add: boot_table_def ready_lists_def nx q) (simp add: s1)
  have "\<not> runnable s i" using b i by (simp add: boot_table_def runnable_def)
  then have ni: "i \<notin> set (R (queue_of s1 i))" using b i by (simp add: boot_table_def q)
  obtain s2 where s2: "lock_ready i s1 = Done s2"
    "ready_lists (R(queue_of s1 i := R (queue_of s1 i) @ [i])) s2" "off_queues s2 = off_queues s1"
    using ready_lists_lock_ready [OF R1 i(1) ni] by blast
  have run: "runnable s1 j \<longleftrightarrow> (if j = i then True else runnable s j)" for j
    using i by (simp add: runnable_def pr)
  have "boot_table (insert i A) (R(queue_of s1 i := R (queue_of s1 i) @ [i])) s2"
    using b s2(2) i unfolding boot_table_def
    by (auto simp: off_projs [OF s2(3)] off_queues_fields [OF s2(3)] off_states [OF s2(3)] q run pr)
       (auto simp: s1)
  moreover have "p_map (procs s2 j) = p_map (procs s1 j)" "sys_m s2 = sys_m s" for j
    by (simp_all add: off_projs [OF s2(3)] off_queues_fields [OF s2(3)]) (simp add: s1)
  ultimately show ?thesis using s2(1) by blast
qed

lemma boot_quiet:
  assumes b: "boot_table A R s" and i: "s1 = upd_proc i f s"
    and f: "p_nextready (f p) = p_nextready p" "p_flags (f p) = p_flags p" "p_nr (f p) = p_nr p"
      "p_callerq (f p) = p_callerq p" "p_int_blocked (f p) = p_int_blocked p" "p_int_held (f p) = p_int_held p"
      "p_pending (f p) = p_pending p" "p_pendcount (f p) = p_pendcount p" "p_shadow (f p) = p_shadow p"
      "p = procs s i"
  shows "boot_table A R s1"
proof -
  have nx: "nextready (procs s1) = nextready (procs s)" using f by (auto simp: fun_eq_iff nextready_def i)
  have same: "p_flags (procs s1 j) = p_flags (procs s j)" "p_nr (procs s1 j) = p_nr (procs s j)"
    "p_callerq (procs s1 j) = p_callerq (procs s j)" "p_int_blocked (procs s1 j) = p_int_blocked (procs s j)"
    "p_int_held (procs s1 j) = p_int_held (procs s j)" "p_pending (procs s1 j) = p_pending (procs s j)"
    "p_pendcount (procs s1 j) = p_pendcount (procs s j)" "p_shadow (procs s1 j) = p_shadow (procs s j)" for j
    using f by (auto simp: i)
  have glob: "rdy_head s1 = rdy_head s" "rdy_tail s1 = rdy_tail s" "held_head s1 = held_head s"
    "held_tail s1 = held_tail s" "sig_procs s1 = sig_procs s"
    by (simp_all add: i)
  have "queue_of s1 = queue_of s" "runnable s1 = runnable s"
    by (auto simp: fun_eq_iff queue_of_def isshadowp_def runnable_def same)
  then show ?thesis using b by (simp add: boot_table_def ready_lists_def nx same glob)
qed

lemma boot_idle:
  assumes b: "boot_table A R s" and i: "i = 1 \<or> i = 8"
    and s1: "s1 = upd_proc i f s" "f (procs s i) = (procs s i)\<lparr>p_flags := 0, p_reg := r, p_splow := l\<rparr>"
  shows "boot_table (insert i A) R s1"
proof -
  have pr: "procs s1 j = (if j = i then (procs s i)\<lparr>p_flags := 0, p_reg := r, p_splow := l\<rparr> else procs s j)" for j
    by (simp add: s1)
  have nx: "nextready (procs s1) = nextready (procs s)" by (auto simp: fun_eq_iff nextready_def pr)
  have q: "queue_of s1 = queue_of s" "runnable s1 = runnable s"
    using i by (auto simp: fun_eq_iff queue_of_def isshadowp_def runnable_def pr)
  have glob: "rdy_head s1 = rdy_head s" "rdy_tail s1 = rdy_tail s" "held_head s1 = held_head s"
    "held_tail s1 = held_tail s" "sig_procs s1 = sig_procs s"
    by (simp_all add: s1)
  show ?thesis using b unfolding boot_table_def ready_lists_def nx q glob by (auto simp: pr)
qed

text \<open>The data segment of a driver, and where program \<open>t\<close> of the boot image is loaded.\<close>

definition task_data :: "boot \<Rightarrow> mem_map" where
  "task_data b = \<lparr>mem_vir = sizes b 0, mem_phys = sizes b 0, mem_len = sizes b 1\<rparr>"

definition image_at :: "boot \<Rightarrow> nat list \<Rightarrow> u16 \<Rightarrow> u16" where
  "image_at b ts base = foldl (\<lambda>c t. c + sizes b (2 * t + 2) + sizes b (2 * t + 3)) base ts"

definition loaded :: "boot \<Rightarrow> nat \<Rightarrow> u16 \<Rightarrow> proc \<Rightarrow> bool" where
  "loaded b t base p \<longleftrightarrow>
     p_map p seg_T = \<lparr>mem_vir = base, mem_phys = base, mem_len = sizes b (2 * t + 2)\<rparr> \<and>
     p_map p seg_D = \<lparr>mem_vir = base + sizes b (2 * t + 2), mem_phys = base + sizes b (2 * t + 2),
                     mem_len = sizes b (2 * t + 3)\<rparr> \<and>
     p_map p seg_S = (let end = base + sizes b (2 * t + 2) + sizes b (2 * t + 3) in
                     \<lparr>mem_vir = end, mem_phys = end, mem_len = 0\<rparr>)"

lemma main_task_ok:
  assumes b: "boot_table A R s" and i: "i < 9" "i \<notin> A"
  shows "\<exists>s' R'. main_task b i ktsb s = Done s' \<and> boot_table (insert i A) R' s' \<and> sys_m s' = sys_m s \<and>
           (\<forall>j. p_map (procs s' j) seg_D = (if j = i then task_data b else p_map (procs s j) seg_D))"
proof -
  let ?r = "(p_reg (procs s i))(reg_sp := ktsb, reg_pc := initial_pc b i)"
  define s1 where "s1 = upd_proc i (\<lambda>p. p\<lparr>p_flags := 0,
                 p_reg := (p_reg p)(reg_sp := ktsb, reg_pc := initial_pc b i), p_splow := ktsb\<rparr>) s"
  have hw: "isidlehardware (int i - NR_TASKS) \<longleftrightarrow> i = 1 \<or> i = 8" using i by (auto simp: isidlehardware_def)
  obtain s2 R' where s2: "(if isidlehardware (int i - NR_TASKS) then Done s1 else lock_ready i s1) = Done s2"
    "boot_table (insert i A) R' s2" "sys_m s2 = sys_m s" "\<forall>j. p_map (procs s2 j) = p_map (procs s j)"
  proof (cases "i = 1 \<or> i = 8")
    case True
    have "boot_table (insert i A) R s1" by (rule boot_idle [OF b True s1_def]) simp
    then show ?thesis using that [of s1 R] True hw by (simp add: s1_def)
  next
    case False
    obtain s2 R' where s2: "lock_ready i s1 = Done s2" "boot_table (insert i A) R' s2"
      "\<forall>j. p_map (procs s2 j) = p_map (procs s1 j)" "sys_m s2 = sys_m s"
      using boot_ready [OF b _ i(2) _ _ s1_def, where r = ?r and l = ktsb] False i(1) by auto
    moreover have "p_map (procs s1 j) = p_map (procs s j)" for j by (simp add: s1_def)
    ultimately show ?thesis using that [of s2 R'] False hw by simp
  qed
  define s3 where "s3 = upd_proc i (p_psw_update (\<lambda>_. if isidlehardware (int i - NR_TASKS) then 0x0200 else 0x2200)) s2"
  define s4 where "s4 = upd_proc i (\<lambda>p. p\<lparr>p_map := (\<lambda>seg. kernel_seg b seg (p_map p seg))\<rparr>) s3"
  have "boot_table (insert i A) R' s3" by (rule boot_quiet [OF s2(2) s3_def]) simp_all
  then have "boot_table (insert i A) R' s4" by (rule boot_quiet [OF _ s4_def]) simp_all
  moreover have "main_task b i ktsb s = Done s4"
    unfolding main_task_def Let_def s1_def [symmetric] s2(1) andthen.simps s3_def [symmetric] s4_def [symmetric]
    by (rule refl)
  moreover have "p_map (procs s4 j) seg_D = (if j = i then task_data b else p_map (procs s j) seg_D)" for j
    using s2(4) by (simp add: s4_def s3_def kernel_seg_def task_data_def Let_def)
  ultimately show ?thesis using s2(3) by (auto simp: s4_def s3_def)
qed

lemma main_tasks_ok:
  assumes "boot_table A R s" and "set is \<subseteq> {..<9}" and "distinct is" and "set is \<inter> A = {}"
  shows "\<exists>s' R'. main_tasks b is ktsb s = Done s' \<and> boot_table (A \<union> set is) R' s' \<and> sys_m s' = sys_m s \<and>
           (\<forall>j. p_map (procs s' j) seg_D = (if j \<in> set is then task_data b else p_map (procs s j) seg_D))"
  using assms
proof (induction "is" arbitrary: A R s ktsb)
  case Nil
  then show ?case by auto
next
  case (Cons i "is")
  obtain s1 R1 where s1: "main_task b i (ktsb + stksize b i) s = Done s1" "boot_table (insert i A) R1 s1" "sys_m s1 = sys_m s"
    "\<forall>j. p_map (procs s1 j) seg_D = (if j = i then task_data b else p_map (procs s j) seg_D)"
    using main_task_ok [OF Cons.prems(1), of i b "ktsb + stksize b i"] Cons.prems by auto
  obtain s2 R2 where s2: "main_tasks b is (ktsb + stksize b i) s1 = Done s2" "boot_table (insert i A \<union> set is) R2 s2"
    "sys_m s2 = sys_m s1"
    "\<forall>j. p_map (procs s2 j) seg_D = (if j \<in> set is then task_data b else p_map (procs s1 j) seg_D)"
    using Cons.IH [OF s1(2), of "ktsb + stksize b i"] Cons.prems by auto
  then show ?case using s1 by auto
qed

lemma main_user_ok:
  assumes b: "boot_table A R s" and t: "t < 3" "t + 9 \<notin> A"
  shows "\<exists>s' R'. main_user b t base s = Done s' \<and> boot_table (insert (t + 9) A) R' s' \<and> sys_m s' = sys_m s \<and>
           (\<forall>j. j \<noteq> t + 9 \<longrightarrow> p_map (procs s' j) = p_map (procs s j)) \<and> loaded b t base (procs s' (t + 9))"
proof -
  define i where "i = t + 9"
  have i: "i < NR_SLOTS" "i \<notin> A" "i \<noteq> 1" "i \<noteq> 8" using t by (simp_all add: i_def)
  define s1 where "s1 = upd_proc i (p_flags_update (\<lambda>_. 0)) s"
  have f: "p_flags_update (\<lambda>_. 0) (procs s i) =
      (procs s i)\<lparr>p_flags := 0, p_reg := p_reg (procs s i), p_splow := p_splow (procs s i)\<rparr>" by simp
  obtain s2 R' where s2: "lock_ready i s1 = Done s2" "boot_table (insert i A) R' s2"
    "\<forall>j. p_map (procs s2 j) = p_map (procs s1 j)" "sys_m s2 = sys_m s"
    using boot_ready [OF b i s1_def f] by blast
  define s3 where "s3 = upd_proc i (p_psw_update (\<lambda>_. 0x0200)) s2"
  define s4 where "s4 = upd_proc i (p_reg_update (\<lambda>r. r(reg_pc := click_addr base))) s3"
  define s5 where "s5 = upd_proc i (\<lambda>p. p\<lparr>p_map := (\<lambda>seg. user_seg base (sizes b (2 * t + 2)) (sizes b (2 * t + 3)) seg (p_map p seg))\<rparr>) s4"
  have "boot_table (insert i A) R' s3" by (rule boot_quiet [OF s2(2) s3_def]) simp_all
  then have "boot_table (insert i A) R' s4" by (rule boot_quiet [OF _ s4_def]) simp_all
  then have "boot_table (insert i A) R' s5" by (rule boot_quiet [OF _ s5_def]) simp_all
  moreover have "main_user b t base s = Done s5"
    unfolding main_user_def Let_def i_def [symmetric] s1_def [symmetric] s2(1) andthen.simps
      s3_def [symmetric] s4_def [symmetric] s5_def [symmetric] by (rule refl)
  moreover have "p_map (procs s5 j) = p_map (procs s j)" if "j \<noteq> i" for j
    using that s2(3) by (simp add: s5_def s4_def s3_def s1_def)
  moreover have "loaded b t base (procs s5 i)" by (simp add: loaded_def s5_def user_seg_def Let_def)
  ultimately show ?thesis using s2(4) by (auto simp: s5_def s4_def s3_def i_def)
qed

lemma main_users_ok:
  assumes "boot_table A R s" and "set ts \<subseteq> {..<3}" and "distinct ts" and "\<And>t. t \<in> set ts \<Longrightarrow> t + 9 \<notin> A"
  shows "\<exists>s' R'. main_users b ts base s = Done s' \<and> boot_table (A \<union> (\<lambda>t. t + 9) ` set ts) R' s' \<and>
           sys_m s' = sys_m s \<and> (\<forall>j. j \<notin> (\<lambda>t. t + 9) ` set ts \<longrightarrow> p_map (procs s' j) = p_map (procs s j)) \<and>
           (\<forall>k<length ts. loaded b (ts ! k) (image_at b (take k ts) base) (procs s' (ts ! k + 9)))"
  using assms
proof (induction ts arbitrary: A R s base)
  case Nil
  then show ?case by auto
next
  case (Cons t ts)
  obtain s1 R1 where s1: "main_user b t base s = Done s1" "boot_table (insert (t + 9) A) R1 s1" "sys_m s1 = sys_m s"
    "\<forall>j. j \<noteq> t + 9 \<longrightarrow> p_map (procs s1 j) = p_map (procs s j)" "loaded b t base (procs s1 (t + 9))"
    using main_user_ok [OF Cons.prems(1), of t b base] Cons.prems by auto
  have "\<And>u. u \<in> set ts \<Longrightarrow> u + 9 \<notin> insert (t + 9) A" using Cons.prems by auto
  from Cons.IH [OF s1(2) _ _ this, of "base + sizes b (2 * t + 2) + sizes b (2 * t + 3)"] Cons.prems
  obtain s2 R2 where s2: "main_users b ts (base + sizes b (2 * t + 2) + sizes b (2 * t + 3)) s1 = Done s2"
    "boot_table (insert (t + 9) A \<union> (\<lambda>t. t + 9) ` set ts) R2 s2" "sys_m s2 = sys_m s1"
    "\<forall>j. j \<notin> (\<lambda>t. t + 9) ` set ts \<longrightarrow> p_map (procs s2 j) = p_map (procs s1 j)"
    "\<forall>k<length ts. loaded b (ts ! k) (image_at b (take k ts) (base + sizes b (2 * t + 2) + sizes b (2 * t + 3)))
       (procs s2 (ts ! k + 9))" by auto
  have "t + 9 \<notin> (\<lambda>t. t + 9) ` set ts" using Cons.prems(3) by auto
  then have "p_map (procs s2 (t + 9)) = p_map (procs s1 (t + 9))" using s2(4) by blast
  then have "loaded b t base (procs s2 (t + 9))" using s1(5) by (simp add: loaded_def)
  then have "loaded b ((t # ts) ! k) (image_at b (take k (t # ts)) base) (procs s2 ((t # ts) ! k + 9))"
    if "k < length (t # ts)" for k
    using s2(5) that by (cases k) (simp_all add: image_at_def)
  moreover have "p_map (procs s2 j) = p_map (procs s j)" if "j \<notin> (\<lambda>t. t + 9) ` set (t # ts)" for j
    using s1(4) s2(4) that by auto
  ultimately show ?case using s1(1-3) s2(1-3)
    by (intro exI [of _ s2] exI [of _ R2]) (simp add: insert_commute)
qed

lemma boot_table_bill: "boot_table A R (s\<lparr>bill_ptr := n\<rparr>) = boot_table A R s"
proof -
  have "queue_of (s\<lparr>bill_ptr := n\<rparr>) = queue_of s" "runnable (s\<lparr>bill_ptr := n\<rparr>) = runnable s"
    by (simp_all add: fun_eq_iff queue_of_def runnable_def)
  then show ?thesis by (simp add: boot_table_def ready_lists_def)
qed

lemma hardware_mess_ok:
  assumes "mem_vir (p_map p seg_D) = 0" and "mem_len (p_map p seg_D) = NOT 0" and "a < 0xFFFF00 - 26"
  shows "mess_ok p a"
proof -
  have u: "unat a < 0xFFFF00 - 26" using assms(3) by (simp add: word_less_nat_alt)
  have s: "unat (a + 25) = unat a + 25" using u by (simp add: unat_word_ariths)
  have d: "unat (ucast (drop_bit 8 x) :: u16) = unat x div 256" if "unat x < 0xFFFF00" for x :: addr
  proof -
    have "unat (drop_bit 8 x) = unat x div 256" by (simp add: drop_bit_eq_div unat_div)
    moreover have "unat x div 256 < 65536" using that by simp
    ultimately show ?thesis by (simp add: unsigned_ucast_eq take_bit_nat_eq_self)
  qed
  have hi: "a + MESS_SIZE - 1 = a + 25" by (simp add: add.commute)
  have ones: "(NOT 0 :: u16) = 65535" by simp
  define lo where "lo = (ucast (drop_bit 8 a) :: u16)"
  define hg where "hg = (ucast (drop_bit 8 (a + 25)) :: u16)"
  have "unat lo = unat a div 256" unfolding lo_def using u by (intro d) simp
  moreover have "unat hg = (unat a + 25) div 256" unfolding hg_def using d [of "a + 25"] u s by simp
  ultimately have "\<not> hg < lo" "hg < 65535" using u by (simp_all add: word_less_nat_alt div_le_mono)
  then show ?thesis
    unfolding mess_ok_def Let_def assms(1,2) hi ones lo_def [symmetric] hg_def [symmetric] by simp
qed

lemma boot_table_ok:
  assumes b: "boot_table {..<12} R s" and hw: "mess_ok (procs s 8) (sys_m s)"
    and cur: "current_ok R s"
  shows "kernel_inv R (\<lambda>_. []) [] s"
proof -
  have fl: "p_flags (procs s i) = (if i < 12 then 0 else P_SLOT_FREE)" if "i < NR_SLOTS" for i
    using b that by (simp add: boot_table_def)
  have st: "\<not> sending s i" "\<not> receiving s i" "\<not> pending s i" if "i < NR_SLOTS" for i
    using fl [OF that] by (simp_all add: sending_def receiving_def pending_def)
  have z: "p_callerq (procs s i) = None" "\<not> p_int_blocked (procs s i)" "\<not> p_int_held (procs s i)"
    "p_pending (procs s i) = 0" "p_pendcount (procs s i) = 0" for i
    using b by (simp_all add: boot_table_def)
  have "sched_inv R s" using b cur by (simp add: sched_inv_def ready_exact_def boot_table_def)
  moreover have "rest_inv (\<lambda>_. []) [] s"
    using b st z hw fl
    by (simp add: rest_inv_def callers_ok_def wait_ok_def ints_ok_def held_ok_def slots_ok_def
        waiting_def boot_table_def)
  moreover have "{i. i < NR_SLOTS \<and> pending s i} = {}" using st by auto
  then have "signals_ok s" using b st z by (simp add: signals_ok_def boot_table_def)
  ultimately show ?thesis by (simp add: kernel_inv_def core_inv_def)
qed

lemma main_ok:
  assumes z: "zeroed s" and m: "sys_m s < 0xFFFF00 - 26"
  shows "\<exists>s'. main b s = Done s' \<and> kernel_ok s' \<and>
           (\<forall>i<NR_SLOTS. p_flags (procs s' i) = (if i < 12 then 0 else P_SLOT_FREE)) \<and> istaskp (proc_ptr s') \<and>
           (\<forall>i<8. p_map (procs s' i) seg_D = task_data b) \<and> (\<forall>i. p_shadow (procs s' i) = 0) \<and>
           (\<forall>t<3. loaded b t (image_at b [0..<t] (sizes b 0 + sizes b 1)) (procs s' (t + 9)))"
proof -
  let ?k = "(t_stack b + 3) AND NOT 3"
  have sm: "sys_m (main_clear s) = sys_m s"
  proof -
    have "sys_m (fold (\<lambda>i. upd_proc i (f i)) xs s) = sys_m s" for f xs s
      by (induction xs arbitrary: s) auto
    then show ?thesis by (simp add: main_clear_def)
  qed
  obtain s1 R1 where s1: "main_tasks b [0..<9] ?k (main_clear s) = Done s1" "boot_table {..<9} R1 s1" "sys_m s1 = sys_m s"
    "\<forall>j. p_map (procs s1 j) seg_D = (if j \<in> set [0..<9] then task_data b else p_map (procs (main_clear s) j) seg_D)"
    using main_tasks_ok [OF boot_table_start [OF z], of "[0..<9]" b ?k] sm by (auto simp: atLeast0LessThan)
  define s2 where "s2 = upd_proc (cproc_addr HARDWARE) (\<lambda>p. p\<lparr>p_map := (p_map p)(seg_D :=
                 \<lparr>mem_vir = 0, mem_phys = 0, mem_len = NOT 0\<rparr>)\<rparr>) s1"
  have b2: "boot_table {..<9} R1 s2" by (rule boot_quiet [OF s1(2) s2_def]) simp_all
  obtain s3 R3 where s3: "main_users b [0..<3] (sizes b 0 + sizes b 1) s2 = Done s3"
    "boot_table ({..<9} \<union> (\<lambda>t. t + 9) ` set [0..<3]) R3 s3" "sys_m s3 = sys_m s2"
    "\<forall>j. j \<notin> (\<lambda>t. t + 9) ` set [0..<3] \<longrightarrow> p_map (procs s3 j) = p_map (procs s2 j)"
    "\<forall>k<length [0..<3]. loaded b ([0..<3] ! k) (image_at b (take k [0..<3]) (sizes b 0 + sizes b 1)) (procs s3 ([0..<3] ! k + 9))"
    using main_users_ok [OF b2, of "[0..<3]" b "sizes b 0 + sizes b 1"] by (auto simp: lessThan_atLeast0)
  have low: "p_map (procs s3 j) = p_map (procs s2 j)" if "j < 9" for j using s3(4) that by auto
  have set12: "{..<9} \<union> (\<lambda>t. t + 9) ` set [0..<3] = {..<12::nat}"
    by (simp add: lessThan_atLeast0 ivl_disj_un)
  define s4 where "s4 = s3\<lparr>bill_ptr := cproc_addr HARDWARE\<rparr>"
  have b4: "boot_table {..<12} R3 s4"
    unfolding s4_def boot_table_bill using s3(2) unfolding set12 .
  have R4: "ready_lists R3 s4" using b4 by (simp add: boot_table_def)
  define s5 where "s5 = lock_pick_proc s4"
  note pick = lock_pick_proc_lists [OF R4, folded s5_def]
  have b5: "boot_table {..<12} R3 s5"
    using b4 pick(1) unfolding boot_table_def
    by (simp add: off_projs [OF pick(3)] off_queues_fields [OF pick(3)] off_states [OF pick(3)])
  have hw: "mess_ok (procs s5 8) (sys_m s5)"
    by (rule hardware_mess_ok)
      (use m in \<open>simp_all add: off_projs [OF pick(3)] off_queues_fields [OF pick(3)] s4_def s3(3) low s2_def s1(3)\<close>)
  have fl: "\<forall>i<NR_SLOTS. p_flags (procs s5 i) = (if i < 12 then 0 else P_SLOT_FREE)"
    using b5 by (simp add: boot_table_def)
  have "0 \<in> set (R3 (queue_of s5 0))" using b5 by (simp add: boot_table_def runnable_def)
  then have ne: "R3 TASK_Q \<noteq> []" by (auto simp: queue_of_def istaskp_def)
  then have "proc_ptr s5 \<in> set (R3 TASK_Q)" using pick(2) by (simp add: head_proc_def)
  then have "queue_of s5 (proc_ptr s5) = TASK_Q" using ready_listsD(3) [OF pick(1), of TASK_Q] by auto
  then have task: "istaskp (proc_ptr s5)" by (auto simp: queue_of_def split: if_splits)
  have "p_map (procs s5 i) seg_D = task_data b" if "i < 8" for i
    using that s1(4) low [of i] by (simp add: off_projs [OF pick(3)] s4_def s2_def)
  moreover have "loaded b t (image_at b [0..<t] (sizes b 0 + sizes b 1)) (procs s5 (t + 9))" if "t < 3" for t
  proof -
    have "loaded b ([0..<3] ! t) (image_at b (take t [0..<3]) (sizes b 0 + sizes b 1)) (procs s3 ([0..<3] ! t + 9))"
      using s3(5) that by (simp del: upt_rec_numeral)
    moreover have "[0..<3] ! t = t" "take t [0..<3] = [0..<t]" using that by (auto simp: take_upt simp del: upt_rec_numeral)
    ultimately show ?thesis by (simp add: loaded_def off_projs [OF pick(3)] s4_def)
  qed
  moreover have "\<forall>i. p_shadow (procs s5 i) = 0" using b5 by (simp add: boot_table_def)
  moreover have "main b s = Done s5"
    unfolding main_def Let_def s1(1) andthen.simps s2_def [symmetric] s3(1) s4_def [symmetric] s5_def by (rule refl)
  ultimately show ?thesis
    using kernel_okI [OF boot_table_ok [OF b5 hw current_ok_head [OF pick(2)]]] fl task by blast
qed

end
