(* ===== verification/Kernel_Run.thy ===== *)
theory Kernel_Run
  imports Kernel_Main
begin

section \<open>Kernel: reachable states\<close>

text \<open>
  All the ways the process table changes, as one step relation: system calls of the current
  process, interrupts, the replay of held interrupts, the end of a time slice, signals, and
  what the system task does for the memory manager.  Every reachable state satisfies the
  invariant; the properties below spell out what that means.
\<close>

unbundle bit_operations_syntax

subsection \<open>Stopping and resuming a traced process\<close>

definition stopped :: "nat \<Rightarrow> kstate \<Rightarrow> kstate" where
  "stopped rp s = upd_proc rp (\<lambda>p. p\<lparr>p_flags := p_flags p OR P_STOP, p_psw := p_psw p AND NOT TRACEBIT\<rparr>) s"

lemma stop_inv:
  assumes inv: "kernel_inv R C H s" and i: "11 \<le> i" "i < NR_SLOTS"
  shows "\<exists>s1 R'. lock_unready i s = Done s1 \<and> kernel_inv R' C H (stopped i s1)"
proof -
  have inv0: "core_inv R C H s" and sig0: "signals_ok s" using inv by (simp_all add: kernel_inv_def)
  note D = core_invD [OF inv0]
  obtain s1 R' where s1: "lock_unready i s = Done s1" "limbo {i} R' s1" "off_queues s1 = off_queues s"
    using limbo_unready [of "{}" R s i] D(1) i by (auto simp: limbo_none)
  define s2 where "s2 = stopped i s1"
  have fl: "p_flags (procs s2 j) = (if j = i then p_flags (procs s i) OR P_STOP else p_flags (procs s j))" for j
    by (simp add: s2_def stopped_def off_projs [OF s1(3)])
  have l2: "limbo {i} R' s2" unfolding s2_def stopped_def by (rule limbo_any [OF s1(2)]) simp
  then have "limbo {} R' s2"
    by (rule limbo_remove) (simp_all add: runnable_def fl)
  moreover have "rest_inv C H s2"
  proof (rule rest_inv_user_flag [OF rest_inv_off_part [OF D(2) s1(3)] i(1), where f = "p_flags (procs s i) OR P_STOP"])
    show "p_flags (procs s2 j) = (if j = i then p_flags (procs s i) OR P_STOP else p_flags (procs s1 j))" for j
      by (simp add: fl off_projs [OF s1(3)])
    show "sendlink (procs s2) = sendlink (procs s1)" "nextheld (procs s2) = nextheld (procs s1)"
      by (auto simp: s2_def stopped_def sendlink_def nextheld_def)
    show "mess_ok (procs s2 8) = mess_ok (procs s1 8)" using i by (simp add: s2_def stopped_def)
  qed (auto simp: off_projs [OF s1(3)] flag_simps s2_def stopped_def)
  moreover have "signals_ok s2"
  proof (rule signals_ok_flags [OF sig0])
    show "p_pending (procs s2 j) = p_pending (procs s j)" "p_pendcount (procs s2 j) = p_pendcount (procs s j)" for j
      by (auto simp: s2_def stopped_def off_projs [OF s1(3)])
    show "sig_procs s2 = sig_procs s" by (simp add: s2_def stopped_def off_queues_fields [OF s1(3)])
  qed (auto simp: fl flag_simps)
  ultimately show ?thesis using s1(1)
    by (intro exI [of _ s1] exI [of _ R']) (simp add: kernel_inv_def core_inv_def limbo_none s2_def)
qed

lemma resume_inv:
  assumes inv: "kernel_inv R C H s" and i: "11 \<le> i" "i < NR_SLOTS" and st: "p_flags (procs s i) AND P_STOP \<noteq> 0"
  shows "\<exists>s' R'. resume i s = Done s' \<and> kernel_inv R' C H s'"
proof -
  have inv0: "core_inv R C H s" and sig0: "signals_ok s" using inv by (simp_all add: kernel_inv_def)
  note D = core_invD [OF inv0]
  define s1 where "s1 = upd_proc i (p_flags_update (\<lambda>f. f AND NOT P_STOP)) s"
  have nr: "\<not> runnable s i" using st by (auto simp: runnable_def)
  have part: "sched_part s1 = sched_part s" by (simp add: s1_def)
  have fl: "p_flags (procs s1 j) = (if j = i then p_flags (procs s i) AND NOT P_STOP else p_flags (procs s j))" for j
    by (simp add: s1_def)
  obtain s2 R' where s2: "(if p_flags (procs s1 i) = 0 then lock_ready i s1 else Done s1) = Done s2"
    "sched_inv R' s2" "off_queues s2 = off_queues s1"
    using clear_flag_ready(2) [OF D(1) i(2) nr _ _ part] i fl by auto
  have "resume i s = Done s2" unfolding resume_def Let_def s1_def [symmetric] by (rule s2(1))
  moreover have "rest_inv C H s1"
    by (rule rest_inv_user_flag [OF D(2) i(1) fl])
      (auto simp: flag_simps s1_def sendlink_def nextheld_def fun_eq_iff mess_ok_def)
  then have "core_inv R' C H s2" using s2(2) rest_inv_off [OF s2(3)] by (simp add: core_inv_def)
  moreover have "signals_ok s2"
    by (rule signals_ok_flags [OF sig0])
      (auto simp: off_projs [OF s2(3)] off_queues_fields [OF s2(3)] fl flag_simps, auto simp: s1_def)
  ultimately show ?thesis by (auto simp: kernel_inv_def)
qed

lemma lock_sched_inv:
  assumes inv: "kernel_inv R C H s"
  shows "\<exists>s'. lock_sched s = Done s' \<and> kernel_inv (R(USER_Q := rotate1 (R USER_Q))) C H s'"
proof -
  have inv0: "core_inv R C H s" and sig0: "signals_ok s" using inv by (simp_all add: kernel_inv_def)
  note D = core_invD [OF inv0]
  let ?R = "R(USER_Q := rotate1 (R USER_Q))"
  obtain s' where s': "lock_sched s = Done s'" "ready_lists ?R s'" "off_queues s' = off_queues s"
    "proc_ptr s' = (if R USER_Q = [] then proc_ptr s else head_proc ?R)"
    using lock_sched_lists [OF D(3)] by blast
  have "current_ok ?R s'"
  proof (cases "R USER_Q = []")
    case True
    then have "?R = R" by auto
    then show ?thesis using True D(5) s'(4) by (simp add: current_ok_def)
  next
    case False
    then show ?thesis using s'(4) by (intro current_ok_head) simp
  qed
  moreover have "ready_exact ?R s'" using D(4) by (auto simp: ready_exact_def off_states [OF s'(3)])
  ultimately have "core_inv ?R C H s'"
    using s'(2) D(2) rest_inv_off [OF s'(3)] by (simp add: core_inv_def sched_inv_def)
  moreover have "signals_ok s'"
    by (rule signals_ok_same [OF sig0]) (simp_all add: off_projs [OF s'(3)] off_queues_fields [OF s'(3)])
  ultimately show ?thesis using s'(1) by (auto simp: kernel_inv_def)
qed

subsection \<open>Steps\<close>

inductive kernel_step :: "kstate \<Rightarrow> kstate \<Rightarrow> bool" where
  call: "call_ok f d s \<Longrightarrow> sys_call f d m s = Done (n, s') \<Longrightarrow> kernel_step s s'"
| int: "t < 9 \<Longrightarrow> t \<noteq> 1 \<Longrightarrow> t \<noteq> 8 \<Longrightarrow> interrupt (int t - NR_TASKS) s = Done s' \<Longrightarrow> kernel_step s s'"
| flush: "k_reenter s = 0 \<Longrightarrow> held s \<noteq> [] \<Longrightarrow> unhold s = Done s' \<Longrightarrow> kernel_step s s'"
| enter: "kernel_step s (s\<lparr>k_reenter := k\<rparr>)"
| memory: "kernel_step s (upd_mem f s)"
| pick: "kernel_step s (lock_pick_proc s)"
| quantum: "lock_sched s = Done s' \<Longrightarrow> kernel_step s s'"
| signal: "11 \<le> i \<Longrightarrow> i < NR_SLOTS \<Longrightarrow> 1 \<le> sig \<Longrightarrow> sig \<le> 16 \<Longrightarrow>
     cause_sig (int i - NR_TASKS) sig s = Done s' \<Longrightarrow> kernel_step s s'"
| ksig_done: "11 \<le> i \<Longrightarrow> i < NR_SLOTS \<Longrightarrow> (p_pendcount (procs s i) = 1 \<Longrightarrow> \<not> pending s i) \<Longrightarrow>
     finish_ksig i s = Done s' \<Longrightarrow> kernel_step s s'"
| fork: "fork_request m p c s \<Longrightarrow> do_fork m s = Done (n, s') \<Longrightarrow> kernel_step s s'"
| exec: "11 \<le> i \<Longrightarrow> i < NR_SLOTS \<Longrightarrow> msg_int m m1_i1 s = int i - NR_TASKS \<Longrightarrow> msg_int m m1_i2 s = 0 \<Longrightarrow>
     waiting s i \<Longrightarrow> do_exec m s = Done (n, s') \<Longrightarrow> kernel_step s s'"
| exit: "exit_request m p c s \<Longrightarrow> do_xit m s = Done (n, s') \<Longrightarrow> kernel_step s s'"
| stop: "11 \<le> i \<Longrightarrow> i < NR_SLOTS \<Longrightarrow> lock_unready i s = Done s' \<Longrightarrow> kernel_step s (stopped i s')"
| resume: "11 \<le> i \<Longrightarrow> i < NR_SLOTS \<Longrightarrow> p_flags (procs s i) AND P_STOP \<noteq> 0 \<Longrightarrow> resume i s = Done s' \<Longrightarrow>
     kernel_step s s'"

inductive kernel_reachable :: "kstate \<Rightarrow> bool" where
  boot: "zeroed s \<Longrightarrow> sys_m s < 0xFFFF00 - 26 \<Longrightarrow> main b s = Done s' \<Longrightarrow> kernel_reachable s'"
| step: "kernel_reachable s \<Longrightarrow> kernel_step s s' \<Longrightarrow> kernel_reachable s'"

lemma kernel_step_ok: "kernel_step s s' \<Longrightarrow> kernel_ok s \<Longrightarrow> kernel_ok s'"
proof (induction rule: kernel_step.induct)
  case (call f d s m n s')
  then show ?case using sys_call_inv [of s f d m] by auto
next
  case (int t s s')
  then show ?case using interrupt_inv [of s t] by auto
next
  case (flush s s')
  then show ?case
  proof (cases "switching s")
    case True
    then show ?thesis using flush by (simp add: unhold_def)
  next
    case False
    then show ?thesis using flush unhold_inv [of s] by auto
  qed
next
  case (enter s k)
  then have "kernel_inv (ready_q s) (callers s) (held s) (s\<lparr>k_reenter := k\<rparr>)"
    by (intro kernel_inv_same [OF kernel_okD]) (auto simp: sched_part_def rest_part_def)
  then show ?case by (rule kernel_okI)
next
  case (memory s f)
  then have "kernel_inv (ready_q s) (callers s) (held s) (upd_mem f s)"
    by (intro kernel_inv_same [OF kernel_okD]) auto
  then show ?case by (rule kernel_okI)
next
  case (pick s)
  then have k: "core_inv (ready_q s) (callers s) (held s) s" "signals_ok s"
    using kernel_okD by (auto simp: kernel_inv_def)
  note off = lock_pick_proc_lists(3) [OF core_invD(3) [OF k(1)]]
  have "signals_ok (lock_pick_proc s)"
    by (rule signals_ok_same [OF k(2)]) (simp_all add: off_projs [OF off] off_queues_fields [OF off])
  then show ?case using core_inv_pick [OF k(1)] by (intro kernel_okI) (auto simp: kernel_inv_def)
next
  case (quantum s s')
  then show ?case using lock_sched_inv [OF kernel_okD] kernel_okI by fastforce
next
  case (signal i sig s s')
  then show ?case using cause_sig_inv [OF kernel_okD, of s i sig] kernel_okI by fastforce
next
  case (ksig_done i s s')
  then show ?case
    using finish_ksig_inv [of "ready_q s" "callers s" "held s" s i] kernel_okD [of s] kernel_okI
    by (fastforce simp: kernel_inv_def)
next
  case (fork m p c s n s')
  then show ?case using do_fork_inv [of s m p c] by auto
next
  case (exec i m s n s')
  then show ?case using do_exec_inv [of s i m] by (auto simp: waiting_def)
next
  case (exit m p c s n s')
  then show ?case using do_xit_inv [of s m p c] by auto
next
  case (stop i s s')
  then show ?case using stop_inv [OF kernel_okD, of s i] kernel_okI by fastforce
next
  case (resume i s s')
  then show ?case using resume_inv [OF kernel_okD, of s i] kernel_okI by fastforce
qed

lemma kernel_reachable_ok: "kernel_reachable s \<Longrightarrow> kernel_ok s"
proof (induction rule: kernel_reachable.induct)
  case (boot s b s')
  then show ?case using main_ok [of s b] by auto
next
  case (step s s')
  then show ?case using kernel_step_ok by blast
qed

subsection \<open>A concrete machine\<close>

text \<open>The kernel before start-up, with the message buffer of the system task at 4K.\<close>

definition blank :: kstate where
  "blank = \<lparr>procs = (\<lambda>_. \<lparr>p_reg = (\<lambda>_. 0), p_psw = 0, p_splow = 0, p_shadow = 0, p_nflips = 0, p_physio = False,
       p_nr = 0, p_int_blocked = False, p_int_held = False, p_nextheld = None, p_flags = 0,
       p_map = (\<lambda>_. \<lparr>mem_vir = 0, mem_phys = 0, mem_len = 0\<rparr>), p_pid = 0, user_time = 0, sys_time = 0,
       child_utime = 0, child_stime = 0, p_alarm = 0, p_callerq = None, p_sendlink = None, p_messbuf = 0,
       p_getfrom = 0, p_nextready = None, p_pending = 0, p_pendcount = 0\<rparr>),
     rdy_head = (\<lambda>_. None), rdy_tail = (\<lambda>_. None), held_head = None, held_tail = None, proc_ptr = 0,
     bill_ptr = 0, switching = False, k_reenter = 0, sig_procs = 0, kmem = (\<lambda>_. 0), sys_m = 4096,
     realtime = 0, pending_ticks = 0, next_alarm = 0, boot_time = 0, sched_ticks = 6, prev_ptr = None,
     mc = 4128, watch_dog = (\<lambda>_. 0), flipwait = 0\<rparr>"

definition demo_boot :: boot where
  "demo_boot = \<lparr>sizes = (\<lambda>_. 64), initial_pc = (\<lambda>_. 0), stksize = (\<lambda>_. 512), t_stack = 8192\<rparr>"

definition demo :: kstate where
  "demo = (case main demo_boot blank of Done s \<Rightarrow> s | _ \<Rightarrow> blank)"

lemma blank_zeroed: "zeroed blank" "sys_m blank < 0xFFFF00 - 26"
  by (simp_all add: zeroed_def blank_def)

text \<open>\<open>demo\<close> is the state after start-up.\<close>

lemma demo_main: "main demo_boot blank = Done demo"
  and demo_flags: "i < NR_SLOTS \<Longrightarrow> p_flags (procs demo i) = (if i < 12 then 0 else P_SLOT_FREE)"
  and demo_task: "istaskp (proc_ptr demo)"
  and demo_ok: "kernel_ok demo"
  and demo_data: "j < 8 \<Longrightarrow> p_map (procs demo j) seg_D = task_data demo_boot"
  and demo_unshadowed: "p_shadow (procs demo i) = 0"
  and demo_loaded: "t < 3 \<Longrightarrow> loaded demo_boot t (image_at demo_boot [0..<t] 128) (procs demo (t + 9))"
proof -
  obtain s where s: "main demo_boot blank = Done s" "kernel_ok s"
    "\<forall>i<NR_SLOTS. p_flags (procs s i) = (if i < 12 then 0 else P_SLOT_FREE)" "istaskp (proc_ptr s)"
    "\<forall>j<8. p_map (procs s j) seg_D = task_data demo_boot" "\<forall>i. p_shadow (procs s i) = 0"
    "\<forall>t<3. loaded demo_boot t (image_at demo_boot [0..<t] (sizes demo_boot 0 + sizes demo_boot 1)) (procs s (t + 9))"
    using main_ok [OF blank_zeroed] by blast
  then have "demo = s" by (simp add: demo_def)
  with s show "main demo_boot blank = Done demo" "istaskp (proc_ptr demo)" "kernel_ok demo"
    "i < NR_SLOTS \<Longrightarrow> p_flags (procs demo i) = (if i < 12 then 0 else P_SLOT_FREE)"
    "j < 8 \<Longrightarrow> p_map (procs demo j) seg_D = task_data demo_boot" "p_shadow (procs demo i) = 0" by auto
  have "sizes demo_boot 0 + sizes demo_boot 1 = 128" by (simp add: demo_boot_def)
  with s(7) \<open>demo = s\<close> show "t < 3 \<Longrightarrow> loaded demo_boot t (image_at demo_boot [0..<t] 128) (procs demo (t + 9))" by metis
qed

lemma demo_reachable: "kernel_reachable demo"
  by (rule kernel_reachable.boot [OF blank_zeroed demo_main])

subsection \<open>Messages in memory\<close>

lemma put_int_other: "2 \<le> k \<Longrightarrow> k < 2 ^ 32 \<Longrightarrow> put_int a v m (a + of_nat k) = m (a + of_nat k)" for k :: nat
proof -
  assume k: "2 \<le> k" "k < 2 ^ 32"
  have "unat (of_nat k :: addr) = k" using k by (simp add: unsigned_of_nat take_bit_nat_eq_self)
  then have "(of_nat k :: addr) \<noteq> 0" "(of_nat k :: addr) \<noteq> 1" using k by fastforce+
  then show ?thesis by (simp add: put_int_def put16_def)
qed

text \<open>The message at \<open>b\<close> is a copy of the one at \<open>a\<close> but for its source.\<close>

definition message_at :: "int \<Rightarrow> addr \<Rightarrow> (addr \<Rightarrow> 8 word) \<Rightarrow> addr \<Rightarrow> (addr \<Rightarrow> 8 word) \<Rightarrow> bool" where
  "message_at src a m b m' \<longleftrightarrow> get_int m' b = src \<and>
     (\<forall>k. 2 \<le> k \<and> k < 26 \<longrightarrow> m' (b + of_nat k) = m (a + of_nat k))"

lemma cp_mess_message:
  assumes "-32768 \<le> src" and "src < 32768"
  shows "message_at src (shadow_addr (procs s c) a) (kmem s) (shadow_addr (procs s d) b) (kmem (cp_mess src c a d b s))"
proof -
  let ?a = "shadow_addr (procs s c) a" and ?b = "shadow_addr (procs s d) b"
  have "kmem (cp_mess src c a d b s) (?b + of_nat k) = kmem s (?a + of_nat k)" if k: "2 \<le> k" "k < 26" for k
  proof -
    have "unat (of_nat k :: addr) = k" using k by (simp add: unsigned_of_nat take_bit_nat_eq_self)
    then have "phys_copy ?a ?b 26 (kmem s) (?b + of_nat k) = kmem s (?a + of_nat k)"
      using k by (simp add: phys_copy_def)
    then show ?thesis using put_int_other [of k ?b src] k by (simp add: cp_mess_def Let_def)
  qed
  moreover have "get_int (kmem (cp_mess src c a d b s)) ?b = src"
    using get_int_put_int [OF assms] by (simp add: cp_mess_def Let_def)
  ultimately show ?thesis by (simp add: message_at_def)
qed

end
