(* ===== verification/Kernel_Props.thy ===== *)
theory Kernel_Props
  imports Kernel_Run
begin

section \<open>Kernel: what the invariant gives\<close>

text \<open>
  The properties of the kernel, each a few steps from the invariant of the process table
  and the lemmas about the operations, with an instance on the state after start-up.
\<close>

unbundle bit_operations_syntax

subsection \<open>Concrete states\<close>

lemma demo_flag_cases:
  assumes "i < NR_SLOTS"
  shows "\<not> sending demo i" "\<not> receiving demo i" "\<not> pending demo i"
  using demo_flags [OF assms] by (auto simp: sending_def receiving_def pending_def)

lemma demo_callers: "i < NR_SLOTS \<Longrightarrow> callers demo i = []"
proof -
  assume i: "i < NR_SLOTS"
  have C: "callers_ok (callers demo) demo"
    using kernel_okD [OF demo_ok] by (simp add: kernel_inv_def core_inv_def rest_inv_def)
  have "j \<notin> set (callers demo i)" for j
    using callers_okD(2) [OF C i, of j] demo_flag_cases(1) [of j] by blast
  then show "callers demo i = []" by (cases "callers demo i") auto
qed

lemma demo_runnable: "i < 12 \<Longrightarrow> i \<noteq> 1 \<Longrightarrow> i \<noteq> 8 \<Longrightarrow> runnable demo i"
  using demo_flags [of i] by (simp add: runnable_def)

lemma demo_current: "proc_ptr demo < 9" "proc_ptr demo \<noteq> 1" "proc_ptr demo \<noteq> 8" "p_flags (procs demo (proc_ptr demo)) = 0"
proof -
  show t: "proc_ptr demo < 9" "proc_ptr demo \<noteq> 1" using demo_task by (simp_all add: istaskp_def cproc_addr_def)
  then show "p_flags (procs demo (proc_ptr demo)) = 0" using demo_flags [of "proc_ptr demo"] by simp
  note k = kernel_okD [OF demo_ok]
  then have "current_ok (ready_q demo) demo" and R: "ready_lists (ready_q demo) demo" "ready_exact (ready_q demo) demo"
    by (simp_all add: kernel_inv_def core_inv_def sched_inv_def)
  then obtain q where q: "q < 3" "proc_ptr demo \<in> set (ready_q demo q)"
    using t by (auto simp: current_ok_def cproc_addr_def)
  moreover have "proc_ptr demo < NR_SLOTS" "queue_of demo (proc_ptr demo) = q"
    using t(1) ready_listsD(3) [OF R(1), of q] q by auto
  ultimately have "runnable demo (proc_ptr demo)" using R(2) by (auto simp: ready_exact_def)
  then show "proc_ptr demo \<noteq> 8" by (simp add: runnable_def cproc_addr_def)
qed

subsection \<open>Start-up and system calls\<close>

text \<open>
  C13: Start-up always succeeds: from zeroed kernel data \<open>main\<close> builds a process table that
  satisfies the kernel invariant, in which exactly the tasks, the two servers and init are in
  use, all of them without a blocking flag, and a task is picked to run first.
\<close>

theorem main_establishes_invariant:
  assumes "zeroed s" and "sys_m s < 0xFFFF00 - 26"
  shows "\<exists>s'. main b s = Done s' \<and> kernel_ok s' \<and> istaskp (proc_ptr s') \<and>
           (\<forall>i<NR_SLOTS. p_flags (procs s' i) = (if i < 12 then 0 else P_SLOT_FREE))"
  using main_ok [OF assms, of b] by blast

theorem main_establishes_invariant_witness:
  "\<exists>s'. main demo_boot blank = Done s' \<and> kernel_ok s' \<and> istaskp (proc_ptr s') \<and>
     (\<forall>i<NR_SLOTS. p_flags (procs s' i) = (if i < 12 then 0 else P_SLOT_FREE))"
  using main_establishes_invariant [OF blank_zeroed] .





subsection \<open>Scheduling\<close>

lemma reachable_lists:
  assumes "kernel_reachable s"
  shows "ready_lists (ready_q s) s" "ready_exact (ready_q s) s" "current_ok (ready_q s) s"
    "callers_ok (callers s) s" "wait_ok (callers s) s" "ints_ok s" "held_ok (held s) s" "signals_ok s" "slots_ok s"
  using kernel_okD [OF kernel_reachable_ok [OF assms]]
  by (simp_all add: kernel_inv_def core_inv_def sched_inv_def rest_inv_def)



text \<open>
  In every reachable state the process chosen to run is the idle task or the head of one
  of the task, server and user queues, so a blocked process, a free slot or a shadowed process
  never runs.
\<close>

theorem current_process_runnable:
  assumes "kernel_reachable s"
  shows "proc_ptr s = cproc_addr IDLE \<or>
    (runnable s (proc_ptr s) \<and> (\<exists>q<SHADOW_Q. ready_q s q \<noteq> [] \<and> proc_ptr s = hd (ready_q s q)) \<and>
     \<not> (isuserp (proc_ptr s) \<and> isshadowp (procs s (proc_ptr s))))"
proof (cases "proc_ptr s = cproc_addr IDLE")
  case False
  note R = reachable_lists(1,2,3) [OF assms]
  obtain q where q: "q < SHADOW_Q" "ready_q s q \<noteq> []" "proc_ptr s = hd (ready_q s q)"
    using R(3) False unfolding current_ok_def by blast
  then have m: "proc_ptr s \<in> set (ready_q s q)" by simp
  then have "proc_ptr s < NR_SLOTS \<and> queue_of s (proc_ptr s) = q"
    using q(1) ready_listsD(3) [OF R(1), of q] by simp
  then have "runnable s (proc_ptr s)" "\<not> (isuserp (proc_ptr s) \<and> isshadowp (procs s (proc_ptr s)))"
    using R(2) m q(1) by (auto simp: ready_exact_def queue_of_def isuserp_def istaskp_def)
  then show ?thesis using q by blast
qed simp

theorem current_process_runnable_witness: "runnable demo (proc_ptr demo)"
  using current_process_runnable [OF demo_reachable] demo_current(2) by (simp add: cproc_addr_def)

text \<open>
  The end of a quantum rotates the user queue: the process at its head goes to the end,
  every other queue is unchanged, and the process picked next is the first of the highest
  non-empty queue.
\<close>

theorem quantum_rotates:
  assumes "kernel_reachable s"
  shows "\<exists>s'. lock_sched s = Done s' \<and> kernel_reachable s' \<and>
           (\<forall>q<NQ. ready_q s' q = (if q = USER_Q then rotate1 (ready_q s USER_Q) else ready_q s q)) \<and>
           proc_ptr s' = (if ready_q s USER_Q = [] then proc_ptr s else head_proc (ready_q s'))"
proof -
  let ?R = "(ready_q s)(USER_Q := rotate1 (ready_q s USER_Q))"
  obtain s' where s': "lock_sched s = Done s'" "ready_lists ?R s'"
    "proc_ptr s' = (if ready_q s USER_Q = [] then proc_ptr s else head_proc ?R)"
    using lock_sched_lists [OF reachable_lists(1) [OF assms]] by blast
  have q: "ready_q s' q = ?R q" if "q < NQ" for q using ready_lists_q [OF s'(2) that] .
  then have "head_proc (ready_q s') = head_proc ?R" by (simp add: head_proc_def)
  then show ?thesis
    using s' q kernel_reachable.step [OF assms kernel_step.quantum [OF s'(1)]] by auto
qed

theorem quantum_rotates_witness: "\<exists>s'. lock_sched demo = Done s' \<and> ready_q s' USER_Q = rotate1 (ready_q demo USER_Q)"
  using quantum_rotates [OF demo_reachable] by fastforce

subsection \<open>Messages\<close>

text \<open>A task that sends to itself is queued on itself for good: the check against
  deadlock looks only at a destination that is already sending.\<close>

lemma task_mess_ok: "j < 8 \<Longrightarrow> mess_ok (procs demo j) 20000"
  using demo_data by (simp add: mess_ok_def task_data_def demo_boot_def)

lemma self_sent:
  "\<exists>s'. kernel_reachable s' \<and> proc_ptr demo \<in> set (callers s' (proc_ptr demo))"
proof -
  define c where "c = proc_ptr demo"
  have c: "c < 9" "c < NR_SLOTS" "c \<noteq> 1" "c \<noteq> 8" "p_flags (procs demo c) = 0" using demo_current by (simp_all add: c_def)
  have core: "core_inv (ready_q demo) (callers demo) (held demo) demo" and sig: "signals_ok demo"
    using kernel_okD [OF demo_ok] by (simp_all add: kernel_inv_def)
  have ok: "send_error (callers demo) c c 20000 demo = OK"
    using c task_mess_ok [of c] by (simp add: send_error_def isuserp_def demo_callers)
  have nw: "\<not> waiting demo c" using demo_flag_cases c by (simp add: waiting_def)
  obtain s' R' where s': "mini_send c (int c - NR_TASKS) 20000 demo = Done (OK, s')"
    "core_inv R' ((callers demo)(c := callers demo c @ [c])) (held demo) s'" "blocked_sending c 20000 demo s'"
    using mini_send_cases [OF core c(2,5,3,2), of 20000] ok nw c(4) by blast
  have "signals_ok s'"
    by (rule signals_ok_flags [OF sig]) (use s'(3) c in \<open>auto simp: blocked_sending_def\<close>)
  then have "kernel_inv R' ((callers demo)(c := callers demo c @ [c])) (held demo) s'"
    using s'(2) by (simp add: kernel_inv_def)
  then have "callers s' c = callers demo c @ [c]" using kernel_inv_lists(2) c(2) by fastforce
  moreover have "sys_call SEND (int c - NR_TASKS) 20000 demo = Done (OK, s')"
    using s'(1) c by (simp add: sys_call_def isoksrc_dest_def isokprocn_def isuserp_def c_def [symmetric])
  moreover have "call_ok SEND (int c - NR_TASKS) demo" using c by (simp add: call_ok_def c_def [symmetric])
  ultimately have "kernel_reachable s'" "c \<in> set (callers s' c)"
    using kernel_reachable.step [OF demo_reachable kernel_step.call] by auto
  then show ?thesis unfolding c_def by blast
qed

text \<open>A process that waits for the file system.\<close>

lemma received_wait:
  assumes c: "c < 12" "c \<noteq> 1" "c \<noteq> 8"
  obtains s' where "mini_rec c FS_PROC_NR 20000 demo = Done (OK, s')" "kernel_ok s'" "waiting s' c" "p_getfrom (procs s' c) = FS_PROC_NR"
    "\<forall>i<NR_SLOTS. \<not> sending s' i" "\<forall>i<NR_SLOTS. p_flags (procs s' i) = (if i = c then RECEIVING else p_flags (procs demo i))"
proof -
  have c': "c < NR_SLOTS" using c by simp
  note fl = demo_flag_cases [OF c']
  have d0: "p_flags (procs demo c) = 0" using demo_flags [OF c'] c by simp
  from kernel_okD [OF demo_ok] c' c(2,3) show thesis
  proof (rule mini_rec_cases [where src = FS_PROC_NR and m = 20000])
    fix s1 s' R'
    assume s': "mini_rec c FS_PROC_NR 20000 demo = Done (OK, s')" "kernel_inv R' (callers demo) (held demo) s'"
      "blocked_receiving c FS_PROC_NR 20000 demo s1"
      "if 0 < sig_procs demo \<and> c = 9 \<and> FS_PROC_NR = ANY then informed s1 s' else s' = s1"
    then have "s' = s1" by simp
    with s'(3) have b: "\<forall>i. p_flags (procs s' i) = (if i = c then p_flags (procs demo c) OR RECEIVING else p_flags (procs demo i))"
      "p_getfrom (procs s' c) = FS_PROC_NR" by (simp_all add: blocked_receiving_def)
    have ns: "\<not> sending s' i" if "i < NR_SLOTS" for i
      using b(1) d0 demo_flag_cases(1) [OF that] by (simp add: sending_def)
    have "waiting s' c" using ns [OF c'] b(1) d0 by (simp add: waiting_def receiving_def)
    then show thesis using that [OF s'(1) kernel_okI [OF s'(2)]] ns b d0 c' by simp
  qed (use fl demo_callers [OF c'] in \<open>auto simp: isrxhardware_def\<close>)
qed

text \<open>
  C10: In every reachable state no two processes wait to send to each other: if \<open>i\<close> is
  queued on \<open>j\<close> and \<open>j\<close> on \<open>i\<close> they are the same process.  (Longer
  cycles, and a process that sends to itself, are not detected by the code.)
\<close>

theorem no_mutual_wait:
  assumes "kernel_reachable s" and "i < NR_SLOTS" and "j < NR_SLOTS"
    and "i \<in> set (callers s j)" and "j \<in> set (callers s i)"
  shows "i = j"
  using wait_okD(1) [OF reachable_lists(5) [OF assms(1)] assms(2-5)] .

theorem no_mutual_wait_witness:
  "\<exists>s i. kernel_reachable s \<and> i \<in> set (callers s i) \<and> (\<forall>j\<in>set (callers s i). i \<in> set (callers s j) \<longrightarrow> i = j)"
proof -
  define i where "i = proc_ptr demo"
  obtain s where s: "kernel_reachable s" "i \<in> set (callers s i)" using self_sent i_def by blast
  have i: "i < NR_SLOTS" using demo_current(1) by (simp add: i_def)
  have "i = j" if "j \<in> set (callers s i)" "i \<in> set (callers s j)" for j
    using no_mutual_wait [OF s(1) i _ that(2,1)] callers_okD(2) [OF reachable_lists(4) [OF s(1)] i that(1)] by blast
  then show ?thesis using s by blast
qed

text \<open>
  C7: No wake-up is lost: in every reachable state a process that is blocked receiving has
  neither a queued sender whose message it would accept nor a recorded interrupt it would
  accept, and everyone on its queue really is blocked sending.
\<close>

theorem no_lost_wakeup:
  assumes "kernel_reachable s" and "i < NR_SLOTS" and "waiting s i"
  shows "(\<forall>j\<in>set (callers s i). sending s j \<and> \<not> accepts s i j) \<and>
    \<not> (p_int_blocked (procs s i) \<and> isrxhardware (p_getfrom (procs s i)))"
  using wait_okD(2) [OF reachable_lists(5) [OF assms(1)] assms(2,3)]
    callers_okD(2) [OF reachable_lists(4) [OF assms(1)] assms(2)] reachable_lists(6) [OF assms(1)] assms(2,3)
  by (auto simp: ints_ok_def)

theorem no_lost_wakeup_witness:
  "\<exists>s. kernel_reachable s \<and> waiting s (proc_ptr demo) \<and>
     (\<forall>j\<in>set (callers s (proc_ptr demo)). \<not> accepts s (proc_ptr demo) j)"
proof -
  define c where "c = proc_ptr demo"
  have c: "c < 9" "c \<noteq> 1" "c \<noteq> 8" "p_flags (procs demo c) = 0" using demo_current by (simp_all add: c_def)
  have c12: "c < 12" using c by simp
  obtain s' where s': "mini_rec c FS_PROC_NR 20000 demo = Done (OK, s')" "waiting s' c"
    by (rule received_wait [OF c12 c(2,3)]) (rule that)
  have "sys_call RECEIVE FS_PROC_NR 20000 demo = Done (OK, s')"
    using s'(1) c(1) by (simp add: sys_call_def isoksrc_dest_def isokprocn_def isuserp_def c_def [symmetric])
  moreover have "call_ok RECEIVE FS_PROC_NR demo" using c(2,3,4) c12 by (simp add: call_ok_def c_def [symmetric])
  ultimately have r: "kernel_reachable s'"
    using kernel_reachable.step [OF demo_reachable kernel_step.call] by blast
  have "c < NR_SLOTS" using c by simp
  from no_lost_wakeup [OF r this s'(2)] r s'(2) show ?thesis unfolding c_def by blast
qed

text \<open>
  C6: \<open>mini_send\<close> does what message passing promises.  It refuses with the error of the
  first check that fails (bad destination, buffer outside the data segment, mutual send) and
  then changes nothing.  Otherwise, if the destination waits for this sender, the 26 bytes of
  the message arrive in its buffer with the true number of the sender in \<open>m_source\<close>, its
  \<open>RECEIVING\<close> flag is cleared and the queues of senders are as before; if not, the
  sender is blocked and appended to the destination's queue and memory is unchanged.  The
  invariant holds again in every case.
\<close>

theorem mini_send_refines:
  assumes ok: "kernel_ok s" and c: "c < NR_SLOTS" "runnable s c" and d: "d < NR_SLOTS"
  shows "\<exists>s'. mini_send c (int d - NR_TASKS) m s = Done (send_error (callers s) c d m s, s') \<and> kernel_ok s' \<and>
    (if send_error (callers s) c d m s \<noteq> OK then s' = s
     else if waiting s d \<and> accepts s d c then
       message_at (int c - NR_TASKS) (shadow_addr (procs s c) m) (kmem s)
         (shadow_addr (procs s d) (p_messbuf (procs s d))) (kmem s') \<and>
       \<not> receiving s' d \<and> (\<forall>i<NR_SLOTS. callers s' i = callers s i)
     else kmem s' = kmem s \<and> sending s' c \<and>
       (\<forall>i<NR_SLOTS. callers s' i = (if i = d then callers s d @ [c] else callers s i)))"
proof -
  have core: "core_inv (ready_q s) (callers s) (held s) s" and sig: "signals_ok s"
    using kernel_okD [OF ok] by (simp_all add: kernel_inv_def)
  have cf: "p_flags (procs s c) = 0" "c \<noteq> 1" "c \<noteq> 8" using c by (simp_all add: runnable_def)
  have nr: "p_nr (procs s c) = int c - NR_TASKS" using slots_nr [OF core_invD(10) [OF core] c(1)] .
  show ?thesis
  proof (rule mini_send_cases [OF core c(1) cf(1,2) d, of m])
    show "c = 8 \<Longrightarrow> waiting s d \<and> accepts s d c" using cf by simp
  next
    assume "send_error (callers s) c d m s \<noteq> OK"
      "mini_send c (int d - NR_TASKS) m s = Done (send_error (callers s) c d m s, s)"
    then show ?thesis using ok by simp
  next
    fix s' R'
    assume s': "send_error (callers s) c d m s = OK" "waiting s d" "accepts s d c"
      "mini_send c (int d - NR_TASKS) m s = Done (OK, s')" "core_inv R' (callers s) (held s) s'"
      "off_queues s' = off_queues (delivered c d m s)"
    have inv: "kernel_inv R' (callers s) (held s) s'"
      using s'(5) delivered_inv_signals [OF sig s'(6)] by (simp add: kernel_inv_def)
    have "\<not> receiving s' d" by (simp add: receiving_def off_projs [OF s'(6)] delivered_fields flag_simps)
    moreover have "message_at (int c - NR_TASKS) (shadow_addr (procs s c) m) (kmem s)
         (shadow_addr (procs s d) (p_messbuf (procs s d))) (kmem s')"
      using cp_mess_message [of "int c - NR_TASKS" s c m d "p_messbuf (procs s d)"] c(1)
      by (simp add: off_queues_fields [OF s'(6)] delivered_def nr)
    ultimately show ?thesis
      using s'(1-4) kernel_okI [OF inv] kernel_inv_lists(2) [OF inv] by simp
  next
    fix s' R'
    assume s': "send_error (callers s) c d m s = OK" "\<not> (waiting s d \<and> accepts s d c)"
      "mini_send c (int d - NR_TASKS) m s = Done (OK, s')"
      "core_inv R' ((callers s)(d := callers s d @ [c])) (held s) s'" "blocked_sending c m s s'"
    have "signals_ok s'"
      by (rule signals_ok_flags [OF sig]) (use s'(5) cf in \<open>auto simp: blocked_sending_def\<close>)
    then have inv: "kernel_inv R' ((callers s)(d := callers s d @ [c])) (held s) s'"
      using s'(4) by (simp add: kernel_inv_def)
    have "kmem s' = kmem s" "sending s' c" using s'(5) by (simp_all add: blocked_sending_def sending_def)
    then show ?thesis using s'(1-3) kernel_okI [OF inv] kernel_inv_lists(2) [OF inv] by auto
  qed
qed

lemma sent_3_4:
  "\<exists>s'. mini_send 3 (int 4 - NR_TASKS) 20000 demo = Done (OK, s') \<and> kernel_ok s' \<and> callers s' 4 = [3] \<and> \<not> sending s' 4"
proof -
  have core: "core_inv (ready_q demo) (callers demo) (held demo) demo" and sig: "signals_ok demo"
    using kernel_okD [OF demo_ok] by (simp_all add: kernel_inv_def)
  have fl: "p_flags (procs demo 3) = 0" "p_flags (procs demo 4) = 0" using demo_flags [of 3] demo_flags [of 4] by simp_all
  have e: "send_error (callers demo) 3 4 20000 demo = OK"
    using task_mess_ok [of 3] fl by (simp add: send_error_def isuserp_def demo_callers)
  have w: "\<not> waiting demo 4" using demo_flag_cases(2) [of 4] by (simp add: waiting_def)
  have n: "(3::nat) < NR_SLOTS" "(3::nat) \<noteq> 1" "(4::nat) < NR_SLOTS" "(3::nat) \<noteq> 8" by simp_all
  obtain s' R' where s': "mini_send 3 (int 4 - NR_TASKS) 20000 demo = Done (OK, s')"
    "core_inv R' ((callers demo)(4 := callers demo 4 @ [3])) (held demo) s'" "blocked_sending 3 20000 demo s'"
    using mini_send_cases [OF core n(1) fl(1) n(2,3), of 20000] e w n(4) by blast
  have "signals_ok s'"
    by (rule signals_ok_flags [OF sig]) (use s'(3) fl in \<open>auto simp: blocked_sending_def\<close>)
  then have inv: "kernel_inv R' ((callers demo)(4 := callers demo 4 @ [3])) (held demo) s'"
    using s'(2) by (simp add: kernel_inv_def)
  have "callers s' 4 = [3]" using kernel_inv_lists(2) [OF inv n(3)] demo_callers [of 4] by simp
  moreover have "\<not> sending s' 4" using s'(3) fl by (simp add: blocked_sending_def sending_def)
  ultimately show ?thesis using s'(1) kernel_okI [OF inv] by blast
qed

theorem mini_send_refines_witness:
  "\<exists>s'. mini_send 3 (3 - NR_TASKS) 20000 demo = Done (OK, s') \<and> callers s' 3 = [3] \<and> sending s' 3"
proof -
  have e: "send_error (callers demo) 3 3 20000 demo = OK"
    using task_mess_ok [of 3] demo_flags [of 3] by (simp add: send_error_def isuserp_def demo_callers)
  have w: "\<not> waiting demo 3" using demo_flag_cases(2) [of 3] by (simp add: waiting_def)
  obtain s' where s': "mini_send 3 (int 3 - NR_TASKS) 20000 demo = Done (OK, s')" "sending s' 3"
    "\<forall>i<NR_SLOTS. callers s' i = (if i = 3 then callers demo 3 @ [3] else callers demo i)"
    using mini_send_refines [OF demo_ok _ demo_runnable, of 3 3 20000] unfolding e by (simp add: w) blast
  have "callers s' 3 = [3]" using s'(3) demo_callers [of 3] by simp
  with s'(1,2) show ?thesis by auto
qed

lemma int_message_source:
  "get_int (put_int (m + 2) v (put_int m HARDWARE k)) m = HARDWARE"
proof -
  have "m + 2 \<noteq> m" "m + 2 \<noteq> m + 1" "m + 2 + 1 \<noteq> m" "m + 2 + 1 \<noteq> m + 1" "m + 1 \<noteq> m" by simp_all
  then have "get_int (put_int (m + 2) v (put_int m HARDWARE k)) m = get_int (put_int m HARDWARE k) m"
    by (simp add: get_int_def get16_def put_int_def put16_def)
  then show ?thesis using get_int_put_int [of HARDWARE m k] by simp
qed

lemma flag_or_nonzero: "(f OR RECEIVING) AND RECEIVING \<noteq> 0"
  by (simp add: flag_simps bit.conj_disj_distrib2)

text \<open>
  C9: \<open>mini_rec\<close> is fair and complete: for a process that is not itself sending it takes the
  message of the first process in the queue whose message is wanted, removes that process from
  the queue, leaves the order of the others alone and clears the sender's \<open>SENDING\<close> flag;
  only if nobody qualifies may it deliver a recorded interrupt, and only if there is none does
  it block the receiver.
\<close>

theorem receive_fifo:
  assumes ok: "kernel_ok s" and c: "c < NR_SLOTS" "c \<noteq> 1" "c \<noteq> 8" "\<not> sending s c"
  shows "\<exists>s'. mini_rec c src m s = Done (OK, s') \<and> kernel_ok s' \<and>
    (case filter (wanted src) (callers s c) of
       j # _ \<Rightarrow> callers s' c = remove1 j (callers s c) \<and> \<not> sending s' j \<and>
         message_at (p_nr (procs s j)) (shadow_addr (procs s j) (p_messbuf (procs s j))) (kmem s)
           (shadow_addr (procs s c) m) (kmem s')
     | [] \<Rightarrow> (if p_int_blocked (procs s c) \<and> isrxhardware src
         then \<not> p_int_blocked (procs s' c) \<and> get_int (kmem s') m = HARDWARE
         else receiving s' c \<or> (c = 9 \<and> src = ANY \<and> sig_procs s > 0)))"
proof -
  have inv: "kernel_inv (ready_q s) (callers s) (held s) s" using kernel_okD [OF ok] .
  have C: "callers_ok (callers s) s" and sl: "slots_ok s" using inv by (simp_all add: kernel_inv_def core_inv_def rest_inv_def)
  show ?thesis
  proof (rule mini_rec_cases [OF inv c(1-3), of src m])
    show "sending s c \<Longrightarrow> \<exists>d<NR_SLOTS. src = int d - NR_TASKS \<and> c \<in> set (callers s d)" using c(4) by simp
  next
    fix pre j post s' R'
    assume a: "callers s c = pre @ j # post" "wanted src j" "\<forall>k\<in>set pre. \<not> wanted src k"
      "mini_rec c src m s = Done (OK, s')" "kernel_inv R' ((callers s)(c := pre @ post)) (held s) s'"
      "off_queues s' = off_queues (accepted c pre j m s)"
    have f: "filter (wanted src) (callers s c) = j # filter (wanted src) post"
      using a(1,2,3) by (simp add: filter_empty_conv)
    have "j \<notin> set pre" using callers_okD(3) [OF C c(1)] a(1) by auto
    then have "remove1 j (callers s c) = pre @ post" by (simp add: a(1) remove1_append)
    moreover have "callers s' c = pre @ post" using kernel_inv_lists(2) [OF a(5) c(1)] by simp
    moreover have "\<not> sending s' j" by (simp add: sending_def off_projs [OF a(6)] accepted_fields flag_simps)
    moreover have "p_nr (procs s j) = int j - NR_TASKS" "j < NR_SLOTS"
      using callers_okD(2) [OF C c(1), of j] a(1) slots_nr [OF sl, of j] by simp_all
    then have "message_at (p_nr (procs s j)) (shadow_addr (procs s j) (p_messbuf (procs s j))) (kmem s)
           (shadow_addr (procs s c) m) (kmem s')"
      using cp_mess_message [of "p_nr (procs s j)" s j "p_messbuf (procs s j)" c m]
      by (simp add: off_queues_fields [OF a(6)] accepted_fields)
    ultimately show ?thesis using a(4) kernel_okI [OF a(5)] f by simp
  next
    let ?s = "upd_proc c (p_int_blocked_update (\<lambda>_. False))
         (upd_mem (put_int (m + off_type) HARD_INT) (upd_mem (put_int (m + off_source) HARDWARE) s))"
    assume a: "\<forall>k\<in>set (callers s c). \<not> wanted src k" "p_int_blocked (procs s c)" "isrxhardware src"
      "mini_rec c src m s = Done (OK, ?s)" "kernel_inv (ready_q s) (callers s) (held s) ?s"
    have f: "filter (wanted src) (callers s c) = []" using a(1) by (simp add: filter_empty_conv)
    have "get_int (kmem ?s) m = HARDWARE" by (simp add: upd_mem_def int_message_source)
    then show ?thesis using a(2-4) kernel_okI [OF a(5)] f by (intro exI [of _ ?s]) simp
  next
    fix s1 s' R'
    assume a: "\<not> sending s c \<Longrightarrow> \<forall>k\<in>set (callers s c). \<not> wanted src k"
      "mini_rec c src m s = Done (OK, s')" "kernel_inv R' (callers s) (held s) s'" "blocked_receiving c src m s s1"
      "if 0 < sig_procs s \<and> c = 9 \<and> src = ANY then informed s1 s' else s' = s1"
      "\<not> sending s c \<Longrightarrow> \<not> (p_int_blocked (procs s c) \<and> isrxhardware src)"
    have f: "filter (wanted src) (callers s c) = []" using a(1) c(4) by (simp add: filter_empty_conv)
    have r: "receiving s1 c" using a(4) by (simp add: blocked_receiving_def receiving_def flag_or_nonzero)
    show ?thesis using a(2,5,6) c(4) kernel_okI [OF a(3)] f r by (auto split: if_split_asm)
  qed
qed

theorem receive_fifo_witness:
  "\<exists>s s'. callers s 4 = [3] \<and> mini_rec 4 ANY 20000 s = Done (OK, s') \<and> callers s' 4 = [] \<and> \<not> sending s' 3"
proof -
  obtain s where s: "kernel_ok s" "callers s 4 = [3]" "\<not> sending s 4" using sent_3_4 by blast
  have n: "(4::nat) < NR_SLOTS" "(4::nat) \<noteq> 1" "(4::nat) \<noteq> 8" by simp_all
  show ?thesis
    using receive_fifo [OF s(1) n s(3), of ANY 20000] s(2) by (auto simp: wanted_def)
qed

subsection \<open>Interrupts and signals\<close>



text \<open>
  A kernel signal never fails.  For every user process and every signal number
  \<open>cause_sig\<close> returns (\<open>inform\<close> does not panic, because the memory manager is waiting when
  it is called and the kernel's buffer is always acceptable), the state stays reachable, and no
  process other than the target, the memory manager and those with signals already pending
  has its flags changed.
\<close>

theorem cause_sig_succeeds:
  assumes "kernel_reachable s" and "11 \<le> i" "i < NR_SLOTS" and "1 \<le> sig" "sig \<le> 16"
  shows "\<exists>s'. cause_sig (int i - NR_TASKS) sig s = Done s' \<and> kernel_reachable s' \<and>
    (\<forall>j. j \<noteq> i \<and> j \<noteq> 9 \<and> \<not> pending s j \<longrightarrow> p_flags (procs s' j) = p_flags (procs s j))"
proof -
  obtain s' where "cause_sig (int i - NR_TASKS) sig s = Done s'"
    "\<forall>j. j \<noteq> i \<and> j \<noteq> 9 \<and> \<not> pending s j \<longrightarrow> p_flags (procs s' j) = p_flags (procs s j)"
    using cause_sig_inv [OF kernel_okD [OF kernel_reachable_ok [OF assms(1)]] assms(2-5)] by blast
  moreover from this(1) have "kernel_reachable s'"
    by (rule kernel_reachable.step [OF assms(1) kernel_step.signal [OF assms(2-5)]])
  ultimately show ?thesis by blast
qed

theorem cause_sig_succeeds_witness: "\<exists>s'. cause_sig 2 SIGALRM demo = Done s' \<and> kernel_reachable s'"
  using cause_sig_succeeds [OF demo_reachable, of 11 SIGALRM] by auto

subsection \<open>Processes\<close>

text \<open>Memory with a request message at address 0x2000.\<close>

definition request :: "int \<Rightarrow> int \<Rightarrow> int \<Rightarrow> addr \<Rightarrow> kstate \<Rightarrow> kstate" where
  "request i1 i2 i3 p1 = upd_mem (\<lambda>k. put32 0x200A p1 (put_int 0x2008 i3 (put_int 0x2006 i2 (put_int 0x2004 i1 k))))"

lemma request_ints:
  assumes "-32768 \<le> i1" "i1 < 32768" "-32768 \<le> i2" "i2 < 32768"
  shows "msg_int 0x2000 m1_i1 (request i1 i2 i3 p1 s) = i1" "msg_int 0x2000 m1_i2 (request i1 i2 i3 p1 s) = i2"
proof -
  have far: "get_int (put32 0x200A v k) a = get_int k a" "get_int (put_int 0x2008 w k) a = get_int k a"
    if "a = 0x2004 \<or> a = 0x2006" for v w k a
    using that by (auto simp: get_int_def get16_def put32_def put16_def put_int_def)
  have "get_int (put_int 0x2006 i2 k) 0x2004 = get_int k 0x2004" for k
    by (simp add: get_int_def get16_def put16_def put_int_def)
  then show "msg_int 0x2000 m1_i1 (request i1 i2 i3 p1 s) = i1"
    using get_int_put_int [OF assms(1,2)] by (simp add: request_def upd_mem_def far)
  show "msg_int 0x2000 m1_i2 (request i1 i2 i3 p1 s) = i2"
    using get_int_put_int [OF assms(3,4)] by (simp add: request_def upd_mem_def far)
qed

lemma request_ok: "kernel_ok s \<Longrightarrow> kernel_ok (request i1 i2 i3 p1 s)"
  unfolding request_def by (rule kernel_step_ok [OF kernel_step.memory])

lemma request_same [simp]:
  "procs (request i1 i2 i3 p1 s) = procs s" "callers (request i1 i2 i3 p1 s) = callers s"
  "sending (request i1 i2 i3 p1 s) = sending s" "receiving (request i1 i2 i3 p1 s) = receiving s"
  "waiting (request i1 i2 i3 p1 s) = waiting s"
  by (auto simp: request_def upd_mem_def callers_def sending_def receiving_def waiting_def fun_eq_iff)

text \<open>
  C12: Exit leaves no dangling links.  When the memory manager reports an exit, the slot becomes
  free, it is on no ready queue and on no process's queue of senders, every other sender
  stays queued, and the table satisfies the invariant.
\<close>

theorem do_xit_unlinks:
  assumes "kernel_ok s" and "exit_request m p rc s"
  shows "\<exists>s'. do_xit m s = Done (OK, s') \<and> kernel_ok s' \<and> p_flags (procs s' rc) = P_SLOT_FREE \<and>
           (\<forall>q<NQ. rc \<notin> set (ready_q s' q)) \<and> (\<forall>i<NR_SLOTS. set (callers s' i) = set (callers s i) - {rc})"
  by (rule do_xit_inv [OF assms])

theorem do_xit_unlinks_witness:
  "\<exists>s'. do_xit 0x2000 (request 0 2 0 0 demo) = Done (OK, s') \<and> p_flags (procs s' 11) = P_SLOT_FREE \<and>
     11 \<notin> set (ready_q s' USER_Q)"
proof -
  let ?s = "request 0 2 0 0 demo"
  have "find (same_place 11 ?s) (slots_from 11) = None"
    unfolding find_None_iff using demo_flags by (auto simp: same_place_def)
  then have "exit_request 0x2000 9 11 ?s"
    using request_ints [of 0 2 0 0 demo] by (simp add: exit_request_def shadow_ok_def)
  from do_xit_unlinks [OF request_ok [OF demo_ok] this] show ?thesis by fastforce
qed

text \<open>
  Fork makes a proper child.  For a parent waiting for its reply and a free slot, the
  child has its own process number and pid, sees 0 as the result of its call, waits for the
  memory manager's reply like the parent, and takes the parent's place in memory while the
  parent is given the shadow; the invariant holds.
\<close>

theorem do_fork_child:
  assumes "kernel_ok s" and "fork_request m p c s"
  shows "\<exists>s'. do_fork m s = Done (OK, s') \<and> kernel_ok s' \<and> waiting s' c \<and> p_nr (procs s' c) = int c - NR_TASKS \<and>
           p_reg (procs s' c) reg_ret = 0 \<and> p_pid (procs s' c) = msg_int m m1_i3 s \<and>
           p_shadow (procs s' c) = p_shadow (procs s p) \<and> p_shadow (procs s' p) = ucast (msg_long m m1_p1 s)"
  by (rule do_fork_inv [OF assms])

theorem do_fork_child_witness:
  "\<exists>s s'. do_fork 0x2000 s = Done (OK, s') \<and> waiting s 11 \<and> waiting s' 12 \<and> p_reg (procs s' 12) reg_ret = 0"
proof -
  have n: "(11::nat) < 12" "(11::nat) \<noteq> 1" "(11::nat) \<noteq> 8" by simp_all
  obtain s where s: "kernel_ok s" "waiting s 11" "\<forall>i<NR_SLOTS. \<not> sending s i"
    "\<forall>i<NR_SLOTS. p_flags (procs s i) = (if i = 11 then RECEIVING else p_flags (procs demo i))"
    by (rule received_wait [OF n]) (rule that)
  have C: "callers_ok (callers s) s" using kernel_okD [OF s(1)] by (simp add: kernel_inv_def core_inv_def rest_inv_def)
  have e: "callers s i = []" if "i < NR_SLOTS" for i
    using callers_okD(2) [OF C that] s(3) by (metis list.set_intros(1) neq_Nil_conv)
  have "fork_request 0x2000 11 12 (request 2 3 77 0x4000 s)"
    using request_ints [of 2 3 77 "0x4000" s] s(2-4) e [of 11] e [of 12] demo_flags [of 12]
    by (simp add: fork_request_def waiting_def)
  from do_fork_child [OF request_ok [OF s(1)] this] s(2) show ?thesis by fastforce
qed

text \<open>
  Exec restarts a waiting process: the new stack pointer and the start of the text
  segment are installed, the alarm is cancelled, the pending receive is dropped, and a
  process with no other reason to wait is runnable, hence on its ready queue.
\<close>

theorem do_exec_restarts:
  assumes "kernel_ok s" and "11 \<le> i" "i < NR_SLOTS" and "msg_int m m1_i1 s = int i - NR_TASKS"
    and "receiving s i" "\<not> sending s i" and "msg_int m m1_i2 s = 0"
  shows "\<exists>s'. do_exec m s = Done (OK, s') \<and> kernel_ok s' \<and> exec_image (msg_long m m1_p1 s) (procs s' i) \<and>
           \<not> receiving s' i \<and> (p_flags (procs s i) = RECEIVING \<longrightarrow> runnable s' i)"
  by (rule do_exec_inv [OF assms])

theorem do_exec_restarts_witness:
  "\<exists>s s'. do_exec 0x2000 s = Done (OK, s') \<and> \<not> runnable s 11 \<and> runnable s' 11"
proof -
  have n: "(11::nat) < 12" "(11::nat) \<noteq> 1" "(11::nat) \<noteq> 8" by simp_all
  obtain s where s: "kernel_ok s" "waiting s 11" "\<forall>i<NR_SLOTS. \<not> sending s i"
    "\<forall>i<NR_SLOTS. p_flags (procs s i) = (if i = 11 then RECEIVING else p_flags (procs demo i))"
    by (rule received_wait [OF n]) (rule that)
  let ?s = "request 2 0 0 0x4000 s"
  have m: "msg_int 0x2000 m1_i1 ?s = int 11 - NR_TASKS" "msg_int 0x2000 m1_i2 ?s = 0" "(11::nat) \<le> 11" "(11::nat) < NR_SLOTS"
    "receiving ?s 11" "\<not> sending ?s 11" "p_flags (procs ?s 11) = RECEIVING"
    using request_ints [of 2 0 0 "0x4000" s] s(2,4) by (simp_all add: waiting_def)
  obtain s' where "do_exec 0x2000 ?s = Done (OK, s')" "runnable s' 11"
    using do_exec_restarts [OF request_ok [OF s(1)] m(3,4,1,5,6,2)] m(7) by blast
  moreover have "\<not> runnable ?s 11" using m(7) by (simp add: runnable_def)
  ultimately show ?thesis by blast
qed

subsection \<open>Memory\<close>

lemma unat_image_at:
  assumes "unat base + (\<Sum>t\<leftarrow>ts. unat (sizes b (2 * t + 2)) + unat (sizes b (2 * t + 3))) < 65536"
  shows "unat (image_at b ts base) = unat base + (\<Sum>t\<leftarrow>ts. unat (sizes b (2 * t + 2)) + unat (sizes b (2 * t + 3)))"
  using assms
proof (induction ts arbitrary: base)
  case Nil
  then show ?case by (simp add: image_at_def)
next
  case (Cons t ts)
  let ?x = "sizes b (2 * t + 2)" and ?y = "sizes b (2 * t + 3)"
  have "unat (base + ?x + ?y) = unat base + unat ?x + unat ?y"
    using Cons.prems by (simp add: unat_word_ariths)
  then show ?case using Cons.IH [of "base + ?x + ?y"] Cons.prems
    by (simp add: image_at_def add.assoc del: distrib_left_numeral)
qed

text \<open>
  If the boot image fits into 65536 clicks, start-up places the memory manager, the
  file system and init one after the other behind the kernel: each program's text, data and
  stack segments are where the sizes in the image say, and the images do not overlap.
\<close>

theorem main_places_images:
  assumes "zeroed s" and "sys_m s < 0xFFFF00 - 26" and "t < u" "u < 3"
    and fits: "unat (sizes b 0 + sizes b 1) + (\<Sum>t\<leftarrow>[0..<3]. unat (sizes b (2 * t + 2)) + unat (sizes b (2 * t + 3))) < 65536"
  shows "\<exists>s' lo hi. main b s = Done s' \<and> loaded b t lo (procs s' (t + 9)) \<and> loaded b u hi (procs s' (u + 9)) \<and>
    unat (sizes b 0 + sizes b 1) \<le> unat lo \<and>
    unat lo + unat (sizes b (2 * t + 2)) + unat (sizes b (2 * t + 3)) \<le> unat hi \<and>
    unat hi + unat (sizes b (2 * u + 2)) + unat (sizes b (2 * u + 3)) < 65536"
proof -
  obtain s' where s': "main b s = Done s'"
    "\<forall>t<3. loaded b t (image_at b [0..<t] (sizes b 0 + sizes b 1)) (procs s' (t + 9))"
    using main_ok [OF assms(1,2), of b] by blast
  let ?f = "\<lambda>t. unat (sizes b (2 * t + 2)) + unat (sizes b (2 * t + 3))"
  have sub: "(\<Sum>t\<leftarrow>[0..<n]. ?f t) \<le> (\<Sum>t\<leftarrow>[0..<3]. ?f t)" if "n \<le> 3" for n
    using that by (simp add: interv_sum_list_conv_sum_set_nat sum_mono2 del: upt_rec_numeral)
  have im: "unat (image_at b [0..<n] (sizes b 0 + sizes b 1)) = unat (sizes b 0 + sizes b 1) + (\<Sum>t\<leftarrow>[0..<n]. ?f t)"
    if "n \<le> 3" for n
    using fits sub [OF that] by (intro unat_image_at) linarith
  have step: "(\<Sum>t\<leftarrow>[0..<Suc n]. ?f t) = (\<Sum>t\<leftarrow>[0..<n]. ?f t) + ?f n" for n by simp
  have "sum ?f {0..<Suc t} \<le> sum ?f {0..<u}" by (intro sum_mono2) (use assms(3) in auto)
  then have mono: "(\<Sum>t\<leftarrow>[0..<Suc t]. ?f t) \<le> (\<Sum>t\<leftarrow>[0..<u]. ?f t)"
    by (simp only: interv_sum_list_conv_sum_set_nat set_upt)
  have top: "(\<Sum>t\<leftarrow>[0..<Suc u]. ?f t) \<le> (\<Sum>t\<leftarrow>[0..<3]. ?f t)" using assms(4) by (intro sub) simp
  have t: "t < 3" "t \<le> 3" "u \<le> 3" using assms(3,4) by simp_all
  define lo where "lo = image_at b [0..<t] (sizes b 0 + sizes b 1)"
  define hi where "hi = image_at b [0..<u] (sizes b 0 + sizes b 1)"
  have "loaded b t lo (procs s' (t + 9))" "loaded b u hi (procs s' (u + 9))"
    using s'(2) t(1) assms(4) by (simp_all add: lo_def hi_def)
  moreover have "unat (sizes b 0 + sizes b 1) \<le> unat lo" using im [OF t(2)] by (simp add: lo_def)
  moreover have "unat lo + unat (sizes b (2 * t + 2)) + unat (sizes b (2 * t + 3)) \<le> unat hi"
    using im [OF t(2)] im [OF t(3)] mono unfolding lo_def hi_def step by linarith
  moreover have "unat hi + unat (sizes b (2 * u + 2)) + unat (sizes b (2 * u + 3)) < 65536"
    using im [OF t(3)] top fits unfolding hi_def step by linarith
  ultimately show ?thesis using s'(1) by blast
qed

theorem main_places_images_witness:
  "\<exists>s' lo hi. main demo_boot blank = Done s' \<and> loaded demo_boot 0 lo (procs s' 9) \<and> loaded demo_boot 2 hi (procs s' 11) \<and>
     unat lo + 128 \<le> unat hi"
proof -
  have "\<exists>s' lo hi. main demo_boot blank = Done s' \<and> loaded demo_boot 0 lo (procs s' (0 + 9)) \<and>
    loaded demo_boot 2 hi (procs s' (2 + 9)) \<and> unat (sizes demo_boot 0 + sizes demo_boot 1) \<le> unat lo \<and>
    unat lo + unat (sizes demo_boot (2 * 0 + 2)) + unat (sizes demo_boot (2 * 0 + 3)) \<le> unat hi \<and>
    unat hi + unat (sizes demo_boot (2 * 2 + 2)) + unat (sizes demo_boot (2 * 2 + 3)) < 65536"
    by (rule main_places_images [OF blank_zeroed]) (simp_all add: demo_boot_def upt_rec)
  then obtain s' lo hi where "main demo_boot blank = Done s'" "loaded demo_boot 0 lo (procs s' 9)"
    "loaded demo_boot 2 hi (procs s' 11)"
    "unat lo + unat (sizes demo_boot (2 * 0 + 2)) + unat (sizes demo_boot (2 * 0 + 3)) \<le> unat hi" by auto
  moreover have "unat (sizes demo_boot k) = 64" for k by (simp add: demo_boot_def)
  ultimately show ?thesis by (intro exI [of _ s'] exI [of _ lo] exI [of _ hi]) simp
qed

text \<open>
  \<open>umap\<close> checks only the upper end of a segment.  A program loaded above the kernel that
  passes an address below its own data, down to the start of memory, gets that address back
  as valid (it is the memory of the kernel or of another program).
\<close>

theorem umap_ignores_lower_end:
  assumes "loaded b t base p" and "p_shadow p = 0" and "0 < n" and "0 \<le> a"
    and "a + n \<le> 256 * (uint base + uint (sizes b (2 * t + 2)) + uint (sizes b (2 * t + 3)))"
    and "uint base + uint (sizes b (2 * t + 2)) + uint (sizes b (2 * t + 3)) < 65536"
  shows "umap p 1 (word_of_int a) (word_of_int n) = word_of_int a"
proof -
  let ?hi = "base + sizes b (2 * t + 2) + sizes b (2 * t + 3)"
  let ?e = "uint base + uint (sizes b (2 * t + 2)) + uint (sizes b (2 * t + 3))"
  have "uint base + uint (sizes b (2 * t + 2)) < 65536"
    using assms(6) uint_ge_0 [of "sizes b (2 * t + 3)"] by linarith
  then have "uint (base + sizes b (2 * t + 2)) = uint base + uint (sizes b (2 * t + 2))"
    unfolding uint_word_ariths by (intro mod_pos_pos_trivial) simp_all
  then have e: "uint ?hi = ?e"
    unfolding uint_word_ariths(1) [of "base + sizes b (2 * t + 2)"] using assms(6)
    by (intro trans [OF mod_pos_pos_trivial]) simp_all
  have bound: "a + n < 256 * 65536" using assms(6) by (intro le_less_trans [OF assms(5)]) simp
  have sn: "sint (word_of_int k :: addr) = k" if "0 \<le> k" "k < 256 * 65536" for k
    using that by (simp add: signed_of_int signed_take_bit_int_eq_self_iff)
  define v where "v = (word_of_int a :: addr) + word_of_int n - 1"
  have "v = word_of_int (a + n - 1)" by (simp add: v_def)
  then have "uint v = (a + n - 1) mod 2 ^ 32" by (simp only: uint_word_of_int len_num1 len_bit0) simp
  then have "uint v = a + n - 1" using assms(3,4) bound by simp
  then have dv: "uint (drop_bit 8 v) = (a + n - 1) div 256" by (simp add: drop_bit_eq_div uint_div)
  have less: "x div 256 < e" if "x < 256 * e" for x e :: int using that by presburger
  have lt: "(a + n - 1) div 256 < ?e" using assms(5) by (intro less) simp
  have "uint (ucast (drop_bit 8 v) :: u16) = (a + n - 1) div 256"
    using lt assms(3,4,6) dv by (simp add: unsigned_ucast_eq take_bit_int_eq_self_iff pos_imp_zdiv_nonneg_iff)
  then have top: "(ucast (drop_bit 8 v) :: u16) < ?hi" using lt e by (simp add: word_less_def)
  have "a div 256 < ?e" using assms(3,5) by (intro less) simp
  then have low: "\<not> uint ?hi \<le> sint (word_of_int a :: addr) div 256" using e sn [of a] assms(3,4) bound by simp
  have seg: "mem_vir (p_map p seg_D) + mem_len (p_map p seg_D) = ?hi" using assms(1) by (simp add: loaded_def)
  show ?thesis
    using top low sn [of n] assms(2,3,4) bound by (simp add: umap_def Let_def seg v_def del: One_nat_def)
qed

theorem umap_ignores_lower_end_witness: "umap (procs demo 9) 1 0x400 16 = 0x400"
proof -
  have l: "loaded demo_boot 0 128 (procs demo (0 + 9))" using demo_loaded [of 0] by (simp add: image_at_def)
  have sh: "p_shadow (procs demo (0 + 9)) = 0" using demo_unshadowed by simp
  have "umap (procs demo (0 + 9)) 1 (word_of_int 0x400) (word_of_int 16) = word_of_int 0x400"
    by (rule umap_ignores_lower_end [OF l sh]) (simp_all add: demo_boot_def)
  then show ?thesis by simp
qed

end
