(* ===== verification/Kernel_Clock.thy ===== *)
theory Kernel_Clock
  imports Kernel_Run
begin

section \<open>Kernel: the clock task\<close>

text \<open>
  kernel/clock.c for the 68000.  One turn of the loop of \<open>clock_task\<close> is a function of the
  message in \<open>mc\<close>; \<open>clock_handler\<close> is the interrupt routine.  The watch-dog routines of
  the drivers are a parameter, and what the handler does for keyboard, floppy and RS232 is left
  out.  Times are signed longs.
\<close>

unbundle bit_operations_syntax

abbreviation (input) "SET_ALARM \<equiv> (1::int)"
abbreviation (input) "REAL_TIME \<equiv> (1::int)"
abbreviation (input) "GET_TIME \<equiv> (3::int)"
abbreviation (input) "SET_TIME \<equiv> (4::int)"
abbreviation (input) "SCHED_RATE \<equiv> (6::int)"
abbreviation (input) "SIG_ALRM \<equiv> (14::int)"
abbreviation (input) "MAX_P_LONG \<equiv> (0x7FFFFFFF::addr)"

subsection \<open>Requests\<close>

text \<open>The earlier of the alarm of a process, if it has one, and \<open>next\<close>.\<close>

definition earlier :: "proc \<Rightarrow> addr \<Rightarrow> addr" where
  "earlier p nxt = (if p_alarm p \<noteq> 0 \<and> sint (p_alarm p) < sint nxt then p_alarm p else nxt)"

definition seconds :: "addr \<Rightarrow> addr" where
  "seconds ticks = word_of_int (sint ticks sdiv 60)"

definition do_setalarm :: "addr \<Rightarrow> kstate \<Rightarrow> kstate run" where
  "do_setalarm m_ptr s =
     (let proc_nr = msg_int m_ptr m6_i1 s;
          delta_ticks = msg_long m_ptr m6_l1 s;
          function = msg_long m_ptr m6_f1 s
      in andthen (proc_addr proc_nr) (\<lambda>rp.
      let al = p_alarm (procs s rp);
          s = set_long (mc s) m6_l1 (if al = 0 then 0 else seconds (al - realtime s)) s;
          s = upd_proc rp (p_alarm_update (\<lambda>_. if delta_ticks = 0 then 0 else realtime s + delta_ticks)) s;
          s = (if istaskp rp then s\<lparr>watch_dog := (watch_dog s)(nat (- proc_nr) := function)\<rparr> else s)
      in Done (s\<lparr>next_alarm := fold (\<lambda>i. earlier (procs s i)) (slots_from 0) MAX_P_LONG\<rparr>)))"

definition do_get_time :: "kstate \<Rightarrow> kstate" where
  "do_get_time s =
     (let s = set_int (mc s) off_type REAL_TIME s
      in set_long (mc s) m6_l1 (boot_time s + seconds (realtime s)) s)"

definition do_set_time :: "addr \<Rightarrow> kstate \<Rightarrow> kstate" where
  "do_set_time m_ptr s = s\<lparr>boot_time := msg_long m_ptr m6_l1 s - seconds (realtime s)\<rparr>"

subsection \<open>Clock ticks\<close>

text \<open>One turn of the loop over the processes; \<open>dog\<close> runs a watch-dog routine.\<close>

definition alarm_turn :: "(addr \<Rightarrow> kstate \<Rightarrow> kstate run) \<Rightarrow> nat \<Rightarrow> kstate \<Rightarrow> kstate run" where
  "alarm_turn dog rp s =
     (if p_alarm (procs s rp) \<noteq> 0 then
        andthen
          (if sint (p_alarm (procs s rp)) \<le> sint (realtime s) then
             let proc_nr = p_nr (procs s rp) in
             andthen (if proc_nr \<ge> 0 then cause_sig proc_nr SIG_ALRM s else dog (watch_dog s (nat (- proc_nr))) s)
               (\<lambda>s. Done (upd_proc rp (p_alarm_update (\<lambda>_. 0)) s))
           else Done s)
          (\<lambda>s. Done (s\<lparr>next_alarm := earlier (procs s rp) (next_alarm s)\<rparr>))
      else Done s)"

fun alarm_loop :: "(addr \<Rightarrow> kstate \<Rightarrow> kstate run) \<Rightarrow> nat list \<Rightarrow> kstate \<Rightarrow> kstate run" where
  "alarm_loop dog [] s = Done s"
| "alarm_loop dog (rp # rps) s = andthen (alarm_turn dog rp s) (alarm_loop dog rps)"

definition quantum_turn :: "kstate \<Rightarrow> kstate run" where
  "quantum_turn s =
     (let s = s\<lparr>sched_ticks := sched_ticks s - 1\<rparr>
      in if sched_ticks s = 0 then
           andthen (if Some (bill_ptr s) = prev_ptr s then lock_sched s else Done s) (\<lambda>s.
           Done (s\<lparr>sched_ticks := SCHED_RATE, prev_ptr := Some (bill_ptr s)\<rparr>))
         else Done s)"

definition do_clocktick :: "(addr \<Rightarrow> kstate \<Rightarrow> kstate run) \<Rightarrow> kstate \<Rightarrow> kstate run" where
  "do_clocktick dog s =
     andthen
       (if sint (next_alarm s) \<le> sint (realtime s)
        then alarm_loop dog (slots_from 0) (s\<lparr>next_alarm := MAX_P_LONG\<rparr>) else Done s) (\<lambda>s.
     andthen (quantum_turn s) (\<lambda>s.
     case rdy_head s SHADOW_Q of Some p \<Rightarrow> unshadow p s | None \<Rightarrow> Done s))"

text \<open>One message to the clock task; the result says whether a reply is sent.\<close>

definition clock_task :: "(addr \<Rightarrow> kstate \<Rightarrow> kstate run) \<Rightarrow> kstate \<Rightarrow> (bool \<times> kstate) run" where
  "clock_task dog s =
     (let opcode = msg_int (mc s) off_type s;
          s = s\<lparr>realtime := realtime s + pending_ticks s\<rparr>;
          s = s\<lparr>pending_ticks := 0\<rparr>
      in andthen
        (if opcode = SET_ALARM then do_setalarm (mc s) s
         else if opcode = GET_TIME then Done (do_get_time s)
         else if opcode = SET_TIME then Done (do_set_time (mc s) s)
         else if opcode = HARD_INT then do_clocktick dog s
         else Panics ''clock task got bad message'')
        (\<lambda>s. Done (opcode \<noteq> HARD_INT, set_int (mc s) off_type OK s)))"

definition clock_handler :: "kstate \<Rightarrow> kstate run" where
  "clock_handler s =
     (let rp = (if k_reenter s \<noteq> 0 then cproc_addr HARDWARE else proc_ptr s);
          s = upd_proc rp (user_time_update (\<lambda>t. t + 1)) s;
          s = (if rp \<noteq> bill_ptr s then upd_proc (bill_ptr s) (sys_time_update (\<lambda>t. t + 1)) s else s);
          s = s\<lparr>pending_ticks := pending_ticks s + 1\<rparr>
      in if sint (next_alarm s) \<le> sint (realtime s + pending_ticks s) \<or>
            (sched_ticks s = 1 \<and> Some (bill_ptr s) = prev_ptr s \<and>
             (rdy_head s USER_Q \<noteq> None \<or> rdy_head s SHADOW_Q \<noteq> None))
         then interrupt CLOCK s
         else
           let s = s\<lparr>sched_ticks := sched_ticks s - 1\<rparr>
           in Done (if sched_ticks s = 0 then s\<lparr>sched_ticks := SCHED_RATE, prev_ptr := Some (bill_ptr s)\<rparr> else s))"

subsection \<open>What leaves the alarms alone\<close>

definition alarms :: "kstate \<Rightarrow> (nat \<Rightarrow> addr) \<times> (nat \<Rightarrow> int) \<times> addr \<times> addr" where
  "alarms s = ((\<lambda>i. p_alarm (procs s i)), (\<lambda>i. p_nr (procs s i)), next_alarm s, realtime s)"

lemma alarms_fields:
  assumes "alarms s' = alarms s"
  shows "p_alarm (procs s' i) = p_alarm (procs s i)" "p_nr (procs s' i) = p_nr (procs s i)"
    "next_alarm s' = next_alarm s" "realtime s' = realtime s"
  using assms by (auto simp: alarms_def fun_eq_iff)

lemma alarms_upd [simp]:
  "alarms (upd_proc i (p_nextready_update f) s) = alarms s" "alarms (upd_proc i (p_flags_update g) s) = alarms s"
  "alarms (upd_proc i (p_messbuf_update h) s) = alarms s" "alarms (upd_proc i (p_callerq_update f) s) = alarms s"
  "alarms (upd_proc i (p_sendlink_update f) s) = alarms s" "alarms (upd_proc i (p_pending_update g) s) = alarms s"
  "alarms (upd_proc i (p_pendcount_update g) s) = alarms s"
  "alarms (upd_mem m s) = alarms s" "alarms (s\<lparr>rdy_head := q\<rparr>) = alarms s" "alarms (s\<lparr>rdy_tail := q\<rparr>) = alarms s"
  "alarms (s\<lparr>proc_ptr := p\<rparr>) = alarms s" "alarms (s\<lparr>bill_ptr := p\<rparr>) = alarms s" "alarms (s\<lparr>switching := b\<rparr>) = alarms s"
  "alarms (s\<lparr>sig_procs := n\<rparr>) = alarms s"
  by (auto simp: alarms_def fun_eq_iff)

lemma pick_proc_alarms [simp]: "alarms (pick_proc s) = alarms s" "alarms (lock_pick_proc s) = alarms s"
  by (auto simp: pick_proc_def lock_pick_proc_def alarms_def split: option.split)

lemma ready_alarms: "ready rp s = Done s' \<Longrightarrow> alarms s' = alarms s" "lock_ready rp s = Done s' \<Longrightarrow> alarms s' = alarms s"
  by (auto simp: lock_ready_def ready_def rdy_append_def outcome_simps split: if_split_asm option.split_asm)

lemma unready_alarms: "unready rp s = Done s' \<Longrightarrow> alarms s' = alarms s" "lock_unready rp s = Done s' \<Longrightarrow> alarms s' = alarms s"
  by (auto simp: lock_unready_def unready_def rdy_remove_def unready_body_def Let_def outcome_simps
      split: if_split_asm option.split_asm)

lemma mini_send_alarms:
  assumes "mini_send c d m s = Done (r, s')"
  shows "alarms s' = alarms s"
proof -
  have "send_deliver c p m s = Done s' \<Longrightarrow> alarms s' = alarms s" for p
    by (auto simp: send_deliver_def cp_mess_def Let_def split: if_split_asm dest: ready_alarms)
  moreover have "send_block c p m s = Done s' \<Longrightarrow> alarms s' = alarms s" for p
    by (auto simp: send_block_def Let_def outcome_simps split: if_split_asm option.split_asm dest: unready_alarms)
  ultimately show ?thesis
    using assms by (auto simp: mini_send_def outcome_simps split: if_split_asm)
qed

lemma inform_alarms:
  assumes "inform s = Done s'"
  shows "alarms s' = alarms s"
  using assms mini_send_alarms
  by (fastforce simp: inform_def lock_mini_send_def finish_ksig_def Let_def outcome_simps
      split: if_split_asm option.split_asm dest: ready_alarms)

lemma cause_sig_alarms:
  assumes "cause_sig n sg s = Done s'"
  shows "alarms s' = alarms s"
  using assms inform_alarms
  by (fastforce simp: cause_sig_def Let_def outcome_simps split: if_split_asm dest: unready_alarms)

lemma sched_alarms: "lock_sched s = Done s' \<Longrightarrow> alarms s' = alarms s"
  by (auto simp: lock_sched_def sched_def Let_def outcome_simps split: option.split_asm)

lemma unshadow_alarms:
  assumes "unshadow p s = Done s'"
  shows "alarms s' = alarms s"
proof -
  have more: "alarms (upd_proc i (p_shadow_update f) t) = alarms t" "alarms (upd_proc i (p_nflips_update g) t) = alarms t"
    "alarms (t\<lparr>flipwait := n\<rparr>) = alarms t" for i f g t n
    by (auto simp: alarms_def fun_eq_iff)
  show ?thesis
    using assms by (auto simp: unshadow_def Let_def outcome_simps more split: if_split_asm option.split_asm
        dest!: unready_alarms ready_alarms)
qed

subsection \<open>The next alarm\<close>

text \<open>No process has an alarm earlier than \<open>next_alarm\<close>.\<close>

definition alarm_ok :: "kstate \<Rightarrow> bool" where
  "alarm_ok s \<longleftrightarrow> (\<forall>i<NR_SLOTS. p_alarm (procs s i) \<noteq> 0 \<longrightarrow> sint (next_alarm s) \<le> sint (p_alarm (procs s i)))"

definition due :: "kstate \<Rightarrow> nat \<Rightarrow> bool" where
  "due s i \<longleftrightarrow> p_alarm (procs s i) \<noteq> 0 \<and> sint (p_alarm (procs s i)) \<le> sint (realtime s)"

text \<open>The watch-dog routines do not touch the alarms.\<close>

definition tame :: "(addr \<Rightarrow> kstate \<Rightarrow> kstate run) \<Rightarrow> bool" where
  "tame dog \<longleftrightarrow> (\<forall>f s s'. dog f s = Done s' \<longrightarrow> alarms s' = alarms s)"

lemma alarms_ok:
  assumes "alarms s' = alarms s"
  shows "alarm_ok s' = alarm_ok s"
  unfolding alarm_ok_def by (simp only: alarms_fields [OF assms])

lemma earlier_le: "sint (earlier p n) \<le> sint n" "p_alarm p \<noteq> 0 \<Longrightarrow> sint (earlier p n) \<le> sint (p_alarm p)"
  by (auto simp: earlier_def)

lemma fold_earlier_le: "sint (fold (\<lambda>i. earlier (ps i)) xs n) \<le> sint n"
proof (induction xs arbitrary: n)
  case (Cons x xs)
  show ?case using order_trans [OF Cons.IH [of "earlier (ps x) n"] earlier_le(1)] by simp
qed simp

lemma fold_earlier_min:
  assumes "i \<in> set xs" and "p_alarm (ps i) \<noteq> 0"
  shows "sint (fold (\<lambda>i. earlier (ps i)) xs n) \<le> sint (p_alarm (ps i))"
  using assms(1)
proof (induction xs arbitrary: n)
  case (Cons x xs)
  show ?case
  proof (cases "x = i")
    case True
    have "sint (fold (\<lambda>i. earlier (ps i)) xs (earlier (ps i) n)) \<le> sint (earlier (ps i) n)"
      by (rule fold_earlier_le)
    also have "\<dots> \<le> sint (p_alarm (ps i))" by (rule earlier_le(2) [OF assms(2)])
    finally show ?thesis using True by simp
  next
    case False
    then have "i \<in> set xs" using Cons.prems by simp
    from Cons.IH [OF this] show ?thesis by simp
  qed
qed simp

lemma slots_all: "set (slots_from 0) = {0..<NR_SLOTS}" "distinct (slots_from 0)"
  by (simp_all add: slots_from_def)

lemma do_setalarm_ok:
  assumes "do_setalarm m s = Done s'"
  shows "alarm_ok s'"
proof -
  obtain t where "s' = t\<lparr>next_alarm := fold (\<lambda>i. earlier (procs t i)) (slots_from 0) MAX_P_LONG\<rparr>"
    using assms unfolding do_setalarm_def Let_def andthen_Done_iff by (elim exE conjE) (simp only: run.inject, rule that, erule sym)
  then show ?thesis using fold_earlier_min [of _ "slots_from 0" "procs t"] slots_all(1) unfolding alarm_ok_def by simp
qed

lemma alarm_turn_effect:
  assumes "alarm_turn dog rp s = Done s'" and "tame dog"
  shows "realtime s' = realtime s" "p_alarm (procs s' j) = (if j = rp \<and> due s rp then 0 else p_alarm (procs s j))"
    "next_alarm s' = (if p_alarm (procs s rp) \<noteq> 0 then earlier (procs s' rp) (next_alarm s) else next_alarm s)"
proof -
  have "realtime s' = realtime s \<and> (\<forall>j. p_alarm (procs s' j) = (if j = rp \<and> due s rp then 0 else p_alarm (procs s j))) \<and>
      next_alarm s' = (if p_alarm (procs s rp) \<noteq> 0 then earlier (procs s' rp) (next_alarm s) else next_alarm s)"
  proof (cases "due s rp")
    case True
    obtain s1 where s1: "cause_sig (p_nr (procs s rp)) SIG_ALRM s = Done s1 \<or> (\<exists>f. dog f s = Done s1)"
      "s' = (upd_proc rp (p_alarm_update (\<lambda>_. 0)) s1)
         \<lparr>next_alarm := earlier (procs (upd_proc rp (p_alarm_update (\<lambda>_. 0)) s1) rp) (next_alarm s1)\<rparr>"
      using assms(1) True by (auto simp: alarm_turn_def due_def Let_def outcome_simps split: if_split_asm)
    have "alarms s1 = alarms s" using s1(1) cause_sig_alarms assms(2) unfolding tame_def by blast
    from alarms_fields [OF this] show ?thesis using True s1(2) by (simp add: due_def upd_proc_def)
  next
    case False
    then show ?thesis using assms(1) by (auto simp: alarm_turn_def due_def split: if_split_asm)
  qed
  then show "realtime s' = realtime s" "p_alarm (procs s' j) = (if j = rp \<and> due s rp then 0 else p_alarm (procs s j))"
    "next_alarm s' = (if p_alarm (procs s rp) \<noteq> 0 then earlier (procs s' rp) (next_alarm s) else next_alarm s)"
    by auto
qed

lemma alarm_loop_effect:
  assumes "alarm_loop dog xs s = Done s'" and "tame dog" and "distinct xs"
  shows "realtime s' = realtime s \<and> sint (next_alarm s') \<le> sint (next_alarm s) \<and>
    (\<forall>j. p_alarm (procs s' j) = (if j \<in> set xs \<and> due s j then 0 else p_alarm (procs s j))) \<and>
    (\<forall>j\<in>set xs. p_alarm (procs s' j) \<noteq> 0 \<longrightarrow> sint (next_alarm s') \<le> sint (p_alarm (procs s' j)))"
  using assms(1,3)
proof (induction xs arbitrary: s)
  case (Cons x xs)
  obtain t where t: "alarm_turn dog x s = Done t" "alarm_loop dog xs t = Done s'"
    using Cons.prems(1) by (auto simp: outcome_simps)
  note e = alarm_turn_effect [OF t(1) assms(2)]
  have d: "due t j \<longleftrightarrow> j \<noteq> x \<and> due s j" for j using e(1,2) by (auto simp: due_def)
  note ih = Cons.IH [OF t(2)]
  have ih: "realtime s' = realtime t" "sint (next_alarm s') \<le> sint (next_alarm t)"
    "\<And>j. p_alarm (procs s' j) = (if j \<in> set xs \<and> due t j then 0 else p_alarm (procs t j))"
    "\<And>j. j \<in> set xs \<Longrightarrow> p_alarm (procs s' j) \<noteq> 0 \<Longrightarrow> sint (next_alarm s') \<le> sint (p_alarm (procs s' j))"
    using ih Cons.prems(2) by auto
  have nt: "sint (next_alarm t) \<le> sint (next_alarm s)" using e(3) earlier_le(1) by simp
  have same: "p_alarm (procs s' x) = p_alarm (procs t x)" using ih(3) [of x] Cons.prems(2) by simp
  have "sint (next_alarm s') \<le> sint (p_alarm (procs s' x))" if "p_alarm (procs s' x) \<noteq> 0"
  proof -
    have "p_alarm (procs t x) \<noteq> 0" using that same by simp
    then have "p_alarm (procs s x) \<noteq> 0" using e(2) [of x] by (auto split: if_split_asm)
    then have "sint (next_alarm t) \<le> sint (p_alarm (procs t x))"
      using e(3) earlier_le(2) [of "procs t x" "next_alarm s"] \<open>p_alarm (procs t x) \<noteq> 0\<close> by simp
    then show ?thesis using ih(2) same by simp
  qed
  moreover have "p_alarm (procs s' j) = (if j \<in> set (x # xs) \<and> due s j then 0 else p_alarm (procs s j))" for j
    using ih(3) [of j] e(2) [of j] d [of j] Cons.prems(2) by auto
  ultimately show ?case using ih(1,2,4) e(1) nt by auto
qed simp

lemma quantum_turn_alarms:
  assumes "quantum_turn s = Done s'"
  shows "alarms s' = alarms s"
proof -
  have a: "alarms (t\<lparr>sched_ticks := n\<rparr>) = alarms t" "alarms (t\<lparr>sched_ticks := n, prev_ptr := q\<rparr>) = alarms t" for t n q
    by (simp_all add: alarms_def)
  show ?thesis using assms
    by (auto simp: quantum_turn_def Let_def outcome_simps a split: if_split_asm dest!: sched_alarms)
qed

lemma do_clocktick_ok:
  assumes "do_clocktick dog s = Done s'" and "tame dog" and "alarm_ok s"
  shows "alarm_ok s'" "\<And>i. i < NR_SLOTS \<Longrightarrow> \<not> due s' i"
proof -
  obtain s1 s2 where s1: "(if sint (next_alarm s) \<le> sint (realtime s)
      then alarm_loop dog (slots_from 0) (s\<lparr>next_alarm := MAX_P_LONG\<rparr>) else Done s) = Done s1"
    and s2: "quantum_turn s1 = Done s2"
    and s': "(case rdy_head s2 SHADOW_Q of Some p \<Rightarrow> unshadow p s2 | None \<Rightarrow> Done s2) = Done s'"
    using assms(1) unfolding do_clocktick_def andthen_Done_iff by blast
  have "alarms s2 = alarms s1" by (rule quantum_turn_alarms [OF s2])
  moreover have "alarms s' = alarms s2" using s' unshadow_alarms by (auto split: option.split_asm)
  ultimately have al: "alarms s' = alarms s1" by simp
  have "alarm_ok s1 \<and> (\<forall>i<NR_SLOTS. \<not> due s1 i)"
  proof (cases "sint (next_alarm s) \<le> sint (realtime s)")
    case True
    from s1 True have "alarm_loop dog (slots_from 0) (s\<lparr>next_alarm := MAX_P_LONG\<rparr>) = Done s1" by simp
    note e = alarm_loop_effect [OF this assms(2) slots_all(2), unfolded slots_all(1)]
    have "\<not> due s1 i" if "i < NR_SLOTS" for i
      using e that unfolding due_def by simp
    moreover have "alarm_ok s1"
      unfolding alarm_ok_def using e [THEN conjunct2, THEN conjunct2, THEN conjunct2] by (simp only: atLeastLessThan_iff Ball_def) simp
    ultimately show ?thesis by simp
  next
    case False
    then show ?thesis using s1 assms(3) by (fastforce simp: alarm_ok_def due_def)
  qed
  then show "alarm_ok s'" "\<And>i. i < NR_SLOTS \<Longrightarrow> \<not> due s' i"
    unfolding alarms_ok [OF al] due_def alarms_fields [OF al] by simp_all
qed

lemma clock_task_alarms:
  assumes "clock_task dog s = Done (r, s')" and "tame dog" and "alarm_ok s"
  shows "alarm_ok s'" "msg_int (mc s) off_type s = HARD_INT \<Longrightarrow> i < NR_SLOTS \<Longrightarrow> \<not> due s' i"
proof -
  define c where "c = msg_int (mc s) off_type s"
  define t where "t = s\<lparr>realtime := realtime s + pending_ticks s, pending_ticks := 0\<rparr>"
  have t: "mc t = mc s" "alarm_ok t" using assms(3) by (simp_all add: t_def alarm_ok_def)
  obtain u where u: "(if c = SET_ALARM then do_setalarm (mc t) t
         else if c = GET_TIME then Done (do_get_time t)
         else if c = SET_TIME then Done (do_set_time (mc t) t)
         else if c = HARD_INT then do_clocktick dog t
         else Panics ''clock task got bad message'') = Done u"
    and s': "s' = set_int (mc u) off_type OK u"
    using assms(1) unfolding clock_task_def Let_def c_def t_def by (auto simp: andthen_Done_iff)
  have g: "alarms (do_get_time x) = alarms x" "alarms (do_set_time m x) = alarms x" for x m
    by (simp_all add: do_get_time_def do_set_time_def set_int_def set_long_def Let_def) (simp add: alarms_def)
  have al: "alarms s' = alarms u" by (simp add: s' set_int_def)
  have "alarm_ok u"
    using u t(2) do_setalarm_ok do_clocktick_ok(1) [OF _ assms(2)] alarms_ok [OF g(1)] alarms_ok [OF g(2)]
    by (auto split: if_split_asm)
  then show "alarm_ok s'" using alarms_ok [OF al] by simp
  assume c: "msg_int (mc s) off_type s = HARD_INT" and i: "i < NR_SLOTS"
  have "do_clocktick dog t = Done u" using u c by (simp add: c_def)
  from do_clocktick_ok(2) [OF this assms(2) t(2) i] show "\<not> due s' i"
    unfolding due_def alarms_fields [OF al] .
qed

subsection \<open>Properties\<close>


definition ticking :: kstate where
  "ticking = blank\<lparr>procs := (\<lambda>i. (procs blank i)\<lparr>p_nr := int i - 9, p_alarm := if i = 3 then 7 else 0\<rparr>), mc := 0x2000,
     kmem := put_int 0x2002 HARD_INT (kmem blank), next_alarm := 7, realtime := 6, pending_ticks := 1, sched_ticks := 5\<rparr>"


end
