(* ===== verification/Mm_State.thy ===== *)
theory Mm_State
  imports Mm_Alloc Kernel_State
begin

section \<open>Memory manager: the process table and its messages\<close>

text \<open>
  The data of mm/mproc.h, mm/glo.h and mm/param.h for the 68000 (an \<open>int\<close> has 16 bits, a
  \<open>vir_bytes\<close> is a signed long).  The memory manager is a server: what it does outside its
  own tables is sending messages to the kernel, the file system and the clock task, which the
  model records in order in \<open>sent\<close>.  The answers come from an environment \<open>env\<close>, whose
  components are functions of everything sent so far, so nothing is assumed about how the
  answers relate to each other.  \<open>PutStack\<close> is the copy of the initial stack into a new image,
  with the longs it holds, and \<open>AddLong\<close> stands for \<open>*(long *)adr += off\<close>, the one place where
  the memory manager writes into memory that is not its own.  A pointer to a slot of \<open>mproc\<close> is its index.
\<close>

unbundle bit_operations_syntax

subsection \<open>Flags\<close>

abbreviation (input) "IN_USE \<equiv> (1::u16)"
abbreviation (input) "WAITING \<equiv> (2::u16)"
abbreviation (input) "HANGING \<equiv> (4::u16)"
abbreviation (input) "PAUSED \<equiv> (8::u16)"
abbreviation (input) "ALARM_ON \<equiv> (16::u16)"
abbreviation (input) "SEPARATE \<equiv> (32::u16)"
abbreviation (input) "TRACED \<equiv> (64::u16)"
abbreviation (input) "STOPPED \<equiv> (128::u16)"

text \<open>\<open>f & x\<close>, \<open>x |= f\<close> and \<open>x &= ~f\<close> on a word of flags.\<close>

definition has :: "u16 \<Rightarrow> u16 \<Rightarrow> bool" where "has f x = (x AND f \<noteq> 0)"
definition turn_on :: "u16 \<Rightarrow> u16 \<Rightarrow> u16" where "turn_on f x = x OR f"
definition turn_off :: "u16 \<Rightarrow> u16 \<Rightarrow> u16" where "turn_off f x = x AND NOT f"

subsection \<open>Constants\<close>

abbreviation (input) "INIT_PROC_NR \<equiv> (2::int)"
abbreviation (input) "INIT_PID \<equiv> (1::int)"
abbreviation (input) "LAST_FEW \<equiv> (2::int)"
abbreviation (input) "SUPER_USER \<equiv> (0::u16)"
abbreviation (input) "NSIG \<equiv> (16::int)"
abbreviation (input) "SIGINT \<equiv> (2::int)"
abbreviation (input) "SIGQUIT \<equiv> (3::int)"
abbreviation (input) "SIGKILL \<equiv> (9::int)"
abbreviation (input) "SIGSEGV \<equiv> (11::int)"
abbreviation (input) "EPERM \<equiv> (-1::int)"
abbreviation (input) "ENOENT \<equiv> (-2::int)"
abbreviation (input) "ESRCH \<equiv> (-3::int)"
abbreviation (input) "EINTR \<equiv> (-4::int)"
abbreviation (input) "ENOEXEC \<equiv> (-8::int)"
abbreviation (input) "EIO \<equiv> (-5::int)"
abbreviation (input) "ECHILD \<equiv> (-10::int)"
abbreviation (input) "EAGAIN \<equiv> (-11::int)"
abbreviation (input) "ENOMEM \<equiv> (-12::int)"
abbreviation (input) "EACCES \<equiv> (-13::int)"
abbreviation (input) "EINVAL \<equiv> (-22::int)"

subsection \<open>State\<close>

record mproc =
  mp_seg :: "nat \<Rightarrow> mem_map"
  mp_exitstatus :: "8 word"
  mp_sigstatus :: "8 word"
  mp_pid :: int
  mp_parent :: int
  mp_procgrp :: int
  mp_realuid :: u16
  mp_effuid :: u16
  mp_realgid :: "8 word"
  mp_effgid :: "8 word"
  mp_ignore :: u16
  mp_catch :: u16
  mp_func :: addr
  mp_flags :: u16

text \<open>A message by the offsets of its fields: \<open>m1_i1\<close>, \<open>m2_i1\<close> and \<open>m6_i1\<close> are the same
  word \<open>w_i1\<close>; \<open>m1_p1\<close> and \<open>m2_l1\<close> are \<open>w_l1\<close>; \<open>m1_p2\<close>, \<open>m2_l2\<close> and \<open>m6_f1\<close> are
  \<open>w_l2\<close>; \<open>m2_p1\<close> is \<open>w_l3\<close>.\<close>

record mess =
  m_source :: int
  m_type :: int
  w_i1 :: int
  w_i2 :: int
  w_i3 :: int
  w_l1 :: addr
  w_l2 :: addr
  w_l3 :: addr

datatype mm_msg =
    SysFork int int int u16
  | SysXit int int
  | SysGetsp int
  | SysSig int int addr
  | SysExec int addr bool
  | SysNewmap int "nat \<Rightarrow> mem_map"
  | SysFresh int "nat \<Rightarrow> mem_map" u16
  | SysTrace int int addr addr
  | SysCopy int int addr int int addr addr
  | SysAbort
  | SetAlarm int addr
  | TellFs int int int int
  | Reply int mess
  | FsOpen string
  | FsCreat string
  | FsFstat int
  | FsClose int
  | FsRead int addr addr
  | FsWrite int addr
  | FsLseek int addr
  | PutStack int addr "addr list" addr
  | AddLong addr addr

record mm =
  tab :: "int \<Rightarrow> mproc"
  mp :: int
  who :: int
  mm_call :: int
  mm_in :: mess
  mm_out :: mess
  dont_reply :: bool
  procs_in_use :: int
  result2 :: int
  res_ptr :: addr
  next_pid :: int
  holes :: hole_tab
  sent :: "mm_msg list"

text \<open>What \<open>fstat\<close> reports of a file, as far as the memory manager looks at it.\<close>

record file_stat =
  st_mode :: u16
  st_uid :: u16
  st_gid :: "8 word"

record env =
  send_status :: "mm_msg list \<Rightarrow> int"
  kern_sp :: "mm_msg list \<Rightarrow> addr"
  kern_image :: "mm_msg list \<Rightarrow> u16 \<times> u16"
  kern_trace :: "mm_msg list \<Rightarrow> int \<times> addr"
  kern_copy :: "mm_msg list \<Rightarrow> int"
  clock_reply :: "mm_msg list \<Rightarrow> int \<times> addr"
  fs_result :: "mm_msg list \<Rightarrow> int"
  fs_stat :: "mm_msg list \<Rightarrow> file_stat"
  fs_data :: "mm_msg list \<Rightarrow> 8 word list"
  user_string :: "mm_msg list \<Rightarrow> string"
  user_longs :: "mm_msg list \<Rightarrow> addr list"

definition say :: "mm_msg \<Rightarrow> mm \<Rightarrow> mm" where
  "say m s = s\<lparr>sent := sent s @ [m]\<rparr>"

definition upd_slot :: "int \<Rightarrow> (mproc \<Rightarrow> mproc) \<Rightarrow> mm \<Rightarrow> mm" where
  "upd_slot i f s = s\<lparr>tab := (tab s)(i := f (tab s i))\<rparr>"

definition set_flag :: "u16 \<Rightarrow> int \<Rightarrow> mm \<Rightarrow> mm" where
  "set_flag f i = upd_slot i (mp_flags_update (turn_on f))"

definition clear_flag :: "u16 \<Rightarrow> int \<Rightarrow> mm \<Rightarrow> mm" where
  "clear_flag f i = upd_slot i (mp_flags_update (turn_off f))"

text \<open>The slots a loop from one entry to the end of \<open>mproc\<close> visits.\<close>

definition slots :: "int \<Rightarrow> int list" where
  "slots i = [i..31]"

text \<open>Loops over slots that may stop early or fail.\<close>

fun each :: "('a \<Rightarrow> 's \<Rightarrow> 's run) \<Rightarrow> 'a list \<Rightarrow> 's \<Rightarrow> 's run" where
  "each f [] s = Done s"
| "each f (x # xs) s = andthen (f x s) (each f xs)"

subsection \<open>Rewrite rules\<close>

lemma set_slots [simp]: "set (slots i) = {i..31}" "distinct (slots i)"
  by (simp_all add: slots_def)

lemma say_simps [simp]:
  "tab (say m s) = tab s" "mp (say m s) = mp s" "who (say m s) = who s" "mm_call (say m s) = mm_call s"
  "mm_in (say m s) = mm_in s" "mm_out (say m s) = mm_out s" "dont_reply (say m s) = dont_reply s"
  "procs_in_use (say m s) = procs_in_use s" "result2 (say m s) = result2 s" "res_ptr (say m s) = res_ptr s"
  "next_pid (say m s) = next_pid s" "holes (say m s) = holes s" "sent (say m s) = sent s @ [m]"
  by (simp_all add: say_def)

lemma upd_slot_simps [simp]:
  "tab (upd_slot i f s) = (tab s)(i := f (tab s i))" "mp (upd_slot i f s) = mp s" "who (upd_slot i f s) = who s"
  "mm_call (upd_slot i f s) = mm_call s" "mm_in (upd_slot i f s) = mm_in s" "mm_out (upd_slot i f s) = mm_out s"
  "dont_reply (upd_slot i f s) = dont_reply s" "procs_in_use (upd_slot i f s) = procs_in_use s"
  "result2 (upd_slot i f s) = result2 s" "res_ptr (upd_slot i f s) = res_ptr s"
  "next_pid (upd_slot i f s) = next_pid s" "holes (upd_slot i f s) = holes s" "sent (upd_slot i f s) = sent s"
  by (simp_all add: upd_slot_def)

lemma flag_upd_simps [simp]:
  "mp (set_flag f i s) = mp s" "who (set_flag f i s) = who s" "mm_call (set_flag f i s) = mm_call s"
  "mm_in (set_flag f i s) = mm_in s" "mm_out (set_flag f i s) = mm_out s" "dont_reply (set_flag f i s) = dont_reply s"
  "procs_in_use (set_flag f i s) = procs_in_use s" "result2 (set_flag f i s) = result2 s"
  "res_ptr (set_flag f i s) = res_ptr s" "next_pid (set_flag f i s) = next_pid s" "holes (set_flag f i s) = holes s"
  "sent (set_flag f i s) = sent s"
  "mp (clear_flag f i s) = mp s" "who (clear_flag f i s) = who s" "mm_call (clear_flag f i s) = mm_call s"
  "mm_in (clear_flag f i s) = mm_in s" "mm_out (clear_flag f i s) = mm_out s"
  "dont_reply (clear_flag f i s) = dont_reply s" "procs_in_use (clear_flag f i s) = procs_in_use s"
  "result2 (clear_flag f i s) = result2 s" "res_ptr (clear_flag f i s) = res_ptr s"
  "next_pid (clear_flag f i s) = next_pid s" "holes (clear_flag f i s) = holes s" "sent (clear_flag f i s) = sent s"
  by (simp_all add: set_flag_def clear_flag_def)

lemma flag_upd_tab [simp]:
  "tab (set_flag f i s) = (tab s)(i := (tab s i)\<lparr>mp_flags := turn_on f (mp_flags (tab s i))\<rparr>)"
  "tab (clear_flag f i s) = (tab s)(i := (tab s i)\<lparr>mp_flags := turn_off f (mp_flags (tab s i))\<rparr>)"
  by (cases "tab s i"; simp add: set_flag_def clear_flag_def)+

text \<open>A flag is one bit; setting and clearing one does not touch the others.\<close>

definition one_bit :: "u16 \<Rightarrow> bool" where
  "one_bit f \<longleftrightarrow> (\<exists>n<16. f = 2 ^ n)"

lemma one_bit_flags [simp]:
  "one_bit 1" "one_bit 2" "one_bit 4" "one_bit 8" "one_bit 16" "one_bit 32" "one_bit 64" "one_bit 128"
proof -
  have p: "n < 16 \<Longrightarrow> one_bit (2 ^ n)" for n by (auto simp: one_bit_def)
  show "one_bit 1" "one_bit 2" "one_bit 4" "one_bit 8" "one_bit 16" "one_bit 32" "one_bit 64" "one_bit 128"
    using p [of 0] p [of 1] p [of 2] p [of 3] p [of 4] p [of 5] p [of 6] p [of 7] by simp_all
qed

lemma has_bit: "has (2 ^ n) x \<longleftrightarrow> bit x n"
  by (simp add: has_def and_exp_eq_0_iff_not_bit)

lemma exp_inject: "n < 16 \<Longrightarrow> m < 16 \<Longrightarrow> (2 ^ n :: u16) = 2 ^ m \<longleftrightarrow> n = m"
  by (auto simp: bit_eq_iff bit_exp_iff)

lemma has_on [simp]: "one_bit f \<Longrightarrow> one_bit g \<Longrightarrow> has f (turn_on g x) \<longleftrightarrow> f = g \<or> has f x"
  by (auto simp: one_bit_def has_bit turn_on_def bit_or_iff bit_exp_iff exp_inject)

lemma has_off [simp]: "one_bit f \<Longrightarrow> one_bit g \<Longrightarrow> has f (turn_off g x) \<longleftrightarrow> f \<noteq> g \<and> has f x"
  by (auto simp: one_bit_def has_bit turn_off_def bit_and_iff bit_not_iff bit_exp_iff exp_inject)

lemma each_append [simp]: "each f (xs @ ys) s = andthen (each f xs s) (each f ys)"
proof (induction xs arbitrary: s)
  case (Cons x xs)
  then show ?case by (cases "f x s") simp_all
qed simp

subsection \<open>A concrete state and environment\<close>

text \<open>All tables zero, as when the memory manager starts; an environment in which every call
  succeeds and every process has the stack pointer \<open>sp\<close>.\<close>

definition idle_slot :: mproc where
  "idle_slot = \<lparr>mp_seg = (\<lambda>_. \<lparr>mem_vir = 0, mem_phys = 0, mem_len = 0\<rparr>), mp_exitstatus = 0, mp_sigstatus = 0,
     mp_pid = 0, mp_parent = 0, mp_procgrp = 0, mp_realuid = 0, mp_effuid = 0, mp_realgid = 0, mp_effgid = 0,
     mp_ignore = 0, mp_catch = 0, mp_func = 0, mp_flags = 0\<rparr>"

definition idle_mess :: mess where
  "idle_mess = \<lparr>m_source = 0, m_type = 0, w_i1 = 0, w_i2 = 0, w_i3 = 0, w_l1 = 0, w_l2 = 0, w_l3 = 0\<rparr>"

definition idle_mm :: mm where
  "idle_mm = \<lparr>tab = (\<lambda>_. idle_slot), mp = 0, who = 0, mm_call = 0, mm_in = idle_mess, mm_out = idle_mess,
     dont_reply = False, procs_in_use = 0, result2 = 0, res_ptr = 0, next_pid = 2, holes = mem_clear, sent = []\<rparr>"

definition calm :: "addr \<Rightarrow> env" where
  "calm sp = \<lparr>send_status = (\<lambda>_. 0), kern_sp = (\<lambda>_. sp), kern_image = (\<lambda>_. (0x200, 0x20)),
     kern_trace = (\<lambda>_. (EIO, 0)), kern_copy = (\<lambda>_. 0), clock_reply = (\<lambda>_. (0, 0)),
     fs_result = (\<lambda>_. EACCES), fs_stat = (\<lambda>_. \<lparr>st_mode = 0, st_uid = 0, st_gid = 0\<rparr>), fs_data = (\<lambda>_. []),
     user_string = (\<lambda>_. []), user_longs = (\<lambda>_. [])\<rparr>"

end
