(* ===== verification/Mm_Break.thy ===== *)
theory Mm_Break
  imports Mm_State
begin

section \<open>Memory manager: the sizes of segments\<close>

text \<open>
  mm/break.c without \<open>stack_fault\<close> (which signals the process and is in Mm_Signal): the data
  segment grows up and the stack grows down into the gap between them.
\<close>

unbundle bit_operations_syntax

abbreviation (input) "SAFETY_CLICKS \<equiv> (6::u16)"

text \<open>The click a byte address is in, truncated to 16 bits as in the code.\<close>

definition click_of :: "addr \<Rightarrow> u16" where
  "click_of v = ucast (drop_bit CLICK_SHIFT v)"

definition size_ok :: "u16 \<Rightarrow> u16 \<Rightarrow> u16 \<Rightarrow> u16 \<Rightarrow> u16 \<Rightarrow> u16 \<Rightarrow> int" where
  "size_ok file_type tc dc sc dvir s_vir = (if dvir + dc > s_vir then ENOMEM else OK)"

definition adjust :: "int \<Rightarrow> u16 \<Rightarrow> addr \<Rightarrow> mm \<Rightarrow> int \<times> mm" where
  "adjust rmp data_clicks sp s =
     (let dp = mp_seg (tab s rmp) seg_D; stk = mp_seg (tab s rmp) seg_S in
      if rmp = INIT_PROC_NR then (OK, s)
      else
        let base_of_stack = uint (mem_vir stk) + uint (mem_len stk);
            sp_click = click_of sp
        in if uint sp_click \<ge> base_of_stack then (ENOMEM, s)
        else
          let delta = uint (mem_vir stk) - uint sp_click;
              lower = (if delta > 0 then sp_click else mem_vir stk);
              gap_base = mem_vir dp + data_clicks + SAFETY_CLICKS
          in if lower < gap_base then (ENOMEM, s)
          else
            let dp' = dp\<lparr>mem_len := data_clicks\<rparr>;
                stk' = (if delta > 0 then
                          \<lparr>mem_vir = mem_vir stk - word_of_int delta, mem_phys = mem_phys stk - word_of_int delta,
                           mem_len = mem_len stk + word_of_int delta\<rparr>
                        else stk);
                seg' = (mp_seg (tab s rmp))(seg_D := dp', seg_S := stk');
                changed = (data_clicks \<noteq> mem_len dp \<or> delta > 0)
            in if size_ok (mp_flags (tab s rmp) AND SEPARATE) (mem_len (seg' seg_T)) (mem_len dp') (mem_len stk')
                    (mem_vir dp') (mem_vir stk') = OK
               then let s = upd_slot rmp (mp_seg_update (\<lambda>_. seg')) s
                    in (OK, if changed then say (SysNewmap rmp seg') s else s)
               else (ENOMEM, s))"

definition do_brk :: "env \<Rightarrow> mm \<Rightarrow> int \<times> mm" where
  "do_brk e s =
     (let rmp = mp s;
          v = w_l1 (mm_in s);
          new_clicks = click_of (v + 255)
      in if new_clicks < mem_vir (mp_seg (tab s rmp) seg_D) then (ENOMEM, s\<lparr>res_ptr := -1\<rparr>)
         else
           let new_clicks = new_clicks - mem_vir (mp_seg (tab s rmp) seg_D);
               s = say (SysGetsp (who s)) s;
               new_sp = kern_sp e (sent s)
           in case adjust rmp new_clicks new_sp s of
                (r, s) \<Rightarrow> (r, s\<lparr>res_ptr := (if r = OK then v else -1)\<rparr>))"

subsection \<open>What a successful adjustment guarantees\<close>

text \<open>Data and stack of a process do not meet, and the stack ends where it did.\<close>

definition segs_apart :: "(nat \<Rightarrow> mem_map) \<Rightarrow> bool" where
  "segs_apart sg \<longleftrightarrow> uint (mem_vir (sg seg_D)) + uint (mem_len (sg seg_D)) \<le> uint (mem_vir (sg seg_S))"

definition stack_end :: "(nat \<Rightarrow> mem_map) \<Rightarrow> int" where
  "stack_end sg = uint (mem_vir (sg seg_S)) + uint (mem_len (sg seg_S))"

lemma word_delta:
  fixes a b :: u16
  assumes "uint b \<le> uint a"
  shows "a - word_of_int (uint a - uint b) = b"
  by simp

lemma adjust_fails:
  assumes "adjust rmp dc sp s = (r, s')" and "r \<noteq> OK"
  shows "r = ENOMEM \<and> s' = s"
  using assms by (auto simp: adjust_def Let_def split: if_split_asm)

text \<open>The new segments when the request is granted.\<close>

definition grown :: "u16 \<Rightarrow> addr \<Rightarrow> (nat \<Rightarrow> mem_map) \<Rightarrow> nat \<Rightarrow> mem_map" where
  "grown dc sp sg =
     (let lower = min (click_of sp) (mem_vir (sg seg_S)); d = mem_vir (sg seg_S) - lower in
      sg(seg_D := (sg seg_D)\<lparr>mem_len := dc\<rparr>,
         seg_S := \<lparr>mem_vir = lower, mem_phys = mem_phys (sg seg_S) - d, mem_len = mem_len (sg seg_S) + d\<rparr>))"

lemma adjust_grants:
  assumes "adjust rmp dc sp s = (OK, s')" and "rmp \<noteq> INIT_PROC_NR"
  shows "tab s' = (tab s)(rmp := (tab s rmp)\<lparr>mp_seg := grown dc sp (mp_seg (tab s rmp))\<rparr>)"
    "mem_vir (mp_seg (tab s rmp) seg_D) + dc + SAFETY_CLICKS \<le> min (click_of sp) (mem_vir (mp_seg (tab s rmp) seg_S))"
    "mem_vir (mp_seg (tab s rmp) seg_D) + dc \<le> min (click_of sp) (mem_vir (mp_seg (tab s rmp) seg_S))"
    "uint (click_of sp) < stack_end (mp_seg (tab s rmp))"
proof -
  let ?sg = "mp_seg (tab s rmp)"
  define stk where "stk = ?sg seg_S"
  define c where "c = click_of sp"
  have *: "\<not> uint c \<ge> uint (mem_vir stk) + uint (mem_len stk)"
    "\<not> (if uint (mem_vir stk) - uint c > 0 then c else mem_vir stk) < mem_vir (?sg seg_D) + dc + SAFETY_CLICKS"
    using assms unfolding adjust_def Let_def c_def [symmetric] stk_def [symmetric] by (auto split: if_split_asm)
  have lower: "(if uint (mem_vir stk) - uint c > 0 then c else mem_vir stk) = min c (mem_vir stk)"
    using word_uint_eqI [of c "mem_vir stk"] by (auto simp: min_def word_le_def not_less)
  define seg' where "seg' = ?sg(seg_D := (?sg seg_D)\<lparr>mem_len := dc\<rparr>,
      seg_S := (if uint (mem_vir stk) - uint c > 0 then
                          \<lparr>mem_vir = mem_vir stk - word_of_int (uint (mem_vir stk) - uint c),
                           mem_phys = mem_phys stk - word_of_int (uint (mem_vir stk) - uint c),
                           mem_len = mem_len stk + word_of_int (uint (mem_vir stk) - uint c)\<rparr>
                        else stk))"
  have seg': "seg' = grown dc sp ?sg"
    unfolding seg'_def grown_def Let_def c_def [symmetric] stk_def [symmetric]
    by (cases stk) (auto simp: min_def word_le_def fun_eq_iff intro: word_uint_eqI)
  have **: "tab s' = (tab s)(rmp := (tab s rmp)\<lparr>mp_seg := seg'\<rparr>) \<and>
      \<not> mem_vir (seg' seg_D) + mem_len (seg' seg_D) > mem_vir (seg' seg_S)"
    using assms unfolding adjust_def Let_def c_def [symmetric] stk_def [symmetric] seg'_def
    by (cases "tab s rmp") (auto simp: size_ok_def split: if_split_asm)
  show "tab s' = (tab s)(rmp := (tab s rmp)\<lparr>mp_seg := grown dc sp ?sg\<rparr>)" using ** seg' by simp
  show "mem_vir (?sg seg_D) + dc + SAFETY_CLICKS \<le> min (click_of sp) (mem_vir (?sg seg_S))"
    using *(2) unfolding lower not_less by (simp only: c_def stk_def)
  show "mem_vir (?sg seg_D) + dc \<le> min (click_of sp) (mem_vir (?sg seg_S))"
    using ** unfolding seg' by (simp add: grown_def Let_def not_less)
  show "uint (click_of sp) < stack_end ?sg" using *(1) by (simp add: c_def stk_def stack_end_def)
qed

text \<open>A word difference is the difference of the values when it does not go below zero.\<close>

lemma uint_minus: "b \<le> a \<Longrightarrow> uint (a - b) = uint a - uint b" for a b :: u16
  by (simp add: word_le_def uint_sub_lem)

lemma grown_apart:
  assumes "mem_vir (sg seg_D) + dc \<le> min (click_of sp) (mem_vir (sg seg_S))"
    and "uint (mem_vir (sg seg_D)) + uint dc < 65536"
  shows "segs_apart (grown dc sp sg)"
proof -
  have "uint (mem_vir (sg seg_D) + dc) = uint (mem_vir (sg seg_D)) + uint dc"
    using assms(2) by (simp add: uint_word_ariths)
  moreover have "uint (mem_vir (sg seg_D) + dc) \<le> uint (min (click_of sp) (mem_vir (sg seg_S)))"
    using assms(1) by (simp only: word_le_def)
  ultimately show ?thesis by (simp add: segs_apart_def grown_def Let_def)
qed

lemma grown_stack_end:
  assumes "stack_end sg \<le> 65535" shows "stack_end (grown dc sp sg) = stack_end sg"
proof -
  define lower where "lower = min (click_of sp) (mem_vir (sg seg_S))"
  have le: "lower \<le> mem_vir (sg seg_S)" by (simp add: lower_def)
  let ?d = "mem_vir (sg seg_S) - lower"
  have "uint ?d = uint (mem_vir (sg seg_S)) - uint lower" by (rule uint_minus [OF le])
  moreover have "uint (mem_len (sg seg_S)) + (uint (mem_vir (sg seg_S)) - uint lower) < 65536"
    using assms uint_ge_0 [of lower] unfolding stack_end_def by linarith
  ultimately have "uint (mem_len (sg seg_S) + ?d) = uint (mem_len (sg seg_S)) + (uint (mem_vir (sg seg_S)) - uint lower)"
    using assms uint_add_lem [of "mem_len (sg seg_S)" ?d] by (simp add: stack_end_def)
  then show ?thesis
    unfolding grown_def Let_def lower_def [symmetric] by (simp add: stack_end_def)
qed

lemma do_brk_eq:
  "do_brk e s = (if click_of (w_l1 (mm_in s) + 255) < mem_vir (mp_seg (tab s (mp s)) seg_D) then (ENOMEM, s\<lparr>res_ptr := -1\<rparr>)
     else case adjust (mp s) (click_of (w_l1 (mm_in s) + 255) - mem_vir (mp_seg (tab s (mp s)) seg_D))
            (kern_sp e (sent s @ [SysGetsp (who s)])) (say (SysGetsp (who s)) s) of
             (r, s2) \<Rightarrow> (r, s2\<lparr>res_ptr := (if r = OK then w_l1 (mm_in s) else -1)\<rparr>))"
  by (simp add: do_brk_def Let_def)


definition brk_demo :: mm where
  "brk_demo = (let seg = (\<lambda>i. if i = seg_D then \<lparr>mem_vir = 100, mem_phys = 100, mem_len = 10\<rparr>
                        else if i = seg_S then \<lparr>mem_vir = 200, mem_phys = 200, mem_len = 4\<rparr>
                        else \<lparr>mem_vir = 80, mem_phys = 80, mem_len = 20\<rparr>)
     in idle_mm\<lparr>tab := (tab idle_mm)(5 := (tab idle_mm 5)\<lparr>mp_seg := seg, mp_flags := IN_USE\<rparr>), mp := 5, who := 5,
                mm_in := (mm_in idle_mm)\<lparr>w_l1 := 0x7000\<rparr>\<rparr>)"


text \<open>
  Break requests are truncated to 16-bit click numbers: a request for an address 16
  megabytes above one that fits is granted with the same segments, and the caller is told
  that its data segment ends at the high address.
\<close>

theorem do_brk_wraps:
  assumes "do_brk e s = (OK, s')" and "w_l1 (mm_in s) = v"
  shows "\<exists>s''. do_brk e (s\<lparr>mm_in := (mm_in s)\<lparr>w_l1 := v + 0x1000000\<rparr>\<rparr>) = (OK, s'') \<and>
           tab s'' = tab s' \<and> res_ptr s'' = v + 0x1000000"
proof -
  let ?t = "s\<lparr>mm_in := (mm_in s)\<lparr>w_l1 := v + 0x1000000\<rparr>\<rparr>"
  have c: "click_of (v + 0x1000000 + 255) = click_of (v + 255)"
  proof -
    have "click_of (x + 0x1000000) = click_of x" for x
    proof (rule word_uint_eqI)
      have u: "uint (click_of y) = uint y div 256 mod 65536" for y
        by (simp add: click_of_def unsigned_ucast_eq take_bit_eq_mod drop_bit_eq_div uint_div)
      have "uint (x + 0x1000000) div 256 mod 65536 = (uint x + 0x1000000) mod (256 * 16777216) div 256 mod 65536"
        by (simp add: uint_word_ariths)
      also have "\<dots> = (uint x + 0x1000000) div 256 mod 16777216 mod 65536"
        by (simp only: zmod_zmult2_eq [of 16777216 _ 256]) simp
      also have "\<dots> = (uint x + 0x1000000) div 256 mod 65536" by (rule mod_mod_cancel) simp
      also have "\<dots> = (65536 + uint x div 256) mod 65536"
        using div_mult_self1 [of 256 "uint x" 65536] by simp
      also have "\<dots> = uint x div 256 mod 65536" by simp
      finally show "uint (click_of (x + 0x1000000)) = uint (click_of x)" by (simp add: u)
    qed
    from this [of "v + 255"] show ?thesis by (simp add: ac_simps)
  qed
  define c where "c = click_of (v + 255)"
  have wt: "w_l1 (mm_in ?t) = v + 0x1000000" by simp
  have t: "click_of (w_l1 (mm_in ?t) + 255) = c" "click_of (w_l1 (mm_in s) + 255) = c"
    unfolding wt assms(2) c_def by (rule c, rule refl)
  have same: "adjust i dc sp (say m ?t) = (case adjust i dc sp (say m s) of (r, s2) \<Rightarrow> (r, s2\<lparr>mm_in := mm_in ?t\<rparr>))" for i dc sp m
    by (simp add: adjust_def Let_def say_def upd_slot_def)
  show ?thesis
    using assms(1) unfolding do_brk_eq [of e ?t] do_brk_eq [of e s] t same
    by (auto simp del: One_nat_def split: if_split_asm prod.splits)
qed

theorem do_brk_wraps_witness:
  "\<exists>s''. do_brk (calm 0xC700) (brk_demo\<lparr>mm_in := (mm_in brk_demo)\<lparr>w_l1 := 0x7000 + 0x1000000\<rparr>\<rparr>) = (OK, s'') \<and>
     res_ptr s'' = 0x1007000"
proof -
  obtain r s' where e: "do_brk (calm 0xC700) brk_demo = (r, s')" by (cases "do_brk (calm 0xC700) brk_demo")
  have r: "r = OK"
    using e by (auto simp: do_brk_def brk_demo_def adjust_def calm_def size_ok_def Let_def click_of_def)
  have "w_l1 (mm_in brk_demo) = 0x7000" by (simp add: brk_demo_def Let_def)
  from do_brk_wraps [OF e [unfolded r] this] show ?thesis by auto
qed

end
