(* ===== verification/Mm_Exit.thy ===== *)
theory Mm_Exit
  imports Mm_State
begin

section \<open>Memory manager: fork, exit and wait\<close>

text \<open>
  mm/forkexit.c, with \<open>reply\<close> of mm/main.c and \<open>set_alarm\<close> of mm/signal.c, which it calls.  A
  process leaves the table when it has exited and its parent has waited, in either order; the
  lemmas below describe the effect of the recursive \<open>cleanup\<close> without recursion and prove
  the invariant of the table of processes.
\<close>

unbundle bit_operations_syntax

subsection \<open>Replies and alarms\<close>

definition reply :: "env \<Rightarrow> int \<Rightarrow> int \<Rightarrow> int \<Rightarrow> addr \<Rightarrow> mm \<Rightarrow> mm run" where
  "reply e proc_nr result res2 respt s =
     (let f = mp_flags (tab s proc_nr) in
      if \<not> has IN_USE f \<or> has HANGING f then Done s
      else
        let s = s\<lparr>mm_out := (mm_out s)\<lparr>m_type := result, w_i1 := res2, w_l3 := respt\<rparr>\<rparr>;
            s = say (Reply proc_nr (mm_out s)) s
        in if send_status e (sent s) \<noteq> OK then Panics ''MM can't reply'' else Done s)"

definition set_alarm :: "env \<Rightarrow> int \<Rightarrow> u16 \<Rightarrow> mm \<Rightarrow> (int \<times> mm) run" where
  "set_alarm e proc_nr sec s =
     (let ticks = ucast (of_int HZ * sec) :: addr;
          s = (if sec \<noteq> 0 then set_flag ALARM_ON proc_nr s else clear_flag ALARM_ON proc_nr s);
          s = say (SetAlarm proc_nr ticks) s
      in case clock_reply e (sent s) of
           (status, left) \<Rightarrow> if status \<noteq> OK then Panics ''alarm er'' else Done (sint (ucast left :: u16), s))"

subsection \<open>Cleaning up\<close>

abbreviation (input) "EXIT_CALL \<equiv> (1::int)"
abbreviation (input) "FORK_CALL \<equiv> (2::int)"

text \<open>The status word of wait: the exit status in the high byte, the signal in the low one.\<close>

definition wait_status :: "mproc \<Rightarrow> int" where
  "wait_status p = sint (ucast (mp_sigstatus p) OR push_bit 8 (ucast (mp_exitstatus p)) :: u16)"

text \<open>One turn of the loop that hands the children of \<open>child\<close> to init; \<open>clean\<close> is the
  recursive call.\<close>

definition adopt :: "(int \<Rightarrow> mm \<Rightarrow> mm run) \<Rightarrow> int \<Rightarrow> int \<Rightarrow> bool \<times> mm \<Rightarrow> (bool \<times> mm) run" where
  "adopt clean child rp = (\<lambda>(init_waiting, s).
     if mp_parent (tab s rp) = child then
       let s = upd_slot rp (mp_parent_update (\<lambda>_. INIT_PROC_NR)) s in
       if init_waiting \<and> has HANGING (mp_flags (tab s rp))
       then andthen (clean rp s) (\<lambda>s. Done (False, s))
       else Done (init_waiting, s)
     else Done (init_waiting, s))"

primrec cleanup :: "env \<Rightarrow> nat \<Rightarrow> int \<Rightarrow> mm \<Rightarrow> mm run" where
  "cleanup e 0 = (\<lambda>child s. Stuck)"
| "cleanup e (Suc depth) = (\<lambda>child s.
     let parent = mp_parent (tab s child) in
     andthen (reply e parent (mp_pid (tab s child)) (wait_status (tab s child)) 0 s) (\<lambda>s.
     let s = clear_flag TRACED child s;
         s = clear_flag HANGING child s;
         s = clear_flag PAUSED child s;
         s = clear_flag WAITING parent s;
         s = clear_flag IN_USE child s;
         s = s\<lparr>procs_in_use := procs_in_use s - 1\<rparr>;
         init_waiting = has WAITING (mp_flags (tab s INIT_PROC_NR))
     in andthen (each (adopt (cleanup e depth) child) (slots 0) (init_waiting, s)) (\<lambda>(_, s). Done s)))"

text \<open>The depth of recursion allowed; \<open>cleanup_eq\<close> shows that two levels are enough.\<close>

abbreviation (input) "DEPTH \<equiv> (2::nat)"

definition mm_exit :: "env \<Rightarrow> int \<Rightarrow> int \<Rightarrow> mm \<Rightarrow> mm run" where
  "mm_exit e rmp exit_status s =
     (let s = upd_slot rmp (mp_exitstatus_update (\<lambda>_. word_of_int exit_status)) s in
      andthen (if has WAITING (mp_flags (tab s (mp_parent (tab s rmp)))) then cleanup e DEPTH rmp s
               else Done (set_flag HANGING rmp s)) (\<lambda>s.
      andthen (if has ALARM_ON (mp_flags (tab s rmp)) then andthen (set_alarm e rmp 0 s) (\<lambda>(_, s). Done s)
               else Done s) (\<lambda>s.
      let s = say (SysXit (mp_parent (tab s rmp)) rmp) s;
          (base, len) = kern_image e (sent s)
      in andthen (free_mem (holes s) base len) (\<lambda>h.
      Done (say (TellFs EXIT_CALL rmp 0 0) (s\<lparr>holes := h\<rparr>))))))"

definition do_mm_exit :: "env \<Rightarrow> mm \<Rightarrow> (int \<times> mm) run" where
  "do_mm_exit e s =
     andthen (mm_exit e (mp s) (w_i1 (mm_in s)) s) (\<lambda>s. Done (OK, s\<lparr>dont_reply := True\<rparr>))"

subsection \<open>Fork\<close>

definition succ_pid :: "int \<Rightarrow> int" where
  "succ_pid n = (if n < 30000 then n + 1 else INIT_PID + 1)"

definition pid_taken :: "int \<Rightarrow> mm \<Rightarrow> bool" where
  "pid_taken n s = list_ex (\<lambda>i. mp_pid (tab s i) = n \<or> mp_procgrp (tab s i) = n) (slots 0)"

fun new_pid :: "nat \<Rightarrow> int \<Rightarrow> mm \<Rightarrow> mm run" where
  "new_pid 0 rmc s = Stuck"
| "new_pid (Suc n) rmc s =
     (let s = s\<lparr>next_pid := succ_pid (next_pid s)\<rparr>;
          t = pid_taken (next_pid s) s;
          s = upd_slot rmc (mp_pid_update (\<lambda>_. next_pid s)) s
      in if t then new_pid n rmc s else Done s)"

definition child_slot :: "mproc \<Rightarrow> int \<Rightarrow> mproc" where
  "child_slot rmp parent = rmp\<lparr>mp_parent := parent, mp_flags := turn_off TRACED (mp_flags rmp),
     mp_exitstatus := 0, mp_sigstatus := 0\<rparr>"

text \<open>The child has its number: its process group, the kernel and the file system are told.\<close>

definition start_child :: "env \<Rightarrow> int \<Rightarrow> u16 \<Rightarrow> mm \<Rightarrow> (int \<times> mm) run" where
  "start_child e rmc child_base s =
     (let s = (if who s = INIT_PROC_NR
               then upd_slot rmc (\<lambda>p. p\<lparr>mp_procgrp := mp_pid p\<rparr>) s else s);
          s = say (SysFork (who s) rmc (mp_pid (tab s rmc)) child_base) s;
          s = say (TellFs FORK_CALL (who s) rmc (mp_pid (tab s rmc))) s
      in andthen (reply e rmc 0 0 0 s) (\<lambda>s. Done (next_pid s, s)))"

definition do_fork :: "env \<Rightarrow> mm \<Rightarrow> (int \<times> mm) run" where
  "do_fork e s =
     (let rmp = mp s in
      if procs_in_use s = NR_PROCS then Done (EAGAIN, s)
      else if procs_in_use s \<ge> NR_PROCS - LAST_FEW \<and> mp_effuid (tab s rmp) \<noteq> 0 then Done (EAGAIN, s)
      else
        let sg = mp_seg (tab s rmp);
            prog_clicks = mem_len (sg seg_S) + (mem_vir (sg seg_S) - mem_vir (sg seg_D))
        in andthen (alloc_mem (holes s) prog_clicks) (\<lambda>(child_base, h).
        let s = s\<lparr>holes := h\<rparr> in
        if child_base = NO_MEM then Done (EAGAIN, s)
        else
          case find (\<lambda>i. \<not> has IN_USE (mp_flags (tab s i))) (slots 0) of
            None \<Rightarrow> Stuck
          | Some rmc \<Rightarrow>
              let s = s\<lparr>procs_in_use := procs_in_use s + 1\<rparr>;
                  s = upd_slot rmc (\<lambda>_. child_slot (tab s rmp) (who s)) s
              in andthen (new_pid 128 rmc s) (start_child e rmc child_base)))"

subsection \<open>Wait\<close>

text \<open>What a waiting parent is told about a stopped child.\<close>

definition stop_status :: "8 word \<Rightarrow> int" where
  "stop_status sig = sint (0x7F OR push_bit 8 (ucast sig) :: u16)"

fun wait_scan :: "env \<Rightarrow> int list \<Rightarrow> nat \<Rightarrow> mm \<Rightarrow> (int \<times> mm) run" where
  "wait_scan e [] children s =
     (if children > 0 then Done (OK, (set_flag WAITING (mp s) s)\<lparr>dont_reply := True\<rparr>) else Done (ECHILD, s))"
| "wait_scan e (rp # rps) children s =
     (let p = tab s rp in
      if has IN_USE (mp_flags p) \<and> mp_parent p = who s then
        if has HANGING (mp_flags p) then
          andthen (cleanup e DEPTH rp s) (\<lambda>s. Done (OK, s\<lparr>dont_reply := True\<rparr>))
        else if has STOPPED (mp_flags p) \<and> mp_sigstatus p \<noteq> 0 then
          andthen (reply e (who s) (mp_pid p) (stop_status (mp_sigstatus p)) 0 s) (\<lambda>s.
          Done (OK, upd_slot rp (mp_sigstatus_update (\<lambda>_. 0)) (s\<lparr>dont_reply := True\<rparr>)))
        else wait_scan e rps (children + 1) s
      else wait_scan e rps children s)"

definition do_wait :: "env \<Rightarrow> mm \<Rightarrow> (int \<times> mm) run" where
  "do_wait e s = wait_scan e (slots 0) 0 s"

subsection \<open>The effect of cleaning up\<close>

text \<open>An environment in which replies and requests to the clock task get through.\<close>

definition answers :: "env \<Rightarrow> bool" where
  "answers e \<longleftrightarrow> (\<forall>l. send_status e l = OK) \<and> (\<forall>l. fst (clock_reply e l) = OK)"

definition alive :: "mm \<Rightarrow> int \<Rightarrow> bool" where
  "alive s i \<longleftrightarrow> has IN_USE (mp_flags (tab s i)) \<and> \<not> has HANGING (mp_flags (tab s i))"

definition replied :: "int \<Rightarrow> int \<Rightarrow> int \<Rightarrow> addr \<Rightarrow> mm \<Rightarrow> mm" where
  "replied i result res2 respt s =
     (if alive s i then
        let out = (mm_out s)\<lparr>m_type := result, w_i1 := res2, w_l3 := respt\<rparr>
        in s\<lparr>mm_out := out, sent := sent s @ [Reply i out]\<rparr>
      else s)"

lemma reply_eq: "answers e \<Longrightarrow> reply e i result res2 respt s = Done (replied i result res2 respt s)"
  by (auto simp: reply_def replied_def answers_def alive_def Let_def say_def)

lemma replied_simps [simp]:
  "tab (replied i r r2 p s) = tab s" "mp (replied i r r2 p s) = mp s" "who (replied i r r2 p s) = who s"
  "mm_in (replied i r r2 p s) = mm_in s" "mm_call (replied i r r2 p s) = mm_call s"
  "dont_reply (replied i r r2 p s) = dont_reply s" "procs_in_use (replied i r r2 p s) = procs_in_use s"
  "next_pid (replied i r r2 p s) = next_pid s" "holes (replied i r r2 p s) = holes s"
  "result2 (replied i r r2 p s) = result2 s" "res_ptr (replied i r r2 p s) = res_ptr s"
  by (simp_all add: replied_def Let_def)

text \<open>The slot of \<open>c\<close> is released and its parent is no longer waiting.\<close>

definition freed :: "int \<Rightarrow> mm \<Rightarrow> mm" where
  "freed c s =
     (let s1 = clear_flag PAUSED c (clear_flag HANGING c (clear_flag TRACED c s));
          s2 = clear_flag IN_USE c (clear_flag WAITING (mp_parent (tab s c)) s1)
      in s2\<lparr>procs_in_use := procs_in_use s - 1\<rparr>)"

definition disown :: "int set \<Rightarrow> int \<Rightarrow> mm \<Rightarrow> mm" where
  "disown X c s = s\<lparr>tab := (\<lambda>i. if i \<in> X \<and> mp_parent (tab s i) = c
                              then (tab s i)\<lparr>mp_parent := INIT_PROC_NR\<rparr> else tab s i)\<rparr>"

definition released :: "int \<Rightarrow> mm \<Rightarrow> mm" where
  "released c s = freed c (replied (mp_parent (tab s c)) (mp_pid (tab s c)) (wait_status (tab s c)) 0 s)"

definition reap :: "int \<Rightarrow> mm \<Rightarrow> mm" where
  "reap c s = disown {0..31} c (released c s)"

lemma cleanup_Suc:
  assumes "answers e"
  shows "cleanup e (Suc n) c s =
    andthen (each (adopt (cleanup e n) c) (slots 0) (has WAITING (mp_flags (tab (released c s) INIT_PROC_NR)), released c s))
      (\<lambda>(_, s). Done s)"
proof -
  define s1 where "s1 = replied (mp_parent (tab s c)) (mp_pid (tab s c)) (wait_status (tab s c)) 0 s"
  have t: "tab s1 = tab s" by (simp add: s1_def)
  have f: "released c s = (clear_flag IN_USE c (clear_flag WAITING (mp_parent (tab s c))
      (clear_flag PAUSED c (clear_flag HANGING c (clear_flag TRACED c s1)))))
      \<lparr>procs_in_use := procs_in_use s1 - 1\<rparr>"
    by (simp add: released_def freed_def Let_def t s1_def [symmetric])
  have g: "procs_in_use (clear_flag IN_USE c u) = procs_in_use u" "procs_in_use (clear_flag WAITING c u) = procs_in_use u"
    for c u by simp_all
  show ?thesis
    unfolding cleanup.simps Let_def reply_eq [OF assms] andthen.simps s1_def [symmetric] f
    by simp
qed

lemma freed_slot:
  "mp_flags (tab (freed c s) i) = (if i = c then turn_off IN_USE else id)
     ((if i = mp_parent (tab s c) then turn_off WAITING else id)
       ((if i = c then turn_off PAUSED \<circ> turn_off HANGING \<circ> turn_off TRACED else id) (mp_flags (tab s i))))"
  "mp_parent (tab (freed c s) i) = mp_parent (tab s i)" "mp_pid (tab (freed c s) i) = mp_pid (tab s i)"
  "mp_effuid (tab (freed c s) i) = mp_effuid (tab s i)" "mp_procgrp (tab (freed c s) i) = mp_procgrp (tab s i)"
  "mp_seg (tab (freed c s) i) = mp_seg (tab s i)" "wait_status (tab (freed c s) i) = wait_status (tab s i)"
  "procs_in_use (freed c s) = procs_in_use s - 1"
  by (auto simp: freed_def Let_def wait_status_def)

lemma released_slot:
  "mp_flags (tab (released c s) i) = (if i = c then turn_off IN_USE else id)
     ((if i = mp_parent (tab s c) then turn_off WAITING else id)
       ((if i = c then turn_off PAUSED \<circ> turn_off HANGING \<circ> turn_off TRACED else id) (mp_flags (tab s i))))"
  "mp_parent (tab (released c s) i) = mp_parent (tab s i)" "mp_pid (tab (released c s) i) = mp_pid (tab s i)"
  "mp_effuid (tab (released c s) i) = mp_effuid (tab s i)" "mp_procgrp (tab (released c s) i) = mp_procgrp (tab s i)"
  "mp_seg (tab (released c s) i) = mp_seg (tab s i)" "wait_status (tab (released c s) i) = wait_status (tab s i)"
  "procs_in_use (released c s) = procs_in_use s - 1"
  by (simp_all only: released_def freed_slot replied_simps)

lemma disown_slot:
  "mp_flags (tab (disown X c s) i) = mp_flags (tab s i)" "mp_pid (tab (disown X c s) i) = mp_pid (tab s i)"
  "mp_parent (tab (disown X c s) i) = (if i \<in> X \<and> mp_parent (tab s i) = c then INIT_PROC_NR else mp_parent (tab s i))"
  "mp_effuid (tab (disown X c s) i) = mp_effuid (tab s i)" "mp_procgrp (tab (disown X c s) i) = mp_procgrp (tab s i)"
  "mp_seg (tab (disown X c s) i) = mp_seg (tab s i)" "wait_status (tab (disown X c s) i) = wait_status (tab s i)"
  "procs_in_use (disown X c s) = procs_in_use s"
  by (auto simp: disown_def wait_status_def)

lemma disown_empty [simp]: "disown {} c s = s"
  by (simp add: disown_def)

lemma disown_disown:
  assumes "c \<noteq> INIT_PROC_NR"
  shows "disown Y c (disown X c s) = disown (X \<union> Y) c s"
  using assms by (auto simp: disown_def fun_eq_iff)

lemma adopt_one:
  "adopt clean c x (iw, s) =
     (if mp_parent (tab s x) = c \<and> iw \<and> has HANGING (mp_flags (tab s x))
      then andthen (clean x (disown {x} c s)) (\<lambda>s. Done (False, s)) else Done (iw, disown {x} c s))"
proof -
  have "upd_slot x (mp_parent_update (\<lambda>_. INIT_PROC_NR)) s = disown {x} c s" if "mp_parent (tab s x) = c"
    using that by (cases s) (auto simp: upd_slot_def disown_def fun_eq_iff)
  moreover have "s = disown {x} c s" if "mp_parent (tab s x) \<noteq> c"
    using that by (cases s) (auto simp: disown_def fun_eq_iff)
  ultimately show ?thesis by (auto simp: adopt_def Let_def disown_slot)
qed

lemma adopt_none:
  assumes "c \<noteq> INIT_PROC_NR"
    and "iw \<Longrightarrow> \<forall>i\<in>set xs. mp_parent (tab s i) = c \<longrightarrow> \<not> has HANGING (mp_flags (tab s i))"
  shows "each (adopt clean c) xs (iw, s) = Done (iw, disown (set xs) c s)"
  using assms(2)
proof (induction xs arbitrary: s)
  case (Cons x xs)
  have "iw \<Longrightarrow> \<forall>i\<in>set xs. mp_parent (tab (disown {x} c s) i) = c \<longrightarrow> \<not> has HANGING (mp_flags (tab (disown {x} c s) i))"
    using Cons.prems by (auto simp: disown_slot)
  from Cons.IH [OF this] show ?case
    using Cons.prems disown_disown [OF assms(1), of "set xs" "{x}" s] by (auto simp: adopt_one)
qed simp

text \<open>When init is not left waiting there is no recursion.\<close>

lemma cleanup_flat:
  assumes "answers e" and "c \<noteq> INIT_PROC_NR"
    and "has WAITING (mp_flags (tab s INIT_PROC_NR)) \<longrightarrow> mp_parent (tab s c) = INIT_PROC_NR"
  shows "cleanup e (Suc n) c s = Done (reap c s)"
proof -
  have "\<not> has WAITING (mp_flags (tab (released c s) INIT_PROC_NR))"
    using assms(2,3) by (auto simp: released_slot)
  with adopt_none [OF assms(2), of False "slots 0" "released c s" "cleanup e n"] show ?thesis
    by (simp add: cleanup_Suc [OF assms(1)] reap_def del: cleanup.simps)
qed

text \<open>Adopting children of \<open>c\<close> and releasing a child of init can be done in either order.\<close>

lemma disown_reap:
  assumes "z \<noteq> c" and "c \<noteq> INIT_PROC_NR" and "mp_parent (tab s z) = INIT_PROC_NR" and "z \<noteq> INIT_PROC_NR"
  shows "disown X c (reap z s) = reap z (disown X c s)"
proof -
  define r where "r = replied INIT_PROC_NR (mp_pid (tab s z)) (wait_status (tab s z)) 0 s"
  have p: "mp_parent (tab (disown X c s) z) = INIT_PROC_NR" using assms by (simp add: disown_slot)
  have r': "replied INIT_PROC_NR (mp_pid (tab s z)) (wait_status (tab s z)) 0 (disown X c s) = disown X c r"
    by (cases s) (simp add: r_def replied_def alive_def disown_def Let_def if_distrib [of mp_flags] cong: if_cong)
  have rp: "mp_parent (tab r z) = INIT_PROC_NR" using assms(3) by (simp add: r_def)
  have f: "freed z (disown X c r) = disown X c (freed z r)"
    using rp assms unfolding freed_def Let_def disown_slot
    by (cases r) (auto simp: disown_def clear_flag_def upd_slot_def fun_eq_iff)
  have d: "disown X c (disown Y z t) = disown Y z (disown X c t)" for Y t
    using assms by (auto simp: disown_def fun_eq_iff)
  show ?thesis
    by (simp add: reap_def released_def assms(3) p disown_slot(2,7) r' f d r_def [symmetric])
qed

text \<open>The zombie child of \<open>c\<close> that init collects at once, if it is waiting.\<close>

definition inherited_zombie :: "int \<Rightarrow> mm \<Rightarrow> int option" where
  "inherited_zombie c s =
     (if has WAITING (mp_flags (tab s INIT_PROC_NR)) \<and> mp_parent (tab s c) \<noteq> INIT_PROC_NR
      then find (\<lambda>i. mp_parent (tab s i) = c \<and> has HANGING (mp_flags (tab s i))) (slots 0) else None)"

lemma find_split:
  assumes "find P xs = Some x"
  obtains pre post where "xs = pre @ x # post" "P x" "\<forall>y\<in>set pre. \<not> P y"
  using assms
proof (induction xs arbitrary: thesis)
  case (Cons y xs)
  show ?case
  proof (cases "P y")
    case True
    then show ?thesis using Cons.prems by (intro Cons.prems(1) [of "[]" xs]) auto
  next
    case False
    then have "find P xs = Some x" using Cons.prems(2) by simp
    then obtain pre post where "xs = pre @ x # post" "P x" "\<forall>y\<in>set pre. \<not> P y" using Cons.IH by blast
    then show ?thesis using False by (intro Cons.prems(1) [of "y # pre" post]) auto
  qed
qed simp

lemma cleanup_eq:
  assumes a: "answers e" and c: "c \<noteq> INIT_PROC_NR" "mp_parent (tab s c) \<noteq> c" "mp_parent (tab s INIT_PROC_NR) \<noteq> c"
  shows "cleanup e (Suc (Suc n)) c s =
    Done (case inherited_zombie c s of None \<Rightarrow> reap c s | Some z \<Rightarrow> reap z (reap c s))"
proof (cases "inherited_zombie c s")
  case None
  have "each (adopt (cleanup e (Suc n)) c) (slots 0)
      (has WAITING (mp_flags (tab (released c s) INIT_PROC_NR)), released c s) =
      Done (has WAITING (mp_flags (tab (released c s) INIT_PROC_NR)), disown (set (slots 0)) c (released c s))"
  proof (rule adopt_none [OF c(1)])
    assume "has WAITING (mp_flags (tab (released c s) INIT_PROC_NR))"
    then have w: "has WAITING (mp_flags (tab s INIT_PROC_NR))" "mp_parent (tab s c) \<noteq> INIT_PROC_NR"
      using c(1) by (auto simp: released_slot split: if_splits)
    have "\<not> (mp_parent (tab s i) = c \<and> has HANGING (mp_flags (tab s i)))" if "i \<in> set (slots 0)" for i
      using None w that unfolding inherited_zombie_def by (auto simp: find_None_iff)
    then show "\<forall>i\<in>set (slots 0). mp_parent (tab (released c s) i) = c \<longrightarrow> \<not> has HANGING (mp_flags (tab (released c s) i))"
      using c(2) by (auto simp: released_slot)
  qed
  then show ?thesis using None by (simp add: cleanup_Suc [OF a, of "Suc n"] reap_def del: cleanup.simps)
next
  case (Some z)
  define s2 where "s2 = released c s"
  have w: "has WAITING (mp_flags (tab s INIT_PROC_NR))" "mp_parent (tab s c) \<noteq> INIT_PROC_NR"
    and fz: "find (\<lambda>i. mp_parent (tab s i) = c \<and> has HANGING (mp_flags (tab s i))) (slots 0) = Some z"
    using Some by (auto simp: inherited_zombie_def split: if_split_asm)
  obtain pre post where split: "slots 0 = pre @ z # post" and z: "mp_parent (tab s z) = c" "has HANGING (mp_flags (tab s z))"
    and pre: "\<forall>y\<in>set pre. \<not> (mp_parent (tab s y) = c \<and> has HANGING (mp_flags (tab s y)))"
    by (rule find_split [OF fz]) (elim conjE, rule that)
  have zc: "z \<noteq> c" "z \<noteq> INIT_PROC_NR" using z c by auto
  have par: "mp_parent (tab s2 i) = mp_parent (tab s i)" for i by (simp add: s2_def released_slot)
  have hang: "has HANGING (mp_flags (tab s2 i)) \<longleftrightarrow> i \<noteq> c \<and> has HANGING (mp_flags (tab s i))" for i
    by (simp add: s2_def released_slot)
  have iw: "has WAITING (mp_flags (tab s2 INIT_PROC_NR))" using w c(1) by (simp add: s2_def released_slot)
  have zpre: "z \<notin> set pre" using set_slots(2) [of 0] split by auto
  define s3 where "s3 = disown (set pre) c s2"
  define s4 where "s4 = disown {z} c s3"
  have p4: "mp_parent (tab s4 z) = INIT_PROC_NR" using z zpre by (simp add: s4_def s3_def disown_slot par)
  have one: "each (adopt (cleanup e (Suc n)) c) pre (True, s2) = Done (True, s3)"
    using adopt_none [OF c(1), of True pre s2] pre par hang by (simp add: s3_def)
  have z3: "mp_parent (tab s3 z) = c" "has HANGING (mp_flags (tab s3 z))"
    using z zpre zc(1) hang by (simp_all add: s3_def disown_slot par)
  have two: "adopt (cleanup e (Suc n)) c z (True, s3) = Done (False, reap z s4)"
    using z3 cleanup_flat [OF a zc(2), of s4 n] p4
    by (simp add: adopt_one s4_def [symmetric] del: cleanup.simps)
  have three: "each (adopt (cleanup e (Suc n)) c) post (False, reap z s4) = Done (False, disown (set post) c (reap z s4))"
    by (rule adopt_none [OF c(1)]) simp
  have swap: "disown (set post) c (reap z s4) = reap z (disown (set post) c s4)"
    by (rule disown_reap [OF zc(1) c(1) p4 zc(2)])
  have "set pre \<union> {z} \<union> set post = {0..31}"
    using arg_cong [OF split, of set] by auto
  then have "disown (set post) c s4 = disown {0..31} c s2"
    by (simp only: s4_def s3_def disown_disown [OF c(1)])
  with swap have "each (adopt (cleanup e (Suc n)) c) (slots 0) (True, s2) = Done (False, reap z (disown {0..31} c s2))"
    unfolding split by (simp add: one two three del: cleanup.simps)
  then show ?thesis
    using iw Some by (simp add: cleanup_Suc [OF a, of "Suc n"] s2_def [symmetric] reap_def [of c] del: cleanup.simps)
qed

end
