(* ===== verification/Mm_Table.thy ===== *)
theory Mm_Table
  imports Mm_Exit
begin

section \<open>Memory manager: the invariant of the process table\<close>

text \<open>
  What fork, exit and wait keep of \<open>mproc\<close>: the count of slots in use, the parents, the process
  numbers, and that no parent is left waiting for a child that has already exited.
\<close>

subsection \<open>The invariant\<close>

definition used :: "mm \<Rightarrow> int set" where
  "used s = {i. 0 \<le> i \<and> i \<le> 31 \<and> has IN_USE (mp_flags (tab s i))}"

definition zombie :: "mm \<Rightarrow> int \<Rightarrow> bool" where
  "zombie s i \<longleftrightarrow> has HANGING (mp_flags (tab s i))"

definition waiting :: "mm \<Rightarrow> int \<Rightarrow> bool" where
  "waiting s i \<longleftrightarrow> has WAITING (mp_flags (tab s i))"

definition parent :: "mm \<Rightarrow> int \<Rightarrow> int" where
  "parent s i = mp_parent (tab s i)"

text \<open>The three servers that start with the system never exit.\<close>

abbreviation (input) "founders \<equiv> {0, 1, 2::int}"

definition mproc_ok :: "mm \<Rightarrow> bool" where
  "mproc_ok s \<longleftrightarrow> procs_in_use s = int (card (used s)) \<and> founders \<subseteq> used s \<and>
     (\<forall>i\<in>founders. parent s i = 0 \<and> \<not> zombie s i) \<and>
     (\<forall>i\<in>used s - founders. parent s i \<in> used s - {0, 1, i}) \<and>
     (\<forall>i. 0 \<le> i \<longrightarrow> i \<le> 31 \<longrightarrow> zombie s i \<longrightarrow> i \<in> used s) \<and>
     inj_on (\<lambda>i. mp_pid (tab s i)) (used s - {0, 1}) \<and>
     (\<forall>i\<in>used s - {0, 1}. 0 < mp_pid (tab s i) \<and> mp_pid (tab s i) \<le> 30000)"

definition no_missed_wait :: "mm \<Rightarrow> bool" where
  "no_missed_wait s \<longleftrightarrow> (\<forall>i\<in>used s. zombie s i \<longrightarrow> \<not> waiting s (parent s i))"

lemma used_finite [simp]: "finite (used s)"
  by (rule finite_subset [of _ "{0..31}"]) (auto simp: used_def)

lemma mproc_okD:
  assumes "mproc_ok s"
  shows "procs_in_use s = int (card (used s))" "founders \<subseteq> used s"
    "i \<in> founders \<Longrightarrow> parent s i = 0" "i \<in> founders \<Longrightarrow> \<not> zombie s i"
    "i \<in> used s - founders \<Longrightarrow> parent s i \<in> used s - {0, 1, i}"
    "0 \<le> i \<Longrightarrow> i \<le> 31 \<Longrightarrow> zombie s i \<Longrightarrow> i \<in> used s"
    "inj_on (\<lambda>i. mp_pid (tab s i)) (used s - {0, 1})"
    "i \<in> used s - {0, 1} \<Longrightarrow> 0 < mp_pid (tab s i) \<and> mp_pid (tab s i) \<le> 30000"
  using assms by (auto simp: mproc_ok_def)

text \<open>Only the flags IN_USE, HANGING and WAITING, the parents and the numbers matter.\<close>

definition same_family :: "mm \<Rightarrow> mm \<Rightarrow> bool" where
  "same_family s s' \<longleftrightarrow> procs_in_use s' = procs_in_use s \<and>
     (\<forall>i. has IN_USE (mp_flags (tab s' i)) = has IN_USE (mp_flags (tab s i)) \<and>
          has HANGING (mp_flags (tab s' i)) = has HANGING (mp_flags (tab s i)) \<and>
          has WAITING (mp_flags (tab s' i)) = has WAITING (mp_flags (tab s i)) \<and>
          mp_parent (tab s' i) = mp_parent (tab s i) \<and> mp_pid (tab s' i) = mp_pid (tab s i))"

lemma same_familyD:
  assumes "same_family s s'"
  shows "used s' = used s" "zombie s' = zombie s" "waiting s' = waiting s" "parent s' = parent s"
    "mp_pid (tab s' i) = mp_pid (tab s i)" "procs_in_use s' = procs_in_use s"
  using assms by (auto simp: same_family_def used_def zombie_def waiting_def parent_def fun_eq_iff)

lemma same_family_ok:
  assumes "same_family s s'"
  shows "mproc_ok s' = mproc_ok s" "no_missed_wait s' = no_missed_wait s"
  by (simp_all add: mproc_ok_def no_missed_wait_def same_familyD [OF assms])

lemma same_family_refl [simp]: "same_family s s"
  by (simp add: same_family_def)

lemma same_family_trans: "same_family s t \<Longrightarrow> same_family t u \<Longrightarrow> same_family s u"
  by (simp add: same_family_def)

lemma same_family_say [simp]: "same_family s (say m t) = same_family s t"
  by (simp add: same_family_def)

lemma same_family_upd:
  assumes "\<And>p. mp_flags (f p) = mp_flags p" "\<And>p. mp_parent (f p) = mp_parent p" "\<And>p. mp_pid (f p) = mp_pid p"
  shows "same_family s (upd_slot i f s)"
  by (simp add: same_family_def assms)

lemma same_family_flag:
  assumes "one_bit f" "f \<notin> {1, 2, 4}"
  shows "same_family s (set_flag f i s)" "same_family s (clear_flag f i s)"
  using assms by (auto simp: same_family_def)

subsection \<open>Reaping\<close>

lemma reap_view:
  "used (reap c s) = used s - {c}" "procs_in_use (reap c s) = procs_in_use s - 1"
  "0 \<le> i \<Longrightarrow> i \<le> 31 \<Longrightarrow> parent (reap c s) i = (if parent s i = c then INIT_PROC_NR else parent s i)"
  "mp_pid (tab (reap c s) i) = mp_pid (tab s i)"
  "zombie (reap c s) i \<longleftrightarrow> i \<noteq> c \<and> zombie s i"
  "waiting (reap c s) i \<longleftrightarrow> i \<noteq> parent s c \<and> waiting s i"
  by (auto simp: reap_def disown_slot released_slot used_def zombie_def waiting_def parent_def)

lemma reap_holes [simp]: "holes (reap c s) = holes s" "next_pid (reap c s) = next_pid s"
  by (simp_all add: reap_def released_def disown_def freed_def Let_def)

text \<open>Between two states the process \<open>p\<close> got the answer that child \<open>x\<close> has gone.\<close>

definition told :: "mm \<Rightarrow> mm \<Rightarrow> int \<Rightarrow> mproc \<Rightarrow> bool" where
  "told s s' p x \<longleftrightarrow> (\<exists>ms m. sent s' = sent s @ ms \<and> Reply p m \<in> set ms \<and> m_type m = mp_pid x \<and> w_i1 m = wait_status x)"

lemma reap_told: "alive s (parent s c) \<Longrightarrow> told s (reap c s) (parent s c) (tab s c)"
  by (simp add: told_def reap_def released_def disown_def freed_def Let_def replied_def parent_def)

lemma reap_sent: "\<exists>ms. sent (reap c s) = sent s @ ms"
  by (simp add: reap_def released_def disown_def freed_def Let_def replied_def)

lemma told_later: "told s t p x \<Longrightarrow> sent u = sent t @ ms \<Longrightarrow> told s u p x"
  unfolding told_def by fastforce

lemma in_used: "i \<in> used s \<Longrightarrow> 0 \<le> i \<and> i \<le> 31"
  by (simp add: used_def)

lemma reap_ok:
  assumes ok: "mproc_ok s" and c: "c \<in> used s - founders"
  shows "mproc_ok (reap c s)"
proof -
  note d = mproc_okD [OF ok]
  have two: "2 \<in> used s" "0 \<in> used s" "1 \<in> used s" using d(2) by auto
  have cnt: "int (card (used s)) - 1 = int (card (used s - {c}))"
    using card_Suc_Diff1 [of "used s" c] c by simp
  have fp: "parent (reap c s) i = 0" if "i \<in> founders" for i
    using that d(3) [OF that] c reap_view(3) [of i c s] by auto
  have par: "parent (reap c s) i \<in> used s - {c} - {0, 1, i}" if i: "i \<in> used s - {c} - founders" for i
    using d(5) [of i] i c two in_used [of i s] by (auto simp: reap_view(3))
  have inj: "inj_on (\<lambda>i. mp_pid (tab s i)) (used s - {c} - {0, 1})"
    by (rule inj_on_subset [OF d(7)]) auto
  have f: "founders \<subseteq> used s - {c}" using d(2) c by auto
  have p: "\<forall>i\<in>used s - {c} - {0, 1}. 0 < mp_pid (tab s i) \<and> mp_pid (tab s i) \<le> 30000"
    using d(8) by blast
  have z: "\<forall>i. 0 \<le> i \<longrightarrow> i \<le> 31 \<longrightarrow> i \<noteq> c \<and> zombie s i \<longrightarrow> i \<in> used s - {c}" using d(6) by blast
  have fz: "\<forall>i\<in>founders. parent (reap c s) i = 0 \<and> \<not> (i \<noteq> c \<and> zombie s i)" using d(4) fp by blast
  show ?thesis
    unfolding mproc_ok_def reap_view(1,2,4,5) using d(1) cnt par inj f p z fz by simp
qed

lemma cleanup_ok:
  assumes a: "answers e" and ok: "mproc_ok s" and nw: "no_missed_wait s" and c: "c \<in> used s - founders"
  shows "\<exists>s'. cleanup e (Suc (Suc n)) c s = Done s' \<and> mproc_ok s' \<and> no_missed_wait s' \<and> c \<notin> used s' \<and>
    used s' \<subseteq> used s \<and> holes s' = holes s \<and> next_pid s' = next_pid s \<and> (alive s (parent s c) \<longrightarrow> told s s' (parent s c) (tab s c))"
proof -
  note d = mproc_okD [OF ok]
  have pc: "parent s c \<noteq> c" "parent s 2 \<noteq> c" using d(5) [OF c] d(3) [of 2] c by auto
  note eq = cleanup_eq [OF a _ pc [unfolded parent_def], of n]
  have c2: "c \<noteq> 2" using c by auto
  show ?thesis
  proof (cases "inherited_zombie c s")
    case None
    have "\<not> waiting (reap c s) (parent (reap c s) i)" if i: "i \<in> used s - {c}" "zombie s i" for i
    proof (cases "parent s i = c")
      case True
      have "waiting s 2 \<and> parent s c \<noteq> 2 \<Longrightarrow> False"
        using None i True in_used [of i s] unfolding inherited_zombie_def
        by (auto simp: find_None_iff waiting_def parent_def zombie_def)
      then show ?thesis using True i in_used [of i s] by (auto simp: reap_view)
    next
      case False
      then show ?thesis using nw i in_used [of i s] by (auto simp: reap_view no_missed_wait_def)
    qed
    then have "no_missed_wait (reap c s)" by (simp add: no_missed_wait_def reap_view(1,5))
    then show ?thesis using eq c2 None reap_ok [OF ok c] reap_told by (auto simp: reap_view(1))
  next
    case (Some z)
    have z: "parent s z = c" "zombie s z" "0 \<le> z" "z \<le> 31"
      using Some by (auto simp: inherited_zombie_def find_Some_iff parent_def zombie_def split: if_split_asm)
        (metis nth_mem set_slots(1) atLeastAtMost_iff)+
    have zu: "z \<in> used s" using d(6) z by simp
    have zn: "z \<notin> founders" using z(1) d(3) [of z] c by auto
    have zc: "z \<noteq> c" using z(1) pc(1) by auto
    have zr: "z \<in> used (reap c s) - founders" using zu zn zc by (simp add: reap_view(1))
    have p2: "parent (reap c s) z = 2" using z by (simp add: reap_view(3))
    have "\<not> waiting (reap z (reap c s)) (parent (reap z (reap c s)) i)" if i: "i \<in> used s - {c} - {z}" "zombie s i" for i
      using nw i in_used [of i s] p2 by (auto simp: reap_view no_missed_wait_def)
    then have "no_missed_wait (reap z (reap c s))" using zc by (auto simp: no_missed_wait_def reap_view(1,5))
    moreover have "alive s (parent s c) \<longrightarrow> told s (reap z (reap c s)) (parent s c) (tab s c)"
      using reap_told [of s c] reap_sent [of z "reap c s"] told_later by blast
    ultimately show ?thesis
      using eq c2 Some reap_ok [OF reap_ok [OF ok c] zr] by (auto simp: reap_view(1))
  qed
qed

lemmas cleanup_settled = cleanup_ok [where n = 0, folded numeral_2_eq_2]

subsection \<open>Exit\<close>

lemma set_alarm_ok:
  assumes "answers e"
  shows "\<exists>r s'. set_alarm e i sec s = Done (r, s') \<and> same_family s s' \<and> holes s' = holes s \<and> next_pid s' = next_pid s \<and> (\<exists>ms. sent s' = sent s @ ms)"
proof -
  have c: "clock_reply e l = (OK, snd (clock_reply e l))" for l
    using assms by (simp add: answers_def prod_eq_iff)
  show ?thesis
    by (subst (1) set_alarm_def) (subst c, auto simp: Let_def same_family_flag)
qed

text \<open>Whatever image the kernel reports for a process, the hole table can take it.\<close>

definition takes_back :: "env \<Rightarrow> mm \<Rightarrow> bool" where
  "takes_back e s \<longleftrightarrow> (\<forall>l. \<exists>h. free_mem (holes s) (fst (kern_image e l)) (snd (kern_image e l)) = Done h)"

lemma hang_ok:
  assumes "mproc_ok s" "no_missed_wait s" "c \<in> used s - founders" "\<not> waiting s (parent s c)"
  shows "mproc_ok (set_flag HANGING c s)" "no_missed_wait (set_flag HANGING c s)"
    "used (set_flag HANGING c s) = used s" "zombie (set_flag HANGING c s) c"
proof -
  have v: "used (set_flag HANGING c s) = used s" "procs_in_use (set_flag HANGING c s) = procs_in_use s"
    "parent (set_flag HANGING c s) = parent s" "waiting (set_flag HANGING c s) = waiting s"
    "mp_pid (tab (set_flag HANGING c s) i) = mp_pid (tab s i)"
    "zombie (set_flag HANGING c s) i \<longleftrightarrow> i = c \<or> zombie s i" for i
    by (auto simp: used_def parent_def waiting_def zombie_def fun_eq_iff)
  show "used (set_flag HANGING c s) = used s" "zombie (set_flag HANGING c s) c" using v by simp_all
  show "mproc_ok (set_flag HANGING c s)"
    using assms(1,3) unfolding mproc_ok_def v by blast
  show "no_missed_wait (set_flag HANGING c s)"
    using assms(2,4) by (auto simp: no_missed_wait_def v)
qed

lemma settle_ok:
  assumes a: "answers e" and ok: "mproc_ok s" "no_missed_wait s" and c: "c \<in> used s - founders"
  shows "\<exists>s'. (if waiting s (parent s c) then cleanup e DEPTH c s else Done (set_flag HANGING c s)) = Done s' \<and>
    mproc_ok s' \<and> no_missed_wait s' \<and> holes s' = holes s \<and> next_pid s' = next_pid s \<and>
    (if waiting s (parent s c) then c \<notin> used s' \<and> (alive s (parent s c) \<longrightarrow> told s s' (parent s c) (tab s c))
     else c \<in> used s' \<and> zombie s' c)"
proof (cases "waiting s (parent s c)")
  case True
  then show ?thesis
    using cleanup_settled [OF a ok c] by auto
next
  case False
  then show ?thesis using hang_ok [OF ok c] c by auto
qed

lemma exit_settled:
  assumes a: "answers e" and ok: "mproc_ok s" "no_missed_wait s" and c: "c \<in> used s - founders"
    and h: "takes_back e s"
  shows "\<exists>s'. mm_exit e c status s = Done s' \<and> mproc_ok s' \<and> no_missed_wait s' \<and> next_pid s' = next_pid s \<and>
    (if waiting s (parent s c)
     then c \<notin> used s' \<and> (alive s (parent s c) \<longrightarrow>
       told s s' (parent s c) ((tab s c)\<lparr>mp_exitstatus := word_of_int status\<rparr>))
     else c \<in> used s' \<and> zombie s' c)"
proof -
  define s1 where "s1 = upd_slot c (mp_exitstatus_update (\<lambda>_. word_of_int status)) s"
  have f1: "same_family s s1" unfolding s1_def by (rule same_family_upd) simp_all
  note v1 = same_familyD [OF f1] same_family_ok [OF f1]
  have t1: "tab s1 c = (tab s c)\<lparr>mp_exitstatus := word_of_int status\<rparr>" "holes s1 = holes s" "next_pid s1 = next_pid s"
    by (simp_all add: s1_def)
  have told1: "told s1 u = told s u" and al: "alive s1 p = alive s p" for u p
    using f1 by (auto simp: told_def s1_def same_family_def alive_def fun_eq_iff)
  obtain s2 where s2: "(if waiting s1 (parent s1 c) then cleanup e DEPTH c s1 else Done (set_flag HANGING c s1)) = Done s2"
    and ok2: "mproc_ok s2" "no_missed_wait s2" "holes s2 = holes s" "next_pid s2 = next_pid s"
    and res: "if waiting s (parent s c) then c \<notin> used s2 \<and> (alive s (parent s c) \<longrightarrow> told s s2 (parent s c) (tab s1 c))
      else c \<in> used s2 \<and> zombie s2 c"
    using settle_ok [OF a, of s1 c] ok c by (auto simp: v1 told1 al t1 cong: if_cong)
  have "\<exists>s3. (if has ALARM_ON (mp_flags (tab s2 c)) then andthen (set_alarm e c 0 s2) (\<lambda>(_, s). Done s) else Done s2)
      = Done s3 \<and> same_family s2 s3 \<and> holes s3 = holes s2 \<and> next_pid s3 = next_pid s2 \<and> (\<exists>ms. sent s3 = sent s2 @ ms)"
    using set_alarm_ok [OF a, of c 0 s2] by auto
  then obtain s3 ms where s3: "(if has ALARM_ON (mp_flags (tab s2 c))
      then andthen (set_alarm e c 0 s2) (\<lambda>(_, s). Done s) else Done s2) = Done s3"
    "same_family s2 s3" "holes s3 = holes s2" "next_pid s3 = next_pid s2" "sent s3 = sent s2 @ ms" by blast
  define s4 where "s4 = say (SysXit (mp_parent (tab s3 c)) c) s3"
  obtain h' where h': "free_mem (holes s4) (fst (kern_image e (sent s4))) (snd (kern_image e (sent s4))) = Done h'"
    using h s3(3) ok2(3) by (auto simp: takes_back_def s4_def)
  define s5 where "s5 = say (TellFs EXIT_CALL c 0 0) (s4\<lparr>holes := h'\<rparr>)"
  have "mm_exit e c status s = Done s5"
    using s2 s3(1) h' unfolding mm_exit_def Let_def s1_def [symmetric] waiting_def parent_def
    by (auto simp: s4_def s5_def split: prod.splits)
  moreover have f: "same_family s2 s5"
    using s3(2) by (simp add: s5_def s4_def same_family_def)
  moreover have "told s s2 p x \<Longrightarrow> told s s5 p x" for p x
    using told_later [of s s2 p x s5] by (simp add: s5_def s4_def s3(5))
  moreover have "next_pid s5 = next_pid s" by (simp add: s5_def s4_def s3(4) ok2(4))
  ultimately show ?thesis
    using res ok2 t1(1) by (auto simp: same_familyD [OF f] same_family_ok [OF f])
qed

subsection \<open>Wait\<close>

text \<open>A child that ends the scan: it has exited, or it has stopped and not been reported.\<close>

definition my_child :: "mm \<Rightarrow> int \<Rightarrow> bool" where
  "my_child s i \<longleftrightarrow> has IN_USE (mp_flags (tab s i)) \<and> mp_parent (tab s i) = who s"

definition stopped :: "mm \<Rightarrow> int \<Rightarrow> bool" where
  "stopped s i \<longleftrightarrow> \<not> zombie s i \<and> has STOPPED (mp_flags (tab s i)) \<and> mp_sigstatus (tab s i) \<noteq> 0"

lemma wait_scan_eq:
  "wait_scan e xs n s =
     (case find (\<lambda>i. my_child s i \<and> (zombie s i \<or> stopped s i)) xs of
        None \<Rightarrow> if n > 0 \<or> (\<exists>i\<in>set xs. my_child s i)
          then Done (OK, (set_flag WAITING (mp s) s)\<lparr>dont_reply := True\<rparr>) else Done (ECHILD, s)
      | Some c \<Rightarrow>
          if zombie s c then andthen (cleanup e DEPTH c s) (\<lambda>s. Done (OK, s\<lparr>dont_reply := True\<rparr>))
          else andthen (reply e (who s) (mp_pid (tab s c)) (stop_status (mp_sigstatus (tab s c))) 0 s) (\<lambda>s.
            Done (OK, upd_slot c (mp_sigstatus_update (\<lambda>_. 0)) (s\<lparr>dont_reply := True\<rparr>))))"
proof (induction xs arbitrary: n)
  case (Cons x xs)
  show ?case
  proof (cases "my_child s x")
    case True
    then show ?thesis
      using Cons.IH [of "n + 1"] by (auto simp: my_child_def zombie_def stopped_def Let_def simp del: cleanup.simps)
  next
    case False
    then show ?thesis using Cons.IH [of n] by (auto simp: my_child_def Let_def simp del: cleanup.simps)
  qed
qed simp

lemma wait_blocks_ok:
  assumes ok: "mproc_ok s" "no_missed_wait s"
    and none: "\<And>i. i \<in> used s \<Longrightarrow> parent s i = p \<Longrightarrow> \<not> zombie s i"
  shows "mproc_ok ((set_flag WAITING p s)\<lparr>dont_reply := True\<rparr>)"
    "no_missed_wait ((set_flag WAITING p s)\<lparr>dont_reply := True\<rparr>)"
proof -
  define s' where "s' = (set_flag WAITING p s)\<lparr>dont_reply := True\<rparr>"
  have v: "used s' = used s" "procs_in_use s' = procs_in_use s" "parent s' = parent s" "zombie s' = zombie s"
    "mp_pid (tab s' i) = mp_pid (tab s i)" "waiting s' i \<longleftrightarrow> i = p \<or> waiting s i" for i
    by (auto simp: s'_def used_def parent_def waiting_def zombie_def fun_eq_iff)
  show "mproc_ok s'" using ok(1) by (simp add: mproc_ok_def v)
  show "no_missed_wait s'" using ok(2) none by (auto simp: no_missed_wait_def v)
qed

lemma my_child_used: "my_child s i \<Longrightarrow> i \<in> {0..31} \<Longrightarrow> i \<in> used s \<and> parent s i = who s"
  by (simp add: my_child_def used_def parent_def)

lemma same_family_rest [simp]:
  "same_family s (t\<lparr>dont_reply := b\<rparr>) = same_family s t" "same_family s (t\<lparr>holes := h\<rparr>) = same_family s t"
  "same_family s (t\<lparr>next_pid := n\<rparr>) = same_family s t"
  by (simp_all add: same_family_def)

lemma same_family_replied [simp]: "same_family s (replied p r r2 a s)"
  by (simp add: same_family_def)

lemma told_cong: "sent t' = sent t \<Longrightarrow> told s t' = told s t"
  by (simp add: told_def fun_eq_iff)

lemma wait_settled:
  assumes a: "answers e" and ok: "mproc_ok s" "no_missed_wait s"
    and w: "mp s = who s" "who s \<in> used s" "who s \<ge> 2" "alive s (who s)"
  shows "\<exists>r s'. do_wait e s = Done (r, s') \<and> mproc_ok s' \<and> no_missed_wait s' \<and> next_pid s' = next_pid s \<and>
    (if \<exists>i\<in>{0..31}. my_child s i \<and> (zombie s i \<or> stopped s i)
     then r = OK \<and> dont_reply s' \<and> (\<exists>c\<in>used s. my_child s c \<and>
       (if zombie s c then c \<notin> used s' \<and> told s s' (who s) (tab s c) else used s' = used s \<and> stopped s c \<and> \<not> stopped s' c))
     else if \<exists>i\<in>{0..31}. my_child s i then r = OK \<and> dont_reply s' \<and> waiting s' (who s) \<and> used s' = used s
     else r = ECHILD \<and> s' = s)"
proof (cases "find (\<lambda>i. my_child s i \<and> (zombie s i \<or> stopped s i)) (slots 0)")
  case None
  then have n: "\<And>i. i \<in> {0..31} \<Longrightarrow> \<not> (my_child s i \<and> (zombie s i \<or> stopped s i))"
    by (auto simp: find_None_iff)
  define s' where "s' = (set_flag WAITING (who s) s)\<lparr>dont_reply := True\<rparr>"
  have eq: "do_wait e s = (if \<exists>i\<in>{0..31}. my_child s i then Done (OK, s') else Done (ECHILD, s))"
    using None w(1) by (simp add: do_wait_def wait_scan_eq s'_def)
  have nz: "\<not> zombie s i" if "i \<in> used s" "parent s i = who s" for i
    using n [of i] that by (auto simp: used_def my_child_def parent_def)
  have "mproc_ok s'" "no_missed_wait s'" unfolding s'_def using wait_blocks_ok [OF ok nz] by auto
  moreover have "waiting s' (who s)" "dont_reply s'" "used s' = used s" "next_pid s' = next_pid s"
    by (auto simp: s'_def waiting_def used_def)
  moreover have "\<not> (\<exists>i\<in>{0..31}. my_child s i \<and> (zombie s i \<or> stopped s i))" using n by blast
  ultimately show ?thesis using ok by (auto simp: eq)
next
  case (Some c)
  then have c: "my_child s c" "zombie s c \<or> stopped s c" "c \<in> {0..31}"
    by (auto simp: find_Some_iff) (metis nth_mem set_slots(1) atLeastAtMost_iff)+
  have cu: "c \<in> used s" "parent s c = who s" using my_child_used [OF c(1,3)] by auto
  have ex: "\<exists>i\<in>{0..31}. my_child s i \<and> (zombie s i \<or> stopped s i)" using c by blast
  show ?thesis
  proof (cases "zombie s c")
    case True
    have "c \<notin> founders" using mproc_okD(3) [OF ok(1), of c] cu(2) w(3) by auto
    with cu(1) have "c \<in> used s - founders" by simp
    from cleanup_settled [OF a ok this] w(4) obtain s2 where
      s2: "cleanup e DEPTH c s = Done s2" "mproc_ok s2" "no_missed_wait s2" "c \<notin> used s2" "next_pid s2 = next_pid s"
        "told s s2 (who s) (tab s c)"
      unfolding cu(2) by blast
    define s3 where "s3 = s2\<lparr>dont_reply := True\<rparr>"
    have f: "same_family s2 s3" by (simp add: s3_def)
    have "do_wait e s = Done (OK, s3)"
      using Some True s2(1) by (simp add: do_wait_def wait_scan_eq s3_def del: cleanup.simps)
    moreover have "dont_reply s3" "told s s3 = told s s2"
      using told_cong [of s3 s2] by (simp_all add: s3_def)
    moreover have "mproc_ok s3" "no_missed_wait s3" "c \<notin> used s3" "next_pid s3 = next_pid s"
      using s2 by (simp_all add: same_familyD [OF f] same_family_ok [OF f]) (simp add: s3_def)
    moreover have "if zombie s c then c \<notin> used s3 \<and> told s s3 (who s) (tab s c)
        else used s3 = used s \<and> stopped s c \<and> \<not> stopped s3 c"
      using True calculation s2(6) by simp
    ultimately show ?thesis unfolding if_P [OF ex] using c(1) cu(1) by blast
  next
    case False
    define s2 where "s2 = replied (who s) (mp_pid (tab s c)) (stop_status (mp_sigstatus (tab s c))) 0 s"
    define s3 where "s3 = upd_slot c (mp_sigstatus_update (\<lambda>_. 0)) (s2\<lparr>dont_reply := True\<rparr>)"
    have f: "same_family s s3" by (auto simp: s3_def s2_def same_family_def)
    have "do_wait e s = Done (OK, s3)"
      using Some False by (simp add: do_wait_def wait_scan_eq s3_def s2_def reply_eq [OF a])
    moreover have "dont_reply s3" "\<not> stopped s3 c" by (simp_all add: s3_def stopped_def)
    moreover have "mproc_ok s3" "no_missed_wait s3" "used s3 = used s" "next_pid s3 = next_pid s"
      using ok by (simp_all add: same_familyD [OF f] same_family_ok [OF f]) (simp add: s3_def s2_def)
    moreover have "if zombie s c then c \<notin> used s3 \<and> told s s3 (who s) (tab s c)
        else used s3 = used s \<and> stopped s c \<and> \<not> stopped s3 c"
      using False calculation c(2) by simp
    ultimately show ?thesis unfolding if_P [OF ex] using c(1) cu(1) by blast
  qed
qed

end
