(* ===== verification/Mm_Fork.thy ===== *)
theory Mm_Fork
  imports Mm_Table
begin

section \<open>Memory manager: what fork does\<close>

text \<open>
  The search for a process number ends, the number it finds is new, and a successful fork adds
  exactly one slot to the table of processes.
\<close>

subsection \<open>Process numbers\<close>

definition pid_range :: "int \<Rightarrow> bool" where
  "pid_range n \<longleftrightarrow> 1 \<le> n \<and> n \<le> 30000"

lemma succ_pid_mod: "pid_range n \<Longrightarrow> succ_pid n = (n - 1) mod 29999 + 2"
  by (auto simp: succ_pid_def pid_range_def mod_pos_pos_trivial)

lemma succ_pid_range: "pid_range n \<Longrightarrow> pid_range (succ_pid n) \<and> 2 \<le> succ_pid n"
  by (auto simp: succ_pid_def pid_range_def)

lemma succ_pid_neq: "succ_pid n \<noteq> n"
  by (simp add: succ_pid_def)

lemma succ_pid_iter: "pid_range n \<Longrightarrow> (succ_pid ^^ Suc k) n = (n - 1 + int k) mod 29999 + 2"
proof (induction k)
  case 0
  then show ?case by (simp add: succ_pid_mod)
next
  case (Suc k)
  have "pid_range ((n - 1 + int k) mod 29999 + 2)"
    using pos_mod_bound [of 29999 "n - 1 + int k"] by (simp add: pid_range_def)
  then have "(succ_pid ^^ Suc (Suc k)) n = ((n - 1 + int k) mod 29999 + 1) mod 29999 + 2"
    using Suc by (simp add: succ_pid_mod add.commute)
  also have "\<dots> = (n - 1 + int (Suc k)) mod 29999 + 2"
    by (subst mod_add_left_eq) (simp add: algebra_simps)
  finally show ?case .
qed

lemma succ_pid_distinct: "pid_range n \<Longrightarrow> inj_on (\<lambda>k. (succ_pid ^^ k) n) {1..29999}"
proof (rule inj_onI)
  fix x y :: nat
  assume n: "pid_range n" and xy: "x \<in> {1..29999}" "y \<in> {1..29999}" and e: "(succ_pid ^^ x) n = (succ_pid ^^ y) n"
  obtain a b where ab: "x = Suc a" "y = Suc b" using xy by (metis atLeastAtMost_iff not_less_eq_eq Suc_le_D One_nat_def)
  have "(n - 1 + int a) mod 29999 = (n - 1 + int b) mod 29999"
    using e succ_pid_iter [OF n] by (simp only: ab)
  then have "(int a - int b) mod 29999 = 0" by (metis mod_eq_dvd_iff add_diff_cancel_left dvd_imp_mod_0)
  then have "29999 dvd (int a - int b)" by presburger
  moreover have "\<bar>int a - int b\<bar> < 29999" using xy ab by auto
  ultimately have "int a = int b" using dvd_imp_le_int [of "int a - int b" 29999] by force
  then show "x = y" using ab by simp
qed

text \<open>The numbers in use when slot \<open>r\<close> gets one: 31 process numbers and 32 process groups.\<close>

definition numbers :: "int \<Rightarrow> mm \<Rightarrow> int set" where
  "numbers r s = (\<lambda>i. mp_pid (tab s i)) ` ({0..31} - {r}) \<union> (\<lambda>i. mp_procgrp (tab s i)) ` {0..31}"

lemma numbers_card: "card (numbers r s) \<le> 64"
proof -
  have "card ({0..31} - {r}) \<le> card {0..31::int}" by (rule card_mono) auto
  then have "card ((\<lambda>i. mp_pid (tab s i)) ` ({0..31::int} - {r})) \<le> 32"
    using card_image_le [of "{0..31::int} - {r}" "\<lambda>i. mp_pid (tab s i)"] by simp
  moreover have "card ((\<lambda>i. mp_procgrp (tab s i)) ` {0..31::int}) \<le> 32"
    using card_image_le [of "{0..31::int}" "\<lambda>i. mp_procgrp (tab s i)"] by simp
  ultimately show ?thesis
    using card_Un_le [of "(\<lambda>i. mp_pid (tab s i)) ` ({0..31} - {r})" "(\<lambda>i. mp_procgrp (tab s i)) ` {0..31}"]
    by (simp add: numbers_def)
qed

lemma free_number: "pid_range n \<Longrightarrow> \<exists>k\<in>{1..65}. (succ_pid ^^ k) n \<notin> numbers r s"
proof (rule ccontr)
  assume n: "pid_range n" and "\<not> (\<exists>k\<in>{1..65}. (succ_pid ^^ k) n \<notin> numbers r s)"
  then have "(\<lambda>k. (succ_pid ^^ k) n) ` {1..65} \<subseteq> numbers r s" by auto
  moreover have "finite (numbers r s)" by (simp add: numbers_def)
  moreover have "card ((\<lambda>k. (succ_pid ^^ k) n) ` {1..65}) = 65"
    using card_image [OF inj_on_subset [OF succ_pid_distinct [OF n]], of "{1..65}"] by auto
  ultimately have "65 \<le> card (numbers r s)" by (metis card_mono)
  then show False using numbers_card [of r s] by simp
qed

lemma numbers_upd [simp]:
  "numbers r (upd_slot r (mp_pid_update f) s) = numbers r s" "numbers r (s\<lparr>next_pid := n\<rparr>) = numbers r s"
  by (auto simp: numbers_def image_iff)

lemma pid_taken_numbers: "r \<in> {0..31} \<Longrightarrow> pid_taken v s \<longleftrightarrow> v \<in> numbers r s \<or> v = mp_pid (tab s r)"
  by (auto simp: pid_taken_def list_ex_iff numbers_def)

lemma new_pid_finds:
  assumes "(succ_pid ^^ k) (next_pid s) \<notin> numbers r s" "k \<in> {1..n}" "r \<in> {0..31}"
    and "mp_pid (tab s r) \<in> numbers r s \<or> mp_pid (tab s r) = next_pid s"
  shows "\<exists>v j. j \<in> {1..k} \<and> v = (succ_pid ^^ j) (next_pid s) \<and> v \<notin> numbers r s \<and>
    new_pid n r s = Done (upd_slot r (mp_pid_update (\<lambda>_. v)) (s\<lparr>next_pid := v\<rparr>))"
  using assms
proof (induction n arbitrary: s k)
  case (Suc n)
  define v where "v = succ_pid (next_pid s)"
  define s' where "s' = upd_slot r (mp_pid_update (\<lambda>_. v)) (s\<lparr>next_pid := v\<rparr>)"
  have t: "pid_taken v (s\<lparr>next_pid := v\<rparr>) \<longleftrightarrow> v \<in> numbers r s"
    using pid_taken_numbers [OF Suc.prems(3), of v "s\<lparr>next_pid := v\<rparr>"] Suc.prems(4) succ_pid_neq [of "next_pid s"]
    by (auto simp: v_def)
  have eq: "new_pid (Suc n) r s = (if v \<in> numbers r s then new_pid n r s' else Done s')"
    using t by (simp add: Let_def v_def [symmetric] s'_def)
  show ?case
  proof (cases "v \<in> numbers r s")
    case False
    then show ?thesis using Suc.prems(2) by (intro exI [of _ v] exI [of _ 1]) (simp add: eq s'_def v_def del: new_pid.simps)
  next
    case True
    obtain k' where k: "k = Suc k'" using Suc.prems(2) by (cases k) auto
    have sh: "(succ_pid ^^ m) v = (succ_pid ^^ Suc m) (next_pid s)" for m
      by (simp add: v_def funpow_swap1)
    have n': "next_pid s' = v" "numbers r s' = numbers r s" "mp_pid (tab s' r) = v" by (simp_all add: s'_def)
    have k': "k' \<in> {1..n}" using True Suc.prems(1,2) k by (cases k') (auto simp: v_def)
    have "(succ_pid ^^ k') (next_pid s') \<notin> numbers r s'" using Suc.prems(1) by (simp add: n' sh k del: funpow.simps)
    from Suc.IH [OF this k' Suc.prems(3)] obtain w j where
      j: "j \<in> {1..k'}" "w = (succ_pid ^^ j) v" "w \<notin> numbers r s"
        "new_pid n r s' = Done (upd_slot r (mp_pid_update (\<lambda>_. w)) (s'\<lparr>next_pid := w\<rparr>))"
      by (auto simp: n')
    have "upd_slot r (mp_pid_update (\<lambda>_. w)) (s'\<lparr>next_pid := w\<rparr>) =
        upd_slot r (mp_pid_update (\<lambda>_. w)) (s\<lparr>next_pid := w\<rparr>)"
      by (simp add: s'_def upd_slot_def)
    then show ?thesis
      using j True by (intro exI [of _ w] exI [of _ "Suc j"]) (simp add: eq k sh del: funpow.simps new_pid.simps)
  qed
qed simp

lemma new_pid_returns:
  assumes "pid_range (next_pid s)" "r \<in> {0..31}" "mp_pid (tab s r) \<in> numbers r s"
  shows "\<exists>v. new_pid 128 r s = Done (upd_slot r (mp_pid_update (\<lambda>_. v)) (s\<lparr>next_pid := v\<rparr>)) \<and>
    v \<notin> numbers r s \<and> 2 \<le> v \<and> v \<le> 30000"
proof -
  obtain k where "k \<in> {1..65}" "(succ_pid ^^ k) (next_pid s) \<notin> numbers r s"
    using free_number [OF assms(1)] by blast
  with new_pid_finds [of k s r 128] assms obtain v j where
    v: "1 \<le> j" "v = (succ_pid ^^ j) (next_pid s)" "v \<notin> numbers r s"
      "new_pid 128 r s = Done (upd_slot r (mp_pid_update (\<lambda>_. v)) (s\<lparr>next_pid := v\<rparr>))" by auto
  obtain m where "j = Suc m" using v(1) by (cases j) auto
  then have "v = (next_pid s - 1 + int m) mod 29999 + 2" using v(2) succ_pid_iter [OF assms(1)] by simp
  then show ?thesis using v pos_mod_bound [of 29999 "next_pid s - 1 + int m"] by auto
qed

subsection \<open>The new slot\<close>

definition fork_clicks :: "mm \<Rightarrow> u16" where
  "fork_clicks s = mem_len (mp_seg (tab s (mp s)) seg_S) +
     (mem_vir (mp_seg (tab s (mp s)) seg_S) - mem_vir (mp_seg (tab s (mp s)) seg_D))"

lemma add_child_ok:
  assumes ok: "mproc_ok s" "no_missed_wait s" and r: "r \<in> {0..31}" "r \<notin> used s"
    and s': "tab s' = (tab s)(r := x)" "procs_in_use s' = procs_in_use s + 1"
    and x: "has IN_USE (mp_flags x)" "\<not> has HANGING (mp_flags x)" "mp_parent x \<in> used s - {0, 1}"
    and v: "0 < mp_pid x" "mp_pid x \<le> 30000" "\<And>i. i \<in> used s \<Longrightarrow> mp_pid (tab s i) \<noteq> mp_pid x"
  shows "mproc_ok s'" "no_missed_wait s'" "used s' = insert r (used s)"
proof -
  note d = mproc_okD [OF ok(1)]
  have u: "used s' = insert r (used s)" using r x(1) by (auto simp: used_def s'(1))
  have old: "i \<noteq> r \<Longrightarrow> parent s' i = parent s i" "i \<noteq> r \<Longrightarrow> zombie s' i = zombie s i"
    "i \<noteq> r \<Longrightarrow> waiting s' i = waiting s i" "i \<noteq> r \<Longrightarrow> mp_pid (tab s' i) = mp_pid (tab s i)" for i
    by (auto simp: parent_def zombie_def waiting_def s'(1))
  have new: "parent s' r = mp_parent x" "\<not> zombie s' r" "mp_pid (tab s' r) = mp_pid x"
    using x(2) by (auto simp: parent_def zombie_def s'(1))
  have rf: "r \<notin> founders" using r(2) d(2) by auto
  have cnt: "procs_in_use s' = int (card (used s'))" using s'(2) d(1) r(2) by (simp add: u)
  have f1: "founders \<subseteq> used s'" using d(2) by (auto simp: u)
  have f2: "\<forall>i\<in>founders. parent s' i = 0 \<and> \<not> zombie s' i"
    using d(3,4) rf old by (metis (no_types, opaque_lifting))
  have par: "parent s' i \<in> used s' - {0, 1, i}" if i: "i \<in> used s' - founders" for i
  proof (cases "i = r")
    case True
    then show ?thesis using x(3) r(2) new(1) by (auto simp: u)
  next
    case False
    then show ?thesis using d(5) [of i] i old(1) by (auto simp: u)
  qed
  have z: "\<forall>i. 0 \<le> i \<longrightarrow> i \<le> 31 \<longrightarrow> zombie s' i \<longrightarrow> i \<in> used s'"
    using d(6) old(2) new(2) u by (metis insert_iff)
  have ids: "mp_pid (tab s' i) = mp_pid (tab s i)" if "i \<in> used s - {0, 1}" for i
    by (rule old(4)) (use that r(2) in auto)
  have "used s' - {0, 1} = insert r (used s - {0, 1})" using rf by (auto simp: u)
  moreover have "inj_on (\<lambda>i. mp_pid (tab s' i)) (used s - {0, 1})"
    using d(7) inj_on_cong [of "used s - {0, 1}" "\<lambda>i. mp_pid (tab s' i)" "\<lambda>i. mp_pid (tab s i)"] ids by simp
  moreover have neq: "mp_pid (tab s' r) \<noteq> mp_pid (tab s' i)" if "i \<in> used s - {0, 1}" for i
    using v(3) [of i] ids [OF that] new(3) that by auto
  ultimately have inj: "inj_on (\<lambda>i. mp_pid (tab s' i)) (used s' - {0, 1})"
    using neq by (auto simp: inj_on_insert)
  have rng: "\<forall>i\<in>used s' - {0, 1}. 0 < mp_pid (tab s' i) \<and> mp_pid (tab s' i) \<le> 30000"
    using d(8) ids v(1,2) new(3) by (auto simp: u)
  show "mproc_ok s'" unfolding mproc_ok_def using cnt f1 f2 par z inj rng by blast
  have "\<not> waiting s' (parent s' i)" if i: "i \<in> used s" "zombie s i" for i
  proof -
    have "i \<notin> founders" using d(4) i(2) by blast
    then have "parent s i \<in> used s" using d(5) [of i] i(1) by auto
    then show ?thesis using old i r(2) ok(2) unfolding no_missed_wait_def by metis
  qed
  then show "no_missed_wait s'" unfolding no_missed_wait_def u using new(2) old(2) r(2) by (metis insertE)
  show "used s' = insert r (used s)" by (rule u)
qed

lemma free_slot:
  assumes "mproc_ok s" "procs_in_use s \<noteq> NR_PROCS"
  obtains r where "find (\<lambda>i. \<not> has IN_USE (mp_flags (tab s i))) (slots 0) = Some r" "r \<in> {0..31}" "r \<notin> used s"
proof (cases "find (\<lambda>i. \<not> has IN_USE (mp_flags (tab s i))) (slots 0)")
  case None
  then have "used s = {0..31}" by (auto simp: find_None_iff used_def)
  then show ?thesis using assms mproc_okD(1) [OF assms(1)] by simp
next
  case (Some r)
  have "r \<in> set (slots 0)" "\<not> has IN_USE (mp_flags (tab s r))"
    by (rule find_split [OF Some]; simp)+
  then show ?thesis using that [OF Some] by (auto simp: used_def)
qed

lemma fork_refused:
  assumes "procs_in_use s = NR_PROCS \<or> (procs_in_use s \<ge> NR_PROCS - LAST_FEW \<and> mp_effuid (tab s (mp s)) \<noteq> 0) \<or>
      alloc_mem (holes s) (fork_clicks s) = Done (NO_MEM, holes s)"
  shows "do_fork e s = Done (EAGAIN, s)"
  using assms by (auto simp: do_fork_def Let_def fork_clicks_def)

lemma fork_granted:
  assumes a: "answers e" and ok: "mproc_ok s" "no_missed_wait s" "pid_range (next_pid s)"
    and w: "mp s = who s" "who s \<in> used s" "who s \<ge> 2" "alive s (who s)"
    and full: "\<not> (procs_in_use s = NR_PROCS \<or> (procs_in_use s \<ge> NR_PROCS - LAST_FEW \<and> mp_effuid (tab s (mp s)) \<noteq> 0))"
    and m: "alloc_mem (holes s) (fork_clicks s) = Done (b, h)" "b \<noteq> NO_MEM"
  shows "\<exists>r pid reply s'. do_fork e s = Done (pid, s') \<and> r \<notin> used s \<and> used s' = insert r (used s) \<and>
    mproc_ok s' \<and> no_missed_wait s' \<and> parent s' r = who s \<and> mp_pid (tab s' r) = pid \<and> next_pid s' = pid \<and>
    2 \<le> pid \<and> pid \<le> 30000 \<and>
    (\<forall>i\<in>{0..31} - {r}. mp_pid (tab s i) \<noteq> pid \<and> mp_procgrp (tab s i) \<noteq> pid) \<and>
    (\<forall>i. i \<noteq> r \<longrightarrow> tab s' i = tab s i) \<and> holes s' = h \<and>
    sent s' = sent s @ [SysFork (who s) r pid b, TellFs FORK_CALL (who s) r pid, Reply r reply] \<and> m_type reply = 0"
proof -
  obtain r where r: "find (\<lambda>i. \<not> has IN_USE (mp_flags (tab s i))) (slots 0) = Some r" "r \<in> {0..31}" "r \<notin> used s"
    using free_slot [OF ok(1)] full by blast
  define c where "c = child_slot (tab s (who s)) (who s)"
  define s1 where "s1 = upd_slot r (\<lambda>_. c) (s\<lparr>holes := h, procs_in_use := procs_in_use s + 1\<rparr>)"
  have wr: "who s \<noteq> r" "who s \<in> {0..31}" using w(2) r(3) by (auto simp: used_def)
  have s1_tab: "tab s1 = (tab s)(r := c)" "procs_in_use s1 = procs_in_use s + 1" "sent s1 = sent s" "who s1 = who s"
    "next_pid s1 = next_pid s" "holes s1 = h"
    by (simp_all add: s1_def fun_eq_iff)
  have "mp_pid (tab s1 r) = mp_pid (tab s1 (who s))" using wr by (simp add: s1_tab c_def child_slot_def)
  then have "mp_pid (tab s1 r) \<in> numbers r s1" using wr unfolding numbers_def by auto
  from new_pid_returns [OF _ r(2) this] ok(3) obtain v where
    v: "new_pid 128 r s1 = Done (upd_slot r (mp_pid_update (\<lambda>_. v)) (s1\<lparr>next_pid := v\<rparr>))"
      "v \<notin> numbers r s1" "2 \<le> v" "v \<le> 30000" by (auto simp: s1_tab)
  have others: "mp_pid (tab s i) \<noteq> v \<and> mp_procgrp (tab s i) \<noteq> v" if "i \<in> {0..31} - {r}" for i
  proof -
    have "mp_pid (tab s1 i) \<in> numbers r s1" "mp_procgrp (tab s1 i) \<in> numbers r s1"
      using that unfolding numbers_def by auto
    moreover have "tab s1 i = tab s i" using that by (simp add: s1_tab)
    ultimately show ?thesis using v(2) by auto
  qed
  define x where "x = c\<lparr>mp_pid := v, mp_procgrp := if who s = INIT_PROC_NR then v else mp_procgrp c\<rparr>"
  define s2 where "s2 = upd_slot r (\<lambda>_. x) (s1\<lparr>next_pid := v\<rparr>)"
  have s2: "(if who s = INIT_PROC_NR then upd_slot r (\<lambda>p. p\<lparr>mp_procgrp := mp_pid p\<rparr>)
        (upd_slot r (mp_pid_update (\<lambda>_. v)) (s1\<lparr>next_pid := v\<rparr>))
      else upd_slot r (mp_pid_update (\<lambda>_. v)) (s1\<lparr>next_pid := v\<rparr>)) = s2"
    by (cases c) (auto simp: s2_def x_def upd_slot_def s1_tab)
  define s3 where "s3 = say (TellFs FORK_CALL (who s) r v) (say (SysFork (who s) r v b) s2)"
  define s' where "s' = replied r 0 0 0 s3"
  have t3: "tab s3 = (tab s)(r := x)" by (simp add: s3_def s2_def s1_tab)
  have xf: "has IN_USE (mp_flags x)" "\<not> has HANGING (mp_flags x)" "mp_parent x = who s" "mp_pid x = v"
    using w(4) by (simp_all add: x_def c_def child_slot_def alive_def)
  have "alive s3 r" using xf by (simp add: alive_def t3)
  then obtain m where m': "sent s' = sent s3 @ [Reply r m]" "m_type m = 0"
    by (auto simp: s'_def replied_def Let_def)
  define s1v where "s1v = upd_slot r (mp_pid_update (\<lambda>_. v)) (s1\<lparr>next_pid := v\<rparr>)"
  have np2: "next_pid s2 = v" and "who s1v = who s" "who s2 = who s" "mp_pid (tab s2 r) = v"
    by (simp_all add: s2_def s1v_def s1_tab x_def)
  moreover have np: "next_pid s' = next_pid s2" by (simp add: s'_def s3_def)
  ultimately have start: "start_child e r b s1v = Done (v, s')"
    using s2 [folded s1v_def] by (simp add: start_child_def Let_def reply_eq [OF a] s3_def [symmetric] s'_def [symmetric])
  have "do_fork e s = andthen (new_pid 128 r s1) (start_child e r b)"
    using full m r(1) w(1) unfolding do_fork_def Let_def fork_clicks_def
    by (auto simp: s1_def [unfolded c_def])
  then have fork: "do_fork e s = Done (v, s')" using v(1) start by (simp add: s1v_def)
  have t': "tab s' = (tab s)(r := x)" "procs_in_use s' = procs_in_use s + 1" "holes s' = h"
    by (simp_all add: s'_def t3) (simp_all add: s3_def s2_def s1_tab)
  have par: "mp_parent x \<in> used s - {0, 1}" using w(2,3) xf(3) by auto
  have px: "0 < mp_pid x" "mp_pid x \<le> 30000" using v(3,4) xf(4) by auto
  have "mp_pid (tab s i) \<noteq> mp_pid x" if "i \<in> used s" for i
    using others [of i] that r(3) xf(4) in_used [OF that] by auto
  note ac = add_child_ok [OF ok(1,2) r(2,3) t'(1,2) xf(1,2) par px this]
  have "sent s' = sent s @ [SysFork (who s) r v b, TellFs FORK_CALL (who s) r v, Reply r m]"
    using m'(1) by (simp add: s3_def s2_def s1_tab)
  moreover have "parent s' r = who s" "mp_pid (tab s' r) = v" using xf by (simp_all add: parent_def t'(1))
  moreover have "\<forall>i. i \<noteq> r \<longrightarrow> tab s' i = tab s i" by (simp add: t'(1))
  ultimately show ?thesis using fork r(3) ac others v(3,4) t'(3) m'(2) np [unfolded np2] by blast
qed

end
