(* ===== verification/Mm_Core.thy ===== *)
theory Mm_Core
  imports Mm_State
begin

section \<open>Memory manager: files and core images\<close>

text \<open>
  \<open>allowed\<close> and \<open>mem_copy\<close> of mm/utility.c and \<open>dump_core\<close> of mm/signal.c.  A file is what the
  file system answers; the bytes written to a core image are not modelled, only how many are
  written and in which order the kernel and the file system are called.  The address of the
  memory manager's own buffer is only passed on and is 0 here.
\<close>

unbundle bit_operations_syntax

subsection \<open>Files\<close>

abbreviation (input) "R_BIT \<equiv> (4::u16)"
abbreviation (input) "W_BIT \<equiv> (2::u16)"
abbreviation (input) "X_BIT \<equiv> (1::u16)"
abbreviation (input) "I_TYPE \<equiv> (0xF000::u16)"
abbreviation (input) "I_REGULAR \<equiv> (0x8000::u16)"
abbreviation (input) "CHDIR_CALL \<equiv> (12::int)"

text \<open>The end of \<open>allowed\<close>: the file is open and its status is known.\<close>

definition permitted :: "mproc \<Rightarrow> file_stat \<Rightarrow> u16 \<Rightarrow> bool" where
  "permitted p st rwx \<longleftrightarrow>
     (if rwx = X_BIT \<and> st_mode st AND I_TYPE \<noteq> I_REGULAR then False
      else if mp_effuid p = SUPER_USER \<and> rwx = X_BIT \<and> st_mode st AND 0x49 \<noteq> 0 then True
      else
        let shift = (if mp_effuid p = st_uid st then 6 else if mp_effgid p = st_gid st then 3 else 0) in
        if mp_effuid p = SUPER_USER \<and> rwx \<noteq> X_BIT then True
        else drop_bit shift (st_mode st) AND rwx \<noteq> 0)"

definition allowed :: "env \<Rightarrow> string \<Rightarrow> u16 \<Rightarrow> mm \<Rightarrow> ((int + int \<times> file_stat) \<times> mm) run" where
  "allowed e name_buf rwx s =
     (let s = say (FsOpen name_buf) s; fd = fs_result e (sent s) in
      if fd < 0 then Done (Inl fd, s)
      else
        let s = say (FsFstat fd) s in
        if fs_result e (sent s) < 0 then Panics ''allowed: fstat failed''
        else
          let st = fs_stat e (sent s) in
          if permitted (tab s (mp s)) st rwx then Done (Inr (fd, st), s)
          else Done (Inl EACCES, say (FsClose fd) s))"

definition mem_copy :: "env \<Rightarrow> int \<Rightarrow> int \<Rightarrow> addr \<Rightarrow> int \<Rightarrow> int \<Rightarrow> addr \<Rightarrow> addr \<Rightarrow> mm \<Rightarrow> int \<times> mm" where
  "mem_copy e src_proc src_seg src_vir dst_proc dst_seg dst_vir bytes s =
     (if bytes = 0 then (OK, s)
      else let s = say (SysCopy src_proc src_seg src_vir dst_proc dst_seg dst_vir bytes) s
           in (kern_copy e (sent s), s))"

subsection \<open>Core images\<close>

abbreviation (input) "DUMP_SIZE \<equiv> (256::addr)"
abbreviation (input) "DUMPED \<equiv> (0x80::8 word)"
abbreviation (input) "MM_BUF \<equiv> (0::addr)"

text \<open>The kernel's process table entry, a long at a time until the kernel reports its end; the
  kernel's entry has less than 1024 longs.\<close>

abbreviation (input) "PROC_LONGS \<equiv> (1024::nat)"

fun dump_regs :: "nat \<Rightarrow> env \<Rightarrow> int \<Rightarrow> int \<Rightarrow> addr \<Rightarrow> addr \<Rightarrow> mm \<Rightarrow> mm run" where
  "dump_regs 0 e r slot trace_off trace_data s = Stuck"
| "dump_regs (Suc n) e r slot trace_off trace_data s =
     (let s = say (SysTrace 3 slot trace_off trace_data) s in
      case kern_trace e (sent s) of (st, trace_data) \<Rightarrow>
        if st = OK then dump_regs n e r slot (trace_off + 4) trace_data (say (FsWrite r 4) s) else Done s)"

text \<open>One segment; the result says whether all of it was written.\<close>

function dump_seg :: "env \<Rightarrow> int \<Rightarrow> int \<Rightarrow> int \<Rightarrow> addr \<Rightarrow> int \<Rightarrow> mm \<Rightarrow> bool \<times> mm" where
  "dump_seg e r slot i a c s =
     (if c > 0 then
        let ct = min c 256 in
        case mem_copy e slot i a 0 (int seg_D) MM_BUF (word_of_int ct) s of (er1, s) \<Rightarrow>
          let s = say (FsWrite r (word_of_int ct)) s; er2 = fs_result e (sent s) in
          if er1 < 0 \<or> er2 < 0 then (False, say (FsClose r) s)
          else dump_seg e r slot i (a + word_of_int ct) (c - ct) s
      else (True, s))"
  by pat_completeness auto
termination by (relation "measure (\<lambda>(e, r, slot, i, a, c, s). nat c)") auto

declare dump_seg.simps [simp del]

fun dump_segs :: "env \<Rightarrow> int \<Rightarrow> int \<Rightarrow> nat list \<Rightarrow> mm \<Rightarrow> mm" where
  "dump_segs e r slot [] s = say (FsClose r) s"
| "dump_segs e r slot (i # is) s =
     (let m = mp_seg (tab s slot) i;
          a = push_bit CLICK_SHIFT (ucast (mem_vir m));
          c = sint (push_bit CLICK_SHIFT (ucast (mem_len m)) :: addr)
      in case dump_seg e r slot (int i) a c s of
           (True, s) \<Rightarrow> dump_segs e r slot is s
         | (False, s) \<Rightarrow> s)"

definition fd_or_error :: "int + int \<times> file_stat \<Rightarrow> int" where
  "fd_or_error x = (case x of Inl err \<Rightarrow> err | Inr (fd, st) \<Rightarrow> fd)"

definition close_open :: "int \<Rightarrow> mm \<Rightarrow> mm" where
  "close_open fd s = (if fd \<ge> 0 then say (FsClose fd) s else s)"

lemma close_open_tab [simp]: "tab (close_open fd s) = tab s"
  by (simp add: close_open_def)

text \<open>The core file is open as \<open>r\<close>: the memory map, the kernel's entry and the segments.\<close>

definition write_core :: "env \<Rightarrow> int \<Rightarrow> int \<Rightarrow> mm \<Rightarrow> mm run" where
  "write_core e slot r s =
     (let s = upd_slot slot (mp_sigstatus_update (\<lambda>x. x OR DUMPED)) s;
          s = say (FsWrite r 18) s
      in if fs_result e (sent s) < 0 then Done (say (FsClose r) s)
      else andthen (dump_regs PROC_LONGS e r slot 0 0 s) (\<lambda>s. Done (dump_segs e r slot [seg_T, seg_D, seg_S] s)))"

definition dump_core :: "env \<Rightarrow> int \<Rightarrow> mm \<Rightarrow> mm run" where
  "dump_core e slot s =
     (let s = say (TellFs CHDIR_CALL slot 0 0) s in
      if mp_realuid (tab s slot) \<noteq> mp_effuid (tab s slot) then Done (say (TellFs CHDIR_CALL 0 1 0) s)
      else
        let xmp = mp s in
        andthen (allowed e ''core'' W_BIT (s\<lparr>mp := slot\<rparr>)) (\<lambda>(r, s).
        andthen (allowed e ''.'' W_BIT s) (\<lambda>(d, s).
        let s = s\<lparr>mp := xmp\<rparr>;
            r = fd_or_error r;
            d = fd_or_error d;
            s = close_open d (close_open r s);
            r = (if mp_effuid (tab s slot) = SUPER_USER then 0 else r)
        in if d \<ge> 0 \<and> (r \<ge> 0 \<or> r = ENOENT) then
             let s = say (FsCreat ''core'') s;
                 r = fs_result e (sent s);
                 s = say (TellFs CHDIR_CALL 0 1 0) s
             in if r < 0 then Done s else write_core e slot r s
           else Done (say (FsClose r) (say (TellFs CHDIR_CALL 0 1 0) s)))))"

end
