(* ===== verification/Mm_Signal.thy ===== *)
theory Mm_Signal
  imports Mm_Fork Mm_Break Mm_Core
begin

section \<open>Memory manager: signals and tracing\<close>

text \<open>
  mm/signal.c (\<open>set_alarm\<close> is in Mm_Exit, \<open>dump_core\<close> in Mm_Core), mm/trace.c and
  \<open>stack_fault\<close> of mm/break.c.  The lemmas describe which processes a signal can reach.
\<close>

unbundle bit_operations_syntax

abbreviation (input) "SIGALRM \<equiv> (14::int)"
abbreviation (input) "SIG_PUSH_BYTES \<equiv> (8::addr)"
abbreviation (input) "SIG_DFL \<equiv> (0::addr)"
abbreviation (input) "SIG_IGN \<equiv> (1::addr)"
abbreviation (input) "UNPAUSE_CALL \<equiv> (65::int)"

definition core_bits :: u16 where "core_bits = 0x0EFC"

text \<open>The singleton set \<open>1 << (sig - 1)\<close>.\<close>

definition sig_bit :: "int \<Rightarrow> u16" where
  "sig_bit sig_nr = push_bit (nat (sig_nr - 1)) 1"

subsection \<open>Tracing: stopping\<close>

definition stop_proc :: "env \<Rightarrow> int \<Rightarrow> int \<Rightarrow> mm \<Rightarrow> mm run" where
  "stop_proc e rmp sig_nr s =
     (let parent = mp_parent (tab s rmp);
          s = say (SysTrace (-1) rmp 0 0) s
      in if fst (kern_trace e (sent s)) \<noteq> OK then Done s
      else
        let s = set_flag STOPPED rmp s in
        if has WAITING (mp_flags (tab s parent)) then
          reply e parent (mp_pid (tab s rmp)) (sint (0x7F OR push_bit 8 (word_of_int sig_nr) :: u16)) 0
            (clear_flag WAITING parent s)
        else Done (upd_slot rmp (mp_sigstatus_update (\<lambda>_. word_of_int sig_nr)) s))"

subsection \<open>Delivering a signal\<close>

definition sig_default :: "env \<Rightarrow> int \<Rightarrow> int \<Rightarrow> mm \<Rightarrow> mm run" where
  "sig_default e rmp sig_nr s =
     (let core_file = (drop_bit (nat (sig_nr - 1)) core_bits AND 1 \<noteq> 0);
          s = upd_slot rmp (mp_sigstatus_update (\<lambda>_. word_of_int sig_nr)) s
      in andthen (if core_file then dump_core e rmp s else Done s) (mm_exit e rmp 0))"

definition sig_proc :: "env \<Rightarrow> int \<Rightarrow> int \<Rightarrow> mm \<Rightarrow> mm run" where
  "sig_proc e rmp sig_nr s =
     (if \<not> has IN_USE (mp_flags (tab s rmp)) then Done s
      else if has TRACED (mp_flags (tab s rmp)) \<and> sig_nr \<noteq> SIGKILL then stop_proc e rmp sig_nr s
      else if mp_catch (tab s rmp) AND sig_bit sig_nr \<noteq> 0 then
        let s = upd_slot rmp (mp_catch_update (\<lambda>c. c AND NOT (sig_bit sig_nr))) s;
            s = say (SysGetsp rmp) s;
            new_sp = kern_sp e (sent s) - SIG_PUSH_BYTES
        in case adjust rmp (mem_len (mp_seg (tab s rmp) seg_D)) new_sp s of (r, s) \<Rightarrow>
             if r = OK then Done (say (SysSig rmp sig_nr (mp_func (tab s rmp))) s)
             else sig_default e rmp sig_nr s
      else sig_default e rmp sig_nr s)"

definition unpause :: "env \<Rightarrow> int \<Rightarrow> mm \<Rightarrow> mm run" where
  "unpause e pro s =
     (let f = mp_flags (tab s pro) in
      if has PAUSED f \<and> \<not> has HANGING f then reply e pro EINTR 0 0 (clear_flag PAUSED pro s)
      else if has WAITING f \<and> \<not> has HANGING f then reply e pro EINTR 0 0 (clear_flag WAITING pro s)
      else Done (say (TellFs UNPAUSE_CALL pro 0 0) s))"

subsection \<open>Choosing the processes\<close>

text \<open>The flag \<open>send_sig\<close> after the tests at the top of the loop of check_sig.\<close>

definition send_sig :: "mproc \<Rightarrow> int \<Rightarrow> int \<Rightarrow> u16 \<Rightarrow> mproc \<Rightarrow> bool" where
  "send_sig caller proc_id sig_nr send_uid rmp =
     (let b = True;
          b = (if send_uid \<noteq> mp_effuid rmp \<and> send_uid \<noteq> SUPER_USER then False else b);
          b = (if proc_id > 0 \<and> proc_id \<noteq> mp_pid rmp then False else b);
          b = (if has HANGING (mp_flags rmp) then False else b);
          b = (if proc_id = 0 \<and> mp_procgrp caller \<noteq> mp_procgrp rmp then False else b);
          b = (if send_uid = SUPER_USER \<and> proc_id = -1 then True else b);
          b = (if mp_pid rmp = INIT_PID \<and> proc_id = -1 then False else b)
      in if mp_pid rmp = INIT_PID \<and> sig_nr = SIGKILL then False else b)"

fun sig_scan :: "env \<Rightarrow> int \<Rightarrow> int \<Rightarrow> u16 \<Rightarrow> int list \<Rightarrow> int \<Rightarrow> mm \<Rightarrow> (int \<times> mm) run" where
  "sig_scan e proc_id sig_nr send_uid [] count s = Done (count, s)"
| "sig_scan e proc_id sig_nr send_uid (i # is) count s =
     (if \<not> has IN_USE (mp_flags (tab s i)) then sig_scan e proc_id sig_nr send_uid is count s
      else
        let send = send_sig (tab s (mp s)) proc_id sig_nr send_uid (tab s i) in
        if sig_nr = SIGALRM \<and> \<not> has ALARM_ON (mp_flags (tab s i)) then sig_scan e proc_id sig_nr send_uid is count s
        else
          let s = (if sig_nr = SIGALRM \<and> send then clear_flag ALARM_ON i s else s) in
          if \<not> send then sig_scan e proc_id sig_nr send_uid is count s
          else if mp_ignore (tab s i) AND sig_bit sig_nr \<noteq> 0 then
            sig_scan e proc_id sig_nr send_uid is (count + 1) s
          else
            andthen (sig_proc e i sig_nr s) (\<lambda>s.
            andthen (unpause e i s) (\<lambda>s.
            if proc_id > 0 then Done (count + 1, s)
            else sig_scan e proc_id sig_nr send_uid is (count + 1) s)))"

definition check_sig :: "env \<Rightarrow> int \<Rightarrow> int \<Rightarrow> u16 \<Rightarrow> mm \<Rightarrow> (int \<times> mm) run" where
  "check_sig e proc_id sig_nr send_uid s =
     (if sig_nr < 1 \<or> sig_nr > NSIG then Done (EINVAL, s)
      else andthen (sig_scan e proc_id sig_nr send_uid (slots INIT_PROC_NR) 0 s) (\<lambda>(count, s).
        let f = mp_flags (tab s (mp s));
            s = (if \<not> has IN_USE f \<or> has HANGING f then s\<lparr>dont_reply := True\<rparr> else s)
        in Done (if count > 0 then OK else ESRCH, s)))"

definition do_kill :: "env \<Rightarrow> mm \<Rightarrow> (int \<times> mm) run" where
  "do_kill e s = check_sig e (w_i1 (mm_in s)) (w_i2 (mm_in s)) (mp_effuid (tab s (mp s))) s"

subsection \<open>Signals from the kernel\<close>

definition stack_fault :: "env \<Rightarrow> int \<Rightarrow> mm \<Rightarrow> mm run" where
  "stack_fault e proc_nr s =
     (let s = say (SysGetsp proc_nr) s;
          new_sp = kern_sp e (sent s) - 256
      in case adjust proc_nr (mem_len (mp_seg (tab s proc_nr) seg_D)) new_sp s of (r, s) \<Rightarrow>
           if r = OK then Done s
           else sig_proc e proc_nr SIGSEGV (upd_slot proc_nr (mp_catch_update (\<lambda>_. 0)) s))"

text \<open>One bit of the map; signal \<open>j\<close> is bit \<open>j - 1\<close>.\<close>

definition ksig_bit :: "env \<Rightarrow> int \<Rightarrow> int \<Rightarrow> u16 \<Rightarrow> int \<Rightarrow> mm \<Rightarrow> mm run" where
  "ksig_bit e proc_nr proc_id sig_map j s =
     (let id = (if j = SIGINT \<or> j = SIGQUIT then 0 else proc_id);
          id = (if j = SIGKILL then -1 else id)
      in if drop_bit (nat (j - 1)) sig_map AND 1 \<noteq> 0 then
           andthen (check_sig e id j SUPER_USER s) (\<lambda>(_, s). Done (say (SysSig proc_nr (-1) SIG_DFL) s))
         else Done s)"

definition do_ksig :: "env \<Rightarrow> mm \<Rightarrow> (int \<times> mm) run" where
  "do_ksig e s =
     (if who s \<noteq> HARDWARE then Done (EPERM, s)
      else
        let s = s\<lparr>dont_reply := True\<rparr>;
            proc_nr = w_i1 (mm_in s);
            f = mp_flags (tab s proc_nr)
        in if \<not> has IN_USE f \<or> has HANGING f then Done (OK, s)
        else
          let proc_id = mp_pid (tab s proc_nr);
              sig_map = word_of_int (w_i2 (mm_in s));
              s = s\<lparr>mp := 0\<rparr>;
              s = upd_slot 0 (mp_procgrp_update (\<lambda>_. mp_procgrp (tab s proc_nr))) s
          in andthen (if sig_map = sig_bit 16 then stack_fault e proc_nr s else Done s) (\<lambda>s.
             andthen (each (ksig_bit e proc_nr proc_id sig_map) [1..15] s) (\<lambda>s. Done (OK, s))))"

subsection \<open>signal, alarm and pause\<close>

definition do_signal :: "mm \<Rightarrow> int \<times> mm" where
  "do_signal s =
     (let sg = w_i1 (mm_in s); func = w_l2 (mm_in s); sigign = mp_ignore (tab s (mp s)) in
      if sg < 1 \<or> sg > NSIG then (EINVAL, s)
      else if sg = SIGKILL then (OK, s)
      else
        let m = sig_bit sg;
            s = upd_slot (mp s) (\<lambda>p.
              if func = SIG_IGN then p\<lparr>mp_ignore := mp_ignore p OR m, mp_catch := mp_catch p AND NOT m\<rparr>
              else if func = SIG_DFL then p\<lparr>mp_ignore := mp_ignore p AND NOT m, mp_catch := mp_catch p AND NOT m\<rparr>
              else p\<lparr>mp_ignore := mp_ignore p AND NOT m, mp_catch := mp_catch p OR m, mp_func := func\<rparr>) s
        in (if sigign AND m \<noteq> 0 then 1 else OK, s))"

definition do_alarm :: "env \<Rightarrow> mm \<Rightarrow> (int \<times> mm) run" where
  "do_alarm e s = set_alarm e (who s) (word_of_int (w_i1 (mm_in s))) s"

definition do_pause :: "mm \<Rightarrow> int \<times> mm" where
  "do_pause s = (OK, (set_flag PAUSED (mp s) s)\<lparr>dont_reply := True\<rparr>)"

subsection \<open>ptrace\<close>

definition findproc :: "int \<Rightarrow> mm \<Rightarrow> int option" where
  "findproc lpid s =
     find (\<lambda>i. has IN_USE (mp_flags (tab s i)) \<and> mp_pid (tab s i) = lpid) (slots (INIT_PROC_NR + 1))"

definition trace_answer :: "addr \<Rightarrow> mm \<Rightarrow> mm" where
  "trace_answer v s = s\<lparr>mm_out := (mm_out s)\<lparr>w_l2 := v\<rparr>\<rparr>"

definition trace_call :: "env \<Rightarrow> int \<Rightarrow> mm \<Rightarrow> (int \<times> mm) run" where
  "trace_call e child s =
     (let s = say (SysTrace (w_i2 (mm_in s)) child (w_l1 (mm_in s)) (w_l2 (mm_in s))) s in
      case kern_trace e (sent s) of (st, v) \<Rightarrow>
        let s = s\<lparr>mm_in := (mm_in s)\<lparr>w_l2 := v\<rparr>\<rparr> in
        if st \<noteq> OK then Done (st, s) else Done (OK, trace_answer v s))"

definition do_trace :: "env \<Rightarrow> mm \<Rightarrow> (int \<times> mm) run" where
  "do_trace e s =
     (let request = w_i2 (mm_in s); data = w_l2 (mm_in s) in
      if request = 0 then Done (OK, trace_answer 0 (set_flag TRACED (mp s) s))
      else
        case findproc (w_i1 (mm_in s)) s of
          None \<Rightarrow> Done (ESRCH, s)
        | Some child \<Rightarrow>
            if \<not> has STOPPED (mp_flags (tab s child)) then Done (ESRCH, s)
            else if request = 8 then
              andthen (mm_exit e child (sint data) s) (\<lambda>s. Done (OK, trace_answer 0 s))
            else if request = 7 then
              if sint data > NSIG then Done (EIO, s)
              else
                andthen (if sint data > 0 then
                    andthen (sig_proc e child (sint data) (clear_flag TRACED child s)) (\<lambda>s. Done (set_flag TRACED child s))
                  else Done s) (\<lambda>s. trace_call e child (clear_flag STOPPED child s))
            else trace_call e child s)"

end
