(* ===== verification/Mm_Reach.thy ===== *)
theory Mm_Reach
  imports Mm_Signal
begin

section \<open>Memory manager: whom a signal can reach\<close>

text \<open>
  A relation between the states before and after an operation: the identities of all processes
  are kept, and only processes of a given set are sent a signal or removed.  Every operation a
  signal involves respects it for the process the signal is for.
\<close>

subsection \<open>The relation\<close>

fun hits :: "mm_msg \<Rightarrow> int set" where
  "hits (SysSig p sg f) = {p}"
| "hits (SysXit q p) = {p}"
| "hits _ = {}"

definition same_ids :: "mm \<Rightarrow> mm \<Rightarrow> bool" where
  "same_ids s s' \<longleftrightarrow> (\<forall>i. mp_pid (tab s' i) = mp_pid (tab s i) \<and> mp_procgrp (tab s' i) = mp_procgrp (tab s i) \<and>
     mp_effuid (tab s' i) = mp_effuid (tab s i) \<and> mp_realuid (tab s' i) = mp_realuid (tab s i))"

definition reaches :: "int set \<Rightarrow> mm \<Rightarrow> mm \<Rightarrow> bool" where
  "reaches A s s' \<longleftrightarrow> mp s' = mp s \<and> who s' = who s \<and> mm_in s' = mm_in s \<and> same_ids s s' \<and>
     (\<exists>ms. sent s' = sent s @ ms \<and> (\<forall>m\<in>set ms. hits m \<subseteq> A))"

named_theorems reach_intros \<open>how the relation composes\<close>

lemma reaches_refl [simp, reach_intros]: "reaches A s s"
  by (simp add: reaches_def same_ids_def)

lemma reaches_trans [trans]: "reaches A s t \<Longrightarrow> reaches A t u \<Longrightarrow> reaches A s u"
  by (fastforce simp: reaches_def same_ids_def)

lemma reaches_mono: "reaches A s t \<Longrightarrow> A \<subseteq> B \<Longrightarrow> reaches B s t"
  by (auto simp: reaches_def)

lemma reaches_say [reach_intros]: "hits m \<subseteq> A \<Longrightarrow> reaches A s t \<Longrightarrow> reaches A s (say m t)"
  by (auto simp: reaches_def same_ids_def)

lemma reaches_upd:
  assumes "\<And>p. mp_pid (f p) = mp_pid p \<and> mp_procgrp (f p) = mp_procgrp p \<and> mp_effuid (f p) = mp_effuid p \<and>
    mp_realuid (f p) = mp_realuid p" and "reaches A s t"
  shows "reaches A s (upd_slot i f t)"
  using assms by (auto simp: reaches_def same_ids_def)

lemma reaches_slot [reach_intros]:
  assumes "reaches A s t"
  shows "reaches A s (set_flag g i t)" "reaches A s (clear_flag g i t)"
    "reaches A s (upd_slot i (mp_parent_update f1) t)" "reaches A s (upd_slot i (mp_exitstatus_update f2) t)"
    "reaches A s (upd_slot i (mp_sigstatus_update f2) t)" "reaches A s (upd_slot i (mp_catch_update f3) t)"
    "reaches A s (upd_slot i (mp_seg_update f4) t)"
    "reaches A s (t\<lparr>procs_in_use := n\<rparr>)" "reaches A s (t\<lparr>mm_out := m\<rparr>)" "reaches A s (t\<lparr>dont_reply := b\<rparr>)"
    "reaches A s (t\<lparr>holes := h\<rparr>)"
  using assms by (auto simp: set_flag_def clear_flag_def intro!: reaches_upd)
    (auto simp: reaches_def same_ids_def)

lemma reaches_each:
  assumes "each f xs t = Done u" and "\<And>x t u. x \<in> set xs \<Longrightarrow> f x t = Done u \<Longrightarrow> reaches A (g t) (g u)"
  shows "reaches A (g t) (g u)"
  using assms
proof (induction xs arbitrary: t)
  case (Cons x xs)
  obtain t' where t': "f x t = Done t'" "each f xs t' = Done u" using Cons.prems(1) by (auto simp: outcome_simps)
  have "reaches A (g t) (g t')" by (rule Cons.prems(2) [OF _ t'(1)]) simp
  moreover have "reaches A (g t') (g u)" by (rule Cons.IH [OF t'(2)]) (rule Cons.prems(2), simp_all)
  ultimately show ?case by (rule reaches_trans)
qed simp

subsection \<open>Operations that reach nobody\<close>

lemma reply_reaches: "reply e p r r2 a t = Done u \<Longrightarrow> reaches A t u"
  by (auto simp: reply_def Let_def split: if_split_asm intro!: reach_intros)

lemma set_alarm_reaches: "set_alarm e p sec t = Done (r, u) \<Longrightarrow> reaches A t u"
  by (auto simp: set_alarm_def Let_def split: if_split_asm prod.split_asm intro!: reach_intros)

lemma cleanup_reaches: "cleanup e n c t = Done u \<Longrightarrow> reaches A t u"
proof (induction n arbitrary: c t u)
  case (Suc n)
  obtain t1 t3 b b' where r: "reply e (mp_parent (tab t c)) (mp_pid (tab t c)) (wait_status (tab t c)) 0 t = Done t1"
    and l: "each (adopt (cleanup e n) c) (slots 0) (b,
      (clear_flag IN_USE c (clear_flag WAITING (mp_parent (tab t c)) (clear_flag PAUSED c (clear_flag HANGING c
        (clear_flag TRACED c t1)))))\<lparr>procs_in_use := procs_in_use t1 - 1\<rparr>) = Done (b', u)"
    using Suc.prems by (auto simp: Let_def outcome_simps)
  have "reaches A (snd p) (snd q)" if "adopt (cleanup e n) c x p = Done q" for x p q
  proof -
    obtain b1 s1 b2 s2 where pq: "p = (b1, s1)" "q = (b2, s2)" by fastforce
    let ?s = "upd_slot x (mp_parent_update (\<lambda>_. INIT_PROC_NR)) s1"
    have "reaches A s1 ?s" by (intro reach_intros)
    moreover from that have "s2 = s1 \<or> s2 = ?s \<or> cleanup e n x ?s = Done s2"
      by (auto simp: pq adopt_def Let_def outcome_simps split: if_split_asm)
    ultimately show ?thesis unfolding pq snd_conv using Suc.IH reaches_trans reaches_refl by metis
  qed
  from reaches_each [where g = snd, OF l this] have
    "reaches A ((clear_flag IN_USE c (clear_flag WAITING (mp_parent (tab t c)) (clear_flag PAUSED c (clear_flag HANGING c
        (clear_flag TRACED c t1)))))\<lparr>procs_in_use := procs_in_use t1 - 1\<rparr>) u" by (simp only: snd_conv)
  with reaches_slot(8) [OF reaches_slot(2) [OF reaches_slot(2) [OF reaches_slot(2) [OF reaches_slot(2)
    [OF reaches_slot(2) [OF reply_reaches [OF r]]]]]]]
  show ?case by (rule reaches_trans)
qed simp

lemma adjust_reaches: "adjust p dc sp t = (r, u) \<Longrightarrow> reaches A t u"
  by (auto simp: adjust_def Let_def split: if_split_asm intro!: reach_intros)

lemma allowed_reaches: "allowed e f m t = Done (r, u) \<Longrightarrow> reaches A t u"
  by (auto simp: allowed_def Let_def split: if_split_asm intro!: reach_intros)

lemma mem_copy_reaches: "mem_copy e a b c d f g n t = (r, u) \<Longrightarrow> reaches A t u"
  by (auto simp: mem_copy_def Let_def split: if_split_asm intro!: reach_intros)

lemma dump_regs_reaches: "dump_regs n e r slot off d t = Done u \<Longrightarrow> reaches A t u"
proof (induction n arbitrary: off d t)
  case (Suc n)
  let ?s = "say (SysTrace 3 slot off d) t"
  have "reaches A t ?s" "reaches A t (say (FsWrite r 4) ?s)" by (auto intro!: reach_intros)
  moreover from Suc.prems have "u = ?s \<or> (\<exists>d'. dump_regs n e r slot (off + 4) d' (say (FsWrite r 4) ?s) = Done u)"
    by (auto simp: Let_def split: prod.split_asm if_split_asm)
  ultimately show ?case using Suc.IH reaches_trans by metis
qed simp

lemma dump_seg_reaches: "dump_seg e r slot i a c t = (b, u) \<Longrightarrow> reaches A t u"
proof (induction e r slot i a c t rule: dump_seg.induct)
  case (1 e r slot i a c s)
  obtain er1 s1 where m: "mem_copy e slot i a 0 (int seg_D) MM_BUF (word_of_int (min c 256)) s = (er1, s1)" by fastforce
  have s1: "reaches A s (say (FsWrite r (word_of_int (min c 256))) s1)"
    by (rule reaches_say) (simp_all add: mem_copy_reaches [OF m])
  show ?case
  proof (cases "c > 0 \<and> \<not> (er1 < 0 \<or> fs_result e (sent (say (FsWrite r (word_of_int (min c 256))) s1)) < 0)")
    case True
    then have "dump_seg e r slot i (a + word_of_int (min c 256)) (c - min c 256)
        (say (FsWrite r (word_of_int (min c 256))) s1) = (b, u)"
      using "1.prems" m by (simp add: dump_seg.simps [of e r slot i a c s] Let_def)
    with "1.IH" [OF _ refl m [symmetric] refl refl] True have
      "reaches A (say (FsWrite r (word_of_int (min c 256))) s1) u" by simp
    with s1 show ?thesis by (rule reaches_trans)
  next
    case False
    then show ?thesis
      using "1.prems" m s1 by (auto simp: dump_seg.simps [of e r slot i a c s] Let_def split: if_split_asm intro!: reaches_say)
  qed
qed

lemma dump_segs_reaches: "reaches A t (dump_segs e r slot is t)"
proof (induction "is" arbitrary: t)
  case (Cons i "is")
  define a c where "a = (push_bit CLICK_SHIFT (ucast (mem_vir (mp_seg (tab t slot) i))) :: addr)"
    and "c = sint (push_bit CLICK_SHIFT (ucast (mem_len (mp_seg (tab t slot) i))) :: addr)"
  obtain b u where d: "dump_seg e r slot (int i) a c t = (b, u)" by fastforce
  have "reaches A t u" by (rule dump_seg_reaches [OF d])
  moreover have "dump_segs e r slot (i # is) t = (if b then dump_segs e r slot is u else u)"
    using d by (simp add: Let_def a_def c_def)
  ultimately show ?case using Cons.IH [of u] reaches_trans by (metis (full_types))
qed (auto intro!: reach_intros)

lemma reaches_mp: "reaches A (s\<lparr>mp := a\<rparr>) u \<Longrightarrow> reaches A s (u\<lparr>mp := mp s\<rparr>)"
  by (auto simp: reaches_def same_ids_def)

lemma write_core_reaches:
  assumes "write_core e slot r t = Done u"
  shows "reaches A t u"
proof -
  define t1 where "t1 = say (FsWrite r 18) (upd_slot slot (mp_sigstatus_update (\<lambda>x. x OR DUMPED)) t)"
  have r1: "reaches A t t1" "reaches A t (say (FsClose r) t1)" unfolding t1_def by (auto intro!: reach_intros)
  have "u = say (FsClose r) t1 \<or>
      (\<exists>t2. dump_regs PROC_LONGS e r slot 0 0 t1 = Done t2 \<and> u = dump_segs e r slot [seg_T, seg_D, seg_S] t2)"
    using assms unfolding write_core_def Let_def t1_def [symmetric]
    by (auto simp: outcome_simps simp del: dump_segs.simps split: if_split_asm)
  with r1 show ?thesis using dump_regs_reaches dump_segs_reaches reaches_trans by metis
qed

lemma dump_core_reaches:
  assumes "dump_core e slot t = Done u"
  shows "reaches A t u"
proof -
  define t1 where "t1 = say (TellFs CHDIR_CALL slot 0 0) t"
  have r1: "reaches A t t1" unfolding t1_def by (auto intro!: reach_intros)
  have mp1: "mp t1 = mp t" by (simp add: t1_def)
  show ?thesis
  proof (cases "mp_realuid (tab t1 slot) = mp_effuid (tab t1 slot)")
    case False
    then show ?thesis using assms by (auto simp: dump_core_def t1_def [symmetric] intro!: reach_intros r1)
  next
    case True
    obtain r d t2 t3 where al: "allowed e ''core'' W_BIT (t1\<lparr>mp := slot\<rparr>) = Done (r, t2)" "allowed e ''.'' W_BIT t2 = Done (d, t3)"
      using assms True by (auto simp: dump_core_def t1_def [symmetric] outcome_simps Let_def)
    define t4 where "t4 = close_open (fd_or_error d) (close_open (fd_or_error r) (t3\<lparr>mp := mp t1\<rparr>))"
    have "reaches A (t1\<lparr>mp := slot\<rparr>) t3" using al allowed_reaches reaches_trans by blast
    then have "reaches A t1 (t3\<lparr>mp := mp t1\<rparr>)" by (rule reaches_mp)
    then have "reaches A t1 t4" unfolding t4_def close_open_def by (auto intro!: reach_intros)
    with r1 have r4: "reaches A t t4" by (rule reaches_trans)
    define t5 where "t5 = say (FsCreat ''core'') t4"
    define t6 where "t6 = say (TellFs CHDIR_CALL 0 1 0) t5"
    have r6: "reaches A t t6" unfolding t6_def t5_def by (intro reach_intros r4) simp_all
    have "u = t6 \<or> write_core e slot (fs_result e (sent t5)) t6 = Done u \<or>
        (\<exists>q. u = say (FsClose q) (say (TellFs CHDIR_CALL 0 1 0) t4))"
      using assms True al unfolding dump_core_def Let_def t1_def [symmetric]
      by (simp add: t4_def [symmetric] t5_def [symmetric] t6_def [symmetric] del: say_simps split: if_split_asm) auto
    then show ?thesis
    proof (elim disjE exE)
      assume "write_core e slot (fs_result e (sent t5)) t6 = Done u"
      with r6 show ?thesis using write_core_reaches reaches_trans by blast
    next
      fix q
      assume "u = say (FsClose q) (say (TellFs CHDIR_CALL 0 1 0) t4)"
      with r4 show ?thesis by (auto intro!: reach_intros)
    qed (use r6 in simp)
  qed
qed

lemma mm_exit_reaches:
  assumes "mm_exit e p status t = Done u" and "p \<in> A"
  shows "reaches A t u"
proof -
  define t1 where "t1 = upd_slot p (mp_exitstatus_update (\<lambda>_. word_of_int status)) t"
  obtain t2 where t2: "(if has WAITING (mp_flags (tab t1 (mp_parent (tab t1 p)))) then cleanup e DEPTH p t1
      else Done (set_flag HANGING p t1)) = Done t2" and rest: "\<exists>t3 h. (if has ALARM_ON (mp_flags (tab t2 p))
      then andthen (set_alarm e p 0 t2) (\<lambda>(_, s). Done s) else Done t2) = Done t3 \<and>
      u = say (TellFs EXIT_CALL p 0 0) ((say (SysXit (mp_parent (tab t3 p)) p) t3)\<lparr>holes := h\<rparr>)"
    using assms(1) unfolding mm_exit_def Let_def t1_def [symmetric]
    by (auto simp: outcome_simps case_prod_unfold simp del: cleanup.simps)
  have "reaches A t t1" unfolding t1_def by (intro reach_intros reaches_refl)
  moreover have "reaches A t1 t2"
    using t2 cleanup_reaches by (auto simp del: cleanup.simps split: if_split_asm intro!: reach_intros)
  moreover obtain t3 h where t3: "(if has ALARM_ON (mp_flags (tab t2 p))
      then andthen (set_alarm e p 0 t2) (\<lambda>(_, s). Done s) else Done t2) = Done t3"
    and u: "u = say (TellFs EXIT_CALL p 0 0) ((say (SysXit (mp_parent (tab t3 p)) p) t3)\<lparr>holes := h\<rparr>)"
    using rest by blast
  moreover have "reaches A t2 t3"
    using t3 set_alarm_reaches by (auto simp: outcome_simps split: if_split_asm)
  ultimately have "reaches A t t3" using reaches_trans by blast
  then show ?thesis unfolding u using assms(2) by (auto intro!: reach_intros)
qed

subsection \<open>Operations that reach one process\<close>

lemma stop_proc_reaches:
  assumes "stop_proc e p sg t = Done u"
  shows "reaches A t u"
proof -
  define t1 where "t1 = say (SysTrace (-1) p 0 0) t"
  have r1: "reaches A t t1" unfolding t1_def by (auto intro!: reach_intros)
  have "reaches A t (set_flag STOPPED p t1)" "reaches A t (clear_flag WAITING (mp_parent (tab t p)) (set_flag STOPPED p t1))"
    by (intro reach_intros r1)+
  with r1 assms show ?thesis
    by (auto simp: stop_proc_def t1_def [symmetric] Let_def split: if_split_asm intro!: reach_intros
        dest!: reply_reaches [where A = A] intro: reaches_trans)
qed

lemma sig_default_reaches:
  assumes "sig_default e p sg t = Done u" and "p \<in> A"
  shows "reaches A t u"
proof -
  define t1 where "t1 = upd_slot p (mp_sigstatus_update (\<lambda>_. word_of_int sg)) t"
  have r1: "reaches A t t1" unfolding t1_def by (intro reach_intros reaches_refl)
  obtain t2 where "t2 = t1 \<or> dump_core e p t1 = Done t2" and t2: "mm_exit e p 0 t2 = Done u"
    using assms(1) by (auto simp: sig_default_def Let_def t1_def outcome_simps split: if_split_asm)
  then have "reaches A t1 t2" using dump_core_reaches by auto
  with r1 mm_exit_reaches [OF t2 assms(2)] show ?thesis using reaches_trans by blast
qed

lemma sig_proc_reaches:
  assumes "sig_proc e p sg t = Done u" and "p \<in> A"
  shows "reaches A t u"
proof -
  define t1 where "t1 = say (SysGetsp p) (upd_slot p (mp_catch_update (\<lambda>c. c AND NOT (sig_bit sg))) t)"
  have r1: "reaches A t t1" unfolding t1_def by (auto intro!: reach_intros)
  obtain r t2 where t2: "adjust p (mem_len (mp_seg (tab t1 p) seg_D)) (kern_sp e (sent t1) - SIG_PUSH_BYTES) t1 = (r, t2)"
    by fastforce
  have r2: "reaches A t t2" using r1 adjust_reaches [OF t2] reaches_trans by blast
  have "u = t \<or> stop_proc e p sg t = Done u \<or> sig_default e p sg t = Done u \<or>
      u = say (SysSig p sg (mp_func (tab t2 p))) t2 \<or> sig_default e p sg t2 = Done u"
    using assms(1) t2 unfolding sig_proc_def Let_def t1_def [symmetric] by (auto split: if_split_asm)
  then show ?thesis
    using r2 assms(2) stop_proc_reaches sig_default_reaches reaches_trans
    by (elim disjE) (auto intro!: reach_intros | blast)+
qed

lemma unpause_reaches:
  assumes "unpause e p t = Done u"
  shows "reaches A t u"
proof -
  have "reaches A t (clear_flag f p t)" for f by (intro reach_intros reaches_refl)
  then show ?thesis
    using assms by (auto simp: unpause_def Let_def split: if_split_asm intro!: reach_intros
        dest!: reply_reaches [where A = A] intro: reaches_trans)
qed

subsection \<open>Whom check_sig signals\<close>

definition may_reach :: "mm \<Rightarrow> int \<Rightarrow> int \<Rightarrow> u16 \<Rightarrow> int \<Rightarrow> bool" where
  "may_reach s proc_id sig_nr uid i \<longleftrightarrow>
     (uid = SUPER_USER \<or> mp_effuid (tab s i) = uid) \<and> (proc_id > 0 \<longrightarrow> mp_pid (tab s i) = proc_id) \<and>
     (proc_id = 0 \<longrightarrow> mp_procgrp (tab s i) = mp_procgrp (tab s (mp s))) \<and>
     (mp_pid (tab s i) = INIT_PID \<longrightarrow> proc_id \<noteq> -1 \<and> sig_nr \<noteq> SIGKILL)"

lemma send_sig_may_reach:
  "send_sig (tab s (mp s)) proc_id sig_nr uid (tab s i) \<Longrightarrow> may_reach s proc_id sig_nr uid i"
  by (auto simp: send_sig_def may_reach_def split: if_split_asm)

lemma may_reach_cong: "reaches A s t \<Longrightarrow> may_reach t = may_reach s"
  by (auto simp: reaches_def same_ids_def may_reach_def fun_eq_iff)

lemma sig_scan_step:
  assumes "sig_scan e pid sg uid (i # is) n s = Done (m, u)"
  shows "(\<exists>k s1. reaches {} s s1 \<and> sig_scan e pid sg uid is k s1 = Done (m, u)) \<or>
    (\<exists>s1 s2 s3. reaches {} s s1 \<and> send_sig (tab s (mp s)) pid sg uid (tab s i) \<and> sig_proc e i sg s1 = Done s2 \<and>
      unpause e i s2 = Done s3 \<and> (u = s3 \<or> sig_scan e pid sg uid is (n + 1) s3 = Done (m, u)))"
proof -
  define s1 where "s1 = (if sg = SIGALRM \<and> send_sig (tab s (mp s)) pid sg uid (tab s i) then clear_flag ALARM_ON i s else s)"
  have "reaches {} s s1" unfolding s1_def by (auto intro!: reach_intros)
  moreover have "reaches {} s s" by simp
  moreover from assms have "(\<exists>k. sig_scan e pid sg uid is k s = Done (m, u)) \<or> (\<exists>k. sig_scan e pid sg uid is k s1 = Done (m, u)) \<or>
    (\<exists>s2 s3. send_sig (tab s (mp s)) pid sg uid (tab s i) \<and> sig_proc e i sg s1 = Done s2 \<and>
      unpause e i s2 = Done s3 \<and> (u = s3 \<or> sig_scan e pid sg uid is (n + 1) s3 = Done (m, u)))"
    unfolding sig_scan.simps Let_def s1_def [symmetric] by (auto simp: outcome_simps split: if_split_asm)
  ultimately show ?thesis by blast
qed

lemma sig_scan_reaches:
  assumes "sig_scan e pid sg uid is n s = Done (m, u)"
  shows "reaches {i\<in>set is. may_reach s pid sg uid i} s u"
  using assms
proof (induction "is" arbitrary: n s)
  case (Cons i "is")
  let ?A = "{j\<in>set (i # is). may_reach s pid sg uid j}"
  have tail: "reaches ?A s u" if "reaches ?A s t" "sig_scan e pid sg uid is k t = Done (m, u)" for t k
    using reaches_trans [OF that(1) reaches_mono [OF Cons.IH [OF that(2)]]] may_reach_cong [OF that(1)] by auto
  consider (skip) k s1 where "reaches {} s s1" "sig_scan e pid sg uid is k s1 = Done (m, u)"
    | (send) s1 s2 s3 where "reaches {} s s1" "send_sig (tab s (mp s)) pid sg uid (tab s i)" "sig_proc e i sg s1 = Done s2"
      "unpause e i s2 = Done s3" "u = s3 \<or> sig_scan e pid sg uid is (n + 1) s3 = Done (m, u)"
    using sig_scan_step [OF Cons.prems] by blast
  then show ?case
  proof cases
    case skip
    then show ?thesis using tail reaches_mono by (metis empty_subsetI)
  next
    case send
    have "i \<in> ?A" using send_sig_may_reach [OF send(2)] by simp
    then have "reaches ?A s s3"
      using reaches_mono [OF send(1), of ?A] sig_proc_reaches [OF send(3), of ?A] unpause_reaches [OF send(4), of ?A] reaches_trans
      by blast
    with send(5) tail show ?thesis by auto
  qed
qed simp

lemma check_sig_reaches:
  assumes "check_sig e pid sg uid s = Done (r, u)"
  shows "reaches {i\<in>{2..31}. may_reach s pid sg uid i} s u"
proof (cases "sg < 1 \<or> sg > NSIG")
  case True
  then show ?thesis using assms by (auto simp: check_sig_def)
next
  case False
  then obtain m t where t: "sig_scan e pid sg uid (slots INIT_PROC_NR) 0 s = Done (m, t)" "u = t \<or> u = t\<lparr>dont_reply := True\<rparr>"
    using assms by (auto simp: check_sig_def outcome_simps Let_def)
  have "reaches {i\<in>{2..31}. may_reach s pid sg uid i} s t" using sig_scan_reaches [OF t(1)] by simp
  then show ?thesis using t(2) reaches_slot(10) by blast
qed

text \<open>With nobody to signal, the table is left alone.\<close>

lemma sig_scan_none:
  assumes "\<And>i. i \<in> set is \<Longrightarrow> has IN_USE (mp_flags (tab s i)) \<Longrightarrow> \<not> send_sig (tab s (mp s)) pid sg uid (tab s i)"
  shows "sig_scan e pid sg uid is n s = Done (n, s)"
  using assms by (induction "is") auto

end
