(* ===== verification/Mm_Exec.thy ===== *)
theory Mm_Exec
  imports Mm_Core Mm_Break
begin

section \<open>Memory manager: exec\<close>

text \<open>
  mm/exec.c for the 68000.  The contents of the file and of the caller's stack come from the
  environment.  A \<open>read\<close> that would run over its buffer is \<open>Stuck\<close>.  The loops that read
  the file have fuel: a segment has less than 2 ^ 24 bytes (the address space), and the
  relocation loop stops at the end of the file.
\<close>

unbundle bit_operations_syntax

abbreviation (input) "ARG_BYTES \<equiv> (4096::addr)"
abbreviation (input) "PATH_MAX \<equiv> (255::int)"
abbreviation (input) "HDR_SIZE \<equiv> (32::int)"
abbreviation (input) "MAGIC \<equiv> (0x04000301::addr)"
abbreviation (input) "SEP \<equiv> (0x00200000::addr)"
abbreviation (input) "I_SET_UID_BIT \<equiv> (0x800::u16)"
abbreviation (input) "I_SET_GID_BIT \<equiv> (0x400::u16)"
abbreviation (input) "SETUID_CALL \<equiv> (23::int)"
abbreviation (input) "SETGID_CALL \<equiv> (46::int)"

text \<open>\<open>(x + CLICK_SIZE - 1) >> CLICK_SHIFT\<close> in 16 bits.\<close>

definition clicks_up :: "addr \<Rightarrow> u16" where
  "clicks_up x = click_of (x + 255)"

text \<open>\<open>read\<close> into a buffer of the memory manager: the number of bytes, or -1, and the bytes.\<close>

definition read_fs :: "env \<Rightarrow> int \<Rightarrow> addr \<Rightarrow> mm \<Rightarrow> int \<times> 8 word list \<times> mm" where
  "read_fs e fd n s =
     (let s = say (FsRead fd MM_BUF n) s in
      if fs_result e (sent s) < 0 then (-1, [], s)
      else let d = take (unat n) (fs_data e (sent s)) in (int (length d), d, s))"

definition be_long :: "8 word list \<Rightarrow> addr" where
  "be_long bs = fold (\<lambda>b v. push_bit 8 v OR ucast b) bs 0"

definition nth_long :: "8 word list \<Rightarrow> nat \<Rightarrow> addr" where
  "nth_long bs i = be_long (take 4 (drop (4 * i) bs))"

subsection \<open>The header\<close>

record exec_hdr =
  h_ft :: u16
  h_text :: addr
  h_data :: addr
  h_bss :: addr
  h_tot :: addr
  h_sym :: addr

text \<open>The sizes after the correction for text that is not separate.\<close>

definition exec_sizes :: "8 word list \<Rightarrow> exec_hdr" where
  "exec_sizes buf =
     (let ft = (if nth_long buf 0 AND SEP \<noteq> 0 then SEPARATE else 0);
          text_bytes = nth_long buf 2;
          data_bytes = nth_long buf 3;
          tot_bytes = nth_long buf 6
      in if ft \<noteq> SEPARATE then
           let data_bytes = data_bytes + text_bytes;
               text_bytes = push_bit CLICK_SHIFT (drop_bit CLICK_SHIFT text_bytes)
           in \<lparr>h_ft = ft, h_text = text_bytes, h_data = data_bytes - text_bytes, h_bss = nth_long buf 4,
                h_tot = tot_bytes - text_bytes, h_sym = nth_long buf 7\<rparr>
         else \<lparr>h_ft = ft, h_text = text_bytes, h_data = data_bytes, h_bss = nth_long buf 4, h_tot = tot_bytes,
                h_sym = nth_long buf 7\<rparr>)"

definition read_header :: "env \<Rightarrow> int \<Rightarrow> u16 \<Rightarrow> mm \<Rightarrow> ((int + exec_hdr) \<times> mm) run" where
  "read_header e fd sc s =
     (case read_fs e fd (word_of_int HDR_SIZE) s of (n, buf, s) \<Rightarrow>
      if n \<noteq> HDR_SIZE then Done (Inl ENOEXEC, s)
      else if nth_long buf 0 AND 0xFF0FFFFF \<noteq> MAGIC then Done (Inl ENOEXEC, s)
      else if nth_long buf 6 = 0 then Done (Inl ENOEXEC, s)
      else
        let h = exec_sizes buf;
            tc = clicks_up (h_text h);
            dc = clicks_up (h_data h + h_bss h);
            totc = clicks_up (h_tot h)
        in if dc \<ge> totc then Done (Inl ENOEXEC, s)
        else
          let dvir = (if h_ft h = SEPARATE then 0 else tc);
              s_vir = dvir + (totc - sc);
              m = size_ok (h_ft h) tc dc sc dvir s_vir;
              ct = uint (nth_long buf 1 AND 0xFF)
          in if ct > HDR_SIZE then
               let s = say (FsRead fd MM_BUF (word_of_int (ct - HDR_SIZE))) s in
               if ct - HDR_SIZE > HDR_SIZE then Stuck
               else Done (if m < 0 then Inl m else Inr h, s)
             else Done (if m < 0 then Inl m else Inr h, s))"

subsection \<open>Memory for the new image\<close>

definition new_segs :: "u16 \<Rightarrow> u16 \<Rightarrow> u16 \<Rightarrow> u16 \<Rightarrow> u16 \<Rightarrow> nat \<Rightarrow> mem_map" where
  "new_segs new_base text_clicks data_clicks gap_clicks stack_clicks =
     (let d = new_base + text_clicks; st = d + data_clicks + gap_clicks in
      (\<lambda>_. \<lparr>mem_vir = 0, mem_phys = 0, mem_len = 0\<rparr>)
        (seg_T := \<lparr>mem_vir = new_base, mem_phys = new_base, mem_len = text_clicks\<rparr>,
         seg_D := \<lparr>mem_vir = d, mem_phys = d, mem_len = data_clicks\<rparr>,
         seg_S := \<lparr>mem_vir = st, mem_phys = st, mem_len = stack_clicks\<rparr>))"

definition new_mem :: "env \<Rightarrow> addr \<Rightarrow> addr \<Rightarrow> addr \<Rightarrow> addr \<Rightarrow> addr \<Rightarrow> mm \<Rightarrow> (int \<times> mm) run" where
  "new_mem e text_bytes data_bytes bss_bytes stk_bytes tot_bytes s =
     (let text_clicks = clicks_up text_bytes;
          data_clicks = clicks_up (data_bytes + bss_bytes);
          stack_clicks = clicks_up stk_bytes;
          tot_clicks = clicks_up tot_bytes;
          gap_clicks = tot_clicks - data_clicks - stack_clicks
      in if sint gap_clicks < 0 then Done (ENOMEM, s)
      else andthen (max_hole (holes s)) (\<lambda>m.
      if text_clicks + tot_clicks > m then Done (EAGAIN, s)
      else andthen (alloc_mem (holes s) (text_clicks + tot_clicks)) (\<lambda>(new_base, h).
      if new_base = NO_MEM then Panics ''MM hole list is inconsistent''
      else
        let seg = new_segs new_base text_clicks data_clicks gap_clicks stack_clicks;
            s = upd_slot (mp s) (mp_seg_update (\<lambda>_. seg)) (s\<lparr>holes := h\<rparr>);
            s = say (SysFresh (who s) seg (click_of data_bytes)) s;
            (base, size) = kern_image e (sent s)
        in andthen (free_mem (holes s) base size) (\<lambda>h. Done (OK, s\<lparr>holes := h\<rparr>)))))"

subsection \<open>The stack\<close>

text \<open>\<open>flag\<close> counts the null pointers seen; the list is the rest of the buffer, as longs.\<close>

fun patch_from :: "nat \<Rightarrow> addr \<Rightarrow> addr list \<Rightarrow> addr list" where
  "patch_from flag base [] = []"
| "patch_from flag base (v # ap) =
     (if flag < 2 then
        if v \<noteq> 0 then (v + base) # patch_from flag base ap else v # patch_from (flag + 1) base ap
      else v # ap)"

definition patch_ptr :: "addr list \<Rightarrow> addr \<Rightarrow> addr list" where
  "patch_ptr stack base = (case stack of [] \<Rightarrow> [] | nargs # ap \<Rightarrow> nargs # patch_from 0 base ap)"

definition put_stack :: "env \<Rightarrow> addr list \<Rightarrow> addr \<Rightarrow> addr \<Rightarrow> mm \<Rightarrow> int \<times> mm" where
  "put_stack e mbuf vsp stk_bytes s =
     (if stk_bytes = 0 then (OK, s)
      else let s = say (PutStack (who s) vsp mbuf stk_bytes) s in (kern_copy e (sent s), s))"

subsection \<open>Text, data and relocation\<close>

abbreviation (input) "LOADS \<equiv> (1024::nat)"

text \<open>The turns of the loop: \<open>31 * 1024\<close> bytes each, so 1024 of them cover \<open>2 ^ 24\<close> bytes.\<close>

fun load_loop :: "nat \<Rightarrow> env \<Rightarrow> int \<Rightarrow> addr \<Rightarrow> addr \<Rightarrow> mm \<Rightarrow> mm run" where
  "load_loop n e new_fd ubuf_ptr seg_bytes s =
     (if seg_bytes = 0 then Done s
      else case n of 0 \<Rightarrow> Stuck
      | Suc n \<Rightarrow>
          let bytes = (if sint seg_bytes < 31744 then sint (ucast seg_bytes :: u16) else 31744);
              s = say (FsRead new_fd ubuf_ptr (word_of_int bytes)) s
          in if fs_result e (sent s) \<noteq> bytes then Done s
             else load_loop n e new_fd (ubuf_ptr + word_of_int bytes) (seg_bytes - word_of_int bytes) s)"

declare load_loop.simps [simp del]

definition load_seg :: "env \<Rightarrow> int \<Rightarrow> nat \<Rightarrow> addr \<Rightarrow> mm \<Rightarrow> mm run" where
  "load_seg e fd seg seg_bytes s =
     load_loop LOADS e (push_bit 8 (who s) OR push_bit 6 (int seg) OR fd)
       (push_bit CLICK_SHIFT (ucast (mem_vir (mp_seg (tab s (mp s)) seg)))) seg_bytes s"

text \<open>The next byte of the relocation information, reading on when the buffer is used up.\<close>

definition next_byte :: "env \<Rightarrow> int \<Rightarrow> 8 word list \<Rightarrow> mm \<Rightarrow> (8 word \<times> 8 word list) option \<times> mm" where
  "next_byte e fd buf s =
     (case buf of
        c # rest \<Rightarrow> (Some (c, rest), s)
      | [] \<Rightarrow>
          (case read_fs e fd ARG_BYTES s of (n, d, s) \<Rightarrow>
             (case d of [] \<Rightarrow> (None, s) | c # rest \<Rightarrow> (Some (c, rest), s))))"

fun relocs :: "nat \<Rightarrow> env \<Rightarrow> int \<Rightarrow> addr \<Rightarrow> addr \<Rightarrow> 8 word list \<Rightarrow> mm \<Rightarrow> (int \<times> mm) run" where
  "relocs 0 e fd off adr buf s = Stuck"
| "relocs (Suc n) e fd off adr buf s =
     (case next_byte e fd buf s of
        (None, s) \<Rightarrow> Done (-1, s)
      | (Some (c, buf), s) \<Rightarrow>
          if c = 1 then relocs n e fd off (adr + 254) buf s
          else if c = 0 then Done (0, s)
          else if c AND 1 \<noteq> 0 then Done (-1, s)
          else relocs n e fd off (adr + ucast c) buf (say (AddLong (adr + ucast c) off) s))"

text \<open>One turn per byte; a file of the MINIX file system has less than \<open>2 ^ 31\<close> of them.\<close>

definition RELOCS :: nat where "RELOCS = 2 ^ 31"

text \<open>The comparison with \<open>sizeof(long)\<close> is unsigned, so a failed read (-1) passes it; the long
  looked at is then what the buffer held before, \<open>stale\<close>, and no byte is left in the buffer.\<close>

definition relocate :: "env \<Rightarrow> int \<Rightarrow> addr \<Rightarrow> mm \<Rightarrow> (int \<times> mm) run" where
  "relocate e fd stale s =
     (let off = push_bit CLICK_SHIFT (ucast (mem_phys (mp_seg (tab s (mp s)) seg_T))) :: addr in
      case read_fs e fd ARG_BYTES s of (n, buf, s) \<Rightarrow>
        let first = (if n < 0 then stale else nth_long buf 0) in
        if 0 \<le> n \<and> n < 4 then Done (-1, s)
        else if first = 0 then Done (0, s)
        else
          let adr = off + first
          in relocs RELOCS e fd off adr (drop 4 buf) (say (AddLong adr off) s))"

subsection \<open>The call\<close>

text \<open>The set-uid and set-gid bits, which are ignored for a traced process.\<close>

definition exec_ids :: "file_stat \<Rightarrow> mm \<Rightarrow> mm" where
  "exec_ids st s =
     (let rmp = mp s in
      if has TRACED (mp_flags (tab s rmp)) then s
      else
        let s = (if st_mode st AND I_SET_UID_BIT \<noteq> 0 then
                   let s = upd_slot rmp (mp_effuid_update (\<lambda>_. st_uid st)) s
                   in say (TellFs SETUID_CALL (who s) (uint (mp_realuid (tab s rmp))) (uint (mp_effuid (tab s rmp)))) s
                 else s)
        in if st_mode st AND I_SET_GID_BIT \<noteq> 0 then
             let s = upd_slot rmp (mp_effgid_update (\<lambda>_. st_gid st)) s
             in say (TellFs SETGID_CALL (who s) (uint (mp_realgid (tab s rmp))) (uint (mp_effgid (tab s rmp)))) s
           else s)"

text \<open>After the point of no return: stack, segments, relocation, identities.\<close>

definition exec_load :: "env \<Rightarrow> int \<Rightarrow> file_stat \<Rightarrow> exec_hdr \<Rightarrow> addr list \<Rightarrow> addr \<Rightarrow> mm \<Rightarrow> (int \<times> mm) run" where
  "exec_load e fd st h mbuf stk_bytes s =
     (let rmp = mp s;
          stk = mp_seg (tab s rmp) seg_S;
          vsp = push_bit CLICK_SHIFT (ucast (mem_vir stk)) + push_bit CLICK_SHIFT (ucast (mem_len stk)) - stk_bytes
      in case put_stack e (patch_ptr mbuf vsp) vsp stk_bytes s of (r, s) \<Rightarrow>
      if r \<noteq> OK then Panics ''do_exec stack copy err''
      else
        andthen (load_seg e fd seg_T (h_text h) s) (\<lambda>s.
        andthen (load_seg e fd seg_D (h_data h) s) (\<lambda>s.
        andthen (relocate e fd (case mbuf of [] \<Rightarrow> 0 | nargs # _ \<Rightarrow> nargs) (say (FsLseek fd (h_sym h)) s)) (\<lambda>(_, s).
        let s = exec_ids st (say (FsClose fd) s);
            s = upd_slot rmp (mp_catch_update (\<lambda>_. 0)) s;
            s = set_flag (h_ft h) rmp (clear_flag SEPARATE rmp s)
        in Done (OK, say (SysExec (who s) vsp (has TRACED (mp_flags (tab s rmp)))) s)))))"

text \<open>The file is open and its header is good: fetch the stack and get memory.\<close>

definition exec_image :: "env \<Rightarrow> int \<Rightarrow> file_stat \<Rightarrow> exec_hdr \<Rightarrow> addr \<Rightarrow> mm \<Rightarrow> (int \<times> mm) run" where
  "exec_image e fd st h stk_bytes s =
     (case mem_copy e (who s) (int seg_D) (w_l2 (mm_in s)) 0 (int seg_D) MM_BUF stk_bytes s of (r, s) \<Rightarrow>
      if r \<noteq> OK then Done (EACCES, say (FsClose fd) s)
      else
        let mbuf = user_longs e (sent s) in
        andthen (new_mem e (h_text h) (h_data h) (h_bss h) stk_bytes (h_tot h) s) (\<lambda>(r, s).
        if r \<noteq> OK then Done (r, say (FsClose fd) s) else exec_load e fd st h mbuf stk_bytes s))"

definition do_exec :: "env \<Rightarrow> mm \<Rightarrow> (int \<times> mm) run" where
  "do_exec e s =
     (let stk_bytes = word_of_int (w_i2 (mm_in s)) :: addr;
          exec_len = w_i1 (mm_in s)
      in if sint stk_bytes > sint ARG_BYTES then Done (ENOMEM, s)
      else if exec_len \<le> 0 \<or> exec_len > PATH_MAX then Done (EINVAL, s)
      else
        case mem_copy e (who s) (int seg_D) (w_l1 (mm_in s)) 0 (int seg_D) MM_BUF (word_of_int exec_len) s of (r, s) \<Rightarrow>
        if r \<noteq> OK then Done (r, s)
        else
          let name = user_string e (sent s); s = say (TellFs CHDIR_CALL (who s) 0 0) s in
          andthen (allowed e name X_BIT s) (\<lambda>(fd, s).
          let s = say (TellFs CHDIR_CALL 0 1 0) s in
          case fd of
            Inl err \<Rightarrow> Done (err, s)
          | Inr (fd, st) \<Rightarrow>
              andthen (read_header e fd (clicks_up stk_bytes) s) (\<lambda>(m, s).
              case m of
                Inl _ \<Rightarrow> Done (ENOEXEC, say (FsClose fd) s)
              | Inr h \<Rightarrow> exec_image e fd st h stk_bytes s)))"

subsection \<open>The layout of the new image\<close>

lemma new_segs_simps:
  "new_segs b t d g k seg_T = \<lparr>mem_vir = b, mem_phys = b, mem_len = t\<rparr>"
  "new_segs b t d g k seg_D = \<lparr>mem_vir = b + t, mem_phys = b + t, mem_len = d\<rparr>"
  "new_segs b t d g k seg_S = \<lparr>mem_vir = b + t + d + g, mem_phys = b + t + d + g, mem_len = k\<rparr>"
  by (simp_all add: new_segs_def Let_def)

text \<open>Four sizes that add up without a wrap give four adjacent runs.\<close>

lemma layout_words:
  fixes b t d g k :: u16
  assumes "unat t + unat tot < 65536" "g = tot - d - k" "unat d + unat k \<le> unat tot" "unat b + unat (t + tot) \<le> 65536"
    and "0 < unat k"
  shows "unat (t + tot) = unat t + unat tot" "unat (b + t) = unat b + unat t"
    "unat (b + t + d + g) = unat b + unat t + unat tot - unat k"
proof -
  show s: "unat (t + tot) = unat t + unat tot" using assms(1) by (simp add: unat_word_ariths)
  show bt: "unat (b + t) = unat b + unat t" using assms(3,4,5) s by (simp add: unat_word_ariths)
  have e: "b + t + d + g = b + t + (tot - k)" using assms(2) by simp
  have tk: "unat (tot - k) = unat tot - unat k"
    using assms(3) by (intro unat_sub) (simp add: word_le_nat_alt)
  have "unat (b + t) + unat (tot - k) < 65536" using assms(3,4,5) s bt tk by simp
  then have "unat (b + t + (tot - k)) = unat (b + t) + unat (tot - k)" by (simp add: unat_word_ariths)
  then show "unat (b + t + d + g) = unat b + unat t + unat tot - unat k"
    unfolding e using bt tk assms(3) by simp
qed

definition exec_need :: "addr \<Rightarrow> addr \<Rightarrow> u16" where
  "exec_need text_bytes tot_bytes = clicks_up text_bytes + clicks_up tot_bytes"

lemma new_mem_refused:
  assumes "pool_ok (holes s)" "0 < exec_need text_b tot_b" "\<not> (\<exists>b. {b..<b + unat (exec_need text_b tot_b)} \<subseteq> avail (holes s))"
    and "0 \<le> sint (clicks_up tot_b - clicks_up (data_b + bss_b) - clicks_up stk_b)"
  shows "new_mem e text_b data_b bss_b stk_b tot_b s = Done (EAGAIN, s)"
proof -
  obtain m where m: "max_hole (holes s) = Done m" "\<And>c. 0 < c \<Longrightarrow> c \<le> m \<longleftrightarrow> (\<exists>b. {b..<b + unat c} \<subseteq> avail (holes s))"
    using max_hole_serves [OF assms(1)] by blast
  have "\<not> exec_need text_b tot_b \<le> m" using m(2) [OF assms(2)] assms(3) by simp
  then show ?thesis using assms(4) m(1) by (simp add: new_mem_def Let_def exec_need_def not_le)
qed

lemma new_mem_granted:
  assumes ok: "pool_ok (holes s)" "0 \<notin> avail (holes s)" "slot_ids (holes s) \<noteq> []"
    and need: "0 < exec_need text_b tot_b" "{p..<p + unat (exec_need text_b tot_b)} \<subseteq> avail (holes s)"
    and gap: "0 \<le> sint (clicks_up tot_b - clicks_up (data_b + bss_b) - clicks_up stk_b)"
    and old: "\<And>l. \<exists>ob ol. kern_image e l = (ob, ol) \<and> 0 < ol \<and> unat ob + unat ol < 65536 \<and>
        {unat ob..<unat ob + unat ol} \<inter> avail (holes s) = {}"
  shows "\<exists>b s'. new_mem e text_b data_b bss_b stk_b tot_b s = Done (OK, s') \<and> b \<noteq> NO_MEM \<and>
    {unat b..<unat b + unat (exec_need text_b tot_b)} \<subseteq> avail (holes s) \<and> pool_ok (holes s') \<and>
    mp_seg (tab s' (mp s)) = new_segs b (clicks_up text_b) (clicks_up (data_b + bss_b))
      (clicks_up tot_b - clicks_up (data_b + bss_b) - clicks_up stk_b) (clicks_up stk_b) \<and>
    (\<exists>ob ol. kern_image e (sent s') = (ob, ol) \<and> avail (holes s') =
      avail (holes s) - {unat b..<unat b + unat (exec_need text_b tot_b)} \<union> {unat ob..<unat ob + unat ol})"
proof -
  let ?c = "exec_need text_b tot_b"
  obtain m where m: "max_hole (holes s) = Done m" "\<And>c. 0 < c \<Longrightarrow> c \<le> m \<longleftrightarrow> (\<exists>b. {b..<b + unat c} \<subseteq> avail (holes s))"
    using max_hole_serves [OF ok(1)] by blast
  have le: "?c \<le> m" using m(2) [OF need(1)] need(2) by blast
  obtain b h where a: "alloc_mem (holes s) ?c = Done (b, h)" "pool_ok h" "{unat b..<unat b + unat ?c} \<subseteq> avail (holes s)"
    "avail h = avail (holes s) - {unat b..<unat b + unat ?c}" "slot_ids h \<noteq> []"
    using pool.alloc_takes [OF ok(1) need(2,1)] ok(3) by blast
  have b: "b \<noteq> NO_MEM" using pool.nonzero_base [OF ok(1) need(1) ok(2) a(1)] need(2) by blast
  define seg where "seg = new_segs b (clicks_up text_b) (clicks_up (data_b + bss_b))
      (clicks_up tot_b - clicks_up (data_b + bss_b) - clicks_up stk_b) (clicks_up stk_b)"
  define s1 where "s1 = say (SysFresh (who s) seg (click_of data_b)) (upd_slot (mp s) (mp_seg_update (\<lambda>_. seg)) (s\<lparr>holes := h\<rparr>))"
  obtain ob ol where o: "kern_image e (sent s1) = (ob, ol)" "0 < ol" "unat ob + unat ol < 65536"
    "{unat ob..<unat ob + unat ol} \<inter> avail h = {}"
    using old [of "sent s1"] a(4) by blast
  obtain h' where h': "free_mem h ob ol = Done h'" "pool_ok h'" "avail h' = avail h \<union> {unat ob..<unat ob + unat ol}"
    using pool.release_returns [OF a(2) o(2,3,4) a(5)] by blast
  have s1h: "holes s1 = h" "sent s1 = sent s @ [SysFresh (who s) seg (click_of data_b)]" by (simp_all add: s1_def)
  have "new_mem e text_b data_b bss_b stk_b tot_b s = Done (OK, s1\<lparr>holes := h'\<rparr>)"
    using gap m(1) le a(1) b o(1) h'(1) s1h unfolding new_mem_def Let_def exec_need_def
    by (simp add: seg_def [symmetric] s1_def [symmetric] not_less)
  then show ?thesis
    using b a(3,4) h' o(1) by (intro exI [of _ b] exI [of _ "s1\<lparr>holes := h'\<rparr>"]) (simp add: s1_def seg_def [symmetric])
qed

end
