(* ===== verification/Mm_Main.thy ===== *)
theory Mm_Main
  imports Mm_Signal Mm_Exec
begin

section \<open>Memory manager: getset, the calls and the main loop\<close>

text \<open>
  mm/getset.c, the table of calls of mm/table.c for the 68000, and mm/main.c.  One turn of the
  main loop is a function of the message that \<open>get_work\<close> received.  What \<open>do_brk2\<close> prints
  is left out.
\<close>

unbundle bit_operations_syntax

abbreviation (input) "NCALLS \<equiv> (70::int)"
abbreviation (input) "EBADCALL \<equiv> (-102::int)"
abbreviation (input) "GETPID \<equiv> (20::int)"
abbreviation (input) "GETUID \<equiv> (24::int)"
abbreviation (input) "GETGID \<equiv> (47::int)"
abbreviation (input) "EXEC_CALL \<equiv> (59::int)"

subsection \<open>Identities\<close>

definition do_getset :: "mm \<Rightarrow> int \<times> mm" where
  "do_getset s =
     (let rmp = mp s; p = tab s rmp in
      if mm_call s = GETUID then
        (sint (mp_realuid p), s\<lparr>result2 := sint (mp_effuid p)\<rparr>)
      else if mm_call s = GETGID then
        (uint (mp_realgid p), s\<lparr>result2 := uint (mp_effgid p)\<rparr>)
      else if mm_call s = GETPID then
        (mp_pid (tab s (who s)), s\<lparr>result2 := mp_pid (tab s (mp_parent p))\<rparr>)
      else if mm_call s = SETUID_CALL then
        let usr_id = word_of_int (w_i1 (mm_in s)) in
        if mp_realuid p \<noteq> usr_id \<and> mp_effuid p \<noteq> SUPER_USER then (EPERM, s)
        else (OK, say (TellFs SETUID_CALL (who s) (sint usr_id) (sint usr_id))
               (upd_slot rmp (\<lambda>p. p\<lparr>mp_realuid := usr_id, mp_effuid := usr_id\<rparr>) s))
      else
        let grpid = word_of_int (w_i1 (mm_in s)) in
        if mp_realgid p \<noteq> grpid \<and> mp_effuid p \<noteq> SUPER_USER then (EPERM, s)
        else (OK, say (TellFs SETGID_CALL (who s) (uint grpid) (uint grpid))
               (upd_slot rmp (\<lambda>p. p\<lparr>mp_realgid := grpid, mp_effgid := grpid\<rparr>) s)))"

definition no_sys :: int where "no_sys = EINVAL"

subsection \<open>Start-up\<close>

definition mm_init :: "(u16 \<times> u16) list \<Rightarrow> mm \<Rightarrow> mm run" where
  "mm_init chunks s =
     andthen (mem_init chunks) (\<lambda>h.
     let s = s\<lparr>holes := h\<rparr>;
         s = set_flag IN_USE 0 s;
         s = set_flag IN_USE 1 s;
         s = set_flag IN_USE INIT_PROC_NR s;
         s = upd_slot INIT_PROC_NR (mp_pid_update (\<lambda>_. INIT_PID)) s
     in Done (s\<lparr>procs_in_use := 3\<rparr>))"

text \<open>Kilobytes for a number of clicks, rounded.\<close>

definition click_to_round_k :: "u16 \<Rightarrow> u16" where
  "click_to_round_k n = ucast ((push_bit CLICK_SHIFT (ucast n) + 512 :: addr) div 1024)"

definition init_slot :: "u16 \<Rightarrow> u16 \<Rightarrow> u16 \<Rightarrow> mproc \<Rightarrow> mproc" where
  "init_slot init_org text_clicks data_clicks p =
     p\<lparr>mp_seg := (mp_seg p)
         (seg_T := \<lparr>mem_vir = init_org, mem_phys = init_org, mem_len = text_clicks\<rparr>,
          seg_D := \<lparr>mem_vir = init_org + text_clicks, mem_phys = init_org + text_clicks, mem_len = data_clicks\<rparr>,
          seg_S := (mp_seg p seg_S)\<lparr>mem_vir := init_org + (text_clicks + data_clicks),
                     mem_phys := init_org + (text_clicks + data_clicks)\<rparr>),
       mp_flags := (if text_clicks \<noteq> 0 then turn_on SEPARATE (mp_flags p) else mp_flags p)\<rparr>"

definition do_brk2 :: "mm \<Rightarrow> (int \<times> mm) run" where
  "do_brk2 s =
     (if who s \<noteq> 1 then Done (EPERM, s)
      else
        let init_text_clicks = word_of_int (w_i1 (mm_in s)) :: u16;
            init_data_clicks = word_of_int (w_i2 (mm_in s));
            init_org = ucast (w_l1 (mm_in s));
            minix_clicks = init_org + (init_text_clicks + init_data_clicks)
        in andthen (alloc_mem (holes s) minix_clicks) (\<lambda>(ram_base, h).
        if ram_base \<noteq> 0 then Panics ''inconsistent system memory base''
        else
          let ram_clicks = word_of_int (w_i3 (mm_in s)) - minix_clicks in
          andthen (alloc_mem h ram_clicks) (\<lambda>(ram_base, h).
          if ram_base = NO_MEM then Panics ''not enough memory for RAM disk''
          else
            let s = s\<lparr>holes := h, mm_out := (mm_out s)\<lparr>w_l1 := ucast ram_base * 256\<rparr>\<rparr> in
            andthen (mem_left h) (\<lambda>m.
            let mem1 = click_to_round_k (minix_clicks + ram_clicks + m);
                mem2 = click_to_round_k minix_clicks;
                mem3 = click_to_round_k ram_clicks;
                s = (if sint (mem1 - mem2 - mem3) < 32 then say SysAbort s else s)
            in Done (OK, upd_slot INIT_PROC_NR (init_slot init_org init_text_clicks init_data_clicks) s)))))"

subsection \<open>Calls\<close>

definition call_vec :: "env \<Rightarrow> int \<Rightarrow> mm \<Rightarrow> (int \<times> mm) run" where
  "call_vec e n s =
     (if n = 1 then do_mm_exit e s
      else if n = 2 then do_fork e s
      else if n = 7 then do_wait e s
      else if n = 17 then Done (do_brk e s)
      else if n \<in> {20, 23, 24, 46, 47} then Done (do_getset s)
      else if n = 26 then do_trace e s
      else if n = 27 then do_alarm e s
      else if n = 29 then Done (do_pause s)
      else if n = 37 then do_kill e s
      else if n = 48 then Done (do_signal s)
      else if n = 59 then do_exec e s
      else if n = 64 then do_ksig e s
      else if n = 66 then do_brk2 s
      else if n = 69 then Stuck
      else Done (no_sys, s))"

definition serve :: "env \<Rightarrow> mess \<Rightarrow> mm \<Rightarrow> mm run" where
  "serve e m s =
     (let s = s\<lparr>mm_in := m, who := m_source m, mm_call := m_type m, mp := m_source m, dont_reply := False\<rparr> in
      andthen (if mm_call s < 0 \<or> mm_call s \<ge> NCALLS then Done (EBADCALL, s) else call_vec e (mm_call s) s) (\<lambda>(err, s).
      if dont_reply s then Done s
      else if mm_call s = EXEC_CALL \<and> err = OK then Done s
      else reply e (who s) err (result2 s) (res_ptr s) s))"

text \<open>The main loop over the messages received.\<close>

definition mm_main :: "env \<Rightarrow> (u16 \<times> u16) list \<Rightarrow> mess list \<Rightarrow> mm run" where
  "mm_main e chunks ms = andthen (mm_init chunks idle_mm) (each (serve e) ms)"

end
