(* ===== verification/Mm_Props.thy ===== *)
theory Mm_Props
  imports Mm_Reach Mm_Main
begin

section \<open>Memory manager: the properties\<close>

text \<open>
  The theorems about fork, exit, wait, signals, exec and the main loop, with witnesses on the
  concrete tables defined first.  The lemmas they rest on are in Mm_Table, Mm_Fork, Mm_Reach
  and Mm_Exec.
\<close>

subsection \<open>A concrete table\<close>

text \<open>The state after start-up with one user process (slot 3, child of init) and a hole.\<close>

definition busy :: "int \<Rightarrow> int \<Rightarrow> u16 \<Rightarrow> mproc" where
  "busy pid par flags = idle_slot\<lparr>mp_pid := pid, mp_parent := par, mp_flags := flags\<rparr>"

definition family_tab :: "u16 \<Rightarrow> u16 \<Rightarrow> int \<Rightarrow> mproc" where
  "family_tab fi fc = (\<lambda>_. idle_slot)(0 := busy 0 0 1, 1 := busy 0 0 1, 2 := busy 1 0 fi, 3 := busy 2 2 fc)"

definition family :: "u16 \<Rightarrow> u16 \<Rightarrow> int \<Rightarrow> hole_tab \<Rightarrow> mm" where
  "family fi fc caller h = idle_mm\<lparr>tab := family_tab fi fc, procs_in_use := 4, holes := h, mp := caller, who := caller\<rparr>"

lemma flag_demo: "has 1 0 = False" "has 1 1" "has 1 3" "\<not> has 2 1" "has 2 3" "\<not> has 4 1" "\<not> has 4 3" "has 4 5" "has 1 5"
  "\<not> has 2 5" "\<not> has 4 0" "\<not> has 128 1"
  by (simp_all add: has_def)

lemma family_slots:
  "tab (family fi fc k h) i =
    (if i = 0 \<or> i = 1 then busy 0 0 1 else if i = 2 then busy 1 0 fi else if i = 3 then busy 2 2 fc else idle_slot)"
  by (simp add: family_def family_tab_def)

lemma family_used:
  assumes "has 1 fi" "has 1 fc"
  shows "used (family fi fc k h) = {0, 1, 2, 3}"
  using assms by (auto simp: used_def family_slots busy_def idle_slot_def flag_demo)

lemma family_ok:
  assumes "has 1 fi" "has 1 fc" "\<not> has 4 fi"
  shows "mproc_ok (family fi fc k h)"
  using assms
  by (auto simp: mproc_ok_def family_used inj_on_def parent_def zombie_def family_slots busy_def idle_slot_def flag_demo)
    (simp_all add: family_def)

lemma family_waits:
  assumes "has 1 fi" "has 1 fc" "has 4 fc \<longrightarrow> \<not> has 2 fi" "\<not> has 4 fi"
  shows "no_missed_wait (family fi fc k h)"
  using assms
  by (auto simp: no_missed_wait_def family_used parent_def zombie_def waiting_def family_slots busy_def idle_slot_def flag_demo)

lemma calm_answers: "answers (calm sp)"
  by (simp add: answers_def calm_def)

lemma small_takes_back:
  assumes "pool_ok h" "avail h = {16..<272}" "slot_ids h \<noteq> []"
  shows "takes_back (calm sp) (family fi fc k h)"
proof -
  have "\<exists>h'. free_mem h 0x200 0x20 = Done h'"
    using pool.release_returns [OF assms(1) _ _ _ assms(3), of "0x20" "0x200"] assms(2) by auto
  then show ?thesis by (simp add: takes_back_def family_def calm_def)
qed

subsection \<open>The main loop\<close>

text \<open>The calls that only involve the caller and its family.\<close>

definition family_calls :: "int set" where
  "family_calls = {1, 2, 7, 17, 20, 23, 24, 27, 29, 46, 47, 48}"

definition unmoved :: "mm \<Rightarrow> mm \<Rightarrow> bool" where
  "unmoved s s' \<longleftrightarrow> same_family s s' \<and> next_pid s' = next_pid s"

lemma unmoved_intros:
  "unmoved s s" "unmoved s t \<Longrightarrow> unmoved s (say m t)" "unmoved s t \<Longrightarrow> unmoved s (t\<lparr>res_ptr := x\<rparr>)"
  "unmoved s t \<Longrightarrow> unmoved s (t\<lparr>result2 := n\<rparr>)" "unmoved s t \<Longrightarrow> unmoved s (t\<lparr>dont_reply := b\<rparr>)"
  "unmoved s t \<Longrightarrow> unmoved s (t\<lparr>mm_out := m'\<rparr>)" "unmoved s t \<Longrightarrow> unmoved s (upd_slot i (mp_seg_update f) t)"
  "unmoved s t \<Longrightarrow> unmoved s (set_flag ALARM_ON i t)" "unmoved s t \<Longrightarrow> unmoved s (clear_flag ALARM_ON i t)"
  "unmoved s t \<Longrightarrow> unmoved s (set_flag PAUSED i t)"
  by (auto simp: unmoved_def same_family_def)

lemma unmoved_trans: "unmoved s t \<Longrightarrow> unmoved t u \<Longrightarrow> unmoved s u"
  using same_family_trans by (auto simp: unmoved_def)

lemma adjust_unmoved: "adjust p dc sp s = (r, s') \<Longrightarrow> unmoved s s'"
  by (auto simp: adjust_def Let_def split: if_split_asm intro!: unmoved_intros)

lemma do_brk_unmoved: "do_brk e s = (r, s') \<Longrightarrow> unmoved s s'"
  using unmoved_trans [OF unmoved_intros(2) [OF unmoved_intros(1)] adjust_unmoved]
  by (auto simp: do_brk_def Let_def split: if_split_asm prod.split_asm intro!: unmoved_intros)

lemma do_getset_unmoved: "do_getset s = (r, s') \<Longrightarrow> unmoved s s'"
  by (auto simp: do_getset_def Let_def unmoved_def same_family_def split: if_split_asm)

lemma do_signal_unmoved: "do_signal s = (r, s') \<Longrightarrow> unmoved s s'"
  by (auto simp: do_signal_def Let_def unmoved_def same_family_def split: if_split_asm)

lemma set_alarm_unmoved: "set_alarm e i n s = Done (r, s') \<Longrightarrow> unmoved s s'"
  by (auto simp: set_alarm_def Let_def split: if_split_asm prod.split_asm intro!: unmoved_intros)

lemma reply_unmoved: "reply e i r r2 p s = Done s' \<Longrightarrow> unmoved s s'"
  by (auto simp: reply_def Let_def split: if_split_asm intro!: unmoved_intros)

definition table_inv :: "mm \<Rightarrow> bool" where
  "table_inv s \<longleftrightarrow> mproc_ok s \<and> no_missed_wait s \<and> pid_range (next_pid s)"

lemma unmoved_inv: "unmoved s s' \<Longrightarrow> table_inv s' = table_inv s"
  using same_family_ok [of s s'] by (simp add: unmoved_def table_inv_def)

lemma fork_inv:
  assumes a: "answers e" and inv: "table_inv s" and w: "mp s = who s" "who s \<in> used s" "who s \<ge> 2" "alive s (who s)"
    and pool: "pool_ok (holes s)" "0 < fork_clicks s"
  shows "\<exists>r s'. do_fork e s = Done (r, s') \<and> table_inv s'"
proof (cases "procs_in_use s = NR_PROCS \<or> (procs_in_use s \<ge> NR_PROCS - LAST_FEW \<and> mp_effuid (tab s (mp s)) \<noteq> 0)")
  case True
  then have "do_fork e s = Done (EAGAIN, s)" using fork_refused by blast
  then show ?thesis using inv by simp
next
  case False
  obtain b h where m: "alloc_mem (holes s) (fork_clicks s) = Done (b, h)"
    using pool.alloc_never_faults [OF pool] by blast
  show ?thesis
  proof (cases "b = NO_MEM")
    case True
    then have "do_fork e s = Done (EAGAIN, s\<lparr>holes := h\<rparr>)" using False m by (auto simp: do_fork_def Let_def fork_clicks_def)
    moreover have "unmoved s (s\<lparr>holes := h\<rparr>)" by (simp add: unmoved_def)
    ultimately show ?thesis using inv unmoved_inv by metis
  next
    case nz: False
    have i: "mproc_ok s" "no_missed_wait s" "pid_range (next_pid s)" using inv by (simp_all add: table_inv_def)
    obtain pid s' where "do_fork e s = Done (pid, s')" "mproc_ok s'" "no_missed_wait s'" "next_pid s' = pid" "2 \<le> pid" "pid \<le> 30000"
      using fork_granted [OF a i w False m nz] by blast
    then show ?thesis by (auto simp: table_inv_def pid_range_def)
  qed
qed

lemma call_inv:
  assumes a: "answers e" and inv: "table_inv s" and t: "takes_back e s"
    and w: "mp s = who s" "who s \<in> used s" "who s > 2" "alive s (who s)"
    and pool: "pool_ok (holes s)" "0 < fork_clicks s" and n: "n \<in> family_calls"
  shows "\<exists>r s'. call_vec e n s = Done (r, s') \<and> table_inv s'"
proof -
  have i: "mproc_ok s" "no_missed_wait s" "pid_range (next_pid s)" using inv by (simp_all add: table_inv_def)
  have c: "who s \<in> used s - founders" "who s \<ge> 2" using w by auto
  have q: "unmoved s s' \<Longrightarrow> table_inv s'" for s' using inv unmoved_inv by blast
  consider "n = 1" | "n = 2" | "n = 7" | "n = 17" | "n \<in> {20, 23, 24, 46, 47}" | "n = 27" | "n = 29" | "n = 48"
    using n by (auto simp: family_calls_def)
  then show ?thesis
  proof cases
    case 1
    obtain s' where s': "mm_exit e (mp s) (w_i1 (mm_in s)) s = Done s'" "table_inv s'"
      using exit_settled [OF a i(1,2) c(1) t, of "w_i1 (mm_in s)"] i(3) w(1) by (auto simp: table_inv_def)
    have "unmoved s' (s'\<lparr>dont_reply := True\<rparr>)" by (simp add: unmoved_def)
    then show ?thesis using 1 s' unmoved_inv by (auto simp: call_vec_def do_mm_exit_def)
  next
    case 2
    then show ?thesis using fork_inv [OF a inv w(1,2) c(2) w(4) pool] by (simp add: call_vec_def)
  next
    case 3
    then show ?thesis using wait_settled [OF a i(1,2) w(1,2) c(2) w(4)] i(3) by (auto simp: call_vec_def table_inv_def)
  next
    case 4
    obtain r s' where "do_brk e s = (r, s')" by fastforce
    then show ?thesis using 4 q do_brk_unmoved by (auto simp: call_vec_def)
  next
    case 5
    obtain r s' where "do_getset s = (r, s')" by fastforce
    then show ?thesis using 5 q do_getset_unmoved by (auto simp: call_vec_def)
  next
    case 6
    obtain r s' where s': "do_alarm e s = Done (r, s')"
      using set_alarm_ok [OF a] by (auto simp: do_alarm_def) blast
    then show ?thesis using 6 q set_alarm_unmoved by (auto simp: call_vec_def do_alarm_def)
  next
    case 7
    have "unmoved s ((set_flag PAUSED (mp s) s)\<lparr>dont_reply := True\<rparr>)" by (intro unmoved_intros)
    then show ?thesis using 7 q by (auto simp: call_vec_def do_pause_def)
  next
    case 8
    obtain r s' where "do_signal s = (r, s')" by fastforce
    then show ?thesis using 8 q do_signal_unmoved by (auto simp: call_vec_def)
  qed
qed

lemma serve_inv:
  assumes a: "answers e" and inv: "table_inv s" and t: "takes_back e s"
    and w: "m_source m \<in> used s" "m_source m > 2" "alive s (m_source m)"
    and pool: "pool_ok (holes s)" "0 < fork_clicks (s\<lparr>mp := m_source m\<rparr>)" and n: "m_type m \<in> family_calls"
  shows "\<exists>s'. serve e m s = Done s' \<and> table_inv s'"
proof -
  define s1 where "s1 = s\<lparr>mm_in := m, who := m_source m, mm_call := m_type m, mp := m_source m, dont_reply := False\<rparr>"
  have f: "same_family s s1" "next_pid s1 = next_pid s" by (simp_all add: s1_def same_family_def)
  have "table_inv s1" using inv f same_family_ok [OF f(1)] by (simp add: table_inv_def)
  moreover have "takes_back e s1" "mp s1 = who s1" "who s1 \<in> used s1" "who s1 > 2" "alive s1 (who s1)" "pool_ok (holes s1)"
      "0 < fork_clicks s1"
    using t w pool by (simp_all add: s1_def takes_back_def used_def alive_def fork_clicks_def)
  ultimately obtain r s2 where c: "call_vec e (m_type m) s1 = Done (r, s2)" "table_inv s2"
    using call_inv [OF a] n by blast
  have r: "0 \<le> m_type m" "m_type m < NCALLS" "m_type m \<noteq> EXEC_CALL" using n by (auto simp: family_calls_def)
  define s3 where "s3 = replied (who s2) r (result2 s2) (res_ptr s2) s2"
  have "unmoved s2 s3" unfolding s3_def by (simp add: unmoved_def)
  then have "table_inv s3" using c(2) unmoved_inv by blast
  moreover have "serve e m s = Done s2 \<or> serve e m s = Done s3"
    using c(1) r unfolding serve_def Let_def s1_def [symmetric]
    by (simp add: s1_def s3_def reply_eq [OF a])
  ultimately show ?thesis using c(2) by auto
qed

subsection \<open>The properties\<close>

text \<open>
  C31: every call a process makes about itself and its family (exit, fork, wait, brk, the getset
  calls, alarm, pause, signal) returns and keeps the table of processes consistent: the count
  of processes is right, every process has a live or exited parent in the table, process
  numbers are unique, and no parent waits for a child that has already exited.
\<close>
theorem serve_keeps_table:
  assumes "answers e" "table_inv s" "takes_back e s" "m_source m \<in> used s" "m_source m > 2" "alive s (m_source m)"
    and "pool_ok (holes s)" "0 < fork_clicks (s\<lparr>mp := m_source m\<rparr>)" "m_type m \<in> family_calls"
  shows "\<exists>s'. serve e m s = Done s' \<and> table_inv s'"
  by (rule serve_inv [OF assms])

definition wait_call :: "int \<Rightarrow> mess" where
  "wait_call n = idle_mess\<lparr>m_source := 3, m_type := n\<rparr>"

text \<open>The user process of the concrete table, with one click of stack.\<close>

definition sized :: "mm \<Rightarrow> mm" where
  "sized = upd_slot 3 (mp_seg_update (\<lambda>sg. sg(seg_S := \<lparr>mem_vir = 0, mem_phys = 0, mem_len = 1\<rparr>)))"

lemma sized_family:
  "same_family s (sized s)" "next_pid (sized s) = next_pid s" "holes (sized s) = holes s"
  "mem_len (mp_seg (tab (sized s) 3) seg_S) = 1" "mem_vir (mp_seg (tab (sized s) 3) seg_S) = 0"
  "mem_vir (mp_seg (tab (sized s) 3) seg_D) = mem_vir (mp_seg (tab s 3) seg_D)"
  by (simp_all add: sized_def same_family_def)

theorem serve_keeps_table_witness:
  "\<exists>s s'. table_inv s \<and> used s = {0, 1, 2, 3} \<and> serve (calm 0) (wait_call 2) s = Done s' \<and> table_inv s'"
proof -
  obtain h where h: "pool_ok h" "avail h = {16..<272}" "slot_ids h \<noteq> []" using small_pool by blast
  define s where "s = sized (family 1 1 3 h)"
  have f: "same_family (family 1 1 3 h) s" "next_pid s = 2" "holes s = h"
    unfolding s_def by (simp_all add: sized_family) (simp_all add: family_def idle_mm_def)
  have u: "used s = {0, 1, 2, 3}" using same_familyD(1) [OF f(1)] family_used [of 1 1] flag_demo by simp
  have inv: "table_inv s"
    using same_family_ok [OF f(1)] family_ok [of 1 1] family_waits [of 1 1] flag_demo f(2)
    by (simp add: table_inv_def pid_range_def)
  have al: "alive s 3" using f(1) by (simp add: same_family_def alive_def family_slots busy_def flag_demo)
  have fc: "0 < fork_clicks (s\<lparr>mp := 3\<rparr>)"
    by (simp add: s_def fork_clicks_def sized_family family_slots busy_def idle_slot_def del: One_nat_def)
  have tb: "takes_back (calm 0) s"
    using small_takes_back [OF h, of 0 1 1 3] f(3) by (simp add: takes_back_def family_def)
  have "\<exists>s'. serve (calm 0) (wait_call 2) s = Done s' \<and> table_inv s'"
    by (rule serve_keeps_table [OF calm_answers inv tb])
      (simp_all add: wait_call_def u al f(3) h(1) fc family_calls_def)
  then show ?thesis using inv u by blast
qed

text \<open>
  C32: fork makes exactly one new process.  It is refused, with EAGAIN and nothing changed, when
  the table is full, when only the slots reserved for the superuser are left and the caller is
  not the superuser, or when there is no memory.  Otherwise one free slot becomes a child of
  the caller with a number from 2 to 30000 that no process or process group has, no other slot
  changes, kernel and file system are told before the child is started, and the child's number
  is returned.  In particular the search for a number ends.
\<close>
theorem do_fork_creates_child:
  assumes "answers e" "mproc_ok s" "no_missed_wait s" "pid_range (next_pid s)"
    and "mp s = who s" "who s \<in> used s" "who s \<ge> 2" "alive s (who s)"
    and "alloc_mem (holes s) (fork_clicks s) = Done (b, h)" "b = NO_MEM \<longrightarrow> h = holes s"
  shows "if procs_in_use s = 32 \<or> (procs_in_use s \<ge> 30 \<and> mp_effuid (tab s (mp s)) \<noteq> 0) \<or> b = NO_MEM
    then do_fork e s = Done (EAGAIN, s)
    else \<exists>r pid m s'. do_fork e s = Done (pid, s') \<and> r \<notin> used s \<and> used s' = insert r (used s) \<and>
      mproc_ok s' \<and> no_missed_wait s' \<and> parent s' r = who s \<and> mp_pid (tab s' r) = pid \<and> 2 \<le> pid \<and> pid \<le> 30000 \<and>
      (\<forall>i\<in>{0..31} - {r}. mp_pid (tab s i) \<noteq> pid \<and> mp_procgrp (tab s i) \<noteq> pid) \<and>
      (\<forall>i. i \<noteq> r \<longrightarrow> tab s' i = tab s i) \<and> holes s' = h \<and>
      sent s' = sent s @ [SysFork (who s) r pid b, TellFs 2 (who s) r pid, Reply r m] \<and> m_type m = 0"
proof (cases "procs_in_use s = 32 \<or> (procs_in_use s \<ge> 30 \<and> mp_effuid (tab s (mp s)) \<noteq> 0) \<or> b = NO_MEM")
  case True
  then have "procs_in_use s = NR_PROCS \<or> (procs_in_use s \<ge> NR_PROCS - LAST_FEW \<and> mp_effuid (tab s (mp s)) \<noteq> 0) \<or>
      alloc_mem (holes s) (fork_clicks s) = Done (NO_MEM, holes s)" using assms(9,10) by auto
  then show ?thesis using True fork_refused by simp
next
  case False
  then have "\<not> (procs_in_use s = NR_PROCS \<or> (procs_in_use s \<ge> NR_PROCS - LAST_FEW \<and> mp_effuid (tab s (mp s)) \<noteq> 0))"
    "b \<noteq> NO_MEM" by auto
  from fork_granted [OF assms(1-8) this(1) assms(9) this(2)] show ?thesis
    unfolding if_not_P [OF False] by blast
qed

text \<open>The concrete table again, as the start of the other witnesses.\<close>

lemma demo_table:
  fixes fi fc :: u16 and k :: int and h :: hole_tab
  assumes "fi \<in> {1, 3}" "fc \<in> {1, 5}" "fc = 5 \<longrightarrow> fi = 1" "pool_ok h" "avail h = {16..<272}" "slot_ids h \<noteq> []"
  defines "s \<equiv> sized (family fi fc k h)"
  shows "used s = {0, 1, 2, 3}" "mproc_ok s" "no_missed_wait s" "takes_back (calm 0) s" "holes s = h" "next_pid s = 2"
    "mp s = k" "who s = k" "parent s 3 = 2" "waiting s 2 \<longleftrightarrow> fi = 3" "zombie s 3 \<longleftrightarrow> fc = 5" "alive s 2"
    "mp_pid (tab s 3) = 2" "procs_in_use s = 4" "who s = 3 \<Longrightarrow> fork_clicks s = 1"
proof -
  have fl: "has 1 fi" "has 1 fc" "\<not> has 4 fi" "has 4 fc \<longrightarrow> \<not> has 2 fi" "has 2 fi \<longleftrightarrow> fi = 3" "has 4 fc \<longleftrightarrow> fc = 5"
    using assms(1-3) flag_demo by auto
  have f: "same_family (family fi fc k h) s" "next_pid s = 2" "holes s = h" "mp s = k" "who s = k"
    unfolding s_def by (simp_all add: sized_family) (simp_all add: family_def idle_mm_def sized_def)
  note v = same_familyD [OF f(1)]
  show "used s = {0, 1, 2, 3}" using v family_used fl by simp
  show "mproc_ok s" "no_missed_wait s" using same_family_ok [OF f(1)] family_ok family_waits fl by simp_all
  show "takes_back (calm 0) s" using small_takes_back [OF assms(4-6), of 0 fi fc k] f(3) by (simp add: takes_back_def family_def)
  show "holes s = h" "next_pid s = 2" "mp s = k" "who s = k" using f by simp_all
  show "parent s 3 = 2" "waiting s 2 \<longleftrightarrow> fi = 3" "zombie s 3 \<longleftrightarrow> fc = 5" "mp_pid (tab s 3) = 2"
    using v fl by (simp_all add: parent_def waiting_def zombie_def family_slots busy_def)
  show "alive s 2" using f(1) fl by (simp add: same_family_def alive_def family_slots busy_def)
  show "procs_in_use s = 4" using v by (simp add: family_def)
  show "fork_clicks s = 1" if "who s = 3"
    using that f(4,5) by (simp add: s_def fork_clicks_def sized_family family_slots busy_def idle_slot_def del: One_nat_def)
qed

theorem do_fork_creates_child_witness:
  "\<exists>s r pid s'. do_fork (calm 0) s = Done (pid, s') \<and> used s = {0, 1, 2, 3} \<and> r \<notin> used s \<and> used s' = insert r (used s)"
proof -
  obtain h where h: "pool_ok h" "avail h = {16..<272}" "slot_ids h \<noteq> []" using small_pool by blast
  define s where "s = sized (family 1 1 3 h)"
  note d = demo_table [of 1 1, OF _ _ _ h, of 3, folded s_def, simplified]
  have "{16..<16 + unat (1::u16)} \<subseteq> avail h" "0 \<notin> avail h" using h(2) by auto
  then obtain b h' where m: "alloc_mem h 1 = Done (b, h')" "b \<noteq> NO_MEM"
    using pool.alloc_takes [OF h(1), of 16 1] pool.nonzero_base [OF h(1), of 1] by (metis word_neq_0_conv one_neq_zero)
  have w: "mp s = who s" "who s \<in> used s" "who s \<ge> 2" and p: "pid_range (next_pid s)" using d by (simp_all add: pid_range_def)
  have al: "alive s (who s)"
    using d(7,8) sized_family(1) [of "family 1 1 3 h", folded s_def]
    by (simp add: same_family_def alive_def family_slots busy_def flag_demo)
  have am: "alloc_mem (holes s) (fork_clicks s) = Done (b, h')" using m(1) d by simp
  have nf: "\<not> (procs_in_use s = 32 \<or> (procs_in_use s \<ge> 30 \<and> mp_effuid (tab s (mp s)) \<noteq> 0) \<or> b = NO_MEM)"
    using d m(2) by simp
  have imp: "b = NO_MEM \<longrightarrow> h' = holes s" using m(2) by simp
  obtain r pid s' where "do_fork (calm 0) s = Done (pid, s')" "r \<notin> used s" "used s' = insert r (used s)"
    using do_fork_creates_child [OF calm_answers [of 0] d(2,3) p w al am imp, unfolded if_not_P [OF nf]]
    by (elim exE conjE) (rule that)
  then show ?thesis using d(1) by blast
qed

text \<open>
  C35: the recursion of cleanup is at most two deep.  With any depth of at least two the clean-up
  of a child returns, with the same state: the child's slot is free, its children belong to
  init, and if init was waiting and one of them had already exited, that one is collected too.
\<close>
theorem cleanup_two_levels:
  assumes "answers e" "c \<noteq> 2" "parent s c \<noteq> c" "parent s 2 \<noteq> c" "2 \<le> n"
  shows "cleanup e n c s = Done (case inherited_zombie c s of None \<Rightarrow> reap c s | Some z \<Rightarrow> reap z (reap c s))"
proof -
  obtain k where "n = Suc (Suc k)" using assms(5) by (metis Suc_le_D Suc_le_mono numeral_2_eq_2)
  then show ?thesis using cleanup_eq [OF assms(1,2) assms(3,4) [unfolded parent_def], of k] by simp
qed

theorem cleanup_two_levels_witness:
  "\<exists>s. used s = {0, 1, 2, 3} \<and> waiting s 2 \<and> cleanup (calm 0) 7 3 s = Done (reap 3 s)"
proof -
  obtain h where h: "pool_ok h" "avail h = {16..<272}" "slot_ids h \<noteq> []" using small_pool by blast
  define s where "s = sized (family 3 1 3 h)"
  note d = demo_table [of 3 1, OF _ _ _ h, of 3, folded s_def, simplified]
  have "parent s 2 = 0" using mproc_okD(3) [OF d(2), of 2] by simp
  moreover have "inherited_zombie 3 s = None" using d(9) by (simp add: inherited_zombie_def parent_def)
  ultimately have "cleanup (calm 0) 7 3 s = Done (reap 3 s)"
    using cleanup_two_levels [of "calm 0" 3 s 7] calm_answers d(9) by simp
  then show ?thesis using d(1,10) by blast
qed

text \<open>
  C33: the exit of a process is never lost.  If its parent is waiting, the parent is answered with
  the process number and the status and the slot is released; otherwise the process stays in
  the table as a zombie until the parent waits.  The table stays consistent either way.
\<close>
theorem mm_exit_settles:
  assumes "answers e" "mproc_ok s" "no_missed_wait s" "c \<in> used s - {0, 1, 2}" "takes_back e s"
  shows "\<exists>s'. mm_exit e c status s = Done s' \<and> mproc_ok s' \<and> no_missed_wait s' \<and>
    (if waiting s (parent s c)
     then c \<notin> used s' \<and> (alive s (parent s c) \<longrightarrow>
       told s s' (parent s c) ((tab s c)\<lparr>mp_exitstatus := word_of_int status\<rparr>))
     else c \<in> used s' \<and> zombie s' c)"
  using exit_settled [OF assms, of status] by (elim exE conjE) (intro exI conjI)

theorem mm_exit_settles_witness:
  "\<exists>s s'. waiting s 2 \<and> mm_exit (calm 0) 3 5 s = Done s' \<and> 3 \<notin> used s' \<and>
    told s s' 2 ((tab s 3)\<lparr>mp_exitstatus := word_of_int 5\<rparr>)"
proof -
  obtain h where h: "pool_ok h" "avail h = {16..<272}" "slot_ids h \<noteq> []" using small_pool by blast
  define s where "s = sized (family 3 1 3 h)"
  note d = demo_table [of 3 1, OF _ _ _ h, of 3, folded s_def, simplified]
  have "3 \<in> used s - {0, 1, 2}" using d(1) by simp
  from mm_exit_settles [OF calm_answers d(2,3) this d(4), of 5] d(9,10,12) show ?thesis by auto
qed



subsection \<open>Signals\<close>

text \<open>
  C37: a signal only reaches the processes kill may address.  Every process that do_kill sends a
  signal to or removes is a user process, belongs to the caller's effective user (or the
  caller is the superuser), has the number asked for when the call names one process, is in
  the caller's process group when the call says 0, and is not init for kill(-1) or SIGKILL.
  No process changes its number, group or user.
\<close>
theorem kill_respects_identity:
  assumes "do_kill e s = Done (r, s')"
  shows "reaches {i\<in>{2..31}. may_reach s (w_i1 (mm_in s)) (w_i2 (mm_in s)) (mp_effuid (tab s (mp s))) i} s s'"
  using check_sig_reaches assms unfolding do_kill_def by blast

text \<open>The user process of the concrete table kills itself.\<close>

definition kill_9 :: "mm \<Rightarrow> mm" where
  "kill_9 s = s\<lparr>mm_in := idle_mess\<lparr>w_i1 := 2, w_i2 := 9\<rparr>\<rparr>"

lemma kill_9_done:
  assumes "pool_ok h" "avail h = {16..<272}" "slot_ids h \<noteq> []"
  defines "s \<equiv> kill_9 (sized (family 1 1 3 h))"
  shows "\<exists>s'. do_kill (calm 0) s = Done (OK, s') \<and> zombie s' 3"
proof -
  define s0 where "s0 = sized (family 1 1 3 h)"
  note d = demo_table [of 1 1, OF _ _ _ assms(1-3), of 3, folded s0_def, simplified]
  define s1 where "s1 = upd_slot 3 (mp_sigstatus_update (\<lambda>_. 9)) s"
  have t: "tab s = tab s0" "mp s = 3" using d(7) by (simp_all add: s_def kill_9_def s0_def [symmetric])
  have f0: "same_family s0 s" by (simp add: same_family_def t(1)) (simp add: s_def kill_9_def s0_def [symmetric])
  have f: "same_family s0 s1" using same_family_trans [OF f0 same_family_upd] by (simp add: s1_def)
  have fl: "mp_flags (tab s 3) = 1" "mp_flags (tab s 2) = 1" "mp_pid (tab s 2) = 1" "mp_pid (tab s 3) = 2"
    "mp_effuid (tab s 3) = 0" "mp_ignore (tab s 3) = 0" "mp_catch (tab s 3) = 0" "mp_procgrp (tab s 3) = 0"
    by (simp_all add: t s0_def sized_def family_slots busy_def idle_slot_def)
  have tb: "takes_back (calm 0) s1" using d(4) by (simp add: takes_back_def s1_def s_def kill_9_def s0_def [symmetric])
  have c: "3 \<in> used s1 - founders" using d(1) by (simp add: same_familyD [OF f])
  obtain s2 where s2: "mm_exit (calm 0) 3 0 s1 = Done s2" "zombie s2 3" "3 \<in> used s2"
    using exit_settled [OF calm_answers _ _ c tb, of 0] d(2,3,9,10)
    by (auto simp: same_familyD [OF f] same_family_ok [OF f])
  have core: "drop_bit (nat (9 - 1)) core_bits AND 1 = 0" by (simp add: core_bits_def)
  have "sig_proc (calm 0) 3 9 s = Done s2"
    using fl s2(1) core by (simp add: sig_proc_def flag_demo sig_default_def s1_def [symmetric])
  moreover have "unpause (calm 0) 3 s2 = Done (say (TellFs UNPAUSE_CALL 3 0 0) s2)"
    using s2(2) by (simp add: unpause_def zombie_def)
  moreover have "slots 2 = 2 # 3 # slots 4" by (simp add: slots_def upto_rec1)
  ultimately have "sig_scan (calm 0) 2 9 0 (slots 2) 0 s = Done (1, say (TellFs UNPAUSE_CALL 3 0 0) s2)"
    using fl t(2) by (simp add: flag_demo send_sig_def)
  moreover have "mp s2 = 3" using mm_exit_reaches [OF s2(1), of UNIV] by (simp add: reaches_def s1_def t)
  moreover have "w_i1 (mm_in s) = 2" "w_i2 (mm_in s) = 9" by (simp_all add: s_def kill_9_def)
  ultimately have "do_kill (calm 0) s = Done (OK, (say (TellFs UNPAUSE_CALL 3 0 0) s2)\<lparr>dont_reply := True\<rparr>)"
    using fl s2(2) t(2) by (simp add: do_kill_def check_sig_def zombie_def Let_def)
  then show ?thesis using s2(2) by (simp add: zombie_def)
qed

theorem kill_respects_identity_witness:
  "\<exists>s s'. do_kill (calm 0) s = Done (OK, s') \<and> \<not> zombie s 3 \<and> zombie s' 3 \<and> reaches {3} s s'"
proof -
  obtain h where h: "pool_ok h" "avail h = {16..<272}" "slot_ids h \<noteq> []" using small_pool by blast
  define s where "s = kill_9 (sized (family 1 1 3 h))"
  obtain s' where s': "do_kill (calm 0) s = Done (OK, s')" "zombie s' 3" using kill_9_done [OF h] s_def by blast
  have t: "tab s = tab (sized (family 1 1 3 h))" "w_i1 (mm_in s) = 2" by (simp_all add: s_def kill_9_def)
  have "mp_pid (tab s i) = 2 \<Longrightarrow> i = 3" for i
    unfolding t(1) by (auto simp: sized_def family_slots busy_def idle_slot_def split: if_split_asm)
  then have "{i\<in>{2..31}. may_reach s (w_i1 (mm_in s)) (w_i2 (mm_in s)) (mp_effuid (tab s (mp s))) i} \<subseteq> {3}"
    by (auto simp: may_reach_def t(2))
  then have "reaches {3} s s'" using reaches_mono [OF kill_respects_identity [OF s'(1)]] by blast
  moreover have "\<not> zombie s 3" by (simp add: zombie_def t(1) sized_def family_slots busy_def flag_demo)
  ultimately show ?thesis using s' by blast
qed

text \<open>kill(-1) of the superuser sends the signal to zombies too: the test for a process that has
  exited comes before the one that turns \<open>send_sig\<close> on again.\<close>

lemma superuser_broadcast_hits_zombies:
  assumes "has HANGING (mp_flags p)" "mp_pid p \<noteq> INIT_PID"
  shows "send_sig caller (-1) sig_nr SUPER_USER p"
  using assms by (simp add: send_sig_def)

lemma call_69_undefined: "call_vec e 69 s = Stuck"
  by (simp add: call_vec_def)

subsection \<open>Exec\<close>



text \<open>
  C40: patch_ptr relocates exactly the argument and environment pointers.  On a well-formed stack
  image (the argument count, the argv pointers and a null, the environment pointers and a null)
  it adds the base to every pointer and changes neither the count, the nulls nor the strings
  that follow.
\<close>
theorem patch_ptr_relocates:
  assumes "0 \<notin> set argv" "0 \<notin> set envp"
  shows "patch_ptr (nargs # argv @ [0] @ envp @ [0] @ strings) base =
    nargs # map (\<lambda>p. p + base) argv @ [0] @ map (\<lambda>p. p + base) envp @ [0] @ strings"
proof -
  have stop: "patch_from (Suc (Suc 0)) base xs = xs" for xs by (cases xs) simp_all
  have two: "patch_from 1 base (envp @ [0] @ strings) = map (\<lambda>p. p + base) envp @ [0] @ strings"
    using assms(2) by (induction envp) (auto simp: stop)
  have "patch_from 0 base (argv @ [0] @ xs) = map (\<lambda>p. p + base) argv @ [0] @ patch_from 1 base xs" for xs
    using assms(1) by (induction argv) auto
  then show ?thesis using two by (simp add: patch_ptr_def)
qed

theorem patch_ptr_relocates_witness: "patch_ptr [2, 16, 20, 0, 24, 0, 0x61620000] 0x1000 = [2, 0x1010, 0x1014, 0, 0x1018, 0, 0x61620000]"
  using patch_ptr_relocates [where argv = "[16, 20]" and envp = "[24]" and nargs = 2 and strings = "[0x61620000]" and base = "0x1000"]
  by simp

subsection \<open>What exec does not check\<close>

text \<open>Sizes of text and of the rest that exceed 16 bits of clicks together: the sum compared with
  the largest hole, and allocated, is small although the text segment is not.\<close>

lemma exec_size_wraps: "clicks_up 0xFFF000 = 0xFFF0 \<and> exec_need 0xFFF000 0x2000 = 0x10"
  by (simp add: exec_need_def clicks_up_def click_of_def)

text \<open>A header length byte above 64 makes read_header read beyond its buffer of 32 bytes.\<close>

lemma long_header_overruns:
  assumes "read_fs e fd 32 s = (32, buf, s1)" "nth_long buf 0 AND 0xFF0FFFFF = MAGIC" "nth_long buf 6 \<noteq> 0"
    and "clicks_up (h_data (exec_sizes buf) + h_bss (exec_sizes buf)) < clicks_up (h_tot (exec_sizes buf))"
    and "64 < uint (nth_long buf 1 AND 0xFF)"
  shows "read_header e fd sc s = Stuck"
  using assms by (simp add: read_header_def Let_def not_le)

text \<open>A segment of less than \<open>2 ^ 24\<close> bytes is always loaded or given up.\<close>

lemma sint_small:
  "0 \<le> z \<Longrightarrow> z < 32768 \<Longrightarrow> sint (word_of_int z :: u16) = z"
  "0 \<le> z \<Longrightarrow> z < 2147483648 \<Longrightarrow> sint (word_of_int z :: addr) = z"
  using signed_take_bit_int_eq_self [of 15 z] signed_take_bit_int_eq_self [of 31 z]
  by (simp_all add: signed_of_int)

lemma load_loop_returns:
  "0 \<le> z \<Longrightarrow> z \<le> int n * 31744 \<Longrightarrow> z < 2147483648 \<Longrightarrow> \<exists>s'. load_loop n e fd p (word_of_int z) s = Done s'"
proof (induction n arbitrary: p z s)
  case 0
  then show ?case by (simp add: load_loop.simps)
next
  case (Suc n)
  have z: "sint (word_of_int z :: addr) = z" using sint_small(2) Suc.prems by simp
  show ?case
  proof (cases "z < 31744")
    case True
    have "ucast (word_of_int z :: addr) = (word_of_int z :: u16)" by (rule bit_word_eqI) (simp add: bit_simps)
    then have "sint (ucast (word_of_int z :: addr) :: u16) = z" using sint_small(1) Suc.prems(1) True by simp
    then show ?thesis
      using True z by (simp add: load_loop.simps [of "Suc n"] load_loop.simps [of n] Let_def)
  next
    case False
    have "word_of_int z - 31744 = (word_of_int (z - 31744) :: addr)" by simp
    then show ?thesis
      using False z Suc.prems Suc.IH [of "z - 31744"]
      by (simp add: load_loop.simps [of "Suc n"] Let_def)
  qed
qed

end
