(* ===== verification/Fs_State.thy ===== *)
theory Fs_State
  imports Kernel_State
begin

section \<open>File system: tables, messages and globals\<close>

text \<open>
  The data of fs/buf.h, inode.h, super.h, file.h, fproc.h, glo.h, type.h and param.h for the
  68000 (an \<open>int\<close> has 16 bits, an \<open>off_t\<close> is a signed long).  A pointer into one of the tables
  is the index of the entry, nil is \<open>None\<close>.  Block contents and the two message buffers \<open>m_in\<close>
  and \<open>m_out\<close> are bytes, because the code reads the same bytes as words, zones, directory entries
  or inodes, and the message formats overlap.  The file system is a server: what it does
  outside its own tables are messages to tasks, processes and the kernel, which \<open>sent\<close> records,
  the latest first; the answers come from an environment, whose components are functions of
  everything sent so far.
\<close>

unbundle bit_operations_syntax

type_synonym bytes = "addr \<Rightarrow> 8 word"

subsection \<open>Constants\<close>

abbreviation (input) "NR_BUFS \<equiv> (30::nat)"
abbreviation (input) "NR_BUF_HASH \<equiv> (32::nat)"
abbreviation (input) "NR_FILPS \<equiv> (64::nat)"
abbreviation (input) "NR_INODES \<equiv> (32::nat)"
abbreviation (input) "NR_SUPERS \<equiv> (5::nat)"
abbreviation (input) "I_MAP_SLOTS \<equiv> (8::nat)"
abbreviation (input) "ZMAP_SLOTS \<equiv> (8::nat)"
abbreviation (input) "OPEN_MAX \<equiv> (20::nat)"
abbreviation (input) "NAME_MAX \<equiv> (14::nat)"
abbreviation (input) "PATH_MAX \<equiv> (255::nat)"
abbreviation (input) "BLOCK_SIZE \<equiv> (1024::addr)"
abbreviation (input) "NR_DZONE_NUM \<equiv> (7::nat)"
abbreviation (input) "NR_INDIRECTS \<equiv> (512::nat)"
abbreviation (input) "PIPE_SIZE \<equiv> (7168::addr)"
abbreviation (input) "MAX_FILE_POS \<equiv> (0x7FFFFFFF::addr)"
abbreviation (input) "NO_DEV \<equiv> (0xFFFF::u16)"
abbreviation (input) "NO_BLOCK \<equiv> (0::u16)"
abbreviation (input) "NO_ZONE \<equiv> (0::u16)"
abbreviation (input) "NO_BIT \<equiv> (0::u16)"
abbreviation (input) "ROOT_INODE \<equiv> (1::u16)"
abbreviation (input) "SUPER_BLOCK \<equiv> (1::u16)"
abbreviation (input) "SUPER_MAGIC \<equiv> (0x137F::u16)"
abbreviation (input) "DIRTY \<equiv> True"
abbreviation (input) "CLEAN \<equiv> False"
abbreviation (input) "ATIME \<equiv> (2::8 word)"
abbreviation (input) "CTIME \<equiv> (4::8 word)"
abbreviation (input) "MTIME \<equiv> (8::8 word)"

abbreviation (input) "I_TYPE \<equiv> (0xF000::u16)"
abbreviation (input) "I_REGULAR \<equiv> (0x8000::u16)"
abbreviation (input) "I_BLOCK_SPECIAL \<equiv> (0x6000::u16)"
abbreviation (input) "I_DIRECTORY \<equiv> (0x4000::u16)"
abbreviation (input) "I_CHAR_SPECIAL \<equiv> (0x2000::u16)"
abbreviation (input) "I_NAMED_PIPE \<equiv> (0x1000::u16)"
abbreviation (input) "ALL_MODES \<equiv> (0xDFF::u16)"
abbreviation (input) "RWX_MODES \<equiv> (0x1FF::u16)"
abbreviation (input) "R_BIT \<equiv> (4::u16)"
abbreviation (input) "W_BIT \<equiv> (2::u16)"
abbreviation (input) "X_BIT \<equiv> (1::u16)"

abbreviation (input) "NR_USERS \<equiv> (32::nat)"
abbreviation (input) "XPIPE \<equiv> (-10::int)"
abbreviation (input) "XOPEN \<equiv> (-11::int)"
abbreviation (input) "SUSPEND \<equiv> (-998::int)"
abbreviation (input) "END_OF_FILE \<equiv> (-104::int)"

abbreviation (input) "EPERM \<equiv> (-1::int)"
abbreviation (input) "ENOENT \<equiv> (-2::int)"
abbreviation (input) "EINTR \<equiv> (-4::int)"
abbreviation (input) "ENXIO \<equiv> (-6::int)"
abbreviation (input) "EBADF \<equiv> (-9::int)"
abbreviation (input) "EAGAIN \<equiv> (-11::int)"
abbreviation (input) "EACCES \<equiv> (-13::int)"
abbreviation (input) "ENOTBLK \<equiv> (-15::int)"
abbreviation (input) "EBUSY \<equiv> (-16::int)"
abbreviation (input) "EEXIST \<equiv> (-17::int)"
abbreviation (input) "EXDEV \<equiv> (-18::int)"
abbreviation (input) "ENOTDIR \<equiv> (-20::int)"
abbreviation (input) "EISDIR \<equiv> (-21::int)"
abbreviation (input) "EINVAL \<equiv> (-22::int)"
abbreviation (input) "ENFILE \<equiv> (-23::int)"
abbreviation (input) "EMFILE \<equiv> (-24::int)"
abbreviation (input) "ENOTTY \<equiv> (-25::int)"
abbreviation (input) "EFBIG \<equiv> (-27::int)"
abbreviation (input) "ENOSPC \<equiv> (-28::int)"
abbreviation (input) "ESPIPE \<equiv> (-29::int)"
abbreviation (input) "EROFS \<equiv> (-30::int)"
abbreviation (input) "EMLINK \<equiv> (-31::int)"
abbreviation (input) "EPIPE \<equiv> (-32::int)"
abbreviation (input) "ENAMETOOLONG \<equiv> (-36::int)"
abbreviation (input) "ENOTEMPTY \<equiv> (-39::int)"
abbreviation (input) "ERROR \<equiv> (-99::int)"
abbreviation (input) "EBADCALL \<equiv> (-102::int)"

subsection \<open>Tables\<close>

record buf =
  b_data :: bytes
  b_next :: ptr
  b_prev :: ptr
  b_hash :: ptr
  b_blocknr :: u16
  b_dev :: u16
  b_dirt :: bool
  b_count :: int

record inode =
  i_mode :: u16
  i_uid :: u16
  i_size :: addr
  i_mtime :: addr
  i_gid :: "8 word"
  i_nlinks :: "8 word"
  i_zone :: "nat \<Rightarrow> u16"
  i_atime :: addr
  i_ctime :: addr
  i_dev :: u16
  i_num :: u16
  i_count :: int
  i_dirt :: bool
  i_pipe :: bool
  i_mount :: bool
  i_seek :: bool
  i_update :: "8 word"

record super_block =
  s_ninodes :: u16
  s_nzones :: u16
  s_imap_blocks :: u16
  s_zmap_blocks :: u16
  s_firstdatazone :: u16
  s_log_zone_size :: u16
  s_max_size :: addr
  s_magic :: u16
  s_imap :: "nat \<Rightarrow> ptr"
  s_zmap :: "nat \<Rightarrow> ptr"
  s_dev :: u16
  s_isup :: ptr
  s_imount :: ptr
  s_time :: addr
  s_rd_only :: "8 word"
  s_dirt :: bool

record filp =
  filp_mode :: u16
  filp_flags :: u16
  filp_count :: int
  filp_ino :: ptr
  filp_pos :: addr

record fproc =
  fp_umask :: u16
  fp_workdir :: ptr
  fp_rootdir :: ptr
  fp_filp :: "nat \<Rightarrow> ptr"
  fp_realuid :: u16
  fp_effuid :: u16
  fp_realgid :: "8 word"
  fp_effgid :: "8 word"
  fs_tty :: u16
  fp_fd :: u16
  fp_buffer :: addr
  fp_nbytes :: int
  fp_suspended :: bool
  fp_revived :: bool
  fp_task :: int
  fp_pid :: int
  fp_pgrp :: int

subsection \<open>Messages\<close>

text \<open>
  What a driver is asked to do.  \<open>Transfer\<close> has the request code, the position, the number of
  bytes, the process and the address of its buffer, and the non-blocking flag; a transfer of a
  cache block carries the block itself, and a scattered request its vector.
\<close>

datatype io =
    Transfer int addr int int addr bool
  | BlockRead addr
  | BlockWrite addr bytes
  | VectorRead "addr list"
  | VectorWrite "(addr \<times> bytes) list"
  | TtyIoctl int int addr addr
  | SetPgrp int int
  | Cancel int u16

text \<open>
  \<open>Dev task device dev io\<close>: \<open>device\<close> is the field of that name in the message, \<open>dev\<close> the
  device it was derived from.
\<close>

datatype fs_msg =
    Dev int u16 u16 io
  | ToUser int int addr addr bytes
  | FromUser int int addr addr
  | FsReply int bytes
  | GetTime
  | SetTime addr
  | SysTimes int
  | SysKill int int
  | MmBrk2 int int int addr
  | RamSize int
  | AskTty
  | GetBoot

record fs_env =
  io_send :: "fs_msg list \<Rightarrow> int"
  io_locked :: "fs_msg list \<Rightarrow> (int \<times> int) list"
  io_status :: "fs_msg list \<Rightarrow> int"
  io_type :: "fs_msg list \<Rightarrow> int"
  io_data :: "fs_msg list \<Rightarrow> bytes"
  io_left :: "fs_msg list \<Rightarrow> nat \<Rightarrow> int"
  io_vector :: "fs_msg list \<Rightarrow> nat \<Rightarrow> bytes"
  io_tty :: "fs_msg list \<Rightarrow> addr \<times> addr"
  copy_status :: "fs_msg list \<Rightarrow> int"
  user_data :: "fs_msg list \<Rightarrow> bytes"
  task_status :: "fs_msg list \<Rightarrow> int"
  task_long :: "fs_msg list \<Rightarrow> nat \<Rightarrow> addr"
  boot_answer :: "fs_msg list \<Rightarrow> (u16 \<times> u16 \<times> u16) option"
  tty_line :: "fs_msg list \<Rightarrow> (int \<times> 8 word list) option"
  data_org :: "nat \<Rightarrow> u16"
  buf_addr :: "ptr \<Rightarrow> addr"
  addr_buf :: "addr \<Rightarrow> ptr"
  inode_addr :: "ptr \<Rightarrow> addr"
  addr_inode :: "addr \<Rightarrow> ptr"

subsection \<open>State\<close>

record fs =
  bufs :: "nat \<Rightarrow> buf"
  buf_hash :: "nat \<Rightarrow> ptr"
  front :: ptr
  rear :: ptr
  bufs_in_use :: int
  inodes :: "nat \<Rightarrow> inode"
  supers :: "nat \<Rightarrow> super_block"
  filps :: "nat \<Rightarrow> filp"
  fprocs :: "nat \<Rightarrow> fproc"
  fp :: nat
  super_user :: bool
  dont_reply :: bool
  susp_count :: int
  reviving :: int
  rdahedpos :: addr
  rdahed_inode :: ptr
  m_in :: bytes
  m_out :: bytes
  who :: int
  fs_call :: int
  user_path :: "nat \<Rightarrow> 8 word"
  err_code :: int
  rdwt_err :: int
  root_dev :: u16
  boot_dev :: u16
  ramsize :: u16
  sent :: "fs_msg list"

definition upd_buf :: "nat \<Rightarrow> (buf \<Rightarrow> buf) \<Rightarrow> fs \<Rightarrow> fs" where
  "upd_buf i f s = s\<lparr>bufs := (bufs s)(i := f (bufs s i))\<rparr>"

definition upd_inode :: "nat \<Rightarrow> (inode \<Rightarrow> inode) \<Rightarrow> fs \<Rightarrow> fs" where
  "upd_inode i f s = s\<lparr>inodes := (inodes s)(i := f (inodes s i))\<rparr>"

definition upd_super :: "nat \<Rightarrow> (super_block \<Rightarrow> super_block) \<Rightarrow> fs \<Rightarrow> fs" where
  "upd_super i f s = s\<lparr>supers := (supers s)(i := f (supers s i))\<rparr>"

definition upd_filp :: "nat \<Rightarrow> (filp \<Rightarrow> filp) \<Rightarrow> fs \<Rightarrow> fs" where
  "upd_filp i f s = s\<lparr>filps := (filps s)(i := f (filps s i))\<rparr>"

definition upd_fproc :: "nat \<Rightarrow> (fproc \<Rightarrow> fproc) \<Rightarrow> fs \<Rightarrow> fs" where
  "upd_fproc i f s = s\<lparr>fprocs := (fprocs s)(i := f (fprocs s i))\<rparr>"

definition send :: "fs_msg \<Rightarrow> fs \<Rightarrow> fs" where
  "send x s = s\<lparr>sent := x # sent s\<rparr>"

definition fail :: "int \<Rightarrow> fs \<Rightarrow> fs" where
  "fail code s = s\<lparr>err_code := code\<rparr>"

subsection \<open>Fields of the messages\<close>

definition fd :: "fs \<Rightarrow> int" where "fd s = get_int (m_in s) m1_i1"
definition fd2 :: "fs \<Rightarrow> int" where "fd2 s = get_int (m_in s) m1_i2"
definition arg3 :: "fs \<Rightarrow> int" where "arg3 s = get_int (m_in s) m1_i3"
definition nbytes :: "fs \<Rightarrow> int" where "nbytes s = get_int (m_in s) m1_i2"
definition buffer :: "fs \<Rightarrow> addr" where "buffer s = get32 (m_in s) m1_p1"
definition name2 :: "fs \<Rightarrow> addr" where "name2 s = get32 (m_in s) 14"
definition fs_name :: "fs \<Rightarrow> addr" where "fs_name s = get32 (m_in s) 8"
definition fs_mode :: "fs \<Rightarrow> u16" where "fs_mode s = get16 (m_in s) m1_i2"
definition pathname :: "fs \<Rightarrow> nat \<Rightarrow> 8 word" where "pathname s k = m_in s (12 + of_nat k)"
definition utime_file :: "fs \<Rightarrow> addr" where "utime_file s = get32 (m_in s) 18"

definition set_fd :: "int \<Rightarrow> fs \<Rightarrow> fs" where "set_fd v s = s\<lparr>m_in := put_int m1_i1 v (m_in s)\<rparr>"
definition set_fd2 :: "int \<Rightarrow> fs \<Rightarrow> fs" where "set_fd2 v s = s\<lparr>m_in := put_int m1_i2 v (m_in s)\<rparr>"
definition set_nbytes :: "int \<Rightarrow> fs \<Rightarrow> fs" where "set_nbytes v s = s\<lparr>m_in := put_int m1_i2 v (m_in s)\<rparr>"
definition set_buffer :: "addr \<Rightarrow> fs \<Rightarrow> fs" where "set_buffer v s = s\<lparr>m_in := put32 m1_p1 v (m_in s)\<rparr>"

definition reply_i1 :: "int \<Rightarrow> fs \<Rightarrow> fs" where "reply_i1 v s = s\<lparr>m_out := put_int m1_i1 v (m_out s)\<rparr>"
definition reply_i2 :: "int \<Rightarrow> fs \<Rightarrow> fs" where "reply_i2 v s = s\<lparr>m_out := put_int m1_i2 v (m_out s)\<rparr>"
definition reply_l1 :: "addr \<Rightarrow> fs \<Rightarrow> fs" where "reply_l1 v s = s\<lparr>m_out := put32 m2_l1 v (m_out s)\<rparr>"

text \<open>Whether some of the flags \<open>f\<close> are on in \<open>w\<close>.\<close>

definition on :: "'a::len word \<Rightarrow> 'a word \<Rightarrow> bool" where
  "on f w \<longleftrightarrow> w AND f \<noteq> 0"

end
