(* ===== verification/Fs_Device.thy ===== *)
theory Fs_Device
  imports Fs_State
begin

section \<open>File system: descriptors, suspended processes and drivers\<close>

text \<open>
  fs/filedes.c, the part of fs/pipe.c that suspends and revives processes, and fs/device.c.
  \<open>rw_dev\<close> loops as long as \<open>sendrec\<close> answers ELOCKED; the REVIVE messages it takes in
  meanwhile are the list \<open>io_locked\<close> of the environment.
\<close>

unbundle bit_operations_syntax

subsection \<open>fs/filedes.c\<close>

fun fd_scan :: "(nat \<Rightarrow> ptr) \<Rightarrow> nat list \<Rightarrow> nat option" where
  "fd_scan t [] = None"
| "fd_scan t (i # is) = (if t i = None then Some i else fd_scan t is)"

fun filp_scan :: "(nat \<Rightarrow> filp) \<Rightarrow> nat list \<Rightarrow> nat option" where
  "filp_scan t [] = None"
| "filp_scan t (f # fs) = (if filp_count (t f) = 0 then Some f else filp_scan t fs)"

text \<open>The result code, the descriptor and the \<open>filp\<close> slot.\<close>

definition get_fd :: "nat \<Rightarrow> u16 \<Rightarrow> fs \<Rightarrow> (int \<times> nat \<times> nat) \<times> fs" where
  "get_fd start bits s =
     (case fd_scan (fp_filp (fprocs s (fp s))) [start..<OPEN_MAX] of
        None \<Rightarrow> ((EMFILE, 0, 0), s)
      | Some k \<Rightarrow>
          (case filp_scan (filps s) [0..<NR_FILPS] of
             None \<Rightarrow> ((ENFILE, k, 0), s)
           | Some f \<Rightarrow>
               ((OK, k, f), upd_filp f (\<lambda>p. p\<lparr>filp_mode := bits, filp_pos := 0, filp_flags := 0\<rparr>) s)))"

definition get_filp :: "int \<Rightarrow> fs \<Rightarrow> ptr \<times> fs" where
  "get_filp fild s =
     (let s = fail EBADF s
      in (if fild < 0 \<or> fild \<ge> int OPEN_MAX then None else fp_filp (fprocs s (fp s)) (nat fild), s))"

fun filp_find :: "(nat \<Rightarrow> filp) \<Rightarrow> nat \<Rightarrow> u16 \<Rightarrow> nat list \<Rightarrow> ptr" where
  "filp_find t rip bits [] = None"
| "filp_find t rip bits (f # fs) =
     (if filp_count (t f) \<noteq> 0 \<and> filp_ino (t f) = Some rip \<and> on bits (filp_mode (t f))
      then Some f else filp_find t rip bits fs)"

definition find_filp :: "nat \<Rightarrow> u16 \<Rightarrow> fs \<Rightarrow> ptr" where
  "find_filp rip bits s = filp_find (filps s) rip bits [0..<NR_FILPS]"

subsection \<open>Suspending and reviving\<close>

definition reply :: "int \<Rightarrow> int \<Rightarrow> fs \<Rightarrow> fs" where
  "reply whom result s =
     (let s = s\<lparr>m_out := put_int off_type result (m_out s)\<rparr> in send (FsReply whom (m_out s)) s)"

definition suspend :: "int \<Rightarrow> fs \<Rightarrow> fs" where
  "suspend task s =
     (let s = (if task = XPIPE \<or> task = XOPEN then s\<lparr>susp_count := susp_count s + 1\<rparr> else s);
          s = upd_fproc (fp s) (\<lambda>p. p\<lparr>fp_suspended := True, fp_fd := push_bit 8 (word_of_int (fd s)) OR word_of_int (fs_call s),
                fp_buffer := buffer s, fp_nbytes := nbytes s, fp_task := - task\<rparr>) s
      in s\<lparr>dont_reply := True\<rparr>)"

text \<open>\<open>fp_fd >> 8\<close> of an \<open>int\<close>, and its low byte.\<close>

definition fd_high :: "u16 \<Rightarrow> int" where
  "fd_high w = sint w div 256"

definition fd_low :: "u16 \<Rightarrow> int" where
  "fd_low w = uint (w AND 0xFF)"

definition revive :: "int \<Rightarrow> int \<Rightarrow> fs \<Rightarrow> fs run" where
  "revive proc_nr bytes s =
     (if proc_nr < 0 \<or> proc_nr \<ge> int NR_USERS then Panics ''revive err''
      else
        let rfp = nat proc_nr; p = fprocs s rfp
        in if \<not> fp_suspended p \<or> fp_revived p then Done s
           else
             let task = - fp_task p
             in if task = XPIPE then
                  let s = upd_fproc rfp (fp_revived_update (\<lambda>_. True)) s
                  in Done (s\<lparr>reviving := reviving s + 1\<rparr>)
                else
                  let s = upd_fproc rfp (fp_suspended_update (\<lambda>_. False)) s
                  in if task = XOPEN then Done (reply proc_nr (fd_high (fp_fd p)) s)
                     else
                       let s = upd_fproc rfp (fp_nbytes_update (\<lambda>_. bytes)) s
                       in Done (reply proc_nr bytes s))"

text \<open>Whether the process at \<open>rp\<close> hangs on the pipe \<open>ip\<close> in the call \<open>call_nr\<close>.\<close>

definition hangs_on :: "nat \<Rightarrow> int \<Rightarrow> nat \<Rightarrow> fs \<Rightarrow> bool run" where
  "hangs_on ip call_nr rp s =
     (let p = fprocs s rp
      in if fp_suspended p \<and> \<not> fp_revived p \<and> fd_low (fp_fd p) = call_nr then
           andthen (deref (fp_filp p (nat (fd_high (fp_fd p))))) (\<lambda>f. Done (filp_ino (filps s f) = Some ip))
         else Done False)"

fun release_scan :: "nat \<Rightarrow> int \<Rightarrow> int \<Rightarrow> nat list \<Rightarrow> fs \<Rightarrow> fs run" where
  "release_scan ip call_nr count [] s = Done s"
| "release_scan ip call_nr count (rp # rps) s =
     andthen (hangs_on ip call_nr rp s) (\<lambda>h.
     if h then
       andthen (revive (int rp) 0 s) (\<lambda>s.
       let s = s\<lparr>susp_count := susp_count s - 1\<rparr>; count = count - 1
       in if count = 0 then Done s else release_scan ip call_nr count rps s)
     else release_scan ip call_nr count rps s)"

definition release :: "nat \<Rightarrow> int \<Rightarrow> int \<Rightarrow> fs \<Rightarrow> fs run" where
  "release ip call_nr count s = release_scan ip call_nr count [0..<NR_USERS] s"

subsection \<open>Calling drivers\<close>

definition dmap_task :: "nat \<Rightarrow> int run" where
  "dmap_task major =
     (if major = 1 then Done (-4) else if major = 2 then Done (-5) else if major = 3 then Done (-6)
      else if major = 4 \<or> major = 5 then Done (-9) else if major = 6 then Done (-7) else Stuck)"

definition major_of :: "u16 \<Rightarrow> nat" where
  "major_of dev = unat (drop_bit 8 dev AND 0xFF)"

definition minor_of :: "u16 \<Rightarrow> u16" where
  "minor_of dev = dev AND 0xFF"

definition find_dev :: "u16 \<Rightarrow> int run" where
  "find_dev dev =
     (if major_of dev = 0 \<or> major_of dev \<ge> 7 then Panics ''bad major dev'' else dmap_task (major_of dev))"

text \<open>REVIVE messages taken in before the request goes through; true when one of them makes
  a cancellation pointless.\<close>

fun take_revives :: "io \<Rightarrow> (int \<times> int) list \<Rightarrow> fs \<Rightarrow> (bool \<times> fs) run" where
  "take_revives io [] s = Done (False, s)"
| "take_revives io ((p, status) # xs) s =
     (if (case io of Cancel q _ \<Rightarrow> p = q | _ \<Rightarrow> False) then Done (True, s)
      else andthen (revive p status s) (take_revives io xs))"

definition rw_dev :: "fs_env \<Rightarrow> int \<Rightarrow> u16 \<Rightarrow> u16 \<Rightarrow> io \<Rightarrow> fs \<Rightarrow> fs run" where
  "rw_dev e task_nr device dev io s =
     andthen (take_revives io (io_locked e (sent s)) s) (\<lambda>(gone, s).
     if gone then Done s
     else let s = send (Dev task_nr device dev io) s
          in if io_send e (sent s) \<noteq> OK then Panics ''rw_dev: cannot send'' else Done s)"

definition rw_dev2 :: "fs_env \<Rightarrow> u16 \<Rightarrow> io \<Rightarrow> fs \<Rightarrow> fs run" where
  "rw_dev2 e dev io s =
     (let tty = fs_tty (fprocs s (fp s))
      in if tty = 0 then rw_dev e (-4) 3 dev io s
         else andthen (dmap_task (major_of tty)) (\<lambda>task_nr. rw_dev e task_nr (minor_of tty) dev io s))"

definition dmap_rw :: "fs_env \<Rightarrow> nat \<Rightarrow> int \<Rightarrow> u16 \<Rightarrow> u16 \<Rightarrow> io \<Rightarrow> fs \<Rightarrow> fs run" where
  "dmap_rw e major task device dev io s =
     (if major = 0 \<or> major \<ge> 7 then Stuck
      else if major = 5 then rw_dev2 e dev io s else rw_dev e task device dev io s)"

definition dev_call :: "fs_env \<Rightarrow> u16 \<Rightarrow> io \<Rightarrow> fs \<Rightarrow> (int \<times> fs) run" where
  "dev_call e dev io s =
     andthen (find_dev dev) (\<lambda>task.
     andthen (dmap_rw e (major_of dev) task (minor_of dev) dev io s) (\<lambda>s.
     let status = io_status e (sent s)
     in Done (status, if status = SUSPEND then suspend task s else s)))"

definition dev_io :: "fs_env \<Rightarrow> bool \<Rightarrow> bool \<Rightarrow> u16 \<Rightarrow> addr \<Rightarrow> int \<Rightarrow> int \<Rightarrow> addr \<Rightarrow> fs \<Rightarrow> (int \<times> fs) run" where
  "dev_io e writing nonblock dev pos bytes proc buff =
     dev_call e dev (Transfer (if writing then 4 else 3) pos bytes proc buff nonblock)"

definition tty_open :: "fs_env \<Rightarrow> int \<Rightarrow> u16 \<Rightarrow> fs \<Rightarrow> (int \<times> fs) run" where
  "tty_open e task_nr dev s =
     (let p = fprocs s (fp s)
      in if fp_pid p \<noteq> fp_pgrp p \<or> fs_tty p \<noteq> 0 \<or> list_ex (\<lambda>i. fs_tty (fprocs s i) = dev) [3..<NR_USERS] then Done (OK, s)
         else
           let s = upd_fproc (fp s) (fs_tty_update (\<lambda>_. dev)) s
           in andthen (dmap_rw e (major_of dev) task_nr (minor_of dev) dev (SetPgrp (who s) (who s)) s) (\<lambda>s.
              Done (io_status e (sent s), s)))"

definition dev_open :: "fs_env \<Rightarrow> nat \<Rightarrow> fs \<Rightarrow> (int \<times> fs) run" where
  "dev_open e rip s =
     (if i_count (inodes s rip) > 1 then Done (OK, s)
      else
        let dev = i_zone (inodes s rip) 0
        in andthen (find_dev dev) (\<lambda>task.
           if major_of dev = 4 then tty_open e task dev s else Done (OK, s)))"

definition dev_close :: "nat \<Rightarrow> fs \<Rightarrow> fs run" where
  "dev_close rip s =
     (if i_count (inodes s rip) > 1 then Done s
      else andthen (find_dev (i_zone (inodes s rip) 0)) (\<lambda>_. Done s))"

definition do_ioctl :: "fs_env \<Rightarrow> fs \<Rightarrow> (int \<times> fs) run" where
  "do_ioctl e s =
     (let (f, s) = get_filp (fd s) s
      in case f of None \<Rightarrow> Done (err_code s, s)
         | Some f \<Rightarrow>
             andthen (deref (filp_ino (filps s f))) (\<lambda>rip.
             if i_mode (inodes s rip) AND I_TYPE \<noteq> I_CHAR_SPECIAL then Done (ENOTTY, s)
             else
               let dev = i_zone (inodes s rip) 0
               in andthen (find_dev dev) (\<lambda>task.
                  andthen (dmap_rw e (major_of dev) task (minor_of dev) dev
                             (TtyIoctl (arg3 s) (who s) (get32 (m_in s) m2_l1) (get32 (m_in s) m2_l2)) s) (\<lambda>s.
                  let s = (if io_type e (sent s) = SUSPEND then suspend task s else s);
                      s = s\<lparr>m_out := put32 m2_l1 (fst (io_tty e (sent s))) (m_out s)\<rparr>;
                      s = s\<lparr>m_out := put32 m2_l2 (snd (io_tty e (sent s))) (m_out s)\<rparr>
                  in Done (io_status e (sent s), s)))))"

definition tty_exit :: "fs_env \<Rightarrow> fs \<Rightarrow> fs run" where
  "tty_exit e s =
     (let ttydev = fs_tty (fprocs s (fp s));
          s = fold (\<lambda>i s. if fs_tty (fprocs s i) = ttydev then upd_fproc i (fs_tty_update (\<lambda>_. 0)) s else s) [3..<NR_USERS] s
      in andthen (find_dev ttydev) (\<lambda>task.
         dmap_rw e (major_of ttydev) task (minor_of ttydev) ttydev (SetPgrp (who s) 0) s))"

definition cancel_io :: "fs_env \<Rightarrow> nat \<Rightarrow> fs \<Rightarrow> fs run" where
  "cancel_io e proc_nr s =
     (let p = fprocs s proc_nr; fild = fd_high (fp_fd p) mod 256
      in if fild \<ge> int OPEN_MAX then Panics ''unpause err 2''
         else
           andthen (deref (fp_filp p (nat fild))) (\<lambda>f.
           andthen (deref (filp_ino (filps s f))) (\<lambda>rip.
           let dev = i_zone (inodes s rip) 0
           in dmap_rw e (major_of dev) (- fp_task p) (minor_of dev) dev
                (Cancel (int proc_nr) (if fd_low (fp_fd p) = 3 then R_BIT else W_BIT)) s)))"

definition do_unpause :: "fs_env \<Rightarrow> fs \<Rightarrow> (int \<times> fs) run" where
  "do_unpause e s =
     (let proc_nr = fd s
      in if who s > MM_PROC_NR then Done (EPERM, s)
         else if proc_nr < 0 \<or> proc_nr \<ge> int NR_USERS then Panics ''unpause err 1''
         else
           let rfp = nat proc_nr; task = - fp_task (fprocs s rfp)
           in if \<not> fp_suspended (fprocs s rfp) then Done (OK, s)
              else if task \<noteq> XPIPE then
                andthen (if task \<noteq> XOPEN then cancel_io e rfp s else Done s) (\<lambda>s.
                let s = upd_fproc rfp (fp_suspended_update (\<lambda>_. False)) s
                in Done (OK, reply proc_nr EINTR s))
              else Done (OK, s))"

end
