(* ===== verification/Fs_Cache.thy ===== *)
theory Fs_Cache
  imports Fs_Device
begin

section \<open>File system: the block cache\<close>

text \<open>
  fs/cache.c, with \<open>buf_pool\<close> of fs/main.c and \<open>zero_block\<close> of fs/write.c, for scattered I/O.  The buffers
  are on two kinds of lists, the LRU chain (doubly linked, from \<open>front\<close> to \<open>rear\<close>) and the hash
  chains.  A walk along a hash chain has as many steps as there are buffers; one that needs more
  is on a cyclic chain and does not return.
\<close>

unbundle bit_operations_syntax

datatype search = NORMAL | NO_READ | PREFETCH

abbreviation (input) "WRITE_IMMED \<equiv> (64::u16)"
abbreviation (input) "ONE_SHOT \<equiv> (128::u16)"
abbreviation (input) "INODE_BLOCK \<equiv> (0::u16)"
abbreviation (input) "DIRECTORY_BLOCK \<equiv> (1::u16)"
abbreviation (input) "INDIRECT_BLOCK \<equiv> (2::u16)"
abbreviation (input) "I_MAP_BLOCK \<equiv> (195::u16)"
abbreviation (input) "ZMAP_BLOCK \<equiv> (196::u16)"
abbreviation (input) "ZUPER_BLOCK \<equiv> (197::u16)"
abbreviation (input) "FULL_DATA_BLOCK \<equiv> (6::u16)"
abbreviation (input) "PARTIAL_DATA_BLOCK \<equiv> (7::u16)"

subsection \<open>Sorting a queue of buffers\<close>

text \<open>The shell sort of \<open>rw_scattered\<close>; \<open>sift\<close> is its innermost loop.\<close>

fun sift :: "(nat \<Rightarrow> nat) \<Rightarrow> nat \<Rightarrow> nat list \<Rightarrow> nat \<Rightarrow> nat list" where
  "sift key gap q i =
     (if key (q ! i) > key (q ! (i + gap)) then
        let q' = q[i := q ! (i + gap), i + gap := q ! i]
        in if 0 < gap \<and> gap \<le> i then sift key gap q' (i - gap) else q'
      else q)"

definition shell_pass :: "(nat \<Rightarrow> nat) \<Rightarrow> nat \<Rightarrow> nat list \<Rightarrow> nat list" where
  "shell_pass key gap q = fold (\<lambda>j q. sift key gap q (j - gap)) [gap..<length q] q"

function first_gap :: "nat \<Rightarrow> nat \<Rightarrow> nat" where
  "first_gap n gap = (let gap' = 3 * gap + 1 in if gap' \<le> n then first_gap n gap' else gap')"
  by auto
termination by (relation "measure (\<lambda>(n, gap). n - gap)") auto

fun shell_passes :: "(nat \<Rightarrow> nat) \<Rightarrow> nat \<Rightarrow> nat list \<Rightarrow> nat list" where
  "shell_passes key gap q =
     (if gap \<le> 1 then q else shell_passes key (gap div 3) (shell_pass key (gap div 3) q))"

definition shell_sort :: "(nat \<Rightarrow> nat) \<Rightarrow> nat list \<Rightarrow> nat list" where
  "shell_sort key q = shell_passes key (first_gap (length q) 1) q"

subsection \<open>Blocks and the disk\<close>

definition block_pos :: "u16 \<Rightarrow> addr" where
  "block_pos b = ucast b * BLOCK_SIZE"

definition zero_block :: "nat \<Rightarrow> fs \<Rightarrow> fs" where
  "zero_block bp s = upd_buf bp (\<lambda>b. b\<lparr>b_data := (\<lambda>a. if a < BLOCK_SIZE then 0 else b_data b a), b_dirt := DIRTY\<rparr>) s"

definition rw_block :: "fs_env \<Rightarrow> nat \<Rightarrow> bool \<Rightarrow> fs \<Rightarrow> fs run" where
  "rw_block e bp writing s =
     (let b = bufs s bp; dev = b_dev b; pos = block_pos (b_blocknr b)
      in andthen
        (if dev \<noteq> NO_DEV then
           andthen (dev_call e dev (if writing then BlockWrite pos (b_data b) else BlockRead pos) s) (\<lambda>(r, s).
           let s = (if writing then s else upd_buf bp (b_data_update (\<lambda>_. io_data e (sent s))) s)
           in if r \<noteq> 1024 then
                let r = (if r \<ge> 0 then END_OF_FILE else r);
                    s = upd_buf bp (b_dev_update (\<lambda>_. NO_DEV)) s
                in Done (if writing then s else s\<lparr>rdwt_err := r\<rparr>)
              else Done s)
         else Done s)
        (\<lambda>s. Done (upd_buf bp (b_dirt_update (\<lambda>_. CLEAN)) s)))"

subsection \<open>Releasing a block\<close>

definition lru_remove :: "nat \<Rightarrow> fs \<Rightarrow> fs" where
  "lru_remove bp s =
     (let next_ptr = b_next (bufs s bp); prev_ptr = b_prev (bufs s bp);
          s = (case prev_ptr of Some p \<Rightarrow> upd_buf p (b_next_update (\<lambda>_. next_ptr)) s | None \<Rightarrow> s\<lparr>front := next_ptr\<rparr>)
      in case next_ptr of Some n \<Rightarrow> upd_buf n (b_prev_update (\<lambda>_. prev_ptr)) s | None \<Rightarrow> s\<lparr>rear := prev_ptr\<rparr>)"

definition lru_front :: "nat \<Rightarrow> fs \<Rightarrow> fs" where
  "lru_front bp s =
     (let s = upd_buf bp (\<lambda>b. b\<lparr>b_prev := None, b_next := front s\<rparr>) s;
          s = (case front s of None \<Rightarrow> s\<lparr>rear := Some bp\<rparr> | Some f \<Rightarrow> upd_buf f (b_prev_update (\<lambda>_. Some bp)) s)
      in s\<lparr>front := Some bp\<rparr>)"

definition lru_rear :: "nat \<Rightarrow> fs \<Rightarrow> fs" where
  "lru_rear bp s =
     (let s = upd_buf bp (\<lambda>b. b\<lparr>b_prev := rear s, b_next := None\<rparr>) s;
          s = (case rear s of None \<Rightarrow> s\<lparr>front := Some bp\<rparr> | Some r \<Rightarrow> upd_buf r (b_next_update (\<lambda>_. Some bp)) s)
      in s\<lparr>rear := Some bp\<rparr>)"

definition put_block :: "fs_env \<Rightarrow> ptr \<Rightarrow> u16 \<Rightarrow> fs \<Rightarrow> fs run" where
  "put_block e p block_type s =
     (case p of None \<Rightarrow> Done s
      | Some bp \<Rightarrow>
          let s = upd_buf bp (\<lambda>b. b\<lparr>b_count := b_count b - 1\<rparr>) s
          in if b_count (bufs s bp) \<noteq> 0 then Done s
             else
               let s = s\<lparr>bufs_in_use := bufs_in_use s - 1\<rparr>;
                   s = lru_remove bp s;
                   s = (if on ONE_SHOT block_type then lru_front bp s else lru_rear bp s)
               in andthen
                 (if on WRITE_IMMED block_type \<and> b_dirt (bufs s bp) \<and> b_dev (bufs s bp) \<noteq> NO_DEV
                  then rw_block e bp True s else Done s)
                 (\<lambda>s. Done (if block_type = ZUPER_BLOCK then upd_buf bp (b_dev_update (\<lambda>_. NO_DEV)) s else s)))"

subsection \<open>Scattered I/O\<close>

text \<open>What is done about the \<open>k\<close>th buffer of the vector when the request is over.\<close>

definition harvest :: "fs_env \<Rightarrow> fs_msg list \<Rightarrow> u16 \<Rightarrow> bool \<Rightarrow> nat \<times> nat \<Rightarrow> fs \<Rightarrow> fs run" where
  "harvest e h dev writing kb s =
     (let (k, bp) = kb; left = io_left e h k
      in if writing then
           let s = (if left \<noteq> 0 then upd_buf bp (b_dev_update (\<lambda>_. NO_DEV)) s else s)
           in Done (upd_buf bp (b_dirt_update (\<lambda>_. CLEAN)) s)
         else
           let s = upd_buf bp (b_data_update (\<lambda>_. io_vector e h k)) s;
               s = (if left = 0 then upd_buf bp (b_dev_update (\<lambda>_. dev)) s else s)
           in put_block e (Some bp) PARTIAL_DATA_BLOCK s)"

fun harvest_all :: "fs_env \<Rightarrow> fs_msg list \<Rightarrow> u16 \<Rightarrow> bool \<Rightarrow> (nat \<times> nat) list \<Rightarrow> fs \<Rightarrow> fs run" where
  "harvest_all e h dev writing [] s = Done s"
| "harvest_all e h dev writing (kb # kbs) s =
     andthen (harvest e h dev writing kb s) (harvest_all e h dev writing kbs)"

definition rw_scattered :: "fs_env \<Rightarrow> u16 \<Rightarrow> nat list \<Rightarrow> bool \<Rightarrow> fs \<Rightarrow> fs run" where
  "rw_scattered e dev bufq writing s =
     (if bufq = [] then Done s
      else if length bufq > NR_BUFS then Panics ''Too much scattered i/o''
      else
        let bufq = shell_sort (\<lambda>i. unat (b_blocknr (bufs s i))) bufq;
            pos = (\<lambda>i. block_pos (b_blocknr (bufs s i)));
            io = (if writing then VectorWrite (map (\<lambda>i. (pos i, b_data (bufs s i))) bufq) else VectorRead (map pos bufq))
        in andthen (dev_call e dev io s) (\<lambda>(_, s).
           harvest_all e (sent s) dev writing (zip [0..<length bufq] bufq) s))"

definition flushall :: "fs_env \<Rightarrow> u16 \<Rightarrow> fs \<Rightarrow> fs run" where
  "flushall e dev s =
     rw_scattered e dev (filter (\<lambda>i. b_dirt (bufs s i) \<and> b_dev (bufs s i) = dev) [0..<NR_BUFS]) True s"

subsection \<open>Acquiring a block\<close>

definition hash_of :: "u16 \<Rightarrow> nat" where
  "hash_of block = unat (block AND 31)"

fun hash_find :: "nat \<Rightarrow> fs \<Rightarrow> u16 \<Rightarrow> u16 \<Rightarrow> ptr \<Rightarrow> ptr run" where
  "hash_find n s dev block None = Done None"
| "hash_find 0 s dev block (Some bp) = Stuck"
| "hash_find (Suc n) s dev block (Some bp) =
     (if b_blocknr (bufs s bp) = block \<and> b_dev (bufs s bp) = dev then Done (Some bp)
      else hash_find n s dev block (b_hash (bufs s bp)))"

fun lru_free :: "nat \<Rightarrow> fs \<Rightarrow> ptr \<Rightarrow> nat run" where
  "lru_free n s None = Panics ''No free buffer''"
| "lru_free 0 s (Some bp) = Stuck"
| "lru_free (Suc n) s (Some bp) =
     (if b_count (bufs s bp) \<noteq> 0 then lru_free n s (b_next (bufs s bp)) else Done bp)"

fun unhash_scan :: "nat \<Rightarrow> nat \<Rightarrow> nat \<Rightarrow> fs \<Rightarrow> fs run" where
  "unhash_scan 0 bp prev s = Stuck"
| "unhash_scan (Suc n) bp prev s =
     (case b_hash (bufs s prev) of None \<Rightarrow> Done s
      | Some q \<Rightarrow> if q = bp then Done (upd_buf prev (b_hash_update (\<lambda>_. b_hash (bufs s bp))) s)
                  else unhash_scan n bp q s)"

definition unhash :: "nat \<Rightarrow> fs \<Rightarrow> fs run" where
  "unhash bp s =
     (let h = hash_of (b_blocknr (bufs s bp))
      in if buf_hash s h = Some bp then Done (s\<lparr>buf_hash := (buf_hash s)(h := b_hash (bufs s bp))\<rparr>)
         else andthen (deref (buf_hash s h)) (\<lambda>prev. unhash_scan NR_BUFS bp prev s))"

definition enter_block :: "nat \<Rightarrow> u16 \<Rightarrow> u16 \<Rightarrow> search \<Rightarrow> fs \<Rightarrow> fs" where
  "enter_block bp dev block only_search s =
     (let h = hash_of block;
          s = upd_buf bp (\<lambda>b. b\<lparr>b_dev := if only_search = PREFETCH then NO_DEV else dev, b_blocknr := block,
                b_count := b_count b + 1, b_hash := buf_hash s h\<rparr>) s
      in s\<lparr>buf_hash := (buf_hash s)(h := Some bp)\<rparr>)"

definition take_block :: "fs_env \<Rightarrow> u16 \<Rightarrow> u16 \<Rightarrow> search \<Rightarrow> fs \<Rightarrow> (nat \<times> fs) run" where
  "take_block e dev block only_search s =
     (if bufs_in_use s = int NR_BUFS then Panics ''All buffers in use''
      else
        andthen (deref (front s)) (\<lambda>bp.
        andthen (lru_free NR_BUFS s (Some bp)) (\<lambda>bp.
        let s = s\<lparr>bufs_in_use := bufs_in_use s + 1\<rparr>
        in andthen (unhash bp s) (\<lambda>s.
        andthen (if b_dev (bufs s bp) \<noteq> NO_DEV \<and> b_dirt (bufs s bp) then flushall e (b_dev (bufs s bp)) s else Done s) (\<lambda>s.
        let s = enter_block bp dev block only_search s
        in andthen (if dev \<noteq> NO_DEV \<and> only_search = NORMAL then rw_block e bp False s else Done s) (\<lambda>s.
        Done (bp, s)))))))"

definition get_block :: "fs_env \<Rightarrow> u16 \<Rightarrow> u16 \<Rightarrow> search \<Rightarrow> fs \<Rightarrow> (nat \<times> fs) run" where
  "get_block e dev block only_search s =
     andthen (if dev \<noteq> NO_DEV then hash_find NR_BUFS s dev block (buf_hash s (hash_of block)) else Done None) (\<lambda>found.
     case found of
       Some bp \<Rightarrow>
         let s = (if b_count (bufs s bp) = 0 then s\<lparr>bufs_in_use := bufs_in_use s + 1\<rparr> else s)
         in Done (bp, upd_buf bp (\<lambda>b. b\<lparr>b_count := b_count b + 1\<rparr>) s)
     | None \<Rightarrow> take_block e dev block only_search s)"

definition invalidate :: "u16 \<Rightarrow> fs \<Rightarrow> fs" where
  "invalidate device s =
     fold (\<lambda>i s. if b_dev (bufs s i) = device then upd_buf i (b_dev_update (\<lambda>_. NO_DEV)) s else s) [0..<NR_BUFS] s"

definition buf_pool :: "fs \<Rightarrow> fs" where
  "buf_pool s =
     (let s = s\<lparr>bufs_in_use := 0, front := Some 0, rear := Some (NR_BUFS - 1)\<rparr>;
          s = fold (\<lambda>i. upd_buf i (\<lambda>b. b\<lparr>b_blocknr := NO_BLOCK, b_dev := NO_DEV, b_next := Some (i + 1),
                b_prev := if i = 0 then None else Some (i - 1)\<rparr>)) [0..<NR_BUFS] s;
          s = upd_buf 0 (b_prev_update (\<lambda>_. None)) s;
          s = upd_buf (NR_BUFS - 1) (b_next_update (\<lambda>_. None)) s;
          s = fold (\<lambda>i s. upd_buf i (b_hash_update (\<lambda>_. b_next (bufs s i))) s) [0..<NR_BUFS] s
      in s\<lparr>buf_hash := (buf_hash s)(hash_of NO_BLOCK := front s)\<rparr>)"

end
