(* ===== verification/Fs_Super.thy ===== *)
theory Fs_Super
  imports Fs_Cache
begin

section \<open>File system: super blocks, bit maps and zones\<close>

text \<open>
  fs/super.c, \<open>alloc_zone\<close> and \<open>free_zone\<close> of fs/cache.c, \<open>read_only\<close> of fs/protect.c and
  \<open>clock_time\<close> of fs/utility.c.  A bit map is the table of the buffers that hold it; its words
  are the big-endian 16-bit words of the blocks.
\<close>

unbundle bit_operations_syntax

subsection \<open>Super blocks\<close>

fun super_scan :: "(nat \<Rightarrow> super_block) \<Rightarrow> u16 \<Rightarrow> nat list \<Rightarrow> nat option" where
  "super_scan t dev [] = None"
| "super_scan t dev (i # is) = (if s_dev (t i) = dev then Some i else super_scan t dev is)"

definition get_super :: "u16 \<Rightarrow> fs \<Rightarrow> nat run" where
  "get_super dev s =
     (case super_scan (supers s) dev [0..<NR_SUPERS] of
        Some sp \<Rightarrow> Done sp | None \<Rightarrow> Panics ''cannot find superblock for device'')"

definition mounted :: "nat \<Rightarrow> fs \<Rightarrow> bool" where
  "mounted rip s =
     (let dev = i_zone (inodes s rip) 0
      in dev = root_dev s \<or> super_scan (supers s) dev [0..<NR_SUPERS] \<noteq> None)"

definition scale_factor :: "nat \<Rightarrow> fs \<Rightarrow> nat run" where
  "scale_factor ip s =
     andthen (get_super (i_dev (inodes s ip)) s) (\<lambda>sp. Done (unat (s_log_zone_size (supers s sp))))"

definition read_only :: "nat \<Rightarrow> fs \<Rightarrow> int run" where
  "read_only ip s =
     andthen (get_super (i_dev (inodes s ip)) s) (\<lambda>sp. Done (if s_rd_only (supers s sp) \<noteq> 0 then EROFS else OK))"

text \<open>
  \<open>rw_super\<close> copies the whole structure, the fields that only make sense in memory included;
  \<open>addr_buf\<close> and its likes say where the tables lie in memory.
\<close>

definition super_of_bytes :: "fs_env \<Rightarrow> bytes \<Rightarrow> super_block" where
  "super_of_bytes e d =
     \<lparr>s_ninodes = get16 d 0, s_nzones = get16 d 2, s_imap_blocks = get16 d 4, s_zmap_blocks = get16 d 6,
      s_firstdatazone = get16 d 8, s_log_zone_size = get16 d 10, s_max_size = get32 d 12, s_magic = get16 d 16,
      s_imap = (\<lambda>i. addr_buf e (get32 d (18 + 4 * of_nat i))), s_zmap = (\<lambda>i. addr_buf e (get32 d (50 + 4 * of_nat i))),
      s_dev = get16 d 82, s_isup = addr_inode e (get32 d 84), s_imount = addr_inode e (get32 d 88),
      s_time = get32 d 92, s_rd_only = d 96, s_dirt = (d 97 \<noteq> 0)\<rparr>"

definition bytes_of_super :: "fs_env \<Rightarrow> super_block \<Rightarrow> bytes \<Rightarrow> bytes" where
  "bytes_of_super e p d =
     (let d = put16 0 (s_ninodes p) d; d = put16 2 (s_nzones p) d; d = put16 4 (s_imap_blocks p) d;
          d = put16 6 (s_zmap_blocks p) d; d = put16 8 (s_firstdatazone p) d; d = put16 10 (s_log_zone_size p) d;
          d = put32 12 (s_max_size p) d; d = put16 16 (s_magic p) d;
          d = fold (\<lambda>i. put32 (18 + 4 * of_nat i) (buf_addr e (s_imap p i))) [0..<I_MAP_SLOTS] d;
          d = fold (\<lambda>i. put32 (50 + 4 * of_nat i) (buf_addr e (s_zmap p i))) [0..<ZMAP_SLOTS] d;
          d = put16 82 (s_dev p) d; d = put32 84 (inode_addr e (s_isup p)) d; d = put32 88 (inode_addr e (s_imount p)) d;
          d = put32 92 (s_time p) d
      in d(96 := s_rd_only p, 97 := (if s_dirt p then 1 else 0)))"

definition rw_super :: "fs_env \<Rightarrow> nat \<Rightarrow> bool \<Rightarrow> fs \<Rightarrow> fs run" where
  "rw_super e sp writing s =
     (let dev = s_dev (supers s sp)
      in andthen
        (if \<not> writing then
           andthen (get_block e dev SUPER_BLOCK NORMAL s) (\<lambda>(bp, s).
           let s = upd_super sp (\<lambda>_. super_of_bytes e (b_data (bufs s bp))) s
           in Done (bp, upd_super sp (s_dev_update (\<lambda>_. dev)) s))
         else
           andthen (get_block e dev SUPER_BLOCK NO_READ s) (\<lambda>(bp, s).
           Done (bp, upd_buf bp (\<lambda>b. b\<lparr>b_data := bytes_of_super e (supers s sp) (b_data b), b_dirt := DIRTY\<rparr>) s)))
        (\<lambda>(bp, s). put_block e (Some bp) ZUPER_BLOCK (upd_super sp (s_dirt_update (\<lambda>_. CLEAN)) s)))"

definition clock_time :: "fs_env \<Rightarrow> fs \<Rightarrow> (addr \<times> fs) run" where
  "clock_time e s =
     (let s = send GetTime s; t = task_long e (sent s) 0
      in if task_status e (sent s) \<noteq> OK then Panics ''clock_time err''
         else
           andthen (get_super (root_dev s) s) (\<lambda>sp.
           let s = upd_super sp (s_time_update (\<lambda>_. t)) s
           in Done (t, if s_rd_only (supers s sp) = 0 then upd_super sp (s_dirt_update (\<lambda>_. DIRTY)) s else s)))"

subsection \<open>Bit maps\<close>

definition BIT_MAP_SHIFT :: nat where "BIT_MAP_SHIFT = 13"

text \<open>The first bit that is 0 in a word.\<close>

fun zero_bit :: "u16 \<Rightarrow> nat list \<Rightarrow> nat option" where
  "zero_bit k [] = None"
| "zero_bit k (i # is) = (if drop_bit i k AND 1 = 0 then Some i else zero_bit k is)"

definition bit_number :: "nat \<Rightarrow> nat \<Rightarrow> nat \<Rightarrow> u16" where
  "bit_number b w i = of_nat i + of_nat w * 16 + push_bit BIT_MAP_SHIFT (of_nat b)"

text \<open>The words of one block: the word, the bit in it and its number, unless the block has no
  free bit below \<open>map_bits\<close> in the words searched.\<close>

fun word_scan :: "bytes \<Rightarrow> nat \<Rightarrow> u16 \<Rightarrow> nat list \<Rightarrow> (nat \<times> nat \<times> u16) option" where
  "word_scan d b map_bits [] = None"
| "word_scan d b map_bits (w # ws) =
     (let k = get16 d (2 * of_nat w)
      in if k \<noteq> -1 then
           (case zero_bit k [0..<16] of
              Some i \<Rightarrow> if bit_number b w i \<ge> map_bits then None else Some (w, i, bit_number b w i)
            | None \<Rightarrow> word_scan d b map_bits ws)
         else word_scan d b map_bits ws)"

fun block_scan :: "nat \<Rightarrow> (nat \<Rightarrow> ptr) \<Rightarrow> u16 \<Rightarrow> nat \<Rightarrow> nat \<Rightarrow> nat \<Rightarrow> fs \<Rightarrow> (u16 \<times> fs) run" where
  "block_scan 0 map_ptr map_bits bit_blocks b w s = Done (NO_BIT, s)"
| "block_scan (Suc n) map_ptr map_bits bit_blocks b w s =
     andthen (deref (map_ptr b)) (\<lambda>bp.
     case word_scan (b_data (bufs s bp)) b map_bits [w..<512] of
       Some (w, i, a) \<Rightarrow>
         Done (a, upd_buf bp (\<lambda>p. p\<lparr>b_data := put16 (2 * of_nat w) (get16 (b_data p) (2 * of_nat w) OR push_bit i 1) (b_data p),
                  b_dirt := DIRTY\<rparr>) s)
     | None \<Rightarrow> block_scan n map_ptr map_bits bit_blocks (if b + 1 = bit_blocks then 0 else b + 1) 0 s)"

definition alloc_bit :: "(nat \<Rightarrow> ptr) \<Rightarrow> u16 \<Rightarrow> nat \<Rightarrow> u16 \<Rightarrow> fs \<Rightarrow> (u16 \<times> fs) run" where
  "alloc_bit map_ptr map_bits bit_blocks origin s =
     (let origin = (if origin \<ge> map_bits then 0 else origin);
          b = unat (drop_bit BIT_MAP_SHIFT origin);
          o' = unat (origin - push_bit BIT_MAP_SHIFT (of_nat b));
          w = o' div 16;
          block_count = (if w = 0 then bit_blocks else bit_blocks + 1)
      in block_scan block_count map_ptr map_bits bit_blocks b w s)"

definition free_bit :: "(nat \<Rightarrow> ptr) \<Rightarrow> u16 \<Rightarrow> fs \<Rightarrow> fs" where
  "free_bit map_ptr bit_returned s =
     (let b = unat (drop_bit BIT_MAP_SHIFT bit_returned);
          r = unat (bit_returned - push_bit BIT_MAP_SHIFT (of_nat b));
          w = r div 16; i = r mod 16
      in case map_ptr b of None \<Rightarrow> s
         | Some bp \<Rightarrow>
             upd_buf bp (\<lambda>p. p\<lparr>b_data := put16 (2 * of_nat w) (get16 (b_data p) (2 * of_nat w) AND NOT (push_bit i 1)) (b_data p),
               b_dirt := DIRTY\<rparr>) s)"

fun load_map :: "fs_env \<Rightarrow> u16 \<Rightarrow> u16 \<Rightarrow> (nat \<Rightarrow> ptr \<Rightarrow> super_block \<Rightarrow> super_block) \<Rightarrow> nat \<Rightarrow> nat list \<Rightarrow> fs \<Rightarrow> fs run" where
  "load_map e dev base put sp [] s = Done s"
| "load_map e dev base put sp (i # is) s =
     andthen (get_block e dev (base + of_nat i) NORMAL s) (\<lambda>(bp, s).
     load_map e dev base put sp is (upd_super sp (put i (Some bp)) s))"

definition put_imap :: "nat \<Rightarrow> ptr \<Rightarrow> super_block \<Rightarrow> super_block" where
  "put_imap i p sb = sb\<lparr>s_imap := (s_imap sb)(i := p)\<rparr>"

definition put_zmap :: "nat \<Rightarrow> ptr \<Rightarrow> super_block \<Rightarrow> super_block" where
  "put_zmap i p sb = sb\<lparr>s_zmap := (s_zmap sb)(i := p)\<rparr>"

definition or_first_word :: "u16 \<Rightarrow> ptr \<Rightarrow> fs \<Rightarrow> fs run" where
  "or_first_word w p s =
     andthen (deref p) (\<lambda>bp. Done (upd_buf bp (b_data_update (\<lambda>d. put16 0 (get16 d 0 OR w) d)) s))"

definition load_bit_maps :: "fs_env \<Rightarrow> u16 \<Rightarrow> fs \<Rightarrow> (int \<times> fs) run" where
  "load_bit_maps e dev s =
     andthen (get_super dev s) (\<lambda>sp.
     let ni = s_imap_blocks (supers s sp); nz = s_zmap_blocks (supers s sp)
     in if word_of_int (bufs_in_use s) + ni + nz \<ge> 27 then Done (ERROR, s)
        else if ni > 8 \<or> nz > 8 then Panics ''too many map blocks''
        else
          andthen (load_map e dev (SUPER_BLOCK + 1) put_imap sp [0..<unat ni] s) (\<lambda>s.
          andthen (load_map e dev (SUPER_BLOCK + 1 + ni) put_zmap sp [0..<unat nz] s) (\<lambda>s.
          andthen (or_first_word 3 (s_imap (supers s sp) 0) s) (\<lambda>s.
          andthen (or_first_word 1 (s_zmap (supers s sp) 0) s) (\<lambda>s.
          Done (OK, s))))))"

fun put_blocks :: "fs_env \<Rightarrow> u16 \<Rightarrow> ptr list \<Rightarrow> fs \<Rightarrow> fs run" where
  "put_blocks e t [] s = Done s"
| "put_blocks e t (p # ps) s = andthen (put_block e p t s) (put_blocks e t ps)"

definition unload_bit_maps :: "fs_env \<Rightarrow> u16 \<Rightarrow> fs \<Rightarrow> (int \<times> fs) run" where
  "unload_bit_maps e dev s =
     andthen (get_super dev s) (\<lambda>sp.
     andthen (put_blocks e I_MAP_BLOCK (map (s_imap (supers s sp)) [0..<unat (s_imap_blocks (supers s sp))]) s) (\<lambda>s.
     andthen (put_blocks e ZMAP_BLOCK (map (s_zmap (supers s sp)) [0..<unat (s_zmap_blocks (supers s sp))]) s) (\<lambda>s.
     Done (OK, s))))"

subsection \<open>Zones\<close>

definition alloc_zone :: "u16 \<Rightarrow> u16 \<Rightarrow> fs \<Rightarrow> (u16 \<times> fs) run" where
  "alloc_zone dev z s =
     andthen (get_super dev s) (\<lambda>sp.
     let sb = supers s sp; bit = z - (s_firstdatazone sb - 1)
     in andthen (alloc_bit (s_zmap sb) (s_nzones sb - s_firstdatazone sb + 1) (unat (s_zmap_blocks sb)) bit s) (\<lambda>(b, s).
     if b = NO_BIT then Done (NO_ZONE, fail ENOSPC s) else Done (s_firstdatazone sb - 1 + b, s)))"

definition free_zone :: "u16 \<Rightarrow> u16 \<Rightarrow> fs \<Rightarrow> fs run" where
  "free_zone dev numb s =
     (if numb = NO_ZONE then Done s
      else andthen (get_super dev s) (\<lambda>sp.
           Done (free_bit (s_zmap (supers s sp)) (numb - (s_firstdatazone (supers s sp) - 1)) s)))"

end
