(* ===== verification/Fs_Inode.thy ===== *)
theory Fs_Inode
  imports Fs_Super "HOL-Library.Signed_Division"
begin

section \<open>File system: inodes\<close>

text \<open>
  fs/inode.c, with \<open>read_map\<close> of fs/read.c and \<open>truncate\<close> of fs/link.c, which \<open>put_inode\<close> calls.
  A zone number that lies outside an indirect block is not there to be read (\<open>Stuck\<close>).
\<close>

unbundle bit_operations_syntax

subsection \<open>From positions to blocks\<close>

text \<open>Entry \<open>k\<close> of an indirect block.\<close>

definition ind_get :: "bytes \<Rightarrow> nat \<Rightarrow> u16" where
  "ind_get d k = get16 d (2 * of_nat k)"

definition ind_put :: "nat \<Rightarrow> u16 \<Rightarrow> bytes \<Rightarrow> bytes" where
  "ind_put k z d = put16 (2 * of_nat k) z d"

definition ind_lookup :: "fs_env \<Rightarrow> u16 \<Rightarrow> u16 \<Rightarrow> nat \<Rightarrow> nat \<Rightarrow> fs \<Rightarrow> (u16 \<times> fs) run" where
  "ind_lookup e dev z scale k s =
     (if k \<ge> NR_INDIRECTS then Stuck
      else
        andthen (get_block e dev (push_bit scale z) NORMAL s) (\<lambda>(bp, s).
        let z = ind_get (b_data (bufs s bp)) k
        in andthen (put_block e (Some bp) INDIRECT_BLOCK s) (\<lambda>s. Done (z, s))))"

definition block_in_file :: "addr \<Rightarrow> int" where
  "block_in_file position = sint position sdiv 1024"

definition zone_in_file :: "nat \<Rightarrow> addr \<Rightarrow> int" where
  "zone_in_file scale position = block_in_file position div 2 ^ scale"

definition read_map :: "fs_env \<Rightarrow> nat \<Rightarrow> addr \<Rightarrow> fs \<Rightarrow> (u16 \<times> fs) run" where
  "read_map e rip position s =
     andthen (scale_factor rip s) (\<lambda>scale.
     let zone = zone_in_file scale position;
         boff = block_in_file position - zone * 2 ^ scale;
         dev = i_dev (inodes s rip);
         block = (\<lambda>z. push_bit scale z + word_of_int boff)
     in if zone < 0 then Stuck
        else if zone < int NR_DZONE_NUM then
          let z = i_zone (inodes s rip) (nat zone)
          in Done (if z = NO_ZONE then NO_BLOCK else block z, s)
        else
          let excess = nat zone - NR_DZONE_NUM
          in andthen
            (if excess < NR_INDIRECTS then Done ((i_zone (inodes s rip) NR_DZONE_NUM, excess), s)
             else
               let z = i_zone (inodes s rip) (NR_DZONE_NUM + 1); excess = excess - NR_INDIRECTS
               in if z = NO_ZONE then Done ((NO_ZONE, 0), s)
                  else andthen (ind_lookup e dev z scale (excess div NR_INDIRECTS) s) (\<lambda>(z, s).
                       Done ((z, excess mod NR_INDIRECTS), s)))
            (\<lambda>((z, k), s).
             if z = NO_ZONE then Done (NO_BLOCK, s)
             else andthen (ind_lookup e dev z scale k s) (\<lambda>(z, s).
                  Done (if z = NO_ZONE then NO_BLOCK else block z, s))))"

subsection \<open>Truncation\<close>

fun free_zones :: "u16 \<Rightarrow> u16 list \<Rightarrow> fs \<Rightarrow> fs run" where
  "free_zones dev [] s = Done s"
| "free_zones dev (z # zs) s = andthen (free_zone dev z s) (free_zones dev zs)"

definition zone_starts :: "nat \<Rightarrow> addr \<Rightarrow> addr list" where
  "zone_starts scale bytes =
     (let zone_size = 1024 * 2 ^ scale
      in map (\<lambda>k. of_nat (k * zone_size)) [0..<nat ((sint bytes + int zone_size - 1) div int zone_size)])"

fun free_data :: "fs_env \<Rightarrow> nat \<Rightarrow> u16 \<Rightarrow> nat \<Rightarrow> addr list \<Rightarrow> fs \<Rightarrow> fs run" where
  "free_data e rip dev scale [] s = Done s"
| "free_data e rip dev scale (pos # ps) s =
     andthen (read_map e rip pos s) (\<lambda>(b, s).
     andthen (if b \<noteq> NO_BLOCK then free_zone dev (drop_bit scale b) s else Done s)
       (free_data e rip dev scale ps))"

definition wipe_inode :: "nat \<Rightarrow> fs \<Rightarrow> fs" where
  "wipe_inode rip s =
     upd_inode rip (\<lambda>i. i\<lparr>i_size := 0, i_update := MTIME, i_dirt := DIRTY,
       i_zone := (\<lambda>k. if k < 9 then NO_ZONE else i_zone i k)\<rparr>) s"

definition fs_truncate :: "fs_env \<Rightarrow> nat \<Rightarrow> fs \<Rightarrow> fs run" where
  "fs_truncate e rip s =
     (let file_type = i_mode (inodes s rip) AND I_TYPE; dev = i_dev (inodes s rip)
      in if file_type = I_CHAR_SPECIAL \<or> file_type = I_BLOCK_SPECIAL then Done s
         else
           andthen (scale_factor rip s) (\<lambda>scale.
           let waspipe = i_pipe (inodes s rip);
               s = (if waspipe then upd_inode rip (i_size_update (\<lambda>_. PIPE_SIZE)) s else s)
           in andthen (free_data e rip dev scale (zone_starts scale (i_size (inodes s rip))) s) (\<lambda>s.
              andthen (free_zone dev (i_zone (inodes s rip) NR_DZONE_NUM) s) (\<lambda>s.
              let z = i_zone (inodes s rip) (NR_DZONE_NUM + 1)
              in andthen
                (if z \<noteq> NO_ZONE then
                   andthen (get_block e dev (push_bit scale z) NORMAL s) (\<lambda>(bp, s).
                   andthen (free_zones dev (map (ind_get (b_data (bufs s bp))) [0..<NR_INDIRECTS]) s) (\<lambda>s.
                   andthen (put_block e (Some bp) INDIRECT_BLOCK s) (free_zone dev z)))
                 else Done s)
                (\<lambda>s. Done (upd_inode rip (i_dirt_update (\<lambda>_. DIRTY)) (if waspipe then wipe_inode rip s else s)))))))"

subsection \<open>Inodes on disk\<close>

definition inode_from :: "bytes \<Rightarrow> addr \<Rightarrow> inode \<Rightarrow> inode" where
  "inode_from d a i =
     i\<lparr>i_mode := get16 d a, i_uid := get16 d (a + 2), i_size := get32 d (a + 4), i_mtime := get32 d (a + 8),
       i_gid := d (a + 12), i_nlinks := d (a + 13),
       i_zone := (\<lambda>k. if k < 9 then get16 d (a + 14 + 2 * of_nat k) else i_zone i k)\<rparr>"

definition inode_into :: "inode \<Rightarrow> addr \<Rightarrow> bytes \<Rightarrow> bytes" where
  "inode_into i a d =
     (let d = put16 a (i_mode i) d; d = put16 (a + 2) (i_uid i) d; d = put32 (a + 4) (i_size i) d;
          d = put32 (a + 8) (i_mtime i) d; d = d(a + 12 := i_gid i, a + 13 := i_nlinks i)
      in fold (\<lambda>k. put16 (a + 14 + 2 * of_nat k) (i_zone i k)) [0..<9] d)"

definition update_times :: "fs_env \<Rightarrow> nat \<Rightarrow> fs \<Rightarrow> fs run" where
  "update_times e rip s =
     andthen (clock_time e s) (\<lambda>(cur_time, s).
     Done (upd_inode rip (\<lambda>i. i\<lparr>
       i_atime := if on ATIME (i_update i) then cur_time else i_atime i,
       i_ctime := if on CTIME (i_update i) then cur_time else i_ctime i,
       i_mtime := if on MTIME (i_update i) then cur_time else i_mtime i,
       i_update := 0\<rparr>) s))"

definition rw_inode :: "fs_env \<Rightarrow> nat \<Rightarrow> bool \<Rightarrow> fs \<Rightarrow> fs run" where
  "rw_inode e rip writing s =
     (let dev = i_dev (inodes s rip); n = i_num (inodes s rip) - 1
      in andthen (get_super dev s) (\<lambda>sp.
         let b = n div 32 + s_imap_blocks (supers s sp) + s_zmap_blocks (supers s sp) + 2;
             a = ucast (n mod 32) * 32
         in andthen (get_block e dev b NORMAL s) (\<lambda>(bp, s).
            andthen
              (if \<not> writing then Done (upd_inode rip (inode_from (b_data (bufs s bp)) a) s)
               else
                 andthen (if i_update (inodes s rip) \<noteq> 0 then update_times e rip s else Done s) (\<lambda>s.
                 Done (upd_buf bp (\<lambda>p. p\<lparr>b_data := inode_into (inodes s rip) a (b_data p), b_dirt := DIRTY\<rparr>) s)))
              (\<lambda>s. andthen (put_block e (Some bp) INODE_BLOCK s) (\<lambda>s.
                   Done (upd_inode rip (i_dirt_update (\<lambda>_. CLEAN)) s))))))"

subsection \<open>The inode table\<close>

definition free_inode :: "u16 \<Rightarrow> u16 \<Rightarrow> fs \<Rightarrow> fs run" where
  "free_inode dev numb s = andthen (get_super dev s) (\<lambda>sp. Done (free_bit (s_imap (supers s sp)) numb s))"

definition dup_inode :: "nat \<Rightarrow> fs \<Rightarrow> fs" where
  "dup_inode ip = upd_inode ip (\<lambda>i. i\<lparr>i_count := i_count i + 1\<rparr>)"

text \<open>The slot that holds the inode, and the last free slot before it.\<close>

fun inode_scan :: "(nat \<Rightarrow> inode) \<Rightarrow> u16 \<Rightarrow> u16 \<Rightarrow> ptr \<Rightarrow> nat list \<Rightarrow> ptr \<times> ptr" where
  "inode_scan t dev numb xp [] = (None, xp)"
| "inode_scan t dev numb xp (rip # rips) =
     (if i_count (t rip) > 0 then
        if i_dev (t rip) = dev \<and> i_num (t rip) = numb then (Some rip, xp) else inode_scan t dev numb xp rips
      else inode_scan t dev numb (Some rip) rips)"

definition get_inode :: "fs_env \<Rightarrow> u16 \<Rightarrow> u16 \<Rightarrow> fs \<Rightarrow> (ptr \<times> fs) run" where
  "get_inode e dev numb s =
     (case inode_scan (inodes s) dev numb None [0..<NR_INODES] of
        (Some rip, _) \<Rightarrow> Done (Some rip, dup_inode rip s)
      | (None, None) \<Rightarrow> Done (None, fail ENFILE s)
      | (None, Some xp) \<Rightarrow>
          let s = upd_inode xp (\<lambda>i. i\<lparr>i_dev := dev, i_num := numb, i_count := 1\<rparr>) s
          in andthen (if dev \<noteq> NO_DEV then rw_inode e xp False s else Done s) (\<lambda>s.
             Done (Some xp, upd_inode xp (i_update_update (\<lambda>_. 0)) s)))"

definition put_inode :: "fs_env \<Rightarrow> ptr \<Rightarrow> fs \<Rightarrow> fs run" where
  "put_inode e p s =
     (case p of None \<Rightarrow> Done s
      | Some rip \<Rightarrow>
          let s = upd_inode rip (\<lambda>i. i\<lparr>i_count := i_count i - 1\<rparr>) s
          in if i_count (inodes s rip) \<noteq> 0 then Done s
             else
               andthen
                 (if i_nlinks (inodes s rip) = 0 then
                    andthen (fs_truncate e rip s) (\<lambda>s.
                    let s = upd_inode rip (i_mode_update (\<lambda>_. 0)) s
                    in free_inode (i_dev (inodes s rip)) (i_num (inodes s rip)) s)
                  else if i_pipe (inodes s rip) then fs_truncate e rip s else Done s)
                 (\<lambda>s.
                  let s = upd_inode rip (i_pipe_update (\<lambda>_. False)) s
                  in if i_dirt (inodes s rip) then rw_inode e rip True s else Done s))"

definition alloc_inode :: "fs_env \<Rightarrow> u16 \<Rightarrow> u16 \<Rightarrow> fs \<Rightarrow> (ptr \<times> fs) run" where
  "alloc_inode e dev bits s =
     andthen (get_super dev s) (\<lambda>sp.
     let sb = supers s sp
     in andthen (alloc_bit (s_imap sb) (s_ninodes sb + 1) (unat (s_imap_blocks sb)) 0 s) (\<lambda>(b, s).
        if b = NO_BIT then Done (None, fail ENFILE s)
        else
          andthen (get_inode e NO_DEV b s) (\<lambda>(p, s).
          case p of
            None \<Rightarrow> Done (None, free_bit (s_imap (supers s sp)) b s)
          | Some rip \<Rightarrow>
              let p = fprocs s (fp s);
                  s = upd_inode rip (\<lambda>i. i\<lparr>i_mode := bits, i_nlinks := 0, i_uid := fp_effuid p, i_gid := fp_effgid p, i_dev := dev\<rparr>) s
              in Done (Some rip, wipe_inode rip s))))"

end
