(* ===== verification/Fs_Write.thy ===== *)
theory Fs_Write
  imports Fs_Inode
begin

section \<open>File system: growing files and reading ahead\<close>

text \<open>
  fs/write.c, and \<open>rw_user\<close>, \<open>rahead\<close> and \<open>read_ahead\<close> of fs/read.c.  A turn of the loop of
  \<open>rahead\<close> uses up one of the blocks it may still ask for, which bounds the number of turns.
\<close>

unbundle bit_operations_syntax

subsection \<open>fs/write.c\<close>

text \<open>The last step of \<open>write_map\<close>: the new zone goes into the indirect block in zone \<open>z\<close>.\<close>

definition enter_zone :: "fs_env \<Rightarrow> nat \<Rightarrow> nat \<Rightarrow> u16 \<Rightarrow> bool \<Rightarrow> nat \<Rightarrow> u16 \<Rightarrow> fs \<Rightarrow> (int \<times> fs) run" where
  "enter_zone e rip scale z new_ind k new_zone s =
     andthen (get_block e (i_dev (inodes s rip)) (push_bit scale z) (if new_ind then NO_READ else NORMAL) s) (\<lambda>(bp, s).
     let s = (if new_ind then zero_block bp s else s);
         s = upd_buf bp (\<lambda>b. b\<lparr>b_data := ind_put k new_zone (b_data b), b_dirt := DIRTY\<rparr>) s;
         s = upd_inode rip (i_update_update (\<lambda>_. MTIME)) s
     in andthen (put_block e (Some bp) INDIRECT_BLOCK s) (\<lambda>s. Done (OK, s)))"

text \<open>The zone of the double indirect block, which is made when there is none.\<close>

definition double_zone :: "nat \<Rightarrow> fs \<Rightarrow> ((u16 \<times> bool) \<times> fs) run" where
  "double_zone rip s =
     (let i = inodes s rip; z = i_zone i (NR_DZONE_NUM + 1)
      in if z \<noteq> NO_ZONE then Done ((z, False), s)
         else
           andthen (alloc_zone (i_dev i) (i_zone i 0) s) (\<lambda>(z, s).
           Done ((z, True),
             if z = NO_ZONE then s
             else upd_inode rip (\<lambda>i. i\<lparr>i_zone := (i_zone i)(NR_DZONE_NUM + 1 := z)\<rparr>) s)))"

definition write_map :: "fs_env \<Rightarrow> nat \<Rightarrow> addr \<Rightarrow> u16 \<Rightarrow> fs \<Rightarrow> (int \<times> fs) run" where
  "write_map e rip position new_zone s =
     (let s = upd_inode rip (i_dirt_update (\<lambda>_. DIRTY)) s; dev = i_dev (inodes s rip)
      in andthen (scale_factor rip s) (\<lambda>scale.
      let zone = zone_in_file scale position
      in if zone < 0 then Stuck
         else if zone < int NR_DZONE_NUM then
           Done (OK, upd_inode rip (\<lambda>i. i\<lparr>i_zone := (i_zone i)(nat zone := new_zone), i_update := MTIME\<rparr>) s)
         else
           let excess = nat zone - NR_DZONE_NUM
           in if excess < NR_INDIRECTS then
                let z = i_zone (inodes s rip) NR_DZONE_NUM
                in if z \<noteq> NO_ZONE then enter_zone e rip scale z False excess new_zone s
                   else
                     andthen (alloc_zone dev (i_zone (inodes s rip) 0) s) (\<lambda>(z, s).
                     let s = upd_inode rip (\<lambda>i. i\<lparr>i_zone := (i_zone i)(NR_DZONE_NUM := z)\<rparr>) s
                     in if z = NO_ZONE then Done (err_code s, s)
                        else enter_zone e rip scale z True excess new_zone s)
              else
                andthen (double_zone rip s) (\<lambda>((z, new_dbl), s).
                let excess = excess - NR_INDIRECTS; index = excess div NR_INDIRECTS
                in if z = NO_ZONE then Done (err_code s, s)
                   else if index \<ge> NR_INDIRECTS then Done (EFBIG, s)
                   else
                     andthen (get_block e dev (push_bit scale z) (if new_dbl then NO_READ else NORMAL) s) (\<lambda>(bp, s).
                     let s = (if new_dbl then zero_block bp s else s);
                         z = ind_get (b_data (bufs s bp)) index
                     in if z \<noteq> NO_ZONE then
                          andthen (put_block e (Some bp) INDIRECT_BLOCK s)
                            (enter_zone e rip scale z False (excess mod NR_INDIRECTS) new_zone)
                        else
                          andthen (alloc_zone dev (i_zone (inodes s rip) 0) s) (\<lambda>(z, s).
                          let s = upd_buf bp (\<lambda>b. b\<lparr>b_data := ind_put index z (b_data b), b_dirt := DIRTY\<rparr>) s
                          in andthen (put_block e (Some bp) INDIRECT_BLOCK s) (\<lambda>s.
                             if z = NO_ZONE then Done (err_code s, s)
                             else enter_zone e rip scale z True (excess mod NR_INDIRECTS) new_zone s))))))"

fun clear_blocks :: "fs_env \<Rightarrow> u16 \<Rightarrow> u16 list \<Rightarrow> fs \<Rightarrow> fs run" where
  "clear_blocks e dev [] s = Done s"
| "clear_blocks e dev (b # bs) s =
     andthen (get_block e dev b NO_READ s) (\<lambda>(bp, s).
     andthen (put_block e (Some bp) FULL_DATA_BLOCK (zero_block bp s)) (clear_blocks e dev bs))"

definition clear_zone :: "fs_env \<Rightarrow> nat \<Rightarrow> addr \<Rightarrow> bool \<Rightarrow> fs \<Rightarrow> fs run" where
  "clear_zone e rip pos flag s =
     andthen (scale_factor rip s) (\<lambda>scale.
     if scale = 0 then Done s
     else
       let zone_size = 1024 * 2 ^ scale;
           pos = (if flag then word_of_int ((sint pos sdiv zone_size) * zone_size) else pos);
           nxt = pos + BLOCK_SIZE - 1
       in if sint nxt sdiv zone_size \<noteq> sint pos sdiv zone_size then Done s
          else
            andthen (read_map e rip nxt s) (\<lambda>(blo, s).
            if blo = NO_BLOCK then Done s
            else
              let bhi = push_bit scale (drop_bit scale blo + 1) - 1
              in if bhi = 0xFFFF then Stuck
                 else clear_blocks e (i_dev (inodes s rip)) (map of_nat [unat blo..<unat bhi + 1]) s))"

definition new_block :: "fs_env \<Rightarrow> nat \<Rightarrow> addr \<Rightarrow> fs \<Rightarrow> (ptr \<times> fs) run" where
  "new_block e rip position s =
     (let dev = i_dev (inodes s rip)
      in andthen (read_map e rip position s) (\<lambda>(b, s).
         andthen
           (if b \<noteq> NO_BLOCK then Done (Some b, s)
            else
              andthen (if i_size (inodes s rip) = 0
                 then andthen (get_super dev s) (\<lambda>sp. Done (s_firstdatazone (supers s sp)))
                 else Done (i_zone (inodes s rip) 0)) (\<lambda>z.
              andthen (alloc_zone dev z s) (\<lambda>(z, s).
              if z = NO_ZONE then Done (None, s)
              else
                andthen (write_map e rip position z s) (\<lambda>(r, s).
                if r \<noteq> OK then andthen (free_zone dev z s) (\<lambda>s. Done (None, fail r s))
                else
                  andthen (if position \<noteq> i_size (inodes s rip) then clear_zone e rip position True s else Done s) (\<lambda>s.
                  andthen (scale_factor rip s) (\<lambda>scale.
                  Done (Some (push_bit scale z + word_of_int ((sint position smod (1024 * 2 ^ scale)) sdiv 1024)), s)))))))
           (\<lambda>(b, s).
            case b of None \<Rightarrow> Done (None, s)
            | Some b \<Rightarrow> andthen (get_block e dev b NO_READ s) (\<lambda>(bp, s). Done (Some bp, zero_block bp s)))))"

subsection \<open>User space\<close>

definition to_user :: "fs_env \<Rightarrow> int \<Rightarrow> int \<Rightarrow> addr \<Rightarrow> addr \<Rightarrow> bytes \<Rightarrow> fs \<Rightarrow> int \<times> fs" where
  "to_user e seg u vir n d s = (let s = send (ToUser seg u vir n d) s in (copy_status e (sent s), s))"

text \<open>The status and the bytes that were moved.\<close>

definition from_user :: "fs_env \<Rightarrow> int \<Rightarrow> int \<Rightarrow> addr \<Rightarrow> addr \<Rightarrow> fs \<Rightarrow> (int \<times> bytes) \<times> fs" where
  "from_user e seg u vir n s =
     (let s = send (FromUser seg u vir n) s in ((copy_status e (sent s), user_data e (sent s)), s))"

subsection \<open>Reading ahead\<close>

definition blocks_per_track :: "addr \<Rightarrow> u16" where
  "blocks_per_track dev_size =
     (if sint dev_size < 80 * 2 * 15 * 512 then 9 else if sint dev_size < 80 * 2 * 18 * 512 then 15 else 18)"

record ahead =
  a_pos :: addr
  a_left :: u16
  a_more :: bool
  a_track :: u16
  a_queue :: "nat list"

fun rahead_loop :: "fs_env \<Rightarrow> nat \<Rightarrow> nat \<Rightarrow> bool \<Rightarrow> u16 \<Rightarrow> addr \<Rightarrow> u16 \<Rightarrow> u16 \<Rightarrow> ahead \<Rightarrow> fs \<Rightarrow> (nat list \<times> fs) run" where
  "rahead_loop e 0 rip block_spec dev file_size wanted bpt a s = Stuck"
| "rahead_loop e (Suc n) rip block_spec dev file_size wanted bpt a s =
     (if sint (a_pos a) \<ge> sint file_size \<or> bufs_in_use s \<ge> (if block_spec then 30 else 28) then Done (a_queue a, s)
      else if a_left a = 0 \<and> (a_more a \<or> i_seek (inodes s rip) \<or> wanted mod 1024 \<noteq> 0) then Done (a_queue a, s)
      else
        let a = (if a_left a \<noteq> 0 then a\<lparr>a_left := a_left a - 1\<rparr> else a\<lparr>a_left := bpt + 6, a_more := True\<rparr>)
        in andthen (if block_spec then Done (word_of_int (sint (a_pos a) sdiv 1024), s) else read_map e rip (a_pos a) s) (\<lambda>(block, s).
           let a = a\<lparr>a_pos := a_pos a + BLOCK_SIZE\<rparr>; track = block div bpt
           in if a_more a \<and> track \<noteq> a_track a then rahead_loop e n rip block_spec dev file_size wanted bpt a s
              else
                let a = (if \<not> a_more a \<and> track > a_track a then a\<lparr>a_track := track\<rparr> else a)
                in if block_spec \<or> block \<noteq> NO_BLOCK then
                     andthen (get_block e dev block PREFETCH s) (\<lambda>(bp, s).
                     if b_dev (bufs s bp) = NO_DEV then
                       rahead_loop e n rip block_spec dev file_size wanted bpt (a\<lparr>a_queue := a_queue a @ [bp]\<rparr>) s
                     else
                       andthen (put_block e (Some bp) FULL_DATA_BLOCK s) (rahead_loop e n rip block_spec dev file_size wanted bpt a))
                   else rahead_loop e n rip block_spec dev file_size wanted bpt a s))"

definition rahead :: "fs_env \<Rightarrow> nat \<Rightarrow> u16 \<Rightarrow> addr \<Rightarrow> u16 \<Rightarrow> fs \<Rightarrow> (nat \<times> fs) run" where
  "rahead e rip baseblock position bytes_ahead s =
     (let i = inodes s rip;
          block_spec = (i_mode i AND I_TYPE = I_BLOCK_SPECIAL);
          dev = (if block_spec then i_zone i 0 else i_dev i)
      in andthen (get_block e dev baseblock PREFETCH s) (\<lambda>(bp, s).
         if b_dev (bufs s bp) \<noteq> NO_DEV then Done (bp, s)
         else
           let bpt = blocks_per_track (if block_spec then i_size i else 737280);
               file_size = (if block_spec \<and> i_size i = 0 then 0x7FFFFFFF else i_size i);
               fragment = word_of_int (sint position smod 1024);
               wanted = fragment + bytes_ahead;
               left = (wanted + 1023) div 1024 - 1;
               a = \<lparr>a_pos = position - ucast fragment + BLOCK_SIZE, a_left = left, a_more = False,
                    a_track = b_blocknr (bufs s bp) div bpt, a_queue = [bp]\<rparr>
           in andthen (rahead_loop e (unat left + 32) rip block_spec dev file_size wanted bpt a s) (\<lambda>(q, s).
              andthen (rw_scattered e dev q False s) (get_block e dev baseblock NORMAL))))"

definition read_ahead :: "fs_env \<Rightarrow> fs \<Rightarrow> fs run" where
  "read_ahead e s =
     andthen (deref (rdahed_inode s)) (\<lambda>rip.
     let s = s\<lparr>rdahed_inode := None\<rparr>
     in andthen (read_map e rip (rdahedpos s) s) (\<lambda>(b, s).
        if b = NO_BLOCK then Done s
        else
          andthen (rahead e rip b (rdahedpos s) 1024 s) (\<lambda>(bp, s).
          put_block e (Some bp) PARTIAL_DATA_BLOCK s)))"

end
