(* ===== verification/Fs_Path.thy ===== *)
theory Fs_Path
  imports Fs_Write
begin

section \<open>File system: protection, directories and path names\<close>

text \<open>
  \<open>forbidden\<close> of fs/protect.c, \<open>fetch_name\<close> of fs/utility.c and fs/path.c.  A path name is an
  offset into \<open>user_path\<close>; what is read behind that array is what memory holds there.  A string
  that has no end within 4096 bytes, a mount table through which a lookup runs in circles and a
  mounted-on inode without a super block are not walked to the end (\<open>Stuck\<close>).
\<close>

unbundle bit_operations_syntax

type_synonym name = "8 word list"

abbreviation (input) "SLASH \<equiv> (47::8 word)"
abbreviation (input) "DOT \<equiv> (46::8 word)"
abbreviation (input) "UNLINK \<equiv> (10::int)"
abbreviation (input) "RMDIR \<equiv> (40::int)"
abbreviation (input) "D_SEG \<equiv> (1::int)"

subsection \<open>Protection\<close>

text \<open>The rwx bits of the mode that apply to the caller.\<close>

definition perm_bits :: "inode \<Rightarrow> u16 \<Rightarrow> 8 word \<Rightarrow> u16" where
  "perm_bits i test_uid test_gid =
     (if test_uid = 0 then 7
      else drop_bit (if test_uid = i_uid i then 6 else if test_gid = i_gid i then 3 else 0) (i_mode i) AND 7)"

definition forbidden :: "nat \<Rightarrow> u16 \<Rightarrow> bool \<Rightarrow> fs \<Rightarrow> int run" where
  "forbidden rip access_desired real_uid s =
     (let i = inodes s rip; p = fprocs s (fp s);
          pb = perm_bits i (if real_uid then fp_realuid p else fp_effuid p) (if real_uid then fp_realgid p else fp_effgid p);
          r = (if pb OR access_desired \<noteq> pb then EACCES else OK);
          r = (if on X_BIT access_desired \<and> i_mode i AND 73 = 0 then EACCES else r)
      in if r = OK \<and> on W_BIT access_desired then read_only rip s else Done r)"

subsection \<open>Names\<close>

definition fetch_name :: "fs_env \<Rightarrow> addr \<Rightarrow> int \<Rightarrow> bool \<Rightarrow> fs \<Rightarrow> int \<times> fs" where
  "fetch_name e path len flag_m3 s =
     (if len \<le> 0 then (ERROR, fail EINVAL s)
      else if flag_m3 \<and> len \<le> 14 then
        (OK, s\<lparr>user_path := (\<lambda>k. if k < nat len then pathname s k else user_path s k)\<rparr>)
      else if len > int PATH_MAX then (ERROR, fail ENAMETOOLONG s)
      else
        let ((r, d), s) = from_user e D_SEG (who s) path (word_of_int len) s
        in (r, (fail r s)\<lparr>user_path := (\<lambda>k. if k < nat len then d (of_nat k) else user_path s k)\<rparr>))"

fun skip_slashes :: "nat \<Rightarrow> (nat \<Rightarrow> 8 word) \<Rightarrow> nat \<Rightarrow> nat run" where
  "skip_slashes 0 u p = Stuck"
| "skip_slashes (Suc n) u p = (if u p = SLASH then skip_slashes n u (p + 1) else Done p)"

function component :: "(nat \<Rightarrow> 8 word) \<Rightarrow> nat \<Rightarrow> nat \<Rightarrow> name \<Rightarrow> name \<times> nat" where
  "component u lim p acc =
     (if p < lim \<and> u p \<noteq> SLASH \<and> u p \<noteq> 0
      then component u lim (p + 1) (if length acc < NAME_MAX then acc @ [u p] else acc)
      else (acc, p))"
  by auto
termination by (relation "measure (\<lambda>(u, lim, p, acc). lim - p)") auto

function trailing :: "(nat \<Rightarrow> 8 word) \<Rightarrow> nat \<Rightarrow> nat \<Rightarrow> nat" where
  "trailing u lim p = (if u p = SLASH \<and> p < lim then trailing u lim (p + 1) else p)"
  by auto
termination by (relation "measure (\<lambda>(u, lim, p). lim - p)") auto

declare component.simps [simp del] trailing.simps [simp del]

definition pad :: "name \<Rightarrow> name" where
  "pad xs = xs @ replicate (NAME_MAX - length xs) 0"

text \<open>The rest of the path, unless the name is too long, and the component.\<close>

definition get_name :: "(nat \<Rightarrow> 8 word) \<Rightarrow> nat \<Rightarrow> (nat option \<times> name) run" where
  "get_name u old_name =
     andthen (skip_slashes 4096 u old_name) (\<lambda>p.
     let lim = old_name + PATH_MAX; (cs, p) = component u lim p []; p = trailing u lim p
     in Done (if p \<ge> lim then None else Some p, pad cs))"

subsection \<open>Directories\<close>

datatype dir_flag = LOOK_UP | ENTER | DELETE

datatype dir_hit = Match nat | Room nat | Exhausted

definition dir_inum :: "bytes \<Rightarrow> nat \<Rightarrow> u16" where
  "dir_inum d k = get16 d (16 * of_nat k)"

definition dir_name :: "bytes \<Rightarrow> nat \<Rightarrow> name" where
  "dir_name d k = map (\<lambda>j. d (16 * of_nat k + 2 + of_nat j)) [0..<NAME_MAX]"

definition set_inum :: "nat \<Rightarrow> u16 \<Rightarrow> bytes \<Rightarrow> bytes" where
  "set_inum k n = put16 (16 * of_nat k) n"

definition set_name :: "nat \<Rightarrow> name \<Rightarrow> bytes \<Rightarrow> bytes" where
  "set_name k xs = fold (\<lambda>j d. d(16 * of_nat k + 2 + of_nat j := xs ! j)) [0..<NAME_MAX]"

text \<open>Equality of two strings up to a zero byte or the end of the array.\<close>

definition same_name :: "name \<Rightarrow> name \<Rightarrow> bool" where
  "same_name xs ys = (takeWhile (\<lambda>c. c \<noteq> 0) xs = takeWhile (\<lambda>c. c \<noteq> 0) ys)"

definition entry_matches :: "bytes \<Rightarrow> name \<Rightarrow> nat \<Rightarrow> bool" where
  "entry_matches d string k =
     (dir_inum d k \<noteq> 0 \<and>
      (if string ! 0 = 0 then \<not> same_name (dir_name d k) [DOT] \<and> \<not> same_name (dir_name d k) [DOT, DOT]
       else same_name (dir_name d k) string))"

fun dir_scan :: "bytes \<Rightarrow> name \<Rightarrow> dir_flag \<Rightarrow> u16 \<Rightarrow> u16 \<Rightarrow> nat list \<Rightarrow> dir_hit \<times> u16" where
  "dir_scan d string flag old_slots new_slots [] = (Exhausted, new_slots)"
| "dir_scan d string flag old_slots new_slots (k # ks) =
     (let new_slots = new_slots + 1
      in if new_slots > old_slots then (if flag = ENTER then Room k else Exhausted, new_slots)
         else if flag \<noteq> ENTER \<and> entry_matches d string k then (Match k, new_slots)
         else if flag = ENTER \<and> dir_inum d k = 0 then (Room k, new_slots)
         else dir_scan d string flag old_slots new_slots ks)"

text \<open>The blocks of a directory: what was found and the buffer it is in, which is still held.\<close>

fun dir_blocks :: "fs_env \<Rightarrow> nat \<Rightarrow> name \<Rightarrow> dir_flag \<Rightarrow> u16 \<Rightarrow> u16 \<Rightarrow> addr list \<Rightarrow> fs \<Rightarrow> ((dir_hit \<times> nat \<times> u16) \<times> fs) run" where
  "dir_blocks e dir string flag old_slots new_slots [] s = Done ((Exhausted, 0, new_slots), s)"
| "dir_blocks e dir string flag old_slots new_slots (pos # ps) s =
     andthen (read_map e dir pos s) (\<lambda>(b, s).
     andthen (get_block e (i_dev (inodes s dir)) b NORMAL s) (\<lambda>(bp, s).
     case dir_scan (b_data (bufs s bp)) string flag old_slots new_slots [0..<64] of
       (Exhausted, n) \<Rightarrow> andthen (put_block e (Some bp) DIRECTORY_BLOCK s) (dir_blocks e dir string flag old_slots n ps)
     | (hit, n) \<Rightarrow> Done ((hit, bp, n), s)))"

definition block_starts :: "addr \<Rightarrow> addr list" where
  "block_starts bytes = map (\<lambda>k. of_nat (1024 * k)) [0..<nat ((sint bytes + 1023) div 1024)]"

definition dir_delete :: "fs_env \<Rightarrow> nat \<Rightarrow> nat \<Rightarrow> nat \<Rightarrow> fs \<Rightarrow> fs run" where
  "dir_delete e dir bp k s =
     (let n = dir_inum (b_data (bufs s bp)) k
      in andthen (get_inode e (i_dev (inodes s dir)) n s) (\<lambda>(rip, s).
         let s = upd_buf bp (\<lambda>b. b\<lparr>b_data := set_inum k 0 (put16 (16 * of_nat k + 14) (dir_inum (b_data b) k) (b_data b)), b_dirt := DIRTY\<rparr>) s;
             s = upd_inode dir (i_update_update (\<lambda>_. MTIME)) s
         in put_inode e rip s))"

definition dir_enter :: "fs_env \<Rightarrow> nat \<Rightarrow> name \<Rightarrow> u16 \<Rightarrow> nat \<Rightarrow> nat \<Rightarrow> u16 \<Rightarrow> u16 \<Rightarrow> fs \<Rightarrow> (int \<times> fs) run" where
  "dir_enter e dir string numb bp k old_slots new_slots s =
     (let s = upd_buf bp (\<lambda>b. b\<lparr>b_data := set_inum k numb (set_name k string (b_data b)), b_dirt := DIRTY\<rparr>) s
      in andthen (put_block e (Some bp) DIRECTORY_BLOCK s) (\<lambda>s.
         let s = upd_inode dir (\<lambda>i. i\<lparr>i_update := MTIME, i_dirt := DIRTY\<rparr>) s
         in Done (OK, if new_slots > old_slots then upd_inode dir (i_size_update (\<lambda>_. ucast new_slots * 16)) s else s)))"

text \<open>The result code and, for a successful \<open>LOOK_UP\<close>, the inode number.\<close>

definition search_dir :: "fs_env \<Rightarrow> nat \<Rightarrow> name \<Rightarrow> u16 \<Rightarrow> dir_flag \<Rightarrow> fs \<Rightarrow> ((int \<times> u16) \<times> fs) run" where
  "search_dir e dir string numb flag s =
     (if i_mode (inodes s dir) AND I_TYPE \<noteq> I_DIRECTORY then Done ((ENOTDIR, numb), s)
      else
        andthen (forbidden dir (if flag = LOOK_UP then X_BIT else W_BIT OR X_BIT) False s) (\<lambda>r.
        if r \<noteq> OK then Done ((r, numb), s)
        else
          let old_slots = word_of_int (sint (i_size (inodes s dir)) sdiv 16)
          in andthen (dir_blocks e dir string flag old_slots 0 (block_starts (i_size (inodes s dir))) s) (\<lambda>((hit, bp, n), s).
             case hit of
               Match k \<Rightarrow>
                 let found = dir_inum (b_data (bufs s bp)) k
                 in andthen (if flag = DELETE then dir_delete e dir bp k s else Done s) (\<lambda>s.
                    andthen (put_block e (Some bp) DIRECTORY_BLOCK s) (\<lambda>s.
                    Done ((OK, if flag = DELETE then numb else found), s)))
             | Room k \<Rightarrow>
                 andthen (dir_enter e dir string numb bp k old_slots n s) (\<lambda>(r, s). Done ((r, numb), s))
             | Exhausted \<Rightarrow>
                 if flag \<noteq> ENTER then Done ((ENOENT, numb), s)
                 else if n + 1 = 0 then Done ((EFBIG, numb), s)
                 else
                   andthen (new_block e dir (i_size (inodes s dir)) s) (\<lambda>(p, s).
                   case p of None \<Rightarrow> Done ((err_code s, numb), s)
                   | Some bp \<Rightarrow>
                       andthen (dir_enter e dir string numb bp 0 old_slots (n + 1) s) (\<lambda>(r, s). Done ((r, numb), s))))))"

subsection \<open>Looking up a path\<close>

fun mount_scan :: "(nat \<Rightarrow> super_block) \<Rightarrow> nat \<Rightarrow> nat list \<Rightarrow> nat option" where
  "mount_scan t rip [] = None"
| "mount_scan t rip (i # is) = (if s_imount (t i) = Some rip then Some i else mount_scan t rip is)"

text \<open>From an inode that is mounted on to the root of what is mounted there.\<close>

primrec cross_mounts :: "fs_env \<Rightarrow> nat \<Rightarrow> ptr \<Rightarrow> fs \<Rightarrow> (ptr \<times> fs) run" where
  "cross_mounts e 0 p s = Stuck"
| "cross_mounts e (Suc n) p s =
     (case p of
        None \<Rightarrow> Done (None, s)
      | Some rip \<Rightarrow>
          if \<not> i_mount (inodes s rip) then Done (Some rip, s)
          else
            case mount_scan (supers s) rip [0..<NR_SUPERS] of
              None \<Rightarrow> Stuck
            | Some sp \<Rightarrow>
                andthen (put_inode e (Some rip) s) (\<lambda>s.
                andthen (get_inode e (s_dev (supers s sp)) ROOT_INODE s) (\<lambda>(p, s). cross_mounts e n p s)))"

primrec advance_n :: "nat \<Rightarrow> fs_env \<Rightarrow> ptr \<Rightarrow> name \<Rightarrow> fs \<Rightarrow> (ptr \<times> fs) run" where
  "advance_n 0 e p string s = Stuck"
| "advance_n (Suc n) e p string s =
     (if string ! 0 = 0 then
        andthen (deref p) (\<lambda>dirp. get_inode e (i_dev (inodes s dirp)) (i_num (inodes s dirp)) s)
      else
        case p of None \<Rightarrow> Done (None, s)
        | Some dirp \<Rightarrow>
            andthen (search_dir e dirp string 0 LOOK_UP s) (\<lambda>((r, numb), s).
            if r \<noteq> OK then Done (None, fail r s)
            else
              andthen (get_inode e (i_dev (inodes s dirp)) numb s) (\<lambda>(p, s).
              case p of None \<Rightarrow> Done (None, s)
              | Some rip \<Rightarrow>
                  andthen
                    (if i_num (inodes s rip) = ROOT_INODE \<and> i_num (inodes s dirp) = ROOT_INODE \<and> string ! 1 = DOT then
                       case super_scan (supers s) (i_dev (inodes s rip)) [1..<NR_SUPERS] of
                         None \<Rightarrow> Done (Some rip, s)
                       | Some sp \<Rightarrow>
                           andthen (put_inode e (Some rip) s) (\<lambda>s.
                           andthen (deref (s_imount (supers s sp))) (\<lambda>mp.
                           andthen (get_inode e (i_dev (inodes s mp)) (i_num (inodes s mp)) s) (\<lambda>(rip2, s).
                           andthen (advance_n n e rip2 string s) (\<lambda>(p, s).
                           andthen (put_inode e rip2 s) (\<lambda>s. Done (p, s))))))
                     else Done (Some rip, s))
                    (\<lambda>(p, s). cross_mounts e (NR_SUPERS + 1) p s))))"

definition advance :: "fs_env \<Rightarrow> ptr \<Rightarrow> name \<Rightarrow> fs \<Rightarrow> (ptr \<times> fs) run" where
  "advance = advance_n (NR_SUPERS + 1)"

fun str_len :: "nat \<Rightarrow> (nat \<Rightarrow> 8 word) \<Rightarrow> nat \<Rightarrow> nat run" where
  "str_len 0 u k = Stuck"
| "str_len (Suc n) u k = (if u k = 0 then Done k else str_len n u (k + 1))"

text \<open>\<open>/.\<close> is taken off the end of a path of the given length.\<close>

fun strip_dots :: "nat \<Rightarrow> (nat \<Rightarrow> 8 word) \<Rightarrow> nat \<Rightarrow> 8 word" where
  "strip_dots len u =
     (if len > 2 \<and> u (len - 2) = SLASH \<and> u (len - 1) = DOT then strip_dots (len - 2) (u(len - 2 := 0)) else u)"

declare strip_dots.simps [simp del]

primrec last_dir_loop :: "nat \<Rightarrow> fs_env \<Rightarrow> nat \<Rightarrow> nat \<Rightarrow> fs \<Rightarrow> ((ptr \<times> name) \<times> fs) run" where
  "last_dir_loop 0 e path rip s = Stuck"
| "last_dir_loop (Suc n) e path rip s =
     andthen (get_name (user_path s) path) (\<lambda>(new_name, string).
     case new_name of
       None \<Rightarrow> andthen (put_inode e (Some rip) (fail ENAMETOOLONG s)) (\<lambda>s. Done ((None, string), s))
     | Some path \<Rightarrow>
         if user_path s path = 0 then Done ((Some rip, string), s)
         else
           andthen (advance e (Some rip) string s) (\<lambda>(new_ip, s).
           andthen (put_inode e (Some rip) s) (\<lambda>s.
           case new_ip of None \<Rightarrow> Done ((None, string), s)
           | Some rip \<Rightarrow> last_dir_loop n e path rip s)))"

definition last_dir :: "fs_env \<Rightarrow> fs \<Rightarrow> ((ptr \<times> name) \<times> fs) run" where
  "last_dir e s =
     andthen (deref (if user_path s 0 = SLASH then fp_rootdir (fprocs s (fp s)) else fp_workdir (fprocs s (fp s)))) (\<lambda>rip.
     if i_nlinks (inodes s rip) = 0 \<or> user_path s 0 = 0 then Done ((None, []), fail ENOENT s)
     else
       let s = dup_inode rip s
       in andthen
         (if fs_call s = UNLINK \<or> fs_call s = RMDIR
          then andthen (str_len 4096 (user_path s) 0) (\<lambda>len. Done (s\<lparr>user_path := strip_dots len (user_path s)\<rparr>))
          else Done s)
         (last_dir_loop 4096 e 0 rip))"

definition eat_path :: "fs_env \<Rightarrow> fs \<Rightarrow> (ptr \<times> fs) run" where
  "eat_path e s =
     andthen (last_dir e s) (\<lambda>((ldip, string), s).
     case ldip of None \<Rightarrow> Done (None, s)
     | Some dir \<Rightarrow>
         if string ! 0 = 0 then Done (Some dir, s)
         else andthen (advance e (Some dir) string s) (\<lambda>(rip, s).
              andthen (put_inode e (Some dir) s) (\<lambda>s. Done (rip, s))))"

end
