(* ===== verification/Fs_File.thy ===== *)
theory Fs_File
  imports Fs_Path
begin

section \<open>File system: reading, writing, opening and closing\<close>

text \<open>
  \<open>read_write\<close> and \<open>rw_chunk\<close> of fs/read.c, the calls of fs/pipe.c and fs/open.c, and
  \<open>do_sync\<close> of fs/misc.c, which \<open>do_close\<close> calls.
\<close>

unbundle bit_operations_syntax

abbreviation (input) "O_CREAT \<equiv> (0x40::u16)"
abbreviation (input) "O_EXCL \<equiv> (0x80::u16)"
abbreviation (input) "O_TRUNC \<equiv> (0x200::u16)"
abbreviation (input) "O_APPEND \<equiv> (0x400::u16)"
abbreviation (input) "O_NONBLOCK \<equiv> (0x800::u16)"
abbreviation (input) "READ \<equiv> (3::int)"
abbreviation (input) "WRITE \<equiv> (4::int)"
abbreviation (input) "OPEN \<equiv> (5::int)"
abbreviation (input) "CREAT \<equiv> (8::int)"
abbreviation (input) "SIGPIPE \<equiv> (13::int)"

subsection \<open>Pipes\<close>

definition pipe_check :: "fs_env \<Rightarrow> nat \<Rightarrow> bool \<Rightarrow> u16 \<Rightarrow> int \<Rightarrow> addr \<Rightarrow> fs \<Rightarrow> (int \<times> fs) run" where
  "pipe_check e rip writing oflags bytes position s =
     (if \<not> writing then
        if sint position \<ge> sint (i_size (inodes s rip)) then
          if find_filp rip W_BIT s \<noteq> None then
            let (r, s) = (if on O_NONBLOCK oflags then (EAGAIN, s) else (0, suspend XPIPE s))
            in andthen (if susp_count s > 0 then release rip WRITE (susp_count s) s else Done s) (\<lambda>s. Done (r, s))
          else Done (0, s)
        else Done (1, s)
      else if bytes > 7168 then Done (EFBIG, s)
      else if find_filp rip R_BIT s = None then Done (EPIPE, send (SysKill (int (fp s)) SIGPIPE) s)
      else if sint (position + word_of_int bytes) > 7168 then
        if on O_NONBLOCK oflags then Done (EAGAIN, s) else Done (0, suspend XPIPE s)
      else andthen (if position = 0 then release rip READ (susp_count s) s else Done s) (\<lambda>s. Done (1, s)))"

definition do_pipe :: "fs_env \<Rightarrow> fs \<Rightarrow> (int \<times> fs) run" where
  "do_pipe e s =
     (let rfp = fp s; ((r, fd0, f0), s) = get_fd 0 R_BIT s
      in if r \<noteq> OK then Done (r, s)
         else
           let s = upd_fproc rfp (\<lambda>p. p\<lparr>fp_filp := (fp_filp p)(fd0 := Some f0)\<rparr>) s;
               s = upd_filp f0 (filp_count_update (\<lambda>_. 1)) s;
               undo0 = (\<lambda>s. upd_filp f0 (filp_count_update (\<lambda>_. 0)) (upd_fproc rfp (\<lambda>p. p\<lparr>fp_filp := (fp_filp p)(fd0 := None)\<rparr>) s));
               ((r, fd1, f1), s) = get_fd 0 W_BIT s
           in if r \<noteq> OK then Done (r, undo0 s)
              else
                let s = upd_fproc rfp (\<lambda>p. p\<lparr>fp_filp := (fp_filp p)(fd1 := Some f1)\<rparr>) s;
                    s = upd_filp f1 (filp_count_update (\<lambda>_. 1)) s
                in andthen (deref (fp_workdir (fprocs s rfp))) (\<lambda>dir.
                   andthen (alloc_inode e (i_dev (inodes s dir)) I_REGULAR s) (\<lambda>(p, s).
                   case p of
                     None \<Rightarrow>
                       let s = upd_fproc rfp (\<lambda>p. p\<lparr>fp_filp := (fp_filp p)(fd1 := None)\<rparr>) (undo0 s)
                       in Done (err_code s, upd_filp f1 (filp_count_update (\<lambda>_. 0)) s)
                   | Some rip \<Rightarrow>
                       let s = upd_inode rip (i_pipe_update (\<lambda>_. True)) s;
                           s = upd_filp f0 (filp_ino_update (\<lambda>_. Some rip)) s;
                           s = dup_inode rip s;
                           s = upd_filp f1 (filp_ino_update (\<lambda>_. Some rip)) s
                       in andthen (rw_inode e rip True s) (\<lambda>s.
                          Done (OK, reply_i2 (int fd1) (reply_i1 (int fd0) s))))))"

subsection \<open>Reading and writing\<close>

definition rw_chunk :: "fs_env \<Rightarrow> nat \<Rightarrow> addr \<Rightarrow> int \<Rightarrow> int \<Rightarrow> int \<Rightarrow> bool \<Rightarrow> addr \<Rightarrow> int \<Rightarrow> int \<Rightarrow> fs \<Rightarrow> (int \<times> fs) run" where
  "rw_chunk e rip position off chunk left writing buff seg usr s =
     (let i = inodes s rip; block_spec = (i_mode i AND I_TYPE = I_BLOCK_SPECIAL);
          dev = (if block_spec then i_zone i 0 else i_dev i)
      in andthen (if block_spec then Done (word_of_int (sint position sdiv 1024), s) else read_map e rip position s) (\<lambda>(b, s).
         andthen
           (if \<not> block_spec \<and> b = NO_BLOCK then
              if \<not> writing then andthen (get_block e NO_DEV NO_BLOCK NORMAL s) (\<lambda>(bp, s). Done (Some bp, zero_block bp s))
              else new_block e rip position s
            else if \<not> writing then
              andthen (rahead e rip b position (word_of_int left) s) (\<lambda>(bp, s). Done (Some bp, s))
            else
              let n = (if \<not> block_spec \<and> off = 0 \<and> sint position \<ge> sint (i_size (inodes s rip)) then NO_READ
                       else if chunk = 1024 then NO_READ else NORMAL)
              in andthen (get_block e dev b n s) (\<lambda>(bp, s). Done (Some bp, s)))
           (\<lambda>(p, s).
            case p of None \<Rightarrow> Done (err_code s, s)
            | Some bp \<Rightarrow>
                let s = (if writing \<and> chunk \<noteq> 1024 \<and> \<not> block_spec \<and> sint position \<ge> sint (i_size (inodes s rip)) \<and> off = 0
                         then zero_block bp s else s);
                    o' = word_of_int off;
                    (r, s) =
                      (if \<not> writing then
                         to_user e seg usr buff (word_of_int chunk) (\<lambda>a. b_data (bufs s bp) (o' + a)) s
                       else
                         let ((r, d), s) = from_user e seg usr buff (word_of_int chunk) s
                         in (r, upd_buf bp (\<lambda>b. b\<lparr>b_data := (\<lambda>a. if unat (a - o') < nat chunk then d (a - o') else b_data b a)\<rparr>) s));
                    s = (if writing then upd_buf bp (b_dirt_update (\<lambda>_. DIRTY)) s else s)
                in andthen (put_block e (Some bp) (if off + chunk = 1024 then FULL_DATA_BLOCK else PARTIAL_DATA_BLOCK) s) (\<lambda>s.
                   Done (r, s)))))"

text \<open>The chunks: the last result, the bytes moved, the position reached.\<close>

fun rw_loop :: "fs_env \<Rightarrow> nat \<Rightarrow> nat \<Rightarrow> bool \<Rightarrow> bool \<Rightarrow> addr \<Rightarrow> int \<Rightarrow> int \<Rightarrow> int \<Rightarrow> int \<Rightarrow> addr \<Rightarrow> fs \<Rightarrow>
    ((int \<times> int \<times> addr) \<times> fs) run" where
  "rw_loop e 0 rip writing block_spec f_size seg usr r cum_io position s = Stuck"
| "rw_loop e (Suc n) rip writing block_spec f_size seg usr r cum_io position s =
     (if nbytes s = 0 then Done ((r, cum_io, position), s)
      else
        let off = sint position smod 1024; chunk = min (nbytes s) (1024 - off); limited = (\<not> writing \<or> block_spec)
        in if limited \<and> sint position \<ge> sint f_size then Done ((r, cum_io, position), s)
           else
             let chunk = (if limited then min chunk (sint (f_size - position)) else chunk)
             in andthen (rw_chunk e rip position off chunk (nbytes s) writing (buffer s) seg usr s) (\<lambda>(r, s).
                if r \<noteq> OK \<or> rdwt_err s < 0 then Done ((r, cum_io, position), s)
                else
                  rw_loop e n rip writing block_spec f_size seg usr r (cum_io + chunk) (position + word_of_int chunk)
                    (set_nbytes (nbytes s - chunk) (set_buffer (buffer s + word_of_int chunk) s))))"

text \<open>What comes after the transfer.\<close>

definition rw_finish :: "nat \<Rightarrow> nat \<Rightarrow> bool \<Rightarrow> addr \<Rightarrow> int \<Rightarrow> int \<Rightarrow> addr \<Rightarrow> fs \<Rightarrow> int \<times> fs" where
  "rw_finish rip f writing f_size r cum_io position s =
     (let mode_word = i_mode (inodes s rip) AND I_TYPE;
          seekable = (mode_word = I_REGULAR \<or> mode_word = I_NAMED_PIPE \<or> mode_word = I_DIRECTORY);
          (position, s) =
            (if writing then
               (position,
                if seekable then
                  upd_inode rip (\<lambda>i. i\<lparr>i_size := if sint position > sint f_size then position else i_size i,
                    i_update := MTIME, i_dirt := DIRTY\<rparr>) s
                else s)
             else if i_pipe (inodes s rip) \<and> sint position \<ge> sint (i_size (inodes s rip)) then
               let s = upd_inode rip (i_size_update (\<lambda>_. 0)) s
               in (0, case find_filp rip W_BIT s of None \<Rightarrow> s | Some w \<Rightarrow> upd_filp w (filp_pos_update (\<lambda>_. 0)) s)
             else (position, s));
          s = upd_filp f (filp_pos_update (\<lambda>_. position)) s;
          s = (if \<not> writing \<and> \<not> i_seek (inodes s rip) \<and> sint position smod 1024 = 0 \<and> seekable
               then s\<lparr>rdahed_inode := Some rip, rdahedpos := position\<rparr> else s);
          s = upd_inode rip (i_seek_update (\<lambda>_. False)) s;
          r = (if rdwt_err s \<noteq> OK then rdwt_err s else r);
          r = (if rdwt_err s = END_OF_FILE then cum_io else r)
      in (if r = OK then cum_io else r, s))"

definition read_write :: "fs_env \<Rightarrow> bool \<Rightarrow> fs \<Rightarrow> (int \<times> fs) run" where
  "read_write e writing s =
     (let w = get16 (m_in s) m1_i1; odd = (who s = MM_PROC_NR \<and> w AND NOT 0xFF \<noteq> 0);
          usr = (if odd then uint (drop_bit 8 w AND 0xFF) else who s);
          seg = (if odd then uint (drop_bit 6 w AND 3) else D_SEG);
          s = (if odd then set_fd (uint (w AND 63)) s else s)
      in if nbytes s < 0 then Done (EINVAL, s)
         else
           let (p, s) = get_filp (fd s) s
           in case p of None \<Rightarrow> Done (err_code s, s)
              | Some f \<Rightarrow>
                  if \<not> on (if writing then W_BIT else R_BIT) (filp_mode (filps s f)) then Done (EBADF, s)
                  else if nbytes s = 0 then Done (0, s)
                  else
                    let position = filp_pos (filps s f)
                    in if sint position < 0 then Done (EINVAL, s)
                       else
                         andthen (deref (filp_ino (filps s f))) (\<lambda>rip.
                         let oflags = filp_flags (filps s f); i = inodes s rip;
                             mode_word = i_mode i AND I_TYPE; block_spec = (mode_word = I_BLOCK_SPECIAL);
                             f_size = (if block_spec \<and> i_size i = 0 then 0x7FFFFFFF else i_size i);
                             s = s\<lparr>rdwt_err := OK\<rparr>
                         in if mode_word = I_CHAR_SPECIAL then
                              andthen (dev_io e writing (on O_NONBLOCK oflags) (i_zone i 0) position (nbytes s) (who s) (buffer s) s) (\<lambda>(r, s).
                              Done (rw_finish rip f writing f_size (if r \<ge> 0 then OK else r) (if r \<ge> 0 then r else 0)
                                (if r \<ge> 0 then position + word_of_int r else position) s))
                            else
                              let limited = (writing \<and> \<not> block_spec)
                              in andthen (if limited then andthen (get_super (i_dev i) s) (\<lambda>sp. Done (s_max_size (supers s sp))) else Done 0) (\<lambda>mx.
                                 if limited \<and> sint position > sint (mx - word_of_int (nbytes s)) then Done (EFBIG, s)
                                 else
                                   let position = (if limited \<and> on O_APPEND oflags then f_size else position)
                                   in andthen (if limited \<and> sint position > sint f_size then clear_zone e rip f_size False s else Done s) (\<lambda>s.
                                      andthen (if i_pipe (inodes s rip) then pipe_check e rip writing oflags (nbytes s) position s
                                               else Done (OK, s)) (\<lambda>(r, s).
                                      if i_pipe (inodes s rip) \<and> r \<le> 0 then Done (r, s)
                                      else
                                        andthen (rw_loop e 64 rip writing block_spec f_size seg usr r 0 position s) (\<lambda>((r, cum_io, position), s).
                                        Done (rw_finish rip f writing f_size r cum_io position s)))))))"

definition do_read :: "fs_env \<Rightarrow> fs \<Rightarrow> (int \<times> fs) run" where "do_read e = read_write e False"
definition do_write :: "fs_env \<Rightarrow> fs \<Rightarrow> (int \<times> fs) run" where "do_write e = read_write e True"

end
