(* ===== verification/Fs_Open.thy ===== *)
theory Fs_Open
  imports Fs_File
begin

section \<open>File system: creating, opening and closing\<close>

text \<open>
  fs/open.c, and \<open>do_sync\<close> of fs/misc.c, which \<open>do_close\<close> calls.  \<open>do_mknod\<close> calls \<open>new_node\<close>
  without its fourth argument; what \<open>new_node\<close> finds in its place is a parameter.
\<close>

unbundle bit_operations_syntax

subsection \<open>fs/misc.c: \<open>do_sync\<close>\<close>

fun sync_inodes :: "fs_env \<Rightarrow> nat list \<Rightarrow> fs \<Rightarrow> fs run" where
  "sync_inodes e [] s = Done s"
| "sync_inodes e (i # is) s =
     andthen (if i_count (inodes s i) > 0 \<and> i_dirt (inodes s i) then rw_inode e i True s else Done s) (sync_inodes e is)"

fun sync_supers :: "fs_env \<Rightarrow> nat list \<Rightarrow> fs \<Rightarrow> fs run" where
  "sync_supers e [] s = Done s"
| "sync_supers e (i # is) s =
     andthen (if s_dev (supers s i) \<noteq> NO_DEV \<and> s_dirt (supers s i) then rw_super e i True s else Done s) (sync_supers e is)"

fun sync_bufs :: "fs_env \<Rightarrow> nat list \<Rightarrow> fs \<Rightarrow> fs run" where
  "sync_bufs e [] s = Done s"
| "sync_bufs e (i # is) s =
     andthen (if b_dev (bufs s i) \<noteq> NO_DEV \<and> b_dirt (bufs s i) then flushall e (b_dev (bufs s i)) s else Done s) (sync_bufs e is)"

definition do_sync :: "fs_env \<Rightarrow> fs \<Rightarrow> (int \<times> fs) run" where
  "do_sync e s =
     andthen (get_super (root_dev s) s) (\<lambda>sp.
     andthen (clock_time e s) (\<lambda>(t, s).
     let s = upd_super sp (s_time_update (\<lambda>_. t)) s;
         s = (if s_rd_only (supers s sp) = 0 then upd_super sp (s_dirt_update (\<lambda>_. DIRTY)) s else s)
     in andthen (sync_inodes e [0..<NR_INODES] s) (\<lambda>s.
        andthen (sync_supers e [0..<NR_SUPERS] s) (\<lambda>s.
        andthen (sync_bufs e [0..<NR_BUFS] s) (\<lambda>s. Done (OK, s))))))"

subsection \<open>New nodes\<close>

definition new_node :: "fs_env \<Rightarrow> u16 \<Rightarrow> u16 \<Rightarrow> addr \<Rightarrow> fs \<Rightarrow> (ptr \<times> fs) run" where
  "new_node e bits z0 lsize s =
     andthen (last_dir e s) (\<lambda>((dir, string), s).
     case dir of None \<Rightarrow> Done (None, s)
     | Some d \<Rightarrow>
         andthen (advance e dir string s) (\<lambda>(rip, s).
         if rip = None \<and> err_code s = ENOENT then
           andthen (alloc_inode e (i_dev (inodes s d)) bits s) (\<lambda>(p, s).
           case p of
             None \<Rightarrow> andthen (put_inode e dir s) (\<lambda>s. Done (None, s))
           | Some i \<Rightarrow>
               let s = upd_inode i (\<lambda>x. x\<lparr>i_nlinks := i_nlinks x + 1, i_zone := (i_zone x)(0 := z0), i_size := lsize\<rparr>) s
               in andthen (rw_inode e i True s) (\<lambda>s.
                  andthen (search_dir e d string (i_num (inodes s i)) ENTER s) (\<lambda>((r, n), s).
                  let s = upd_inode i (i_num_update (\<lambda>_. n)) s
                  in if r \<noteq> OK then
                       andthen (put_inode e dir s) (\<lambda>s.
                       let s = upd_inode i (\<lambda>x. x\<lparr>i_nlinks := i_nlinks x - 1, i_dirt := DIRTY\<rparr>) s
                       in andthen (put_inode e (Some i) s) (\<lambda>s. Done (None, fail r s)))
                     else andthen (put_inode e dir s) (\<lambda>s. Done (Some i, fail r s)))))
         else
           let r = (if rip \<noteq> None then EEXIST else err_code s)
           in andthen (put_inode e dir s) (\<lambda>s. Done (rip, fail r s))))"

definition do_mknod :: "fs_env \<Rightarrow> addr \<Rightarrow> fs \<Rightarrow> (int \<times> fs) run" where
  "do_mknod e stray s =
     (let md = fs_mode s
      in if \<not> super_user s \<and> md AND I_TYPE \<noteq> I_NAMED_PIPE then Done (EPERM, s)
         else
           let (r, s) = fetch_name e (buffer s) (fd s) False s
           in if r \<noteq> OK then Done (err_code s, s)
              else
                let bits = md AND I_TYPE OR (md AND ALL_MODES AND fp_umask (fprocs s (fp s)))
                in andthen (new_node e bits (word_of_int (arg3 s)) stray s) (\<lambda>(p, s).
                   andthen (put_inode e p s) (\<lambda>s. Done (err_code s, s))))"

subsection \<open>Opening\<close>

definition pipe_open :: "nat \<Rightarrow> u16 \<Rightarrow> u16 \<Rightarrow> fs \<Rightarrow> (int \<times> fs) run" where
  "pipe_open rip bits oflags s =
     (let ready = (\<lambda>s. Done (OK, upd_inode rip (i_pipe_update (\<lambda>_. True)) s))
      in if find_filp rip (if on W_BIT bits then R_BIT else W_BIT) s = None then
           if on O_NONBLOCK oflags then Done (if on W_BIT bits then ENXIO else OK, s)
           else ready (suspend XOPEN s)
         else
           andthen (if susp_count s > 0 then
               andthen (release rip OPEN (susp_count s) s) (\<lambda>s. release rip CREAT (susp_count s) s)
             else Done s) ready)"

text \<open>Protection checks and the work that depends on the type of an existing file.\<close>

definition open_existing :: "fs_env \<Rightarrow> nat \<Rightarrow> u16 \<Rightarrow> u16 \<Rightarrow> fs \<Rightarrow> (int \<times> fs) run" where
  "open_existing e rip bits oflags s =
     andthen (forbidden rip bits False s) (\<lambda>r.
     if r \<noteq> OK then Done (r, s)
     else
       let t = i_mode (inodes s rip) AND I_TYPE
       in if t = I_REGULAR then
            if on O_TRUNC oflags then andthen (fs_truncate e rip s) (\<lambda>s. Done (OK, wipe_inode rip s)) else Done (OK, s)
          else if t = I_DIRECTORY then Done (if on W_BIT bits then EISDIR else OK, s)
          else if t = I_CHAR_SPECIAL \<or> t = I_BLOCK_SPECIAL then dev_open e rip s
          else if t = I_NAMED_PIPE then pipe_open rip bits oflags s
          else Done (OK, s))"

definition mode_map :: "u16 \<Rightarrow> u16" where
  "mode_map k = (if k = 0 then R_BIT else if k = 1 then W_BIT else if k = 2 then R_BIT OR W_BIT else 0)"

definition common_open :: "fs_env \<Rightarrow> u16 \<Rightarrow> u16 \<Rightarrow> fs \<Rightarrow> (int \<times> fs) run" where
  "common_open e oflags omode s =
     (let bits = mode_map (oflags AND 3); ((r, k, f), s) = get_fd 0 bits s;
          s = set_fd (if r = EMFILE then -1 else int k) s
      in if r \<noteq> OK then Done (r, s)
         else
           andthen
             (if on O_CREAT oflags then
                andthen (new_node e (I_REGULAR OR (omode AND ALL_MODES AND fp_umask (fprocs s (fp s)))) NO_ZONE 0 s) (\<lambda>(p, s).
                let r = err_code s in Done ((p, r, r \<noteq> OK \<and> \<not> on O_EXCL oflags, r \<noteq> OK \<and> r \<noteq> EEXIST), s))
              else
                andthen (eat_path e s) (\<lambda>(p, s). Done ((p, if p = None then err_code s else OK, True, p = None), s)))
             (\<lambda>((p, r, exist, done), s).
              if done then Done (r, s)
              else
                andthen (deref p) (\<lambda>rip.
                andthen (if exist then open_existing e rip bits oflags s else Done (r, s)) (\<lambda>(r, s).
                if r \<noteq> OK then andthen (put_inode e (Some rip) s) (\<lambda>s. Done (r, s))
                else
                  let k = fd s;
                      s = upd_fproc (fp s) (\<lambda>p. p\<lparr>fp_filp := (fp_filp p)(nat k := Some f)\<rparr>) s;
                      s = upd_filp f (\<lambda>x. x\<lparr>filp_count := 1, filp_ino := Some rip, filp_flags := oflags\<rparr>) s
                  in Done (k, s)))))"

definition do_creat :: "fs_env \<Rightarrow> fs \<Rightarrow> (int \<times> fs) run" where
  "do_creat e s =
     (let (r, s) = fetch_name e (fs_name s) (fd s) True s
      in if r \<noteq> OK then Done (err_code s, s)
         else common_open e (1 OR O_CREAT OR O_TRUNC) (fs_mode s) s)"

definition do_open :: "fs_env \<Rightarrow> fs \<Rightarrow> (int \<times> fs) run" where
  "do_open e s =
     (let creating = on O_CREAT (fs_mode s);
          create_mode = (if creating then word_of_int (arg3 s) else 0);
          (r, s) = (if creating then fetch_name e (buffer s) (fd s) False s else fetch_name e (fs_name s) (fd s) True s)
      in if r \<noteq> OK then Done (err_code s, s) else common_open e (fs_mode s) create_mode s)"

subsection \<open>Closing and seeking\<close>

definition do_close :: "fs_env \<Rightarrow> fs \<Rightarrow> (int \<times> fs) run" where
  "do_close e s =
     (let (p, s) = get_filp (fd s) s
      in case p of None \<Rightarrow> Done (err_code s, s)
         | Some f \<Rightarrow>
             andthen (deref (filp_ino (filps s f))) (\<lambda>rip.
             let mode_word = i_mode (inodes s rip) AND I_TYPE
             in andthen
               (if mode_word = I_CHAR_SPECIAL \<or> mode_word = I_BLOCK_SPECIAL then
                  andthen
                    (if mode_word = I_BLOCK_SPECIAL then
                       andthen (do_sync e s) (\<lambda>(_, s).
                       Done (if mounted rip s then s else invalidate (i_zone (inodes s rip) 0) s))
                     else Done s)
                    (\<lambda>s. if filp_count (filps s f) = 1 then dev_close rip s else Done s)
                else Done s) (\<lambda>s.
             andthen
               (if i_pipe (inodes s rip)
                then release rip (if on R_BIT (filp_mode (filps s f)) then WRITE else READ) (int NR_USERS) s else Done s) (\<lambda>s.
             let s = upd_filp f (\<lambda>x. x\<lparr>filp_count := filp_count x - 1\<rparr>) s
             in andthen (if filp_count (filps s f) = 0 then put_inode e (Some rip) s else Done s) (\<lambda>s.
                let k = nat (fd s)
                in Done (OK, upd_fproc (fp s) (\<lambda>p. p\<lparr>fp_filp := (fp_filp p)(k := None)\<rparr>) s))))))"

definition do_lseek :: "fs \<Rightarrow> (int \<times> fs) run" where
  "do_lseek s =
     (let (p, s) = get_filp (fd s) s; offset = get32 (m_in s) m2_l1; whence = fd2 s
      in case p of None \<Rightarrow> Done (err_code s, s)
         | Some f \<Rightarrow>
             andthen (deref (filp_ino (filps s f))) (\<lambda>rip.
             if i_pipe (inodes s rip) then Done (ESPIPE, s)
             else if whence \<noteq> 0 \<and> whence \<noteq> 1 \<and> whence \<noteq> 2 then Done (EINVAL, s)
             else
               let pos = (if whence = 0 then offset else if whence = 1 then filp_pos (filps s f) + offset
                          else i_size (inodes s rip) + offset)
               in if sint pos < 0 then Done (EINVAL, s)
                  else
                    let s = (if pos \<noteq> filp_pos (filps s f) then upd_inode rip (i_seek_update (\<lambda>_. True)) s else s);
                        s = upd_filp f (filp_pos_update (\<lambda>_. pos)) s
                    in Done (OK, reply_l1 pos s)))"

subsection \<open>Directories\<close>

definition dot1 :: name where "dot1 = pad [DOT]"
definition dot2 :: name where "dot2 = pad [DOT, DOT]"

definition do_mkdir :: "fs_env \<Rightarrow> fs \<Rightarrow> (int \<times> fs) run" where
  "do_mkdir e s =
     (let (r, s) = fetch_name e (buffer s) (fd s) False s
      in if r \<noteq> OK then Done (err_code s, s)
         else
           let bits = I_DIRECTORY OR (fs_mode s AND RWX_MODES AND fp_umask (fprocs s (fp s)))
           in andthen (new_node e bits 0 0 s) (\<lambda>(p, s).
              case p of None \<Rightarrow> Done (err_code s, s)
              | Some rip \<Rightarrow>
                  if err_code s = EEXIST then andthen (put_inode e p s) (\<lambda>s. Done (err_code s, s))
                  else
                    andthen (last_dir e s) (\<lambda>((lp, string), s).
                    andthen (deref lp) (\<lambda>ldirp.
                    let dotdot = i_num (inodes s ldirp); dot = i_num (inodes s rip);
                        s = upd_inode rip (\<lambda>i. i\<lparr>i_mode := i_mode i OR 0x1C0\<rparr>) s
                    in andthen (search_dir e rip dot1 dot ENTER s) (\<lambda>((r1, _), s).
                       andthen (search_dir e rip dot2 dotdot ENTER s) (\<lambda>((r2, _), s).
                       let s = upd_inode rip (i_mode_update (\<lambda>_. bits)) s
                       in andthen
                         (if r1 = OK \<and> r2 = OK then
                            let s = upd_inode rip (\<lambda>i. i\<lparr>i_nlinks := i_nlinks i + 1\<rparr>) s
                            in Done (upd_inode ldirp (\<lambda>i. i\<lparr>i_nlinks := i_nlinks i + 1, i_dirt := DIRTY\<rparr>) s)
                          else
                            andthen (search_dir e rip dot1 0 DELETE s) (\<lambda>(_, s).
                            andthen (search_dir e rip dot2 0 DELETE s) (\<lambda>(_, s).
                            andthen (search_dir e ldirp string 0 DELETE s) (\<lambda>(_, s).
                            Done (upd_inode rip (\<lambda>i. i\<lparr>i_nlinks := i_nlinks i - 1\<rparr>) s)))))
                         (\<lambda>s.
                          let s = upd_inode rip (i_dirt_update (\<lambda>_. DIRTY)) s
                          in andthen (put_inode e lp s) (\<lambda>s.
                             andthen (put_inode e p s) (\<lambda>s. Done (err_code s, s))))))))))"

end
