(* ===== verification/Fs_Calls.thy ===== *)
theory Fs_Calls
  imports Fs_Open
begin

section \<open>File system: links, status, mounting and the rest of the calls\<close>

text \<open>
  fs/link.c, fs/stadir.c, fs/mount.c, fs/misc.c, fs/time.c and the calls of fs/protect.c.
  The buffers that \<open>do_rename\<close> copies names into are one byte longer than a name, and that byte
  is never set; the model copies the 14 bytes.
\<close>

unbundle bit_operations_syntax

subsection \<open>fs/protect.c\<close>

definition do_chmod :: "fs_env \<Rightarrow> fs \<Rightarrow> (int \<times> fs) run" where
  "do_chmod e s =
     (let md = fs_mode s; (r, s) = fetch_name e (fs_name s) (fd s) True s
      in if r \<noteq> OK then Done (err_code s, s)
         else
           andthen (eat_path e s) (\<lambda>(p, s).
           case p of None \<Rightarrow> Done (err_code s, s)
           | Some rip \<Rightarrow>
               andthen (if i_uid (inodes s rip) \<noteq> fp_effuid (fprocs s (fp s)) \<and> \<not> super_user s then Done EPERM
                        else read_only rip s) (\<lambda>r.
               let s = (if r = OK then upd_inode rip (\<lambda>i. i\<lparr>i_mode := (i_mode i AND NOT ALL_MODES) OR (md AND ALL_MODES), i_dirt := DIRTY\<rparr>) s
                        else s)
               in andthen (put_inode e p s) (\<lambda>s. Done (r, s)))))"

definition do_chown :: "fs_env \<Rightarrow> fs \<Rightarrow> (int \<times> fs) run" where
  "do_chown e s =
     (if \<not> super_user s then Done (EPERM, s)
      else
        let owner = fs_mode s; group = arg3 s; (r, s) = fetch_name e (buffer s) (fd s) False s
        in if r \<noteq> OK then Done (err_code s, s)
           else
             andthen (eat_path e s) (\<lambda>(p, s).
             case p of None \<Rightarrow> Done (err_code s, s)
             | Some rip \<Rightarrow>
                 andthen (read_only rip s) (\<lambda>r.
                 let s = (if r = OK then upd_inode rip (\<lambda>i. i\<lparr>i_uid := owner, i_gid := word_of_int group, i_dirt := DIRTY\<rparr>) s else s)
                 in andthen (put_inode e p s) (\<lambda>s. Done (r, s)))))"

definition do_umask :: "fs \<Rightarrow> int \<times> fs" where
  "do_umask s =
     (let r = NOT (fp_umask (fprocs s (fp s)))
      in (sint r, upd_fproc (fp s) (fp_umask_update (\<lambda>_. NOT (get16 (m_in s) m1_i1 AND RWX_MODES))) s))"

definition do_access :: "fs_env \<Rightarrow> fs \<Rightarrow> (int \<times> fs) run" where
  "do_access e s =
     (let md = fs_mode s; (r, s) = fetch_name e (fs_name s) (fd s) True s
      in if r \<noteq> OK then Done (err_code s, s)
         else
           andthen (eat_path e s) (\<lambda>(p, s).
           case p of None \<Rightarrow> Done (err_code s, s)
           | Some rip \<Rightarrow>
               andthen (forbidden rip md True s) (\<lambda>r.
               andthen (put_inode e p s) (\<lambda>s. Done (r, s)))))"

subsection \<open>fs/link.c\<close>

definition is_dir :: "inode \<Rightarrow> bool" where
  "is_dir i = (i_mode i AND I_TYPE = I_DIRECTORY)"

definition do_link :: "fs_env \<Rightarrow> fs \<Rightarrow> (int \<times> fs) run" where
  "do_link e s =
     (let (r, s) = fetch_name e (buffer s) (fd s) False s
      in if r \<noteq> OK then Done (err_code s, s)
         else
           andthen (eat_path e s) (\<lambda>(p, s).
           case p of None \<Rightarrow> Done (err_code s, s)
           | Some rip \<Rightarrow>
               let i = inodes s rip;
                   r = (if i_nlinks i = 127 then EMLINK else if is_dir i \<and> \<not> super_user s then EPERM else OK)
               in if r \<noteq> OK then andthen (put_inode e p s) (\<lambda>s. Done (r, s))
                  else
                    let (r, s) = fetch_name e (name2 s) (fd2 s) False s
                    in if r \<noteq> OK then andthen (put_inode e p s) (\<lambda>s. Done (err_code s, s))
                       else
                         andthen (last_dir e s) (\<lambda>((ip, string), s).
                         andthen
                           (case ip of
                              None \<Rightarrow> Done (err_code s, s)
                            | Some dir \<Rightarrow>
                                andthen (advance e ip string s) (\<lambda>(new_ip, s).
                                case new_ip of
                                  None \<Rightarrow> Done (if err_code s = ENOENT then OK else err_code s, s)
                                | Some _ \<Rightarrow> andthen (put_inode e new_ip s) (\<lambda>s. Done (EEXIST, s))))
                           (\<lambda>(r, s).
                            andthen
                              (case ip of
                                 Some dir \<Rightarrow>
                                   if r \<noteq> OK then Done (r, s)
                                   else if i_dev (inodes s rip) \<noteq> i_dev (inodes s dir) then Done (EXDEV, s)
                                   else
                                     andthen (search_dir e dir string (i_num (inodes s rip)) ENTER s) (\<lambda>((r, _), s).
                                     Done (r, if r = OK then upd_inode rip (\<lambda>i. i\<lparr>i_nlinks := i_nlinks i + 1, i_dirt := DIRTY\<rparr>) s else s))
                               | None \<Rightarrow> if r = OK then Stuck else Done (r, s))
                              (\<lambda>(r, s).
                               andthen (put_inode e p s) (\<lambda>s.
                               andthen (put_inode e ip s) (\<lambda>s. Done (r, s))))))))"

text \<open>A string against a C literal.\<close>

definition path_is :: "(nat \<Rightarrow> 8 word) \<Rightarrow> 8 word list \<Rightarrow> bool" where
  "path_is u xs \<longleftrightarrow> (\<forall>k<length xs. u k = xs ! k) \<and> u (length xs) = 0"

definition busy_dir :: "nat \<Rightarrow> fs \<Rightarrow> bool" where
  "busy_dir rip s = list_ex (\<lambda>i. fp_workdir (fprocs s i) = Some rip \<or> fp_rootdir (fprocs s i) = Some rip) [3..<NR_USERS]"

definition do_rmdir :: "fs_env \<Rightarrow> nat \<Rightarrow> nat \<Rightarrow> name \<Rightarrow> fs \<Rightarrow> (int \<times> fs) run" where
  "do_rmdir e dir rip string s =
     (let i = inodes s rip; r = (if is_dir i then OK else ENOTDIR); old_mode = i_mode i; old_uid = i_uid i
      in andthen (search_dir e rip (pad []) 0 LOOK_UP s) (\<lambda>((q, _), s).
         let r = (if q = OK then ENOTEMPTY else r);
             r = (if path_is (user_path s) [SLASH] then EPERM else r);
             r = (if same_name string [DOT] \<or> same_name string [DOT, DOT] then EPERM else r);
             r = (if busy_dir rip s then EBUSY else r)
         in andthen (if r = OK then andthen (search_dir e dir string 0 DELETE s) (\<lambda>((r, _), s). Done (r, s)) else Done (r, s)) (\<lambda>(r, s).
            if r \<noteq> OK then Done (r, s)
            else
              let s = upd_inode rip (\<lambda>i. i\<lparr>i_mode := i_mode i OR 0x1C0, i_uid := fp_effuid (fprocs s (fp s))\<rparr>) s
              in andthen (search_dir e rip dot1 0 DELETE s) (\<lambda>((r, _), s).
                 let s = (if r = OK then upd_inode rip (\<lambda>i. i\<lparr>i_nlinks := i_nlinks i - 1\<rparr>) s else s)
                 in andthen (search_dir e rip dot2 0 DELETE s) (\<lambda>((r1, _), s).
                    let s = (if r1 = OK then upd_inode dir (\<lambda>i. i\<lparr>i_nlinks := i_nlinks i - 1\<rparr>) s else s);
                        s = upd_inode rip (i_dirt_update (\<lambda>_. DIRTY)) s;
                        s = upd_inode dir (i_dirt_update (\<lambda>_. DIRTY)) s;
                        s = upd_inode rip (\<lambda>i. i\<lparr>i_mode := old_mode, i_uid := old_uid\<rparr>) s
                    in Done (if r1 \<noteq> OK then r1 else r, s))))))"

definition do_unlink :: "fs_env \<Rightarrow> fs \<Rightarrow> (int \<times> fs) run" where
  "do_unlink e s =
     (let (r, s) = fetch_name e (fs_name s) (fd s) True s
      in if r \<noteq> OK then Done (err_code s, s)
         else
           andthen (last_dir e s) (\<lambda>((rldirp, string), s).
           case rldirp of None \<Rightarrow> Done (err_code s, s)
           | Some dir \<Rightarrow>
               andthen (advance e rldirp string s) (\<lambda>(p, s).
               case p of
                 None \<Rightarrow> let r = err_code s in andthen (put_inode e rldirp s) (\<lambda>s. Done (r, s))
               | Some rip \<Rightarrow>
                   let old_mode = i_mode (inodes s rip)
                   in andthen
                     (if fs_call s = UNLINK then
                        if is_dir (inodes s rip) \<and> \<not> super_user s then Done (EPERM, s)
                        else andthen (search_dir e dir string 0 DELETE s) (\<lambda>((r, _), s). Done (r, s))
                      else do_rmdir e dir rip string s)
                     (\<lambda>(r, s).
                      let s = (if r = OK then upd_inode rip (\<lambda>i. i\<lparr>i_nlinks := i_nlinks i - 1, i_dirt := DIRTY\<rparr>) s else s);
                          s = upd_inode rip (i_mode_update (\<lambda>_. old_mode)) s
                      in andthen (put_inode e p s) (\<lambda>s.
                         andthen (put_inode e rldirp s) (\<lambda>s. Done (r, s)))))))"

abbreviation (input) "SAME \<equiv> (1000::int)"

text \<open>The checks of \<open>do_rename\<close>, the last one that fails decides.\<close>

definition rename_checks :: "fs_env \<Rightarrow> (nat \<Rightarrow> 8 word) \<Rightarrow> nat \<Rightarrow> nat \<Rightarrow> nat \<Rightarrow> ptr \<Rightarrow> fs \<Rightarrow> (int \<times> fs) run" where
  "rename_checks e old_name old_dirp old_ip new_dirp new_ip s =
     andthen (str_len 4096 old_name 0) (\<lambda>len.
     let r = (if \<forall>k<len. old_name k = user_path s k then EINVAL else OK);
         r = (if path_is old_name [DOT] \<or> path_is old_name [DOT, DOT] then EINVAL else r);
         r = (if i_dev (inodes s old_dirp) \<noteq> i_dev (inodes s new_dirp) then EXDEV else r)
     in andthen (forbidden old_dirp (W_BIT OR X_BIT) False s) (\<lambda>f1.
        andthen (forbidden new_dirp (W_BIT OR X_BIT) False s) (\<lambda>f2.
        let r = (if f1 \<noteq> 0 \<or> f2 \<noteq> 0 then EACCES else r); odir = is_dir (inodes s old_ip)
        in case new_ip of None \<Rightarrow> Done (r, s)
           | Some n \<Rightarrow>
               let ndir = is_dir (inodes s n);
                   r = (if odir \<and> \<not> ndir then ENOTDIR else r);
                   r = (if \<not> odir \<and> ndir then EISDIR else r);
                   r = (if i_num (inodes s old_ip) = i_num (inodes s n) then SAME else r)
               in if ndir then
                    andthen (search_dir e n (pad []) 0 LOOK_UP s) (\<lambda>((q, _), s). Done (if q = OK then ENOTEMPTY else r, s))
                  else Done (r, s))))"

definition rename_entry :: "fs_env \<Rightarrow> nat \<Rightarrow> nat \<Rightarrow> name \<Rightarrow> nat \<Rightarrow> ptr \<Rightarrow> name \<Rightarrow> fs \<Rightarrow> (int \<times> fs) run" where
  "rename_entry e old_dirp old_ip old_string new_dirp new_ip string s =
     (let numb = i_num (inodes s old_ip); odir = is_dir (inodes s old_ip);
          drop_link = (\<lambda>i. i\<lparr>i_nlinks := i_nlinks i - 1\<rparr>)
      in andthen
        (case new_ip of
           None \<Rightarrow>
             andthen (search_dir e new_dirp string numb ENTER s) (\<lambda>((r, _), s).
             Done (r, if r = OK \<and> odir then upd_inode new_dirp (\<lambda>i. i\<lparr>i_nlinks := i_nlinks i + 1, i_dirt := DIRTY\<rparr>) s else s))
         | Some n \<Rightarrow>
             andthen (search_dir e new_dirp string 0 DELETE s) (\<lambda>(_, s).
             andthen (search_dir e new_dirp string numb ENTER s) (\<lambda>(_, s).
             let s = upd_inode n (\<lambda>i. i\<lparr>i_nlinks := i_nlinks i - 1, i_dirt := DIRTY\<rparr>) s
             in Done (OK, if odir then upd_inode n drop_link s else s))))
        (\<lambda>(r, s).
         if r \<noteq> OK then Done (r, s)
         else
           andthen
             (if odir then
                let s = upd_inode old_dirp (\<lambda>i. i\<lparr>i_nlinks := i_nlinks i - 1, i_dirt := DIRTY\<rparr>) s;
                    numb = i_num (inodes s new_dirp)
                in andthen (search_dir e old_ip dot2 0 DELETE s) (\<lambda>(_, s).
                   andthen (search_dir e old_ip dot2 numb ENTER s) (\<lambda>(_, s). Done s))
              else Done s)
             (\<lambda>s.
              andthen (search_dir e old_dirp old_string 0 DELETE s) (\<lambda>(_, s).
              let s = upd_inode old_dirp (i_update_update (\<lambda>_. CTIME OR MTIME)) s;
                  s = upd_inode new_dirp (i_update_update (\<lambda>_. CTIME OR MTIME)) s
              in Done (OK, s)))))"

definition do_rename :: "fs_env \<Rightarrow> fs \<Rightarrow> (int \<times> fs) run" where
  "do_rename e s =
     (let (r, s) = fetch_name e (buffer s) (fd s) False s
      in if r \<noteq> OK then Done (err_code s, s)
         else
           andthen (last_dir e s) (\<lambda>((old_dir, old_string), s).
           case old_dir of None \<Rightarrow> Done (err_code s, s)
           | Some old_dirp \<Rightarrow>
               andthen (advance e old_dir old_string s) (\<lambda>(old_ip, s).
               let r = (if old_ip = None then err_code s else OK); old_name = user_path s;
                   (q, s) = fetch_name e (name2 s) (fd2 s) False s;
                   r = (if q \<noteq> OK then err_code s else r)
               in andthen (last_dir e s) (\<lambda>((new_dir, string), s).
                  let r = (if new_dir = None then err_code s else r)
                  in andthen (advance e new_dir string s) (\<lambda>(new_ip, s).
                     andthen
                       (if r \<noteq> OK then Done (r, s)
                        else
                          andthen (deref new_dir) (\<lambda>new_dirp.
                          andthen (deref old_ip) (\<lambda>oip.
                          andthen (rename_checks e old_name old_dirp oip new_dirp new_ip s) (\<lambda>(r, s).
                          if r = OK then rename_entry e old_dirp oip old_string new_dirp new_ip string s else Done (r, s)))))
                       (\<lambda>(r, s).
                        andthen (put_inode e old_dir s) (\<lambda>s.
                        andthen (put_inode e old_ip s) (\<lambda>s.
                        andthen (put_inode e new_dir s) (\<lambda>s.
                        andthen (put_inode e new_ip s) (\<lambda>s.
                        Done (if r = SAME then OK else r, s)))))))))))"

end
