(* ===== verification/Fs_Main.thy ===== *)
theory Fs_Main
  imports Fs_Calls
begin

section \<open>File system: status, mounting, start-up and the main loop\<close>

text \<open>
  fs/stadir.c, fs/mount.c, the rest of fs/misc.c, fs/time.c, fs/table.c and fs/main.c, the
  latter for the configuration of include/minix/config.h (ASKDEV and FASTLOAD on).  One turn of the
  loop of \<open>main\<close> is a function of the message received.  The messages of a task carry a negative
  \<open>who\<close>, for which the code computes an entry before the table; the only call a task
  makes does not use it, and the model takes entry 0.
\<close>

unbundle bit_operations_syntax

abbreviation (input) "SETUID \<equiv> (23::int)"
abbreviation (input) "SETGID \<equiv> (46::int)"

subsection \<open>fs/stadir.c\<close>

text \<open>\<open>change\<close>, for the root directory (\<open>root\<close>) or the working directory of the caller.\<close>

definition change :: "fs_env \<Rightarrow> bool \<Rightarrow> addr \<Rightarrow> int \<Rightarrow> fs \<Rightarrow> (int \<times> fs) run" where
  "change e root name_ptr len s =
     (let (r, s) = fetch_name e name_ptr len True s
      in if r \<noteq> OK then Done (err_code s, s)
         else
           andthen (eat_path e s) (\<lambda>(p, s).
           case p of None \<Rightarrow> Done (err_code s, s)
           | Some rip \<Rightarrow>
               andthen (if is_dir (inodes s rip) then forbidden rip X_BIT False s else Done ENOTDIR) (\<lambda>r.
               if r \<noteq> OK then andthen (put_inode e p s) (\<lambda>s. Done (r, s))
               else
                 andthen (put_inode e (if root then fp_rootdir (fprocs s (fp s)) else fp_workdir (fprocs s (fp s))) s) (\<lambda>s.
                 Done (OK, upd_fproc (fp s) (if root then fp_rootdir_update (\<lambda>_. p) else fp_workdir_update (\<lambda>_. p)) s)))))"

definition do_chdir :: "fs_env \<Rightarrow> fs \<Rightarrow> (int \<times> fs) run" where
  "do_chdir e s =
     (if who s = MM_PROC_NR then
        let rfp = nat (fd s); cd_flag = (fd2 s \<noteq> 0); me = fp s
        in andthen (put_inode e (fp_workdir (fprocs s me)) s) (\<lambda>s.
           let p = fprocs s me; r = fprocs s rfp; d = (if cd_flag then fp_rootdir p else fp_workdir r)
           in andthen (deref d) (\<lambda>dir.
              let s = upd_fproc me (fp_workdir_update (\<lambda>_. d)) s; s = dup_inode dir s
              in Done (OK, upd_fproc me (fp_effuid_update (\<lambda>_. if cd_flag then 0 else fp_effuid (fprocs s rfp))) s)))
      else change e False (fs_name s) (fd s) s)"

definition do_chroot :: "fs_env \<Rightarrow> fs \<Rightarrow> (int \<times> fs) run" where
  "do_chroot e s = (if \<not> super_user s then Done (EPERM, s) else change e True (fs_name s) (fd s) s)"

definition stat_bytes :: "inode \<Rightarrow> addr \<Rightarrow> bytes" where
  "stat_bytes i st_size =
     (let d = put16 0 (i_dev i) (\<lambda>_. 0); d = put16 2 (i_num i) d; d = put16 4 (i_mode i) d;
          d = put16 6 (ucast (i_nlinks i)) d; d = put16 8 (i_uid i) d; d = put16 10 (ucast (i_gid i)) d;
          d = put16 12 (i_zone i 0) d; d = put32 14 st_size d; d = put32 18 (i_atime i) d; d = put32 22 (i_mtime i) d
      in put32 26 (i_ctime i) d)"

definition stat_inode :: "fs_env \<Rightarrow> nat \<Rightarrow> ptr \<Rightarrow> addr \<Rightarrow> fs \<Rightarrow> (int \<times> fs) run" where
  "stat_inode e rip fil_ptr user_addr s =
     andthen (if i_update (inodes s rip) \<noteq> 0 then update_times e rip s else Done s) (\<lambda>s.
     let i = inodes s rip;
         st_size = (case fil_ptr of
             Some f \<Rightarrow> if i_pipe i \<and> filp_mode (filps s f) = R_BIT then i_size i - filp_pos (filps s f) else i_size i
           | None \<Rightarrow> i_size i)
     in Done (to_user e D_SEG (who s) user_addr 30 (stat_bytes i st_size) s))"

definition do_stat :: "fs_env \<Rightarrow> fs \<Rightarrow> (int \<times> fs) run" where
  "do_stat e s =
     (let (r, s) = fetch_name e (buffer s) (fd s) False s
      in if r \<noteq> OK then Done (err_code s, s)
         else
           andthen (eat_path e s) (\<lambda>(p, s).
           case p of None \<Rightarrow> Done (err_code s, s)
           | Some rip \<Rightarrow>
               andthen (stat_inode e rip None (name2 s) s) (\<lambda>(r, s).
               andthen (put_inode e p s) (\<lambda>s. Done (r, s)))))"

definition do_fstat :: "fs_env \<Rightarrow> fs \<Rightarrow> (int \<times> fs) run" where
  "do_fstat e s =
     (let (p, s) = get_filp (fd s) s
      in case p of None \<Rightarrow> Done (err_code s, s)
         | Some f \<Rightarrow> andthen (deref (filp_ino (filps s f))) (\<lambda>rip. stat_inode e rip p (buffer s) s))"

subsection \<open>fs/mount.c\<close>

definition name_to_dev :: "fs_env \<Rightarrow> fs \<Rightarrow> (u16 \<times> fs) run" where
  "name_to_dev e s =
     andthen (eat_path e s) (\<lambda>(p, s).
     case p of None \<Rightarrow> Done (NO_DEV, s)
     | Some rip \<Rightarrow>
         if i_mode (inodes s rip) AND I_TYPE \<noteq> I_BLOCK_SPECIAL then
           andthen (put_inode e p (fail ENOTBLK s)) (\<lambda>s. Done (NO_DEV, s))
         else
           let dev = i_zone (inodes s rip) 0
           in andthen (put_inode e p s) (\<lambda>s. Done (dev, s)))"

text \<open>The last free slot.\<close>

definition free_super :: "fs \<Rightarrow> nat option" where
  "free_super s = super_scan (supers s) NO_DEV (rev [0..<NR_SUPERS])"

definition mount_on :: "fs_env \<Rightarrow> u16 \<Rightarrow> nat \<Rightarrow> int \<Rightarrow> nat \<Rightarrow> fs \<Rightarrow> (int \<times> fs) run" where
  "mount_on e dev sp rd_only rip s =
     (let t = i_mode (inodes s rip) AND I_TYPE;
          r = (if t = I_BLOCK_SPECIAL \<or> t = I_CHAR_SPECIAL then ENOTDIR else if i_count (inodes s rip) > 1 then EBUSY else OK)
      in andthen (if r = OK then andthen (get_inode e dev ROOT_INODE s) (\<lambda>(p, s). Done ((p, if p = None then err_code s else OK), s))
                  else Done ((None, r), s)) (\<lambda>((root_ip, r), s).
         let r = (case root_ip of Some q \<Rightarrow> if i_mode (inodes s q) = 0 then EINVAL else r | None \<Rightarrow> r); loaded = (r = OK)
         in andthen (if r = OK then andthen (load_bit_maps e dev s) (\<lambda>(q, s). Done (if q \<noteq> OK then ENFILE else OK, s)) else Done (r, s)) (\<lambda>(r, s).
            let r = (case root_ip of
                Some q \<Rightarrow> if r = OK \<and> is_dir (inodes s rip) \<and> \<not> is_dir (inodes s q) then ENOTDIR else r
              | None \<Rightarrow> r)
            in if r \<noteq> OK then
                 andthen (put_inode e (Some rip) s) (\<lambda>s.
                 andthen (put_inode e root_ip s) (\<lambda>s.
                 andthen (if loaded then andthen (unload_bit_maps e dev s) (\<lambda>(_, s). Done s) else Done s) (\<lambda>s.
                 andthen (do_sync e s) (\<lambda>(_, s).
                 Done (r, upd_super sp (s_dev_update (\<lambda>_. NO_DEV)) (invalidate dev s))))))
               else
                 let s = upd_inode rip (i_mount_update (\<lambda>_. True)) s
                 in Done (OK, upd_super sp (\<lambda>b. b\<lparr>s_imount := Some rip, s_isup := root_ip, s_rd_only := word_of_int rd_only\<rparr>) s))))"

definition do_mount :: "fs_env \<Rightarrow> fs \<Rightarrow> (int \<times> fs) run" where
  "do_mount e s =
     (if \<not> super_user s then Done (EPERM, s)
      else
        let (r, s) = fetch_name e (buffer s) (fd s) False s
        in if r \<noteq> OK then Done (err_code s, s)
           else
             andthen (name_to_dev e s) (\<lambda>(dev, s).
             if dev = NO_DEV then Done (err_code s, s)
             else if super_scan (supers s) dev [0..<NR_SUPERS] \<noteq> None then Done (EBUSY, s)
             else
               case free_super s of None \<Rightarrow> Done (ENFILE, s)
               | Some sp \<Rightarrow>
                   let no_dev = upd_super sp (s_dev_update (\<lambda>_. NO_DEV))
                   in andthen (rw_super e sp False (upd_super sp (s_dev_update (\<lambda>_. dev)) s)) (\<lambda>s.
                      let s = upd_super sp (s_dev_update (\<lambda>_. dev)) s; b = supers s sp
                      in if s_magic b \<noteq> SUPER_MAGIC \<or> s_ninodes b < 1 \<or> s_nzones b < 1 \<or> s_imap_blocks b < 1 \<or> s_zmap_blocks b < 1
                         then Done (EINVAL, no_dev s)
                         else
                           let (r, s) = fetch_name e (name2 s) (fd2 s) False s
                           in if r \<noteq> OK then Done (err_code s, no_dev s)
                              else
                                andthen (eat_path e s) (\<lambda>(p, s).
                                case p of None \<Rightarrow> Done (err_code s, no_dev s)
                                | Some rip \<Rightarrow> mount_on e dev sp (arg3 s) rip s))))"

definition do_umount :: "fs_env \<Rightarrow> fs \<Rightarrow> (int \<times> fs) run" where
  "do_umount e s =
     (if \<not> super_user s then Done (EPERM, s)
      else
        let (r, s) = fetch_name e (fs_name s) (fd s) True s
        in if r \<noteq> OK then Done (err_code s, s)
           else
             andthen (name_to_dev e s) (\<lambda>(dev, s).
             if dev = NO_DEV then Done (err_code s, s)
             else if sum_list (map (\<lambda>i. if i_count (inodes s i) > 0 \<and> i_dev (inodes s i) = dev then i_count (inodes s i) else 0)
                      [0..<NR_INODES]) > 1 then Done (EBUSY, s)
             else
               let sp = super_scan (supers s) dev [0..<NR_SUPERS]
               in andthen (if sp \<noteq> None then
                     andthen (unload_bit_maps e dev s) (\<lambda>(r, s). if r \<noteq> OK then Panics ''do_umount'' else Done s)
                   else Done s) (\<lambda>s.
                  andthen (do_sync e s) (\<lambda>(_, s).
                  let s = invalidate dev s
                  in case sp of None \<Rightarrow> Done (EINVAL, s)
                     | Some sp \<Rightarrow>
                         andthen (deref (s_imount (supers s sp))) (\<lambda>mp.
                         let s = upd_inode mp (i_mount_update (\<lambda>_. False)) s
                         in andthen (put_inode e (Some mp) s) (\<lambda>s.
                            andthen (put_inode e (s_isup (supers s sp)) s) (\<lambda>s.
                            Done (OK, upd_super sp (\<lambda>b. b\<lparr>s_imount := None, s_dev := NO_DEV\<rparr>) s))))))))"

subsection \<open>fs/misc.c\<close>

definition do_dup :: "fs_env \<Rightarrow> fs \<Rightarrow> (int \<times> fs) run" where
  "do_dup e s =
     (let w = get16 (m_in s) m1_i1; rfd = sint (w AND NOT 0x40); (p, s) = get_filp rfd s;
          share = (\<lambda>f k s. (k, upd_fproc (fp s) (\<lambda>p. p\<lparr>fp_filp := (fp_filp p)(nat k := Some f)\<rparr>)
                       (upd_filp f (\<lambda>x. x\<lparr>filp_count := filp_count x + 1\<rparr>) s)))
      in case p of None \<Rightarrow> Done (err_code s, s)
         | Some f \<Rightarrow>
             if fd s = rfd then
               let ((r, k, _), s) = get_fd 0 0 s; s = set_fd2 (if r = EMFILE then -1 else int k) s
               in if r \<noteq> OK then Done (r, s) else Done (share f (fd2 s) s)
             else if fd2 s < 0 \<or> fd2 s \<ge> int OPEN_MAX then Done (EBADF, s)
             else if rfd = fd2 s then Done (fd2 s, s)
             else andthen (do_close e (set_fd (fd2 s) s)) (\<lambda>(_, s). Done (share f (fd2 s) s)))"

definition do_fcntl :: "fs \<Rightarrow> int \<times> fs" where
  "do_fcntl s =
     (let (p, s) = get_filp (fd s) s; request = fd2 s; a = arg3 s
      in case p of None \<Rightarrow> (err_code s, s)
         | Some f \<Rightarrow>
             if request = 0 then
               if a < 0 \<or> a \<ge> int OPEN_MAX then (EINVAL, s)
               else
                 let ((r, k, _), s) = get_fd (nat a) 0 s
                 in if r \<noteq> OK then (r, s)
                    else (int k, upd_fproc (fp s) (\<lambda>p. p\<lparr>fp_filp := (fp_filp p)(k := Some f)\<rparr>)
                            (upd_filp f (\<lambda>x. x\<lparr>filp_count := filp_count x + 1\<rparr>) s))
             else if request = 3 then (sint (filp_flags (filps s f)), s)
             else if request = 4 then
               let fl = O_NONBLOCK OR O_APPEND
               in (OK, upd_filp f (\<lambda>x. x\<lparr>filp_flags := (filp_flags x AND NOT fl) OR (get16 (m_in s) m1_i3 AND fl)\<rparr>) s)
             else (EINVAL, s))"

definition share_filps :: "nat \<Rightarrow> fs \<Rightarrow> fs" where
  "share_filps cp s =
     fold (\<lambda>i s. case fp_filp (fprocs s cp) i of None \<Rightarrow> s
             | Some f \<Rightarrow> upd_filp f (\<lambda>x. x\<lparr>filp_count := filp_count x + 1\<rparr>) s) [0..<OPEN_MAX] s"

definition do_fork :: "fs \<Rightarrow> (int \<times> fs) run" where
  "do_fork s =
     (let parent = fd s; child = fd2 s; pid = arg3 s
      in if who s \<noteq> MM_PROC_NR then Done (ERROR, s)
         else if parent < 0 \<or> parent \<ge> int NR_USERS \<or> child < 0 \<or> child \<ge> int NR_USERS then Stuck
         else
           let c = nat child;
               s = upd_fproc c (\<lambda>_. fprocs s (nat parent)) s;
               s = share_filps c s;
               s = upd_fproc c (\<lambda>p. p\<lparr>fp_pid := pid, fp_pgrp := if parent = 2 then pid else fp_pgrp p\<rparr>) s
           in andthen (deref (fp_rootdir (fprocs s c))) (\<lambda>r.
              andthen (deref (fp_workdir (fprocs s c))) (\<lambda>w.
              Done (OK, dup_inode w (dup_inode r s)))))"

fun close_all :: "fs_env \<Rightarrow> nat list \<Rightarrow> fs \<Rightarrow> fs run" where
  "close_all e [] s = Done s"
| "close_all e (i # is) s = andthen (do_close e (set_fd (int i) s)) (\<lambda>(_, s). close_all e is s)"

definition do_exit :: "fs_env \<Rightarrow> fs \<Rightarrow> (int \<times> fs) run" where
  "do_exit e s =
     (let exitee = fd s
      in if who s \<noteq> MM_PROC_NR then Done (ERROR, s)
         else if exitee < 0 \<or> exitee \<ge> int NR_USERS then Stuck
         else
           let x = nat exitee; s = s\<lparr>fp := x\<rparr>
           in andthen (if fp_pid (fprocs s x) = fp_pgrp (fprocs s x) \<and> fs_tty (fprocs s x) \<noteq> 0 then tty_exit e s else Done s) (\<lambda>s.
              andthen
                (if fp_suspended (fprocs s x) then
                   let task = - fp_task (fprocs s x);
                       s = (if task = XPIPE \<or> task = XOPEN then s\<lparr>susp_count := susp_count s - 1\<rparr> else s)
                   in andthen (do_unpause e (set_fd exitee s)) (\<lambda>(_, s).
                      Done (upd_fproc x (fp_suspended_update (\<lambda>_. False)) s))
                 else Done s) (\<lambda>s.
              andthen (close_all e [0..<OPEN_MAX] s) (\<lambda>s.
              andthen (put_inode e (fp_rootdir (fprocs s x)) s) (\<lambda>s.
              andthen (put_inode e (fp_workdir (fprocs s x)) s) (\<lambda>s.
              Done (OK, upd_fproc x (\<lambda>p. p\<lparr>fp_rootdir := None, fp_workdir := None\<rparr>) s)))))))"

definition do_set :: "fs \<Rightarrow> (int \<times> fs) run" where
  "do_set s =
     (let slot = fd s; w2 = get16 (m_in s) m1_i2; w3 = get16 (m_in s) m1_i3
      in if who s \<noteq> MM_PROC_NR then Done (ERROR, s)
         else if slot < 0 \<or> slot \<ge> int NR_USERS then Stuck
         else
           let s = (if fs_call s = SETUID then upd_fproc (nat slot) (\<lambda>p. p\<lparr>fp_realuid := w2, fp_effuid := w3\<rparr>) s else s);
               s = (if fs_call s = SETGID then upd_fproc (nat slot) (\<lambda>p. p\<lparr>fp_effgid := ucast w3, fp_realgid := ucast w2\<rparr>) s else s)
           in Done (OK, s))"

definition do_revive :: "fs \<Rightarrow> (int \<times> fs) run" where
  "do_revive s =
     (if who s > 0 then Done (EPERM, s)
      else andthen (revive (fd s) (fd2 s) s) (\<lambda>s. Done (OK, s\<lparr>dont_reply := True\<rparr>)))"

subsection \<open>fs/time.c\<close>

definition do_utime :: "fs_env \<Rightarrow> fs \<Rightarrow> (int \<times> fs) run" where
  "do_utime e s =
     (let updated_time = get32 (m_in s) m2_l2; (r, s) = fetch_name e (utime_file s) (fd s) False s
      in if r \<noteq> OK then Done (err_code s, s)
         else
           andthen (eat_path e s) (\<lambda>(p, s).
           case p of None \<Rightarrow> Done (err_code s, s)
           | Some rip \<Rightarrow>
               let r = (if i_uid (inodes s rip) \<noteq> fp_effuid (fprocs s (fp s)) \<and> \<not> super_user s then EPERM else OK)
               in andthen (read_only rip s) (\<lambda>ro.
                  let r = (if ro \<noteq> OK then EROFS else r);
                      s = (if r = OK then upd_inode rip (\<lambda>i. i\<lparr>i_mtime := updated_time, i_dirt := DIRTY\<rparr>) s else s)
                  in andthen (put_inode e p s) (\<lambda>s. Done (r, s)))))"

definition do_time :: "fs_env \<Rightarrow> fs \<Rightarrow> (int \<times> fs) run" where
  "do_time e s = andthen (clock_time e s) (\<lambda>(t, s). Done (OK, reply_l1 t s))"

definition do_stime :: "fs_env \<Rightarrow> fs \<Rightarrow> (int \<times> fs) run" where
  "do_stime e s =
     (if \<not> super_user s then Done (EPERM, s)
      else
        let s = send (SetTime (get32 (m_in s) m2_l1)) s
        in if task_status e (sent s) \<noteq> OK then Panics ''do_stime error'' else Done (OK, s))"

definition do_tims :: "fs_env \<Rightarrow> fs \<Rightarrow> int \<times> fs" where
  "do_tims e s =
     (let s = send (SysTimes (who s)) s; t = task_long e (sent s);
          mo = put32 16 (t 3) (put32 12 (t 2) (put32 8 (t 1) (put32 4 (t 0) (m_out s))))
      in (OK, s\<lparr>m_out := mo\<rparr>))"

end
