(* ===== verification/Fs_Serve.thy ===== *)
theory Fs_Serve
  imports Fs_Main
begin

section \<open>File system: start-up and the main loop\<close>

text \<open>
  fs/main.c and fs/table.c.  One turn of the loop of \<open>main\<close> is \<open>fs_turn\<close>, a function of the message
  that \<open>receive\<close> would return; printing is left out.
\<close>

unbundle bit_operations_syntax

subsection \<open>The call table\<close>

text \<open>\<open>stray\<close> is what \<open>do_mknod\<close> passes on by accident.\<close>

definition call_vector :: "fs_env \<Rightarrow> addr \<Rightarrow> nat \<Rightarrow> fs \<Rightarrow> (int \<times> fs) run" where
  "call_vector e stray k s =
     (if k = 1 then do_exit e s else if k = 2 then do_fork s else if k = 3 then do_read e s
      else if k = 4 then do_write e s else if k = 5 then do_open e s else if k = 6 then do_close e s
      else if k = 8 then do_creat e s else if k = 9 then do_link e s else if k = 10 then do_unlink e s
      else if k = 12 then do_chdir e s else if k = 13 then do_time e s else if k = 14 then do_mknod e stray s
      else if k = 15 then do_chmod e s else if k = 16 then do_chown e s else if k = 18 then do_stat e s
      else if k = 19 then do_lseek s else if k = 21 then do_mount e s else if k = 22 then do_umount e s
      else if k = 23 then do_set s else if k = 25 then do_stime e s else if k = 28 then do_fstat e s
      else if k = 30 then do_utime e s else if k = 33 then do_access e s else if k = 36 then do_sync e s
      else if k = 38 then do_rename e s else if k = 39 then do_mkdir e s else if k = 40 then do_unlink e s
      else if k = 41 then do_dup e s else if k = 42 then do_pipe e s else if k = 43 then Done (do_tims e s)
      else if k = 46 then do_set s else if k = 54 then do_ioctl e s else if k = 55 then Done (do_fcntl s)
      else if k = 60 then Done (do_umask s) else if k = 61 then do_chroot e s else if k = 65 then do_unpause e s
      else if k = 67 then do_revive s else Done (EINVAL, s))"

subsection \<open>The main loop\<close>

fun revived_scan :: "(nat \<Rightarrow> fproc) \<Rightarrow> nat list \<Rightarrow> nat option" where
  "revived_scan t [] = None"
| "revived_scan t (i # is) = (if fp_revived (t i) then Some i else revived_scan t is)"

definition get_work :: "bytes \<Rightarrow> fs \<Rightarrow> fs run" where
  "get_work msg s =
     (if reviving s \<noteq> 0 then
        case revived_scan (fprocs s) [0..<NR_USERS] of
          None \<Rightarrow> Panics ''get_work could not revive anyone''
        | Some rp \<Rightarrow>
            let p = fprocs s rp;
                s = s\<lparr>who := int rp, fs_call := fd_low (fp_fd p)\<rparr>;
                s = set_fd (fd_high (fp_fd p) mod 256) s;
                s = set_buffer (fp_buffer p) s;
                s = set_nbytes (fp_nbytes p) s;
                s = upd_fproc rp (\<lambda>p. p\<lparr>fp_suspended := False, fp_revived := False\<rparr>) s
            in Done (s\<lparr>reviving := reviving s - 1\<rparr>)
      else Done (s\<lparr>m_in := msg, who := get_int msg off_source, fs_call := get_int msg off_type\<rparr>))"

definition fs_turn :: "fs_env \<Rightarrow> addr \<Rightarrow> bytes \<Rightarrow> fs \<Rightarrow> fs run" where
  "fs_turn e stray msg s =
     andthen (get_work msg s) (\<lambda>s.
     let s = s\<lparr>fp := nat (who s)\<rparr>;
         s = s\<lparr>super_user := (fp_effuid (fprocs s (fp s)) = 0)\<rparr>;
         s = s\<lparr>dont_reply := False\<rparr>
     in andthen (if fs_call s < 0 \<or> fs_call s \<ge> 70 then Done (EBADCALL, s) else call_vector e stray (nat (fs_call s)) s) (\<lambda>(err, s).
        if dont_reply s then Done s
        else
          let s = reply (who s) err s
          in if rdahed_inode s \<noteq> None then read_ahead e s else Done s))"

subsection \<open>Start-up\<close>

definition get_boot_parameters :: "fs_env \<Rightarrow> fs \<Rightarrow> fs" where
  "get_boot_parameters e s =
     (let s = send GetBoot s
      in case boot_answer e (sent s) of None \<Rightarrow> s
         | Some (r, b, n) \<Rightarrow> s\<lparr>root_dev := r, boot_dev := b, ramsize := n\<rparr>)"

text \<open>The digits up to \<open>stop\<close>; what follows it.\<close>

fun dev_number :: "8 word \<Rightarrow> u16 \<Rightarrow> 8 word list \<Rightarrow> (u16 \<times> 8 word list) option" where
  "dev_number stop n [] = None"
| "dev_number stop n (c # cs) =
     (if c = stop then Some (n, cs)
      else if c < 48 \<or> c > 57 then None
      else dev_number stop (n * 10 + ucast c - 48) cs)"

definition parse_dev :: "8 word list \<Rightarrow> u16" where
  "parse_dev line =
     (case dev_number 44 0 line of None \<Rightarrow> 0
      | Some (maj, rest) \<Rightarrow>
          (case dev_number 10 0 rest of None \<Rightarrow> 0
           | Some (mn, rest) \<Rightarrow> if rest \<noteq> [] then 0 else push_bit 8 maj OR mn))"

text \<open>The answer of the terminal task: the process it answers for, and the line.\<close>

definition askdev :: "fs_env \<Rightarrow> fs \<Rightarrow> u16 \<times> fs" where
  "askdev e s =
     (let s = send AskTty s
      in case tty_line e (sent s) of None \<Rightarrow> (0, s)
         | Some (p, line) \<Rightarrow> (if p \<noteq> FS_PROC_NR then 0xFFFF else parse_dev line, s))"

fun last_zone_bit :: "bytes \<Rightarrow> u16 \<Rightarrow> u16 \<times> u16 \<Rightarrow> (nat \<times> nat) list \<Rightarrow> (u16 \<times> u16) \<times> bool" where
  "last_zone_bit d nzones (lst, this) [] = ((lst, this), False)"
| "last_zone_bit d nzones (lst, this) ((w, b) # rest) =
     (if this = nzones then ((lst, this), True)
      else last_zone_bit d nzones (if on (push_bit b 1) (get16 d (2 * of_nat w)) then this else lst, this + 1) rest)"

fun lastused_blocks :: "fs_env \<Rightarrow> u16 \<Rightarrow> u16 \<Rightarrow> u16 \<Rightarrow> u16 \<times> u16 \<Rightarrow> nat list \<Rightarrow> fs \<Rightarrow> (u16 \<times> fs) run" where
  "lastused_blocks e dev zbase nzones lt [] s = Panics ''lastused''"
| "lastused_blocks e dev zbase nzones lt (i # is) s =
     andthen (get_block e dev (zbase + of_nat i) NORMAL s) (\<lambda>(bp, s).
     let (lt, found) = last_zone_bit (b_data (bufs s bp)) nzones lt (List.product [0..<512] [0..<16])
     in andthen (put_block e (Some bp) ZMAP_BLOCK s) (\<lambda>s.
        if found then Done (fst lt, s) else lastused_blocks e dev zbase nzones lt is s))"

definition lastused :: "fs_env \<Rightarrow> u16 \<Rightarrow> fs \<Rightarrow> (u16 \<times> fs) run" where
  "lastused e dev s =
     (let sp = supers s 0
      in andthen (lastused_blocks e dev (SUPER_BLOCK + 1 + s_imap_blocks sp) (s_nzones sp)
                    (s_firstdatazone sp - 1, s_firstdatazone sp) [0..<unat (s_zmap_blocks sp)] s) (\<lambda>(lst, s).
         Done (push_bit (unat (s_log_zone_size (supers s 0))) lst, s)))"

text \<open>The transfers of \<open>fastload\<close>, at most 18 blocks each.\<close>

fun load_tracks :: "fs_env \<Rightarrow> nat \<Rightarrow> u16 \<Rightarrow> u16 \<Rightarrow> addr \<Rightarrow> addr \<Rightarrow> fs \<Rightarrow> fs run" where
  "load_tracks e 0 dev blocks position address s = (if blocks = 0 then Done s else Stuck)"
| "load_tracks e (Suc n) dev blocks position address s =
     (if blocks = 0 then Done s
      else
        let i = (if sint blocks > 18 then 18 else blocks); bytes = i * 1024
        in andthen (dmap_task (major_of dev)) (\<lambda>task.
           andthen (dmap_rw e (major_of dev) task (minor_of dev) dev (Transfer 3 position (sint bytes) (-1) address False) s) (\<lambda>s.
           if io_status e (sent s) < 0 then Panics ''Disk error loading BOOT disk''
           else load_tracks e n dev (blocks - i) (position + word_of_int (sint bytes)) (address + word_of_int (sint bytes)) s)))"

definition fastload :: "fs_env \<Rightarrow> u16 \<Rightarrow> addr \<Rightarrow> fs \<Rightarrow> fs run" where
  "fastload e dev address s =
     andthen (lastused e dev s) (\<lambda>(blocks, s). load_tracks e 65536 dev blocks 0 address s)"

text \<open>The super block of the root image, from the boot device or else from the hard disk.\<close>

definition root_image :: "fs_env \<Rightarrow> u16 \<Rightarrow> bool \<Rightarrow> fs \<Rightarrow> ((nat \<times> bool) \<times> fs) run" where
  "root_image e dev final s =
     andthen (get_block e dev SUPER_BLOCK NORMAL s) (\<lambda>(bp, s).
     let s = upd_super 0 (\<lambda>_. super_of_bytes e (b_data (bufs s bp))) s; good = (s_magic (supers s 0) = SUPER_MAGIC)
     in if good then Done ((bp, True), s)
        else if final then Panics ''Invalid root file system''
        else andthen (put_block e (Some bp) FULL_DATA_BLOCK s) (\<lambda>s. Done ((bp, False), s)))"

definition find_image :: "fs_env \<Rightarrow> fs \<Rightarrow> ((u16 \<times> u16) \<times> fs) run" where
  "find_image e s =
     (let (answer, s) = askdev e s; dev = (if answer = 0 then boot_dev s else answer)
      in andthen (root_image e dev False s) (\<lambda>((bp, good), s).
         andthen (if good then Done ((bp, dev), s)
                  else andthen (root_image e 0x303 True s) (\<lambda>((bp, _), s). Done ((bp, 0x303), s))) (\<lambda>((bp, dev), s).
         let count = push_bit (unat (s_log_zone_size (supers s 0))) (s_nzones (supers s 0))
         in andthen (put_block e (Some bp) FULL_DATA_BLOCK s) (\<lambda>s. Done ((dev, count), s)))))"

definition load_ram :: "fs_env \<Rightarrow> fs \<Rightarrow> (u16 \<times> fs) run" where
  "load_ram e s =
     (let init_org = data_org e 2; text = data_org e 3; data = data_org e 4
      in andthen (if root_dev s \<noteq> 0x100 then Done ((0, ramsize s), s) else find_image e s) (\<lambda>((image, count), s).
         let super_dev = root_dev s
         in if sint count > 16384 then Panics ''RAM disk is too big. # blocks = ''
            else
              let s = send (MmBrk2 (sint text) (sint data) (sint (init_org + text + data + count * 4)) (word_of_int (sint init_org))) s;
                  position = task_long e (sent s) 0
              in if task_status e (sent s) \<noteq> OK then Panics ''FS cannot report to MM''
                 else
                   let s = send (RamSize (sint count)) s
                   in if task_status e (sent s) \<noteq> OK then Panics ''Cannot report size to MEM''
                      else if root_dev s \<noteq> 0x100 then Done (super_dev, s)
                      else andthen (fastload e image position s) (\<lambda>s. Done (super_dev, s))))"

definition load_super :: "fs_env \<Rightarrow> u16 \<Rightarrow> fs \<Rightarrow> fs run" where
  "load_super e super_dev s =
     (let s = fold (\<lambda>i. upd_super i (s_dev_update (\<lambda>_. NO_DEV))) [0..<NR_SUPERS] s;
          s = upd_super 0 (s_dev_update (\<lambda>_. super_dev)) s
      in andthen (rw_super e 0 False s) (\<lambda>s.
         andthen (get_inode e super_dev ROOT_INODE s) (\<lambda>(p, s).
         andthen (deref p) (\<lambda>rip.
         if \<not> is_dir (inodes s rip) \<or> i_nlinks (inodes s rip) < 3 \<or> s_magic (supers s 0) \<noteq> SUPER_MAGIC
         then Panics ''Root file system corrupted''
         else
           let s = dup_inode rip s;
               s = upd_super 0 (\<lambda>b. b\<lparr>s_imount := p, s_isup := p, s_rd_only := 0\<rparr>) s
           in andthen (load_bit_maps e super_dev s) (\<lambda>(r, s).
              if r \<noteq> OK then Panics ''init: cannot load root bit maps'' else Done s)))))"

fun init_procs :: "fs_env \<Rightarrow> nat list \<Rightarrow> fs \<Rightarrow> fs run" where
  "init_procs e [] s = Done s"
| "init_procs e (i # is) s =
     andthen (get_inode e (root_dev s) ROOT_INODE (s\<lparr>fp := i\<rparr>)) (\<lambda>(p, s).
     andthen (deref p) (\<lambda>rip.
     let s = dup_inode rip s
     in init_procs e is
          (upd_fproc i (\<lambda>x. x\<lparr>fp_rootdir := p, fp_workdir := p, fp_realuid := 0, fp_effuid := 0, fp_realgid := 0,
             fp_effgid := 0, fp_umask := -1\<rparr>) s)))"

definition fs_init :: "fs_env \<Rightarrow> fs \<Rightarrow> fs run" where
  "fs_init e s =
     (let s = get_boot_parameters e (buf_pool s)
      in andthen (load_ram e s) (\<lambda>(d, s).
         andthen (load_super e d s) (init_procs e [0, 2])))"

end
