(* ===== verification/Fs_Sort.thy ===== *)
theory Fs_Sort
  imports Fs_Cache "HOL-Library.Multiset"
begin

section \<open>File system: the Shell sort of scattered requests\<close>

text \<open>
  The Shell sort of \<open>rw_scattered\<close> orders the queue and loses no buffer.  Every pass exchanges
  entries of the queue; the gaps are 1, 4, 13, ... downwards, and the last pass, of gap 1, is an
  insertion sort.
\<close>

declare sift.simps [simp del] first_gap.simps [simp del] shell_passes.simps [simp del]

subsection \<open>Passes permute the queue\<close>

lemma mset_exchange:
  "i < length q \<Longrightarrow> j < length q \<Longrightarrow> mset (q[i := q ! j, j := q ! i]) = mset q"
  by (rule mset_swap)

lemma sift_perm: "i + gap < length q \<Longrightarrow> mset (sift key gap q i) = mset q"
proof (induction key gap q i rule: sift.induct)
  case (1 key gap q i)
  let ?q = "q[i := q ! (i + gap), i + gap := q ! i]"
  have m: "mset ?q = mset q" using 1(2) by (intro mset_exchange) auto
  have "mset (sift key gap ?q (i - gap)) = mset ?q"
    if "key (q ! i) > key (q ! (i + gap))" "0 < gap \<and> gap \<le> i"
    using 1(1) [OF that(1) refl that(2)] 1(2) that by simp
  then show ?case using m by (subst sift.simps) (auto simp: Let_def)
qed

lemma sift_length [simp]: "i + gap < length q \<Longrightarrow> length (sift key gap q i) = length q"
  by (metis sift_perm mset_eq_length)

lemma fold_sift_perm:
  "(\<And>j. j \<in> set js \<Longrightarrow> gap \<le> j \<and> j < length q) \<Longrightarrow>
    mset (fold (\<lambda>j q. sift key gap q (j - gap)) js q) = mset q"
proof (induction js arbitrary: q)
  case Nil
  then show ?case by simp
next
  case (Cons j js)
  have j: "j - gap + gap < length q" using Cons.prems [of j] by simp
  have "mset (fold (\<lambda>j q. sift key gap q (j - gap)) js (sift key gap q (j - gap))) = mset (sift key gap q (j - gap))"
    using Cons.prems sift_length [OF j] by (intro Cons.IH) simp
  then show ?case using sift_perm [OF j] by simp
qed

lemma shell_pass_perm: "mset (shell_pass key gap q) = mset q"
  unfolding shell_pass_def by (rule fold_sift_perm) simp

lemma shell_passes_perm: "mset (shell_passes key gap q) = mset q"
  by (induction key gap q rule: shell_passes.induct) (subst shell_passes.simps, simp add: shell_pass_perm)

subsection \<open>The last pass\<close>

text \<open>The entries up to \<open>j\<close> are in order, but the one at \<open>k\<close> may belong further to the front.\<close>

definition ordered_but :: "(nat \<Rightarrow> nat) \<Rightarrow> nat list \<Rightarrow> nat \<Rightarrow> nat \<Rightarrow> bool" where
  "ordered_but key q j k \<longleftrightarrow> (\<forall>b a. a < b \<longrightarrow> b \<le> j \<longrightarrow> b \<noteq> k \<longrightarrow> key (q ! a) \<le> key (q ! b))"

lemma ordered_but_exchange:
  assumes o: "ordered_but key q j (Suc i)" and "key (q ! Suc i) < key (q ! i)" and "Suc i \<le> j" and "j < length q"
  shows "ordered_but key (q[i := q ! Suc i, Suc i := q ! i]) j i"
  unfolding ordered_but_def
proof (intro allI impI)
  fix b a assume ab: "a < b" "b \<le> j" "b \<noteq> i"
  let ?q = "q[i := q ! Suc i, Suc i := q ! i]"
  have q: "?q ! x = (if x = Suc i then q ! i else if x = i then q ! Suc i else q ! x)" if "x \<le> j" for x
    using that assms(3,4) by (simp add: nth_list_update)
  have le: "key (q ! x) \<le> key (q ! y)" if "x < y" "y \<le> j" "y \<noteq> Suc i" for x y
    using o that by (simp add: ordered_but_def)
  consider "b = Suc i" | "b < i" | "Suc i < b" using ab(3) by linarith
  then show "key (?q ! a) \<le> key (?q ! b)"
  proof cases
    case 1
    then have "?q ! b = q ! i" "a = i \<and> ?q ! a = q ! Suc i \<or> a < i \<and> ?q ! a = q ! a"
      using ab q [of a] q [of b] assms(3) by auto
    then show ?thesis using assms(2,3) le [of a i] by auto
  next
    case 2 then show ?thesis using ab le [of a b] by (simp add: q)
  next
    case 3 then show ?thesis using ab le [of a b] le [of i b] le [of "Suc i" b] by (simp add: q)
  qed
qed

lemma ordered_but_done:
  assumes o: "ordered_but key q j (Suc i)" and "key (q ! i) \<le> key (q ! Suc i)" and "Suc i \<le> j"
  shows "ordered_but key q j 0"
  unfolding ordered_but_def
proof (intro allI impI)
  fix b a assume ab: "a < b" "b \<le> j" "b \<noteq> 0"
  have le: "key (q ! x) \<le> key (q ! y)" if "x < y" "y \<le> j" "y \<noteq> Suc i" for x y
    using o that by (simp add: ordered_but_def)
  show "key (q ! a) \<le> key (q ! b)"
  proof (cases "b = Suc i")
    case True
    then show ?thesis using ab assms(2,3) le [of a i] by (auto simp: less_Suc_eq)
  next
    case False
    then show ?thesis using ab le by blast
  qed
qed

lemma sift_inserts:
  "ordered_but key q j (Suc i) \<Longrightarrow> Suc i \<le> j \<Longrightarrow> j < length q \<Longrightarrow> ordered_but key (sift key 1 q i) j 0"
proof (induction i arbitrary: q)
  case 0
  show ?case
  proof (cases "key (q ! 0) > key (q ! 1)")
    case True
    then have "sift key 1 q 0 = q[0 := q ! Suc 0, Suc 0 := q ! 0]" by (subst sift.simps) simp
    then show ?thesis using ordered_but_exchange [of key q j 0] 0 True by simp
  next
    case False
    then have "sift key 1 q 0 = q" by (subst sift.simps) simp
    then show ?thesis using ordered_but_done [of key q j 0] 0 False by simp
  qed
next
  case (Suc i)
  let ?q = "q[Suc i := q ! Suc (Suc i), Suc (Suc i) := q ! Suc i]"
  show ?case
  proof (cases "key (q ! Suc i) > key (q ! Suc (Suc i))")
    case True
    then have "sift key 1 q (Suc i) = sift key 1 ?q i" by (subst sift.simps) simp
    moreover have "ordered_but key ?q j (Suc i)" using ordered_but_exchange [of key q j "Suc i"] Suc True by simp
    ultimately show ?thesis using Suc.IH [of ?q] Suc.prems by simp
  next
    case False
    then have "sift key 1 q (Suc i) = q" by (subst sift.simps) simp
    then show ?thesis using ordered_but_done [of key q j "Suc i"] Suc False by simp
  qed
qed

lemma ordered_next:
  "ordered_but key q j 0 \<Longrightarrow> ordered_but key q (Suc j) (Suc j)"
  by (simp add: ordered_but_def le_Suc_eq)

lemma insertion_pass:
  assumes "n \<le> length q" and "0 < n"
  shows "ordered_but key (fold (\<lambda>j q. sift key 1 q (j - 1)) [1..<n] q) (n - 1) 0
         \<and> length (fold (\<lambda>j q. sift key 1 q (j - 1)) [1..<n] q) = length q"
  using assms
proof (induction n)
  case 0
  then show ?case by simp
next
  case (Suc n)
  show ?case
  proof (cases "n = 0")
    case True
    then show ?thesis by (simp add: ordered_but_def)
  next
    case False
    let ?q = "fold (\<lambda>j q. sift key 1 q (j - 1)) [1..<n] q"
    have i: "ordered_but key ?q (n - 1) 0" "length ?q = length q" using Suc False by auto
    have "ordered_but key ?q n n" using ordered_next [OF i(1)] False by simp
    then have "ordered_but key (sift key 1 ?q (n - 1)) n 0"
      using sift_inserts [of key ?q n "n - 1"] False Suc.prems(1) i(2) by simp
    moreover have "length (sift key 1 ?q (n - 1)) = length q"
      using sift_length [of "n - 1" 1 ?q key] i(2) False Suc.prems(1) by simp
    ultimately show ?thesis using False by simp
  qed
qed

lemma last_pass_sorts: "sorted (map key (shell_pass key 1 q))"
proof (cases "q = []")
  case True
  then show ?thesis by (simp add: shell_pass_def)
next
  case False
  let ?r = "shell_pass key 1 q"
  have r: "ordered_but key ?r (length q - 1) 0" "length ?r = length q"
    using insertion_pass [of "length q" q key] False by (simp_all add: shell_pass_def)
  show ?thesis unfolding sorted_wrt_map sorted_wrt_iff_nth_less
    using r False by (auto simp: ordered_but_def)
qed

subsection \<open>The gaps\<close>

inductive shell_gap :: "nat \<Rightarrow> bool" where
  one: "shell_gap 1"
| up: "shell_gap g \<Longrightarrow> shell_gap (3 * g + 1)"

lemma shell_gap_pos: "shell_gap g \<Longrightarrow> 1 \<le> g"
  by (induction rule: shell_gap.induct) auto

lemma first_gap_shell: "shell_gap g \<Longrightarrow> shell_gap (first_gap n g) \<and> 1 < first_gap n g"
proof (induction n g rule: first_gap.induct)
  case (1 n g)
  have up: "shell_gap (3 * g + 1)" "1 \<le> g" using shell_gap.up [OF 1(2)] shell_gap_pos [OF 1(2)] by simp_all
  show ?case
  proof (cases "3 * g + 1 \<le> n")
    case True
    then have "first_gap n g = first_gap n (3 * g + 1)" by (subst first_gap.simps) simp
    then show ?thesis using 1(1) [OF refl True up(1)] by simp
  next
    case False
    then have "first_gap n g = 3 * g + 1" by (subst first_gap.simps) (simp add: Let_def)
    then show ?thesis using up by simp
  qed
qed

lemma shell_passes_sorts: "shell_gap g \<Longrightarrow> 1 < g \<Longrightarrow> sorted (map key (shell_passes key g q))"
proof (induction arbitrary: q rule: shell_gap.induct)
  case one
  then show ?case by simp
next
  case (up g)
  have eq: "shell_passes key (3 * g + 1) q = shell_passes key g (shell_pass key g q)"
  proof -
    have "(3 * g + 1) div 3 = g" by linarith
    then show ?thesis using shell_gap_pos [OF up.hyps] by (subst shell_passes.simps) (simp del: One_nat_def)
  qed
  show ?case
  proof (cases "g = 1")
    case True
    then have "shell_passes key (3 * g + 1) q = shell_pass key 1 q"
      using eq shell_passes.simps [of key "Suc 0"] by simp
    then show ?thesis using last_pass_sorts by simp
  next
    case False
    then show ?thesis using up.IH eq shell_gap_pos [OF up.hyps] by simp
  qed
qed

lemma shell_sort_perm: "mset (shell_sort key q) = mset q"
  by (simp add: shell_sort_def shell_passes_perm)

lemma shell_sort_sorted: "sorted (map key (shell_sort key q))"
  unfolding shell_sort_def using first_gap_shell [OF shell_gap.one] by (intro shell_passes_sorts) auto

lemma shell_sort_simps [simp]:
  "length (shell_sort key q) = length q" "set (shell_sort key q) = set q" "distinct (shell_sort key q) = distinct q"
  using shell_sort_perm [of key q] by (metis mset_eq_length, metis mset_eq_setD, metis mset_eq_imp_distinct_iff)

text \<open>
  C23: The Shell sort by which \<open>rw_scattered\<close> orders the requests on block numbers computes
  exactly what a library sort does: the keys come out as the sorted list of the keys, from
  the same buffers, whatever the queue.
\<close>

theorem shell_sort_correct:
  "map key (shell_sort key q) = sort (map key q) \<and> mset (shell_sort key q) = mset q"
proof
  show "mset (shell_sort key q) = mset q" by (rule shell_sort_perm)
  then have "mset (map key (shell_sort key q)) = mset (map key q)" by (simp only: mset_map)
  then show "map key (shell_sort key q) = sort (map key q)"
    using shell_sort_sorted by (metis properties_for_sort)
qed

end
