(* ===== verification/Fs_Frame.thy ===== *)
theory Fs_Frame
  imports Fs_Sort
begin

section \<open>File system: what the drivers and the cache leave alone\<close>

text \<open>
  Three parts of the state: the cache, the files (\<open>filp\<close> table, descriptors, the caller and its
  message) and the inodes with the super blocks.  A call of a driver keeps all three; the
  operations of the cache keep the other two.
\<close>

named_theorems frame_intros \<open>parts of the state kept by an operation\<close>

definition cache_part :: "fs \<Rightarrow> (nat \<Rightarrow> buf) \<times> (nat \<Rightarrow> ptr) \<times> ptr \<times> ptr \<times> int" where
  "cache_part s = (bufs s, buf_hash s, front s, rear s, bufs_in_use s)"

definition file_part :: "fs \<Rightarrow> (nat \<Rightarrow> filp) \<times> (nat \<Rightarrow> nat \<Rightarrow> ptr) \<times> nat \<times> int \<times> bytes" where
  "file_part s = (filps s, \<lambda>i. fp_filp (fprocs s i), fp s, who s, m_in s)"

definition inode_part :: "fs \<Rightarrow> (nat \<Rightarrow> inode) \<times> (nat \<Rightarrow> super_block)" where
  "inode_part s = (inodes s, supers s)"

lemma cache_part_iff:
  "cache_part s' = cache_part s \<longleftrightarrow> bufs s' = bufs s \<and> buf_hash s' = buf_hash s \<and> front s' = front s \<and>
     rear s' = rear s \<and> bufs_in_use s' = bufs_in_use s"
  by (auto simp: cache_part_def)

lemma file_part_iff:
  "file_part s' = file_part s \<longleftrightarrow> filps s' = filps s \<and> (\<forall>i. fp_filp (fprocs s' i) = fp_filp (fprocs s i)) \<and>
     fp s' = fp s \<and> who s' = who s \<and> m_in s' = m_in s"
  by (auto simp: file_part_def fun_eq_iff)

lemma inode_part_iff: "inode_part s' = inode_part s \<longleftrightarrow> inodes s' = inodes s \<and> supers s' = supers s"
  by (auto simp: inode_part_def)

subsection \<open>Updates of other parts\<close>

lemma part_send [simp]:
  "cache_part (send x s) = cache_part s" "file_part (send x s) = file_part s" "inode_part (send x s) = inode_part s"
  by (simp_all add: send_def cache_part_def file_part_def inode_part_def)

lemma part_reply [simp]:
  "cache_part (reply w r s) = cache_part s" "file_part (reply w r s) = file_part s" "inode_part (reply w r s) = inode_part s"
  by (simp_all add: reply_def Let_def cache_part_def file_part_def inode_part_def send_def)

lemma part_suspend [simp]:
  "cache_part (suspend t s) = cache_part s" "file_part (suspend t s) = file_part s" "inode_part (suspend t s) = inode_part s"
  by (auto simp: suspend_def Let_def upd_fproc_def cache_part_def file_part_def inode_part_def fun_eq_iff)

lemma part_upd_buf [simp]:
  "file_part (upd_buf i f s) = file_part s" "inode_part (upd_buf i f s) = inode_part s"
  by (simp_all add: upd_buf_def file_part_def inode_part_def)

lemma part_cache_fields [simp]:
  "file_part (s\<lparr>buf_hash := h\<rparr>) = file_part s" "inode_part (s\<lparr>buf_hash := h\<rparr>) = inode_part s"
  "file_part (s\<lparr>front := p\<rparr>) = file_part s" "inode_part (s\<lparr>front := p\<rparr>) = inode_part s"
  "file_part (s\<lparr>rear := p\<rparr>) = file_part s" "inode_part (s\<lparr>rear := p\<rparr>) = inode_part s"
  "file_part (s\<lparr>bufs_in_use := k\<rparr>) = file_part s" "inode_part (s\<lparr>bufs_in_use := k\<rparr>) = inode_part s"
  "file_part (s\<lparr>rdwt_err := k\<rparr>) = file_part s" "inode_part (s\<lparr>rdwt_err := k\<rparr>) = inode_part s"
  "cache_part (s\<lparr>rdwt_err := k\<rparr>) = cache_part s"
  by (simp_all add: file_part_def inode_part_def cache_part_def)

subsection \<open>Drivers\<close>

text \<open>The three parts and the messages sent: what a driver call keeps, and how it extends the last.\<close>

definition driver_frame :: "fs \<Rightarrow> fs \<Rightarrow> bool" where
  "driver_frame s s' \<longleftrightarrow> cache_part s' = cache_part s \<and> file_part s' = file_part s \<and> inode_part s' = inode_part s"

lemma driver_frame_refl [simp]: "driver_frame s s"
  by (simp add: driver_frame_def)

lemma driver_frame_trans: "driver_frame s s' \<Longrightarrow> driver_frame s' s'' \<Longrightarrow> driver_frame s s''"
  by (simp add: driver_frame_def)

lemma driver_frame_send [simp]: "driver_frame s (send x s') = driver_frame s s'"
  by (simp add: driver_frame_def)

lemma revive_frame: "revive p b s = Done s' \<Longrightarrow> driver_frame s s'"
  by (auto simp: revive_def Let_def driver_frame_def upd_fproc_def cache_part_iff file_part_iff inode_part_iff
      reply_def send_def split: if_splits)

lemma take_revives_frame: "take_revives io xs s = Done (g, s') \<Longrightarrow> driver_frame s s'"
proof (induction io xs s rule: take_revives.induct)
  case (1 io s)
  then show ?case by simp
next
  case (2 io p status xs s)
  show ?case
  proof (cases "case io of Cancel q _ \<Rightarrow> p = q | _ \<Rightarrow> False")
    case True
    then show ?thesis using 2 by simp
  next
    case False
    then obtain s1 where s1: "revive p status s = Done s1" "take_revives io xs s1 = Done (g, s')"
      using 2(2) by (auto simp: outcome_simps)
    show ?thesis
      using revive_frame [OF s1(1)] 2(1) [OF False s1(2)] by (rule driver_frame_trans)
  qed
qed

lemma rw_dev_frame: "rw_dev e t d dv io s = Done s' \<Longrightarrow> driver_frame s s'"
  by (auto simp: rw_dev_def outcome_simps Let_def split: if_splits dest: take_revives_frame)

lemma dmap_rw_frame: "dmap_rw e m t d dv io s = Done s' \<Longrightarrow> driver_frame s s'"
  by (auto simp: dmap_rw_def rw_dev2_def outcome_simps Let_def split: if_splits dest: rw_dev_frame)

lemma dev_call_frame:
  assumes "dev_call e d io s = Done (r, s')"
  shows "driver_frame s s'"
proof -
  obtain t s1 where "dmap_rw e (major_of d) t (minor_of d) d io s = Done s1"
    "s' = (if r = SUSPEND then suspend t s1 else s1)"
    using assms by (auto simp: dev_call_def outcome_simps Let_def)
  then show ?thesis using dmap_rw_frame by (auto simp: driver_frame_def)
qed

lemma dev_io_frame: "dev_io e w nb d pos n p b s = Done (r, s') \<Longrightarrow> driver_frame s s'"
  unfolding dev_io_def by (rule dev_call_frame)

lemma dev_call_cache: "dev_call e d io s = Done (r, s') \<Longrightarrow>
  bufs s' = bufs s \<and> buf_hash s' = buf_hash s \<and> front s' = front s \<and> rear s' = rear s \<and> bufs_in_use s' = bufs_in_use s"
  using dev_call_frame by (simp add: driver_frame_def cache_part_iff)

end
