(* ===== verification/Fs_Cache_Inv.thy ===== *)
theory Fs_Cache_Inv
  imports Fs_Frame
begin

section \<open>File system: the lists of the block cache\<close>

text \<open>
  The invariant of fs/cache.c: the LRU chain links all the buffers both ways, every buffer is on
  the hash chain of its block number, no block is in the cache twice, and \<open>bufs_in_use\<close> counts
  the buffers in use.  \<open>hash_ok X\<close> leaves out the buffers \<open>X\<close>, which \<open>get_block\<close> has taken off
  their chains.
\<close>

definition nexts :: "fs \<Rightarrow> nat \<Rightarrow> ptr" where "nexts s i = b_next (bufs s i)"
definition prevs :: "fs \<Rightarrow> nat \<Rightarrow> ptr" where "prevs s i = b_prev (bufs s i)"
definition hashes :: "fs \<Rightarrow> nat \<Rightarrow> ptr" where "hashes s i = b_hash (bufs s i)"

definition lru_links :: "fs \<Rightarrow> nat list \<Rightarrow> bool" where
  "lru_links s xs \<longleftrightarrow> chain (nexts s) (front s) xs \<and> chain (prevs s) (rear s) (rev xs)"

definition lru_ok :: "fs \<Rightarrow> nat list \<Rightarrow> bool" where
  "lru_ok s xs \<longleftrightarrow> lru_links s xs \<and> set xs = {..<NR_BUFS}"

definition hash_chain :: "nat set \<Rightarrow> fs \<Rightarrow> nat \<Rightarrow> nat list \<Rightarrow> bool" where
  "hash_chain X s h cs \<longleftrightarrow> chain (hashes s) (buf_hash s h) cs \<and>
     set cs = {i. i < NR_BUFS \<and> i \<notin> X \<and> hash_of (b_blocknr (bufs s i)) = h}"

definition hash_ok :: "nat set \<Rightarrow> fs \<Rightarrow> bool" where
  "hash_ok X s \<longleftrightarrow> (\<forall>h<NR_BUF_HASH. \<exists>cs. hash_chain X s h cs)"

definition unique_blocks :: "fs \<Rightarrow> bool" where
  "unique_blocks s \<longleftrightarrow> (\<forall>i<NR_BUFS. \<forall>j<NR_BUFS. b_dev (bufs s i) \<noteq> NO_DEV \<longrightarrow> b_dev (bufs s i) = b_dev (bufs s j) \<longrightarrow>
     b_blocknr (bufs s i) = b_blocknr (bufs s j) \<longrightarrow> i = j)"

definition in_use :: "fs \<Rightarrow> nat set" where
  "in_use s = {i. i < NR_BUFS \<and> b_count (bufs s i) > 0}"

definition counts_ok :: "fs \<Rightarrow> bool" where
  "counts_ok s \<longleftrightarrow> (\<forall>i<NR_BUFS. b_count (bufs s i) \<ge> 0) \<and> bufs_in_use s = int (card (in_use s))"

definition cache_ok :: "fs \<Rightarrow> bool" where
  "cache_ok s \<longleftrightarrow> (\<exists>xs. lru_ok s xs) \<and> hash_ok {} s \<and> unique_blocks s \<and> counts_ok s"

subsection \<open>Updates\<close>

named_theorems buf_simps \<open>fields after an update of a buffer\<close>

lemma bufs_upd_buf [buf_simps]: "bufs (upd_buf p f s) = (bufs s)(p := f (bufs s p))"
  by (simp add: upd_buf_def)

lemma upd_buf_fields [simp]:
  "buf_hash (upd_buf p f s) = buf_hash s" "front (upd_buf p f s) = front s" "rear (upd_buf p f s) = rear s"
  "bufs_in_use (upd_buf p f s) = bufs_in_use s" "sent (upd_buf p f s) = sent s"
  by (simp_all add: upd_buf_def)

lemma links_upd_buf [buf_simps]:
  "nexts (upd_buf p f s) = (nexts s)(p := b_next (f (bufs s p)))"
  "prevs (upd_buf p f s) = (prevs s)(p := b_prev (f (bufs s p)))"
  "hashes (upd_buf p f s) = (hashes s)(p := b_hash (f (bufs s p)))"
  by (auto simp: upd_buf_def nexts_def prevs_def hashes_def fun_eq_iff)

lemma links_fold [simp]:
  "(nexts s)(p := b_next (bufs s p)) = nexts s" "(prevs s)(p := b_prev (bufs s p)) = prevs s"
  "(hashes s)(p := b_hash (bufs s p)) = hashes s"
  by (auto simp: nexts_def prevs_def hashes_def)

lemmas fold_links = nexts_def [symmetric] prevs_def [symmetric] hashes_def [symmetric]

lemma links_fields [simp]:
  "nexts (s\<lparr>front := x\<rparr>) = nexts s" "prevs (s\<lparr>front := x\<rparr>) = prevs s" "hashes (s\<lparr>front := x\<rparr>) = hashes s"
  "nexts (s\<lparr>rear := x\<rparr>) = nexts s" "prevs (s\<lparr>rear := x\<rparr>) = prevs s" "hashes (s\<lparr>rear := x\<rparr>) = hashes s"
  "nexts (s\<lparr>buf_hash := y\<rparr>) = nexts s" "prevs (s\<lparr>buf_hash := y\<rparr>) = prevs s" "hashes (s\<lparr>buf_hash := y\<rparr>) = hashes s"
  "nexts (s\<lparr>bufs_in_use := k\<rparr>) = nexts s" "prevs (s\<lparr>bufs_in_use := k\<rparr>) = prevs s" "hashes (s\<lparr>bufs_in_use := k\<rparr>) = hashes s"
  "nexts (s\<lparr>rdwt_err := r\<rparr>) = nexts s" "prevs (s\<lparr>rdwt_err := r\<rparr>) = prevs s" "hashes (s\<lparr>rdwt_err := r\<rparr>) = hashes s"
  by (simp_all add: fun_eq_iff nexts_def prevs_def hashes_def)

subsection \<open>The LRU chain\<close>

lemma first_of_rev_snoc [simp]: "first_of (rev (xs @ [x])) = Some x"
  by simp

lemma lru_neighbours:
  assumes "lru_links s (ys @ bp # zs)"
  shows "b_next (bufs s bp) = first_of zs" and "b_prev (bufs s bp) = first_of (rev ys)"
proof -
  have "chain (nexts s) (front s) (ys @ bp # zs)" "chain (prevs s) (rear s) (rev zs @ bp # rev ys)"
    using assms by (auto simp: lru_links_def)
  from this [THEN chain_next]
  show "b_next (bufs s bp) = first_of zs" "b_prev (bufs s bp) = first_of (rev ys)"
    by (auto simp: nexts_def prevs_def)
qed

lemma lru_links_distinct: "lru_links s xs \<Longrightarrow> distinct xs"
  by (auto simp: lru_links_def dest: chain_distinct)

text \<open>Deleting an entry from a chain when only its predecessor's link is at hand.\<close>

lemma chain_bypass:
  assumes "chain nx p (ys @ b # zs)"
  shows "chain (if ys = [] then nx else nx(last ys := nx b)) (if ys = [] then nx b else p) (ys @ zs)"
proof (cases ys rule: rev_cases)
  case Nil
  then show ?thesis using assms by simp
next
  case (snoc ys' a)
  then show ?thesis using assms chain_delete_after [of nx p ys' a b zs] by simp
qed

lemma lru_remove_eq:
  assumes "lru_links s (ys @ bp # zs)"
  shows "nexts (lru_remove bp s) = (if ys = [] then nexts s else (nexts s)(last ys := nexts s bp))"
    and "prevs (lru_remove bp s) = (if zs = [] then prevs s else (prevs s)(hd zs := prevs s bp))"
    and "front (lru_remove bp s) = (if ys = [] then nexts s bp else front s)"
    and "rear (lru_remove bp s) = (if zs = [] then prevs s bp else rear s)"
proof -
  have p: "b_prev (bufs s bp) = (if ys = [] then None else Some (last ys))"
    using lru_neighbours(2) [OF assms] by (cases ys rule: rev_cases) auto
  have n: "b_next (bufs s bp) = (if zs = [] then None else Some (hd zs))"
    using lru_neighbours(1) [OF assms] by (cases zs) auto
  show "nexts (lru_remove bp s) = (if ys = [] then nexts s else (nexts s)(last ys := nexts s bp))"
    "prevs (lru_remove bp s) = (if zs = [] then prevs s else (prevs s)(hd zs := prevs s bp))"
    "front (lru_remove bp s) = (if ys = [] then nexts s bp else front s)"
    "rear (lru_remove bp s) = (if zs = [] then prevs s bp else rear s)"
    by (auto simp: lru_remove_def Let_def p n buf_simps nexts_def [of s bp] prevs_def [of s bp] fun_eq_iff
        nexts_def [of s] prevs_def [of s])
qed

lemma lru_remove_links:
  assumes "lru_links s (ys @ bp # zs)"
  shows "lru_links (lru_remove bp s) (ys @ zs)"
proof -
  have c: "chain (nexts s) (front s) (ys @ bp # zs)" "chain (prevs s) (rear s) (rev zs @ bp # rev ys)"
    using assms by (auto simp: lru_links_def)
  have "rev zs = [] \<longleftrightarrow> zs = []" "zs \<noteq> [] \<Longrightarrow> last (rev zs) = hd zs" by (auto simp: last_rev)
  then show ?thesis
    using chain_bypass [OF c(1)] chain_bypass [OF c(2)]
    unfolding lru_links_def lru_remove_eq [OF assms] by (auto split: if_splits)
qed

lemma lru_front_links:
  assumes "lru_links s xs" and "bp \<notin> set xs"
  shows "lru_links (lru_front bp s) (bp # xs)"
proof (cases xs)
  case Nil
  then show ?thesis using assms by (auto simp: lru_links_def lru_front_def Let_def buf_simps)
next
  case (Cons x ys)
  then have f: "front s = Some x" and n: "bp \<noteq> x" using assms by (auto simp: lru_links_def)
  have "chain ((prevs s)(x := Some bp, bp := None)) (rear s) (rev ys @ [x, bp])"
    using chain_append_last [of "prevs s" "rear s" "rev ys" x bp] assms Cons by (auto simp: lru_links_def)
  moreover have "(prevs s)(x := Some bp, bp := None) = (prevs s)(bp := None, x := Some bp)"
    using n by (simp add: fun_upd_twist)
  ultimately show ?thesis
    using assms Cons f n lru_links_distinct [OF assms(1)]
    by (auto simp: lru_links_def lru_front_def Let_def buf_simps fold_links)
qed

lemma lru_rear_links:
  assumes "lru_links s xs" and "bp \<notin> set xs"
  shows "lru_links (lru_rear bp s) (xs @ [bp])"
proof (cases xs rule: rev_cases)
  case Nil
  then show ?thesis using assms by (auto simp: lru_links_def lru_rear_def Let_def buf_simps)
next
  case (snoc ys x)
  then have f: "rear s = Some x" and n: "bp \<noteq> x" using assms by (auto simp: lru_links_def)
  have "chain ((nexts s)(x := Some bp, bp := None)) (front s) (ys @ [x, bp])"
    using chain_append_last [of "nexts s" "front s" ys x bp] assms snoc by (auto simp: lru_links_def)
  moreover have "(nexts s)(x := Some bp, bp := None) = (nexts s)(bp := None, x := Some bp)"
    using n by (simp add: fun_upd_twist)
  ultimately show ?thesis
    using assms snoc f n lru_links_distinct [OF assms(1)]
    by (auto simp: lru_links_def lru_rear_def Let_def buf_simps fold_links)
qed

subsection \<open>What does not touch the lists\<close>

text \<open>
  \<open>calm s s'\<close>: links, block numbers and counts are the same, and a buffer has kept its
  device or lost it.  Disk transfers, whatever the driver answers, are calm.
\<close>

definition calm :: "fs \<Rightarrow> fs \<Rightarrow> bool" where
  "calm s s' \<longleftrightarrow> nexts s' = nexts s \<and> prevs s' = prevs s \<and> hashes s' = hashes s \<and> buf_hash s' = buf_hash s \<and>
     front s' = front s \<and> rear s' = rear s \<and> bufs_in_use s' = bufs_in_use s \<and>
     (\<forall>i. b_blocknr (bufs s' i) = b_blocknr (bufs s i) \<and> b_count (bufs s' i) = b_count (bufs s i) \<and>
       (b_dev (bufs s' i) = b_dev (bufs s i) \<or> b_dev (bufs s' i) = NO_DEV))"

lemma calm_refl [simp]: "calm s s"
  by (simp add: calm_def)

lemma calm_trans: "calm s s' \<Longrightarrow> calm s' s'' \<Longrightarrow> calm s s''"
  by (auto simp: calm_def) metis+

lemma calm_bufs: "cache_part s' = cache_part s \<Longrightarrow> calm s s'"
  by (auto simp: calm_def cache_part_iff nexts_def [abs_def] prevs_def [abs_def] hashes_def [abs_def])

lemma calm_dev_call: "dev_call e d io s = Done (r, s') \<Longrightarrow> calm s s'"
  using dev_call_frame by (auto simp: driver_frame_def intro: calm_bufs)

lemma calm_upd_buf:
  assumes "\<And>b. b_next (f b) = b_next b \<and> b_prev (f b) = b_prev b \<and> b_hash (f b) = b_hash b \<and>
    b_blocknr (f b) = b_blocknr b \<and> b_count (f b) = b_count b \<and> (b_dev (f b) = b_dev b \<or> b_dev (f b) = NO_DEV)"
  shows "calm s (upd_buf i f s)"
  using assms by (auto simp: calm_def buf_simps)

lemma calm_rdwt_err: "calm s (s\<lparr>rdwt_err := r\<rparr>)"
  by (rule calm_bufs) simp

lemma calm_updates [intro!]:
  "calm s s' \<Longrightarrow> calm s (upd_buf i (b_dev_update (\<lambda>_. NO_DEV)) s')"
  "calm s s' \<Longrightarrow> calm s (upd_buf i (b_dirt_update (\<lambda>_. v)) s')"
  "calm s s' \<Longrightarrow> calm s (upd_buf i (b_data_update (\<lambda>_. x)) s')"
  "calm s s' \<Longrightarrow> calm s (s'\<lparr>rdwt_err := r\<rparr>)"
  by (auto elim!: calm_trans intro: calm_upd_buf calm_rdwt_err)

lemma calm_rw_block:
  assumes "rw_block e bp w s = Done s'"
  shows "calm s s'"
proof (cases "b_dev (bufs s bp) = NO_DEV")
  case True
  then have "s' = upd_buf bp (b_dirt_update (\<lambda>_. CLEAN)) s" using assms by (simp add: rw_block_def Let_def)
  then show ?thesis by (simp add: calm_upd_buf)
next
  case False
  then obtain r s1 where c: "dev_call e (b_dev (bufs s bp)) (if w then BlockWrite (block_pos (b_blocknr (bufs s bp))) (b_data (bufs s bp))
      else BlockRead (block_pos (b_blocknr (bufs s bp)))) s = Done (r, s1)"
    and s': "s' = (let s = (if w then s1 else upd_buf bp (b_data_update (\<lambda>_. io_data e (sent s1))) s1);
        s = (if r \<noteq> 1024 then let r = (if r \<ge> 0 then END_OF_FILE else r); s = upd_buf bp (b_dev_update (\<lambda>_. NO_DEV)) s
              in if w then s else s\<lparr>rdwt_err := r\<rparr> else s) in upd_buf bp (b_dirt_update (\<lambda>_. CLEAN)) s)"
    using assms by (auto simp: rw_block_def Let_def outcome_simps split: if_splits)
  have "calm s1 s'" unfolding s' Let_def
    by auto
  then show ?thesis using calm_dev_call [OF c] calm_trans by blast
qed

lemma calm_harvest_write: "harvest e h d True kb s = Done s' \<Longrightarrow> calm s s'"
  by (auto simp: harvest_def Let_def split: prod.splits if_splits)

lemma calm_harvest_all_write: "harvest_all e h d True kbs s = Done s' \<Longrightarrow> calm s s'"
proof (induction kbs arbitrary: s)
  case Nil
  then show ?case by simp
next
  case (Cons kb kbs)
  then show ?case by (auto simp: outcome_simps dest: calm_harvest_write intro: calm_trans)
qed

lemma calm_rw_scattered_write: "rw_scattered e d q True s = Done s' \<Longrightarrow> calm s s'"
  by (auto simp: rw_scattered_def Let_def outcome_simps split: if_splits
      dest!: calm_dev_call calm_harvest_all_write intro: calm_trans)

lemma calm_flushall: "flushall e d s = Done s' \<Longrightarrow> calm s s'"
  unfolding flushall_def by (rule calm_rw_scattered_write)

lemma calm_lru: "calm s s' \<Longrightarrow> lru_ok s xs \<Longrightarrow> lru_ok s' xs"
  by (simp add: calm_def lru_ok_def lru_links_def)

lemma calm_hash: "calm s s' \<Longrightarrow> hash_ok X s \<Longrightarrow> hash_ok X s'"
  by (simp add: calm_def hash_ok_def hash_chain_def)

lemma calm_unique: "calm s s' \<Longrightarrow> unique_blocks s \<Longrightarrow> unique_blocks s'"
  by (auto simp: calm_def unique_blocks_def) metis

lemma calm_counts: "calm s s' \<Longrightarrow> counts_ok s \<Longrightarrow> counts_ok s'"
  by (simp add: calm_def counts_ok_def in_use_def)

lemma calm_cache_ok: "calm s s' \<Longrightarrow> cache_ok s \<Longrightarrow> cache_ok s'"
  unfolding cache_ok_def using calm_lru calm_hash calm_unique calm_counts by blast

subsection \<open>Releasing a block\<close>

definition core_of :: "buf \<Rightarrow> bytes \<times> u16 \<times> u16 \<times> bool \<times> int" where
  "core_of b = (b_data b, b_blocknr b, b_dev b, b_dirt b, b_count b)"

definition core :: "fs \<Rightarrow> nat \<Rightarrow> bytes \<times> u16 \<times> u16 \<times> bool \<times> int" where
  "core s i = core_of (bufs s i)"

lemma core_upd_buf: "core_of (f (bufs s p)) = core_of (bufs s p) \<Longrightarrow> core (upd_buf p f s) = core s"
  by (auto simp: core_def [abs_def] fun_eq_iff buf_simps)

lemma core_fields [simp]:
  "core (s\<lparr>front := x\<rparr>) = core s" "core (s\<lparr>rear := x\<rparr>) = core s" "core (s\<lparr>bufs_in_use := k\<rparr>) = core s"
  "core (s\<lparr>buf_hash := y\<rparr>) = core s"
  by (simp_all add: core_def [abs_def])

lemma core_link_updates [simp]:
  "core (upd_buf p (b_next_update f) s) = core s" "core (upd_buf p (b_prev_update f) s) = core s"
  "core (upd_buf p (\<lambda>b. b\<lparr>b_prev := x, b_next := y\<rparr>) s) = core s" "core (upd_buf p (b_hash_update f) s) = core s"
  by (simp_all add: core_upd_buf core_of_def)

lemma core_lru [simp]:
  "core (lru_remove bp s) = core s" "core (lru_front bp s) = core s" "core (lru_rear bp s) = core s"
  by (auto simp: lru_remove_def lru_front_def lru_rear_def Let_def split: option.splits)

lemma core_D:
  assumes "core s' = core s"
  shows "b_data (bufs s' i) = b_data (bufs s i)" "b_blocknr (bufs s' i) = b_blocknr (bufs s i)"
    "b_dev (bufs s' i) = b_dev (bufs s i)" "b_dirt (bufs s' i) = b_dirt (bufs s i)" "b_count (bufs s' i) = b_count (bufs s i)"
  using fun_cong [OF assms, of i] by (simp_all add: core_def core_of_def)

lemma lru_keeps [simp]:
  "hashes (lru_remove bp s) = hashes s" "hashes (lru_front bp s) = hashes s" "hashes (lru_rear bp s) = hashes s"
  "buf_hash (lru_remove bp s) = buf_hash s" "buf_hash (lru_front bp s) = buf_hash s" "buf_hash (lru_rear bp s) = buf_hash s"
  "bufs_in_use (lru_remove bp s) = bufs_in_use s" "bufs_in_use (lru_front bp s) = bufs_in_use s" "bufs_in_use (lru_rear bp s) = bufs_in_use s"
  "sent (lru_remove bp s) = sent s" "sent (lru_front bp s) = sent s" "sent (lru_rear bp s) = sent s"
  by (auto simp: lru_remove_def lru_front_def lru_rear_def Let_def buf_simps fold_links split: option.splits)

lemma lru_part [simp]:
  "file_part (lru_remove bp s) = file_part s" "file_part (lru_front bp s) = file_part s" "file_part (lru_rear bp s) = file_part s"
  "inode_part (lru_remove bp s) = inode_part s" "inode_part (lru_front bp s) = inode_part s" "inode_part (lru_rear bp s) = inode_part s"
  by (auto simp: lru_remove_def lru_front_def lru_rear_def Let_def split: option.splits)

text \<open>The state after the counts and the lists, before the block is written.\<close>

definition parked :: "nat \<Rightarrow> u16 \<Rightarrow> fs \<Rightarrow> fs" where
  "parked bp t s =
     (if on ONE_SHOT t then lru_front bp else lru_rear bp)
       (lru_remove bp (upd_buf bp (\<lambda>b. b\<lparr>b_count := b_count b - 1\<rparr>) s\<lparr>bufs_in_use := bufs_in_use s - 1\<rparr>))"

lemma put_block_last:
  assumes "b_count (bufs s bp) = 1"
  shows "put_block e (Some bp) t s =
    andthen (if on WRITE_IMMED t \<and> b_dirt (bufs s bp) \<and> b_dev (bufs s bp) \<noteq> NO_DEV then rw_block e bp True (parked bp t s) else Done (parked bp t s))
      (\<lambda>s. Done (if t = ZUPER_BLOCK then upd_buf bp (b_dev_update (\<lambda>_. NO_DEV)) s else s))"
proof -
  let ?s = "upd_buf bp (\<lambda>b. b\<lparr>b_count := b_count b - 1\<rparr>) s\<lparr>bufs_in_use := bufs_in_use s - 1\<rparr>"
  have "core (parked bp t s) = core ?s" by (simp add: parked_def)
  from core_D (3,4) [OF this, of bp]
  have "b_dirt (bufs (parked bp t s) bp) = b_dirt (bufs s bp)" "b_dev (bufs (parked bp t s) bp) = b_dev (bufs s bp)"
    by (simp_all add: buf_simps)
  then show ?thesis using assms by (cases "t AND ONE_SHOT = 0") (simp_all add: put_block_def Let_def buf_simps parked_def on_def)
qed

lemma put_block_shared:
  "b_count (bufs s bp) \<noteq> 1 \<Longrightarrow>
    put_block e (Some bp) t s = Done (upd_buf bp (\<lambda>b. b\<lparr>b_count := b_count b - 1\<rparr>) s)"
  by (simp add: put_block_def Let_def buf_simps)

lemma put_block_quiet:
  assumes "b_count (bufs s bp) = 1" and "put_block e (Some bp) t s = Done s'"
  shows "calm (parked bp t s) s'"
  using assms(2) unfolding put_block_last [OF assms(1)]
  by (auto simp: outcome_simps split: if_splits dest: calm_rw_block)

lemma parked_lru:
  assumes "lru_ok s xs" and "bp \<in> set xs"
  shows "lru_ok (parked bp t s) (if on ONE_SHOT t then bp # remove1 bp xs else remove1 bp xs @ [bp])"
proof -
  let ?s = "upd_buf bp (\<lambda>b. b\<lparr>b_count := b_count b - 1\<rparr>) s\<lparr>bufs_in_use := bufs_in_use s - 1\<rparr>"
  have l: "lru_links ?s xs" and d: "distinct xs" and x: "set xs = {..<NR_BUFS}"
    using assms(1) lru_links_distinct by (auto simp: lru_ok_def lru_links_def buf_simps)
  obtain ys zs where xs: "xs = ys @ bp # zs" using assms(2) by (meson in_set_conv_decomp)
  then have r: "remove1 bp xs = ys @ zs" "bp \<notin> set (ys @ zs)" using d by (auto simp: remove1_append)
  have m: "lru_links (lru_remove bp ?s) (remove1 bp xs)" using lru_remove_links l unfolding xs r(1) [unfolded xs] by blast
  have n: "bp \<notin> set (remove1 bp xs)" using r by simp
  have "lru_links (parked bp t s) (if on ONE_SHOT t then bp # remove1 bp xs else remove1 bp xs @ [bp])"
    unfolding parked_def using lru_front_links [OF m n] lru_rear_links [OF m n] by simp
  moreover have "set (remove1 bp xs) \<union> {bp} = set xs" using xs r by auto
  ultimately show ?thesis using x by (auto simp: lru_ok_def)
qed

text \<open>Releasing the last use of a block moves its buffer to the front or the rear, nothing else.\<close>

lemma put_block_lru:
  assumes "lru_ok s xs" and "bp < NR_BUFS" and "b_count (bufs s bp) = 1" and "put_block e (Some bp) t s = Done s'"
  shows "lru_ok s' (if on ONE_SHOT t then bp # remove1 bp xs else remove1 bp xs @ [bp])"
  using calm_lru [OF put_block_quiet [OF assms(3,4)] parked_lru [OF assms(1)]] assms(1,2) by (simp add: lru_ok_def)

lemma in_use_dec:
  assumes "counts_ok s" and "bp < NR_BUFS" and "b_count (bufs s bp) = 1"
  shows "counts_ok (upd_buf bp (\<lambda>b. b\<lparr>b_count := b_count b - 1\<rparr>) s\<lparr>bufs_in_use := bufs_in_use s - 1\<rparr>)"
proof -
  let ?s = "upd_buf bp (\<lambda>b. b\<lparr>b_count := b_count b - 1\<rparr>) s\<lparr>bufs_in_use := bufs_in_use s - 1\<rparr>"
  have "in_use ?s = in_use s - {bp}" and m: "bp \<in> in_use s" and f: "finite (in_use s)"
    using assms(2,3) by (auto simp: in_use_def buf_simps)
  then have "card (in_use ?s) = card (in_use s) - 1" by simp
  moreover have "card (in_use s) \<noteq> 0" using m f by auto
  ultimately show ?thesis using assms by (auto simp: counts_ok_def buf_simps)
qed

lemma hash_ok_cong:
  "hashes s' = hashes s \<Longrightarrow> buf_hash s' = buf_hash s \<Longrightarrow> (\<And>i. b_blocknr (bufs s' i) = b_blocknr (bufs s i)) \<Longrightarrow>
    hash_ok X s' = hash_ok X s"
  by (simp add: hash_ok_def hash_chain_def)

lemma unique_cong:
  "(\<And>i. b_dev (bufs s' i) = b_dev (bufs s i)) \<Longrightarrow> (\<And>i. b_blocknr (bufs s' i) = b_blocknr (bufs s i)) \<Longrightarrow>
    unique_blocks s' = unique_blocks s"
  by (simp add: unique_blocks_def)

lemma lru_ok_cong:
  "nexts s' = nexts s \<Longrightarrow> prevs s' = prevs s \<Longrightarrow> front s' = front s \<Longrightarrow> rear s' = rear s \<Longrightarrow> lru_ok s' xs = lru_ok s xs"
  by (simp add: lru_ok_def lru_links_def)

lemma count_update [simp]:
  "hash_ok X (upd_buf p (\<lambda>b. b\<lparr>b_count := g b\<rparr>) s) = hash_ok X s"
  "unique_blocks (upd_buf p (\<lambda>b. b\<lparr>b_count := g b\<rparr>) s) = unique_blocks s"
  "lru_ok (upd_buf p (\<lambda>b. b\<lparr>b_count := g b\<rparr>) s) xs = lru_ok s xs"
  by (rule hash_ok_cong unique_cong lru_ok_cong; simp add: buf_simps)+

lemma in_use_field [simp]:
  "hash_ok X (s\<lparr>bufs_in_use := k\<rparr>) = hash_ok X s" "unique_blocks (s\<lparr>bufs_in_use := k\<rparr>) = unique_blocks s"
  "lru_ok (s\<lparr>bufs_in_use := k\<rparr>) xs = lru_ok s xs"
  by (rule hash_ok_cong unique_cong lru_ok_cong; simp)+

lemma cache_ok_count:
  assumes "cache_ok s" and "bp < NR_BUFS" and "b_count (bufs s bp) > 1"
  shows "cache_ok (upd_buf bp (\<lambda>b. b\<lparr>b_count := b_count b - 1\<rparr>) s)"
proof -
  have "in_use (upd_buf bp (\<lambda>b. b\<lparr>b_count := b_count b - 1\<rparr>) s) = in_use s"
    using assms(2,3) by (auto simp: in_use_def buf_simps)
  then have "counts_ok (upd_buf bp (\<lambda>b. b\<lparr>b_count := b_count b - 1\<rparr>) s)"
    using assms by (auto simp: cache_ok_def counts_ok_def buf_simps)
  then show ?thesis using assms(1) by (simp add: cache_ok_def)
qed

lemma core_cong_ok:
  assumes "core s' = core s"
  shows "unique_blocks s' = unique_blocks s" and "in_use s' = in_use s"
    and "hashes s' = hashes s \<Longrightarrow> buf_hash s' = buf_hash s \<Longrightarrow> hash_ok X s' = hash_ok X s"
    and "bufs_in_use s' = bufs_in_use s \<Longrightarrow> counts_ok s' = counts_ok s"
  using core_D [OF assms] by (simp_all add: unique_blocks_def in_use_def hash_ok_def hash_chain_def counts_ok_def)

lemma parked_ok:
  assumes "cache_ok s" and "bp < NR_BUFS" and "b_count (bufs s bp) = 1"
  shows "cache_ok (parked bp t s)"
proof -
  let ?s = "upd_buf bp (\<lambda>b. b\<lparr>b_count := b_count b - 1\<rparr>) s\<lparr>bufs_in_use := bufs_in_use s - 1\<rparr>"
  have c: "core (parked bp t s) = core ?s" by (simp add: parked_def)
  obtain xs where l: "lru_ok s xs" using assms(1) by (auto simp: cache_ok_def)
  then have "bp \<in> set xs" using assms(2) by (simp add: lru_ok_def)
  then have "\<exists>xs. lru_ok (parked bp t s) xs" using parked_lru [OF l] by blast
  moreover have "counts_ok (parked bp t s)"
    using core_cong_ok(4) [OF c] in_use_dec assms by (simp add: cache_ok_def parked_def)
  moreover have "hash_ok {} (parked bp t s)"
    using core_cong_ok(3) [OF c, of "{}"] assms(1) by (simp add: cache_ok_def parked_def buf_simps)
  moreover have "unique_blocks (parked bp t s)"
    using core_cong_ok(1) [OF c] assms(1) by (simp add: cache_ok_def)
  ultimately show ?thesis by (simp add: cache_ok_def)
qed

lemma put_block_cache_ok:
  assumes "cache_ok s" and "bp < NR_BUFS" and "b_count (bufs s bp) > 0" and "put_block e (Some bp) t s = Done s'"
  shows "cache_ok s'"
proof (cases "b_count (bufs s bp) = 1")
  case True
  then show ?thesis using calm_cache_ok [OF put_block_quiet parked_ok] assms by blast
next
  case False
  then show ?thesis using cache_ok_count [OF assms(1,2)] assms(3,4) put_block_shared [OF False] by auto
qed

end
