(* ===== verification/Fs_Cache_Get.thy ===== *)
theory Fs_Cache_Get
  imports Fs_Cache_Inv
begin

section \<open>File system: acquiring blocks keeps the cache in order\<close>

text \<open>
  The two searches of \<open>get_block\<close>, along a hash chain and along the LRU chain, find what a search
  of the whole table would find and never run out of steps, and \<open>get_block\<close> keeps the invariant
  of the cache, whatever the drivers answer.
\<close>

subsection \<open>Looking a block up\<close>

text \<open>Where a block is in the cache, by a search of all the buffers.\<close>

definition cached :: "fs \<Rightarrow> u16 \<Rightarrow> u16 \<Rightarrow> ptr" where
  "cached s dev block = List.find (\<lambda>i. b_blocknr (bufs s i) = block \<and> b_dev (bufs s i) = dev) [0..<NR_BUFS]"

lemma cached_Some:
  "cached s dev block = Some i \<Longrightarrow> i < NR_BUFS \<and> b_blocknr (bufs s i) = block \<and> b_dev (bufs s i) = dev"
  unfolding cached_def find_Some_iff by auto

lemma cached_None:
  "cached s dev block = None \<longleftrightarrow> (\<forall>i<NR_BUFS. \<not> (b_blocknr (bufs s i) = block \<and> b_dev (bufs s i) = dev))"
  by (auto simp: cached_def find_None_iff)

lemma cached_eqI:
  assumes "unique_blocks s" and "dev \<noteq> NO_DEV" and "i < NR_BUFS" and "b_blocknr (bufs s i) = block" and "b_dev (bufs s i) = dev"
  shows "cached s dev block = Some i"
proof (cases "cached s dev block")
  case None
  then show ?thesis using assms by (auto simp: cached_None)
next
  case (Some j)
  then show ?thesis using cached_Some [OF Some] assms unfolding unique_blocks_def by metis
qed

lemma hash_of_less: "hash_of block < NR_BUF_HASH"
proof -
  have "unat (block AND 31) \<le> unat (31::u16)" by (rule word_le_nat_alt [THEN iffD1]) (rule word_and_le1)
  then show ?thesis by (simp add: hash_of_def)
qed

lemma hash_find_eq:
  "chain (hashes s) p cs \<Longrightarrow> length cs \<le> n \<Longrightarrow>
    hash_find n s dev block p = Done (List.find (\<lambda>i. b_blocknr (bufs s i) = block \<and> b_dev (bufs s i) = dev) cs)"
proof (induction cs arbitrary: p n)
  case Nil
  then show ?case by (cases n) auto
next
  case (Cons c cs)
  then obtain m where "n = Suc m" by (cases n) auto
  then show ?case using Cons by (auto simp: hashes_def)
qed

lemma hash_chain_short: "hash_chain X s h cs \<Longrightarrow> length cs \<le> NR_BUFS"
  unfolding hash_chain_def by (rule chain_length) auto

lemma hash_find_cached:
  assumes "hash_ok {} s" and "unique_blocks s" and "dev \<noteq> NO_DEV"
  shows "hash_find NR_BUFS s dev block (buf_hash s (hash_of block)) = Done (cached s dev block)"
proof -
  obtain cs where cs: "hash_chain {} s (hash_of block) cs"
    using assms(1) hash_of_less by (auto simp: hash_ok_def)
  let ?P = "\<lambda>i. b_blocknr (bufs s i) = block \<and> b_dev (bufs s i) = dev"
  have "List.find ?P cs = cached s dev block"
  proof (cases "List.find ?P cs")
    case None
    then have "\<forall>i\<in>set cs. \<not> ?P i" by (auto simp: find_None_iff)
    then have "cached s dev block = None" using cs by (auto simp: cached_None hash_chain_def)
    then show ?thesis using None by simp
  next
    case (Some i)
    then have "?P i" "i \<in> set cs" by (auto simp: find_Some_iff)
    then show ?thesis using Some cached_eqI assms(2,3) cs by (auto simp: hash_chain_def)
  qed
  moreover have "chain (hashes s) (buf_hash s (hash_of block)) cs" using cs by (simp add: hash_chain_def)
  ultimately show ?thesis using hash_find_eq [OF _ hash_chain_short [OF cs]] by simp
qed

lemma lru_free_eq:
  "chain (nexts s) p xs \<Longrightarrow> length xs \<le> n \<Longrightarrow>
    lru_free n s p = (case List.find (\<lambda>i. b_count (bufs s i) = 0) xs of None \<Rightarrow> Panics ''No free buffer'' | Some i \<Rightarrow> Done i)"
proof (induction xs arbitrary: p n)
  case Nil
  then show ?case by (cases n) auto
next
  case (Cons x xs)
  then obtain m where "n = Suc m" by (cases n) auto
  then show ?case using Cons by (auto simp: nexts_def)
qed

lemma lru_ok_length: "lru_ok s xs \<Longrightarrow> length xs = NR_BUFS"
  using distinct_card [of xs] lru_links_distinct by (auto simp: lru_ok_def)

lemma lru_free_found:
  assumes "lru_ok s xs" and "counts_ok s" and "bufs_in_use s \<noteq> int NR_BUFS"
  obtains p bp where "front s = Some p" "lru_free NR_BUFS s (Some p) = Done bp" "bp < NR_BUFS" "b_count (bufs s bp) = 0"
    "List.find (\<lambda>i. b_count (bufs s i) = 0) xs = Some bp"
proof -
  have x: "set xs = {..<NR_BUFS}" and c: "chain (nexts s) (front s) xs" using assms(1) by (auto simp: lru_ok_def lru_links_def)
  have "in_use s \<noteq> {..<NR_BUFS}" using assms(2,3) by (auto simp: counts_ok_def)
  then obtain i where "i < NR_BUFS" "b_count (bufs s i) = 0"
    using assms(2) by (force simp: in_use_def counts_ok_def)
  then have "\<exists>i\<in>set xs. b_count (bufs s i) = 0" using x by auto
  then obtain bp where bp: "List.find (\<lambda>i. b_count (bufs s i) = 0) xs = Some bp"
    by (metis (mono_tags, lifting) find_None_iff not_None_eq)
  then have "bp \<in> set xs" "b_count (bufs s bp) = 0" by (auto simp: find_Some_iff)
  moreover obtain p where p: "front s = Some p" using c x lru_ok_length [OF assms(1)] by (cases xs) auto
  moreover have "lru_free NR_BUFS s (Some p) = Done bp"
    using lru_free_eq [OF c, of NR_BUFS] lru_ok_length [OF assms(1)] bp p by simp
  ultimately show ?thesis using that bp x by auto
qed

subsection \<open>Off one hash chain and onto another\<close>

lemma unhash_scan_eq:
  "chain (hashes s) (Some a) (a # ys @ bp # zs) \<Longrightarrow> length ys < n \<Longrightarrow>
    unhash_scan n bp a s = Done (upd_buf (last (a # ys)) (b_hash_update (\<lambda>_. b_hash (bufs s bp))) s)"
proof (induction ys arbitrary: a n)
  case Nil
  then obtain m where "n = Suc m" by (cases n) auto
  then show ?case using Nil by (simp add: hashes_def)
next
  case (Cons y ys)
  then obtain m where "n = Suc m" by (cases n) auto
  moreover have "y \<noteq> bp" using chain_distinct [OF Cons.prems(1)] by auto
  ultimately show ?case using Cons.IH [of y m] Cons.prems by (simp add: hashes_def)
qed

lemma unhash_ok:
  assumes "hash_ok {} s" and "bp < NR_BUFS"
  obtains s' where "unhash bp s = Done s'" "core s' = core s" "nexts s' = nexts s" "prevs s' = prevs s"
    "front s' = front s" "rear s' = rear s" "bufs_in_use s' = bufs_in_use s" "sent s' = sent s" "hash_ok {bp} s'"
    "file_part s' = file_part s" "inode_part s' = inode_part s"
proof -
  let ?h = "hash_of (b_blocknr (bufs s bp))"
  obtain cs where cs: "hash_chain {} s ?h cs" using assms(1) hash_of_less by (auto simp: hash_ok_def)
  then have c: "chain (hashes s) (buf_hash s ?h) cs" and "bp \<in> set cs"
    using assms(2) by (auto simp: hash_chain_def)
  then obtain ys zs where yz: "cs = ys @ bp # zs" by (meson in_set_conv_decomp)
  have d: "distinct cs" using c by (rule chain_distinct)
  let ?s = "if ys = [] then s\<lparr>buf_hash := (buf_hash s)(?h := b_hash (bufs s bp))\<rparr>
            else upd_buf (last ys) (b_hash_update (\<lambda>_. b_hash (bufs s bp))) s"
  have u: "unhash bp s = Done ?s"
  proof (cases ys)
    case Nil
    then have "buf_hash s ?h = Some bp" using c yz by simp
    then show ?thesis using Nil by (simp add: unhash_def)
  next
    case (Cons a ys')
    then have h: "buf_hash s ?h = Some a" and n: "a \<noteq> bp" using c yz d by auto
    have "chain (hashes s) (Some a) (a # ys' @ bp # zs)" using c yz Cons h by simp
    moreover have "length ys' < NR_BUFS" using hash_chain_short [OF cs] yz Cons by simp
    ultimately have "unhash_scan NR_BUFS bp a s = Done ?s" using unhash_scan_eq [of s a ys' bp zs NR_BUFS] Cons by simp
    then show ?thesis using h n Cons by (simp add: unhash_def)
  qed
  have core: "core ?s = core s" by simp
  have hs: "hashes ?s = (if ys = [] then hashes s else (hashes s)(last ys := hashes s bp))"
    by (simp add: buf_simps fold_links)
  have bh: "buf_hash ?s = (if ys = [] then (buf_hash s)(?h := hashes s bp) else buf_hash s)"
    by (simp add: fold_links)
  have bypass: "chain (hashes ?s) (buf_hash ?s ?h) (ys @ zs)"
    using chain_bypass [OF c [unfolded yz]] hs bh by (auto split: if_splits)
  have "hash_ok {bp} ?s"
    unfolding hash_ok_def
  proof (intro allI impI)
    fix h :: nat assume h: "h < NR_BUF_HASH"
    show "\<exists>cs. hash_chain {bp} ?s h cs"
    proof (cases "h = ?h")
      case True
      have "set (ys @ zs) = set cs - {bp}" using yz d by auto
      then have "hash_chain {bp} ?s h (ys @ zs)"
        using bypass cs True core_D(2) [OF core] unfolding hash_chain_def by auto
      then show ?thesis by blast
    next
      case False
      obtain ds where ds: "hash_chain {} s h ds" using assms(1) h by (auto simp: hash_ok_def)
      have "ys \<noteq> [] \<Longrightarrow> last ys \<in> set cs" using yz by simp
      then have "ys \<noteq> [] \<Longrightarrow> last ys \<notin> set ds" using ds cs False by (auto simp: hash_chain_def)
      then have "chain (hashes ?s) (buf_hash ?s h) ds" using ds hs bh False by (auto simp: hash_chain_def)
      then have "hash_chain {bp} ?s h ds" using ds False core_D(2) [OF core] unfolding hash_chain_def by auto
      then show ?thesis by blast
    qed
  qed
  moreover have "nexts ?s = nexts s" "prevs ?s = prevs s" by (simp_all add: buf_simps)
  ultimately show ?thesis using that [OF u core] by simp
qed

lemma enter_block_fields [buf_simps]:
  "nexts (enter_block bp dev block srch s) = nexts s" "prevs (enter_block bp dev block srch s) = prevs s"
  "front (enter_block bp dev block srch s) = front s" "rear (enter_block bp dev block srch s) = rear s"
  "bufs_in_use (enter_block bp dev block srch s) = bufs_in_use s" "sent (enter_block bp dev block srch s) = sent s"
  "hashes (enter_block bp dev block srch s) = (hashes s)(bp := buf_hash s (hash_of block))"
  "buf_hash (enter_block bp dev block srch s) = (buf_hash s)(hash_of block := Some bp)"
  "bufs (enter_block bp dev block srch s) = (bufs s)(bp := (bufs s bp)\<lparr>b_dev := if srch = PREFETCH then NO_DEV else dev,
      b_blocknr := block, b_count := b_count (bufs s bp) + 1, b_hash := buf_hash s (hash_of block)\<rparr>)"
  "file_part (enter_block bp dev block srch s) = file_part s" "inode_part (enter_block bp dev block srch s) = inode_part s"
  by (simp_all add: enter_block_def Let_def buf_simps fold_links)

lemma enter_block_hash:
  assumes "hash_ok {bp} s" and "bp < NR_BUFS"
  shows "hash_ok {} (enter_block bp dev block srch s)"
  unfolding hash_ok_def
proof (intro allI impI)
  let ?s = "enter_block bp dev block srch s"
  fix h :: nat assume "h < NR_BUF_HASH"
  then obtain cs where cs: "hash_chain {bp} s h cs" using assms(1) by (auto simp: hash_ok_def)
  then have n: "bp \<notin> set cs" and c: "chain (hashes ?s) (buf_hash s h) cs" by (auto simp: hash_chain_def buf_simps)
  have "hash_chain {} ?s h (if h = hash_of block then bp # cs else cs)"
    using c cs n assms(2) by (auto simp: hash_chain_def buf_simps split: if_splits)
  then show "\<exists>cs. hash_chain {} ?s h cs" by blast
qed

lemma enter_block_unique:
  assumes "unique_blocks s" and "\<And>i. i < NR_BUFS \<Longrightarrow> dev \<noteq> NO_DEV \<Longrightarrow> \<not> (b_blocknr (bufs s i) = block \<and> b_dev (bufs s i) = dev)"
  shows "unique_blocks (enter_block bp dev block srch s)"
  using assms unfolding unique_blocks_def by (simp add: buf_simps) metis

lemma in_use_inc:
  assumes "counts_ok s" and "bp < NR_BUFS" and "b_count (bufs s bp) = 0"
    and "bufs_in_use s' = bufs_in_use s + 1"
    and "\<And>i. b_count (bufs s' i) = (if i = bp then 1 else b_count (bufs s i))"
  shows "counts_ok s'"
proof -
  have "in_use s' = insert bp (in_use s)" "bp \<notin> in_use s" "finite (in_use s)"
    using assms by (auto simp: in_use_def)
  then have "card (in_use s') = card (in_use s) + 1" by simp
  then show ?thesis using assms by (simp add: counts_ok_def)
qed

subsection \<open>The steps of \<open>take_block\<close>\<close>

text \<open>
  What \<open>take_block\<close> does once it has found the buffer \<open>bp\<close> to evict and taken it off its hash
  chain, which leads to \<open>s1\<close>: it flushes the device of the buffer, enters the new block and reads
  it in.
\<close>

definition refill :: "fs_env \<Rightarrow> nat \<Rightarrow> u16 \<Rightarrow> u16 \<Rightarrow> search \<Rightarrow> fs \<Rightarrow> (nat \<times> fs) run" where
  "refill e bp dev block srch s1 =
     andthen (if b_dev (bufs s1 bp) \<noteq> NO_DEV \<and> b_dirt (bufs s1 bp) then flushall e (b_dev (bufs s1 bp)) s1 else Done s1) (\<lambda>s.
     let s = enter_block bp dev block srch s
     in andthen (if dev \<noteq> NO_DEV \<and> srch = NORMAL then rw_block e bp False s else Done s) (\<lambda>s. Done (bp, s)))"

text \<open>The state \<open>s1\<close>: the buffer counts as used and is on no hash chain.\<close>

definition unhashed :: "nat \<Rightarrow> fs \<Rightarrow> fs \<Rightarrow> bool" where
  "unhashed bp s s1 \<longleftrightarrow> bp < NR_BUFS \<and> b_count (bufs s bp) = 0 \<and> core s1 = core s \<and> nexts s1 = nexts s \<and> prevs s1 = prevs s \<and>
     front s1 = front s \<and> rear s1 = rear s \<and> bufs_in_use s1 = bufs_in_use s + 1 \<and> sent s1 = sent s \<and> hash_ok {bp} s1 \<and>
     file_part s1 = file_part s \<and> inode_part s1 = inode_part s"

text \<open>The buffer evicted is the first of the LRU chain that is not in use.\<close>

lemma take_block_steps:
  assumes "lru_ok s xs" and "hash_ok {} s" and "counts_ok s" and "bufs_in_use s \<noteq> int NR_BUFS"
  obtains bp s1 where "List.find (\<lambda>i. b_count (bufs s i) = 0) xs = Some bp" "unhashed bp s s1"
    "take_block e dev block srch s = refill e bp dev block srch s1"
proof -
  obtain p bp where f: "front s = Some p" "lru_free NR_BUFS s (Some p) = Done bp" "bp < NR_BUFS" "b_count (bufs s bp) = 0"
    "List.find (\<lambda>i. b_count (bufs s i) = 0) xs = Some bp"
    using lru_free_found [OF assms(1,3,4)] .
  let ?s = "s\<lparr>bufs_in_use := bufs_in_use s + 1\<rparr>"
  have "hash_ok {} ?s" using assms(2) by simp
  then obtain s1 where s1: "unhash bp ?s = Done s1" "unhashed bp s s1"
    by (rule unhash_ok [OF _ f(3)]) (use f(3,4) in \<open>simp add: unhashed_def\<close>)
  have "take_block e dev block srch s = refill e bp dev block srch s1"
    using f(1,2) s1(1) assms(4) by (simp add: take_block_def refill_def Let_def)
  then show ?thesis using that f(5) s1(2) by blast
qed

lemma take_block_full: "bufs_in_use s = int NR_BUFS \<Longrightarrow> take_block e dev block srch s = Panics ''All buffers in use''"
  by (simp add: take_block_def)

lemma refill_steps:
  assumes "refill e bp dev block srch s1 = Done (b, s')"
  obtains s2 where "b = bp" "calm s1 s2" "calm (enter_block bp dev block srch s2) s'"
    "(if b_dev (bufs s1 bp) \<noteq> NO_DEV \<and> b_dirt (bufs s1 bp) then flushall e (b_dev (bufs s1 bp)) s1 else Done s1) = Done s2"
    "(if dev \<noteq> NO_DEV \<and> srch = NORMAL then rw_block e bp False (enter_block bp dev block srch s2)
      else Done (enter_block bp dev block srch s2)) = Done s'"
proof -
  obtain s2 where s2: "(if b_dev (bufs s1 bp) \<noteq> NO_DEV \<and> b_dirt (bufs s1 bp) then flushall e (b_dev (bufs s1 bp)) s1 else Done s1) = Done s2"
    and s': "(if dev \<noteq> NO_DEV \<and> srch = NORMAL then rw_block e bp False (enter_block bp dev block srch s2)
      else Done (enter_block bp dev block srch s2)) = Done s'" and b: "b = bp"
    using assms by (auto simp: refill_def Let_def andthen_Done_iff)
  have "calm s1 s2" using s2 calm_flushall by (auto split: if_splits)
  moreover have "calm (enter_block bp dev block srch s2) s'" using s' calm_rw_block by (auto split: if_splits)
  ultimately show ?thesis using that s2 s' b by blast
qed

lemma unhashed_ok:
  assumes "cache_ok s" and "unhashed bp s s1" and "calm s1 s2"
    and "dev = NO_DEV \<or> cached s dev block = None"
  shows "cache_ok (enter_block bp dev block srch s2)" and "b_count (bufs (enter_block bp dev block srch s2) bp) = 1"
    and "i \<noteq> bp \<Longrightarrow> b_count (bufs (enter_block bp dev block srch s2) i) = b_count (bufs s i)"
proof -
  let ?s = "enter_block bp dev block srch s2"
  have bp: "bp < NR_BUFS" "b_count (bufs s bp) = 0" and core: "core s1 = core s" using assms(2) by (auto simp: unhashed_def)
  have q: "b_blocknr (bufs s2 i) = b_blocknr (bufs s i)" "b_count (bufs s2 i) = b_count (bufs s i)"
    "b_dev (bufs s2 i) = b_dev (bufs s i) \<or> b_dev (bufs s2 i) = NO_DEV" for i
    using assms(3) core_D [OF core] by (auto simp: calm_def)
  obtain xs where xs: "lru_ok s xs" using assms(1) by (auto simp: cache_ok_def)
  then have "lru_ok s1 xs" using assms(2) by (simp add: unhashed_def lru_ok_def lru_links_def)
  then have "lru_ok ?s xs" using calm_lru [OF assms(3)] by (simp add: lru_ok_def lru_links_def buf_simps)
  moreover have "hash_ok {} ?s"
    using assms(2) calm_hash [OF assms(3)] enter_block_hash bp(1) by (auto simp: unhashed_def)
  moreover have "unique_blocks ?s"
  proof (rule enter_block_unique)
    show "unique_blocks s2"
      using assms(1) core_cong_ok(1) [OF core] calm_unique [OF assms(3)] by (simp add: cache_ok_def)
    show "\<not> (b_blocknr (bufs s2 i) = block \<and> b_dev (bufs s2 i) = dev)" if "i < NR_BUFS" "dev \<noteq> NO_DEV" for i
      using assms(4) that q [of i] by (auto simp: cached_None)
  qed
  moreover have "counts_ok ?s"
  proof (rule in_use_inc [OF _ bp])
    show "counts_ok s" using assms(1) by (simp add: cache_ok_def)
    show "bufs_in_use ?s = bufs_in_use s + 1" using assms(2,3) by (simp add: unhashed_def calm_def buf_simps)
    show "b_count (bufs ?s i) = (if i = bp then 1 else b_count (bufs s i))" for i using q bp by (simp add: buf_simps)
  qed
  ultimately show "cache_ok ?s" by (auto simp: cache_ok_def)
  show "b_count (bufs ?s bp) = 1" using q bp by (simp add: buf_simps)
  show "i \<noteq> bp \<Longrightarrow> b_count (bufs ?s i) = b_count (bufs s i)" using q by (simp add: buf_simps)
qed

subsection \<open>Acquiring a block\<close>

lemma get_block_eq:
  assumes "cache_ok s"
  shows "get_block e dev block srch s = (case (if dev = NO_DEV then None else cached s dev block) of
      Some bp \<Rightarrow> Done (bp, upd_buf bp (\<lambda>b. b\<lparr>b_count := b_count b + 1\<rparr>)
        (if b_count (bufs s bp) = 0 then s\<lparr>bufs_in_use := bufs_in_use s + 1\<rparr> else s))
    | None \<Rightarrow> take_block e dev block srch s)"
  using assms hash_find_cached [of s dev block] by (auto simp: get_block_def cache_ok_def Let_def split: option.split)

text \<open>What \<open>get_block\<close> does to the counts and the lists.\<close>

definition acquired :: "nat \<Rightarrow> fs \<Rightarrow> fs \<Rightarrow> bool" where
  "acquired bp s s' \<longleftrightarrow> cache_ok s' \<and> bp < NR_BUFS \<and> b_count (bufs s' bp) = b_count (bufs s bp) + 1 \<and>
     (\<forall>i. i \<noteq> bp \<longrightarrow> b_count (bufs s' i) = b_count (bufs s i))"

lemma get_block_hit:
  assumes "cache_ok s" and "cached s dev block = Some bp"
  shows "acquired bp s (upd_buf bp (\<lambda>b. b\<lparr>b_count := b_count b + 1\<rparr>)
        (if b_count (bufs s bp) = 0 then s\<lparr>bufs_in_use := bufs_in_use s + 1\<rparr> else s))" (is "acquired bp s ?s")
proof -
  have bp: "bp < NR_BUFS" using cached_Some [OF assms(2)] by simp
  have ok: "(\<exists>xs. lru_ok s xs)" "hash_ok {} s" "unique_blocks s" "counts_ok s" using assms(1) by (auto simp: cache_ok_def)
  have "counts_ok ?s"
  proof (cases "b_count (bufs s bp) = 0")
    case True
    show ?thesis by (rule in_use_inc [OF ok(4) bp True]) (use True in \<open>simp_all add: buf_simps\<close>)
  next
    case False
    then have "in_use ?s = in_use s" using ok(4) bp by (auto simp: in_use_def counts_ok_def buf_simps)
    then show ?thesis using ok(4) bp False by (auto simp: counts_ok_def buf_simps)
  qed
  moreover have "(\<exists>xs. lru_ok ?s xs)" "hash_ok {} ?s" "unique_blocks ?s" using ok by auto
  ultimately show ?thesis using bp by (auto simp: acquired_def cache_ok_def buf_simps)
qed

lemma get_block_ok:
  assumes "cache_ok s" and "get_block e dev block srch s = Done (bp, s')"
  shows "acquired bp s s'"
proof (cases "if dev = NO_DEV then None else cached s dev block")
  case (Some b)
  then show ?thesis using assms get_block_eq [OF assms(1)] get_block_hit [OF assms(1), of dev block b] by (auto split: if_splits)
next
  case None
  then have t: "take_block e dev block srch s = Done (bp, s')" using assms(2) get_block_eq [OF assms(1)] by simp
  obtain xs where xs: "lru_ok s xs" "hash_ok {} s" "counts_ok s" using assms(1) by (auto simp: cache_ok_def)
  have "bufs_in_use s \<noteq> int NR_BUFS" using t take_block_full by fastforce
  then obtain b s1 where s1: "unhashed b s s1" "refill e b dev block srch s1 = Done (bp, s')"
    using take_block_steps [OF xs] t by metis
  obtain s2 where s2: "bp = b" "calm s1 s2" "calm (enter_block bp dev block srch s2) s'"
    using refill_steps [OF s1(2)] by metis
  have d: "dev = NO_DEV \<or> cached s dev block = None" using None by (auto split: if_splits)
  note ok = unhashed_ok [OF assms(1) s1(1) s2(2) d, where srch = srch]
  have "cache_ok s'" using calm_cache_ok [OF s2(3)] ok(1) s2(1) by simp
  then show ?thesis using s1(1) s2(1,3) ok(2,3) by (simp add: acquired_def unhashed_def calm_def)
qed

end
