(* ===== verification/Fs_Cache_Run.thy ===== *)
theory Fs_Cache_Run
  imports Fs_Cache_Get
begin

section \<open>File system: the cache over its whole life\<close>

text \<open>
  The cache as \<open>buf_pool\<close> sets it up, and everything that happens to it afterwards as a step
  relation: blocks are acquired and released, filled in by their holders, read and written,
  flushed, invalidated and prefetched.  Every state reached has the invariant \<open>cache_ok\<close>.
\<close>

subsection \<open>Setting up\<close>

lemma fold_upd_buf:
  "fold (\<lambda>i. upd_buf i (f i)) [0..<n] s = s\<lparr>bufs := \<lambda>i. if i < n then f i (bufs s i) else bufs s i\<rparr>"
proof (induction n)
  case 0
  then show ?case by simp
next
  case (Suc n)
  have "(\<lambda>i. if i < n then f i (bufs s i) else bufs s i)(n := f n (bufs s n)) = (\<lambda>i. if i < Suc n then f i (bufs s i) else bufs s i)"
    by (auto simp: fun_eq_iff less_Suc_eq)
  then have "upd_buf n (f n) (s\<lparr>bufs := \<lambda>i. if i < n then f i (bufs s i) else bufs s i\<rparr>) =
      s\<lparr>bufs := \<lambda>i. if i < Suc n then f i (bufs s i) else bufs s i\<rparr>"
    by (simp add: upd_buf_def)
  then show ?case using Suc by simp
qed

lemma fold_own_hash:
  "fold (\<lambda>i s. upd_buf i (b_hash_update (\<lambda>_. b_next (bufs s i))) s) is s =
    fold (\<lambda>i. upd_buf i (\<lambda>b. b\<lparr>b_hash := b_next b\<rparr>)) is s"
  by (induction "is" arbitrary: s) (simp_all add: upd_buf_def)

text \<open>Memory before \<open>buf_pool\<close>: no use counts, and empty hash chains.\<close>

definition blank_cache :: "fs \<Rightarrow> bool" where
  "blank_cache s \<longleftrightarrow> (\<forall>i<NR_BUFS. b_count (bufs s i) = 0) \<and> (\<forall>h<NR_BUF_HASH. buf_hash s h = None)"

lemma buf_pool_eq:
  defines "link \<equiv> \<lambda>i::nat. if i + 1 < NR_BUFS then Some (i + 1) else None"
  shows "buf_pool s = s\<lparr>bufs_in_use := 0, front := Some 0, rear := Some (NR_BUFS - 1), buf_hash := (buf_hash s)(0 := Some 0),
    bufs := \<lambda>i. if i < NR_BUFS then (bufs s i)\<lparr>b_blocknr := NO_BLOCK, b_dev := NO_DEV, b_next := link i,
      b_prev := if i = 0 then None else Some (i - 1), b_hash := link i\<rparr> else bufs s i\<rparr>"
  unfolding buf_pool_def Let_def fold_own_hash fold_upd_buf
  by (auto simp: upd_buf_def link_def hash_of_def fun_eq_iff simp del: upt_rec_numeral)

lemma chain_downto:
  assumes "\<And>i. i < n \<Longrightarrow> nx i = (if i = 0 then None else Some (i - 1))"
  shows "chain nx (if n = 0 then None else Some (n - 1)) (rev [0..<n])"
  using assms
proof (induction n)
  case 0
  then show ?case by simp
next
  case (Suc n)
  then have "chain nx (if n = 0 then None else Some (n - 1)) (rev [0..<n])" "nx n = (if n = 0 then None else Some (n - 1))" by simp_all
  then show ?case by simp
qed

lemma buf_pool_ok:
  assumes "blank_cache s"
  shows "cache_ok (buf_pool s)"
proof -
  let ?s = "buf_pool s"
  have n: "nexts ?s i = (if Suc i < NR_BUFS then Some (Suc i) else None)" if "i < NR_BUFS" for i
    using that by (simp add: nexts_def buf_pool_eq)
  have p: "prevs ?s i = (if i = 0 then None else Some (i - 1))" if "i < NR_BUFS" for i
    using that by (simp add: prevs_def buf_pool_eq)
  have h: "hashes ?s i = (if Suc i < NR_BUFS then Some (Suc i) else None)" if "i < NR_BUFS" for i
    using that by (simp add: hashes_def buf_pool_eq)
  have f: "front ?s = Some 0" "rear ?s = Some 29" "bufs_in_use ?s = 0"
    "buf_hash ?s k = (if k = 0 then Some 0 else buf_hash s k)" for k
    by (simp_all add: buf_pool_eq)
  have "lru_ok ?s [0..<NR_BUFS]"
    using chain_upt [of NR_BUFS "nexts ?s" 0, OF n] chain_downto [of NR_BUFS "prevs ?s", OF p] f(1,2)
    by (auto simp: lru_ok_def lru_links_def)
  moreover have "hash_ok {} ?s"
    unfolding hash_ok_def
  proof (intro allI impI)
    fix k :: nat assume k: "k < NR_BUF_HASH"
    have z: "{i. i < NR_BUFS \<and> i \<notin> {} \<and> hash_of (b_blocknr (bufs ?s i)) = k} = (if k = 0 then {..<NR_BUFS} else {})"
      by (auto simp: buf_pool_eq hash_of_def)
    show "\<exists>cs. hash_chain {} ?s k cs"
    proof (cases "k = 0")
      case True
      have "chain (hashes ?s) (Some 0) [0..<NR_BUFS]" using chain_upt [of NR_BUFS "hashes ?s" 0, OF h] by simp
      then have "hash_chain {} ?s k [0..<NR_BUFS]" unfolding hash_chain_def z using True f(4) by auto
      then show ?thesis by blast
    next
      case False
      then have "hash_chain {} ?s k []" unfolding hash_chain_def z using f(4) assms k by (simp add: blank_cache_def)
      then show ?thesis by blast
    qed
  qed
  moreover have "unique_blocks ?s" by (simp add: unique_blocks_def buf_pool_eq)
  moreover have "counts_ok ?s"
    using assms by (simp add: counts_ok_def in_use_def buf_pool_eq blank_cache_def cong: conj_cong)
  ultimately show ?thesis by (auto simp: cache_ok_def)
qed

subsection \<open>Prefetching\<close>

text \<open>
  What \<open>rahead\<close> hands to \<open>rw_scattered\<close>: buffers it holds, without a device, for different blocks
  that are not in the cache.
\<close>

definition prefetched :: "fs \<Rightarrow> u16 \<Rightarrow> nat list \<Rightarrow> bool" where
  "prefetched s dev q \<longleftrightarrow> distinct q \<and> distinct (map (\<lambda>i. b_blocknr (bufs s i)) q) \<and>
     (\<forall>i\<in>set q. i < NR_BUFS \<and> b_count (bufs s i) > 0 \<and> b_dev (bufs s i) = NO_DEV \<and> cached s dev (b_blocknr (bufs s i)) = None)"

lemma prefetched_perm:
  "mset q' = mset q \<Longrightarrow> prefetched s dev q' = prefetched s dev q"
proof -
  assume m: "mset q' = mset q"
  then have n: "mset (map (\<lambda>i. b_blocknr (bufs s i)) q') = mset (map (\<lambda>i. b_blocknr (bufs s i)) q)" by (simp only: mset_map)
  show ?thesis
    unfolding prefetched_def mset_eq_setD [OF m] mset_eq_imp_distinct_iff [OF m] mset_eq_imp_distinct_iff [OF n] ..
qed

lemma put_block_partial:
  "put_block e (Some bp) PARTIAL_DATA_BLOCK s =
    Done (if b_count (bufs s bp) = 1 then parked bp PARTIAL_DATA_BLOCK s else upd_buf bp (\<lambda>b. b\<lparr>b_count := b_count b - 1\<rparr>) s)"
  by (cases "b_count (bufs s bp) = 1") (simp_all add: put_block_last put_block_shared on_def)

lemma put_block_core:
  assumes "put_block e (Some bp) PARTIAL_DATA_BLOCK s = Done s'"
  shows "b_blocknr (bufs s' i) = b_blocknr (bufs s i)" "b_dev (bufs s' i) = b_dev (bufs s i)" "b_data (bufs s' i) = b_data (bufs s i)"
    "b_count (bufs s' i) = (if i = bp then b_count (bufs s i) - 1 else b_count (bufs s i))" "sent s' = sent s"
proof -
  let ?s = "upd_buf bp (\<lambda>b. b\<lparr>b_count := b_count b - 1\<rparr>) s"
  have "core s' = core ?s \<and> sent s' = sent s" using assms by (auto simp: put_block_partial parked_def split: if_splits)
  then show "b_blocknr (bufs s' i) = b_blocknr (bufs s i)" "b_dev (bufs s' i) = b_dev (bufs s i)" "b_data (bufs s' i) = b_data (bufs s i)"
    "b_count (bufs s' i) = (if i = bp then b_count (bufs s i) - 1 else b_count (bufs s i))" "sent s' = sent s"
    using core_D [of s' ?s i] by (auto simp: buf_simps)
qed

lemma harvest_read_ok:
  assumes "cache_ok s" and "prefetched s dev (bp # q)" and "harvest e h dev False (k, bp) s = Done s'"
  shows "cache_ok s' \<and> prefetched s' dev q"
proof -
  let ?d = "upd_buf bp (b_data_update (\<lambda>_. io_vector e h k)) s"
  let ?s = "if io_left e h k = 0 then upd_buf bp (b_dev_update (\<lambda>_. dev)) ?d else ?d"
  have put: "put_block e (Some bp) PARTIAL_DATA_BLOCK ?s = Done s'" using assms(3) by (auto simp: harvest_def Let_def split: if_splits)
  have bp: "bp < NR_BUFS" "b_count (bufs s bp) > 0" "cached s dev (b_blocknr (bufs s bp)) = None" "bp \<notin> set q"
    using assms(2) by (auto simp: prefetched_def)
  have f: "b_blocknr (bufs ?s i) = b_blocknr (bufs s i)" "b_count (bufs ?s i) = b_count (bufs s i)"
    "b_dev (bufs ?s i) = (if i = bp \<and> io_left e h k = 0 then dev else b_dev (bufs s i))" for i
    by (auto simp: buf_simps)
  have l: "nexts ?s = nexts s" "prevs ?s = prevs s" "hashes ?s = hashes s" "front ?s = front s" "rear ?s = rear s"
    "buf_hash ?s = buf_hash s" "bufs_in_use ?s = bufs_in_use s"
    by (auto simp: buf_simps fold_links)
  have "lru_ok ?s xs = lru_ok s xs" for xs by (rule lru_ok_cong [OF l(1,2,4,5)])
  moreover have "hash_ok {} ?s = hash_ok {} s" by (rule hash_ok_cong [OF l(3,6) f(1)])
  moreover have "counts_ok ?s = counts_ok s" by (simp only: counts_ok_def in_use_def l f(2))
  moreover have "unique_blocks ?s"
    unfolding unique_blocks_def f
  proof (intro allI impI)
    fix i j assume ij: "i < NR_BUFS" "j < NR_BUFS" "b_blocknr (bufs s i) = b_blocknr (bufs s j)"
      "(if i = bp \<and> io_left e h k = 0 then dev else b_dev (bufs s i)) \<noteq> NO_DEV"
      "(if i = bp \<and> io_left e h k = 0 then dev else b_dev (bufs s i)) = (if j = bp \<and> io_left e h k = 0 then dev else b_dev (bufs s j))"
    have u: "b_dev (bufs s i) \<noteq> NO_DEV \<Longrightarrow> b_dev (bufs s i) = b_dev (bufs s j) \<Longrightarrow> i = j"
      using assms(1) ij(1-3) unfolding cache_ok_def unique_blocks_def by blast
    have n: "\<not> (b_blocknr (bufs s x) = b_blocknr (bufs s bp) \<and> b_dev (bufs s x) = dev)" if "x < NR_BUFS" for x
      using bp(3) that by (simp add: cached_None)
    show "i = j" using u n [OF ij(1)] n [OF ij(2)] ij(3-5) by (auto split: if_splits)
  qed
  ultimately have "cache_ok ?s" using assms(1) by (simp add: cache_ok_def)
  then have "cache_ok s'" by (rule put_block_cache_ok [OF _ bp(1) _ put]) (simp add: f bp(2))
  moreover have "prefetched s' dev q"
  proof -
    have g: "b_blocknr (bufs s' i) = b_blocknr (bufs s i)" "b_dev (bufs s' i) = (if i = bp \<and> io_left e h k = 0 then dev else b_dev (bufs s i))"
      "i \<noteq> bp \<Longrightarrow> b_count (bufs s' i) = b_count (bufs s i)" for i
      using put_block_core [OF put] by (simp_all only: f if_False)
    have "i \<in> set q \<Longrightarrow> i \<noteq> bp \<and> b_blocknr (bufs s i) \<noteq> b_blocknr (bufs s bp)" for i
      using assms(2) by (auto simp: prefetched_def image_iff dest: sym)
    then show ?thesis
      using assms(2) unfolding prefetched_def cached_None by (simp add: g(1,2)) (metis g(3))
  qed
  ultimately show ?thesis by simp
qed

lemma harvest_all_read_ok:
  "cache_ok s \<Longrightarrow> prefetched s dev (map snd kbs) \<Longrightarrow> harvest_all e h dev False kbs s = Done s' \<Longrightarrow> cache_ok s'"
proof (induction kbs arbitrary: s)
  case Nil
  then show ?case by simp
next
  case (Cons kb kbs)
  obtain s1 where s1: "harvest e h dev False kb s = Done s1" "harvest_all e h dev False kbs s1 = Done s'"
    using Cons.prems(3) by (auto simp: andthen_Done_iff)
  obtain k bp where kb: "kb = (k, bp)" by (cases kb)
  have "cache_ok s1 \<and> prefetched s1 dev (map snd kbs)"
    using harvest_read_ok [of s dev bp "map snd kbs" e h k s1] Cons.prems(1,2) s1(1) kb by simp
  then show ?case using Cons.IH s1(2) by blast
qed

lemma rw_scattered_read_ok:
  assumes "cache_ok s" and "prefetched s dev q" and "rw_scattered e dev q False s = Done s'"
  shows "cache_ok s'"
proof (cases "q = []")
  case True
  then show ?thesis using assms(1,3) by (simp add: rw_scattered_def)
next
  case False
  let ?q = "shell_sort (\<lambda>i. unat (b_blocknr (bufs s i))) q"
  obtain io r s1 where c: "dev_call e dev io s = Done (r, s1)" and h: "harvest_all e (sent s1) dev False (zip [0..<length ?q] ?q) s1 = Done s'"
    using assms(3) False by (auto simp: rw_scattered_def Let_def andthen_Done_iff split: if_splits)
  have "prefetched s dev ?q" using assms(2) prefetched_perm [OF shell_sort_perm] by blast
  then have "prefetched s1 dev ?q" using dev_call_cache [OF c] by (simp add: prefetched_def cached_def)
  moreover have "map snd (zip [0..<length ?q] ?q) = ?q" by simp
  ultimately show ?thesis
    using harvest_all_read_ok [OF _ _ h] calm_cache_ok [OF calm_dev_call [OF c]] assms(1) by simp
qed

subsection \<open>Steps\<close>

inductive cache_step :: "fs_env \<Rightarrow> fs \<Rightarrow> fs \<Rightarrow> bool" for e where
  acquire: "get_block e dev block srch s = Done (bp, s') \<Longrightarrow> cache_step e s s'"
| release: "bp < NR_BUFS \<Longrightarrow> b_count (bufs s bp) > 0 \<Longrightarrow> put_block e (Some bp) t s = Done s' \<Longrightarrow> cache_step e s s'"
| fill: "cache_step e s (upd_buf bp (\<lambda>b. b\<lparr>b_data := d, b_dirt := v\<rparr>) s)"
| transfer: "rw_block e bp w s = Done s' \<Longrightarrow> cache_step e s s'"
| flush: "flushall e dev s = Done s' \<Longrightarrow> cache_step e s s'"
| invalid: "cache_step e s (invalidate dev s)"
| prefetch: "prefetched s dev q \<Longrightarrow> rw_scattered e dev q False s = Done s' \<Longrightarrow> cache_step e s s'"

inductive cache_life :: "fs_env \<Rightarrow> fs \<Rightarrow> fs \<Rightarrow> bool" for e and s0 where
  pool: "cache_life e s0 (buf_pool s0)"
| step: "cache_life e s0 s \<Longrightarrow> cache_step e s s' \<Longrightarrow> cache_life e s0 s'"

lemma calm_fill: "calm s (upd_buf bp (\<lambda>b. b\<lparr>b_data := d, b_dirt := v\<rparr>) s)"
  by (rule calm_upd_buf) simp

lemma calm_invalidate: "calm s (invalidate dev s)"
proof -
  have "calm s (fold (\<lambda>i s. if b_dev (bufs s i) = dev then upd_buf i (b_dev_update (\<lambda>_. NO_DEV)) s else s) is s')"
    if "calm s s'" for s s' "is" using that by (induction "is" arbitrary: s') auto
  then show ?thesis by (simp add: invalidate_def)
qed

lemma cache_step_ok: "cache_step e s s' \<Longrightarrow> cache_ok s \<Longrightarrow> cache_ok s'"
  by (induction rule: cache_step.induct)
    (auto simp: acquired_def dest: get_block_ok put_block_cache_ok rw_scattered_read_ok
      intro: calm_cache_ok calm_fill calm_invalidate calm_rw_block calm_flushall)

text \<open>
  C17: The invariant of the block cache.  Starting from the cache that \<open>buf_pool\<close> sets up, after any
  sequence of acquiring and releasing blocks, filling them in, reading, writing, flushing,
  invalidating and prefetching, and whatever the drivers answer, the LRU chain links all
  the buffers in both directions, every buffer is on the hash chain of its block number,
  no block is in the cache twice and \<open>bufs_in_use\<close> counts the buffers in use.
\<close>

theorem cache_stays_in_order:
  assumes "blank_cache s0" and "cache_life e s0 s"
  shows "cache_ok s"
  using assms(2)
proof induction
  case pool
  show ?case by (rule buf_pool_ok [OF assms(1)])
next
  case (step s s')
  then show ?case using cache_step_ok by blast
qed

text \<open>Memory as the file system is loaded: all static data is zero.\<close>

definition bss :: fs where
  "bss = \<lparr>bufs = \<lambda>_. \<lparr>b_data = \<lambda>_. 0, b_next = None, b_prev = None, b_hash = None, b_blocknr = 0, b_dev = 0, b_dirt = False, b_count = 0\<rparr>,
     buf_hash = \<lambda>_. None, front = None, rear = None, bufs_in_use = 0,
     inodes = \<lambda>_. \<lparr>i_mode = 0, i_uid = 0, i_size = 0, i_mtime = 0, i_gid = 0, i_nlinks = 0, i_zone = \<lambda>_. 0, i_atime = 0, i_ctime = 0,
       i_dev = 0, i_num = 0, i_count = 0, i_dirt = False, i_pipe = False, i_mount = False, i_seek = False, i_update = 0\<rparr>,
     supers = \<lambda>_. \<lparr>s_ninodes = 0, s_nzones = 0, s_imap_blocks = 0, s_zmap_blocks = 0, s_firstdatazone = 0, s_log_zone_size = 0,
       s_max_size = 0, s_magic = 0, s_imap = \<lambda>_. None, s_zmap = \<lambda>_. None, s_dev = 0, s_isup = None, s_imount = None, s_time = 0,
       s_rd_only = 0, s_dirt = False\<rparr>,
     filps = \<lambda>_. \<lparr>filp_mode = 0, filp_flags = 0, filp_count = 0, filp_ino = None, filp_pos = 0\<rparr>,
     fprocs = \<lambda>_. \<lparr>fp_umask = 0, fp_workdir = None, fp_rootdir = None, fp_filp = \<lambda>_. None, fp_realuid = 0, fp_effuid = 0, fp_realgid = 0,
       fp_effgid = 0, fs_tty = 0, fp_fd = 0, fp_buffer = 0, fp_nbytes = 0, fp_suspended = False, fp_revived = False, fp_task = 0,
       fp_pid = 0, fp_pgrp = 0\<rparr>,
     fp = 0, super_user = False, dont_reply = False, susp_count = 0, reviving = 0, rdahedpos = 0, rdahed_inode = None,
     m_in = \<lambda>_. 0, m_out = \<lambda>_. 0, who = 0, fs_call = 0, user_path = \<lambda>_. 0, err_code = 0, rdwt_err = 0, root_dev = 0,
     boot_dev = 0, ramsize = 0, sent = []\<rparr>"

lemma blank_bss: "blank_cache bss"
  by (simp add: blank_cache_def bss_def)

text \<open>The first block taken from the fresh cache comes without a transfer.\<close>

lemma first_block:
  obtains bp s' where "get_block e NO_DEV block srch (buf_pool bss) = Done (bp, s')"
proof -
  have ok: "cache_ok (buf_pool bss)" by (rule buf_pool_ok [OF blank_bss])
  then obtain xs where xs: "lru_ok (buf_pool bss) xs" "hash_ok {} (buf_pool bss)" "counts_ok (buf_pool bss)" by (auto simp: cache_ok_def)
  have "bufs_in_use (buf_pool bss) \<noteq> int NR_BUFS" by (simp add: buf_pool_eq)
  from take_block_steps [OF xs this] obtain bp s1 where s1: "unhashed bp (buf_pool bss) s1"
    "take_block e NO_DEV block srch (buf_pool bss) = refill e bp NO_DEV block srch s1" by metis
  have "bp < NR_BUFS" "core s1 = core (buf_pool bss)" using s1(1) by (auto simp: unhashed_def)
  then have "b_dev (bufs s1 bp) = NO_DEV" using core_D(3) [of s1 "buf_pool bss" bp] by (simp add: buf_pool_eq)
  then have "get_block e NO_DEV block srch (buf_pool bss) = Done (bp, enter_block bp NO_DEV block srch s1)"
    using s1(2) get_block_eq [OF ok, of e NO_DEV block srch] by (simp add: refill_def Let_def)
  then show ?thesis using that by blast
qed

lemma cache_stays_in_order_witness:
  "\<forall>e. \<exists>bp s'. get_block e NO_DEV 7 NORMAL (buf_pool bss) = Done (bp, s') \<and> cache_ok s'"
proof
  fix e :: fs_env
  obtain bp s' where s': "get_block e NO_DEV 7 NORMAL (buf_pool bss) = Done (bp, s')" by (rule first_block)
  have "cache_life e bss s'" by (rule cache_life.step [OF cache_life.pool cache_step.acquire [OF s']])
  then show "\<exists>bp s'. get_block e NO_DEV 7 NORMAL (buf_pool bss) = Done (bp, s') \<and> cache_ok s'"
    using cache_stays_in_order [OF blank_bss] s' by blast
qed

end
