(* ===== verification/Fs_Disk.thy ===== *)
theory Fs_Disk
  imports Fs_Cache_Run
begin

section \<open>File system: the cache and the disk\<close>

text \<open>
  What the cache promises about the contents of blocks.  The disk is a parameter, a function from
  the messages sent so far to the blocks of each device; \<open>disk_works\<close> says what its drivers are
  relied on for: every request goes through, what was written is what is read later, and
  messages to processes and tasks change nothing.  A block has the contents that its buffer holds, or, when
  it is in no buffer, those on the disk: its \<open>block_view\<close>.  Acquiring a block returns the view,
  and neither acquiring nor releasing one, with all the evictions and delayed writes these bring
  about, changes the view of any block.
\<close>

type_synonym disk = "fs_msg list \<Rightarrow> u16 \<Rightarrow> addr \<Rightarrow> bytes"

definition disk_dev :: "u16 \<Rightarrow> bool" where
  "disk_dev d \<longleftrightarrow> major_of d \<in> {1, 2, 3}"

definition store_all :: "(addr \<times> bytes) list \<Rightarrow> (addr \<Rightarrow> bytes) \<Rightarrow> addr \<Rightarrow> bytes" where
  "store_all v f = fold (\<lambda>(p, b) f. f(p := b)) v f"

fun to_driver :: "fs_msg \<Rightarrow> bool" where
  "to_driver (Dev t m d io) = True"
| "to_driver _ = False"

definition disk_works :: "fs_env \<Rightarrow> disk \<Rightarrow> bool" where
  "disk_works e disk \<longleftrightarrow>
     (\<forall>h. \<forall>(p, st) \<in> set (io_locked e h). 0 \<le> p \<and> p < int NR_USERS) \<and>
     (\<forall>h x. \<not> to_driver x \<longrightarrow> disk (x # h) = disk h) \<and>
     (\<forall>h t m d io. io_send e (Dev t m d io # h) = OK) \<and>
     (\<forall>h t m d p. io_status e (Dev t m d (BlockRead p) # h) = 1024 \<and> io_data e (Dev t m d (BlockRead p) # h) = disk h d p \<and>
       disk (Dev t m d (BlockRead p) # h) = disk h) \<and>
     (\<forall>h t m d p b. io_status e (Dev t m d (BlockWrite p b) # h) = 1024 \<and>
       disk (Dev t m d (BlockWrite p b) # h) = (disk h)(d := (disk h d)(p := b))) \<and>
     (\<forall>h t m d v. io_status e (Dev t m d (VectorWrite v) # h) \<noteq> SUSPEND \<and>
       (\<forall>k<length v. io_left e (Dev t m d (VectorWrite v) # h) k = 0) \<and>
       disk (Dev t m d (VectorWrite v) # h) = (disk h)(d := store_all v (disk h d)))"

lemma disk_works_D:
  assumes "disk_works e disk"
  shows "(p, st) \<in> set (io_locked e h) \<Longrightarrow> 0 \<le> p \<and> p < int NR_USERS"
    and "\<not> to_driver x \<Longrightarrow> disk (x # h) = disk h"
    and "io_send e (Dev t mi d io # h) = OK"
    and "io_status e (Dev t mi d (BlockRead a) # h) = 1024"
    and "io_data e (Dev t mi d (BlockRead a) # h) = disk h d a"
    and "disk (Dev t mi d (BlockRead a) # h) = disk h"
    and "io_status e (Dev t mi d (BlockWrite a b) # h) = 1024"
    and "disk (Dev t mi d (BlockWrite a b) # h) = (disk h)(d := (disk h d)(a := b))"
    and "io_status e (Dev t mi d (VectorWrite v) # h) \<noteq> SUSPEND"
    and "k < length v \<Longrightarrow> io_left e (Dev t mi d (VectorWrite v) # h) k = 0"
    and "disk (Dev t mi d (VectorWrite v) # h) = (disk h)(d := store_all v (disk h d))"
  using assms unfolding disk_works_def by (auto split: prod.splits)

subsection \<open>Requests go through\<close>

lemma revive_works:
  assumes "disk_works e disk" and "0 \<le> p" and "p < int NR_USERS"
  obtains s' where "revive p st s = Done s'" "disk (sent s') = disk (sent s)"
proof -
  have "\<exists>s'. revive p st s = Done s' \<and> disk (sent s') = disk (sent s)"
    using assms(2,3) disk_works_D(2) [OF assms(1)]
    by (auto simp: revive_def Let_def reply_def send_def upd_fproc_def)
  then show ?thesis using that by blast
qed

lemma take_revives_works:
  assumes "disk_works e disk" and "\<And>q m. io \<noteq> Cancel q m"
  shows "(\<forall>(p, st) \<in> set xs. 0 \<le> p \<and> p < int NR_USERS) \<Longrightarrow>
    \<exists>s'. take_revives io xs s = Done (False, s') \<and> disk (sent s') = disk (sent s)"
proof (induction xs arbitrary: s)
  case Nil
  then show ?case by simp
next
  case (Cons x xs)
  obtain p st where x: "x = (p, st)" by (cases x)
  then have "0 \<le> p" "p < int NR_USERS" using Cons.prems by auto
  then obtain s1 where s1: "revive p st s = Done s1" "disk (sent s1) = disk (sent s)"
    by (rule revive_works [OF assms(1)])
  have n: "\<not> (case io of Cancel q _ \<Rightarrow> p = q | _ \<Rightarrow> False)" using assms(2) by (cases io) auto
  obtain s2 where "take_revives io xs s1 = Done (False, s2)" "disk (sent s2) = disk (sent s1)"
    using Cons.IH [of s1] Cons.prems by auto
  then show ?case using s1 n x by (cases io) auto
qed

lemma dev_call_works:
  assumes w: "disk_works e disk" and "disk_dev d" and "\<And>q m. io \<noteq> Cancel q m"
    and ns: "\<And>t m h. io_status e (Dev t m d io # h) \<noteq> SUSPEND"
  obtains t m h s' where "dev_call e d io s = Done (io_status e (Dev t m d io # h), s')" "sent s' = Dev t m d io # h"
    "disk h = disk (sent s)" "driver_frame s s'"
proof -
  obtain t where f: "find_dev d = Done t" "major_of d \<noteq> 0" "\<not> 7 \<le> major_of d" "major_of d \<noteq> 5"
    using assms(2) by (auto simp: disk_dev_def find_dev_def dmap_task_def)
  have "\<forall>(p, st) \<in> set (io_locked e (sent s)). 0 \<le> p \<and> p < int NR_USERS"
    using disk_works_D(1) [OF w] by auto
  then obtain s1 where s1: "take_revives io (io_locked e (sent s)) s = Done (False, s1)" "disk (sent s1) = disk (sent s)"
    using take_revives_works [OF w assms(3)] by blast
  let ?m = "Dev t (minor_of d) d io" and ?s = "send (Dev t (minor_of d) d io) s1"
  have c: "dev_call e d io s = Done (io_status e (?m # sent s1), ?s)"
    using f s1 disk_works_D(3) [OF w] ns
    by (simp add: dev_call_def dmap_rw_def rw_dev_def Let_def send_def)
  have "sent ?s = ?m # sent s1" by (simp add: send_def)
  then show ?thesis using that [OF c _ s1(2) dev_call_frame [OF c]] by blast
qed

lemma driver_frame_cache:
  assumes "driver_frame s s'"
  shows "bufs s' = bufs s" "buf_hash s' = buf_hash s" "front s' = front s" "rear s' = rear s" "bufs_in_use s' = bufs_in_use s"
  using assms by (simp_all add: driver_frame_def cache_part_iff)

subsection \<open>Flushing\<close>

lemma store_all_apply:
  "distinct (map fst v) \<Longrightarrow> store_all v f p = (case map_of v p of Some b \<Rightarrow> b | None \<Rightarrow> f p)"
proof (induction v arbitrary: f)
  case Nil
  then show ?case by (simp add: store_all_def)
next
  case (Cons x v)
  obtain q b where x: "x = (q, b)" by (cases x)
  have "store_all (x # v) f p = store_all v (f(q := b)) p" by (simp add: store_all_def x)
  also have "\<dots> = (case map_of v p of Some b \<Rightarrow> b | None \<Rightarrow> (f(q := b)) p)" using Cons by simp
  also have "\<dots> = (case map_of (x # v) p of Some b \<Rightarrow> b | None \<Rightarrow> f p)"
  proof (cases "p = q")
    case True
    then have "map_of v p = None" using Cons.prems x by (simp add: map_of_eq_None_iff)
    then show ?thesis using True x by simp
  next
    case False
    then show ?thesis using x by (simp split: option.splits)
  qed
  finally show ?case .
qed

lemma block_pos_inj [simp]: "block_pos a = block_pos b \<longleftrightarrow> a = b"
proof
  assume e: "block_pos a = block_pos b"
  have "uint (block_pos x) = uint x * 1024" for x :: u16
    using uint_lt2p [of x] by (simp add: block_pos_def uint_word_ariths uint_up_ucast is_up)
  from this [of a] this [of b] e show "a = b" by (metis mult_cancel_right word_uint_eq_iff zero_neq_numeral)
qed simp

lemma harvest_all_clean:
  "(\<forall>(k, b) \<in> set kbs. io_left e h k = 0) \<Longrightarrow>
    harvest_all e h d True kbs s =
      Done (s\<lparr>bufs := \<lambda>i. if i \<in> snd ` set kbs then (bufs s i)\<lparr>b_dirt := CLEAN\<rparr> else bufs s i\<rparr>)"
proof (induction kbs arbitrary: s)
  case Nil
  then show ?case by simp
next
  case (Cons kb kbs)
  obtain k b where kb: "kb = (k, b)" by (cases kb)
  let ?s = "upd_buf b (b_dirt_update (\<lambda>_. CLEAN)) s"
  have "harvest e h d True kb s = Done ?s" using Cons.prems kb by (simp add: harvest_def)
  moreover have "harvest_all e h d True kbs ?s =
      Done (?s\<lparr>bufs := \<lambda>i. if i \<in> snd ` set kbs then (bufs ?s i)\<lparr>b_dirt := CLEAN\<rparr> else bufs ?s i\<rparr>)"
    using Cons by auto
  ultimately show ?case by (auto simp: kb upd_buf_def fun_eq_iff intro!: arg_cong2 [of _ _ _ _ "\<lambda>b s. s\<lparr>bufs := b\<rparr>"])
qed

text \<open>The dirty buffers of a device, and the state once they are written.\<close>

definition dirty_on :: "fs \<Rightarrow> u16 \<Rightarrow> nat \<Rightarrow> bool" where
  "dirty_on s d i \<longleftrightarrow> i < NR_BUFS \<and> b_dirt (bufs s i) \<and> b_dev (bufs s i) = d"

definition flushed :: "disk \<Rightarrow> u16 \<Rightarrow> fs \<Rightarrow> fs \<Rightarrow> bool" where
  "flushed disk d s s' \<longleftrightarrow>
     bufs s' = (\<lambda>i. if dirty_on s d i then (bufs s i)\<lparr>b_dirt := CLEAN\<rparr> else bufs s i) \<and>
     (\<forall>i. dirty_on s d i \<longrightarrow> disk (sent s') d (block_pos (b_blocknr (bufs s i))) = b_data (bufs s i)) \<and>
     (\<forall>d' b. (\<nexists>i. dirty_on s d i \<and> d' = d \<and> b = b_blocknr (bufs s i)) \<longrightarrow>
        disk (sent s') d' (block_pos b) = disk (sent s) d' (block_pos b))"

lemma rw_scattered_works:
  assumes w: "disk_works e disk" and "disk_dev d" and "distinct q" and "length q \<le> NR_BUFS"
    and inj: "inj_on (\<lambda>i. b_blocknr (bufs s i)) (set q)"
  obtains s' where "rw_scattered e d q True s = Done s'"
    "bufs s' = (\<lambda>i. if i \<in> set q then (bufs s i)\<lparr>b_dirt := CLEAN\<rparr> else bufs s i)"
    "\<And>i. i \<in> set q \<Longrightarrow> disk (sent s') d (block_pos (b_blocknr (bufs s i))) = b_data (bufs s i)"
    "\<And>d' b. \<nexists>i. i \<in> set q \<and> d' = d \<and> b = b_blocknr (bufs s i) \<Longrightarrow>
        disk (sent s') d' (block_pos b) = disk (sent s) d' (block_pos b)"
proof (cases "q = []")
  case True
  then show ?thesis using that [of s] by (simp add: rw_scattered_def)
next
  case False
  define q' where "q' = shell_sort (\<lambda>i. unat (b_blocknr (bufs s i))) q"
  have q: "set q' = set q" "distinct q'" using assms(3) by (simp_all add: q'_def)
  define v where "v = map (\<lambda>i. (block_pos (b_blocknr (bufs s i)), b_data (bufs s i))) q'"
  obtain t m h s1 where c: "dev_call e d (VectorWrite v) s = Done (io_status e (Dev t m d (VectorWrite v) # h), s1)"
    and h: "sent s1 = Dev t m d (VectorWrite v) # h" "disk h = disk (sent s)" and fr: "driver_frame s s1"
    by (rule dev_call_works [OF w assms(2), of "VectorWrite v" s]) (use disk_works_D(9) [OF w] in auto)
  define kbs where "kbs = zip [0..<length q'] q'"
  have left: "\<forall>(k, b) \<in> set kbs. io_left e (sent s1) k = 0"
    using disk_works_D(10) [OF w, of _ v t m d h] h(1) by (auto simp: kbs_def v_def set_zip)
  have "map snd kbs = q'" by (simp add: kbs_def)
  then have snd: "snd ` set kbs = set q" using q(1) by (metis set_map)
  define s2 where "s2 = s1\<lparr>bufs := \<lambda>i. if i \<in> set q then (bufs s1 i)\<lparr>b_dirt := CLEAN\<rparr> else bufs s1 i\<rparr>"
  have f: "rw_scattered e d q True s = Done s2"
    using False assms(4) c harvest_all_clean [OF left, of d s1]
    by (simp add: rw_scattered_def Let_def q'_def [symmetric] v_def [symmetric] kbs_def [symmetric] s2_def snd)
  have dv: "distinct (map fst v)" using q inj by (simp add: v_def distinct_map comp_def inj_on_def)
  have disk: "disk (sent s1) d' p = (if d' = d then (case map_of v p of Some b \<Rightarrow> b | None \<Rightarrow> disk (sent s) d p) else disk (sent s) d' p)" for d' p
    using disk_works_D(11) [OF w, of t m d v h] h store_all_apply [OF dv] by simp
  have 1: "disk (sent s1) d (block_pos (b_blocknr (bufs s i))) = b_data (bufs s i)" if "i \<in> set q" for i
  proof -
    have "(block_pos (b_blocknr (bufs s i)), b_data (bufs s i)) \<in> set v" using that q(1) by (auto simp: v_def)
    then show ?thesis using disk [of d] dv by simp
  qed
  have 2: "disk (sent s1) d' (block_pos b) = disk (sent s) d' (block_pos b)"
    if "\<nexists>i. i \<in> set q \<and> d' = d \<and> b = b_blocknr (bufs s i)" for d' b
  proof (cases "d' = d")
    case True
    then have "map_of v (block_pos b) = None" using that q(1) by (auto simp: map_of_eq_None_iff v_def)
    then show ?thesis using disk [of d'] True by simp
  qed (use disk [of d'] in simp)
  have "sent s2 = sent s1" "bufs s2 = (\<lambda>i. if i \<in> set q then (bufs s i)\<lparr>b_dirt := CLEAN\<rparr> else bufs s i)"
    using driver_frame_cache(1) [OF fr] by (simp_all add: s2_def cong: if_cong)
  then show ?thesis using that [OF f] 1 2 by metis
qed

lemma flushall_works:
  assumes w: "disk_works e disk" and "unique_blocks s" and "disk_dev d" and "d \<noteq> NO_DEV"
  obtains s' where "flushall e d s = Done s'" "flushed disk d s s'"
proof -
  define q where "q = filter (\<lambda>i. b_dirt (bufs s i) \<and> b_dev (bufs s i) = d) [0..<NR_BUFS]"
  have q: "i \<in> set q \<longleftrightarrow> dirty_on s d i" "distinct q" for i by (auto simp: q_def dirty_on_def simp del: upt_rec_numeral)
  have "length q \<le> NR_BUFS"
    using length_filter_le [of "\<lambda>i. b_dirt (bufs s i) \<and> b_dev (bufs s i) = d" "[0..<NR_BUFS]"] by (simp add: q_def del: upt_rec_numeral)
  moreover have "inj_on (\<lambda>i. b_blocknr (bufs s i)) (set q)"
    using assms(2,4) q(1) by (intro inj_onI) (auto simp: dirty_on_def unique_blocks_def)
  ultimately obtain s' where s': "rw_scattered e d q True s = Done s'"
    "bufs s' = (\<lambda>i. if i \<in> set q then (bufs s i)\<lparr>b_dirt := CLEAN\<rparr> else bufs s i)"
    "\<And>i. i \<in> set q \<Longrightarrow> disk (sent s') d (block_pos (b_blocknr (bufs s i))) = b_data (bufs s i)"
    "\<And>d' b. \<nexists>i. i \<in> set q \<and> d' = d \<and> b = b_blocknr (bufs s i) \<Longrightarrow>
        disk (sent s') d' (block_pos b) = disk (sent s) d' (block_pos b)"
    using rw_scattered_works [OF w assms(3) q(2)] by blast
  then have "flushed disk d s s'" unfolding flushed_def q by blast
  then show ?thesis using that s'(1) by (simp add: flushall_def q_def [symmetric] del: upt_rec_numeral)
qed

subsection \<open>The view of a block\<close>

definition block_view :: "disk \<Rightarrow> fs \<Rightarrow> u16 \<Rightarrow> u16 \<Rightarrow> bytes" where
  "block_view disk s dev block =
     (case cached s dev block of Some i \<Rightarrow> b_data (bufs s i) | None \<Rightarrow> disk (sent s) dev (block_pos block))"

text \<open>Buffers belong to disks, and a clean buffer holds what is on the disk.\<close>

definition clean_ok :: "disk \<Rightarrow> fs \<Rightarrow> bool" where
  "clean_ok disk s \<longleftrightarrow> (\<forall>i<NR_BUFS. b_dev (bufs s i) \<noteq> NO_DEV \<longrightarrow> disk_dev (b_dev (bufs s i)) \<and>
     (\<not> b_dirt (bufs s i) \<longrightarrow> b_data (bufs s i) = disk (sent s) (b_dev (bufs s i)) (block_pos (b_blocknr (bufs s i)))))"

definition coherent :: "disk \<Rightarrow> fs \<Rightarrow> bool" where
  "coherent disk s \<longleftrightarrow> cache_ok s \<and> clean_ok disk s"

lemma view_hit:
  "unique_blocks s \<Longrightarrow> d \<noteq> NO_DEV \<Longrightarrow> i < NR_BUFS \<Longrightarrow> b_blocknr (bufs s i) = b \<Longrightarrow> b_dev (bufs s i) = d \<Longrightarrow>
    block_view disk s d b = b_data (bufs s i)"
  by (simp add: block_view_def cached_eqI)

lemma view_miss:
  "(\<And>i. i < NR_BUFS \<Longrightarrow> \<not> (b_blocknr (bufs s i) = b \<and> b_dev (bufs s i) = d)) \<Longrightarrow>
    block_view disk s d b = disk (sent s) d (block_pos b)"
  using cached_None [of s d b] by (simp add: block_view_def)

definition same_view :: "disk \<Rightarrow> fs \<Rightarrow> fs \<Rightarrow> bool" where
  "same_view disk s s' \<longleftrightarrow> (\<forall>d b. d \<noteq> NO_DEV \<longrightarrow> block_view disk s' d b = block_view disk s d b)"

lemma same_view_trans: "same_view disk s s' \<Longrightarrow> same_view disk s' s'' \<Longrightarrow> same_view disk s s''"
  by (simp add: same_view_def)

text \<open>The view depends on device, block number and contents of the buffers only.\<close>

lemma view_cong:
  assumes "\<And>i. b_blocknr (bufs s' i) = b_blocknr (bufs s i) \<and> b_dev (bufs s' i) = b_dev (bufs s i) \<and> b_data (bufs s' i) = b_data (bufs s i)"
    and "disk (sent s') = disk (sent s)"
  shows "block_view disk s' = block_view disk s"
proof -
  have "cached s' = cached s" using assms(1) by (simp add: cached_def [abs_def])
  then show ?thesis using assms by (simp add: block_view_def [abs_def] cong: option.case_cong)
qed

lemma flush_view:
  assumes "flushed disk d s s'" and "clean_ok disk s" and "unique_blocks s" and "d \<noteq> NO_DEV"
  shows "same_view disk s s'" and "clean_ok disk s'"
proof -
  have b: "b_blocknr (bufs s' i) = b_blocknr (bufs s i)" "b_dev (bufs s' i) = b_dev (bufs s i)" "b_data (bufs s' i) = b_data (bufs s i)"
    "b_dirt (bufs s' i) \<longleftrightarrow> b_dirt (bufs s i) \<and> \<not> dirty_on s d i" for i
    using assms(1) by (auto simp: flushed_def)
  have miss: "disk (sent s') d' (block_pos b) = disk (sent s) d' (block_pos b)"
    if "\<nexists>i. dirty_on s d i \<and> d' = d \<and> b = b_blocknr (bufs s i)" for d' b using assms(1) that by (simp add: flushed_def)
  have hit: "disk (sent s') d (block_pos (b_blocknr (bufs s i))) = b_data (bufs s i)" if "dirty_on s d i" for i
    using assms(1) that by (simp add: flushed_def)
  have c: "cached s' = cached s" by (simp add: cached_def fun_eq_iff b)
  show "same_view disk s s'"
    unfolding same_view_def
  proof (intro allI impI)
    fix d' bl assume "d' \<noteq> NO_DEV"
    show "block_view disk s' d' bl = block_view disk s d' bl"
    proof (cases "cached s d' bl")
      case None
      then have "\<nexists>i. dirty_on s d i \<and> d' = d \<and> bl = b_blocknr (bufs s i)" by (auto simp: cached_None dirty_on_def)
      then show ?thesis using miss None c by (simp add: block_view_def)
    next
      case (Some i)
      then show ?thesis using c b by (simp add: block_view_def)
    qed
  qed
  show "clean_ok disk s'"
    unfolding clean_ok_def b
  proof (intro allI impI conjI)
    fix i assume i: "i < NR_BUFS" "b_dev (bufs s i) \<noteq> NO_DEV"
    then show "disk_dev (b_dev (bufs s i))" using assms(2) by (simp add: clean_ok_def)
    assume n: "\<not> (b_dirt (bufs s i) \<and> \<not> dirty_on s d i)"
    show "b_data (bufs s i) = disk (sent s') (b_dev (bufs s i)) (block_pos (b_blocknr (bufs s i)))"
    proof (cases "dirty_on s d i")
      case True
      then show ?thesis using hit by (simp add: dirty_on_def)
    next
      case False
      have "\<nexists>j. dirty_on s d j \<and> b_dev (bufs s i) = d \<and> b_blocknr (bufs s i) = b_blocknr (bufs s j)"
        using assms(3,4) False i(1) unfolding unique_blocks_def dirty_on_def by metis
      then show ?thesis using miss [of "b_dev (bufs s i)" "b_blocknr (bufs s i)"] n False assms(2) i
        by (auto simp: clean_ok_def)
    qed
  qed
qed

subsection \<open>Single transfers\<close>

lemma rw_block_read:
  assumes w: "disk_works e disk" and d: "disk_dev (b_dev (bufs s bp))" "b_dev (bufs s bp) \<noteq> NO_DEV"
  obtains s' where "rw_block e bp False s = Done s'" "disk (sent s') = disk (sent s)"
    "bufs s' = (bufs s)(bp := (bufs s bp)\<lparr>b_data := disk (sent s) (b_dev (bufs s bp)) (block_pos (b_blocknr (bufs s bp))), b_dirt := CLEAN\<rparr>)"
proof -
  let ?d = "b_dev (bufs s bp)" and ?p = "block_pos (b_blocknr (bufs s bp))"
  obtain t m h s1 where c: "dev_call e ?d (BlockRead ?p) s = Done (io_status e (Dev t m ?d (BlockRead ?p) # h), s1)"
    and h: "sent s1 = Dev t m ?d (BlockRead ?p) # h" "disk h = disk (sent s)" and fr: "driver_frame s s1"
    by (rule dev_call_works [OF w d(1), of "BlockRead ?p" s]) (use disk_works_D(4) [OF w] in auto)
  have "io_data e (sent s1) = disk (sent s) ?d ?p" "disk (sent s1) = disk (sent s)" "io_status e (sent s1) = 1024"
    using disk_works_D(4,5,6) [OF w, of t m ?d ?p h] h by simp_all
  then show ?thesis
    using that c d(2) h(1) driver_frame_cache(1) [OF fr] by (simp add: rw_block_def Let_def buf_simps)
qed

lemma rw_block_write:
  assumes w: "disk_works e disk" and d: "disk_dev (b_dev (bufs s bp))" "b_dev (bufs s bp) \<noteq> NO_DEV"
  obtains s' where "rw_block e bp True s = Done s'" "bufs s' = (bufs s)(bp := (bufs s bp)\<lparr>b_dirt := CLEAN\<rparr>)"
    "disk (sent s') = (disk (sent s))(b_dev (bufs s bp) :=
       (disk (sent s) (b_dev (bufs s bp)))(block_pos (b_blocknr (bufs s bp)) := b_data (bufs s bp)))"
proof -
  let ?d = "b_dev (bufs s bp)" and ?p = "block_pos (b_blocknr (bufs s bp))" and ?b = "b_data (bufs s bp)"
  obtain t m h s1 where c: "dev_call e ?d (BlockWrite ?p ?b) s = Done (io_status e (Dev t m ?d (BlockWrite ?p ?b) # h), s1)"
    and h: "sent s1 = Dev t m ?d (BlockWrite ?p ?b) # h" "disk h = disk (sent s)" and fr: "driver_frame s s1"
    by (rule dev_call_works [OF w d(1), of "BlockWrite ?p ?b" s]) (use disk_works_D(7) [OF w] in auto)
  have "disk (sent s1) = (disk (sent s))(?d := (disk (sent s) ?d)(?p := ?b))" "io_status e (sent s1) = 1024"
    using disk_works_D(7,8) [OF w, of t m ?d ?p ?b h] h by simp_all
  then show ?thesis
    using that c d(2) h(1) driver_frame_cache(1) [OF fr] by (simp add: rw_block_def Let_def buf_simps)
qed

subsection \<open>Evicting and reading\<close>

lemma refill_works:
  assumes w: "disk_works e disk" and u: "unique_blocks s" and ok: "clean_ok disk s" and d: "disk_dev dev" "dev \<noteq> NO_DEV"
    and bp: "bp < NR_BUFS" and n: "cached s dev block = None"
  obtains s' where "refill e bp dev block NORMAL s = Done (bp, s')" "clean_ok disk s'" "b_data (bufs s' bp) = block_view disk s dev block"
    "unique_blocks s' \<Longrightarrow> same_view disk s s'"
    "b_dev (bufs s' bp) = dev" "b_blocknr (bufs s' bp) = block"
proof -
  obtain s2 where s2: "(if b_dev (bufs s bp) \<noteq> NO_DEV \<and> b_dirt (bufs s bp) then flushall e (b_dev (bufs s bp)) s else Done s) = Done s2"
    and v: "same_view disk s s2" "clean_ok disk s2" and cl: "b_dev (bufs s2 bp) = NO_DEV \<or> \<not> b_dirt (bufs s2 bp)"
    and c2: "cached s2 dev block = None" and u2: "unique_blocks s2"
  proof (cases "b_dev (bufs s bp) \<noteq> NO_DEV \<and> b_dirt (bufs s bp)")
    case True
    then have "disk_dev (b_dev (bufs s bp))" using ok bp by (simp add: clean_ok_def)
    then obtain s2 where s2: "flushall e (b_dev (bufs s bp)) s = Done s2" and f: "flushed disk (b_dev (bufs s bp)) s s2"
      using flushall_works [OF w u] True by metis
    have q: "b_blocknr (bufs s2 i) = b_blocknr (bufs s i)" "b_dev (bufs s2 i) = b_dev (bufs s i)" for i
      using f by (auto simp: flushed_def)
    have "\<not> b_dirt (bufs s2 bp)" using f True bp by (simp add: flushed_def dirty_on_def)
    moreover have "cached s2 dev block = None" using n by (simp add: cached_None q)
    moreover have "unique_blocks s2" using u by (simp add: unique_blocks_def q)
    ultimately show ?thesis using that [of s2] flush_view [OF f ok u] True s2 by simp
  next
    case False
    then show ?thesis using that [of s] ok n u by (auto simp: same_view_def)
  qed
  let ?s3 = "enter_block bp dev block NORMAL s2"
  have b3: "bufs ?s3 = (bufs s2)(bp := (bufs s2 bp)\<lparr>b_dev := dev, b_blocknr := block, b_count := b_count (bufs s2 bp) + 1,
      b_hash := buf_hash s2 (hash_of block)\<rparr>)" by (simp add: buf_simps)
  obtain s' where s': "rw_block e bp False ?s3 = Done s'" "disk (sent s') = disk (sent s2)"
    "bufs s' = (bufs ?s3)(bp := (bufs ?s3 bp)\<lparr>b_data := disk (sent s2) dev (block_pos block), b_dirt := CLEAN\<rparr>)"
    by (rule rw_block_read [OF w, of ?s3 bp]) (use d in \<open>simp_all add: b3 enter_block_fields(6)\<close>)
  have bp': "b_dev (bufs s' bp) = dev" "b_blocknr (bufs s' bp) = block" "b_data (bufs s' bp) = disk (sent s2) dev (block_pos block)"
    "\<not> b_dirt (bufs s' bp)" by (simp_all add: s'(3) b3)
  have other: "i \<noteq> bp \<Longrightarrow> bufs s' i = bufs s2 i" for i by (simp add: s'(3) b3)
  have r: "refill e bp dev block NORMAL s = Done (bp, s')"
    using s2 s'(1) d(2) by (simp add: refill_def Let_def)
  have k: "clean_ok disk s'"
    unfolding clean_ok_def
  proof (intro allI impI)
    fix i assume i: "i < NR_BUFS" "b_dev (bufs s' i) \<noteq> NO_DEV"
    show "disk_dev (b_dev (bufs s' i)) \<and> (\<not> b_dirt (bufs s' i) \<longrightarrow>
        b_data (bufs s' i) = disk (sent s') (b_dev (bufs s' i)) (block_pos (b_blocknr (bufs s' i))))"
      using v(2) i bp' other [of i] d(1) s'(2) by (cases "i = bp") (simp_all add: clean_ok_def)
  qed
  have a: "b_data (bufs s' bp) = block_view disk s dev block"
    using bp'(3) v(1) c2 d(2) unfolding same_view_def by (metis block_view_def option.case(1))
  have "same_view disk s s'" if u': "unique_blocks s'"
    unfolding same_view_def
  proof (intro allI impI)
    fix d' b' assume d': "d' \<noteq> NO_DEV"
    have "block_view disk s' d' b' = block_view disk s2 d' b'"
    proof (cases "d' = dev \<and> b' = block")
      case True
      then show ?thesis using view_hit [OF u' d' bp] bp' c2 by (simp add: block_view_def)
    next
      case False
      show ?thesis
      proof (cases "\<exists>i<NR_BUFS. i \<noteq> bp \<and> b_blocknr (bufs s2 i) = b' \<and> b_dev (bufs s2 i) = d'")
        case True
        then obtain i where i: "i < NR_BUFS" "i \<noteq> bp" "b_blocknr (bufs s2 i) = b'" "b_dev (bufs s2 i) = d'" by blast
        then show ?thesis using view_hit [OF u' d' i(1)] view_hit [OF u2 d' i(1)] other [OF i(2)] by simp
      next
        case none: False
        have m: "block_view disk s' d' b' = disk (sent s2) d' (block_pos b')"
        proof -
          have "\<not> (b_blocknr (bufs s' i) = b' \<and> b_dev (bufs s' i) = d')" if "i < NR_BUFS" for i
            using none False bp'(1,2) other [of i] that by (cases "i = bp") auto
          then show ?thesis using view_miss [of s' b' d' disk] s'(2) by simp
        qed
        show ?thesis
        proof (cases "b_blocknr (bufs s2 bp) = b' \<and> b_dev (bufs s2 bp) = d'")
          case True
          then show ?thesis using m view_hit [OF u2 d' bp] cl v(2) bp d' by (auto simp: clean_ok_def)
        next
          case False
          have "block_view disk s2 d' b' = disk (sent s2) d' (block_pos b')"
            by (rule view_miss) (use none False in auto)
          then show ?thesis using m by simp
        qed
      qed
    qed
    then show "block_view disk s' d' b' = block_view disk s d' b'" using v(1) d' by (simp add: same_view_def)
  qed
  then show ?thesis using that [OF r k a] bp'(1,2) by blast
qed

text \<open>Acquiring a block for reading.\<close>

lemma get_block_coherent:
  assumes w: "disk_works e disk" and ok: "coherent disk s" and d: "disk_dev dev" "dev \<noteq> NO_DEV"
    and room: "bufs_in_use s < int NR_BUFS \<or> cached s dev block \<noteq> None"
  obtains bp s' where "get_block e dev block NORMAL s = Done (bp, s')" "b_data (bufs s' bp) = block_view disk s dev block"
    "same_view disk s s'" "coherent disk s'" "b_dev (bufs s' bp) = dev" "b_blocknr (bufs s' bp) = block"
proof (cases "cached s dev block")
  case (Some bp)
  let ?s = "upd_buf bp (\<lambda>b. b\<lparr>b_count := b_count b + 1\<rparr>)
        (if b_count (bufs s bp) = 0 then s\<lparr>bufs_in_use := bufs_in_use s + 1\<rparr> else s)"
  have c: "cache_ok s" using ok by (simp add: coherent_def)
  have g: "get_block e dev block NORMAL s = Done (bp, ?s)" using get_block_eq [OF c] Some d(2) by simp
  have b: "b_blocknr (bufs ?s i) = b_blocknr (bufs s i)" "b_dev (bufs ?s i) = b_dev (bufs s i)" "b_data (bufs ?s i) = b_data (bufs s i)"
    "b_dirt (bufs ?s i) = b_dirt (bufs s i)" "sent ?s = sent s" for i by (auto simp: buf_simps)
  have "block_view disk ?s = block_view disk s" by (rule view_cong) (simp_all only: b)
  then have "same_view disk s ?s" by (simp add: same_view_def)
  moreover have "coherent disk ?s"
    using get_block_ok [OF c g] ok unfolding coherent_def clean_ok_def acquired_def b by blast
  moreover have "b_data (bufs ?s bp) = block_view disk s dev block"
    using Some b(3) [of bp] by (simp add: block_view_def)
  moreover have "b_dev (bufs ?s bp) = dev" "b_blocknr (bufs ?s bp) = block" using cached_Some [OF Some] b by simp_all
  ultimately show ?thesis using that [OF g] by blast
next
  case None
  have c: "cache_ok s" and k: "clean_ok disk s" using ok by (simp_all add: coherent_def)
  then obtain xs where xs: "lru_ok s xs" "hash_ok {} s" "counts_ok s" "unique_blocks s" by (auto simp: cache_ok_def)
  have "bufs_in_use s \<noteq> int NR_BUFS" using room None by simp
  then obtain bp s1 where s1: "unhashed bp s s1" and t: "take_block e dev block NORMAL s = refill e bp dev block NORMAL s1"
    using take_block_steps [OF xs(1-3)] by metis
  have core: "core s1 = core s" and bp: "bp < NR_BUFS" and se: "sent s1 = sent s" using s1 by (auto simp: unhashed_def)
  note cd = core_D [OF core]
  have "unique_blocks s1" using core_cong_ok(1) [OF core] xs(4) by simp
  moreover have "clean_ok disk s1" using k by (simp add: clean_ok_def cd se)
  moreover have "cached s1 dev block = None" using None by (simp add: cached_None cd)
  ultimately obtain s' where s': "refill e bp dev block NORMAL s1 = Done (bp, s')" "clean_ok disk s'"
    "b_data (bufs s' bp) = block_view disk s1 dev block" "unique_blocks s' \<Longrightarrow> same_view disk s1 s'"
    "b_dev (bufs s' bp) = dev" "b_blocknr (bufs s' bp) = block"
    using refill_works [OF w _ _ d bp] by blast
  have g: "get_block e dev block NORMAL s = Done (bp, s')" using get_block_eq [OF c, of e dev block NORMAL] None t s'(1) d(2) by simp
  have v: "block_view disk s1 = block_view disk s" by (rule view_cong) (simp_all add: cd se)
  have a: "cache_ok s'" using get_block_ok [OF c g] by (simp add: acquired_def)
  then have "same_view disk s s'" using s'(4) v by (simp add: cache_ok_def same_view_def)
  then show ?thesis using that [OF g] s'(2,3,5,6) v a by (simp add: coherent_def)
qed

subsection \<open>Releasing a block\<close>

lemma same_blocks_cached:
  "(\<And>i. b_blocknr (bufs s' i) = b_blocknr (bufs s i) \<and> b_dev (bufs s' i) = b_dev (bufs s i)) \<Longrightarrow> cached s' = cached s"
  by (simp add: cached_def [abs_def])

text \<open>Writing a block back changes its place on the disk, where its buffer hides it.\<close>

lemma write_back:
  assumes w: "disk_works e disk" and k: "clean_ok disk s" and u: "unique_blocks s"
    and bp: "bp < NR_BUFS" "b_dev (bufs s bp) \<noteq> NO_DEV"
  obtains s' where "rw_block e bp True s = Done s'" "same_view disk s s'" "clean_ok disk s'"
    "\<And>i. b_blocknr (bufs s' i) = b_blocknr (bufs s i) \<and> b_dev (bufs s' i) = b_dev (bufs s i) \<and> b_data (bufs s' i) = b_data (bufs s i)"
    "\<not> b_dirt (bufs s' bp)"
proof -
  let ?d = "b_dev (bufs s bp)" and ?b = "b_blocknr (bufs s bp)"
  have dd: "disk_dev ?d" using k bp by (simp add: clean_ok_def)
  obtain s1 where s1: "rw_block e bp True s = Done s1" "bufs s1 = (bufs s)(bp := (bufs s bp)\<lparr>b_dirt := CLEAN\<rparr>)"
    "disk (sent s1) = (disk (sent s))(?d := (disk (sent s) ?d)(block_pos ?b := b_data (bufs s bp)))"
    using rw_block_write [OF w dd bp(2)] .
  have b1: "b_blocknr (bufs s1 i) = b_blocknr (bufs s i) \<and> b_dev (bufs s1 i) = b_dev (bufs s i) \<and> b_data (bufs s1 i) = b_data (bufs s i)" for i
    by (simp add: s1(2))
  have cb: "cached s1 = cached s" using b1 by (intro same_blocks_cached) simp
  have "block_view disk s1 d' b' = block_view disk s d' b'" for d' b'
  proof (cases "cached s d' b'")
    case None
    then have "\<not> (d' = ?d \<and> b' = ?b)" using bp(1) by (auto simp: cached_None)
    then show ?thesis using None cb s1(3) by (auto simp: block_view_def)
  next
    case (Some i)
    then show ?thesis using cb b1 by (simp add: block_view_def)
  qed
  then have v: "same_view disk s s1" by (simp add: same_view_def)
  have "clean_ok disk s1"
    unfolding clean_ok_def
  proof (intro allI impI)
    fix i assume i: "i < NR_BUFS" "b_dev (bufs s1 i) \<noteq> NO_DEV"
    have "b_dirt (bufs s1 i) \<longleftrightarrow> i \<noteq> bp \<and> b_dirt (bufs s i)" by (simp add: s1(2))
    moreover have "b_dev (bufs s i) = ?d \<Longrightarrow> b_blocknr (bufs s i) = ?b \<Longrightarrow> i = bp"
      using u i bp(1) b1 unfolding unique_blocks_def by metis
    ultimately show "disk_dev (b_dev (bufs s1 i)) \<and> (\<not> b_dirt (bufs s1 i) \<longrightarrow>
        b_data (bufs s1 i) = disk (sent s1) (b_dev (bufs s1 i)) (block_pos (b_blocknr (bufs s1 i))))"
      using k i b1 [of i] s1(3) by (auto simp: clean_ok_def)
  qed
  moreover have "\<not> b_dirt (bufs s1 bp)" by (simp add: s1(2))
  ultimately show ?thesis using that [OF s1(1) v _ b1] by blast
qed

text \<open>Forgetting a block that is on the disk as it is in the buffer.\<close>

lemma drop_block:
  fixes bp :: nat and s :: fs
  defines "s' \<equiv> upd_buf bp (b_dev_update (\<lambda>_. NO_DEV)) s"
  assumes u: "unique_blocks s" and k: "clean_ok disk s" and bp: "bp < NR_BUFS"
    and cl: "b_dev (bufs s bp) \<noteq> NO_DEV \<Longrightarrow> \<not> b_dirt (bufs s bp)"
  shows "same_view disk s s'" and "clean_ok disk s'"
proof -
  have u2: "unique_blocks s'" unfolding s'_def by (rule calm_unique [OF _ u]) (rule calm_updates(1) [OF calm_refl])
  have b: "bufs s' = (bufs s)(bp := (bufs s bp)\<lparr>b_dev := NO_DEV\<rparr>)" "sent s' = sent s" by (simp_all add: s'_def buf_simps)
  have "block_view disk s' d' b' = block_view disk s d' b'" if d': "d' \<noteq> NO_DEV" for d' b'
  proof (cases "\<exists>i<NR_BUFS. i \<noteq> bp \<and> b_blocknr (bufs s i) = b' \<and> b_dev (bufs s i) = d'")
    case True
    then obtain i where i: "i < NR_BUFS" "i \<noteq> bp" "b_blocknr (bufs s i) = b'" "b_dev (bufs s i) = d'" by blast
    then show ?thesis using view_hit [OF u d' i(1)] view_hit [OF u2 d' i(1)] by (simp add: b)
  next
    case False
    have m: "block_view disk s' d' b' = disk (sent s) d' (block_pos b')"
      by (subst view_miss) (use False d' in \<open>auto simp: b split: if_splits\<close>)
    show ?thesis
    proof (cases "b_blocknr (bufs s bp) = b' \<and> b_dev (bufs s bp) = d'")
      case True
      then show ?thesis using m view_hit [OF u d' bp] cl k bp d' by (auto simp: clean_ok_def)
    next
      case no: False
      have "block_view disk s d' b' = disk (sent s) d' (block_pos b')"
        by (rule view_miss) (use False no in auto)
      then show ?thesis using m by simp
    qed
  qed
  then show "same_view disk s s'" by (simp add: same_view_def)
  show "clean_ok disk s'" using k by (auto simp: clean_ok_def b)
qed

text \<open>Counting and moving a buffer.\<close>

lemma parked_view:
  assumes k: "clean_ok disk s" and u: "unique_blocks s"
  shows "same_view disk s (parked bp t s)" and "clean_ok disk (parked bp t s)" and "unique_blocks (parked bp t s)"
    and "b_dirt (bufs (parked bp t s) i) = b_dirt (bufs s i)" and "b_dev (bufs (parked bp t s) i) = b_dev (bufs s i)"
proof -
  let ?s = "upd_buf bp (\<lambda>b. b\<lparr>b_count := b_count b - 1\<rparr>) s\<lparr>bufs_in_use := bufs_in_use s - 1\<rparr>" and ?p = "parked bp t s"
  have cp: "core ?p = core ?s" by (simp add: parked_def)
  have p: "b_blocknr (bufs ?p i) = b_blocknr (bufs s i)" "b_dev (bufs ?p i) = b_dev (bufs s i)" "b_data (bufs ?p i) = b_data (bufs s i)"
    "b_dirt (bufs ?p i) = b_dirt (bufs s i)" "sent ?p = sent s" for i
    using core_D [OF cp, of i] by (simp_all add: buf_simps parked_def)
  have "block_view disk ?p = block_view disk s" by (rule view_cong) (simp_all add: p)
  then show "same_view disk s ?p" by (simp add: same_view_def)
  show "clean_ok disk ?p" using k by (simp add: clean_ok_def p)
  show "unique_blocks ?p" using u by (simp add: unique_blocks_def p)
  show "b_dirt (bufs ?p i) = b_dirt (bufs s i)" "b_dev (bufs ?p i) = b_dev (bufs s i)" by (simp_all add: p)
qed

lemma put_block_clean:
  assumes w: "disk_works e disk" and k: "clean_ok disk s" and u: "unique_blocks s" and bp: "bp < NR_BUFS" "b_count (bufs s bp) = 1"
  obtains s' where "put_block e (Some bp) t s = Done s'" "same_view disk s s'" "clean_ok disk s'"
proof -
  note p = parked_view [OF k u, of bp t]
  obtain s1 where s1: "(if on WRITE_IMMED t \<and> b_dirt (bufs s bp) \<and> b_dev (bufs s bp) \<noteq> NO_DEV then rw_block e bp True (parked bp t s)
      else Done (parked bp t s)) = Done s1"
    and v: "same_view disk s s1" "clean_ok disk s1" "unique_blocks s1"
    and cl: "t = ZUPER_BLOCK \<Longrightarrow> b_dev (bufs s1 bp) \<noteq> NO_DEV \<Longrightarrow> \<not> b_dirt (bufs s1 bp)"
  proof (cases "on WRITE_IMMED t \<and> b_dirt (bufs s bp) \<and> b_dev (bufs s bp) \<noteq> NO_DEV")
    case True
    then obtain s1 where s1: "rw_block e bp True (parked bp t s) = Done s1" "same_view disk (parked bp t s) s1" "clean_ok disk s1"
      "\<not> b_dirt (bufs s1 bp)"
      using write_back [OF w p(2,3) bp(1)] p(5) by metis
    then show ?thesis using that [of s1] True p(1) same_view_trans calm_unique [OF calm_rw_block [OF s1(1)] p(3)] by simp
  next
    case False
    have "\<not> b_dirt (bufs (parked bp t s) bp)" if "t = ZUPER_BLOCK" "b_dev (bufs (parked bp t s) bp) \<noteq> NO_DEV"
      using False that p(5) [of bp] unfolding p(4) by (simp add: on_def)
    then show ?thesis using that [of "parked bp t s"] p(1-3) False by auto
  qed
  show ?thesis
  proof (cases "t = ZUPER_BLOCK")
    case True
    then show ?thesis
      using that [of "upd_buf bp (b_dev_update (\<lambda>_. NO_DEV)) s1"] put_block_last [OF bp(2), of e t] s1
        drop_block [OF v(3,2) bp(1) cl] same_view_trans [OF v(1)] by simp
  next
    case False
    then show ?thesis using that [of s1] put_block_last [OF bp(2), of e t] s1 v(1,2) by simp
  qed
qed

lemma put_block_coherent:
  assumes w: "disk_works e disk" and ok: "coherent disk s" and bp: "bp < NR_BUFS" "b_count (bufs s bp) > 0"
  obtains s' where "put_block e (Some bp) t s = Done s'" "same_view disk s s'" "coherent disk s'"
proof -
  have c: "cache_ok s" and k: "clean_ok disk s" and u: "unique_blocks s" using ok by (simp_all add: coherent_def cache_ok_def)
  show ?thesis
  proof (cases "b_count (bufs s bp) = 1")
    case True
    obtain s' where "put_block e (Some bp) t s = Done s'" "same_view disk s s'" "clean_ok disk s'"
      using put_block_clean [OF w k u bp(1) True] .
    then show ?thesis using that put_block_cache_ok [OF c bp] by (simp add: coherent_def)
  next
    case False
    let ?s = "upd_buf bp (\<lambda>b. b\<lparr>b_count := b_count b - 1\<rparr>) s"
    have "block_view disk ?s = block_view disk s" by (rule view_cong) (simp_all add: buf_simps)
    moreover have "clean_ok disk ?s" using k by (simp add: clean_ok_def buf_simps)
    moreover have "cache_ok ?s" using put_block_cache_ok [OF c bp put_block_shared [OF False]] .
    ultimately show ?thesis using that [OF put_block_shared [OF False]] by (simp add: same_view_def coherent_def)
  qed
qed

subsection \<open>A disk\<close>

text \<open>
  A disk in memory and an environment with its driver: what \<open>disk_works\<close> relies on can be had.
  Everything else answers with zeros.
\<close>

fun ram_disk :: "(u16 \<Rightarrow> addr \<Rightarrow> bytes) \<Rightarrow> disk" where
  "ram_disk d0 [] = d0"
| "ram_disk d0 (Dev t m d (BlockWrite p b) # h) = (ram_disk d0 h)(d := (ram_disk d0 h d)(p := b))"
| "ram_disk d0 (Dev t m d (VectorWrite v) # h) = (ram_disk d0 h)(d := store_all v (ram_disk d0 h d))"
| "ram_disk d0 (_ # h) = ram_disk d0 h"

definition ram_env :: "(u16 \<Rightarrow> addr \<Rightarrow> bytes) \<Rightarrow> fs_env" where
  "ram_env d0 = \<lparr>io_send = \<lambda>_. OK, io_locked = \<lambda>_. [],
     io_status = (\<lambda>h. case h of Dev t m d (BlockRead p) # _ \<Rightarrow> 1024 | Dev t m d (BlockWrite p b) # _ \<Rightarrow> 1024 | _ \<Rightarrow> 0),
     io_type = \<lambda>_. 0,
     io_data = (\<lambda>h. case h of Dev t m d (BlockRead p) # h' \<Rightarrow> ram_disk d0 h' d p | _ \<Rightarrow> \<lambda>_. 0),
     io_left = \<lambda>_ _. 0, io_vector = \<lambda>_ _ _. 0, io_tty = \<lambda>_. (0, 0), copy_status = \<lambda>_. OK, user_data = \<lambda>_ _. 0,
     task_status = \<lambda>_. OK, task_long = \<lambda>_ _. 0, boot_answer = \<lambda>_. None, tty_line = \<lambda>_. None, data_org = \<lambda>_. 0,
     buf_addr = \<lambda>_. 0, addr_buf = \<lambda>_. None, inode_addr = \<lambda>_. 0, addr_inode = \<lambda>_. None\<rparr>"

lemma ram_disk_other: "\<not> to_driver x \<Longrightarrow> ram_disk d0 (x # h) = ram_disk d0 h"
  by (cases x) auto

lemma ram_disk_works: "disk_works (ram_env d0) (ram_disk d0)"
  by (simp add: disk_works_def ram_disk_other) (simp add: ram_env_def)

lemma pool_coherent: "coherent disk (buf_pool bss)"
  using buf_pool_ok [OF blank_bss] by (simp add: coherent_def clean_ok_def buf_pool_eq)

lemma disk_dev_not_none: "disk_dev d \<Longrightarrow> d \<noteq> NO_DEV"
  by (auto simp: disk_dev_def major_of_def)

lemma disk_dev_512 [simp]: "disk_dev 0x200"
  by (simp add: disk_dev_def major_of_def)

subsection \<open>The promise of the cache\<close>

text \<open>
  C15: Reading through the cache.  When the disk works and there is a buffer to spare (or the block
  is in the cache), \<open>get_block\<close> succeeds and the buffer it returns holds the current contents of
  the block, be they in a dirty buffer or on the disk; evictions and the flushing they cause
  change the contents of no block of any device, and the cache stays coherent with the disk.
\<close>

theorem get_block_returns_contents:
  assumes "disk_works e disk" and "coherent disk s" and "disk_dev dev"
    and "bufs_in_use s < int NR_BUFS \<or> cached s dev block \<noteq> None"
  shows "\<exists>bp s'. get_block e dev block NORMAL s = Done (bp, s') \<and> b_data (bufs s' bp) = block_view disk s dev block \<and>
    same_view disk s s' \<and> coherent disk s'"
  using get_block_coherent [OF assms(1-3) disk_dev_not_none [OF assms(3)] assms(4)] by blast

lemma get_block_returns_contents_witness:
  "\<exists>bp s'. get_block (ram_env (\<lambda>_ _ _. 7)) 0x200 5 NORMAL (buf_pool bss) = Done (bp, s') \<and> b_data (bufs s' bp) = (\<lambda>_. 7) \<and>
    coherent (ram_disk (\<lambda>_ _ _. 7)) s'"
proof -
  let ?d = "ram_disk (\<lambda>_ _ _. 7)"
  have n: "bufs_in_use (buf_pool bss) < int NR_BUFS" by (simp add: buf_pool_eq)
  have "cached (buf_pool bss) 0x200 5 = None" by (simp add: cached_None buf_pool_eq)
  then have "block_view ?d (buf_pool bss) 0x200 5 = (\<lambda>_. 7)" by (simp add: block_view_def buf_pool_eq bss_def)
  then show ?thesis
    using get_block_returns_contents [OF ram_disk_works [of "\<lambda>_ _ _. 7"] pool_coherent disk_dev_512, of 5] n by auto
qed

text \<open>
  C16: Releasing a block.  When the disk works, releasing a block that is in use always succeeds,
  whether it is written back at once, kept for later or, as a super block, forgotten, and leaves the
  contents of every block of every device as they were.
\<close>

theorem put_block_keeps_contents:
  assumes "disk_works e disk" and "coherent disk s" and "bp < NR_BUFS" and "b_count (bufs s bp) > 0"
  shows "\<exists>s'. put_block e (Some bp) t s = Done s' \<and> same_view disk s s' \<and> coherent disk s'"
  using put_block_coherent [OF assms] by blast

lemma put_block_keeps_contents_witness:
  "\<exists>bp s s'. get_block (ram_env (\<lambda>_ _ _. 7)) 0x200 5 NORMAL (buf_pool bss) = Done (bp, s) \<and>
    put_block (ram_env (\<lambda>_ _ _. 7)) (Some bp) ZUPER_BLOCK s = Done s' \<and> coherent (ram_disk (\<lambda>_ _ _. 7)) s'"
proof -
  let ?e = "ram_env (\<lambda>_ _ _. 7)" and ?d = "ram_disk (\<lambda>_ _ _. 7)"
  have n: "bufs_in_use (buf_pool bss) < int NR_BUFS \<or> cached (buf_pool bss) 0x200 5 \<noteq> None" by (simp add: buf_pool_eq)
  obtain bp s where g: "get_block ?e 0x200 5 NORMAL (buf_pool bss) = Done (bp, s)" "coherent ?d s"
    using get_block_coherent [OF ram_disk_works pool_coherent disk_dev_512 disk_dev_not_none [OF disk_dev_512] n] .
  have "acquired bp (buf_pool bss) s" by (rule get_block_ok [OF buf_pool_ok [OF blank_bss] g(1)])
  moreover have "b_count (bufs (buf_pool bss) bp) \<ge> 0" by (simp add: buf_pool_eq bss_def)
  ultimately have "bp < NR_BUFS" "b_count (bufs s bp) > 0" by (simp_all add: acquired_def)
  then show ?thesis using put_block_keeps_contents [OF ram_disk_works g(2), of bp ZUPER_BLOCK] g(1) by blast
qed

end
