(* ===== verification/Fs_Keep.thy ===== *)
theory Fs_Keep
  imports Fs_Disk
begin

section \<open>File system: the cache leaves inodes and files alone\<close>

text \<open>
  Getting, releasing and flushing blocks changes neither the inode table nor the descriptors: what
  the theorems about files and inodes need to carry their facts across calls of the cache.
\<close>

definition kept :: "fs \<Rightarrow> fs \<Rightarrow> bool" where
  "kept s s' \<longleftrightarrow> file_part s' = file_part s \<and> inode_part s' = inode_part s"

lemma kept_refl [simp]: "kept s s"
  by (simp add: kept_def)

lemma kept_trans: "kept s s' \<Longrightarrow> kept s' s'' \<Longrightarrow> kept s s''"
  by (simp add: kept_def)

lemma kept_updates [simp]:
  "kept s (upd_buf i f s') = kept s s'" "kept s (s'\<lparr>rdwt_err := r\<rparr>) = kept s s'" "kept s (s'\<lparr>bufs_in_use := k\<rparr>) = kept s s'"
  "kept s (s'\<lparr>buf_hash := h\<rparr>) = kept s s'" "kept s (enter_block bp dev block srch s') = kept s s'"
  "kept s (lru_remove bp s') = kept s s'" "kept s (lru_front bp s') = kept s s'" "kept s (lru_rear bp s') = kept s s'"
  "kept (upd_buf i f s) s' = kept s s'" "kept (s\<lparr>bufs_in_use := k\<rparr>) s' = kept s s'" "kept (enter_block bp dev block srch s) s' = kept s s'"
  by (simp_all add: kept_def enter_block_fields)

lemma driver_kept: "driver_frame s s' \<Longrightarrow> kept s s'"
  by (simp add: driver_frame_def kept_def)

lemma dev_call_kept: "dev_call e d io s = Done (r, s') \<Longrightarrow> kept s s'"
  by (rule driver_kept [OF dev_call_frame])

lemma rw_block_kept: "rw_block e bp w s = Done s' \<Longrightarrow> kept s s'"
  by (auto simp: rw_block_def Let_def andthen_Done_iff split: if_splits dest!: dev_call_kept)

lemma put_block_kept: "put_block e p t s = Done s' \<Longrightarrow> kept s s'"
proof (cases p)
  case None
  then show "put_block e p t s = Done s' \<Longrightarrow> kept s s'" by (simp add: put_block_def)
next
  case (Some bp)
  assume p: "put_block e p t s = Done s'"
  show "kept s s'"
  proof (cases "b_count (bufs s bp) = 1")
    case True
    obtain s1 where "(if on WRITE_IMMED t \<and> b_dirt (bufs s bp) \<and> b_dev (bufs s bp) \<noteq> NO_DEV then rw_block e bp True (parked bp t s) else Done (parked bp t s)) = Done s1"
      "s' = (if t = ZUPER_BLOCK then upd_buf bp (b_dev_update (\<lambda>_. NO_DEV)) s1 else s1)"
      using p Some put_block_last [OF True, of e t] by (auto simp: andthen_Done_iff)
    moreover have "kept s (parked bp t s)" by (simp add: parked_def)
    ultimately show ?thesis using kept_trans rw_block_kept by (auto split: if_splits)
  next
    case False
    then show ?thesis using p Some put_block_shared [OF False] by auto
  qed
qed

lemma harvest_kept: "harvest e h d w kb s = Done s' \<Longrightarrow> kept s s'"
  by (auto simp: harvest_def Let_def split: prod.splits if_splits dest!: put_block_kept)

lemma harvest_all_kept: "harvest_all e h d w kbs s = Done s' \<Longrightarrow> kept s s'"
proof (induction kbs arbitrary: s)
  case Nil
  then show ?case by simp
next
  case (Cons kb kbs)
  then show ?case by (auto simp: andthen_Done_iff dest: harvest_kept intro: kept_trans)
qed

lemma rw_scattered_kept: "rw_scattered e d q w s = Done s' \<Longrightarrow> kept s s'"
  by (auto simp: rw_scattered_def Let_def andthen_Done_iff split: if_splits
      dest!: dev_call_kept harvest_all_kept intro: kept_trans)

lemma flushall_kept: "flushall e d s = Done s' \<Longrightarrow> kept s s'"
  unfolding flushall_def by (rule rw_scattered_kept)

lemma unhash_scan_kept: "unhash_scan n bp p s = Done s' \<Longrightarrow> kept s s'"
  by (induction n bp p s rule: unhash_scan.induct) (auto split: option.splits if_splits)

lemma unhash_kept: "unhash bp s = Done s' \<Longrightarrow> kept s s'"
  by (auto simp: unhash_def Let_def andthen_Done_iff split: if_splits dest: unhash_scan_kept)

lemma take_block_kept:
  assumes "take_block e dev block srch s = Done (bp, s')"
  shows "kept s s'"
proof -
  obtain s1 s2 where "unhash bp (s\<lparr>bufs_in_use := bufs_in_use s + 1\<rparr>) = Done s1"
    "(if b_dev (bufs s1 bp) \<noteq> NO_DEV \<and> b_dirt (bufs s1 bp) then flushall e (b_dev (bufs s1 bp)) s1 else Done s1) = Done s2"
    "(if dev \<noteq> NO_DEV \<and> srch = NORMAL then rw_block e bp False (enter_block bp dev block srch s2)
      else Done (enter_block bp dev block srch s2)) = Done s'"
  proof -
    have n: "bufs_in_use s \<noteq> int NR_BUFS" using assms take_block_full by fastforce
    show ?thesis
      using assms that unfolding take_block_def Let_def if_not_P [OF n] andthen_Done_iff by (elim exE conjE) auto
  qed
  then have "kept (s\<lparr>bufs_in_use := bufs_in_use s + 1\<rparr>) s1" "kept s1 s2" "kept (enter_block bp dev block srch s2) s'"
    by (auto split: if_splits dest: unhash_kept flushall_kept rw_block_kept)
  then show ?thesis by (simp add: kept_def enter_block_fields)
qed

lemma get_block_kept: "get_block e dev block srch s = Done (bp, s') \<Longrightarrow> kept s s'"
  unfolding get_block_def Let_def andthen_Done_iff
  by (elim exE conjE) (auto split: option.splits dest: take_block_kept)

end
