(* ===== verification/Fs_Store.thy ===== *)
theory Fs_Store
  imports Fs_Keep
begin

section \<open>File system: a store of blocks\<close>

text \<open>
  The contract between the cache and the code above it.  \<open>view\<close> is what the store holds, \<open>uses\<close>
  the use counts of the buffers, \<open>place\<close> the block a buffer holds, \<open>rest\<close> the part of the state
  the store leaves alone.
\<close>

locale block_store =
  fixes get :: "u16 \<Rightarrow> u16 \<Rightarrow> 's \<Rightarrow> (nat \<times> 's) run"
    and put :: "nat \<Rightarrow> u16 \<Rightarrow> 's \<Rightarrow> 's run"
    and fill :: "nat \<Rightarrow> (bytes \<Rightarrow> bytes) \<Rightarrow> 's \<Rightarrow> 's"
    and contents :: "'s \<Rightarrow> nat \<Rightarrow> bytes"
    and view :: "'s \<Rightarrow> u16 \<Rightarrow> u16 \<Rightarrow> bytes"
    and uses :: "'s \<Rightarrow> nat \<Rightarrow> int"
    and place :: "'s \<Rightarrow> nat \<Rightarrow> u16 \<times> u16"
    and room :: "'s \<Rightarrow> bool"
    and rest :: "'s \<Rightarrow> 'r"
    and valid :: "u16 \<Rightarrow> bool"
    and ok :: "'s \<Rightarrow> bool"
  assumes get_law: "ok s \<Longrightarrow> valid d \<Longrightarrow> room s \<Longrightarrow>
      \<exists>bp s'. get d b s = Done (bp, s') \<and> ok s' \<and> contents s' bp = view s d b \<and> place s' bp = (d, b) \<and>
        (\<forall>d b. valid d \<longrightarrow> view s' d b = view s d b) \<and> 0 \<le> uses s bp \<and> uses s' = (uses s)(bp := uses s bp + 1) \<and> rest s' = rest s"
    and put_law: "ok s \<Longrightarrow> 0 < uses s bp \<Longrightarrow>
      \<exists>s'. put bp t s = Done s' \<and> ok s' \<and> (\<forall>d b. valid d \<longrightarrow> view s' d b = view s d b) \<and>
        uses s' = (uses s)(bp := uses s bp - 1) \<and> rest s' = rest s"
    and fill_law: "ok s \<Longrightarrow> 0 < uses s bp \<Longrightarrow> place s bp = (d, b) \<Longrightarrow> valid d \<Longrightarrow>
      ok (fill bp f s) \<and> uses (fill bp f s) = uses s \<and> rest (fill bp f s) = rest s \<and>
      (\<forall>d' b'. valid d' \<longrightarrow> view (fill bp f s) d' b' = (if d' = d \<and> b' = b then f (view s d b) else view s d' b'))"
    and room_law: "ok s \<Longrightarrow> ok s' \<Longrightarrow> uses s' = uses s \<Longrightarrow> room s' = room s"
begin

text \<open>Acquire, look, release.\<close>

lemma peek:
  assumes "ok s" "valid d" "room s"
  shows "\<exists>s'. andthen (get d b s) (\<lambda>(bp, s). andthen (put bp t s) (\<lambda>s'. Done (f (contents s bp), s'))) = Done (f (view s d b), s') \<and>
    ok s' \<and> (\<forall>d b. valid d \<longrightarrow> view s' d b = view s d b) \<and> room s' \<and> rest s' = rest s"
proof -
  obtain bp s1 where s1: "get d b s = Done (bp, s1)" "ok s1" "contents s1 bp = view s d b" "\<forall>d b. valid d \<longrightarrow> view s1 d b = view s d b"
    "0 \<le> uses s bp" "uses s1 = (uses s)(bp := uses s bp + 1)" "rest s1 = rest s"
    using get_law [OF assms, of b] by blast
  then have "0 < uses s1 bp" by simp
  then obtain s2 where s2: "put bp t s1 = Done s2" "ok s2" "\<forall>d b. valid d \<longrightarrow> view s2 d b = view s1 d b"
    "uses s2 = (uses s1)(bp := uses s1 bp - 1)" "rest s2 = rest s1"
    using put_law [OF s1(2), of bp t] by blast
  have "uses s2 = uses s" using s1(6) s2(4) by (simp add: fun_eq_iff)
  then have "room s2" using room_law [OF assms(1) s2(2)] assms(3) by blast
  then show ?thesis using s1 s2 by simp
qed

text \<open>Acquire, change, release.\<close>

lemma poke:
  assumes "ok s" "valid d" "room s"
  shows "\<exists>s'. andthen (get d b s) (\<lambda>(bp, s). put bp t (fill bp f s)) = Done s' \<and> ok s' \<and>
    (\<forall>d' b'. valid d' \<longrightarrow> view s' d' b' = (if d' = d \<and> b' = b then f (view s d b) else view s d' b')) \<and> room s' \<and> rest s' = rest s"
proof -
  obtain bp s1 where s1: "get d b s = Done (bp, s1)" "ok s1" "place s1 bp = (d, b)" "\<forall>d b. valid d \<longrightarrow> view s1 d b = view s d b"
    "0 \<le> uses s bp" "uses s1 = (uses s)(bp := uses s bp + 1)" "rest s1 = rest s"
    using get_law [OF assms, of b] by blast
  then have u: "0 < uses s1 bp" by simp
  let ?s = "fill bp f s1"
  have f: "ok ?s" "uses ?s = uses s1" "rest ?s = rest s1"
    "\<forall>d' b'. valid d' \<longrightarrow> view ?s d' b' = (if d' = d \<and> b' = b then f (view s1 d b) else view s1 d' b')"
    using fill_law [OF s1(2) u s1(3) assms(2)] by blast+
  obtain s2 where s2: "put bp t ?s = Done s2" "ok s2" "\<forall>d b. valid d \<longrightarrow> view s2 d b = view ?s d b"
    "uses s2 = (uses ?s)(bp := uses ?s bp - 1)" "rest s2 = rest ?s"
    using put_law [OF f(1), of bp t] u f(2) by auto
  have "uses s2 = uses s" using s1(6) s2(4) f(2) by (simp add: fun_eq_iff)
  then have "room s2" using room_law [OF assms(1) s2(2)] assms(3) by blast
  then show ?thesis using s1 s2 f assms(2) by simp
qed

text \<open>What was poked is what is peeked.\<close>

lemma poke_peek:
  assumes "ok s" "valid d" "room s"
  shows "\<exists>s'. andthen (andthen (get d b s) (\<lambda>(bp, s). put bp t (fill bp f s)))
      (\<lambda>s. andthen (get d b s) (\<lambda>(bp, s). andthen (put bp t' s) (\<lambda>s'. Done (g (contents s bp), s')))) = Done (g (f (view s d b)), s') \<and> ok s' \<and> rest s' = rest s"
proof -
  obtain s1 where s1: "andthen (get d b s) (\<lambda>(bp, s). put bp t (fill bp f s)) = Done s1" "ok s1" "room s1" "rest s1 = rest s"
    "\<forall>d' b'. valid d' \<longrightarrow> view s1 d' b' = (if d' = d \<and> b' = b then f (view s d b) else view s d' b')"
    using poke [OF assms, of b t f] by blast
  show ?thesis using peek [OF s1(2) assms(2) s1(3), of b t' g] s1 assms(2) by auto
qed

end

subsection \<open>The cache is one\<close>

definition buf_uses :: "fs \<Rightarrow> nat \<Rightarrow> int" where
  "buf_uses s i = (if i < NR_BUFS then b_count (bufs s i) else 0)"

definition buf_place :: "fs \<Rightarrow> nat \<Rightarrow> u16 \<times> u16" where
  "buf_place s i = (b_dev (bufs s i), b_blocknr (bufs s i))"

definition buf_fill :: "nat \<Rightarrow> (bytes \<Rightarrow> bytes) \<Rightarrow> fs \<Rightarrow> fs" where
  "buf_fill bp f = upd_buf bp (\<lambda>b. b\<lparr>b_data := f (b_data b), b_dirt := DIRTY\<rparr>)"

definition works_on :: "fs_env \<Rightarrow> disk \<Rightarrow> fs \<Rightarrow> bool" where
  "works_on e disk s \<longleftrightarrow> disk_works e disk \<and> coherent disk s"

definition spare_buf :: "fs \<Rightarrow> bool" where
  "spare_buf s \<longleftrightarrow> bufs_in_use s < int NR_BUFS"

lemma cache_get_law:
  assumes "works_on e disk s" and "disk_dev d" and "spare_buf s"
  shows "\<exists>bp s'. get_block e d b NORMAL s = Done (bp, s') \<and> works_on e disk s' \<and> b_data (bufs s' bp) = block_view disk s d b \<and>
    buf_place s' bp = (d, b) \<and> (\<forall>d b. disk_dev d \<longrightarrow> block_view disk s' d b = block_view disk s d b) \<and>
    0 \<le> buf_uses s bp \<and> buf_uses s' = (buf_uses s)(bp := buf_uses s bp + 1) \<and> (file_part s', inode_part s') = (file_part s, inode_part s)"
proof -
  have w: "disk_works e disk" and c: "coherent disk s" "cache_ok s" using assms(1) by (auto simp: works_on_def coherent_def)
  have r: "bufs_in_use s < int NR_BUFS \<or> cached s d b \<noteq> None" using assms(3) by (simp add: spare_buf_def)
  obtain bp s' where g: "get_block e d b NORMAL s = Done (bp, s')" "b_data (bufs s' bp) = block_view disk s d b"
    "same_view disk s s'" "coherent disk s'" "b_dev (bufs s' bp) = d" "b_blocknr (bufs s' bp) = b"
    using get_block_coherent [OF w c(1) assms(2) disk_dev_not_none [OF assms(2)] r] .
  have a: "acquired bp s s'" by (rule get_block_ok [OF c(2) g(1)])
  have "buf_uses s' = (buf_uses s)(bp := buf_uses s bp + 1)" using a by (auto simp: acquired_def buf_uses_def)
  moreover have "0 \<le> buf_uses s bp" using c(2) by (auto simp: buf_uses_def cache_ok_def counts_ok_def)
  moreover have "\<forall>d b. disk_dev d \<longrightarrow> block_view disk s' d b = block_view disk s d b"
    using g(3) disk_dev_not_none by (auto simp: same_view_def)
  ultimately show ?thesis using g w get_block_kept [OF g(1)] by (auto simp: works_on_def buf_place_def kept_def)
qed

lemma put_block_uses:
  assumes "bp < NR_BUFS" and "b_count (bufs s bp) > 0" and "put_block e (Some bp) t s = Done s'"
  shows "buf_uses s' = (buf_uses s)(bp := buf_uses s bp - 1)"
proof (cases "b_count (bufs s bp) = 1")
  case True
  let ?s = "upd_buf bp (\<lambda>b. b\<lparr>b_count := b_count b - 1\<rparr>) s\<lparr>bufs_in_use := bufs_in_use s - 1\<rparr>"
  have "core (parked bp t s) = core ?s" by (simp add: parked_def)
  from core_D(5) [OF this] have "b_count (bufs s' i) = b_count (bufs ?s i)" for i
    using put_block_quiet [OF True assms(3)] by (simp add: calm_def)
  then show ?thesis using assms(1) by (auto simp: buf_uses_def buf_simps)
next
  case False
  then show ?thesis using assms put_block_shared [OF False] by (auto simp: buf_uses_def buf_simps)
qed

lemma cache_put_law:
  assumes "works_on e disk s" and "0 < buf_uses s bp"
  shows "\<exists>s'. put_block e (Some bp) t s = Done s' \<and> works_on e disk s' \<and> (\<forall>d b. disk_dev d \<longrightarrow> block_view disk s' d b = block_view disk s d b) \<and>
    buf_uses s' = (buf_uses s)(bp := buf_uses s bp - 1) \<and> (file_part s', inode_part s') = (file_part s, inode_part s)"
proof -
  have bp: "bp < NR_BUFS" "b_count (bufs s bp) > 0" using assms(2) by (auto simp: buf_uses_def split: if_splits)
  have w: "disk_works e disk" "coherent disk s" using assms(1) by (auto simp: works_on_def)
  obtain s' where s': "put_block e (Some bp) t s = Done s'" "same_view disk s s'" "coherent disk s'"
    using put_block_coherent [OF w bp] .
  have "\<forall>d b. disk_dev d \<longrightarrow> block_view disk s' d b = block_view disk s d b"
    using s'(2) disk_dev_not_none by (auto simp: same_view_def)
  then show ?thesis using s' w put_block_uses [OF bp s'(1)] put_block_kept [OF s'(1)] by (auto simp: works_on_def kept_def)
qed

lemma cache_fill_law:
  assumes "works_on e disk s" and "0 < buf_uses s bp" and "buf_place s bp = (d, b)" and "disk_dev d"
  shows "works_on e disk (buf_fill bp f s) \<and> buf_uses (buf_fill bp f s) = buf_uses s \<and>
    (file_part (buf_fill bp f s), inode_part (buf_fill bp f s)) = (file_part s, inode_part s) \<and>
    (\<forall>d' b'. disk_dev d' \<longrightarrow> block_view disk (buf_fill bp f s) d' b' = (if d' = d \<and> b' = b then f (block_view disk s d b) else block_view disk s d' b'))"
proof -
  let ?s = "buf_fill bp f s"
  have bp: "bp < NR_BUFS" using assms(2) by (auto simp: buf_uses_def split: if_splits)
  have w: "disk_works e disk" and c: "cache_ok s" "clean_ok disk s" using assms(1) by (auto simp: works_on_def coherent_def)
  have p: "b_dev (bufs s bp) = d" "b_blocknr (bufs s bp) = b" using assms(3) by (simp_all add: buf_place_def)
  have u: "unique_blocks s" using c(1) by (simp add: cache_ok_def)
  have q: "calm s ?s" unfolding buf_fill_def by (rule calm_upd_buf) simp
  have "coherent disk ?s"
    using calm_cache_ok [OF q c(1)] c(2) by (auto simp: coherent_def clean_ok_def buf_fill_def buf_simps)
  moreover have "buf_uses ?s = buf_uses s" by (auto simp: buf_uses_def buf_fill_def buf_simps fun_eq_iff)
  moreover have "block_view disk ?s d' b' = (if d' = d \<and> b' = b then f (block_view disk s d b) else block_view disk s d' b')" if "disk_dev d'" for d' b'
  proof -
    have ca: "cached ?s = cached s" by (rule same_blocks_cached) (simp add: buf_fill_def buf_simps)
    have hit: "cached s d b = Some bp" using cached_eqI [OF u disk_dev_not_none [OF assms(4)] bp p(2,1)] .
    have sent: "sent ?s = sent s" by (simp add: buf_fill_def)
    show ?thesis
    proof (cases "d' = d \<and> b' = b")
      case True
      then show ?thesis using hit by (simp add: block_view_def ca) (simp add: buf_fill_def buf_simps)
    next
      case False
      then have "cached s d' b' \<noteq> Some bp" using cached_Some [of s d' b' bp] p by auto
      then have "i \<noteq> bp" if "cached s d' b' = Some i" for i using that by auto
      then have "b_data (bufs ?s i) = b_data (bufs s i)" if "cached s d' b' = Some i" for i using that by (simp add: buf_fill_def buf_simps)
      then show ?thesis using False unfolding block_view_def ca sent by (auto split: option.split)
    qed
  qed
  ultimately show ?thesis using w by (simp add: works_on_def buf_fill_def)
qed

lemma cache_room_law:
  assumes "works_on e disk s" and "works_on e disk s'" and "buf_uses s' = buf_uses s"
  shows "spare_buf s' = spare_buf s"
proof -
  have "i < NR_BUFS \<Longrightarrow> b_count (bufs s' i) = b_count (bufs s i)" for i
    using fun_cong [OF assms(3), of i] by (simp add: buf_uses_def)
  then have "in_use s' = in_use s" by (auto simp: in_use_def)
  then show ?thesis using assms(1,2) by (simp add: works_on_def coherent_def cache_ok_def counts_ok_def spare_buf_def)
qed

interpretation cache: block_store "\<lambda>d b. get_block e d b NORMAL" "\<lambda>bp. put_block e (Some bp)" buf_fill "\<lambda>s bp. b_data (bufs s bp)"
  "block_view disk" buf_uses buf_place spare_buf "\<lambda>s. (file_part s, inode_part s)" disk_dev "works_on e disk" for e disk
  by unfold_locales (rule cache_get_law cache_put_law cache_fill_law cache_room_law; assumption)+

subsection \<open>Steps beside the cache\<close>

text \<open>States with the same cache whose messages in between do not touch the disk.\<close>

definition beside :: "disk \<Rightarrow> fs \<Rightarrow> fs \<Rightarrow> bool" where
  "beside disk s s' \<longleftrightarrow> cache_part s' = cache_part s \<and> disk (sent s') = disk (sent s)"

lemma beside_store:
  assumes "beside disk s s'"
  shows "works_on e disk s' = works_on e disk s" "block_view disk s' = block_view disk s" "buf_uses s' = buf_uses s"
    "buf_place s' = buf_place s" "spare_buf s' = spare_buf s"
proof -
  have b: "bufs s' = bufs s" "buf_hash s' = buf_hash s" "front s' = front s" "rear s' = rear s" "bufs_in_use s' = bufs_in_use s"
    and d: "disk (sent s') = disk (sent s)" using assms by (simp_all add: beside_def cache_part_iff)
  have l: "nexts s' = nexts s" "prevs s' = prevs s" "hashes s' = hashes s" by (simp_all add: fun_eq_iff nexts_def prevs_def hashes_def b)
  show v: "block_view disk s' = block_view disk s" by (rule view_cong) (simp_all add: b d)
  have "lru_ok s' xs = lru_ok s xs" for xs by (rule lru_ok_cong) (simp_all add: l b)
  moreover have "hash_ok {} s' = hash_ok {} s" by (rule hash_ok_cong) (simp_all add: l b)
  moreover have "unique_blocks s' = unique_blocks s" by (rule unique_cong) (simp_all add: b)
  moreover have "counts_ok s' = counts_ok s" by (simp add: counts_ok_def in_use_def b)
  ultimately show "works_on e disk s' = works_on e disk s"
    by (simp add: works_on_def coherent_def cache_ok_def clean_ok_def b d)
  show "buf_uses s' = buf_uses s" "buf_place s' = buf_place s" "spare_buf s' = spare_buf s"
    by (simp_all add: fun_eq_iff buf_uses_def buf_place_def spare_buf_def b)
qed

lemma beside_refl [simp]: "beside disk s s"
  by (simp add: beside_def)

lemma beside_upd [simp]:
  "beside disk s (upd_inode i f s') = beside disk s s'" "beside disk s (upd_super k g s') = beside disk s s'"
  by (simp_all add: beside_def cache_part_def upd_inode_def upd_super_def)

end
