(* ===== verification/Fs_Map.thy ===== *)
theory Fs_Map
  imports Fs_Store Fs_Write
begin

section \<open>File system: the blocks of a file\<close>

text \<open>
  \<open>read_map\<close> against the layout of a file: seven zones in the inode, then those of an indirect
  block, then those of the blocks of a double indirect one.  \<open>file_zone\<close> is that layout, read off
  the contents of the blocks of the device (\<open>rd\<close>), without a cache.
\<close>

text \<open>What an operation on the store alone leaves as it was.\<close>

definition store_same :: "fs_env \<Rightarrow> disk \<Rightarrow> fs \<Rightarrow> fs \<Rightarrow> bool" where
  "store_same e disk s s' \<longleftrightarrow> works_on e disk s' \<and> spare_buf s' \<and>
     (\<forall>d b. disk_dev d \<longrightarrow> block_view disk s' d b = block_view disk s d b) \<and>
     file_part s' = file_part s \<and> inode_part s' = inode_part s"

lemma store_same_refl: "works_on e disk s \<Longrightarrow> spare_buf s \<Longrightarrow> store_same e disk s s"
  by (simp add: store_same_def)

lemma store_same_trans: "store_same e disk s s' \<Longrightarrow> store_same e disk s' s'' \<Longrightarrow> store_same e disk s s''"
  by (simp add: store_same_def)

lemma store_same_tables:
  assumes "store_same e disk s s'"
  shows "inodes s' = inodes s" "supers s' = supers s" "disk_dev d \<Longrightarrow> block_view disk s' d = block_view disk s d"
    "works_on e disk s'" "spare_buf s'"
  using assms by (auto simp: store_same_def inode_part_iff)

subsection \<open>The layout\<close>

definition ind_entry :: "(u16 \<Rightarrow> bytes) \<Rightarrow> nat \<Rightarrow> u16 \<Rightarrow> nat \<Rightarrow> u16" where
  "ind_entry rd scale z k = (if z = NO_ZONE then NO_ZONE else ind_get (rd (push_bit scale z)) k)"

definition file_zone :: "(u16 \<Rightarrow> bytes) \<Rightarrow> inode \<Rightarrow> nat \<Rightarrow> nat \<Rightarrow> u16" where
  "file_zone rd i scale n =
     (if n < NR_DZONE_NUM then i_zone i n
      else if n < NR_DZONE_NUM + NR_INDIRECTS then ind_entry rd scale (i_zone i NR_DZONE_NUM) (n - NR_DZONE_NUM)
      else
        let k = n - NR_DZONE_NUM - NR_INDIRECTS
        in ind_entry rd scale (ind_entry rd scale (i_zone i (NR_DZONE_NUM + 1)) (k div NR_INDIRECTS)) (k mod NR_INDIRECTS))"

definition file_block :: "(u16 \<Rightarrow> bytes) \<Rightarrow> inode \<Rightarrow> nat \<Rightarrow> addr \<Rightarrow> u16" where
  "file_block rd i scale pos =
     (let b = nat (block_in_file pos); z = file_zone rd i scale (b div 2 ^ scale)
      in if z = NO_ZONE then NO_BLOCK else push_bit scale z + of_nat (b mod 2 ^ scale))"

subsection \<open>Lookups\<close>

lemma ind_lookup_works:
  assumes "works_on e disk s" "spare_buf s" "disk_dev d" "k < NR_INDIRECTS"
  obtains s' where "ind_lookup e d z scale k s = Done (ind_get (block_view disk s d (push_bit scale z)) k, s')" "store_same e disk s s'"
proof -
  obtain s' where "andthen (get_block e d (push_bit scale z) NORMAL s) (\<lambda>(bp, s). andthen (put_block e (Some bp) INDIRECT_BLOCK s)
      (\<lambda>s'. Done (ind_get (b_data (bufs s bp)) k, s'))) = Done (ind_get (block_view disk s d (push_bit scale z)) k, s')"
    "works_on e disk s'" "\<forall>d b. disk_dev d \<longrightarrow> block_view disk s' d b = block_view disk s d b" "spare_buf s'"
    "(file_part s', inode_part s') = (file_part s, inode_part s)"
    using cache.peek [OF assms(1,3,2), of "push_bit scale z" INDIRECT_BLOCK "\<lambda>d. ind_get d k"] by blast
  then show ?thesis using that [of s'] assms(4) by (simp add: ind_lookup_def Let_def store_same_def)
qed

lemma zone_in_file_nat:
  assumes "0 \<le> sint pos"
  shows "zone_in_file scale pos = int (nat (block_in_file pos) div 2 ^ scale)"
    and "block_in_file pos - zone_in_file scale pos * 2 ^ scale = int (nat (block_in_file pos) mod 2 ^ scale)"
proof -
  have b: "0 \<le> block_in_file pos" using assms by (simp add: block_in_file_def signed_divide_int_def sgn_if)
  then have "int (nat (block_in_file pos) div 2 ^ scale) = block_in_file pos div 2 ^ scale"
    "int (nat (block_in_file pos) mod 2 ^ scale) = block_in_file pos mod 2 ^ scale" by (simp_all add: zdiv_int zmod_int)
  then show "zone_in_file scale pos = int (nat (block_in_file pos) div 2 ^ scale)"
    "block_in_file pos - zone_in_file scale pos * 2 ^ scale = int (nat (block_in_file pos) mod 2 ^ scale)"
    by (simp_all add: zone_in_file_def minus_div_mult_eq_mod)
qed

text \<open>The part of \<open>read_map\<close> behind the direct zones.\<close>

lemma read_map_indirect:
  assumes w: "works_on e disk s" "spare_buf s" and d: "disk_dev (i_dev (inodes s rip))" and sc: "scale_factor rip s = Done scale"
    and n: "n = nat (block_in_file pos) div 2 ^ scale" "0 \<le> sint pos" "NR_DZONE_NUM \<le> n" "n < NR_DZONE_NUM + NR_INDIRECTS + NR_INDIRECTS * NR_INDIRECTS"
  shows "\<exists>s'. read_map e rip pos s = Done (file_block (block_view disk s (i_dev (inodes s rip))) (inodes s rip) scale pos, s') \<and> store_same e disk s s'"
proof -
  let ?d = "i_dev (inodes s rip)"
  let ?rd = "block_view disk s ?d" and ?i = "inodes s rip" and ?off = "nat (block_in_file pos) mod 2 ^ scale"
  note zn = zone_in_file_nat [OF n(2), of scale, folded n(1)]
  have w: "zone_in_file scale pos = int n" "block_in_file pos - int n * 2 ^ scale = int ?off" "\<not> n < NR_DZONE_NUM"
    using zn n(3) by simp_all
  have wo: "word_of_int (block_in_file pos) - of_nat n * 2 ^ scale = (of_nat ?off :: u16)"
    using arg_cong [OF w(2), of "word_of_int :: int \<Rightarrow> u16"] by simp
  let ?tail = "\<lambda>z k s. if z = NO_ZONE then Done (NO_BLOCK, s)
      else andthen (ind_lookup e ?d z scale k s) (\<lambda>(z, s). Done (if z = NO_ZONE then NO_BLOCK else push_bit scale z + word_of_int (int ?off), s))"
  let ?blk = "\<lambda>z. if z = NO_ZONE then NO_BLOCK else push_bit scale z + of_nat ?off"
  have last: "\<exists>s'. ?tail z k s1 = Done (?blk (ind_entry ?rd scale z k), s') \<and> store_same e disk s s'"
    if ss: "store_same e disk s s1" and kk: "k < NR_INDIRECTS" for z k s1
  proof (cases "z = NO_ZONE")
    case True
    then show ?thesis using ss by (simp add: ind_entry_def)
  next
    case False
    obtain s2 where "ind_lookup e ?d z scale k s1 = Done (ind_get (block_view disk s1 ?d (push_bit scale z)) k, s2)" "store_same e disk s1 s2"
      using ind_lookup_works [OF store_same_tables(4,5) [OF ss] d kk] .
    then show ?thesis using False store_same_tables(3) [OF ss d] store_same_trans [OF ss]
      by (simp add: ind_entry_def Let_def)
  qed
  have fb: "file_block ?rd ?i scale pos = ?blk (file_zone ?rd ?i scale n)" by (simp add: file_block_def Let_def n(1))
  show ?thesis
  proof (cases "n - NR_DZONE_NUM < NR_INDIRECTS")
    case True
    then have "n < NR_DZONE_NUM + NR_INDIRECTS" using n(3) by arith
    then have fz: "file_zone ?rd ?i scale n = ind_entry ?rd scale (i_zone ?i NR_DZONE_NUM) (n - NR_DZONE_NUM)"
      using n(3) by (simp add: file_zone_def)
    have rm: "read_map e rip pos s = ?tail (i_zone ?i NR_DZONE_NUM) (n - NR_DZONE_NUM) s"
      using True by (simp add: read_map_def Let_def sc w wo cong: if_cong)
    show ?thesis unfolding fb fz rm by (rule last [OF store_same_refl [OF assms(1,2)] True])
  next
    case False
    let ?k = "n - NR_DZONE_NUM - NR_INDIRECTS"
    let ?z = "i_zone ?i (NR_DZONE_NUM + 1)"
    have k: "?k div NR_INDIRECTS < NR_INDIRECTS" "?k mod NR_INDIRECTS < NR_INDIRECTS"
      using n(4) by (auto simp: less_mult_imp_div_less)
    have "\<not> n < NR_DZONE_NUM + NR_INDIRECTS" using False by arith
    then have fz: "file_zone ?rd ?i scale n = ind_entry ?rd scale (ind_entry ?rd scale ?z (?k div NR_INDIRECTS)) (?k mod NR_INDIRECTS)"
      using n(3) by (simp only: file_zone_def Let_def if_False) simp
    show ?thesis
    proof (cases "?z = NO_ZONE")
      case True
      then have "read_map e rip pos s = Done (NO_BLOCK, s)" "ind_entry ?rd scale ?z j = NO_ZONE" for j
        using False by (simp_all add: read_map_def Let_def sc w ind_entry_def)
      then show ?thesis unfolding fb fz using store_same_refl [OF assms(1,2)] by (simp add: ind_entry_def)
    next
      case z: False
      obtain s1 where s1: "ind_lookup e ?d ?z scale (?k div NR_INDIRECTS) s = Done (ind_get (?rd (push_bit scale ?z)) (?k div NR_INDIRECTS), s1)"
        "store_same e disk s s1"
        using ind_lookup_works [OF assms(1,2) d k(1)] .
      have e: "ind_entry ?rd scale ?z (?k div NR_INDIRECTS) = ind_get (?rd (push_bit scale ?z)) (?k div NR_INDIRECTS)"
        using z by (simp add: ind_entry_def)
      have rm: "read_map e rip pos s = ?tail (ind_get (?rd (push_bit scale ?z)) (?k div NR_INDIRECTS)) (?k mod NR_INDIRECTS) s1"
        using False z s1(1) by (simp add: read_map_def Let_def sc w wo cong: if_cong)
      show ?thesis unfolding fb fz e rm by (rule last [OF s1(2) k(2)])
    qed
  qed
qed

text \<open>
  C19: \<open>read_map\<close> finds the block of a file that holds a given position: for every position the
  double indirect scheme can reach it returns the block that the layout of the file prescribes,
  \<open>NO_BLOCK\<close> for a hole, and reads the indirect blocks through the cache without changing
  the contents of any block, the inodes or the open files.
\<close>

theorem read_map_follows_layout:
  assumes "works_on e disk s" and "spare_buf s" and "disk_dev (i_dev (inodes s rip))" and "scale_factor rip s = Done scale"
    and "0 \<le> sint pos" and "nat (block_in_file pos) div 2 ^ scale < NR_DZONE_NUM + NR_INDIRECTS + NR_INDIRECTS * NR_INDIRECTS"
  shows "\<exists>s'. read_map e rip pos s = Done (file_block (block_view disk s (i_dev (inodes s rip))) (inodes s rip) scale pos, s') \<and> store_same e disk s s'"
proof (cases "nat (block_in_file pos) div 2 ^ scale < NR_DZONE_NUM")
  case True
  let ?n = "nat (block_in_file pos) div 2 ^ scale"
  have "file_zone (block_view disk s (i_dev (inodes s rip))) (inodes s rip) scale ?n = i_zone (inodes s rip) ?n"
    using True by (simp add: file_zone_def)
  moreover have "zone_in_file scale pos = int ?n" "block_in_file pos - int ?n * 2 ^ scale = int (nat (block_in_file pos) mod 2 ^ scale)"
    using zone_in_file_nat [OF assms(5), of scale] by simp_all
  ultimately show ?thesis
    using True assms(4) store_same_refl [OF assms(1,2)] by (simp add: read_map_def Let_def file_block_def)
next
  case False
  then show ?thesis using read_map_indirect [OF assms(1-4) refl assms(5) _ assms(6)] by simp
qed

text \<open>A small file system on a diskette, whose blocks are filled with one byte.\<close>

definition demo_fs :: fs where
  "demo_fs = upd_super 0 (\<lambda>p. p\<lparr>s_dev := 0x200, s_imap_blocks := 1, s_zmap_blocks := 1\<rparr>)
     (upd_inode 3 (\<lambda>i. i\<lparr>i_dev := 0x200, i_num := 5, i_size := 77, i_zone := (\<lambda>_. 0)(7 := 5)\<rparr>) (buf_pool bss))"

lemma demo_works: "works_on (ram_env d0) (ram_disk d0) demo_fs" "spare_buf demo_fs"
proof -
  have b: "beside (ram_disk d0) (buf_pool bss) demo_fs" by (simp add: demo_fs_def)
  show "works_on (ram_env d0) (ram_disk d0) demo_fs"
    unfolding beside_store(1) [OF b] using ram_disk_works pool_coherent by (simp add: works_on_def)
  show "spare_buf demo_fs" using beside_store(5) [OF b] by (simp add: spare_buf_def buf_pool_eq)
qed

lemma read_map_follows_layout_witness:
  "\<exists>s'. read_map (ram_env (\<lambda>_ _ _. 7)) 3 0x1C00 demo_fs = Done (0x0707, s') \<and> works_on (ram_env (\<lambda>_ _ _. 7)) (ram_disk (\<lambda>_ _ _. 7)) s'"
proof -
  have i: "i_dev (inodes demo_fs 3) = 0x200" "i_zone (inodes demo_fs 3) = (\<lambda>_. 0)(7 := 5)"
    by (simp_all add: demo_fs_def upd_inode_def upd_super_def)
  have d: "disk_dev (i_dev (inodes demo_fs 3))" by (simp add: i)
  have sc: "scale_factor 3 demo_fs = Done 0"
    by (simp add: scale_factor_def demo_fs_def get_super_def upd_inode_def upd_super_def upt_rec buf_pool_eq bss_def)
  have b: "block_in_file 0x1C00 = 7" by (simp add: block_in_file_def signed_divide_int_def)
  have "block_view (ram_disk (\<lambda>_ _ _. 7)) demo_fs 0x200 5 = (\<lambda>_. 7)"
    using cached_None [of demo_fs "0x200" 5]
    by (simp add: block_view_def demo_fs_def upd_inode_def upd_super_def buf_pool_eq bss_def)
  then have f: "file_block (block_view (ram_disk (\<lambda>_ _ _. 7)) demo_fs 0x200) (inodes demo_fs 3) 0 0x1C00 = 0x0707"
    by (simp add: file_block_def b file_zone_def ind_entry_def i ind_get_def get16_def)
  show ?thesis
    using read_map_follows_layout [OF demo_works(1) [of "\<lambda>_ _ _. 7"] demo_works(2) d sc, where pos = "0x1C00"] b f by (auto simp: i store_same_def)
qed

end
