(* ===== verification/Fs_Inode_Disk.thy ===== *)
theory Fs_Inode_Disk
  imports Fs_Map
begin

section \<open>File system: inodes on disk\<close>

text \<open>
  An inode that \<open>rw_inode\<close> writes and reads back is the same in every field that is kept on disk,
  whatever slot it is read into and whatever else shares its block.
\<close>

subsection \<open>Bytes\<close>

definition disk_fields :: "inode \<Rightarrow> u16 \<times> u16 \<times> addr \<times> addr \<times> 8 word \<times> 8 word \<times> u16 list" where
  "disk_fields i = (i_mode i, i_uid i, i_size i, i_mtime i, i_gid i, i_nlinks i, map (i_zone i) [0..<9])"

lemma join_halves: "push_bit 16 (ucast (ucast (drop_bit 16 v) :: u16)) OR ucast (ucast v :: u16) = v" for v :: addr
  by (intro bit_eqI) (auto simp: bit_or_iff bit_push_bit_iff bit_unsigned_iff bit_drop_bit_eq not_le)

lemma inode_bytes: "disk_fields (inode_from (inode_into i a d) a j) = disk_fields i"
proof -
  have u: "b \<noteq> a \<Longrightarrow> b + 1 \<noteq> a \<Longrightarrow> get16 (m(a := x)) b = get16 m b" for a b x m
    by (simp add: get16_def)
  have v: "b \<noteq> a \<Longrightarrow> b \<noteq> a + 1 \<Longrightarrow> put16 a w m b = m b" for a b w m
    by (simp add: put16_def)
  have n9: "[0..<9] = [0, 1, 2, 3, 4, 5, 6, 7, 8]" by (simp add: upt_rec)
  show ?thesis unfolding n9
    by (simp add: disk_fields_def inode_from_def inode_into_def Let_def n9 get16_put16 get16_other u v get32_def put32_def
        join_halves add.assoc)
qed

subsection \<open>The clock\<close>

lemma beside_GetTime: "disk_works e disk \<Longrightarrow> beside disk s (send GetTime s)"
  using disk_works_D(2) [of e disk GetTime] by (simp add: beside_def send_def cache_part_def)

text \<open>The layout of a file system is fixed by these fields of its super block.\<close>

definition layout :: "fs \<Rightarrow> nat \<Rightarrow> u16 \<times> u16 \<times> u16 \<times> u16" where
  "layout s k = (s_dev (supers s k), s_imap_blocks (supers s k), s_zmap_blocks (supers s k), s_log_zone_size (supers s k))"

lemma layout_D:
  assumes "layout s' = layout s"
  shows "s_dev (supers s' k) = s_dev (supers s k)" "s_imap_blocks (supers s' k) = s_imap_blocks (supers s k)"
    "s_zmap_blocks (supers s' k) = s_zmap_blocks (supers s k)" "s_log_zone_size (supers s' k) = s_log_zone_size (supers s k)"
  using fun_cong [OF assms, of k] by (simp_all add: layout_def)

lemma super_scan_cong: "(\<And>k. s_dev (t' k) = s_dev (t k)) \<Longrightarrow> super_scan t' dev ks = super_scan t dev ks"
  by (induction ks) auto

lemma layout_get_super: "layout s' = layout s \<Longrightarrow> get_super dev s' = get_super dev s"
  using super_scan_cong [of "supers s'" "supers s"] layout_D(1) [of s' s] by (simp add: get_super_def)

lemma layout_inode_part: "inode_part s' = inode_part s \<Longrightarrow> layout s' = layout s"
  by (simp add: inode_part_iff layout_def [abs_def])

lemma layout_upd_super:
  assumes "\<And>p. s_dev (g p) = s_dev p \<and> s_imap_blocks (g p) = s_imap_blocks p \<and> s_zmap_blocks (g p) = s_zmap_blocks p \<and>
    s_log_zone_size (g p) = s_log_zone_size p"
  shows "layout (upd_super k g s) = layout s"
proof
  fix j
  show "layout (upd_super k g s) j = layout s j" using assms by (cases "j = k") (simp_all add: layout_def upd_super_def)
qed

lemma layout_other [simp]: "layout (upd_inode i f s) = layout s" "layout (send x s) = layout s"
  by (simp_all add: fun_eq_iff layout_def upd_inode_def send_def)

lemma clock_time_works:
  assumes w: "disk_works e disk" and c: "clock_time e s = Done (t, s')"
  shows "beside disk s s'" "layout s' = layout s" "inodes s' = inodes s"
proof -
  obtain sp where s': "s' = (let s1 = upd_super sp (s_time_update (\<lambda>_. t)) (send GetTime s)
      in if s_rd_only (supers s1 sp) = 0 then upd_super sp (s_dirt_update (\<lambda>_. DIRTY)) s1 else s1)"
  proof -
    have "task_status e (sent (send GetTime s)) = OK" using c by (auto simp: clock_time_def Let_def split: if_splits)
    then show ?thesis using c that by (auto simp: clock_time_def Let_def andthen_Done_iff)
  qed
  show "beside disk s s'" using beside_GetTime [OF w, of s] by (auto simp: s' Let_def)
  show "layout s' = layout s" by (auto simp: s' Let_def layout_upd_super)
  show "inodes s' = inodes s" by (auto simp: s' Let_def upd_super_def send_def)
qed

lemma update_times_works:
  assumes w: "disk_works e disk" and u: "update_times e rip s = Done s'"
  shows "beside disk s s'" "layout s' = layout s" "i_dev (inodes s' rip) = i_dev (inodes s rip)" "i_num (inodes s' rip) = i_num (inodes s rip)"
proof -
  obtain t s1 where c: "clock_time e s = Done (t, s1)" and s': "s' = upd_inode rip (\<lambda>i. i\<lparr>
       i_atime := if on ATIME (i_update i) then t else i_atime i, i_ctime := if on CTIME (i_update i) then t else i_ctime i,
       i_mtime := if on MTIME (i_update i) then t else i_mtime i, i_update := 0\<rparr>) s1"
    using u by (auto simp: update_times_def andthen_Done_iff)
  note k = clock_time_works [OF w c]
  show "beside disk s s'" "layout s' = layout s" using k(1,2) by (simp_all add: s')
  show "i_dev (inodes s' rip) = i_dev (inodes s rip)" "i_num (inodes s' rip) = i_num (inodes s rip)"
    using k(3) by (simp_all add: s' upd_inode_def)
qed

subsection \<open>Writing and reading an inode\<close>

definition inode_block :: "fs \<Rightarrow> nat \<Rightarrow> u16 \<Rightarrow> u16" where
  "inode_block s sp n = (n - 1) div 32 + s_imap_blocks (supers s sp) + s_zmap_blocks (supers s sp) + 2"

definition inode_offset :: "u16 \<Rightarrow> addr" where
  "inode_offset n = ucast ((n - 1) mod 32) * 32"

lemma inode_into_dirt [simp]: "inode_into (i\<lparr>i_dirt := v\<rparr>) a d = inode_into i a d"
  by (simp add: inode_into_def Let_def)

lemma rw_inode_write:
  assumes w: "works_on e disk s" "spare_buf s" and d: "disk_dev (i_dev (inodes s rip))"
    and r: "rw_inode e rip True s = Done s'"
  obtains sp where "get_super (i_dev (inodes s rip)) s = Done sp" "works_on e disk s'" "spare_buf s'" "layout s' = layout s"
    "i_dev (inodes s' rip) = i_dev (inodes s rip)" "i_num (inodes s' rip) = i_num (inodes s rip)"
    "block_view disk s' (i_dev (inodes s rip)) (inode_block s sp (i_num (inodes s rip))) =
       inode_into (inodes s' rip) (inode_offset (i_num (inodes s rip)))
         (block_view disk s (i_dev (inodes s rip)) (inode_block s sp (i_num (inodes s rip))))"
proof -
  let ?dev = "i_dev (inodes s rip)" and ?n = "i_num (inodes s rip)"
  have dw: "disk_works e disk" using w(1) by (simp add: works_on_def)
  obtain sp where sp: "get_super ?dev s = Done sp" using r by (auto simp: rw_inode_def Let_def andthen_Done_iff)
  let ?b = "inode_block s sp ?n" and ?a = "inode_offset ?n"
  obtain bp s1 where g: "get_block e ?dev ?b NORMAL s = Done (bp, s1)" "works_on e disk s1" "b_data (bufs s1 bp) = block_view disk s ?dev ?b"
    "buf_place s1 bp = (?dev, ?b)" "\<forall>d b. disk_dev d \<longrightarrow> block_view disk s1 d b = block_view disk s d b" "0 \<le> buf_uses s bp"
    "buf_uses s1 = (buf_uses s)(bp := buf_uses s bp + 1)" "(file_part s1, inode_part s1) = (file_part s, inode_part s)"
    using cache.get_law [OF w(1) d w(2), of ?b] by blast
  obtain s2 where t: "(if i_update (inodes s1 rip) \<noteq> 0 then update_times e rip s1 else Done s1) = Done s2"
    and p: "andthen (put_block e (Some bp) INODE_BLOCK (buf_fill bp (inode_into (inodes s2 rip) ?a) s2))
      (\<lambda>s. Done (upd_inode rip (i_dirt_update (\<lambda>_. CLEAN)) s)) = Done s'"
    using r sp g(1) by (auto simp: rw_inode_def Let_def andthen_Done_iff inode_block_def inode_offset_def buf_fill_def)
  have t2: "beside disk s1 s2" "layout s2 = layout s1" "i_dev (inodes s2 rip) = i_dev (inodes s1 rip)" "i_num (inodes s2 rip) = i_num (inodes s1 rip)"
    using t update_times_works [OF dw] by (auto split: if_splits)
  note b2 = beside_store [OF t2(1)]
  let ?s3 = "buf_fill bp (inode_into (inodes s2 rip) ?a) s2"
  have u: "0 < buf_uses s2 bp" "buf_place s2 bp = (?dev, ?b)" "works_on e disk s2" using b2 g by simp_all
  have f: "works_on e disk ?s3" "buf_uses ?s3 = buf_uses s2" "(file_part ?s3, inode_part ?s3) = (file_part s2, inode_part s2)"
    "\<forall>d' b'. disk_dev d' \<longrightarrow> block_view disk ?s3 d' b' =
      (if d' = ?dev \<and> b' = ?b then inode_into (inodes s2 rip) ?a (block_view disk s2 ?dev ?b) else block_view disk s2 d' b')"
    using cache.fill_law [OF u(3,1,2) d] by blast+
  obtain s4 where s4: "put_block e (Some bp) INODE_BLOCK ?s3 = Done s4" "works_on e disk s4"
    "\<forall>d b. disk_dev d \<longrightarrow> block_view disk s4 d b = block_view disk ?s3 d b" "buf_uses s4 = (buf_uses ?s3)(bp := buf_uses ?s3 bp - 1)"
    "(file_part s4, inode_part s4) = (file_part ?s3, inode_part ?s3)"
    using cache.put_law [OF f(1), of bp INODE_BLOCK] u(1) f(2) by auto
  have s': "s' = upd_inode rip (i_dirt_update (\<lambda>_. CLEAN)) s4" using p s4(1) by simp
  have be: "beside disk s4 s'" by (simp add: s')
  note bs = beside_store [OF be]
  have "buf_uses s4 = buf_uses s" using s4(4) f(2) b2(3) g(7) by (simp add: fun_eq_iff)
  then have sb: "spare_buf s'" using cache.room_law [OF w(1) s4(2)] w(2) bs(5) by simp
  have in4: "inodes s4 = inodes s2" "supers s4 = supers s2" using s4(5) f(3) by (simp_all add: inode_part_iff)
  have ly: "layout s' = layout s"
  proof -
    have "layout s' = layout s2" using in4 by (simp add: s' fun_eq_iff layout_def upd_inode_def)
    also have "\<dots> = layout s" using t2(2) layout_inode_part [of s1 s] g(8) by simp
    finally show ?thesis .
  qed
  have i1: "inodes s1 = inodes s" using g(8) by (simp add: inode_part_iff)
  have ir: "inodes s' rip = (inodes s2 rip)\<lparr>i_dirt := CLEAN\<rparr>" using in4 by (simp add: s' upd_inode_def)
  have "block_view disk s' ?dev ?b = inode_into (inodes s' rip) ?a (block_view disk s ?dev ?b)"
    using bs(2) s4(3) f(4) d b2(2) g(5) ir by simp
  then show ?thesis using that [OF sp _ sb ly] bs(1) s4(2) ir t2(3,4) i1 by simp
qed

lemma rw_inode_read:
  assumes w: "works_on e disk s" "spare_buf s" and d: "disk_dev (i_dev (inodes s rip))" and sp: "get_super (i_dev (inodes s rip)) s = Done sp"
  obtains s' where "rw_inode e rip False s = Done s'" "works_on e disk s'" "spare_buf s'"
    "inodes s' rip = (inode_from (block_view disk s (i_dev (inodes s rip)) (inode_block s sp (i_num (inodes s rip))))
       (inode_offset (i_num (inodes s rip))) (inodes s rip))\<lparr>i_dirt := CLEAN\<rparr>"
proof -
  let ?dev = "i_dev (inodes s rip)" and ?n = "i_num (inodes s rip)"
  let ?b = "inode_block s sp ?n" and ?a = "inode_offset ?n"
  obtain bp s1 where g: "get_block e ?dev ?b NORMAL s = Done (bp, s1)" "works_on e disk s1" "b_data (bufs s1 bp) = block_view disk s ?dev ?b"
    "0 \<le> buf_uses s bp" "buf_uses s1 = (buf_uses s)(bp := buf_uses s bp + 1)" "(file_part s1, inode_part s1) = (file_part s, inode_part s)"
    using cache.get_law [OF w(1) d w(2), of ?b] by blast
  let ?s2 = "upd_inode rip (inode_from (b_data (bufs s1 bp)) ?a) s1"
  have be: "beside disk s1 ?s2" by simp
  note b2 = beside_store [OF be]
  have w2: "works_on e disk ?s2" "0 < buf_uses ?s2 bp" using b2 g by simp_all
  obtain s3 where s3: "put_block e (Some bp) INODE_BLOCK ?s2 = Done s3" "works_on e disk s3" "buf_uses s3 = (buf_uses ?s2)(bp := buf_uses ?s2 bp - 1)"
    "(file_part s3, inode_part s3) = (file_part ?s2, inode_part ?s2)"
    using cache.put_law [OF w2, of INODE_BLOCK] by blast
  let ?s4 = "upd_inode rip (i_dirt_update (\<lambda>_. CLEAN)) s3"
  have be: "beside disk s3 ?s4" by simp
  note b4 = beside_store [OF be]
  have "rw_inode e rip False s = Done ?s4"
    using sp g(1) s3(1) by (simp add: rw_inode_def Let_def inode_block_def inode_offset_def)
  moreover have "buf_uses s3 = buf_uses s" using s3(3) b2(3) g(5) by (simp add: fun_eq_iff)
  then have "spare_buf ?s4" using cache.room_law [OF w(1) s3(2)] w(2) b4(5) by simp
  moreover have "inodes s1 = inodes s" "inodes s3 = inodes ?s2" using g(6) s3(4) by (simp_all add: inode_part_iff)
  then have "inodes ?s4 rip = (inode_from (block_view disk s ?dev ?b) ?a (inodes s rip))\<lparr>i_dirt := CLEAN\<rparr>"
    using g(3) by (simp add: upd_inode_def)
  ultimately show ?thesis using that b4(1) s3(2) by simp
qed

text \<open>
  C20: The inode round trip.  When \<open>rw_inode\<close> has written an inode, with its times brought up to
  date, reading the inode of that device and number, into the same slot of the inode table or any
  other, succeeds and gives back the mode, owner, size, modification time, group, link count
  and all nine zone numbers that were written.
\<close>

theorem inode_roundtrip:
  assumes "works_on e disk s" and "spare_buf s" and "disk_dev (i_dev (inodes s rip))" and "rw_inode e rip True s = Done s1"
    and "i_dev (inodes s1 rip') = i_dev (inodes s1 rip)" and "i_num (inodes s1 rip') = i_num (inodes s1 rip)"
  shows "\<exists>s2. rw_inode e rip' False s1 = Done s2 \<and> disk_fields (inodes s2 rip') = disk_fields (inodes s1 rip)"
proof -
  let ?dev = "i_dev (inodes s rip)" and ?n = "i_num (inodes s rip)"
  obtain sp where sp: "get_super ?dev s = Done sp" and w: "works_on e disk s1" "spare_buf s1" and ly: "layout s1 = layout s"
    and same: "i_dev (inodes s1 rip) = ?dev" "i_num (inodes s1 rip) = ?n"
    and v: "block_view disk s1 ?dev (inode_block s sp ?n) = inode_into (inodes s1 rip) (inode_offset ?n) (block_view disk s ?dev (inode_block s sp ?n))"
    using rw_inode_write [OF assms(1-4)] .
  have i': "i_dev (inodes s1 rip') = ?dev" "i_num (inodes s1 rip') = ?n" using assms(5,6) same by simp_all
  have "get_super (i_dev (inodes s1 rip')) s1 = Done sp" using sp layout_get_super [OF ly] i' by simp
  moreover have "inode_block s1 sp ?n = inode_block s sp ?n" by (simp add: inode_block_def layout_D [OF ly])
  ultimately obtain s2 where "rw_inode e rip' False s1 = Done s2"
    "inodes s2 rip' = (inode_from (inode_into (inodes s1 rip) (inode_offset ?n) (block_view disk s ?dev (inode_block s sp ?n)))
       (inode_offset ?n) (inodes s1 rip'))\<lparr>i_dirt := CLEAN\<rparr>"
    using rw_inode_read [OF w, of rip' sp] assms(3) i' v by auto
  moreover have "disk_fields (i\<lparr>i_dirt := v\<rparr>) = disk_fields i" for i v by (simp add: disk_fields_def)
  ultimately show ?thesis using inode_bytes by auto
qed

text \<open>With nothing to bring up to date, writing an inode succeeds.\<close>

lemma rw_inode_write_done:
  assumes w: "works_on e disk s" "spare_buf s" and d: "disk_dev (i_dev (inodes s rip))"
    and sp: "get_super (i_dev (inodes s rip)) s = Done sp" and u: "i_update (inodes s rip) = 0"
  shows "\<exists>s'. rw_inode e rip True s = Done s'"
proof -
  let ?dev = "i_dev (inodes s rip)" and ?n = "i_num (inodes s rip)"
  let ?b = "inode_block s sp ?n" and ?a = "inode_offset ?n"
  obtain bp s1 where g: "get_block e ?dev ?b NORMAL s = Done (bp, s1)" "works_on e disk s1" "buf_place s1 bp = (?dev, ?b)"
    "0 \<le> buf_uses s bp" "buf_uses s1 = (buf_uses s)(bp := buf_uses s bp + 1)" "(file_part s1, inode_part s1) = (file_part s, inode_part s)"
    using cache.get_law [OF w(1) d w(2), of ?b] by blast
  have i: "inodes s1 = inodes s" using g(6) by (simp add: inode_part_iff)
  let ?s2 = "buf_fill bp (inode_into (inodes s1 rip) ?a) s1"
  have u1: "0 < buf_uses s1 bp" using g(4,5) by simp
  have "works_on e disk ?s2" "0 < buf_uses ?s2 bp" using cache.fill_law [OF g(2) u1 g(3) d] u1 by simp_all
  then obtain s3 where "put_block e (Some bp) INODE_BLOCK ?s2 = Done s3" using cache.put_law by blast
  then show ?thesis
    using sp g(1) u i by (simp add: rw_inode_def Let_def inode_block_def inode_offset_def buf_fill_def)
qed

lemma inode_roundtrip_witness:
  "\<exists>s1 s2. rw_inode (ram_env (\<lambda>_ _ _. 7)) 3 True (demo_fs) = Done s1 \<and> rw_inode (ram_env (\<lambda>_ _ _. 7)) 3 False s1 = Done s2 \<and>
    disk_fields (inodes s2 3) = disk_fields (inodes s1 3)"
proof -
  have d: "disk_dev (i_dev (inodes demo_fs 3))" by (simp add: demo_fs_def upd_inode_def upd_super_def)
  have "get_super (i_dev (inodes demo_fs 3)) demo_fs = Done 0"
    by (simp add: demo_fs_def get_super_def upd_inode_def upd_super_def upt_rec)
  moreover have "i_update (inodes demo_fs 3) = 0" by (simp add: demo_fs_def upd_inode_def upd_super_def buf_pool_eq bss_def)
  ultimately obtain s1 where "rw_inode (ram_env (\<lambda>_ _ _. 7)) 3 True demo_fs = Done s1"
    using rw_inode_write_done [OF demo_works d] by blast
  then show ?thesis using inode_roundtrip [OF demo_works d _ refl refl] by blast
qed

end
