(* ===== verification/Fs_Bits.thy ===== *)
theory Fs_Bits
  imports Fs_Inode_Disk
begin

section \<open>File system: bit maps\<close>

text \<open>
  \<open>alloc_bit\<close> against a plain search for the first clear bit: the words and blocks it visits are
  the bits from the word of the origin to the end of the map and round to the beginning.
\<close>

unbundle bit_operations_syntax

subsection \<open>A map as a set of bits\<close>

definition word_bit :: "bytes \<Rightarrow> nat \<Rightarrow> bool" where
  "word_bit d r = bit (get16 d (2 * of_nat (r div 16))) (r mod 16)"

definition taken :: "fs \<Rightarrow> (nat \<Rightarrow> ptr) \<Rightarrow> nat \<Rightarrow> bool" where
  "taken s map_ptr k =
     (case map_ptr (k div 8192) of None \<Rightarrow> True | Some bp \<Rightarrow> word_bit (b_data (bufs s bp)) (k mod 8192))"

text \<open>The order of the search: \<open>n\<close> blocks from word \<open>w\<close> of block \<open>b\<close> on.\<close>

primrec bit_order :: "nat \<Rightarrow> nat \<Rightarrow> nat \<Rightarrow> nat \<Rightarrow> nat list" where
  "bit_order 0 blocks b w = []"
| "bit_order (Suc n) blocks b w =
     [8192 * b + 16 * w..<8192 * Suc b] @ bit_order n blocks (if b + 1 = blocks then 0 else b + 1) 0"

subsection \<open>One word, one block\<close>

lemma zero_bit_find: "zero_bit k is = List.find (\<lambda>i. \<not> bit k i) is"
  by (induction "is") (auto simp: bit_iff_odd_drop_bit and_one_eq even_iff_mod_2_eq_zero [symmetric])

lemma unat_u16: "k < 65536 \<Longrightarrow> unat (of_nat k :: u16) = k"
  by (simp add: unsigned_of_nat take_bit_nat_eq_self)

lemma bit_number_eq: "bit_number b w i = of_nat (8192 * b + 16 * w + i)"
  by (simp add: bit_number_def BIT_MAP_SHIFT_def push_bit_eq_mult algebra_simps)

lemma find_append: "List.find P (xs @ ys) = (case List.find P xs of None \<Rightarrow> List.find P ys | Some x \<Rightarrow> Some x)"
  by (induction xs) auto

lemma find_shift: "List.find P [c..<c + n] = map_option ((+) c) (List.find (\<lambda>i. P (c + i)) [0..<n])"
proof (induction n)
  case 0
  then show ?case by simp
next
  case (Suc n)
  then show ?case by (auto simp: find_append split: option.splits)
qed

lemma all_ones: "k = -1 \<Longrightarrow> i < 16 \<Longrightarrow> bit k i" for k :: u16
  by simp

text \<open>The bits of a block behind word \<open>w\<close>.\<close>

lemma word_scan_find:
  assumes "b < 8"
  shows "w \<le> 512 \<Longrightarrow> word_scan d b map_bits [w..<512] =
    (case List.find (\<lambda>k. \<not> word_bit d (k mod 8192)) [8192 * b + 16 * w..<8192 * Suc b] of
       None \<Rightarrow> None
     | Some k \<Rightarrow> if k \<ge> unat map_bits then None else Some (k mod 8192 div 16, k mod 16, of_nat k))"
proof (induction "512 - w" arbitrary: w)
  case 0
  then have "w = 512" by simp
  then show ?case by simp
next
  case (Suc m)
  then have w: "w < 512" by simp
  let ?c = "8192 * b + 16 * w" and ?k = "get16 d (2 * of_nat w)"
  have split: "[?c..<8192 * Suc b] = [?c..<?c + 16] @ [8192 * b + 16 * Suc w..<8192 * Suc b]"
  proof -
    have "8192 * b + 16 * Suc w = ?c + 16" "8192 * Suc b = ?c + 16 + (8192 * Suc b - (?c + 16))" using w by simp_all
    then show ?thesis using upt_add_eq_append [of ?c "?c + 16" "8192 * Suc b - (?c + 16)"] by (metis le_add1)
  qed
  have m: "(?c + i) mod 8192 = 16 * w + i" if "i < 16" for i
  proof -
    have "?c + i = (16 * w + i) + b * 8192" "16 * w + i < 8192" using that w by simp_all
    then show ?thesis by (metis mod_less mod_mult_self1)
  qed
  have bits: "word_bit d ((?c + i) mod 8192) = bit ?k i" if "i < 16" for i
    unfolding m [OF that] word_bit_def using that by simp
  have f: "List.find (\<lambda>k. \<not> word_bit d (k mod 8192)) [?c..<?c + 16] = map_option ((+) ?c) (List.find (\<lambda>i. \<not> bit ?k i) [0..<16])"
    unfolding find_shift by (rule arg_cong [where f = "map_option _"], rule find_cong [OF refl]) (simp only: bits set_upt atLeastLessThan_iff)
  have IH: "word_scan d b map_bits [Suc w..<512] =
    (case List.find (\<lambda>k. \<not> word_bit d (k mod 8192)) [8192 * b + 16 * Suc w..<8192 * Suc b] of
       None \<Rightarrow> None
     | Some k \<Rightarrow> if k \<ge> unat map_bits then None else Some (k mod 8192 div 16, k mod 16, of_nat k))"
    by (rule Suc(1)) (use Suc(2) w in auto)
  show ?case
  proof (cases "List.find (\<lambda>i. \<not> bit ?k i) [0..<16]")
    case None
    then have "word_scan d b map_bits [w..<512] = word_scan d b map_bits [Suc w..<512]"
      using w by (simp add: upt_conv_Cons Let_def zero_bit_find del: upt_rec_numeral)
    then show ?thesis unfolding IH split find_append f None by simp
  next
    case (Some i)
    then have i: "i < 16" "\<not> bit ?k i" by (auto simp: find_Some_iff)
    then have "?k \<noteq> -1" using all_ones by blast
    then have ws: "word_scan d b map_bits [w..<512] =
        (if bit_number b w i \<ge> map_bits then None else Some (w, i, bit_number b w i))"
      using w Some by (simp add: upt_conv_Cons Let_def zero_bit_find del: upt_rec_numeral)
    have un: "unat (of_nat (?c + i) :: u16) = ?c + i" by (rule unat_u16) (use i w assms in linarith)
    have "bit_number b w i \<ge> map_bits \<longleftrightarrow> ?c + i \<ge> unat map_bits" unfolding bit_number_eq word_le_nat_alt un by simp
    moreover have "(?c + i) mod 8192 div 16 = w" "(?c + i) mod 16 = i"
    proof -
      have "?c + i = i + (512 * b + w) * 16" by simp
      then show "(?c + i) mod 16 = i" using i(1) by (metis mod_less mod_mult_self1)
      show "(?c + i) mod 8192 div 16 = w" unfolding m [OF i(1)] using i(1) by simp
    qed
    ultimately show ?thesis unfolding ws split find_append f Some using bit_number_eq [of b w i] by simp
  qed
qed

subsection \<open>The whole map\<close>

definition mark :: "(nat \<Rightarrow> ptr) \<Rightarrow> nat \<Rightarrow> fs \<Rightarrow> fs" where
  "mark map_ptr k s =
     (case map_ptr (k div 8192) of None \<Rightarrow> s
      | Some bp \<Rightarrow>
          let a = 2 * of_nat (k mod 8192 div 16)
          in upd_buf bp (\<lambda>p. p\<lparr>b_data := put16 a (get16 (b_data p) a OR push_bit (k mod 16) 1) (b_data p), b_dirt := DIRTY\<rparr>) s)"

lemma bit_order_mem:
  "k \<in> set (bit_order n blocks b w) \<Longrightarrow> b < blocks \<Longrightarrow> k div 8192 < blocks"
  by (induction n arbitrary: b w) (auto split: if_splits simp del: upt_rec_numeral)

lemma find_bounded:
  "List.find (\<lambda>k. k < m \<and> P k) [a..<c] = (case List.find P [a..<c] of None \<Rightarrow> None | Some k \<Rightarrow> if k \<ge> m then None else Some k)"
proof (cases "List.find P [a..<c]")
  case None
  then have "List.find (\<lambda>k. k < m \<and> P k) [a..<c] = None" by (auto simp: find_None_iff)
  then show ?thesis using None by simp
next
  case (Some k)
  then obtain i where i: "i < length [a..<c]" "P ([a..<c] ! i)" "k = [a..<c] ! i" "\<forall>j<i. \<not> P ([a..<c] ! j)"
    by (auto simp: find_Some_iff)
  show ?thesis
  proof (cases "k < m")
    case True
    then have "List.find (\<lambda>k. k < m \<and> P k) [a..<c] = Some k" unfolding find_Some_iff using i by blast
    then show ?thesis using Some True by simp
  next
    case False
    have "\<not> (x < m \<and> P x)" if x: "x \<in> set [a..<c]" for x
    proof
      assume "x < m \<and> P x"
      then have "x - a < i" "P ([a..<c] ! (x - a))" using x False i(1,3) by auto
      then show False using i(4) by blast
    qed
    then have "List.find (\<lambda>k. k < m \<and> P k) [a..<c] = None" by (simp add: find_None_iff)
    then show ?thesis using Some False by simp
  qed
qed

lemma block_scan_find:
  assumes "blocks \<le> 8" and "\<forall>b<blocks. map_ptr b \<noteq> None"
  shows "b < blocks \<Longrightarrow> w \<le> 512 \<Longrightarrow> block_scan n map_ptr map_bits blocks b w s =
    (case List.find (\<lambda>k. k < unat map_bits \<and> \<not> taken s map_ptr k) (bit_order n blocks b w) of
       None \<Rightarrow> Done (NO_BIT, s) | Some k \<Rightarrow> Done (of_nat k, mark map_ptr k s))"
proof (induction n arbitrary: b w)
  case 0
  then show ?case by simp
next
  case (Suc n)
  obtain bp where bp: "map_ptr b = Some bp" using assms(2) Suc.prems(1) by auto
  let ?d = "b_data (bufs s bp)" and ?xs = "[8192 * b + 16 * w..<8192 * Suc b]"
  have db: "k div 8192 = b" if "k \<in> set ?xs" for k using that by auto
  have "taken s map_ptr k = word_bit ?d (k mod 8192)" if "k \<in> set ?xs" for k using bp db [OF that] by (simp add: taken_def)
  then have "List.find (\<lambda>k. \<not> taken s map_ptr k) ?xs = List.find (\<lambda>k. \<not> word_bit ?d (k mod 8192)) ?xs"
    by (intro find_cong) auto
  then have ws: "word_scan ?d b map_bits [w..<512] = map_option (\<lambda>k. (k mod 8192 div 16, k mod 16, of_nat k))
      (List.find (\<lambda>k. k < unat map_bits \<and> \<not> taken s map_ptr k) ?xs)"
    unfolding find_bounded using word_scan_find [of b w ?d map_bits] Suc.prems assms(1) by (auto split: option.split)
  let ?b = "if b + 1 = blocks then 0 else b + 1"
  have b: "?b < blocks" using Suc.prems(1) by auto
  show ?case
  proof (cases "List.find (\<lambda>k. k < unat map_bits \<and> \<not> taken s map_ptr k) ?xs")
    case None
    then have "block_scan (Suc n) map_ptr map_bits blocks b w s = block_scan n map_ptr map_bits blocks ?b 0 s"
      using bp ws by simp
    then show ?thesis unfolding bit_order.simps find_append None using Suc.IH [OF b, of 0] by simp
  next
    case (Some k)
    then have "k \<in> set ?xs" by (auto simp: find_Some_iff simp del: upt_rec_numeral)
    then have "mark map_ptr k s = upd_buf bp (\<lambda>p. p\<lparr>b_data := put16 (2 * of_nat (k mod 8192 div 16)) (get16 (b_data p) (2 * of_nat (k mod 8192 div 16))
        OR push_bit (k mod 16) 1) (b_data p), b_dirt := DIRTY\<rparr>) s"
      using bp db by (simp add: mark_def Let_def)
    then show ?thesis unfolding bit_order.simps find_append Some using bp ws Some by simp
  qed
qed

text \<open>Where the search of \<open>alloc_bit\<close> begins, and the blocks it visits.\<close>

definition search_order :: "nat \<Rightarrow> nat \<Rightarrow> nat list" where
  "search_order blocks origin =
     (let w = origin mod 8192 div 16 in bit_order (if w = 0 then blocks else blocks + 1) blocks (origin div 8192) w)"

lemma alloc_bit_below:
  assumes "blocks \<le> 8" and "\<forall>b<blocks. map_ptr b \<noteq> None" and "origin < map_bits" and "unat map_bits \<le> 8192 * blocks"
  shows "alloc_bit map_ptr map_bits blocks origin s =
    (case List.find (\<lambda>k. k < unat map_bits \<and> \<not> taken s map_ptr k) (search_order blocks (unat origin)) of
       None \<Rightarrow> Done (NO_BIT, s) | Some k \<Rightarrow> Done (of_nat k, mark map_ptr k s))"
proof -
  have o: "unat origin < unat map_bits" using assms(3) by (simp add: word_less_nat_alt)
  define b where "b = unat (drop_bit BIT_MAP_SHIFT origin)"
  have b: "b = unat origin div 8192" by (simp add: b_def BIT_MAP_SHIFT_def drop_bit_eq_div unat_div)
  then have bl: "b < blocks" using o assms(4) by (simp add: less_mult_imp_div_less)
  have r: "unat (origin - push_bit BIT_MAP_SHIFT (of_nat b)) = unat origin mod 8192"
  proof -
    have "push_bit BIT_MAP_SHIFT (of_nat b :: u16) = of_nat (8192 * (unat origin div 8192))"
      unfolding b by (simp add: BIT_MAP_SHIFT_def push_bit_eq_mult mult.commute)
    moreover have "origin = of_nat (unat origin)" by simp
    moreover have "unat origin = 8192 * (unat origin div 8192) + unat origin mod 8192" by simp
    ultimately have "origin - push_bit BIT_MAP_SHIFT (of_nat b) = of_nat (unat origin mod 8192)"
      by (metis add_diff_cancel_left' of_nat_add)
    then show ?thesis using unat_u16 [of "unat origin mod 8192"] by simp
  qed
  have w: "unat origin mod 8192 div 16 \<le> 512" by (simp add: less_mult_imp_div_less less_imp_le)
  have "alloc_bit map_ptr map_bits blocks origin s =
      block_scan (if unat origin mod 8192 div 16 = 0 then blocks else blocks + 1) map_ptr map_bits blocks b (unat origin mod 8192 div 16) s"
  proof -
    have n: "\<not> map_bits \<le> origin" using assms(3) by simp
    show ?thesis unfolding alloc_bit_def Let_def if_not_P [OF n] b_def [symmetric] r ..
  qed
  also have "\<dots> = (case List.find (\<lambda>k. k < unat map_bits \<and> \<not> taken s map_ptr k) (search_order blocks (unat origin)) of
       None \<Rightarrow> Done (NO_BIT, s) | Some k \<Rightarrow> Done (of_nat k, mark map_ptr k s))"
    unfolding search_order_def Let_def b [symmetric] by (rule block_scan_find [OF assms(1,2) bl w])
  finally show ?thesis .
qed

lemma alloc_bit_find:
  assumes "blocks \<le> 8" and "\<forall>b<blocks. map_ptr b \<noteq> None" and "0 < map_bits" and "unat map_bits \<le> 8192 * blocks"
  shows "alloc_bit map_ptr map_bits blocks origin s =
    (case List.find (\<lambda>k. k < unat map_bits \<and> \<not> taken s map_ptr k) (search_order blocks (if origin \<ge> map_bits then 0 else unat origin)) of
       None \<Rightarrow> Done (NO_BIT, s) | Some k \<Rightarrow> Done (of_nat k, mark map_ptr k s))"
proof (cases "origin \<ge> map_bits")
  case True
  then have "alloc_bit map_ptr map_bits blocks origin s = alloc_bit map_ptr map_bits blocks 0 s"
    by (simp add: alloc_bit_def)
  then show ?thesis using alloc_bit_below [OF assms(1,2) assms(3,4), where s = s] True by simp
next
  case False
  then show ?thesis using alloc_bit_below [OF assms(1,2) _ assms(4), where s = s] False by (simp add: not_le [symmetric])
qed

subsection \<open>Setting and clearing\<close>

definition disjoint_maps :: "nat \<Rightarrow> (nat \<Rightarrow> ptr) \<Rightarrow> bool" where
  "disjoint_maps blocks map_ptr \<longleftrightarrow> (\<forall>b<blocks. map_ptr b \<noteq> None) \<and> inj_on map_ptr {..<blocks}"

lemma word_bit_put:
  assumes "r < 8192" and "w < 512"
  shows "word_bit (put16 (2 * of_nat w) v d) r = (if r div 16 = w then bit v (r mod 16) else word_bit d r)"
proof (cases "r div 16 = w")
  case True
  then show ?thesis by (simp add: word_bit_def get16_put16)
next
  case False
  have un: "unat (2 * of_nat k :: addr) = 2 * k" "unat (2 * of_nat k + 1 :: addr) = 2 * k + 1" if "k < 512" for k
  proof -
    have "unat (of_nat (2 * k) :: addr) = 2 * k" "unat (of_nat (2 * k + 1) :: addr) = 2 * k + 1"
      using that by (simp_all only: unat_of_nat) simp_all
    then show "unat (2 * of_nat k :: addr) = 2 * k" "unat (2 * of_nat k + 1 :: addr) = 2 * k + 1" by (simp_all add: add.commute)
  qed
  have r: "r div 16 < 512" using assms(1) by (simp add: less_mult_imp_div_less)
  have "(2 * of_nat (r div 16) :: addr) \<noteq> 2 * of_nat w" "(2 * of_nat (r div 16) :: addr) \<noteq> 2 * of_nat w + 1"
    "(2 * of_nat (r div 16) + 1 :: addr) \<noteq> 2 * of_nat w"
    using un [OF r] un [OF assms(2)] False
    by (auto dest!: arg_cong [where f = unat] simp del: unat_add_lem)
  then show ?thesis using False by (simp add: word_bit_def get16_other)
qed

lemma bit_same_word:
  "j div 8192 = k div 8192 \<Longrightarrow> j mod 8192 div 16 = k mod 8192 div 16 \<Longrightarrow> j mod 16 = k mod 16 \<longleftrightarrow> j = k" for j k :: nat
proof
  assume e: "j div 8192 = k div 8192" "j mod 8192 div 16 = k mod 8192 div 16" and m: "j mod 16 = k mod 16"
  have "j mod 8192 mod 16 = k mod 8192 mod 16" using m by (simp add: mod_mod_cancel)
  then have "j mod 8192 = k mod 8192" using e(2) by (metis div_mult_mod_eq)
  then show "j = k" using e(1) by (metis div_mult_mod_eq)
qed simp

lemma taken_mark:
  assumes "disjoint_maps blocks map_ptr" and "k < 8192 * blocks" and "j < 8192 * blocks"
  shows "taken (mark map_ptr k s) map_ptr j = (taken s map_ptr j \<or> j = k)"
proof -
  have b: "k div 8192 < blocks" "j div 8192 < blocks" using assms(2,3) by (simp_all add: less_mult_imp_div_less)
  then obtain bp bq where p: "map_ptr (k div 8192) = Some bp" "map_ptr (j div 8192) = Some bq"
    using assms(1) unfolding disjoint_maps_def by blast
  have same: "bq = bp \<longleftrightarrow> j div 8192 = k div 8192"
    using assms(1) b p by (metis disjoint_maps_def inj_onD lessThan_iff option.inject)
  have w: "k mod 8192 div 16 < 512" by (simp add: less_mult_imp_div_less)
  let ?v = "get16 (b_data (bufs s bp)) (2 * of_nat (k mod 8192 div 16)) OR push_bit (k mod 16) 1"
  have bitv: "bit ?v (j mod 16) = (word_bit (b_data (bufs s bp)) (k mod 8192 div 16 * 16 + j mod 16) \<or> j mod 16 = k mod 16)"
    by (auto simp: bit_or_iff bit_exp_iff word_bit_def)
  show ?thesis
  proof (cases "bq = bp")
    case True
    then have d: "j div 8192 = k div 8192" using same by simp
    have "word_bit (put16 (2 * of_nat (k mod 8192 div 16)) ?v (b_data (bufs s bp))) (j mod 8192) = (word_bit (b_data (bufs s bp)) (j mod 8192) \<or> j = k)"
    proof (cases "j mod 8192 div 16 = k mod 8192 div 16")
      case e: True
      have jm: "j mod 8192 mod 16 = j mod 16" by (simp add: mod_mod_cancel)
      have "k mod 8192 div 16 * 16 + j mod 16 = j mod 8192" unfolding e [symmetric] jm [symmetric] by (rule div_mult_mod_eq)
      then show ?thesis using word_bit_put [OF _ w, of "j mod 8192" ?v] e bitv jm bit_same_word [OF d e] by simp
    next
      case False
      then have "j \<noteq> k" by auto
      then show ?thesis using word_bit_put [OF _ w, of "j mod 8192" ?v] False by simp
    qed
    then show ?thesis using p True by (simp add: taken_def mark_def Let_def buf_simps)
  next
    case False
    then have "j \<noteq> k" using same by auto
    then show ?thesis using p False by (simp add: taken_def mark_def Let_def buf_simps)
  qed
qed

lemma taken_free:
  assumes "disjoint_maps blocks map_ptr" and "k < 8192 * blocks" and "j < 8192 * blocks" and "blocks \<le> 8"
  shows "taken (free_bit map_ptr (of_nat k) s) map_ptr j = (taken s map_ptr j \<and> j \<noteq> k)"
proof -
  have b: "k div 8192 < blocks" "j div 8192 < blocks" using assms(2,3) by (simp_all add: less_mult_imp_div_less)
  then obtain bp bq where p: "map_ptr (k div 8192) = Some bp" "map_ptr (j div 8192) = Some bq"
    using assms(1) unfolding disjoint_maps_def by blast
  have same: "bq = bp \<longleftrightarrow> j div 8192 = k div 8192"
    using assms(1) b p by (metis disjoint_maps_def inj_onD lessThan_iff option.inject)
  have w: "k mod 8192 div 16 < 512" by (simp add: less_mult_imp_div_less)
  have u: "unat (of_nat k :: u16) = k" using assms(2,4) by (intro unat_u16) simp
  let ?v = "get16 (b_data (bufs s bp)) (2 * of_nat (k mod 8192 div 16)) AND NOT (push_bit (k mod 16) 1)"
  have bk: "unat (drop_bit BIT_MAP_SHIFT (of_nat k :: u16)) = k div 8192"
    by (simp add: BIT_MAP_SHIFT_def drop_bit_eq_div unat_div u)
  have r: "unat ((of_nat k :: u16) - push_bit BIT_MAP_SHIFT (of_nat (k div 8192))) = k mod 8192"
  proof -
    have "push_bit BIT_MAP_SHIFT (of_nat (k div 8192) :: u16) = of_nat (8192 * (k div 8192))"
      by (simp add: BIT_MAP_SHIFT_def push_bit_eq_mult mult.commute)
    moreover have "k = 8192 * (k div 8192) + k mod 8192" by simp
    ultimately have "(of_nat k :: u16) - push_bit BIT_MAP_SHIFT (of_nat (k div 8192)) = of_nat (k mod 8192)"
      by (metis add_diff_cancel_left' of_nat_add)
    then show ?thesis using unat_u16 [of "k mod 8192"] by simp
  qed
  have f: "free_bit map_ptr (of_nat k) s =
      upd_buf bp (\<lambda>p. p\<lparr>b_data := put16 (2 * of_nat (k mod 8192 div 16)) (get16 (b_data p) (2 * of_nat (k mod 8192 div 16)) AND
        NOT (push_bit (k mod 16) 1)) (b_data p), b_dirt := DIRTY\<rparr>) s"
    using p(1) by (simp add: free_bit_def Let_def bk r mod_mod_cancel)
  have bitv: "bit ?v (j mod 16) = (word_bit (b_data (bufs s bp)) (k mod 8192 div 16 * 16 + j mod 16) \<and> j mod 16 \<noteq> k mod 16)"
    by (auto simp: bit_and_iff bit_not_iff bit_exp_iff word_bit_def)
  show ?thesis
  proof (cases "bq = bp")
    case True
    then have d: "j div 8192 = k div 8192" using same by simp
    have "word_bit (put16 (2 * of_nat (k mod 8192 div 16)) ?v (b_data (bufs s bp))) (j mod 8192) = (word_bit (b_data (bufs s bp)) (j mod 8192) \<and> j \<noteq> k)"
    proof (cases "j mod 8192 div 16 = k mod 8192 div 16")
      case e: True
      have jm: "j mod 8192 mod 16 = j mod 16" by (simp add: mod_mod_cancel)
      have "k mod 8192 div 16 * 16 + j mod 16 = j mod 8192" unfolding e [symmetric] jm [symmetric] by (rule div_mult_mod_eq)
      then show ?thesis using word_bit_put [OF _ w, of "j mod 8192" ?v] e bitv jm bit_same_word [OF d e] by simp
    next
      case False
      then have "j \<noteq> k" by auto
      then show ?thesis using word_bit_put [OF _ w, of "j mod 8192" ?v] False by simp
    qed
    then show ?thesis using p True by (simp add: taken_def f buf_simps)
  next
    case False
    then have "j \<noteq> k" using same by auto
    then show ?thesis using p False by (simp add: taken_def f buf_simps)
  qed
qed

lemma bit_order_bound:
  "k \<in> set (bit_order n blocks b w) \<Longrightarrow> b < blocks \<Longrightarrow> k < 8192 * blocks"
proof -
  assume "k \<in> set (bit_order n blocks b w)" "b < blocks"
  then have "k div 8192 < blocks" by (rule bit_order_mem)
  then show "k < 8192 * blocks" by (simp add: div_less_iff_less_mult mult.commute)
qed

text \<open>The search visits every bit.\<close>

lemma bit_order_blocks:
  "b < blocks \<Longrightarrow> t < n \<Longrightarrow> x div 8192 = (b + t) mod blocks \<Longrightarrow> w = 0 \<or> 0 < t \<Longrightarrow> x \<in> set (bit_order n blocks b w)"
proof (induction n arbitrary: b w t)
  case 0
  then show ?case by simp
next
  case (Suc n)
  show ?case
  proof (cases t)
    case 0
    then have "x div 8192 = b" "w = 0" using Suc.prems by auto
    moreover from this have "8192 * b \<le> x" "x < 8192 * Suc b" by auto
    ultimately show ?thesis by simp
  next
    case (Suc t')
    let ?b = "if b + 1 = blocks then 0 else b + 1"
    have "?b < blocks" "t' < n" using Suc.prems(1,2) Suc by auto
    moreover have "x div 8192 = (?b + t') mod blocks"
    proof (cases "b + 1 = blocks")
      case True
      then have "b + t = t' + blocks" using Suc by simp
      then show ?thesis using Suc.prems(3) True by simp
    next
      case False
      then show ?thesis using Suc.prems(3) Suc by simp
    qed
    ultimately show ?thesis using Suc.IH [of ?b t' 0] by simp
  qed
qed

lemma search_order_all:
  assumes "origin < 8192 * blocks"
  shows "set (search_order blocks origin) = {..<8192 * blocks}"
proof
  let ?b = "origin div 8192" and ?w = "origin mod 8192 div 16"
  have b: "?b < blocks" using assms by (simp add: less_mult_imp_div_less)
  then show "set (search_order blocks origin) \<subseteq> {..<8192 * blocks}"
    using bit_order_bound [OF _ b] unfolding search_order_def Let_def by blast
  show "{..<8192 * blocks} \<subseteq> set (search_order blocks origin)"
  proof
    fix x assume "x \<in> {..<8192 * blocks}"
    then have x: "x div 8192 < blocks" by (simp add: less_mult_imp_div_less)
    define t where "t = (x div 8192 + blocks - ?b) mod blocks"
    have t: "t < blocks" using b by (simp add: t_def)
    have xt: "x div 8192 = (?b + t) mod blocks"
    proof -
      have "(?b + t) mod blocks = (?b + (x div 8192 + blocks - ?b)) mod blocks" by (simp add: t_def mod_add_right_eq)
      also have "?b + (x div 8192 + blocks - ?b) = x div 8192 + blocks" using b by simp
      finally show ?thesis using x by simp
    qed
    show "x \<in> set (search_order blocks origin)"
    proof (cases "?w = 0")
      case True
      then show ?thesis using bit_order_blocks [OF b t xt] by (simp add: search_order_def)
    next
      case False
      let ?t = "if t = 0 then blocks else t"
      have "x div 8192 = (?b + ?t) mod blocks" "?t < blocks + 1" "0 < ?t" using xt t b by auto
      then show ?thesis using bit_order_blocks [OF b, of ?t "blocks + 1" x ?w] False by (simp add: search_order_def)
    qed
  qed
qed

text \<open>
  C18: Allocating and freeing bits of the bit maps, for inodes and zones alike.  \<open>alloc_bit\<close>
  always returns: when every bit below \<open>map_bits\<close> is taken it answers \<open>NO_BIT\<close> and changes nothing;
  otherwise it takes exactly one bit that was free, the first in the order that starts with the word
  of the origin and wraps around, and \<open>free_bit\<close> of that bit restores the map.
\<close>

theorem alloc_bit_takes_free_bit:
  assumes "disjoint_maps blocks map_ptr" and "blocks \<le> 8" and "0 < map_bits" and "unat map_bits \<le> 8192 * blocks"
  shows "if \<forall>k<unat map_bits. taken s map_ptr k then alloc_bit map_ptr map_bits blocks origin s = Done (NO_BIT, s)
    else \<exists>k s'. alloc_bit map_ptr map_bits blocks origin s = Done (of_nat k, s') \<and> k < unat map_bits \<and> \<not> taken s map_ptr k \<and>
      List.find (\<lambda>k. k < unat map_bits \<and> \<not> taken s map_ptr k) (search_order blocks (if origin \<ge> map_bits then 0 else unat origin)) = Some k \<and>
      (\<forall>j<8192 * blocks. taken s' map_ptr j = (taken s map_ptr j \<or> j = k)) \<and>
      (\<forall>j<8192 * blocks. taken (free_bit map_ptr (of_nat k) s') map_ptr j = taken s map_ptr j)"
proof -
  let ?o = "if origin \<ge> map_bits then 0 else unat origin"
  let ?P = "\<lambda>k. k < unat map_bits \<and> \<not> taken s map_ptr k"
  have m: "\<forall>b<blocks. map_ptr b \<noteq> None" using assms(1) by (simp add: disjoint_maps_def)
  note find = alloc_bit_find [OF assms(2) m assms(3,4), of origin s]
  have "0 < unat map_bits" using assms(3) by (simp add: word_less_nat_alt)
  then have "?o < 8192 * blocks" using assms(4) by (auto simp: word_less_nat_alt not_le)
  note all = search_order_all [OF this]
  show ?thesis
  proof (cases "\<forall>k<unat map_bits. taken s map_ptr k")
    case True
    then have "List.find ?P (search_order blocks ?o) = None" by (auto simp: find_None_iff)
    then show ?thesis using True find by simp
  next
    case False
    then obtain j where j: "?P j" by blast
    then have "j \<in> set (search_order blocks ?o)" using all assms(4) by simp
    then obtain k where k: "List.find ?P (search_order blocks ?o) = Some k"
      using j by (cases "List.find ?P (search_order blocks ?o)") (auto simp: find_None_iff)
    then have p: "k < unat map_bits" "\<not> taken s map_ptr k" by (auto simp: find_Some_iff)
    then have kb: "k < 8192 * blocks" using assms(4) by simp
    note tm = taken_mark [OF assms(1) kb, where s = s] and tf = taken_free [OF assms(1) kb _ assms(2)]
    have a: "alloc_bit map_ptr map_bits blocks origin s = Done (of_nat k, mark map_ptr k s)" unfolding find k by simp
    have b: "\<forall>j<8192 * blocks. taken (mark map_ptr k s) map_ptr j = (taken s map_ptr j \<or> j = k)"
      using tm by simp
    have c: "\<forall>j<8192 * blocks. taken (free_bit map_ptr (of_nat k) (mark map_ptr k s)) map_ptr j = taken s map_ptr j"
      using tm tf p(2) by auto
    show ?thesis unfolding if_not_P [OF False] by (intro exI conjI) (rule a, rule p, rule p, rule k, rule b, rule c)
  qed
qed

lemma alloc_bit_takes_free_bit_witness:
  "\<exists>k s'. alloc_bit (\<lambda>_. Some 4) 100 1 40 bss = Done (of_nat k, s') \<and> k < 100 \<and> taken s' (\<lambda>_. Some 4) k \<and>
    \<not> taken (free_bit (\<lambda>_. Some 4) (of_nat k) s') (\<lambda>_. Some 4) k"
proof -
  have d: "disjoint_maps 1 (\<lambda>_. Some 4)" by (simp add: disjoint_maps_def inj_on_def)
  have t: "\<not> taken bss (\<lambda>_. Some 4) k" for k by (simp add: taken_def word_bit_def bss_def get16_def)
  have n: "\<not> (\<forall>k<unat (100 :: u16). taken bss (\<lambda>_. Some 4) k)" using t by (auto intro: exI [of _ 0])
  obtain k s' where "alloc_bit (\<lambda>_. Some 4) 100 1 40 bss = Done (of_nat k, s')" "k < 100"
    "\<forall>j<8192. taken s' (\<lambda>_. Some 4) j = (taken bss (\<lambda>_. Some 4) j \<or> j = k)"
    "\<forall>j<8192. taken (free_bit (\<lambda>_. Some 4) (of_nat k) s') (\<lambda>_. Some 4) j = taken bss (\<lambda>_. Some 4) j"
    using alloc_bit_takes_free_bit [OF d, of 100 bss 40] unfolding if_not_P [OF n] by auto
  then show ?thesis using t by (intro exI [of _ k] exI [of _ s']) auto
qed

end
