(* ===== verification/Fs_Names.thy ===== *)
theory Fs_Names
  imports Fs_Bits Fs_Path
begin

section \<open>File system: permissions and names\<close>

text \<open>
  \<open>forbidden\<close> of fs/protect.c against the Unix rule stated bit by bit, and \<open>get_name\<close> of fs/path.c
  against a specification on lists of characters.
\<close>

unbundle bit_operations_syntax

subsection \<open>Permissions\<close>

text \<open>The Unix rule for bit \<open>n\<close> of the access wanted (0 execute, 1 write, 2 read): the super-user may
  do everything, anyone else what the mode grants to the owner, the group or the others, the
  first of the three that applies.\<close>

definition permits :: "inode \<Rightarrow> u16 \<Rightarrow> 8 word \<Rightarrow> nat \<Rightarrow> bool" where
  "permits i uid gid n \<longleftrightarrow>
     n < 3 \<and> (uid = 0 \<or> bit (i_mode i) (if uid = i_uid i then n + 6 else if gid = i_gid i then n + 3 else n))"

definition executable :: "inode \<Rightarrow> bool" where
  "executable i \<longleftrightarrow> bit (i_mode i) 0 \<or> bit (i_mode i) 3 \<or> bit (i_mode i) 6"

lemma bit_7: "bit (7 :: u16) n \<longleftrightarrow> n < 3"
proof -
  have e: "(7 :: u16) = mask 3" by (simp add: mask_eq_decr_exp)
  show ?thesis unfolding e bit_mask_iff by auto
qed

lemma perm_bits_permits: "bit (perm_bits i uid gid) n = permits i uid gid n"
  unfolding perm_bits_def permits_def by (simp add: bit_and_iff bit_drop_bit_eq bit_7 add.commute conj_commute del: bit_numeral_word_iff)

lemma subset_bits: "(p OR w) \<noteq> p \<longleftrightarrow> (\<exists>n. bit w n \<and> \<not> bit p n)" for p w :: u16
proof -
  have "p OR w = p" if "\<forall>n. bit w n \<longrightarrow> bit p n" by (rule bit_eqI) (use that in \<open>auto simp: bit_or_iff\<close>)
  moreover have "bit p n" if "p OR w = p" "bit w n" for n using that by (metis bit_or_iff)
  ultimately show ?thesis by blast
qed

lemma and_zero_bits: "p AND w = 0 \<longleftrightarrow> (\<forall>n. bit w n \<longrightarrow> \<not> bit p n)" for p w :: u16
proof -
  have "p AND w = 0" if "\<forall>n. bit w n \<longrightarrow> \<not> bit p n" by (rule bit_eqI) (use that in \<open>auto simp: bit_and_iff\<close>)
  moreover have "\<not> bit p n" if "p AND w = 0" "bit w n" for n using that by (metis bit_and_iff bit_0_eq bot_apply bot_bool_def)
  ultimately show ?thesis by blast
qed

lemma not_executable: "i_mode i AND 73 = 0 \<longleftrightarrow> \<not> executable i"
proof -
  have 73: "bit (73 :: u16) n \<longleftrightarrow> n = 0 \<or> n = 3 \<or> n = 6" for n
  proof -
    have "(73 :: u16) = 2 ^ 0 OR 2 ^ 3 OR 2 ^ 6" by simp
    then show ?thesis by (simp only: bit_or_iff bit_exp_iff) auto
  qed
  show ?thesis unfolding and_zero_bits 73 by (auto simp: executable_def)
qed

lemma on_bit: "on X_BIT w \<longleftrightarrow> bit w 0" "on W_BIT w \<longleftrightarrow> bit w 1"
  using and_exp [of w 0] and_exp [of w 1] by (simp_all add: on_def)

text \<open>
  C21: Access control.  \<open>forbidden\<close> decides by the Unix rule, with the real or the effective
  identity of the caller: it refuses with \<open>EACCES\<close> exactly when some wanted bit is not permitted,
  or execution is wanted of a file nobody may execute, the super-user included, then with
  \<open>EROFS\<close> when writing is wanted on a read-only file system, and grants everything else.
\<close>

theorem forbidden_decides:
  assumes "get_super (i_dev (inodes s rip)) s = Done sp"
  shows "forbidden rip want real_uid s =
    (let i = inodes s rip; p = fprocs s (fp s);
         uid = (if real_uid then fp_realuid p else fp_effuid p); gid = (if real_uid then fp_realgid p else fp_effgid p)
     in Done (if (\<exists>n. bit want n \<and> \<not> permits i uid gid n) \<or> (bit want 0 \<and> \<not> executable i) then EACCES
              else if bit want 1 \<and> s_rd_only (supers s sp) \<noteq> 0 then EROFS else OK))"
  using assms
  by (simp add: forbidden_def Let_def subset_bits perm_bits_permits not_executable on_bit read_only_def)

subsection \<open>Components of a path\<close>

text \<open>The string \<open>xs\<close> lies at \<open>p\<close>, with its final zero.\<close>

definition string_at :: "(nat \<Rightarrow> 8 word) \<Rightarrow> nat \<Rightarrow> name \<Rightarrow> bool" where
  "string_at u p xs \<longleftrightarrow> (\<forall>i<length xs. u (p + i) = xs ! i) \<and> 0 \<notin> set xs \<and> u (p + length xs) = 0"

lemma string_at_Nil [simp]: "string_at u p [] \<longleftrightarrow> u p = 0"
  by (simp add: string_at_def)

lemma string_at_Cons [simp]: "string_at u p (c # xs) \<longleftrightarrow> u p = c \<and> c \<noteq> 0 \<and> string_at u (p + 1) xs"
proof -
  have "(\<forall>i<length (c # xs). u (p + i) = (c # xs) ! i) \<longleftrightarrow> u p = c \<and> (\<forall>i<length xs. u (p + 1 + i) = xs ! i)"
    by (simp add: All_less_Suc2)
  then show ?thesis by (auto simp: string_at_def)
qed

lemma skip_slashes_string:
  "string_at u p xs \<Longrightarrow> length xs < n \<Longrightarrow>
    \<exists>q. skip_slashes n u p = Done q \<and> q = p + length (takeWhile (\<lambda>c. c = SLASH) xs) \<and> string_at u q (dropWhile (\<lambda>c. c = SLASH) xs)"
proof (induction xs arbitrary: p n)
  case Nil
  then obtain m where "n = Suc m" by (cases n) auto
  then show ?case using Nil by simp
next
  case (Cons c xs)
  then obtain m where m: "n = Suc m" by (cases n) auto
  then show ?case using Cons.IH [of "p + 1" m] Cons.prems by auto
qed

lemma component_string:
  "string_at u p xs \<Longrightarrow> p + length xs < lim \<Longrightarrow> length acc \<le> NAME_MAX \<Longrightarrow>
    component u lim p acc = (take NAME_MAX (acc @ takeWhile (\<lambda>c. c \<noteq> SLASH) xs), p + length (takeWhile (\<lambda>c. c \<noteq> SLASH) xs)) \<and>
    string_at u (p + length (takeWhile (\<lambda>c. c \<noteq> SLASH) xs)) (dropWhile (\<lambda>c. c \<noteq> SLASH) xs)"
proof (induction xs arbitrary: p acc)
  case Nil
  then show ?case by (simp add: component.simps)
next
  case (Cons c xs)
  show ?case
  proof (cases "c = SLASH")
    case True
    then show ?thesis using Cons.prems by (subst component.simps) simp
  next
    case False
    let ?acc = "if length acc < NAME_MAX then acc @ [c] else acc"
    have "component u lim p acc = component u lim (p + 1) ?acc" using Cons.prems False by (subst component.simps) simp
    moreover have "take NAME_MAX (?acc @ ys) = take NAME_MAX (acc @ c # ys)" for ys
      using Cons.prems(3) by (cases "length acc < NAME_MAX") auto
    ultimately show ?thesis using Cons.IH [of "p + 1" ?acc] Cons.prems False by simp
  qed
qed

lemma trailing_string:
  "string_at u p xs \<Longrightarrow> p + length xs < lim \<Longrightarrow>
    trailing u lim p = p + length (takeWhile (\<lambda>c. c = SLASH) xs) \<and> string_at u (trailing u lim p) (dropWhile (\<lambda>c. c = SLASH) xs)"
proof (induction xs arbitrary: p)
  case Nil
  then show ?case by (simp add: trailing.simps)
next
  case (Cons c xs)
  show ?case
  proof (cases "c = SLASH")
    case True
    then have e: "trailing u lim p = trailing u lim (p + 1)" using Cons.prems by (subst trailing.simps) simp
    have s: "string_at u (p + 1) xs" "p + 1 + length xs < lim" using Cons.prems by simp_all
    show ?thesis unfolding e using conjunct1 [OF Cons.IH [OF s]] conjunct2 [OF Cons.IH [OF s]] True by simp
  next
    case False
    then show ?thesis using Cons.prems by (subst (1 2) trailing.simps) simp
  qed
qed

text \<open>The reference: the first component of a path, cut to 14 characters, and what comes after it.\<close>

definition split_path :: "name \<Rightarrow> name \<times> name" where
  "split_path xs =
     (let ys = dropWhile (\<lambda>c. c = SLASH) xs
      in (takeWhile (\<lambda>c. c \<noteq> SLASH) ys, dropWhile (\<lambda>c. c = SLASH) (dropWhile (\<lambda>c. c \<noteq> SLASH) ys)))"

text \<open>
  C22: Parsing a path.  For every path shorter than \<open>PATH_MAX\<close>, \<open>get_name\<close> returns the first
  component, cut to 14 characters and padded with zeros, and the position of the rest of the path,
  which does not begin with a slash: leading, doubled and trailing slashes make no difference.
\<close>

theorem get_name_splits:
  assumes "string_at u p xs" and "length xs < PATH_MAX"
  shows "\<exists>q. get_name u p = Done (Some q, pad (take NAME_MAX (fst (split_path xs)))) \<and> string_at u q (snd (split_path xs)) \<and>
    q + length (snd (split_path xs)) = p + length xs"
proof -
  let ?ys = "dropWhile (\<lambda>c. c = SLASH) xs" and ?lim = "p + PATH_MAX"
  let ?n = "takeWhile (\<lambda>c. c \<noteq> SLASH) ?ys" and ?zs = "dropWhile (\<lambda>c. c \<noteq> SLASH) ?ys"
  let ?r = "dropWhile (\<lambda>c. c = SLASH) ?zs"
  have len: "length (takeWhile P l) + length (dropWhile P l) = length l" for P and l :: name
    by (metis length_append takeWhile_dropWhile_id)
  obtain q where q: "skip_slashes 4096 u p = Done q" "q = p + length (takeWhile (\<lambda>c. c = SLASH) xs)" "string_at u q ?ys"
    using skip_slashes_string [OF assms(1), of 4096] assms(2) by auto
  have l1: "q + length ?ys = p + length xs" using q(2) len [of "\<lambda>c. c = SLASH" xs] by simp
  then have c: "component u ?lim q [] = (take NAME_MAX ?n, q + length ?n)" "string_at u (q + length ?n) ?zs"
    using component_string [OF q(3), of ?lim "[]"] assms(2) by auto
  have l2: "q + length ?n + length ?zs = p + length xs" using l1 len [of "\<lambda>c. c \<noteq> SLASH" ?ys] by simp
  then have t: "trailing u ?lim (q + length ?n) = q + length ?n + length (takeWhile (\<lambda>c. c = SLASH) ?zs)"
    "string_at u (trailing u ?lim (q + length ?n)) ?r"
    using trailing_string [OF c(2), of ?lim] assms(2) by auto
  have l3: "trailing u ?lim (q + length ?n) + length ?r = p + length xs"
    using l2 t(1) len [of "\<lambda>c. c = SLASH" ?zs] by simp
  then have "\<not> trailing u ?lim (q + length ?n) \<ge> ?lim" using assms(2) by simp
  then have "get_name u p = Done (Some (trailing u ?lim (q + length ?n)), pad (take NAME_MAX ?n))"
    using q(1) c(1) by (simp add: get_name_def Let_def)
  then show ?thesis using t(2) l3 by (auto simp: split_path_def Let_def)
qed

lemma get_name_splits_witness:
  "\<exists>q. get_name (\<lambda>k. if k < 9 then [47, 117, 115, 114, 47, 47, 98, 105, 110] ! k else 0) 0 = Done (Some q, pad [117, 115, 114]) \<and> q = 6"
proof -
  let ?u = "\<lambda>k. if k < 9 then [47, 117, 115, 114, 47, 47, 98, 105, 110] ! k else (0 :: 8 word)"
  let ?xs = "[47, 117, 115, 114, 47, 47, 98, 105, 110] :: name"
  have "string_at ?u 0 ?xs" by simp
  then show ?thesis using get_name_splits [of ?u 0 ?xs] by (simp add: split_path_def)
qed

lemma forbidden_decides_witness:
  "forbidden 3 4 True demo_fs = Done OK"
proof -
  have f: "(4 :: u16) = 2 ^ 2" by simp
  have b: "bit (4 :: u16) n \<longleftrightarrow> n = 2" for n unfolding f bit_exp_iff by auto
  have "get_super (i_dev (inodes demo_fs 3)) demo_fs = Done 0"
    by (simp add: demo_fs_def get_super_def upd_inode_def upd_super_def upt_rec)
  moreover have "fp_realuid (fprocs demo_fs (fp demo_fs)) = 0"
    by (simp add: demo_fs_def upd_inode_def upd_super_def buf_pool_eq bss_def)
  ultimately show ?thesis
    using forbidden_decides [of demo_fs 3 0 4 True] by (simp add: Let_def permits_def b del: bit_numeral_word_iff)
qed

end
