(* ===== verification/Tty_State.thy ===== *)
theory Tty_State
  imports Kernel_Run
begin

section \<open>Terminals: the data of the terminal task and its drivers\<close>

text \<open>
  The data of kernel/tty.h, of kernel/stvdu.c (\<open>vduinfo\<close> and the registers of the video circuit), of
  kernel/rs232.c (\<open>rs_struct\<close>) and of kernel/stkbd.c.  A pointer into one of the character arrays
  is the index it points to; a byte array is a function, so that an index the code does not
  check can leave the array.  Main memory, which holds the video RAM and the buffers of the users, is
  that of the kernel, \<open>kern\<close>.  What the task sends to FS and what it gives to the serial line are
  appended to logs, newest first.  The fonts of kernel/stfnt.c and the keyboard tables of
  keymap.h are data, fields of the state that nothing changes.
\<close>

unbundle bit_operations_syntax

abbreviation (input) "NR_CONS \<equiv> (1::int)"
abbreviation (input) "NR_RS_LINES \<equiv> (1::int)"
abbreviation (input) "CONSOLE \<equiv> (0::int)"
abbreviation (input) "SERIAL1 \<equiv> (1::int)"
abbreviation (input) "OPERATOR \<equiv> (-1::int)"
abbreviation (input) "TTY_IN_BYTES \<equiv> (1000::nat)"
abbreviation (input) "TTY_BUF_SIZE \<equiv> (256::nat)"
abbreviation (input) "MAX_OVERRUN \<equiv> (500::nat)"
abbreviation (input) "TTY_TASK \<equiv> (-9::int)"

abbreviation (input) "XTABS \<equiv> (0xC00::u16)"
abbreviation (input) "BITS8 \<equiv> (0x300::u16)"
abbreviation (input) "EVENP \<equiv> (0x80::u16)"
abbreviation (input) "ODDP \<equiv> (0x40::u16)"
abbreviation (input) "RAW \<equiv> (0x20::u16)"
abbreviation (input) "CRMOD \<equiv> (0x10::u16)"
abbreviation (input) "ECHO \<equiv> (0x08::u16)"
abbreviation (input) "CBREAK \<equiv> (0x02::u16)"

abbreviation (input) "MARKER \<equiv> (0x80::8 word)"
abbreviation (input) "c_BS \<equiv> (8::8 word)"
abbreviation (input) "c_HT \<equiv> (9::8 word)"
abbreviation (input) "c_LF \<equiv> (10::8 word)"
abbreviation (input) "c_CR \<equiv> (13::8 word)"
abbreviation (input) "c_SP \<equiv> (32::8 word)"
abbreviation (input) "c_BACKSLASH \<equiv> (92::8 word)"

abbreviation (input) "RUNNING \<equiv> (0::int)"
abbreviation (input) "STOPPED \<equiv> (1::int)"
abbreviation (input) "NOT_WAITING \<equiv> (0::int)"
abbreviation (input) "WAITING \<equiv> (1::int)"
abbreviation (input) "COMPLETED \<equiv> (2::int)"

abbreviation (input) "TTY_READ \<equiv> (3::int)"
abbreviation (input) "TTY_WRITE \<equiv> (4::int)"
abbreviation (input) "TTY_IOCTL \<equiv> (5::int)"
abbreviation (input) "TTY_SETPGRP \<equiv> (6::int)"
abbreviation (input) "CANCEL \<equiv> (0::int)"
abbreviation (input) "TTY_SUSPEND \<equiv> (-998::int)"
abbreviation (input) "TTY_REVIVE \<equiv> (67::int)"
abbreviation (input) "TTY_TASK_REPLY \<equiv> (68::int)"
abbreviation (input) "EINTR \<equiv> (-4::int)"
abbreviation (input) "EINVAL \<equiv> (-22::int)"

text \<open>A C \<open>int\<close> has 16 bits; \<open>wrap\<close> is what is kept of a number.\<close>

definition wrap :: "int \<Rightarrow> int" where
  "wrap i = sint (word_of_int i :: u16)"

subsection \<open>Requests and replies\<close>

text \<open>The fields of the messages to a driver; each is named after its use.\<close>

record driver_mess =
  dm_source :: int
  dm_type :: int
  dm_line :: int
  dm_proc :: int
  dm_count :: int
  dm_spek :: addr
  dm_flags :: addr
  dm_addr :: addr

record tty_answer =
  ans_type :: int
  ans_proc :: int
  ans_status :: int
  ans_flags :: addr
  ans_spek :: addr

subsection \<open>Lines\<close>

datatype devstart = No_start | Console | Start_rs232

record tty_struct =
  tty_inqueue :: "nat \<Rightarrow> 8 word"
  tty_inhead :: nat
  tty_intail :: nat
  tty_incount :: int
  tty_lfct :: int
  tty_ramqueue :: "nat \<Rightarrow> 8 word"
  tty_rwords :: int
  tty_devstart :: devstart
  tty_mode :: u16
  tty_speed :: u16
  tty_column :: int
  tty_escaped :: bool
  tty_inhibited :: int
  tty_waiting :: int
  tty_erase :: "8 word"
  tty_kill :: "8 word"
  tty_intr :: "8 word"
  tty_quit :: "8 word"
  tty_xon :: "8 word"
  tty_xoff :: "8 word"
  tty_eof :: "8 word"
  tty_incaller :: int
  tty_inproc :: int
  tty_in_vir :: addr
  tty_inleft :: int
  tty_otcaller :: int
  tty_outproc :: int
  tty_out_vir :: addr
  tty_phys :: addr
  tty_outleft :: int
  tty_cum :: int
  tty_pgrp :: int

record rs_struct =
  rs_busy :: bool
  rs_left :: int
  rs_next :: int
  rs_buf :: "int \<Rightarrow> 8 word"

subsection \<open>The screen\<close>

record vduinfo =
  vram :: addr
  curs :: addr
  linc :: int
  nrow :: int
  bytr :: int
  mono :: bool
  v_attr :: "8 word"
  ccol :: int
  crow :: int
  savattr :: "8 word"
  savccol :: int
  savcrow :: int
  vbuf :: "nat \<Rightarrow> 8 word"
  v_next :: "nat option"

record video =
  vd_ramh :: "8 word"
  vd_ramm :: "8 word"
  vd_rgb :: "nat \<Rightarrow> u16"
  vd_res :: "8 word"

record tstate =
  kern :: kstate
  ttys :: "int \<Rightarrow> tty_struct"
  rss :: "int \<Rightarrow> rs_struct"
  vdu :: vduinfo
  video :: video
  font8 :: "nat \<Rightarrow> 8 word"
  font16 :: "nat \<Rightarrow> 8 word"
  keypad :: bool
  app_mode :: bool
  drv_count :: int
  drv_max :: int
  drv_buf :: "nat \<Rightarrow> 8 word"
  output_done :: int
  flush_flag :: int
  shift1 :: bool
  shift2 :: bool
  control :: bool
  alt :: bool
  capslock :: bool
  repeatkey :: nat
  repeattic :: int
  keynorm :: "nat \<Rightarrow> 8 word"
  keyshft :: "nat \<Rightarrow> 8 word"
  keycaps :: "nat \<Rightarrow> 8 word"
  lastchar :: "8 word"
  mf_ucr :: "8 word"
  mf_tddr :: "8 word"
  st_use_con :: bool
  st_use_prt :: bool
  st_do_dump :: bool
  wire :: "8 word list"
  answers :: "(int \<times> tty_answer) list"

definition upd_tty :: "int \<Rightarrow> (tty_struct \<Rightarrow> tty_struct) \<Rightarrow> tstate \<Rightarrow> tstate" where
  "upd_tty i f s = s\<lparr>ttys := (ttys s)(i := f (ttys s i))\<rparr>"

definition upd_rs :: "int \<Rightarrow> (rs_struct \<Rightarrow> rs_struct) \<Rightarrow> tstate \<Rightarrow> tstate" where
  "upd_rs i f s = s\<lparr>rss := (rss s)(i := f (rss s i))\<rparr>"

definition upd_vdu :: "(vduinfo \<Rightarrow> vduinfo) \<Rightarrow> tstate \<Rightarrow> tstate" where
  "upd_vdu f s = s\<lparr>vdu := f (vdu s)\<rparr>"

definition upd_ram :: "((addr \<Rightarrow> 8 word) \<Rightarrow> addr \<Rightarrow> 8 word) \<Rightarrow> tstate \<Rightarrow> tstate" where
  "upd_ram f s = s\<lparr>kern := upd_mem f (kern s)\<rparr>"

definition ram :: "tstate \<Rightarrow> addr \<Rightarrow> 8 word" where
  "ram s = kmem (kern s)"

text \<open>Answers leave through \<open>tty_reply\<close>, by \<open>send\<close>.\<close>

definition tty_reply :: "int \<Rightarrow> int \<Rightarrow> int \<Rightarrow> int \<Rightarrow> addr \<Rightarrow> addr \<Rightarrow> tstate \<Rightarrow> tstate" where
  "tty_reply code replyee proc_nr status extra other s =
     s\<lparr>answers := (replyee, \<lparr>ans_type = code, ans_proc = proc_nr, ans_status = status,
        ans_flags = extra, ans_spek = other\<rparr>) # answers s\<rparr>"

subsection \<open>Rewrite rules\<close>

lemma upd_tty_simps [simp]:
  "kern (upd_tty i f s) = kern s" "ttys (upd_tty i f s) = (ttys s)(i := f (ttys s i))"
  "rss (upd_tty i f s) = rss s" "vdu (upd_tty i f s) = vdu s" "video (upd_tty i f s) = video s"
  "ram (upd_tty i f s) = ram s" "drv_count (upd_tty i f s) = drv_count s"
  "drv_max (upd_tty i f s) = drv_max s" "drv_buf (upd_tty i f s) = drv_buf s"
  "output_done (upd_tty i f s) = output_done s" "wire (upd_tty i f s) = wire s"
  "answers (upd_tty i f s) = answers s" "lastchar (upd_tty i f s) = lastchar s"
  "font8 (upd_tty i f s) = font8 s" "font16 (upd_tty i f s) = font16 s"
  by (simp_all add: upd_tty_def ram_def)

lemma upd_rs_simps [simp]:
  "kern (upd_rs i g s) = kern s" "ttys (upd_rs i g s) = ttys s"
  "rss (upd_rs i g s) = (rss s)(i := g (rss s i))" "vdu (upd_rs i g s) = vdu s" "video (upd_rs i g s) = video s"
  "ram (upd_rs i g s) = ram s" "drv_count (upd_rs i g s) = drv_count s"
  "drv_max (upd_rs i g s) = drv_max s" "drv_buf (upd_rs i g s) = drv_buf s"
  "output_done (upd_rs i g s) = output_done s" "wire (upd_rs i g s) = wire s"
  "answers (upd_rs i g s) = answers s" "lastchar (upd_rs i g s) = lastchar s"
  by (simp_all add: upd_rs_def ram_def)

lemma upd_vdu_simps [simp]:
  "kern (upd_vdu h s) = kern s" "ttys (upd_vdu h s) = ttys s" "rss (upd_vdu h s) = rss s"
  "vdu (upd_vdu h s) = h (vdu s)" "video (upd_vdu h s) = video s" "ram (upd_vdu h s) = ram s"
  "drv_count (upd_vdu h s) = drv_count s" "drv_max (upd_vdu h s) = drv_max s" "drv_buf (upd_vdu h s) = drv_buf s"
  "output_done (upd_vdu h s) = output_done s" "wire (upd_vdu h s) = wire s" "answers (upd_vdu h s) = answers s"
  "font8 (upd_vdu h s) = font8 s" "font16 (upd_vdu h s) = font16 s"
  by (simp_all add: upd_vdu_def ram_def)

lemma upd_ram_simps [simp]:
  "ttys (upd_ram m s) = ttys s" "rss (upd_ram m s) = rss s" "vdu (upd_ram m s) = vdu s"
  "video (upd_ram m s) = video s" "ram (upd_ram m s) = m (ram s)" "procs (kern (upd_ram m s)) = procs (kern s)"
  "drv_count (upd_ram m s) = drv_count s" "drv_max (upd_ram m s) = drv_max s" "drv_buf (upd_ram m s) = drv_buf s"
  "output_done (upd_ram m s) = output_done s" "wire (upd_ram m s) = wire s" "answers (upd_ram m s) = answers s"
  "font8 (upd_ram m s) = font8 s" "font16 (upd_ram m s) = font16 s"
  by (simp_all add: upd_ram_def ram_def)

lemma ram_record [simp]:
  "ram (s\<lparr>video := v\<rparr>) = ram s" "ram (s\<lparr>keypad := b\<rparr>) = ram s" "ram (s\<lparr>app_mode := b\<rparr>) = ram s"
  "ram (s\<lparr>answers := a\<rparr>) = ram s" "ram (s\<lparr>output_done := n\<rparr>) = ram s" "ram (s\<lparr>wire := w\<rparr>) = ram s"
  "ram (s\<lparr>lastchar := c\<rparr>) = ram s"
  by (simp_all add: ram_def)

lemma tty_reply_simps [simp]:
  "kern (tty_reply c r p t x y s) = kern s" "ttys (tty_reply c r p t x y s) = ttys s"
  "rss (tty_reply c r p t x y s) = rss s" "vdu (tty_reply c r p t x y s) = vdu s"
  "ram (tty_reply c r p t x y s) = ram s" "drv_count (tty_reply c r p t x y s) = drv_count s"
  "answers (tty_reply c r p t x y s) = (r, \<lparr>ans_type = c, ans_proc = p, ans_status = t, ans_flags = x, ans_spek = y\<rparr>) # answers s"
  "wire (tty_reply c r p t x y s) = wire s"
  by (simp_all add: tty_reply_def ram_def)

lemma wrap_small: "-32768 \<le> i \<Longrightarrow> i \<le> 32767 \<Longrightarrow> wrap i = i"
  by (simp add: wrap_def signed_of_int signed_take_bit_int_eq_self_iff)

end
