(* ===== verification/Tty_Vdu.thy ===== *)
theory Tty_Vdu
  imports Tty_State
begin

section \<open>Terminals: the screen\<close>

text \<open>
  kernel/stvdu.c without \<open>flush\<close> and \<open>console\<close> (which belong to the lines) and without the sound
  registers that \<open>beep\<close> sets.  Characters are painted into the video RAM, which is main memory;
  escape sequences are collected in \<open>vbuf\<close>.  \<open>out_char\<close> and \<open>vductrl\<close> call each other only with
  constant characters, so the calls are written out; the loop for a tab takes as fuel the number of
  columns, and \<open>Stuck\<close> says that it has not ended by then.  The byte behind \<open>vbuf\<close>, which the code
  can overwrite, is the high byte of \<open>v->next\<close>, which the 68000 does not look at.
\<close>

unbundle bit_operations_syntax

abbreviation (input) "NCOL \<equiv> (80::int)"
abbreviation (input) "VBUF \<equiv> (20::nat)"
abbreviation (input) "FONTM \<equiv> (16::int)"
abbreviation (input) "FONTC \<equiv> (8::int)"

subsection \<open>Video memory\<close>

text \<open>Bytes from one scan line to the next, the byte of a column in a scan line, and the address of a
  character.\<close>

definition scan_bytes :: "vduinfo \<Rightarrow> int" where
  "scan_bytes v = (if mono v then 80 else 160)"

definition col_byte :: "vduinfo \<Rightarrow> int \<Rightarrow> int" where
  "col_byte v c = (if mono v then c else let c = 2 * c in if odd (c div 2) then c - 1 else c)"

definition char_addr :: "vduinfo \<Rightarrow> int \<Rightarrow> int \<Rightarrow> addr" where
  "char_addr v r c = vram v + word_of_int (r * bytr v + col_byte v c)"

definition scan_lines :: "vduinfo \<Rightarrow> int list" where
  "scan_lines v = [0..linc v - 1]"

text \<open>A loop over the scan lines of a character: byte \<open>k\<close> of the column at \<open>p\<close> becomes \<open>f\<close> of \<open>k\<close> and
  what memory holds.\<close>

definition each_line :: "vduinfo \<Rightarrow> addr \<Rightarrow> (int \<Rightarrow> (addr \<Rightarrow> 8 word) \<Rightarrow> 8 word) \<Rightarrow> int list \<Rightarrow> (addr \<Rightarrow> 8 word) \<Rightarrow> addr \<Rightarrow> 8 word" where
  "each_line v p f = fold (\<lambda>k m. m(p + word_of_int (k * scan_bytes v) := f k m))"

definition cpyline :: "int \<Rightarrow> int \<Rightarrow> tstate \<Rightarrow> tstate" where
  "cpyline r1 r2 s =
     (let v = vdu s
      in upd_ram (phys_copy (vram v + word_of_int (r1 * bytr v)) (vram v + word_of_int (r2 * bytr v))
           (16 * nat (bytr v div 16))) s)"

definition cpychar :: "int \<Rightarrow> int \<Rightarrow> int \<Rightarrow> int \<Rightarrow> tstate \<Rightarrow> tstate" where
  "cpychar r1 c1 r2 c2 s =
     (let v = vdu s; src = char_addr v r1 c1; dst = char_addr v r2 c2;
          from_src = (\<lambda>d k m. m (src + d + word_of_int (k * scan_bytes v)));
          s = upd_ram (each_line v dst (from_src 0) (scan_lines v)) s
      in if mono v then s
         else upd_ram (each_line v (dst + 2) (from_src 2) (rev (scan_lines v))) s)"

definition clrline :: "int \<Rightarrow> tstate \<Rightarrow> tstate" where
  "clrline r s =
     (let v = vdu s; p = vram v + word_of_int (r * bytr v)
      in upd_ram (\<lambda>m a. if unat (a - p) < 16 * nat (bytr v div 16) then 0 else m a) s)"

definition clrchar :: "int \<Rightarrow> int \<Rightarrow> tstate \<Rightarrow> tstate" where
  "clrchar r c s =
     (let v = vdu s; p = char_addr v r c;
          s = upd_ram (each_line v p (\<lambda>k m. 0) (scan_lines v)) s
      in if mono v then s
         else upd_ram (each_line v (p + 2) (\<lambda>k m. 0) (rev (scan_lines v))) s)"

definition clrarea :: "int \<Rightarrow> int \<Rightarrow> int \<Rightarrow> int \<Rightarrow> tstate \<Rightarrow> tstate" where
  "clrarea r1 c1 r2 c2 s =
     (let c2 = c2 + 1;
          (c2, r2) = (if c2 = NCOL then (0, r2 + 1) else (c2, r2));
          (r1, c1, s) =
            (if c1 > 0 \<and> r1 < r2
             then (r1 + 1, 0, fold (clrchar r1) (c1 # [c1 + 1..NCOL - 1]) s)
             else (r1, c1, s));
          s = fold clrline [r1..r2 - 1] s;
          r1 = max r1 r2
      in fold (clrchar r1) [c1..c2 - 1] s)"

definition moveto :: "int \<Rightarrow> int \<Rightarrow> tstate \<Rightarrow> tstate" where
  "moveto r c s =
     (let v = vdu s in
      if r < 0 \<or> r \<ge> nrow v \<or> c < 0 \<or> c > NCOL then s
      else upd_vdu (\<lambda>v. v\<lparr>crow := r, ccol := c,
             curs := char_addr v r (if c = NCOL then c - 1 else c)\<rparr>) s)"

definition paint :: "8 word \<Rightarrow> tstate \<Rightarrow> tstate" where
  "paint c s =
     (let v = vdu s; i = unat (c AND 0x7F);
          fp = (\<lambda>k. if linc v = 16 then font16 s (16 * i + nat k) else font8 s (8 * i + nat k));
          s = (if v_attr v AND 4 = 0
               then upd_ram (each_line v (curs v) (\<lambda>k m. if v_attr v AND 1 = 0 then fp k else NOT (fp k)) (scan_lines v)) s
               else s)
      in if \<not> mono v \<and> v_attr v AND 8 = 0
         then upd_ram (each_line v (curs v + 2) (\<lambda>k m. if v_attr v AND 2 = 0 then fp k else NOT (fp k)) (scan_lines v)) s
         else s)"

definition vducursor :: "tstate \<Rightarrow> tstate" where
  "vducursor s =
     (let v = vdu s;
          invert = (\<lambda>p k m. NOT (m (p + word_of_int (k * scan_bytes v))));
          s = (if v_attr v AND 4 = 0 then upd_ram (each_line v (curs v) (invert (curs v)) (scan_lines v)) s else s)
      in if \<not> mono v \<and> v_attr v AND 8 = 0
         then upd_ram (each_line v (curs v + 2) (invert (curs v + 2)) (scan_lines v)) s
         else s)"

subsection \<open>Initialisation\<close>

definition vduinit :: "tstate \<Rightarrow> tstate" where
  "vduinit s =
     (let s = upd_tty CONSOLE (tty_devstart_update (\<lambda>_. Console)) s;
          hi = vd_res (video s) AND 2 \<noteq> 0;
          s = (if hi then upd_vdu (\<lambda>v. v\<lparr>mono := True, linc := FONTM, nrow := 25, bytr := 1280\<rparr>) s
               else upd_vdu (\<lambda>v. v\<lparr>linc := FONTC, nrow := 25, bytr := 1280, v_attr := 8\<rparr>) s);
          s = s\<lparr>video := (if hi then (video s)\<lparr>vd_rgb := (vd_rgb (video s))(0 := 0)\<rparr>
                 else (video s)\<lparr>vd_res := 1, vd_rgb := (vd_rgb (video s))(1 := 0x777, 0 := 0)\<rparr>)\<rparr>;
          s = upd_vdu (\<lambda>v. v\<lparr>vram := push_bit 16 (ucast (vd_ramh (video s))) OR push_bit 8 (ucast (vd_ramm (video s)))\<rparr>) s;
          s = moveto 0 0 s
      in vducursor (clrarea 0 0 (nrow (vdu s) - 1) (NCOL - 1) s))"

subsection \<open>Parameters of an escape sequence\<close>

definition is_digit :: "8 word \<Rightarrow> bool" where
  "is_digit c \<longleftrightarrow> 48 \<le> unat c \<and> unat c \<le> 57"

text \<open>The digits from position \<open>p\<close>; the sequence ends with a 0 within \<open>vbuf\<close>.\<close>

primrec digits :: "nat \<Rightarrow> (nat \<Rightarrow> 8 word) \<Rightarrow> int \<Rightarrow> nat \<Rightarrow> int \<times> nat" where
  "digits 0 b i p = (i, p)"
| "digits (Suc n) b i p =
     (if is_digit (b p) then digits n b (wrap (wrap (i * 10) + (uint (b p) - 48))) (p + 1) else (i, p))"

definition vduparam :: "vduinfo \<Rightarrow> nat \<Rightarrow> int \<times> nat" where
  "vduparam v p =
     (let (i, q) = (if is_digit (vbuf v p) then digits (VBUF + 1) (vbuf v) 0 p else (-1, p))
      in (i, if vbuf v q = 59 then q + 1 else q))"

subsection \<open>Escape sequences\<close>

text \<open>The control characters that other routines call for: CR, VT and LF.\<close>

definition carriage_return :: "tstate \<Rightarrow> tstate" where
  "carriage_return s = moveto (crow (vdu s)) 0 s"

definition line_down :: "tstate \<Rightarrow> tstate" where
  "line_down s =
     (let v = vdu s in
      if crow v = nrow v - 1
      then clrline (nrow v - 1) (fold (\<lambda>i. cpyline (i + 1) i) [0..nrow v - 2] s)
      else moveto (crow v + 1) (ccol v) s)"

definition newline :: "tstate \<Rightarrow> tstate" where
  "newline s = line_down (if tty_mode (ttys s CONSOLE) AND CRMOD \<noteq> 0 then carriage_return s else s)"

definition set_rgb :: "nat \<Rightarrow> u16 \<Rightarrow> tstate \<Rightarrow> tstate" where
  "set_rgb k w s = s\<lparr>video := (video s)\<lparr>vd_rgb := (vd_rgb (video s))(k := w)\<rparr>\<rparr>"

definition colors :: "nat \<Rightarrow> u16" where
  "colors k = [0x000, 0x700, 0x070, 0x770, 0x007, 0x707, 0x077, 0x777, 0x555, 0x222] ! k"

text \<open>SGR: one parameter after the other.\<close>

definition rendition :: "int \<Rightarrow> tstate \<Rightarrow> tstate" where
  "rendition j s =
     (if j \<le> 0 then upd_vdu (v_attr_update (\<lambda>a. a AND NOT 3)) s
      else if j = 4 \<or> j = 7 then upd_vdu (v_attr_update (\<lambda>a. a OR 3)) s
      else if 30 \<le> j \<and> j \<le> 39 then set_rgb 1 (colors (nat (j - 30))) s
      else if 40 \<le> j \<and> j \<le> 49 then set_rgb 0 (colors (nat (j - 40))) s
      else s)"

primrec renditions :: "nat \<Rightarrow> int \<Rightarrow> nat \<Rightarrow> tstate \<Rightarrow> tstate" where
  "renditions 0 j p s = s"
| "renditions (Suc n) j p s =
     (let s = rendition j s; (j, p) = vduparam (vdu s) p
      in if j \<ge> 0 then renditions n j p s else s)"

definition insert_lines :: "int \<Rightarrow> tstate \<Rightarrow> tstate" where
  "insert_lines i s =
     (let v = vdu s;
          i = (if i > nrow v - crow v then nrow v - crow v else i);
          s = fold (\<lambda>j. cpyline (j - i) j) (rev [crow v + i..nrow v - 1]) s
      in fold clrline (rev [crow v..crow v + i - 1]) s)"

definition delete_lines :: "int \<Rightarrow> tstate \<Rightarrow> tstate" where
  "delete_lines i s =
     (let v = vdu s;
          i = (if i > nrow v - crow v then nrow v - crow v else i);
          s = fold (\<lambda>j. cpyline (j + i) j) [crow v..nrow v - i - 1] s
      in fold clrline [nrow v - i..nrow v - 1] s)"

definition insert_chars :: "int \<Rightarrow> tstate \<Rightarrow> tstate" where
  "insert_chars i s =
     (let v = vdu s; j = NCOL - ccol v; i = (if i > j then j else i);
          s = fold (\<lambda>k. cpychar (crow v) (ccol v + k) (crow v) (ccol v + k + i)) (rev [0..j - i - 1]) s
      in clrarea (crow v) (ccol v) (crow v) (ccol v + i - 1) s)"

definition delete_chars :: "int \<Rightarrow> tstate \<Rightarrow> tstate" where
  "delete_chars i s =
     (let v = vdu s; j = NCOL - ccol v; i = (if i > j then j else i);
          s = fold (\<lambda>k. cpychar (crow v) (NCOL - 1 - k) (crow v) (NCOL - 1 - k - i)) (rev [0..j - i - 1]) s
      in clrarea (crow v) (NCOL - i) (crow v) (NCOL - 1) s)"

text \<open>The escape sequence of MINIX ST: lines, attribute, and a colour of the map.\<close>

definition set_lines :: "int \<Rightarrow> int \<Rightarrow> int \<Rightarrow> tstate \<Rightarrow> tstate" where
  "set_lines l n b s =
     moveto (n - 1) 0 (upd_vdu (\<lambda>v. v\<lparr>linc := l, nrow := n, bytr := b\<rparr>) s)"

definition set_nibble :: "nat \<Rightarrow> int \<Rightarrow> u16 \<Rightarrow> u16" where
  "set_nibble k j w = (if j \<ge> 0 then (w AND NOT (push_bit k 7)) OR push_bit k (word_of_int j AND 7) else w)"

definition minix_sequence :: "int \<Rightarrow> nat \<Rightarrow> tstate \<Rightarrow> tstate" where
  "minix_sequence j p s =
     (let s = (if j = 0 \<and> mono (vdu s) then set_lines 16 25 1280 s else s);
          s = (if j = 1 \<and> mono (vdu s) then set_lines 8 50 640 s else s);
          (j, p) = vduparam (vdu s) p;
          s = (if j \<ge> 0 then upd_vdu (v_attr_update (\<lambda>_. word_of_int j AND 15)) s else s);
          (m, p) = vduparam (vdu s) p
      in if m \<ge> 0 then
           let w = nat (m mod 16);
               (r, p) = vduparam (vdu s) p; (g, p) = vduparam (vdu s) p; (b, p) = vduparam (vdu s) p
           in set_rgb w (set_nibble 0 b (set_nibble 4 g (set_nibble 8 r (vd_rgb (video s) w)))) s
         else s)"

definition erase_display :: "int \<Rightarrow> tstate \<Rightarrow> tstate" where
  "erase_display j s =
     (let v = vdu s in
      if j \<le> 0 then clrarea (crow v) (ccol v) (nrow v - 1) (NCOL - 1) s
      else if j = 1 then clrarea 0 0 (crow v) (ccol v) s
      else if j = 2 then clrarea 0 0 (nrow v - 1) (NCOL - 1) s
      else s)"

definition erase_line :: "int \<Rightarrow> tstate \<Rightarrow> tstate" where
  "erase_line j s =
     (let v = vdu s in
      if j \<le> 0 then clrarea (crow v) (ccol v) (crow v) (NCOL - 1) s
      else if j = 1 then clrarea (crow v) 0 (crow v) (ccol v) s
      else if j = 2 then clrarea (crow v) 0 (crow v) (NCOL - 1) s
      else s)"

text \<open>\<open>l\<close> and \<open>h\<close>: reset and set a mode.\<close>

definition set_mode :: "bool \<Rightarrow> nat \<Rightarrow> tstate \<Rightarrow> tstate" where
  "set_mode reset p s =
     (if vbuf (vdu s) p = 63 then
        if vbuf (vdu s) (p + 1) = 53 \<and> mono (vdu s) then set_rgb 0 (if reset then 0 else 0x777) s
        else if vbuf (vdu s) (p + 1) = 49 then s\<lparr>app_mode := reset\<rparr>
        else s
      else s)"

definition ansi_command :: "8 word \<Rightarrow> int \<Rightarrow> nat \<Rightarrow> tstate \<Rightarrow> tstate" where
  "ansi_command c j p s =
     (let v = vdu s; i = (if j \<le> 0 then 1 else j) in
      if c = 65 then moveto (max (crow v - i) 0) (ccol v) s
      else if c = 66 then moveto (min (wrap (i + crow v)) (nrow v - 1)) (ccol v) s
      else if c = 67 then moveto (crow v) (min (wrap (i + ccol v)) (NCOL - 1)) s
      else if c = 68 then moveto (crow v) (max (ccol v - i) 0) s
      else if c = 72 \<or> c = 102 then
        let j = fst (vduparam v p); j = (if j \<le> 0 then 1 else j)
        in moveto (min i (nrow v) - 1) (min j NCOL - 1) s
      else if c = 74 then erase_display j s
      else if c = 75 then erase_line j s
      else if c = 109 then renditions (VBUF + 1) j p s
      else if c = 76 then insert_lines i s
      else if c = 77 then delete_lines i s
      else if c = 64 then insert_chars i s
      else if c = 80 then delete_chars i s
      else if c = 108 \<or> c = 104 then set_mode (c = 108) p s
      else if c = 126 then minix_sequence j p s
      else s)"

definition vduansi :: "8 word \<Rightarrow> nat \<Rightarrow> tstate \<Rightarrow> tstate" where
  "vduansi c nxt s =
     (if nxt \<ge> VBUF then s
      else
        let s = upd_vdu (\<lambda>v. v\<lparr>vbuf := (vbuf v)(nxt := 0)\<rparr>) s;
            (j, p) = vduparam (vdu s) 1
        in ansi_command c j p s)"

definition reverse_index :: "tstate \<Rightarrow> tstate" where
  "reverse_index s =
     (let v = vdu s in
      if crow v = 0 then clrline 0 (fold (\<lambda>i. cpyline (i - 1) i) (rev [1..nrow v - 1]) s)
      else moveto (crow v - 1) (ccol v) s)"

definition restore_cursor :: "tstate \<Rightarrow> tstate" where
  "restore_cursor s =
     (let s = upd_vdu (\<lambda>v. v\<lparr>ccol := savccol v, crow := savcrow v, v_attr := savattr v\<rparr>) s
      in moveto (crow (vdu s)) (ccol (vdu s)) s)"

definition vduesc :: "8 word \<Rightarrow> nat \<Rightarrow> tstate \<Rightarrow> tstate" where
  "vduesc c nxt s =
     (if nxt \<ge> VBUF - 1 then s
      else
        let s = upd_vdu (\<lambda>v. v\<lparr>vbuf := (vbuf v)(nxt := c)\<rparr>) s; c = vbuf (vdu s) 0 in
        if c = 56 then restore_cursor s
        else if c = 55 then upd_vdu (\<lambda>v. v\<lparr>savccol := ccol v, savcrow := crow v, savattr := v_attr v\<rparr>) s
        else if c = 61 then s\<lparr>keypad := True\<rparr>
        else if c = 62 then s\<lparr>keypad := False\<rparr>
        else if c = 69 then newline (carriage_return s)
        else if c = 68 then newline s
        else if c = 77 then reverse_index s
        else if c = 99 then (vducursor (vduinit s))\<lparr>keypad := False, app_mode := False\<rparr>
        else s)"

subsection \<open>Characters\<close>

text \<open>The part of \<open>out_char\<close> for anything but control characters.\<close>

definition out_print :: "8 word \<Rightarrow> tstate \<Rightarrow> tstate" where
  "out_print c s =
     (let c = (if c AND 0x80 \<noteq> 0 then c AND 0x1F else c) in
      case v_next (vdu s) of
        None \<Rightarrow> let s = paint c s in moveto (crow (vdu s)) (ccol (vdu s) + 1) s
      | Some nxt \<Rightarrow>
          if nxt = 0 \<and> c = 91 then upd_vdu (\<lambda>v. v\<lparr>vbuf := (vbuf v)(nxt := c), v_next := Some (nxt + 1)\<rparr>) s
          else if unat c \<ge> 48 \<and> (nxt = 0 \<or> vbuf (vdu s) 0 \<noteq> 91)
          then upd_vdu (v_next_update (\<lambda>_. None)) (vduesc c nxt s)
          else if unat c \<ge> 64 then upd_vdu (v_next_update (\<lambda>_. None)) (vduansi c nxt s)
          else upd_vdu (\<lambda>v. v\<lparr>vbuf := (vbuf v)(nxt := c), v_next := Some (if nxt < VBUF then nxt + 1 else nxt)\<rparr>) s)"

primrec tab_loop :: "nat \<Rightarrow> tstate \<Rightarrow> tstate run" where
  "tab_loop 0 s = Stuck"
| "tab_loop (Suc n) s =
     (let s = (if tty_mode (ttys s CONSOLE) AND XTABS = XTABS then out_print c_SP s
               else moveto (crow (vdu s)) (ccol (vdu s) + 1) s)
      in if ccol (vdu s) mod 8 \<noteq> 0 then tab_loop n s else Done s)"

definition vductrl :: "8 word \<Rightarrow> tstate \<Rightarrow> tstate run" where
  "vductrl c s =
     (if c = 7 then Done s
      else if c = 8 then Done (moveto (crow (vdu s)) (ccol (vdu s) - 1) s)
      else if c = 9 then tab_loop (nat NCOL) s
      else if c = 10 then Done (newline s)
      else if c = 11 \<or> c = 12 then Done (line_down s)
      else if c = 13 then Done (carriage_return s)
      else if c = 24 \<or> c = 26 then Done (upd_vdu (v_next_update (\<lambda>_. None)) s)
      else if c = 27 then Done (upd_vdu (v_next_update (\<lambda>_. Some 0)) s)
      else Done s)"

definition out_char :: "8 word \<Rightarrow> tstate \<Rightarrow> tstate run" where
  "out_char c s =
     (if c = 0x7F then Done s
      else if c AND 0x60 = 0 then vductrl c s
      else Done (out_print c s))"

end
