(* ===== verification/Tty_Serial.thy ===== *)
theory Tty_Serial
  imports Tty_Vdu
begin

section \<open>Terminals: output and the serial line\<close>

text \<open>
  \<open>finish\<close> and \<open>tty_reply\<close> of kernel/tty.c, \<open>flush\<close> and \<open>console\<close> of kernel/stvdu.c and the 68000
  part of kernel/rs232.c.  A serial line has a buffer of 256 bytes which it sends byte by byte, one for
  every transmit interrupt; characters written to the UART are appended to \<open>wire\<close>.  Line \<open>i\<close> of
  \<open>tty_struct\<close> uses entry \<open>i - NR_CONS\<close> of \<open>rs_struct\<close>.  Interrupt handlers are operations of
  their own; \<open>lock\<close> and \<open>restore\<close> keep them apart and are left out.
\<close>

unbundle bit_operations_syntax

abbreviation (input) "RS_BUF_SIZE \<equiv> (256::int)"
abbreviation (input) "SPARE \<equiv> (16::int)"
abbreviation (input) "THRESHOLD \<equiv> (20::int)"
abbreviation (input) "DEF_BAUD \<equiv> (1200::int)"

subsection \<open>Ending a request\<close>

definition upd_kproc :: "nat \<Rightarrow> (proc \<Rightarrow> proc) \<Rightarrow> tstate \<Rightarrow> tstate" where
  "upd_kproc rp f s = s\<lparr>kern := upd_proc rp f (kern s)\<rparr>"

definition kernel_call :: "(kstate \<Rightarrow> kstate run) \<Rightarrow> tstate \<Rightarrow> tstate run" where
  "kernel_call f s = andthen (f (kern s)) (\<lambda>k. Done (s\<lparr>kern := k\<rparr>))"

definition finish :: "int \<Rightarrow> int \<Rightarrow> tstate \<Rightarrow> tstate run" where
  "finish tp code s =
     (let s = upd_tty tp (\<lambda>t. t\<lparr>tty_rwords := 0, tty_outleft := 0\<rparr>) s; t = ttys s tp
      in andthen (proc_addr (tty_outproc t)) (\<lambda>rp.
      let s = upd_kproc rp (p_physio_update (\<lambda>_. False)) s
      in if tty_waiting t = NOT_WAITING then Done s
         else
           let s = tty_reply (if tp < NR_CONS then TTY_TASK_REPLY else TTY_REVIVE) (tty_otcaller t) (tty_outproc t) code 0 0 s
           in Done (upd_tty tp (tty_waiting_update (\<lambda>_. NOT_WAITING)) s)))"

subsection \<open>Output to the console\<close>

text \<open>The loop of \<open>flush\<close>, from byte \<open>rq\<close> of the queue; nothing on this machine puts characters there.\<close>

primrec flush_loop :: "nat \<Rightarrow> int \<Rightarrow> nat \<Rightarrow> tstate \<Rightarrow> tstate run" where
  "flush_loop 0 tp rq s = Stuck"
| "flush_loop (Suc n) tp rq s =
     (if tty_inhibited (ttys s tp) = STOPPED then Done s
      else
        andthen (out_char (tty_ramqueue (ttys s tp) rq) s) (\<lambda>s.
        let s = upd_tty tp (\<lambda>t. t\<lparr>tty_phys := tty_phys t + 1, tty_cum := wrap (tty_cum t + 1), tty_rwords := tty_rwords t - 1\<rparr>) s
        in if tty_rwords (ttys s tp) \<noteq> 0 then flush_loop n tp (rq + 1) s else Done s))"

definition flush :: "int \<Rightarrow> tstate \<Rightarrow> tstate run" where
  "flush tp s =
     (if tty_rwords (ttys s tp) = 0 then Done s
      else
        andthen (flush_loop (nat (tty_rwords (ttys s tp))) tp 0 (vducursor s)) (\<lambda>s. Done (vducursor s)))"

text \<open>The loop of \<open>console\<close>: \<open>n\<close> is what is left, \<open>charptr\<close> where the next character is, \<open>count\<close> how many
  have been printed.\<close>

primrec console_loop :: "nat \<Rightarrow> int \<Rightarrow> addr \<Rightarrow> int \<Rightarrow> tstate \<Rightarrow> (int \<times> tstate) run" where
  "console_loop 0 tp charptr count s = Done (count, s)"
| "console_loop (Suc n) tp charptr count s =
     (if tty_inhibited (ttys s tp) = RUNNING then
        andthen (out_char (ram s charptr) s) (\<lambda>s.
        console_loop n tp (charptr + 1) (count + 1) (upd_tty tp (tty_outleft_update (\<lambda>l. l - 1)) s))
      else Done (count, s))"

definition console :: "int \<Rightarrow> tstate \<Rightarrow> tstate run" where
  "console tp s =
     andthen (console_loop (nat (tty_outleft (ttys s tp))) tp (tty_phys (ttys s tp)) 0 (vducursor s)) (\<lambda>(count, s).
     andthen (flush tp (vducursor s)) (\<lambda>s.
     let s = upd_tty tp (\<lambda>t. t\<lparr>tty_phys := tty_phys t + word_of_int count, tty_cum := wrap (tty_cum t + count)\<rparr>) s
     in if tty_outleft (ttys s tp) = 0 then finish tp (tty_cum (ttys s tp)) s else Done s))"

subsection \<open>The buffer of a serial line\<close>

text \<open>One character to the line, if there is one.\<close>

definition siaout :: "8 word \<Rightarrow> tstate \<Rightarrow> tstate" where
  "siaout c s = s\<lparr>lastchar := c, wire := c # wire s\<rparr>"

definition rs_feed :: "int \<Rightarrow> tstate \<Rightarrow> tstate" where
  "rs_feed rs s =
     (if rs_left (rss s rs) > 0 then
        upd_rs rs (\<lambda>r. r\<lparr>rs_next := rs_next r + 1, rs_left := rs_left r - 1\<rparr>)
          (siaout (rs_buf (rss s rs) (rs_next (rss s rs))) s)
      else s)"

definition rs_put :: "8 word \<Rightarrow> rs_struct \<Rightarrow> rs_struct" where
  "rs_put c r = r\<lparr>rs_buf := (rs_buf r)(rs_next r + rs_left r := c), rs_left := rs_left r + 1\<rparr>"

definition set_column :: "int \<Rightarrow> int \<Rightarrow> tstate \<Rightarrow> tstate" where
  "set_column tp c = upd_tty tp (tty_column_update (\<lambda>_. wrap c))"

text \<open>The number of spaces to the next tab stop; the column can be negative, and the remainder of C has
  the sign of the dividend.\<close>

definition tab_width :: "int \<Rightarrow> int" where
  "tab_width column = 8 - column smod 8"

definition rs_expand :: "int \<Rightarrow> 8 word \<Rightarrow> tstate \<Rightarrow> tstate" where
  "rs_expand tp c s =
     (let rs = tp - NR_CONS; mode = tty_mode (ttys s tp); column = tty_column (ttys s tp);
          count = tab_width column
      in if c = c_HT \<and> mode AND XTABS = XTABS then
           set_column tp (column + count) (upd_rs rs (rs_put c_SP ^^ nat count) s)
         else
           let s = (if c = c_BS then set_column tp (column - 2) s
                    else if c = c_CR then set_column tp (-1) s
                    else if c = c_LF \<and> mode AND CRMOD \<noteq> 0 then set_column tp (-1) (upd_rs rs (rs_put c_CR) s)
                    else if c = c_HT then set_column tp (column + (count - 1)) s
                    else s);
               s = upd_rs rs (rs_put c) s
           in set_column tp (tty_column (ttys s tp) + 1) s)"

text \<open>The loop of \<open>serial_out\<close>; the number of bytes taken is part of the result.\<close>

primrec serial_loop :: "nat \<Rightarrow> int \<Rightarrow> addr \<Rightarrow> int \<Rightarrow> tstate \<Rightarrow> int \<times> tstate" where
  "serial_loop 0 tp charptr bytes s = (bytes, s)"
| "serial_loop (Suc n) tp charptr bytes s =
     (let r = rss s (tp - NR_CONS) in
      if rs_next r + rs_left r < RS_BUF_SIZE - SPARE then
        let c = ram s charptr;
            s = upd_tty tp (tty_outleft_update (\<lambda>l. l - 1)) s;
            s = (if sint c < 32 then rs_expand tp c s
                 else set_column tp (tty_column (ttys s tp) + 1) (upd_rs (tp - NR_CONS) (rs_put c) s))
        in serial_loop n tp (charptr + 1) (bytes + 1) s
      else (bytes, s))"

text \<open>Starting an idle line.\<close>

definition rs_start :: "int \<Rightarrow> tstate \<Rightarrow> tstate" where
  "rs_start rs s = (if \<not> rs_busy (rss s rs) then rs_feed rs (upd_rs rs (rs_busy_update (\<lambda>_. True)) s) else s)"

definition serial_out :: "int \<Rightarrow> tstate \<Rightarrow> tstate" where
  "serial_out tp s =
     (if tty_inhibited (ttys s tp) \<noteq> RUNNING then s
      else
        let (bytes, s) = serial_loop (nat (tty_outleft (ttys s tp))) tp (tty_phys (ttys s tp)) 0 s;
            s = upd_tty tp (\<lambda>t. t\<lparr>tty_cum := wrap (tty_cum t + bytes), tty_phys := tty_phys t + word_of_int bytes\<rparr>) s
        in rs_start (tp - NR_CONS) s)"

definition start_rs232 :: "int \<Rightarrow> tstate \<Rightarrow> tstate" where
  "start_rs232 tp s = serial_out tp s"

definition rs_out_char :: "int \<Rightarrow> 8 word \<Rightarrow> tstate \<Rightarrow> tstate" where
  "rs_out_char tp c s =
     (let r = rss s (tp - NR_CONS) in
      if rs_next r + rs_left r = RS_BUF_SIZE then s
      else rs_start (tp - NR_CONS) (rs_expand tp c s))"

definition rs_sig :: "int \<Rightarrow> tstate \<Rightarrow> tstate" where
  "rs_sig tp = upd_rs (tp - NR_CONS) (\<lambda>r. r\<lparr>rs_left := 0, rs_busy := False, rs_next := 0\<rparr>)"

text \<open>Output through \<open>tty_devstart\<close>.\<close>

definition dev_start :: "int \<Rightarrow> tstate \<Rightarrow> tstate run" where
  "dev_start tp s =
     (case tty_devstart (ttys s tp) of
        No_start \<Rightarrow> Stuck
      | Console \<Rightarrow> console tp s
      | Start_rs232 \<Rightarrow> Done (start_rs232 tp s))"

subsection \<open>Interrupts\<close>

definition rs_flush :: "tstate \<Rightarrow> tstate run" where
  "rs_flush s =
     (let s = s\<lparr>flush_flag := 0\<rparr>
      in if drv_count s = 0 \<and> output_done s = 0 then Done s else kernel_call (interrupt TTY_TASK) s)"

text \<open>An entry of \<open>tty_driver_buf\<close>: a character and the line it came from.\<close>

definition drv_store :: "8 word \<Rightarrow> int \<Rightarrow> tstate \<Rightarrow> tstate" where
  "drv_store c line s =
     (let k = 2 * nat (drv_count s)
      in s\<lparr>drv_buf := (drv_buf s)(k := c, k + 1 := word_of_int line), drv_count := drv_count s + 1\<rparr>)"

definition rs_read_int :: "int \<Rightarrow> 8 word \<Rightarrow> tstate \<Rightarrow> tstate run" where
  "rs_read_int line val s =
     (if drv_count s < drv_max s then
        let s = drv_store val line s
        in if drv_count s < THRESHOLD then Done (s\<lparr>flush_flag := flush_flag s + 1\<rparr>)
           else rs_flush s
      else Done s)"

definition rs_write_int :: "int \<Rightarrow> tstate \<Rightarrow> tstate run" where
  "rs_write_int line s =
     (let rs = line - NR_CONS in
      if rs_left (rss s rs) > 0 then Done (rs_feed rs s)
      else
        let s = upd_rs rs (\<lambda>r. r\<lparr>rs_busy := False, rs_next := 0\<rparr>) s
        in if tty_outleft (ttys s line) > 0 then Done (serial_out line s)
           else if tty_waiting (ttys s line) = WAITING then
             kernel_call (interrupt TTY_TASK)
               ((upd_tty line (tty_waiting_update (\<lambda>_. COMPLETED)) s)\<lparr>output_done := output_done s + 1\<rparr>)
           else Done s)"

text \<open>The interrupt of the serial chip; \<open>val\<close> and \<open>tsr\<close> are what its registers hold.  A receive error
  only discards a character.\<close>

definition siaint :: "u16 \<Rightarrow> 8 word \<Rightarrow> 8 word \<Rightarrow> tstate \<Rightarrow> tstate run" where
  "siaint type val tsr s =
     (let t = type AND 0xFF in
      if t = 0 then rs_read_int SERIAL1 val s
      else if t = 2 then rs_write_int SERIAL1 s
      else if t = 3 then Done (if tsr AND NOT 0xC1 \<noteq> 0 then siaout (lastchar s) s else s)
      else Done s)"

definition tty_o_done :: "tstate \<Rightarrow> (bool \<times> tstate) run" where
  "tty_o_done s =
     (case find (\<lambda>tp. tty_waiting (ttys s tp) = COMPLETED) [NR_CONS..NR_CONS + NR_RS_LINES - 1] of
        None \<Rightarrow> Done (False, s)
      | Some tp \<Rightarrow>
          let t = ttys s tp;
              s = tty_reply TTY_REVIVE (tty_otcaller t) (tty_outproc t) (tty_cum t) 0 0 s;
              s = upd_tty tp (tty_waiting_update (\<lambda>_. NOT_WAITING)) s;
              s = s\<lparr>output_done := output_done s - 1\<rparr>
          in andthen (proc_addr (tty_outproc t)) (\<lambda>rp. Done (True, upd_kproc rp (p_physio_update (\<lambda>_. False)) s)))"

subsection \<open>Configuration\<close>

definition stop_code :: "int \<Rightarrow> 8 word" where
  "stop_code n = (if n = 1 then 0x08 else if n = 2 then 0x18 else 0)"

definition data_code :: "int \<Rightarrow> 8 word" where
  "data_code n = (if n = 5 then 0x60 else if n = 6 then 0x40 else if n = 7 then 0x20 else 0)"

definition parity_code :: "int \<Rightarrow> 8 word" where
  "parity_code p = (if p = 0 then 0x04 else if p = 1 then 0x06 else 0)"

definition baud_code :: "int \<Rightarrow> (8 word) option" where
  "baud_code n = (if n = 1 then Some 0xAF else if n = 3 then Some 0x40 else if n = 12 then Some 0x10
     else if n = 24 then Some 0x08 else if n = 48 then Some 0x04 else if n = 96 then Some 0x02 else None)"

definition config_rs232 :: "int \<Rightarrow> int \<Rightarrow> int \<Rightarrow> int \<Rightarrow> int \<Rightarrow> int \<Rightarrow> tstate \<Rightarrow> tstate" where
  "config_rs232 line in_baud out_baud parity stop_bits data_bits s =
     (let s = s\<lparr>mf_ucr := 0x80 OR stop_code stop_bits OR data_code data_bits OR parity_code parity\<rparr>
      in case baud_code (in_baud div 100) of
           None \<Rightarrow> s
         | Some v \<Rightarrow>
             upd_tty line (tty_speed_update (\<lambda>_. push_bit 8 (word_of_int (out_baud div 100)) OR word_of_int (in_baud div 100)))
               (s\<lparr>mf_tddr := v\<rparr>))"

definition baud :: "u16 \<Rightarrow> int" where
  "baud b = (let n = 100 * uint b in if n = 100 then 110 else n)"

definition set_uart :: "int \<Rightarrow> u16 \<Rightarrow> u16 \<Rightarrow> tstate \<Rightarrow> tstate" where
  "set_uart line mode speeds s =
     (let in_baud = baud (speeds AND 0xFF);
          out_baud = baud (drop_bit 8 speeds AND 0xFF);
          parity = (if mode AND EVENP \<noteq> 0 then 1 else if mode AND ODDP \<noteq> 0 then 0 else -1);
          stop_bits = (if in_baud = 110 then 2 else 1);
          data_bits = 5 + uint (drop_bit 8 mode AND 3)
      in config_rs232 line in_baud out_baud parity stop_bits data_bits s)"

text \<open>The control characters both kinds of lines start with.\<close>

definition default_chars :: "tty_struct \<Rightarrow> tty_struct" where
  "default_chars t = t\<lparr>tty_inhead := 0, tty_intail := 0, tty_erase := 8, tty_kill := 64, tty_intr := 127,
     tty_quit := 28, tty_xon := 17, tty_xoff := 19, tty_eof := 4\<rparr>"

definition init_rs232 :: "tstate \<Rightarrow> tstate" where
  "init_rs232 s =
     (let s = fold (\<lambda>tp. upd_tty tp (\<lambda>t. (default_chars t)\<lparr>tty_mode := RAW OR BITS8, tty_devstart := Start_rs232\<rparr>))
                [NR_CONS..NR_CONS + NR_RS_LINES - 1] s
      in fold (\<lambda>rs s. config_rs232 (rs + NR_CONS) DEF_BAUD DEF_BAUD (-1) 1 8
                (upd_rs rs (\<lambda>r. r\<lparr>rs_next := 0, rs_left := 0, rs_busy := False\<rparr>) s)) [0..NR_RS_LINES - 1] s)"

end
