(* ===== verification/Tty_Line.thy ===== *)
theory Tty_Line
  imports Tty_Serial
begin

section \<open>Terminals: the terminal task\<close>

text \<open>
  kernel/tty.c for the 68000, and \<open>tty_init\<close> and \<open>func_key\<close> of kernel/stcon.c.  The input of a line
  is a ring of 1000 characters.  One turn of the loop of \<open>tty_task\<close> is a function of the message.  A line number
  comes out of a signed byte and may be -1 (\<open>OPERATOR\<close>), for which \<open>tty_struct[-1]\<close>, the memory before the
  table, is looked at; entry -1 of the model stands for it.  The scratch buffer \<open>tty_buf\<close> is the list of the
  characters in it.  What the function keys dump is not modelled.
\<close>

unbundle bit_operations_syntax

abbreviation (input) "SIGINT \<equiv> (2::int)"
abbreviation (input) "SIGQUIT \<equiv> (3::int)"
abbreviation (input) "SIGKILL \<equiv> (9::int)"
abbreviation (input) "TIOCGETP \<equiv> (0x7408::int)"
abbreviation (input) "TIOCSETP \<equiv> (0x7409::int)"
abbreviation (input) "TIOCGETC \<equiv> (0x7412::int)"
abbreviation (input) "TIOCSETC \<equiv> (0x7411::int)"
abbreviation (input) "TIOCFLUSH \<equiv> (0x7410::int)"

text \<open>The mode bits that say how input is treated: cooked, cbreak or raw.\<close>

definition in_mode :: "tty_struct \<Rightarrow> u16" where
  "in_mode t = tty_mode t AND (RAW OR CBREAK)"

subsection \<open>The input queue\<close>

definition ring_next :: "nat \<Rightarrow> nat" where
  "ring_next p = (if p + 1 = TTY_IN_BYTES then 0 else p + 1)"

definition ring_prev :: "nat \<Rightarrow> nat" where
  "ring_prev p = (if p \<noteq> 0 then p - 1 else TTY_IN_BYTES - 1)"

definition in_put :: "8 word \<Rightarrow> tty_struct \<Rightarrow> tty_struct" where
  "in_put c t = t\<lparr>tty_inqueue := (tty_inqueue t)(tty_inhead t := c), tty_inhead := ring_next (tty_inhead t),
     tty_incount := tty_incount t + 1\<rparr>"

definition in_flush :: "tty_struct \<Rightarrow> tty_struct" where
  "in_flush t = t\<lparr>tty_inhead := 0, tty_intail := 0, tty_incount := 0, tty_lfct := 0\<rparr>"

definition chuck :: "int \<Rightarrow> tstate \<Rightarrow> int \<times> tstate" where
  "chuck tp s =
     (let t = ttys s tp; prev = ring_prev (tty_inhead t) in
      if tty_incount t = 0 then (-1, s)
      else if tty_inqueue t prev = c_LF \<or> tty_inqueue t prev = c_CR then (-1, s)
      else (OK, upd_tty tp (\<lambda>t. t\<lparr>tty_inhead := prev, tty_incount := tty_incount t - 1\<rparr>) s))"

subsection \<open>Echo\<close>

definition echo :: "int \<Rightarrow> 8 word \<Rightarrow> tstate \<Rightarrow> tstate run" where
  "echo tp c s =
     (if tty_mode (ttys s tp) AND ECHO = 0 then Done s
      else
        andthen
          (if c \<noteq> MARKER \<or> tty_mode (ttys s tp) AND (CBREAK OR RAW) \<noteq> 0 then
             if tp < NR_CONS then andthen (out_char c (vducursor s)) (\<lambda>s. Done (vducursor s))
             else Done (rs_out_char tp c s)
           else Done s)
          (flush tp))"

subsection \<open>Signals from the keyboard\<close>

definition sigchar :: "int \<Rightarrow> int \<Rightarrow> tstate \<Rightarrow> tstate run" where
  "sigchar tp sig s =
     (let s = upd_tty tp (tty_inhibited_update (\<lambda>_. RUNNING)) s
      in andthen (finish tp EINTR s) (\<lambda>s.
      let s = upd_tty tp in_flush s;
          s = (if tp \<ge> NR_CONS then rs_sig tp s else s)
      in if tty_pgrp (ttys s tp) \<noteq> 0 then kernel_call (cause_sig (tty_pgrp (ttys s tp)) sig) s else Done s))"

text \<open>The function keys; F1 to F3 print tables.\<close>

definition func_key :: "8 word \<Rightarrow> tstate \<Rightarrow> tstate run" where
  "func_key pfx s =
     (if pfx = 6 then Done (s\<lparr>st_do_dump := \<not> st_do_dump s\<rparr>)
      else if pfx = 4 then Done (s\<lparr>st_use_con := \<not> st_use_con s\<rparr>)
      else if pfx = 5 then Done (s\<lparr>st_use_prt := \<not> st_use_prt s\<rparr>)
      else if pfx = 10 then sigchar CONSOLE SIGKILL s
      else Done s)"

subsection \<open>A character arrives\<close>

text \<open>The kill loop: characters are chucked until there is none, or the end of the line before.\<close>

primrec kill_loop :: "nat \<Rightarrow> int \<Rightarrow> tstate \<Rightarrow> tstate" where
  "kill_loop 0 tp s = s"
| "kill_loop (Suc n) tp s = (let (r, s) = chuck tp s in if r = OK then kill_loop n tp s else s)"

text \<open>Erase, kill, escape and end of file.  The result is the character to go on with, or \<open>None\<close> when it
  has been dealt with.\<close>

definition cooked_char :: "int \<Rightarrow> 8 word \<Rightarrow> tstate \<Rightarrow> (8 word option \<times> tstate) run" where
  "cooked_char tp ch s =
     (let t = ttys s tp in
      if ch = tty_erase t \<and> \<not> tty_escaped t then
        let (r, s) = chuck tp s
        in if r \<noteq> -1 then
             andthen (echo tp c_BS s) (\<lambda>s. andthen (echo tp c_SP s) (\<lambda>s. andthen (echo tp c_BS s) (\<lambda>s. Done (None, s))))
           else Done (None, s)
      else if ch = tty_kill t \<and> \<not> tty_escaped t then
        let s = kill_loop (nat (tty_incount t) + 1) tp s
        in andthen (echo tp (tty_kill t) s) (\<lambda>s. andthen (echo tp c_LF s) (\<lambda>s. Done (None, s)))
      else if \<not> tty_escaped t then
        if ch = c_BACKSLASH then
          andthen (echo tp ch (upd_tty tp (tty_escaped_update (\<lambda>_. True)) s)) (\<lambda>s. Done (None, s))
        else if ch = tty_eof t then
          Done (Some MARKER, upd_tty tp (tty_lfct_update (\<lambda>n. n + 1)) s)
        else Done (Some ch, s)
      else
        let s = upd_tty tp (tty_escaped_update (\<lambda>_. False)) s
        in Done (Some ch,
             if ch \<noteq> tty_erase t \<and> ch \<noteq> tty_kill t \<and> ch \<noteq> tty_eof t then upd_tty tp (in_put c_BACKSLASH) s else s))"

text \<open>Signals and flow control, for cooked and cbreak mode.\<close>

definition special_char :: "int \<Rightarrow> 8 word \<Rightarrow> tstate \<Rightarrow> (8 word option \<times> tstate) run" where
  "special_char tp ch s =
     (let t = ttys s tp;
          ch = (if ch = c_CR \<and> tty_mode t AND CRMOD \<noteq> 0 then c_LF else ch)
      in if ch = tty_intr t \<or> ch = tty_quit t then
           andthen (sigchar tp (if ch = tty_intr t then SIGINT else SIGQUIT) s) (\<lambda>s. Done (None, s))
         else if ch = tty_xoff t then Done (None, upd_tty tp (tty_inhibited_update (\<lambda>_. STOPPED)) s)
         else if tty_inhibited t = STOPPED then
           andthen (dev_start tp (upd_tty tp (tty_inhibited_update (\<lambda>_. RUNNING)) s)) (\<lambda>s. Done (None, s))
         else Done (Some ch, s))"

definition store_char :: "int \<Rightarrow> 8 word \<Rightarrow> tstate \<Rightarrow> tstate run" where
  "store_char tp ch s =
     (let s = upd_tty tp (\<lambda>t. in_put ch (if ch = c_LF then t\<lparr>tty_lfct := tty_lfct t + 1\<rparr> else t)) s
      in echo tp ch s)"

definition in_char :: "int \<Rightarrow> 8 word \<Rightarrow> tstate \<Rightarrow> tstate run" where
  "in_char tp ch s =
     (if tp = OPERATOR \<and> 1 \<le> sint ch \<and> sint ch \<le> 10 then func_key ch s
      else if tty_incount (ttys s tp) \<ge> int TTY_IN_BYTES then Done s
      else
        let mode = in_mode (ttys s tp);
            ch = (if mode \<noteq> RAW then ch AND 0x7F else ch)
        in andthen (if mode = 0 then cooked_char tp ch s else Done (Some ch, s)) (\<lambda>(next, s).
        case next of None \<Rightarrow> Done s
        | Some ch \<Rightarrow>
            andthen (if mode = 0 \<or> mode = CBREAK then special_char tp ch s else Done (Some ch, s)) (\<lambda>(next, s).
            case next of None \<Rightarrow> Done s | Some ch \<Rightarrow> store_char tp ch s)))"

subsection \<open>Reading\<close>

text \<open>The inner loop of \<open>rd_chars\<close> fills \<open>tty_buf\<close>.  The result: the characters, whether an end of
  file was seen, whether the end of a line was, and the line.\<close>

primrec fill_buf :: "nat \<Rightarrow> bool \<Rightarrow> bool \<Rightarrow> tty_struct \<Rightarrow> 8 word list \<times> bool \<times> bool \<times> tty_struct" where
  "fill_buf 0 cooked enough t = ([], False, enough, t)"
| "fill_buf (Suc n) cooked enough t =
     (let ch = tty_inqueue t (tty_intail t); t = t\<lparr>tty_intail := ring_next (tty_intail t)\<rparr>
      in if ch = c_LF \<or> ch = MARKER \<and> cooked then
           let t = t\<lparr>tty_lfct := tty_lfct t - 1\<rparr>
           in if cooked then ([ch], ch = MARKER, True, t)
              else let (cs, eot, enough, t) = fill_buf n cooked True t in (ch # cs, eot, enough, t)
         else let (cs, eot, enough, t) = fill_buf n cooked enough t in (ch # cs, eot, enough, t))"

definition store_bytes :: "addr \<Rightarrow> 8 word list \<Rightarrow> (addr \<Rightarrow> 8 word) \<Rightarrow> addr \<Rightarrow> 8 word" where
  "store_bytes p cs m = (\<lambda>a. if unat (a - p) < length cs then cs ! unat (a - p) else m a)"

text \<open>The outer loop: one buffer after the other goes to the user.\<close>

primrec rd_loop :: "nat \<Rightarrow> int \<Rightarrow> bool \<Rightarrow> addr \<Rightarrow> int \<Rightarrow> tstate \<Rightarrow> (int \<times> tstate) run" where
  "rd_loop 0 tp cooked user_phys cum s = Stuck"
| "rd_loop (Suc n) tp cooked user_phys cum s =
     (if tty_inleft (ttys s tp) > 0 then
        let buf_ct = min (min (tty_inleft (ttys s tp)) (tty_incount (ttys s tp))) (int TTY_BUF_SIZE);
            (cs, eot, enough, t) = fill_buf (nat buf_ct) cooked False (ttys s tp);
            out = (if eot then butlast cs else cs);
            s = upd_tty tp (\<lambda>_. t\<lparr>tty_inleft := tty_inleft t - int (length cs), tty_incount := tty_incount t - int (length cs)\<rparr>) s;
            s = upd_ram (store_bytes user_phys out) s;
            cum = cum + int (length out)
        in if tty_incount (ttys s tp) = 0 \<or> enough then Done (cum, s)
           else rd_loop n tp cooked (user_phys + of_nat (length out)) cum s
      else Done (cum, s))"

text \<open>At most 1001 characters are in the ring, so five buffers are enough.\<close>

abbreviation (input) "BUFFERS \<equiv> (6::nat)"

definition rd_chars :: "int \<Rightarrow> tstate \<Rightarrow> (int \<times> tstate) run" where
  "rd_chars tp s =
     (let t = ttys s tp; cooked = (in_mode t = 0) in
      if tty_incount t = 0 \<or> cooked \<and> tty_lfct t = 0 then Done (TTY_SUSPEND, s)
      else
        andthen (proc_addr (tty_inproc t)) (\<lambda>rp.
        let user_phys = umap (procs (kern s) rp) 1 (tty_in_vir t) (word_of_int (tty_inleft t))
        in if user_phys = 0 then Done (E_BAD_ADDR, s)
           else
             andthen (rd_loop BUFFERS tp cooked user_phys 0 s) (\<lambda>(cum, s).
             Done (cum, upd_tty tp (tty_inleft_update (\<lambda>_. 0)) s))))"

definition do_read :: "int \<Rightarrow> driver_mess \<Rightarrow> tstate \<Rightarrow> tstate run" where
  "do_read tp m s =
     (if tty_inleft (ttys s tp) > 0 then Done (tty_reply TTY_TASK_REPLY (dm_source m) (dm_proc m) EIO 0 0 s)
      else
        let s = upd_tty tp (\<lambda>t. t\<lparr>tty_incaller := dm_source m, tty_inproc := dm_proc m, tty_in_vir := dm_addr m,
                  tty_inleft := dm_count m\<rparr>) s
        in andthen (rd_chars tp s) (\<lambda>(code, s).
        Done (tty_reply TTY_TASK_REPLY (dm_source m) (tty_inproc (ttys s tp)) code 0 0 s)))"

text \<open>A reader that hangs is served when its line has come.\<close>

definition serve_reader :: "int \<Rightarrow> tstate \<Rightarrow> tstate run" where
  "serve_reader tp s =
     (let t = ttys s tp in
      if tty_inleft t > 0 \<and> (tty_lfct t > 0 \<or> in_mode t \<noteq> 0 \<and> tty_incount t > 0) then
        andthen (rd_chars tp s) (\<lambda>(m, s).
        Done (tty_reply TTY_REVIVE (tty_incaller (ttys s tp)) (tty_inproc (ttys s tp)) m 0 0 s))
      else Done s)"

primrec charint_loop :: "(8 word \<times> int) list \<Rightarrow> tstate \<Rightarrow> tstate run" where
  "charint_loop [] s = Done s"
| "charint_loop (c # cs) s =
     andthen (in_char (snd c) (fst c) s) (\<lambda>s. andthen (serve_reader (snd c) s) (charint_loop cs))"

text \<open>The characters collected by the interrupt routines, with their lines.\<close>

definition collected :: "tstate \<Rightarrow> (8 word \<times> int) list" where
  "collected s = map (\<lambda>k. (drv_buf s (2 * k), sint (drv_buf s (2 * k + 1)))) [0..<nat (drv_count s)]"

definition charint :: "tstate \<Rightarrow> tstate run" where
  "charint s = charint_loop (collected s) (s\<lparr>drv_count := 0\<rparr>)"

definition do_int :: "tstate \<Rightarrow> tstate run" where
  "do_int s =
     (if output_done s > 0 then
        andthen (tty_o_done s) (\<lambda>(done, s). if done then Done s else charint s)
      else charint s)"

subsection \<open>Writing\<close>

definition do_write :: "int \<Rightarrow> driver_mess \<Rightarrow> tstate \<Rightarrow> tstate run" where
  "do_write tp m s =
     (if tty_outleft (ttys s tp) > 0 then Done (tty_reply TTY_TASK_REPLY (dm_source m) (dm_proc m) EIO 0 0 s)
      else
        let s = upd_tty tp (\<lambda>t. t\<lparr>tty_otcaller := dm_source m, tty_outproc := dm_proc m, tty_out_vir := dm_addr m,
                  tty_outleft := dm_count m, tty_waiting := WAITING, tty_cum := 0\<rparr>) s
        in andthen (proc_addr (dm_proc m)) (\<lambda>rp.
        let phys = umap (procs (kern s) rp) 1 (dm_addr m) (word_of_int (dm_count m));
            s = upd_tty tp (tty_phys_update (\<lambda>_. phys)) s;
            s = (if phys = 0 then upd_tty tp (\<lambda>t. t\<lparr>tty_cum := E_BAD_ADDR, tty_outleft := 0\<rparr>) s else s);
            s = upd_kproc rp (p_physio_update (\<lambda>_. True)) s
        in andthen (dev_start tp s) (\<lambda>s.
        Done (if dm_line m \<noteq> 0
              then tty_reply TTY_TASK_REPLY (tty_otcaller (ttys s tp)) (tty_outproc (ttys s tp)) TTY_SUSPEND 0 0 s
              else s))))"

subsection \<open>Other requests\<close>

definition byte_of :: "nat \<Rightarrow> addr \<Rightarrow> 8 word" where
  "byte_of k w = ucast (drop_bit k w AND 0xFF)"

definition set_params :: "driver_mess \<Rightarrow> int \<Rightarrow> tstate \<Rightarrow> tstate" where
  "set_params m tp s =
     (let spek = dm_spek m;
          s = upd_tty tp (\<lambda>t. t\<lparr>tty_erase := byte_of 8 spek, tty_kill := byte_of 0 spek, tty_mode := ucast (dm_flags m)\<rparr>) s;
          speed = drop_bit 16 spek AND 0xFFFF;
          s = (if speed \<noteq> 0 then upd_tty tp (tty_speed_update (\<lambda>_. ucast speed)) s else s)
      in if tp \<ge> NR_CONS then set_uart tp (tty_mode (ttys s tp)) (tty_speed (ttys s tp)) s else s)"

definition set_chars :: "driver_mess \<Rightarrow> int \<Rightarrow> tstate \<Rightarrow> tstate" where
  "set_chars m tp = upd_tty tp (\<lambda>t. t\<lparr>tty_intr := byte_of 24 (dm_spek m), tty_quit := byte_of 16 (dm_spek m),
     tty_xon := byte_of 8 (dm_spek m), tty_xoff := byte_of 0 (dm_spek m), tty_eof := byte_of 8 (dm_flags m)\<rparr>)"

definition get_params :: "tty_struct \<Rightarrow> addr \<times> addr" where
  "get_params t =
     (push_bit 16 (scast (tty_speed t)) OR push_bit 8 (ucast (tty_erase t)) OR ucast (tty_kill t), scast (tty_mode t))"

definition get_chars :: "tty_struct \<Rightarrow> addr \<times> addr" where
  "get_chars t =
     (push_bit 24 (ucast (tty_intr t)) OR push_bit 16 (ucast (tty_quit t)) OR push_bit 8 (ucast (tty_xon t)) OR ucast (tty_xoff t),
      push_bit 8 (ucast (tty_eof t)))"

definition do_ioctl :: "int \<Rightarrow> driver_mess \<Rightarrow> tstate \<Rightarrow> tstate" where
  "do_ioctl tp m s =
     (let (r, flags, erki, s) =
        (if dm_count m = TIOCSETP then (OK, 0, 0, set_params m tp s)
         else if dm_count m = TIOCSETC then (OK, 0, 0, set_chars m tp s)
         else if dm_count m = TIOCGETP then let (erki, flags) = get_params (ttys s tp) in (OK, flags, erki, s)
         else if dm_count m = TIOCGETC then let (erki, flags) = get_chars (ttys s tp) in (OK, flags, erki, s)
         else if dm_count m = TIOCFLUSH then (OK, 0, 0, s\<lparr>drv_count := 0\<rparr>)
         else (EINVAL, 0, 0, s))
      in tty_reply TTY_TASK_REPLY (dm_source m) (dm_proc m) r flags erki s)"

definition do_setpgrp :: "int \<Rightarrow> driver_mess \<Rightarrow> tstate \<Rightarrow> tstate" where
  "do_setpgrp tp m s =
     tty_reply TTY_TASK_REPLY (dm_source m) (dm_proc m) OK 0 0 (upd_tty tp (tty_pgrp_update (\<lambda>_. dm_count m)) s)"

definition do_cancel :: "int \<Rightarrow> driver_mess \<Rightarrow> tstate \<Rightarrow> tstate" where
  "do_cancel tp m s =
     (if tty_inleft (ttys s tp) = 0 \<and> tty_outleft (ttys s tp) = 0 then s
      else
        let s = (if dm_count m AND 4 \<noteq> 0
                 then upd_tty tp (\<lambda>t. (in_flush t)\<lparr>tty_inleft := 0, tty_inhibited := RUNNING\<rparr>) s else s);
            s = (if dm_count m AND 2 \<noteq> 0
                 then upd_tty tp (\<lambda>t. t\<lparr>tty_outleft := 0, tty_waiting := NOT_WAITING\<rparr>) s else s)
        in tty_reply TTY_TASK_REPLY (dm_source m) (dm_proc m) EINTR 0 0 s)"

text \<open>The kernel's own printing, as far as it goes to the screen.\<close>

definition putc :: "8 word \<Rightarrow> tstate \<Rightarrow> tstate run" where
  "putc c s = (if st_use_con s then andthen (out_char c (vducursor s)) (\<lambda>s. Done (vducursor s)) else Done s)"

subsection \<open>The task\<close>

definition tty_init :: "tstate \<Rightarrow> tstate" where
  "tty_init s =
     (let s = fold (\<lambda>tp. upd_tty tp (\<lambda>t. (default_chars t)\<lparr>tty_mode := CRMOD OR XTABS OR ECHO\<rparr>)) [0..NR_CONS - 1] s;
          s = s\<lparr>drv_max := int MAX_OVERRUN, drv_count := 0\<rparr>
      in (vduinit s)\<lparr>st_use_con := True\<rparr>)"

definition tty_start :: "tstate \<Rightarrow> tstate" where
  "tty_start s = init_rs232 (tty_init (s\<lparr>output_done := 0\<rparr>))"

definition tty_task :: "driver_mess \<Rightarrow> tstate \<Rightarrow> tstate run" where
  "tty_task m s =
     (let tp = dm_line m in
      if dm_type m = HARD_INT then do_int s
      else if dm_type m = TTY_READ then do_read tp m s
      else if dm_type m = TTY_WRITE then do_write tp m s
      else if dm_type m = TTY_IOCTL then Done (do_ioctl tp m s)
      else if dm_type m = TTY_SETPGRP then Done (do_setpgrp tp m s)
      else if dm_type m = CANCEL then Done (do_cancel tp m s)
      else Done (tty_reply TTY_TASK_REPLY (dm_source m) (dm_proc m) EINVAL 0 0 s))"

end
