(* ===== verification/Tty_Screen.thy ===== *)
theory Tty_Screen
  imports Tty_Vdu
begin

section \<open>Terminals: the cursor stays on the screen\<close>

text \<open>
  What a character sent to the console can do: the cursor and the buffer of escape sequences stay
  within their bounds, and of main memory only the video RAM changes, except for up to three
  bytes behind it.  Every character is dealt with in the end, but for a tab in the middle of an escape
  sequence.
\<close>

unbundle bit_operations_syntax

subsection \<open>Well-formed screens\<close>

definition geometry :: "vduinfo \<Rightarrow> bool" where
  "geometry v \<longleftrightarrow>
     (mono v \<and> linc v = 16 \<and> nrow v = 25 \<and> bytr v = 1280) \<or>
     (mono v \<and> linc v = 8 \<and> nrow v = 50 \<and> bytr v = 640) \<or>
     (\<not> mono v \<and> linc v = 8 \<and> nrow v = 25 \<and> bytr v = 1280)"

definition cursor_ok :: "vduinfo \<Rightarrow> bool" where
  "cursor_ok v \<longleftrightarrow> 0 \<le> crow v \<and> crow v < nrow v \<and> 0 \<le> ccol v \<and> ccol v \<le> NCOL \<and>
     curs v = char_addr v (crow v) (if ccol v = NCOL then NCOL - 1 else ccol v) \<and>
     (\<forall>k. v_next v = Some k \<longrightarrow> k \<le> VBUF)"

definition saved_ok :: "vduinfo \<Rightarrow> bool" where
  "saved_ok v \<longleftrightarrow> 0 \<le> savcrow v \<and> savcrow v < nrow v \<and> 0 \<le> savccol v \<and> savccol v \<le> NCOL"

text \<open>The driver and the video circuit agree about the resolution and the place of the video RAM.\<close>

definition circuit_ok :: "vduinfo \<Rightarrow> video \<Rightarrow> bool" where
  "circuit_ok v w \<longleftrightarrow> (mono v \<longleftrightarrow> vd_res w AND 2 \<noteq> 0) \<and>
     vram v = push_bit 16 (ucast (vd_ramh w)) OR push_bit 8 (ucast (vd_ramm w))"

definition screen_ok :: "tstate \<Rightarrow> bool" where
  "screen_ok s \<longleftrightarrow> geometry (vdu s) \<and> cursor_ok (vdu s) \<and> saved_ok (vdu s) \<and> circuit_ok (vdu s) (video s)"

text \<open>What stays as it is while the screen changes: everything but the screen, and all memory that
  is not video RAM.\<close>

definition SCREEN_BYTES :: nat where "SCREEN_BYTES = 32003"

definition only_screen :: "tstate \<Rightarrow> tstate \<Rightarrow> bool" where
  "only_screen s s' \<longleftrightarrow>
     s'\<lparr>kern := kern s, ttys := ttys s, vdu := vdu s, video := video s, keypad := keypad s, app_mode := app_mode s\<rparr> = s \<and>
     (kern s')\<lparr>kmem := kmem (kern s)\<rparr> = kern s \<and>
     (\<forall>i. (ttys s' i)\<lparr>tty_devstart := tty_devstart (ttys s i)\<rparr> = ttys s i) \<and>
     vram (vdu s') = vram (vdu s) \<and>
     (\<forall>a. unat (a - vram (vdu s)) \<ge> SCREEN_BYTES \<longrightarrow> ram s' a = ram s a)"

lemma only_screen_refl [simp]: "only_screen s s"
  by (simp add: only_screen_def)

lemma record_patch:
  fixes s s' s'' :: tstate
  assumes "s'\<lparr>kern := kern s, ttys := ttys s, vdu := vdu s, video := video s, keypad := keypad s, app_mode := app_mode s\<rparr> = s"
    and "s''\<lparr>kern := kern s', ttys := ttys s', vdu := vdu s', video := video s', keypad := keypad s', app_mode := app_mode s'\<rparr> = s'"
  shows "s''\<lparr>kern := kern s, ttys := ttys s, vdu := vdu s, video := video s, keypad := keypad s, app_mode := app_mode s\<rparr> = s"
  using assms by (cases s; cases s'; cases s'') simp

lemma kern_patch:
  fixes k k' k'' :: kstate
  assumes "k'\<lparr>kmem := kmem k\<rparr> = k" and "k''\<lparr>kmem := kmem k'\<rparr> = k'"
  shows "k''\<lparr>kmem := kmem k\<rparr> = k"
  using assms by (cases k; cases k'; cases k'') simp

lemma tty_patch:
  fixes t t' t'' :: tty_struct
  assumes "t'\<lparr>tty_devstart := tty_devstart t\<rparr> = t" and "t''\<lparr>tty_devstart := tty_devstart t'\<rparr> = t'"
  shows "t''\<lparr>tty_devstart := tty_devstart t\<rparr> = t"
  using assms by (cases t; cases t'; cases t'') simp

lemma only_screen_trans [trans]:
  assumes "only_screen s s'" and "only_screen s' s''"
  shows "only_screen s s''"
proof -
  have "s''\<lparr>kern := kern s, ttys := ttys s, vdu := vdu s, video := video s, keypad := keypad s, app_mode := app_mode s\<rparr> = s"
    by (rule record_patch [where s' = s']) (use assms in \<open>simp_all add: only_screen_def\<close>)
  moreover have "(kern s'')\<lparr>kmem := kmem (kern s)\<rparr> = kern s"
    by (rule kern_patch [where k' = "kern s'"]) (use assms in \<open>simp_all add: only_screen_def\<close>)
  moreover have "(ttys s'' i)\<lparr>tty_devstart := tty_devstart (ttys s i)\<rparr> = ttys s i" for i
    by (rule tty_patch [where t' = "ttys s' i"]) (use assms in \<open>simp_all add: only_screen_def\<close>)
  ultimately show ?thesis using assms by (simp add: only_screen_def)
qed

subsection \<open>Drawing\<close>

text \<open>Drawing changes video RAM only.\<close>

definition drawn :: "tstate \<Rightarrow> tstate \<Rightarrow> bool" where
  "drawn s s' \<longleftrightarrow> s'\<lparr>kern := kern s\<rparr> = s \<and> (kern s')\<lparr>kmem := kmem (kern s)\<rparr> = kern s \<and>
     (\<forall>a. unat (a - vram (vdu s)) \<ge> SCREEN_BYTES \<longrightarrow> ram s' a = ram s a)"

lemma drawn_refl [simp]: "drawn s s"
  by (simp add: drawn_def)

lemma drawn_fields:
  assumes "drawn s s'"
  shows "vdu s' = vdu s" "video s' = video s" "ttys s' = ttys s"
proof -
  have "vdu (s'\<lparr>kern := kern s\<rparr>) = vdu s" "video (s'\<lparr>kern := kern s\<rparr>) = video s" "ttys (s'\<lparr>kern := kern s\<rparr>) = ttys s"
    using assms by (simp_all only: drawn_def)
  then show "vdu s' = vdu s" "video s' = video s" "ttys s' = ttys s" by simp_all
qed

lemma drawn_only:
  assumes "drawn s s'" shows "only_screen s s'"
  using assms drawn_fields [OF assms] by (cases s; cases s') (auto simp: drawn_def only_screen_def)

lemma drawn_trans:
  assumes "drawn s s'" and "drawn s' s''" shows "drawn s s''"
proof -
  have "s''\<lparr>kern := kern s\<rparr> = s" using assms by (cases s; cases s'; cases s'') (simp add: drawn_def)
  moreover have "(kern s'')\<lparr>kmem := kmem (kern s)\<rparr> = kern s"
    by (rule kern_patch [where k' = "kern s'"]) (use assms in \<open>simp_all add: drawn_def\<close>)
  ultimately show ?thesis using assms drawn_fields [OF assms(1)] by (simp add: drawn_def)
qed

lemma drawn_ram:
  assumes "\<And>a. unat (a - vram (vdu s)) \<ge> SCREEN_BYTES \<Longrightarrow> f (ram s) a = ram s a"
  shows "drawn s (upd_ram f s)"
  using assms by (simp add: drawn_def upd_ram_def upd_mem_def ram_def)

lemma drawn_fold:
  assumes "\<And>x s'. x \<in> set xs \<Longrightarrow> drawn s s' \<Longrightarrow> drawn s' (f x s')"
  shows "drawn s (fold f xs s)"
proof -
  have "drawn s s1 \<Longrightarrow> (\<forall>x\<in>set xs. \<forall>s'. drawn s s' \<longrightarrow> drawn s' (f x s')) \<Longrightarrow> drawn s (fold f xs s1)" for s1
  proof (induction xs arbitrary: s1)
    case (Cons x xs)
    have "drawn s (f x s1)" by (rule drawn_trans [OF Cons.prems(1)]) (use Cons.prems in auto)
    then show ?case using Cons by simp
  qed simp
  then show ?thesis using assms by simp
qed

lemma each_line_outside:
  assumes "\<And>k. k \<in> set ks \<Longrightarrow> a \<noteq> p + word_of_int (k * scan_bytes v)"
  shows "each_line v p f ks m a = m a"
  using assms by (induction ks arbitrary: m) (auto simp: each_line_def)

lemma offset_bound:
  fixes b :: addr
  assumes "0 \<le> x" and "x < int SCREEN_BYTES"
  shows "unat (b + word_of_int x - b) < SCREEN_BYTES"
  using assms by (simp add: SCREEN_BYTES_def unat_eq_nat_uint uint_word_of_int)

lemma drawn_each_line:
  assumes "p = vram (vdu s) + word_of_int x"
    and "\<And>k. k \<in> set ks \<Longrightarrow> 0 \<le> x + k * scan_bytes (vdu s) \<and> x + k * scan_bytes (vdu s) < int SCREEN_BYTES"
  shows "drawn s (upd_ram (each_line (vdu s) p f ks) s)"
proof (rule drawn_ram, rule each_line_outside)
  fix a k assume a: "unat (a - vram (vdu s)) \<ge> SCREEN_BYTES" and k: "k \<in> set ks"
  show "a \<noteq> p + word_of_int (k * scan_bytes (vdu s))"
  proof
    assume "a = p + word_of_int (k * scan_bytes (vdu s))"
    then have "a = vram (vdu s) + word_of_int (x + k * scan_bytes (vdu s))"
      by (simp add: assms(1) add.assoc)
    with a offset_bound [of "x + k * scan_bytes (vdu s)" "vram (vdu s)"] assms(2) [OF k] show False by simp
  qed
qed

lemma drawn_row:
  assumes "p = vram (vdu s) + word_of_int x" and "0 \<le> x" and "x + int n \<le> int SCREEN_BYTES"
    and "\<And>m a. unat (a - p) \<ge> n \<Longrightarrow> f m a = m a"
  shows "drawn s (upd_ram f s)"
proof (rule drawn_ram)
  fix a assume a: "unat (a - vram (vdu s)) \<ge> SCREEN_BYTES"
  have "unat (a - p) \<ge> n"
  proof (rule ccontr)
    assume "\<not> n \<le> unat (a - p)"
    then have lt: "unat (a - p) < n" by simp
    have "unat (word_of_int x + (a - p)) \<le> unat (word_of_int x :: addr) + unat (a - p)"
      by (simp only: unat_word_ariths(1) mod_less_eq_dividend)
    then have "unat (a - vram (vdu s)) \<le> unat (word_of_int x :: addr) + unat (a - p)"
      by (simp add: assms(1))
    moreover have "unat (word_of_int x :: addr) = nat x"
      using assms(2,3) by (simp add: SCREEN_BYTES_def unat_eq_nat_uint uint_word_of_int)
    ultimately show False using a lt assms(2,3) by simp
  qed
  then show "f (ram s) a = ram s a" by (rule assms(4))
qed


lemma phys_copy_outside: "unat (a - dst) \<ge> n \<Longrightarrow> phys_copy src dst n m a = m a"
  by (simp add: phys_copy_def)

lemma row_bounds:
  assumes "geometry v" and "0 \<le> r" and "r < nrow v"
  shows "0 \<le> r * bytr v" "r * bytr v + int (16 * nat (bytr v div 16)) \<le> int SCREEN_BYTES"
  using assms by (auto simp: geometry_def SCREEN_BYTES_def)

lemma char_bounds:
  assumes "geometry v" and "0 \<le> r" and "r < nrow v" and "0 \<le> c" and "c \<le> NCOL" and "k \<in> set (scan_lines v)"
  shows "0 \<le> r * bytr v + col_byte v c + k * scan_bytes v"
    "r * bytr v + col_byte v c + k * scan_bytes v + 2 < int SCREEN_BYTES \<or>
     mono v \<and> r * bytr v + col_byte v c + k * scan_bytes v < int SCREEN_BYTES"
proof -
  have "odd c \<longrightarrow> 1 \<le> c" using assms(4) by presburger
  with assms show "0 \<le> r * bytr v + col_byte v c + k * scan_bytes v"
    "r * bytr v + col_byte v c + k * scan_bytes v + 2 < int SCREEN_BYTES \<or>
     mono v \<and> r * bytr v + col_byte v c + k * scan_bytes v < int SCREEN_BYTES"
    by (auto simp: geometry_def SCREEN_BYTES_def col_byte_def scan_lines_def scan_bytes_def Let_def)
qed

lemma cpyline_drawn [intro]:
  assumes "geometry (vdu s)" and "0 \<le> r2" and "r2 < nrow (vdu s)"
  shows "drawn s (cpyline r1 r2 s)"
  unfolding cpyline_def Let_def
  by (rule drawn_row [OF refl row_bounds(1) [OF assms] row_bounds(2) [OF assms]]) (rule phys_copy_outside)

lemma clrline_drawn [intro]:
  assumes "geometry (vdu s)" and "0 \<le> r" and "r < nrow (vdu s)"
  shows "drawn s (clrline r s)"
  unfolding clrline_def Let_def
  by (rule drawn_row [OF refl row_bounds(1) [OF assms] row_bounds(2) [OF assms]]) simp

text \<open>A column of a character, and in colour the one of the second plane behind it.\<close>

lemma column_drawn:
  assumes "geometry (vdu s)" and "0 \<le> r" and "r < nrow (vdu s)" and "0 \<le> c" and "c \<le> NCOL"
    and "set ks = set (scan_lines (vdu s))"
  shows "drawn s (upd_ram (each_line (vdu s) (char_addr (vdu s) r c) f ks) s)"
proof (rule drawn_each_line)
  show "char_addr (vdu s) r c = vram (vdu s) + word_of_int (r * bytr (vdu s) + col_byte (vdu s) c)"
    by (simp add: char_addr_def)
  fix k assume "k \<in> set ks"
  then show "0 \<le> r * bytr (vdu s) + col_byte (vdu s) c + k * scan_bytes (vdu s) \<and>
    r * bytr (vdu s) + col_byte (vdu s) c + k * scan_bytes (vdu s) < int SCREEN_BYTES"
    using char_bounds [OF assms(1-5), of k] assms(6) by auto
qed

lemma plane_drawn:
  assumes "geometry (vdu s)" and "0 \<le> r" and "r < nrow (vdu s)" and "0 \<le> c" and "c \<le> NCOL"
    and "set ks = set (scan_lines (vdu s))" and "\<not> mono (vdu s)"
  shows "drawn s (upd_ram (each_line (vdu s) (char_addr (vdu s) r c + 2) f ks) s)"
proof (rule drawn_each_line)
  show "char_addr (vdu s) r c + 2 = vram (vdu s) + word_of_int (r * bytr (vdu s) + col_byte (vdu s) c + 2)"
    by (simp add: char_addr_def)
  fix k assume "k \<in> set ks"
  then show "0 \<le> r * bytr (vdu s) + col_byte (vdu s) c + 2 + k * scan_bytes (vdu s) \<and>
    r * bytr (vdu s) + col_byte (vdu s) c + 2 + k * scan_bytes (vdu s) < int SCREEN_BYTES"
    using char_bounds [OF assms(1-5), of k] assms(6,7) by auto
qed

lemma clrchar_drawn [intro]:
  assumes "geometry (vdu s)" and "0 \<le> r" and "r < nrow (vdu s)" and "0 \<le> c" and "c \<le> NCOL"
  shows "drawn s (clrchar r c s)"
proof -
  define s1 where "s1 = upd_ram (each_line (vdu s) (char_addr (vdu s) r c) (\<lambda>k m. 0) (scan_lines (vdu s))) s"
  have d: "drawn s s1" unfolding s1_def by (rule column_drawn [OF assms refl])
  have v: "vdu s1 = vdu s" by (rule drawn_fields(1) [OF d])
  show ?thesis
  proof (cases "mono (vdu s)")
    case True then show ?thesis using d by (simp add: clrchar_def Let_def s1_def)
  next
    case False
    have "drawn s1 (upd_ram (each_line (vdu s1) (char_addr (vdu s1) r c + 2) (\<lambda>k m. 0) (rev (scan_lines (vdu s1)))) s1)"
      by (rule plane_drawn) (use assms False v in auto)
    then show ?thesis using drawn_trans [OF d] False v by (simp add: clrchar_def Let_def s1_def [symmetric])
  qed
qed

lemma cpychar_drawn [intro]:
  assumes "geometry (vdu s)" and "0 \<le> r2" and "r2 < nrow (vdu s)" and "0 \<le> c2" and "c2 \<le> NCOL"
  shows "drawn s (cpychar r1 c1 r2 c2 s)"
proof -
  define g where "g = (\<lambda>d k m. m (char_addr (vdu s) r1 c1 + d + word_of_int (k * scan_bytes (vdu s))) :: 8 word)"
  define s1 where "s1 = upd_ram (each_line (vdu s) (char_addr (vdu s) r2 c2) (g 0) (scan_lines (vdu s))) s"
  have d: "drawn s s1" unfolding s1_def by (rule column_drawn [OF assms refl])
  have v: "vdu s1 = vdu s" by (rule drawn_fields(1) [OF d])
  have e: "cpychar r1 c1 r2 c2 s =
      (if mono (vdu s) then s1 else upd_ram (each_line (vdu s1) (char_addr (vdu s1) r2 c2 + 2) (g 2) (rev (scan_lines (vdu s1)))) s1)"
    by (simp add: cpychar_def Let_def s1_def g_def)
  show ?thesis
  proof (cases "mono (vdu s)")
    case True then show ?thesis using d by (simp add: e)
  next
    case False
    have "drawn s1 (upd_ram (each_line (vdu s1) (char_addr (vdu s1) r2 c2 + 2) (g 2) (rev (scan_lines (vdu s1)))) s1)"
      by (rule plane_drawn) (use assms False v in auto)
    then show ?thesis using drawn_trans [OF d] False by (simp add: e)
  qed
qed

text \<open>\<open>clrarea\<close> may start behind the last column, which is where a full line leaves the cursor.\<close>

lemma clrarea_drawn:
  assumes g: "geometry (vdu s)" and r: "0 \<le> r1" "r1 < nrow (vdu s)" "r1 \<le> r2" "r2 < nrow (vdu s)"
    and c: "0 \<le> c1" "c1 \<le> NCOL" "- 1 \<le> c2" "c2 \<le> NCOL"
  shows "drawn s (clrarea r1 c1 r2 c2 s)"
proof -
  have chars: "drawn s' (fold (clrchar r) cs s')"
    if "drawn s s'" "0 \<le> r" "cs \<noteq> [] \<longrightarrow> r < nrow (vdu s)" "set cs \<subseteq> {0..NCOL}" for s' r cs
  proof (rule drawn_fold)
    fix x s'' assume "x \<in> set cs" "drawn s' s''"
    then show "drawn s'' (clrchar r x s'')"
      using that g drawn_fields(1) [of s' s''] drawn_fields(1) [OF that(1)] by (intro clrchar_drawn) auto
  qed
  have lines: "drawn s' (fold clrline [a..b - 1] s')" if "drawn s s'" "0 \<le> a" "b \<le> nrow (vdu s)" for s' a b
  proof (rule drawn_fold)
    fix x s'' assume "x \<in> set [a..b - 1]" "drawn s' s''"
    then show "drawn s'' (clrline x s'')"
      using that g drawn_fields(1) [of s' s''] drawn_fields(1) [OF that(1)] by (intro clrline_drawn) auto
  qed
  obtain c2' r2' where e: "(if c2 + 1 = NCOL then (0, r2 + 1) else (c2 + 1, r2)) = (c2', r2')" by fastforce
  then have b: "0 \<le> c2'" "c2' \<le> NCOL + 1" "r2' \<le> nrow (vdu s)" "r1 \<le> r2'" "c2' > 0 \<longrightarrow> r2' < nrow (vdu s)"
    using r c by (auto split: if_splits)
  obtain a c' s1 where f: "(if c1 > 0 \<and> r1 < r2' then (r1 + 1, 0, fold (clrchar r1) (c1 # [c1 + 1..NCOL - 1]) s) else (r1, c1, s)) = (a, c', s1)"
    by (metis prod_cases3)
  have s1: "drawn s s1"
    using f chars [of s r1 "c1 # [c1 + 1..NCOL - 1]"] r c by (auto split: if_splits)
  have ab: "0 \<le> a" "a \<le> r2'" "0 \<le> c'" using f r c b by (auto split: if_splits)
  define s2 where "s2 = fold clrline [a..r2' - 1] s1"
  have s2: "drawn s s2" unfolding s2_def by (rule drawn_trans [OF s1 lines [OF s1]]) (use ab b in auto)
  have "drawn s (fold (clrchar (max a r2')) [c'..c2' - 1] s2)"
  proof (rule drawn_trans [OF s2 chars [OF s2]])
    show "0 \<le> max a r2'" using ab by simp
    show "[c'..c2' - 1] \<noteq> [] \<longrightarrow> max a r2' < nrow (vdu s)" using ab b by auto
    show "set [c'..c2' - 1] \<subseteq> {0..NCOL}" using ab b by auto
  qed
  then show ?thesis by (simp only: clrarea_def Let_def e f prod.case s2_def)
qed

lemma paint_drawn:
  assumes "geometry (vdu s)" and "cursor_ok (vdu s)"
  shows "drawn s (paint c s)"
proof -
  obtain r k where a: "curs (vdu s) = char_addr (vdu s) r k" "0 \<le> r" "r < nrow (vdu s)" "0 \<le> k" "k \<le> NCOL"
    using assms(2) by (auto simp: cursor_ok_def split: if_splits)
  define f1 f2 where "f1 = (\<lambda>k (m::addr \<Rightarrow> 8 word). if v_attr (vdu s) AND 1 = 0 then (if linc (vdu s) = 16 then font16 s (16 * unat (c AND 0x7F) + nat k) else font8 s (8 * unat (c AND 0x7F) + nat k)) else NOT (if linc (vdu s) = 16 then font16 s (16 * unat (c AND 0x7F) + nat k) else font8 s (8 * unat (c AND 0x7F) + nat k)))"
    and "f2 = (\<lambda>k (m::addr \<Rightarrow> 8 word). if v_attr (vdu s) AND 2 = 0 then (if linc (vdu s) = 16 then font16 s (16 * unat (c AND 0x7F) + nat k) else font8 s (8 * unat (c AND 0x7F) + nat k)) else NOT (if linc (vdu s) = 16 then font16 s (16 * unat (c AND 0x7F) + nat k) else font8 s (8 * unat (c AND 0x7F) + nat k)))"
  define s1 where "s1 = (if v_attr (vdu s) AND 4 = 0 then upd_ram (each_line (vdu s) (char_addr (vdu s) r k) f1 (scan_lines (vdu s))) s else s)"
  have d: "drawn s s1" unfolding s1_def using column_drawn [OF assms(1) a(2-5) refl] by simp
  have v: "vdu s1 = vdu s" by (rule drawn_fields(1) [OF d])
  have e: "paint c s = (if \<not> mono (vdu s) \<and> v_attr (vdu s) AND 8 = 0
      then upd_ram (each_line (vdu s1) (char_addr (vdu s1) r k + 2) f2 (scan_lines (vdu s1))) s1 else s1)"
    unfolding v by (simp add: paint_def Let_def a(1) s1_def f1_def f2_def)
  have "drawn s1 (upd_ram (each_line (vdu s1) (char_addr (vdu s1) r k + 2) f2 (scan_lines (vdu s1))) s1)" if "\<not> mono (vdu s)"
    by (rule plane_drawn) (use assms a that v in auto)
  then show ?thesis unfolding e using d drawn_trans [OF d] by simp
qed

lemma vducursor_drawn:
  assumes "geometry (vdu s)" and "cursor_ok (vdu s)"
  shows "drawn s (vducursor s)"
proof -
  obtain r k where a: "curs (vdu s) = char_addr (vdu s) r k" "0 \<le> r" "r < nrow (vdu s)" "0 \<le> k" "k \<le> NCOL"
    using assms(2) by (auto simp: cursor_ok_def split: if_splits)
  define f where "f = (\<lambda>(p :: addr) k m. NOT (m (p + word_of_int (k * scan_bytes (vdu s)))) :: 8 word)"
  define s1 where "s1 = (if v_attr (vdu s) AND 4 = 0 then upd_ram (each_line (vdu s) (char_addr (vdu s) r k) (f (char_addr (vdu s) r k)) (scan_lines (vdu s))) s else s)"
  have d: "drawn s s1" unfolding s1_def using column_drawn [OF assms(1) a(2-5) refl] by simp
  have v: "vdu s1 = vdu s" by (rule drawn_fields(1) [OF d])
  have e: "vducursor s = (if \<not> mono (vdu s) \<and> v_attr (vdu s) AND 8 = 0
      then upd_ram (each_line (vdu s1) (char_addr (vdu s1) r k + 2) (f (char_addr (vdu s1) r k + 2)) (scan_lines (vdu s1))) s1 else s1)"
    unfolding v by (simp add: vducursor_def Let_def a(1) s1_def f_def)
  have "drawn s1 (upd_ram (each_line (vdu s1) (char_addr (vdu s1) r k + 2) (f (char_addr (vdu s1) r k + 2)) (scan_lines (vdu s1))) s1)" if "\<not> mono (vdu s)"
    by (rule plane_drawn) (use assms a that v in auto)
  then show ?thesis unfolding e using d drawn_trans [OF d] by simp
qed


subsection \<open>Operations keep the screen in order\<close>

text \<open>\<open>restore_cursor\<close> needs the saved row to be on the screen, and only the change to fewer lines
  can take it off; \<open>framed\<close> is what holds in any case.\<close>

definition framed :: "tstate \<Rightarrow> bool" where
  "framed s \<longleftrightarrow> geometry (vdu s) \<and> cursor_ok (vdu s) \<and> circuit_ok (vdu s) (video s) \<and>
     0 \<le> savcrow (vdu s) \<and> 0 \<le> savccol (vdu s) \<and> savccol (vdu s) \<le> NCOL"

lemma screen_ok_framed: "screen_ok s \<longleftrightarrow> framed s \<and> savcrow (vdu s) < nrow (vdu s)"
  by (auto simp: screen_ok_def framed_def saved_ok_def)

definition shown :: "tstate \<Rightarrow> tstate \<Rightarrow> bool" where
  "shown s s' \<longleftrightarrow> only_screen s s' \<and> framed s'"

lemma shown_refl: "framed s \<Longrightarrow> shown s s"
  by (simp add: shown_def)

lemma shown_trans: "shown s s' \<Longrightarrow> shown s' s'' \<Longrightarrow> shown s s''"
  by (auto simp: shown_def intro: only_screen_trans)

lemma shown_drawn: "framed s \<Longrightarrow> drawn s s' \<Longrightarrow> shown s s'"
  using drawn_only [of s s'] drawn_fields [of s s'] by (simp add: shown_def framed_def)

text \<open>Changes of fields of \<open>vduinfo\<close> and of the mode bits.\<close>

lemma only_upd_vdu: "vram (g (vdu s)) = vram (vdu s) \<Longrightarrow> only_screen s (upd_vdu g s)"
  by (cases s) (simp add: only_screen_def upd_vdu_def ram_def)

lemma shown_upd_vdu:
  assumes "framed s" and "geometry (g (vdu s))" "cursor_ok (g (vdu s))" "circuit_ok (g (vdu s)) (video s)"
    "vram (g (vdu s)) = vram (vdu s)" "0 \<le> savcrow (g (vdu s))" "0 \<le> savccol (g (vdu s))" "savccol (g (vdu s)) \<le> NCOL"
  shows "shown s (upd_vdu g s)"
  using assms only_upd_vdu [of g s] by (simp add: shown_def framed_def)

lemma shown_fields:
  assumes "framed s"
  shows "shown s (upd_vdu (v_attr_update h) s)"
    "shown s (upd_vdu (vbuf_update b) s)"
    "shown s (upd_vdu (v_next_update (\<lambda>_. None)) s)"
    "k \<le> VBUF \<Longrightarrow> shown s (upd_vdu (v_next_update (\<lambda>_. Some k)) s)"
    "k \<le> VBUF \<Longrightarrow> shown s (upd_vdu (\<lambda>v. v\<lparr>vbuf := d v, v_next := Some k\<rparr>) s)"
    "shown s (upd_vdu (\<lambda>v. v\<lparr>savccol := ccol v, savcrow := crow v, savattr := v_attr v\<rparr>) s)"
  using assms by (auto intro!: shown_upd_vdu simp: framed_def geometry_def cursor_ok_def circuit_ok_def char_addr_def col_byte_def Let_def)

lemma shown_switches:
  assumes "framed s"
  shows "shown s (s\<lparr>keypad := b\<rparr>)" "shown s (s\<lparr>app_mode := b\<rparr>)" "shown s (set_rgb k w s)"
  using assms by (cases s; simp add: shown_def framed_def only_screen_def set_rgb_def ram_def circuit_ok_def)+

lemma moveto_shown:
  assumes "framed s" shows "shown s (moveto r c s)"
proof (cases "r < 0 \<or> r \<ge> nrow (vdu s) \<or> c < 0 \<or> c > NCOL")
  case True then show ?thesis by (simp add: moveto_def shown_refl [OF assms])
next
  case False
  then have e: "moveto r c s = upd_vdu (\<lambda>v. v\<lparr>crow := r, ccol := c, curs := char_addr (vdu s) r (if c = NCOL then c - 1 else c)\<rparr>) s"
    by (simp add: moveto_def upd_vdu_def)
  show ?thesis unfolding e
    by (rule shown_upd_vdu) (use assms False in \<open>auto simp: framed_def geometry_def cursor_ok_def circuit_ok_def char_addr_def col_byte_def Let_def\<close>)
qed

lemma framed_D:
  assumes "framed s"
  shows "geometry (vdu s)" "cursor_ok (vdu s)" "0 \<le> crow (vdu s)" "crow (vdu s) < nrow (vdu s)"
    "0 \<le> ccol (vdu s)" "ccol (vdu s) \<le> NCOL" "0 < nrow (vdu s)"
  using assms by (auto simp: framed_def cursor_ok_def)

lemma shown_framed: "shown s s' \<Longrightarrow> framed s'"
  by (simp add: shown_def)

lemma carriage_return_shown: "framed s \<Longrightarrow> shown s (carriage_return s)"
  by (simp add: carriage_return_def moveto_shown)

text \<open>Copying and clearing whole lines.\<close>

lemma lines_drawn:
  assumes "framed s" and "\<And>x. x \<in> set xs \<Longrightarrow> 0 \<le> x \<and> x < nrow (vdu s)"
  shows "drawn s (fold (\<lambda>x. cpyline (h x) x) xs s)" "drawn s (fold clrline xs s)"
proof -
  have v: "geometry (vdu s')" "vdu s' = vdu s" if "drawn s s'" for s'
    using drawn_fields(1) [OF that] framed_D(1) [OF assms(1)] by simp_all
  show "drawn s (fold (\<lambda>x. cpyline (h x) x) xs s)"
  proof (rule drawn_fold)
    fix x s' assume x: "x \<in> set xs" "drawn s s'"
    show "drawn s' (cpyline (h x) x s')" by (rule cpyline_drawn [OF v(1) [OF x(2)]]) (use assms(2) [OF x(1)] v(2) [OF x(2)] in simp_all)
  qed
  show "drawn s (fold clrline xs s)"
  proof (rule drawn_fold)
    fix x s' assume x: "x \<in> set xs" "drawn s s'"
    show "drawn s' (clrline x s')" by (rule clrline_drawn [OF v(1) [OF x(2)]]) (use assms(2) [OF x(1)] v(2) [OF x(2)] in simp_all)
  qed
qed

lemma line_down_shown:
  assumes "framed s" shows "shown s (line_down s)"
proof (cases "crow (vdu s) = nrow (vdu s) - 1")
  case True
  define s1 where "s1 = fold (\<lambda>i. cpyline (i + 1) i) [0..nrow (vdu s) - 2] s"
  have d: "drawn s s1" unfolding s1_def by (rule lines_drawn(1) [OF assms]) auto
  have "drawn s1 (clrline (nrow (vdu s1) - 1) s1)"
    by (rule clrline_drawn) (use framed_D [OF assms] drawn_fields(1) [OF d] in auto)
  then show ?thesis
    using shown_drawn [OF assms drawn_trans [OF d]] True drawn_fields(1) [OF d]
    by (simp add: line_down_def Let_def s1_def [symmetric])
next
  case False then show ?thesis by (simp add: line_down_def Let_def moveto_shown [OF assms])
qed

lemma newline_shown:
  assumes "framed s" shows "shown s (newline s)"
proof -
  define s1 where "s1 = (if tty_mode (ttys s CONSOLE) AND CRMOD \<noteq> 0 then carriage_return s else s)"
  have "shown s s1" using assms by (simp add: s1_def carriage_return_shown shown_refl)
  then show ?thesis
    unfolding newline_def s1_def [symmetric] by (rule shown_trans [OF _ line_down_shown [OF shown_framed]]) fact
qed

lemma reverse_index_shown:
  assumes "framed s" shows "shown s (reverse_index s)"
proof (cases "crow (vdu s) = 0")
  case True
  define s1 where "s1 = fold (\<lambda>i. cpyline (i - 1) i) (rev [1..nrow (vdu s) - 1]) s"
  have d: "drawn s s1" unfolding s1_def by (rule lines_drawn(1) [OF assms]) auto
  have "drawn s1 (clrline 0 s1)"
    by (rule clrline_drawn) (use framed_D [OF assms] drawn_fields(1) [OF d] in auto)
  then show ?thesis
    using shown_drawn [OF assms drawn_trans [OF d]] True by (simp add: reverse_index_def Let_def s1_def [symmetric])
next
  case False then show ?thesis by (simp add: reverse_index_def Let_def moveto_shown [OF assms])
qed

lemma rendition_shown: "framed s \<Longrightarrow> shown s (rendition j s)"
  by (simp add: rendition_def shown_fields shown_switches shown_refl)

lemma renditions_shown: "framed s \<Longrightarrow> shown s (renditions n j p s)"
proof (induction n arbitrary: j p s)
  case 0 then show ?case by (simp add: shown_refl)
next
  case (Suc n)
  have r: "shown s (rendition j s)" by (rule rendition_shown [OF Suc.prems])
  show ?case using r shown_trans [OF r Suc.IH [OF shown_framed [OF r]]] by (auto simp: Let_def split: prod.split)
qed

lemma insert_lines_shown:
  assumes "framed s" and "i \<ge> 1" shows "shown s (insert_lines i s)"
proof -
  define m where "m = (if i > nrow (vdu s) - crow (vdu s) then nrow (vdu s) - crow (vdu s) else i)"
  have m: "1 \<le> m" "m \<le> nrow (vdu s) - crow (vdu s)" using assms framed_D [OF assms(1)] by (auto simp: m_def)
  define s1 where "s1 = fold (\<lambda>j. cpyline (j - m) j) (rev [crow (vdu s) + m..nrow (vdu s) - 1]) s"
  have d: "drawn s s1" unfolding s1_def by (rule lines_drawn(1) [OF assms(1)]) (use m framed_D [OF assms(1)] in auto)
  have "drawn s1 (fold clrline (rev [crow (vdu s)..crow (vdu s) + m - 1]) s1)"
    by (rule lines_drawn(2) [OF shown_framed [OF shown_drawn [OF assms(1) d]]])
      (use m framed_D [OF assms(1)] drawn_fields(1) [OF d] in auto)
  then show ?thesis using shown_drawn [OF assms(1) drawn_trans [OF d]]
    by (simp add: insert_lines_def Let_def m_def [symmetric] s1_def [symmetric])
qed

lemma delete_lines_shown:
  assumes "framed s" and "i \<ge> 1" shows "shown s (delete_lines i s)"
proof -
  define m where "m = (if i > nrow (vdu s) - crow (vdu s) then nrow (vdu s) - crow (vdu s) else i)"
  have m: "1 \<le> m" "m \<le> nrow (vdu s) - crow (vdu s)" using assms framed_D [OF assms(1)] by (auto simp: m_def)
  define s1 where "s1 = fold (\<lambda>j. cpyline (j + m) j) [crow (vdu s)..nrow (vdu s) - m - 1] s"
  have d: "drawn s s1" unfolding s1_def by (rule lines_drawn(1) [OF assms(1)]) (use m framed_D [OF assms(1)] in auto)
  have "drawn s1 (fold clrline [nrow (vdu s) - m..nrow (vdu s) - 1] s1)"
    by (rule lines_drawn(2) [OF shown_framed [OF shown_drawn [OF assms(1) d]]])
      (use m framed_D [OF assms(1)] drawn_fields(1) [OF d] in auto)
  then show ?thesis using shown_drawn [OF assms(1) drawn_trans [OF d]]
    by (simp add: delete_lines_def Let_def m_def [symmetric] s1_def [symmetric])
qed

lemma chars_drawn:
  assumes "framed s" and "\<And>x. x \<in> set xs \<Longrightarrow> 0 \<le> h x \<and> h x \<le> NCOL"
  shows "drawn s (fold (\<lambda>x. cpychar r (g x) (crow (vdu s)) (h x)) xs s)"
proof -
  have v: "geometry (vdu s')" "vdu s' = vdu s" if "drawn s s'" for s'
    using drawn_fields(1) [OF that] framed_D(1) [OF assms(1)] by simp_all
  show ?thesis
  proof (rule drawn_fold)
    fix x s' assume x: "x \<in> set xs" "drawn s s'"
    show "drawn s' (cpychar r (g x) (crow (vdu s)) (h x) s')"
      by (rule cpychar_drawn [OF v(1) [OF x(2)]]) (use assms(2) [OF x(1)] v(2) [OF x(2)] framed_D [OF assms(1)] in simp_all)
  qed
qed

lemma insert_chars_shown:
  assumes "framed s" and "i \<ge> 1" shows "shown s (insert_chars i s)"
proof -
  define m where "m = (if i > NCOL - ccol (vdu s) then NCOL - ccol (vdu s) else i)"
  have m: "0 \<le> m" "m \<le> NCOL - ccol (vdu s)" using assms framed_D [OF assms(1)] by (auto simp: m_def)
  define s1 where "s1 = fold (\<lambda>k. cpychar (crow (vdu s)) (ccol (vdu s) + k) (crow (vdu s)) (ccol (vdu s) + k + m)) (rev [0..NCOL - ccol (vdu s) - m - 1]) s"
  have d: "drawn s s1" unfolding s1_def by (rule chars_drawn [OF assms(1)]) (use m framed_D [OF assms(1)] in auto)
  have "drawn s1 (clrarea (crow (vdu s)) (ccol (vdu s)) (crow (vdu s)) (ccol (vdu s) + m - 1) s1)"
    by (rule clrarea_drawn) (use m framed_D [OF assms(1)] drawn_fields(1) [OF d] in auto)
  moreover have "insert_chars i s = clrarea (crow (vdu s)) (ccol (vdu s)) (crow (vdu s)) (ccol (vdu s) + m - 1) s1"
    by (simp only: insert_chars_def Let_def m_def s1_def)
  ultimately show ?thesis using shown_drawn [OF assms(1) drawn_trans [OF d]] by simp
qed

lemma delete_chars_shown:
  assumes "framed s" and "i \<ge> 1" shows "shown s (delete_chars i s)"
proof -
  define m where "m = (if i > NCOL - ccol (vdu s) then NCOL - ccol (vdu s) else i)"
  have m: "0 \<le> m" "m \<le> NCOL - ccol (vdu s)" using assms framed_D [OF assms(1)] by (auto simp: m_def)
  define s1 where "s1 = fold (\<lambda>k. cpychar (crow (vdu s)) (NCOL - 1 - k) (crow (vdu s)) (NCOL - 1 - k - m)) (rev [0..NCOL - ccol (vdu s) - m - 1]) s"
  have d: "drawn s s1" unfolding s1_def by (rule chars_drawn [OF assms(1)]) (use m framed_D [OF assms(1)] in auto)
  have "drawn s1 (clrarea (crow (vdu s)) (NCOL - m) (crow (vdu s)) (NCOL - 1) s1)"
    by (rule clrarea_drawn) (use m framed_D [OF assms(1)] drawn_fields(1) [OF d] in auto)
  moreover have "delete_chars i s = clrarea (crow (vdu s)) (NCOL - m) (crow (vdu s)) (NCOL - 1) s1"
    by (simp only: delete_chars_def Let_def m_def s1_def)
  ultimately show ?thesis using shown_drawn [OF assms(1) drawn_trans [OF d]] by simp
qed

lemma erase_shown:
  assumes "framed s" shows "shown s (erase_display j s)" "shown s (erase_line j s)"
  using assms framed_D [OF assms]
  by (auto simp: erase_display_def erase_line_def Let_def intro!: shown_drawn [OF assms] clrarea_drawn shown_refl)


lemma set_lines_shown:
  assumes "framed s" and "mono (vdu s)" and "l = 16 \<and> n = 25 \<and> b = 1280 \<or> l = 8 \<and> n = 50 \<and> b = 640"
  shows "shown s (set_lines l n b s)"
proof -
  have e: "set_lines l n b s = upd_vdu (\<lambda>v. v\<lparr>linc := l, nrow := n, bytr := b, crow := n - 1, ccol := 0,
      curs := char_addr (v\<lparr>linc := l, nrow := n, bytr := b\<rparr>) (n - 1) 0\<rparr>) s"
    using assms(3) by (auto simp: set_lines_def moveto_def upd_vdu_def Let_def)
  show ?thesis unfolding e
    by (rule shown_upd_vdu) (use assms in \<open>auto simp: framed_def geometry_def cursor_ok_def circuit_ok_def char_addr_def col_byte_def Let_def\<close>)
qed

lemma set_mode_shown: "framed s \<Longrightarrow> shown s (set_mode b p s)"
  by (simp add: set_mode_def shown_switches shown_refl)

lemma minix_sequence_shown:
  assumes "framed s" shows "shown s (minix_sequence j p s)"
proof -
  define s1 where "s1 = (if j = 0 \<and> mono (vdu s) then set_lines 16 25 1280 s else s)"
  define s2 where "s2 = (if j = 1 \<and> mono (vdu s1) then set_lines 8 50 640 s1 else s1)"
  have 1: "shown s s1" unfolding s1_def using set_lines_shown [OF assms, of 16 25 1280] shown_refl [OF assms] by simp
  have 2: "shown s1 s2"
    unfolding s2_def using set_lines_shown [OF shown_framed [OF 1], of 8 50 640] shown_refl [OF shown_framed [OF 1]] by simp
  obtain j1 p1 where j1: "vduparam (vdu s2) p = (j1, p1)" by fastforce
  define s3 where "s3 = (if j1 \<ge> 0 then upd_vdu (v_attr_update (\<lambda>_. word_of_int j1 AND 15)) s2 else s2)"
  have 3: "shown s2 s3"
    unfolding s3_def using shown_fields(1) [OF shown_framed [OF 2]] shown_refl [OF shown_framed [OF 2]] by simp
  have s3: "shown s s3" by (rule shown_trans [OF shown_trans [OF 1 2] 3])
  obtain m p2 where m: "vduparam (vdu s3) p1 = (m, p2)" by fastforce
  obtain r p3 where r: "vduparam (vdu s3) p2 = (r, p3)" by fastforce
  obtain g p4 where g: "vduparam (vdu s3) p3 = (g, p4)" by fastforce
  obtain b p5 where b: "vduparam (vdu s3) p4 = (b, p5)" by fastforce
  have "minix_sequence j p s = (if m \<ge> 0 then set_rgb (nat (m mod 16)) (set_nibble 0 b (set_nibble 4 g
      (set_nibble 8 r (vd_rgb (video s3) (nat (m mod 16)))))) s3 else s3)"
    by (simp only: minix_sequence_def Let_def s1_def [symmetric] s2_def [symmetric] j1 prod.case s3_def [symmetric] m r g b)
  then show ?thesis using s3 shown_trans [OF s3 shown_switches(3) [OF shown_framed [OF s3]]] by simp
qed

lemma ansi_command_shown: "framed s \<Longrightarrow> shown s (ansi_command c j p s)"
  by (simp add: ansi_command_def Let_def moveto_shown erase_shown renditions_shown insert_lines_shown delete_lines_shown
      insert_chars_shown delete_chars_shown set_mode_shown minix_sequence_shown shown_refl)

lemma vduansi_shown:
  assumes "framed s" shows "shown s (vduansi c n s)"
proof -
  have 1: "shown s (upd_vdu (\<lambda>v. v\<lparr>vbuf := (vbuf v)(n := 0)\<rparr>) s)"
    by (rule shown_upd_vdu [OF assms])
      (use assms in \<open>auto simp: framed_def geometry_def cursor_ok_def circuit_ok_def char_addr_def col_byte_def Let_def\<close>)
  show ?thesis
    using 1 shown_refl [OF assms] shown_trans [OF 1 ansi_command_shown [OF shown_framed [OF 1]]]
    by (simp add: vduansi_def Let_def split: prod.split)
qed

lemma vduinit_shown:
  assumes "vd_res (video s) AND 2 = 0 \<longrightarrow> \<not> mono (vdu s)" and "\<forall>k. v_next (vdu s) = Some k \<longrightarrow> k \<le> VBUF"
    and "0 \<le> savcrow (vdu s)" "0 \<le> savccol (vdu s)" "savccol (vdu s) \<le> NCOL"
    and vr: "vram (vdu s) = push_bit 16 (ucast (vd_ramh (video s))) OR push_bit 8 (ucast (vd_ramm (video s)))"
  shows "shown s (vduinit s)"
proof -
  define g where "g = (\<lambda>v :: vduinfo. if vd_res (video s) AND 2 \<noteq> 0 then v\<lparr>mono := True, linc := FONTM, nrow := 25, bytr := 1280\<rparr>
     else v\<lparr>linc := FONTC, nrow := 25, bytr := 1280, v_attr := 8\<rparr>)"
  define w where "w = (if vd_res (video s) AND 2 \<noteq> 0 then (video s)\<lparr>vd_rgb := (vd_rgb (video s))(0 := 0)\<rparr>
     else (video s)\<lparr>vd_res := 1, vd_rgb := (vd_rgb (video s))(1 := 0x777, 0 := 0)\<rparr>)"
  define h where "h = (\<lambda>v :: vduinfo. v\<lparr>vram := push_bit 16 (ucast (vd_ramh (video s))) OR push_bit 8 (ucast (vd_ramm (video s)))\<rparr>)"
  define s1 where "s1 = moveto 0 0 (upd_vdu h ((upd_vdu g (upd_tty CONSOLE (tty_devstart_update (\<lambda>_. Console)) s))\<lparr>video := w\<rparr>))"
  have e: "vduinit s = vducursor (clrarea 0 0 (nrow (vdu s1) - 1) (NCOL - 1) s1)"
  proof (cases "vd_res (video s) AND 2 = 0")
    case True then show ?thesis by (simp add: vduinit_def Let_def s1_def g_def h_def w_def)
  next
    case False then show ?thesis by (simp add: vduinit_def Let_def s1_def g_def h_def w_def)
  qed
  have nr: "nrow (g v) = 25" "nrow (h v) = nrow v" for v by (simp_all add: g_def h_def)
  have s1: "s1 = upd_vdu (\<lambda>v. v\<lparr>crow := 0, ccol := 0, curs := char_addr v 0 0\<rparr>)
      (upd_vdu h ((upd_vdu g (upd_tty CONSOLE (tty_devstart_update (\<lambda>_. Console)) s))\<lparr>video := w\<rparr>))"
    unfolding s1_def moveto_def Let_def by (simp add: nr upd_vdu_def)
  have f1: "framed s1"
    using assms unfolding s1
    by (auto simp: framed_def geometry_def cursor_ok_def circuit_ok_def char_addr_def col_byte_def Let_def g_def h_def w_def)
  have "only_screen s s1"
    using vr unfolding s1
    by (cases s) (auto simp: only_screen_def upd_vdu_def upd_tty_def ram_def g_def h_def)
  then have 1: "shown s s1" using f1 by (simp add: shown_def)
  have d1: "drawn s1 (clrarea 0 0 (nrow (vdu s1) - 1) (NCOL - 1) s1)"
    by (rule clrarea_drawn) (use framed_D [OF f1] in auto)
  have f2: "framed (clrarea 0 0 (nrow (vdu s1) - 1) (NCOL - 1) s1)" by (rule shown_framed [OF shown_drawn [OF f1 d1]])
  show ?thesis unfolding e
    by (rule shown_trans [OF 1 shown_drawn [OF f1 drawn_trans [OF d1 vducursor_drawn]]]) (use framed_D [OF f2] in auto)
qed

lemma restore_cursor_shown:
  assumes "framed s" and "savcrow (vdu s) < nrow (vdu s)" shows "shown s (restore_cursor s)"
proof -
  have e: "restore_cursor s = upd_vdu (\<lambda>v. v\<lparr>ccol := savccol v, crow := savcrow v, v_attr := savattr v,
      curs := char_addr v (savcrow v) (if savccol v = NCOL then savccol v - 1 else savccol v)\<rparr>) s"
    using assms by (auto simp: restore_cursor_def moveto_def upd_vdu_def framed_def char_addr_def col_byte_def Let_def)
  show ?thesis unfolding e
    by (rule shown_upd_vdu) (use assms in \<open>auto simp: framed_def geometry_def cursor_ok_def circuit_ok_def char_addr_def col_byte_def Let_def\<close>)
qed

lemma vduesc_shown:
  assumes "framed s" and "savcrow (vdu s) < nrow (vdu s)" shows "shown s (vduesc c n s)"
proof (cases "n \<ge> VBUF - 1")
  case True then show ?thesis by (simp add: vduesc_def shown_refl [OF assms(1)])
next
  case False
  define s1 where "s1 = upd_vdu (\<lambda>v. v\<lparr>vbuf := (vbuf v)(n := c)\<rparr>) s"
  have 1: "shown s s1" unfolding s1_def
    by (rule shown_upd_vdu [OF assms(1)])
      (use assms in \<open>auto simp: framed_def geometry_def cursor_ok_def circuit_ok_def char_addr_def col_byte_def Let_def\<close>)
  have f1: "framed s1" by (rule shown_framed [OF 1])
  have sv: "savcrow (vdu s1) < nrow (vdu s1)" using assms(2) by (simp add: s1_def)
  have nl: "shown s1 (newline (carriage_return s1))"
    by (rule shown_trans [OF carriage_return_shown [OF f1] newline_shown [OF shown_framed [OF carriage_return_shown [OF f1]]]])
  have vi: "shown s1 (vduinit s1)"
    by (rule vduinit_shown) (use f1 in \<open>auto simp: framed_def circuit_ok_def cursor_ok_def\<close>)
  have fi: "framed (vduinit s1)" by (rule shown_framed [OF vi])
  have vc: "shown s1 (vducursor (vduinit s1))"
    by (rule shown_trans [OF vi shown_drawn [OF fi vducursor_drawn]]) (use framed_D [OF fi] in auto)
  have reset: "shown s1 ((vducursor (vduinit s1))\<lparr>keypad := False, app_mode := False\<rparr>)"
    using shown_trans [OF shown_trans [OF vc shown_switches(1) [OF shown_framed [OF vc]]]
        shown_switches(2) [OF shown_framed [OF shown_switches(1) [OF shown_framed [OF vc]]]]]
    by simp
  have "shown s1 (vduesc c n s)"
    using False f1
    by (simp add: vduesc_def Let_def s1_def [symmetric] restore_cursor_shown [OF f1 sv] shown_fields(6) shown_switches
        nl newline_shown reverse_index_shown reset shown_refl)
  then show ?thesis by (rule shown_trans [OF 1])
qed


subsection \<open>Every character\<close>

lemma out_print_shown:
  assumes "screen_ok s" shows "shown s (out_print c s)"
proof -
  have f: "framed s" and sv: "savcrow (vdu s) < nrow (vdu s)" using assms by (simp_all add: screen_ok_framed)
  define d where "d = (if c AND 0x80 \<noteq> 0 then c AND 0x1F else c)"
  show ?thesis
  proof (cases "v_next (vdu s)")
    case None
    have p: "shown s (paint d s)" by (rule shown_drawn [OF f paint_drawn]) (rule framed_D [OF f])+
    show ?thesis using None shown_trans [OF p moveto_shown [OF shown_framed [OF p]]]
      by (simp add: out_print_def Let_def d_def)
  next
    case (Some n)
    then have n: "n \<le> VBUF" using f by (simp add: framed_def cursor_ok_def)
    have none: "shown s (upd_vdu (v_next_update (\<lambda>_. None)) s')" if "shown s s'" for s'
      by (rule shown_trans [OF that shown_fields(3) [OF shown_framed [OF that]]])
    have put: "shown s (upd_vdu (\<lambda>v. v\<lparr>vbuf := (vbuf v)(n := d), v_next := Some k\<rparr>) s)" if "k \<le> VBUF" for k
      using shown_fields(5) [OF f that] .
    show ?thesis
      unfolding out_print_def Let_def d_def [symmetric] Some option.case
      using none [OF vduesc_shown [OF f sv]] none [OF vduansi_shown [OF f]] put [of "n + 1"] put [of n] n
      by auto
  qed
qed

lemma out_print_plain:
  assumes "screen_ok s" and "v_next (vdu s) = None"
  shows "v_next (vdu (out_print c s)) = None"
    "ccol (vdu (out_print c s)) = (if ccol (vdu s) < NCOL then ccol (vdu s) + 1 else ccol (vdu s))"
    "screen_ok (out_print c s)" "ttys (out_print c s) = ttys s"
proof -
  have f: "framed s" using assms(1) by (simp add: screen_ok_framed)
  define s1 where "s1 = paint (if c AND 0x80 \<noteq> 0 then c AND 0x1F else c) s"
  have d: "drawn s s1" unfolding s1_def by (rule paint_drawn) (rule framed_D [OF f])+
  note v = drawn_fields [OF d]
  have e: "out_print c s = moveto (crow (vdu s)) (ccol (vdu s) + 1) s1"
    using v assms(2) by (simp add: out_print_def Let_def s1_def)
  show "v_next (vdu (out_print c s)) = None"
    "ccol (vdu (out_print c s)) = (if ccol (vdu s) < NCOL then ccol (vdu s) + 1 else ccol (vdu s))"
    "ttys (out_print c s) = ttys s"
    using v assms(2) framed_D [OF f] by (auto simp: e moveto_def Let_def)
  have "savcrow (vdu (out_print c s)) = savcrow (vdu s)" "nrow (vdu (out_print c s)) = nrow (vdu s)"
    using v by (auto simp: e moveto_def Let_def)
  then show "screen_ok (out_print c s)"
    using assms(1) out_print_shown [OF assms(1), of c] by (simp add: screen_ok_framed shown_def)
qed

lemma moveto_right:
  assumes "screen_ok s"
  shows "ccol (vdu (moveto (crow (vdu s)) (ccol (vdu s) + 1) s)) = (if ccol (vdu s) < NCOL then ccol (vdu s) + 1 else ccol (vdu s))"
    "screen_ok (moveto (crow (vdu s)) (ccol (vdu s) + 1) s)" "ttys (moveto r k s) = ttys s"
proof -
  have f: "framed s" using assms by (simp add: screen_ok_framed)
  show "ccol (vdu (moveto (crow (vdu s)) (ccol (vdu s) + 1) s)) = (if ccol (vdu s) < NCOL then ccol (vdu s) + 1 else ccol (vdu s))"
    using framed_D [OF f] by (auto simp: moveto_def Let_def)
  have "savcrow (vdu (moveto (crow (vdu s)) (ccol (vdu s) + 1) s)) = savcrow (vdu s)"
    "nrow (vdu (moveto (crow (vdu s)) (ccol (vdu s) + 1) s)) = nrow (vdu s)"
    by (auto simp: moveto_def Let_def)
  then show "screen_ok (moveto (crow (vdu s)) (ccol (vdu s) + 1) s)"
    using assms moveto_shown [OF f] by (simp add: screen_ok_framed shown_def)
  show "ttys (moveto r k s) = ttys s" by (simp add: moveto_def Let_def)
qed

definition tab_safe :: "tstate \<Rightarrow> bool" where
  "tab_safe s \<longleftrightarrow> (tty_mode (ttys s CONSOLE) AND XTABS = XTABS \<longrightarrow> v_next (vdu s) = None)"

lemma next_column: "(x + 1) mod 8 \<noteq> 0 \<Longrightarrow> (x + 1) mod 8 = x mod 8 + (1 :: int)"
proof -
  assume a: "(x + 1) mod 8 \<noteq> 0"
  have e: "(x + 1) mod 8 = (x mod 8 + 1) mod 8" by (simp add: mod_add_left_eq)
  have "x mod 8 < 8" by simp
  moreover have "x mod 8 \<noteq> 7" using a e by auto
  ultimately have "x mod 8 + 1 < 8" by simp
  then show ?thesis unfolding e by (intro mod_pos_pos_trivial) auto
qed

text \<open>A tab is at most eight columns wide, and the last column is a tab stop.\<close>

lemma tab_loop_returns:
  assumes "screen_ok s" and "tab_safe s" and "int n \<ge> 8 - ccol (vdu s) mod 8"
  shows "\<exists>s'. tab_loop n s = Done s' \<and> shown s s' \<and> screen_ok s'"
  using assms
proof (induction n arbitrary: s)
  case 0
  have "ccol (vdu s) mod 8 < 8" by simp
  then show ?case using 0 by simp
next
  case (Suc n)
  define s1 where "s1 = (if tty_mode (ttys s CONSOLE) AND XTABS = XTABS then out_print c_SP s
               else moveto (crow (vdu s)) (ccol (vdu s) + 1) s)"
  have f: "framed s" using Suc.prems(1) by (simp add: screen_ok_framed)
  have 1: "shown s s1" unfolding s1_def using out_print_shown [OF Suc.prems(1)] moveto_shown [OF f] by simp
  have ok: "screen_ok s1" and cc: "ccol (vdu s1) = (if ccol (vdu s) < NCOL then ccol (vdu s) + 1 else ccol (vdu s))"
    and tb: "tab_safe s1"
    using Suc.prems(1,2) out_print_plain [OF Suc.prems(1)] moveto_right [OF Suc.prems(1)]
    by (auto simp: s1_def tab_safe_def)
  show ?case
  proof (cases "ccol (vdu s1) mod 8 = 0")
    case True
    then show ?thesis using 1 ok by (simp add: s1_def [symmetric] Let_def)
  next
    case False
    have "ccol (vdu s) \<le> NCOL" using framed_D [OF f] by simp
    with cc False have "ccol (vdu s1) = ccol (vdu s) + 1" by (auto split: if_splits)
    with False next_column [of "ccol (vdu s)"] have "ccol (vdu s1) mod 8 = ccol (vdu s) mod 8 + 1" by simp
    then have "int n \<ge> 8 - ccol (vdu s1) mod 8" using Suc.prems(3) by simp
    then obtain s' where s': "tab_loop n s1 = Done s'" "shown s1 s'" "screen_ok s'"
      using Suc.IH [OF ok tb] by blast
    then show ?thesis using False shown_trans [OF 1 s'(2)] by (simp add: s1_def [symmetric] Let_def)
  qed
qed

lemma vductrl_shown:
  assumes ok: "screen_ok s" and tab: "c = c_HT \<longrightarrow> tab_safe s"
  shows "\<exists>s'. vductrl c s = Done s' \<and> shown s s'"
proof (cases "c = c_HT")
  case True
  have "int (nat NCOL) \<ge> 8 - ccol (vdu s) mod 8" using pos_mod_sign [of 8 "ccol (vdu s)"] by simp
  then show ?thesis using tab_loop_returns [OF ok, of "nat NCOL"] tab True by (auto simp: vductrl_def)
next
  case False
  have f: "framed s" using ok by (simp add: screen_ok_framed)
  show ?thesis using False
    by (simp add: vductrl_def moveto_shown [OF f] newline_shown [OF f] line_down_shown [OF f] carriage_return_shown [OF f]
        shown_fields [OF f] shown_refl [OF f])
qed

subsection \<open>The property\<close>


text \<open>A terminal before \<open>vduinit\<close>, with its video RAM at 0x78000 and a high resolution monitor.\<close>

definition blank_tty :: tty_struct where
  "blank_tty = \<lparr>tty_inqueue = \<lambda>_. 0, tty_inhead = 0, tty_intail = 0, tty_incount = 0, tty_lfct = 0,
     tty_ramqueue = \<lambda>_. 0, tty_rwords = 0, tty_devstart = No_start, tty_mode = XTABS OR CRMOD OR ECHO, tty_speed = 0,
     tty_column = 0, tty_escaped = False, tty_inhibited = RUNNING, tty_waiting = NOT_WAITING,
     tty_erase = 8, tty_kill = 64, tty_intr = 127, tty_quit = 28, tty_xon = 17, tty_xoff = 19, tty_eof = 4,
     tty_incaller = 0, tty_inproc = 0, tty_in_vir = 0, tty_inleft = 0, tty_otcaller = 0, tty_outproc = 0,
     tty_out_vir = 0, tty_phys = 0, tty_outleft = 0, tty_cum = 0, tty_pgrp = 0\<rparr>"

definition blank_term :: "kstate \<Rightarrow> tstate" where
  "blank_term k = \<lparr>kern = k, ttys = \<lambda>_. blank_tty,
     rss = \<lambda>_. \<lparr>rs_busy = False, rs_left = 0, rs_next = 0, rs_buf = \<lambda>_. 0\<rparr>,
     vdu = \<lparr>vram = 0x78000, curs = 0, linc = 0, nrow = 0, bytr = 0, mono = False, v_attr = 0, ccol = 0, crow = 0,
       savattr = 0, savccol = 0, savcrow = 0, vbuf = \<lambda>_. 0, v_next = None\<rparr>,
     video = \<lparr>vd_ramh = 7, vd_ramm = 0x80, vd_rgb = \<lambda>_. 0, vd_res = 2\<rparr>,
     font8 = \<lambda>_. 0, font16 = \<lambda>_. 0, keypad = False, app_mode = False,
     drv_count = 0, drv_max = 500, drv_buf = \<lambda>_. 0, output_done = 0, flush_flag = 0,
     shift1 = False, shift2 = False, control = False, alt = False, capslock = False, repeatkey = 0, repeattic = 0,
     keynorm = \<lambda>_. 0, keyshft = \<lambda>_. 0, keycaps = \<lambda>_. 0, lastchar = 0, mf_ucr = 0, mf_tddr = 0,
     st_use_con = False, st_use_prt = False, st_do_dump = False, wire = [], answers = []\<rparr>"

lemma blank_screen: "shown (blank_term k) (vduinit (blank_term k))"
  by (rule vduinit_shown) (simp_all add: blank_term_def)

lemma saved_row_init:
  "savcrow (vdu (vduinit s)) = savcrow (vdu s)" "v_next (vdu (vduinit s)) = v_next (vdu s)"
  "nrow (vdu (vduinit s)) = 25"
proof -
  have upd: "savcrow (vdu (upd_ram f s)) = savcrow (vdu s)" for f s by simp
  have cl: "vdu (clrchar r c s) = vdu s" "vdu (clrline r s) = vdu s" for r c s by (simp_all add: clrchar_def clrline_def Let_def)
  have vd: "vdu (fold (clrchar r) cs s) = vdu s" "vdu (fold clrline rs s) = vdu s" for r cs rs s
  proof -
    show "vdu (fold (clrchar r) cs s) = vdu s" by (induction cs arbitrary: s) (simp_all add: cl)
    show "vdu (fold clrline rs s) = vdu s" by (induction rs arbitrary: s) (simp_all add: cl)
  qed
  have ca: "vdu (clrarea a b c d s) = vdu s" for a b c d s
    by (simp add: clrarea_def Let_def vd cl split: prod.split if_splits)
  have cu: "vdu (vducursor s) = vdu s" for s by (simp add: vducursor_def Let_def)
  show "savcrow (vdu (vduinit s)) = savcrow (vdu s)" "v_next (vdu (vduinit s)) = v_next (vdu s)"
    "nrow (vdu (vduinit s)) = 25"
    by (simp_all add: vduinit_def Let_def cu ca moveto_def)
qed

lemma blank_screen_ok: "screen_ok (vduinit (blank_term k))"
  using blank_screen [of k] by (simp add: screen_ok_framed shown_def saved_row_init) (simp add: blank_term_def)


subsection \<open>Where the code goes wrong\<close>

text \<open>A tab in the middle of an escape sequence is never finished: the spaces are taken for a part of the
  sequence, and the cursor does not move.\<close>

lemma tab_in_sequence_hangs:
  assumes "tty_mode (ttys s CONSOLE) AND XTABS = XTABS" and "v_next (vdu s) = Some k" and "ccol (vdu s) mod 8 \<noteq> 0"
  shows "tab_loop n s = Stuck"
  using assms
proof (induction n arbitrary: s k)
  case (Suc n)
  have e: "out_print c_SP s = upd_vdu (\<lambda>v. v\<lparr>vbuf := (vbuf v)(k := c_SP), v_next := Some (if k < VBUF then k + 1 else k)\<rparr>) s"
    using Suc.prems(2) by (simp add: out_print_def Let_def)
  show ?case using Suc.prems Suc.IH [of "out_print c_SP s" "if k < VBUF then k + 1 else k"] by (simp add: Let_def e)
qed simp

text \<open>Clearing to the end of the line when the line is full touches the byte behind the video RAM.\<close>

lemma erase_behind_screen:
  assumes "mono (vdu s)" "linc (vdu s) = 16" "bytr (vdu s) = 1280" "nrow (vdu s) = 25" "crow (vdu s) = 24" "ccol (vdu s) = NCOL"
  shows "ram (erase_line 0 s) (vram (vdu s) + 32000) = 0"
proof -
  have l: "scan_lines (vdu s) = [0..14] @ [15]" using assms(2) by (simp add: scan_lines_def upto_rec1)
  have e: "erase_line 0 s = clrchar 24 80 s"
    using assms by (simp add: erase_line_def clrarea_def Let_def)
  show ?thesis unfolding e using assms(1,3)
    by (simp add: clrchar_def Let_def l each_line_def char_addr_def col_byte_def scan_bytes_def)
qed

text \<open>A cursor saved on one of the lower rows of 50 is restored there although the screen has 25.\<close>

lemma restore_off_screen:
  assumes "savcrow (vdu s) \<ge> nrow (vdu s)"
  shows "crow (vdu (restore_cursor s)) = savcrow (vdu s)"
  using assms by (simp add: restore_cursor_def moveto_def Let_def)

text \<open>The end of a long sequence is written behind \<open>vbuf\<close>.\<close>

lemma sequence_overruns:
  assumes "v_next (vdu s) = Some VBUF" and "vbuf (vdu s) 0 = 91"
  shows "vbuf (vdu (out_print 48 s)) VBUF = 48"
  using assms by (simp add: out_print_def Let_def)

end
