(* ===== verification/Tty_Ring.thy ===== *)
theory Tty_Ring
  imports Tty_Line Tty_Screen
begin

section \<open>Terminals: the input queue as a list\<close>

text \<open>
  The ring of a line holds a list of characters: storing appends to it, erasing drops its last
  element, reading takes a line from its front.  \<open>rd_chars\<close> and \<open>in_char\<close> in cooked mode are shown to
  do on the ring what their specifications do on the list.
\<close>

unbundle bit_operations_syntax

subsection \<open>The list in a ring\<close>

definition slot :: "tty_struct \<Rightarrow> nat \<Rightarrow> nat" where
  "slot t k = (tty_intail t + k) mod TTY_IN_BYTES"

definition typed :: "tty_struct \<Rightarrow> 8 word list" where
  "typed t = map (\<lambda>k. tty_inqueue t (slot t k)) [0..<nat (tty_incount t)]"

definition ring_ok :: "tty_struct \<Rightarrow> bool" where
  "ring_ok t \<longleftrightarrow> tty_intail t < TTY_IN_BYTES \<and> 0 \<le> tty_incount t \<and> tty_incount t \<le> int TTY_IN_BYTES \<and>
     tty_inhead t = slot t (nat (tty_incount t))"

lemma length_typed [simp]: "length (typed t) = nat (tty_incount t)"
  by (simp add: typed_def)

lemma ring_next_mod: "p < TTY_IN_BYTES \<Longrightarrow> ring_next p = (p + 1) mod TTY_IN_BYTES"
  by (auto simp: ring_next_def)

lemma ring_prev_mod:
  assumes "p < TTY_IN_BYTES" shows "ring_prev ((p + 1) mod TTY_IN_BYTES) = p"
  using assms by (cases "p + 1 = TTY_IN_BYTES") (auto simp: ring_prev_def)

lemma ring_prev_Suc: "p < TTY_IN_BYTES \<Longrightarrow> ring_prev (Suc p mod TTY_IN_BYTES) = p"
  using ring_prev_mod [of p] by simp

lemma slot_less [simp]: "slot t k < TTY_IN_BYTES"
  by (simp add: slot_def)

lemma slot_Suc: "slot t (Suc k) = (slot t k + 1) mod TTY_IN_BYTES"
  by (simp add: slot_def mod_Suc_eq)

lemma same_slot:
  assumes "(a + j) mod TTY_IN_BYTES = (a + k) mod TTY_IN_BYTES" and "j \<le> k" and "k < TTY_IN_BYTES" shows "j = k"
proof -
  have "TTY_IN_BYTES dvd (a + k) - (a + j)"
    using assms(1,2) mod_eq_dvd_iff_nat [of "a + j" "a + k" TTY_IN_BYTES] by simp
  then have "TTY_IN_BYTES dvd k - j" by simp
  then have "k - j = 0 \<or> TTY_IN_BYTES \<le> k - j" using dvd_imp_le by blast
  then show ?thesis using assms(2,3) by auto
qed

lemma slot_inj:
  assumes "slot t j = slot t k" and "j < TTY_IN_BYTES" and "k < TTY_IN_BYTES" shows "j = k"
  using same_slot [of "tty_intail t" j k] same_slot [of "tty_intail t" k j] assms by (simp add: slot_def) (metis nat_le_linear)

lemma in_put_ring:
  assumes "ring_ok t" and "tty_incount t < int TTY_IN_BYTES"
  shows "ring_ok (in_put c t)" "typed (in_put c t) = typed t @ [c]"
proof -
  define n where "n = nat (tty_incount t)"
  have n: "tty_incount t = int n" "n < TTY_IN_BYTES" "tty_inhead t = slot t n"
    using assms by (auto simp: ring_ok_def n_def)
  have s: "slot (in_put c t) k = slot t k" for k by (simp add: slot_def in_put_def)
  show "ring_ok (in_put c t)"
    using assms n by (simp add: ring_ok_def s) (simp add: in_put_def ring_next_mod slot_Suc nat_add_distrib)
  have "map (\<lambda>k. tty_inqueue (in_put c t) (slot t k)) [0..<n] = typed t"
    unfolding typed_def n_def [symmetric]
  proof (rule map_cong [OF refl])
    fix k assume "k \<in> set [0..<n]"
    then have "slot t k \<noteq> slot t n" using slot_inj [of t k n] n(2) by auto
    then show "tty_inqueue (in_put c t) (slot t k) = tty_inqueue t (slot t k)" by (simp add: in_put_def n(3))
  qed
  then show "typed (in_put c t) = typed t @ [c]"
    by (simp add: typed_def s) (simp add: in_put_def n(1,3) nat_add_distrib)
qed

lemma last_typed:
  assumes "ring_ok t" and "tty_incount t \<noteq> 0"
  shows "typed t \<noteq> []" "tty_inqueue t (ring_prev (tty_inhead t)) = last (typed t)"
proof -
  define n where "n = nat (tty_incount t)"
  obtain m where m: "n = Suc m" using assms by (cases n) (auto simp: n_def ring_ok_def)
  have h: "tty_inhead t = slot t (Suc m)" using assms m by (simp add: ring_ok_def n_def)
  show "typed t \<noteq> []" using m by (simp add: typed_def n_def [symmetric])
  show "tty_inqueue t (ring_prev (tty_inhead t)) = last (typed t)"
    by (simp add: h slot_Suc ring_prev_Suc) (simp add: typed_def n_def [symmetric] m)
qed

definition unput :: "tty_struct \<Rightarrow> tty_struct" where
  "unput t = t\<lparr>tty_inhead := ring_prev (tty_inhead t), tty_incount := tty_incount t - 1\<rparr>"

lemma unput_ring:
  assumes "ring_ok t" and "tty_incount t \<noteq> 0"
  shows "ring_ok (unput t)" "typed (unput t) = butlast (typed t)"
proof -
  define n where "n = nat (tty_incount t)"
  obtain m where m: "n = Suc m" using assms by (cases n) (auto simp: n_def ring_ok_def)
  have c: "tty_incount t = int (Suc m)" using m assms by (simp add: n_def ring_ok_def)
  have h: "tty_inhead t = slot t (Suc m)" using assms m by (simp add: ring_ok_def n_def)
  have nat_eq: "nat (1 + int m) = Suc m" by simp
  have s: "slot (unput t) k = slot t k" for k by (simp add: slot_def unput_def)
  show "ring_ok (unput t)"
    using assms by (simp add: ring_ok_def s) (simp add: unput_def c nat_eq h slot_Suc ring_prev_Suc)
  show "typed (unput t) = butlast (typed t)"
    by (simp add: typed_def s c nat_eq) (simp add: unput_def c)
qed


subsection \<open>Reading a line\<close>

definition line_end :: "8 word \<Rightarrow> bool" where
  "line_end c \<longleftrightarrow> c = c_LF \<or> c = MARKER"

text \<open>A line: up to the first line feed or end of file, this one included.\<close>

primrec first_line :: "8 word list \<Rightarrow> 8 word list" where
  "first_line [] = []"
| "first_line (c # cs) = (if line_end c then [c] else c # first_line cs)"

definition ends_line :: "8 word list \<Rightarrow> bool" where
  "ends_line cs \<longleftrightarrow> cs \<noteq> [] \<and> line_end (last cs)"

lemma first_line_append:
  "first_line (xs @ ys) = (if ends_line (first_line xs) then first_line xs else first_line xs @ first_line ys)"
  by (induction xs) (auto simp: ends_line_def)

lemma first_line_whole: "\<not> ends_line (first_line xs) \<Longrightarrow> first_line xs = xs"
  by (induction xs) (auto simp: ends_line_def split: if_splits)

lemma length_first_line: "length (first_line xs) \<le> length xs"
  by (induction xs) auto

lemma first_line_marker: "MARKER \<in> set (first_line xs) \<Longrightarrow> last (first_line xs) = MARKER"
  by (induction xs) (auto simp: line_end_def split: if_splits)

lemma no_marker_butlast: "MARKER \<notin> set (butlast (first_line xs))"
  by (induction xs) (auto simp: line_end_def)

text \<open>What the user gets of a line: everything but the end of file.\<close>

definition to_reader :: "8 word list \<Rightarrow> 8 word list" where
  "to_reader cs = filter (\<lambda>c. c \<noteq> MARKER) cs"

lemma to_reader_line:
  "to_reader (first_line xs) = (if xs \<noteq> [] \<and> last (first_line xs) = MARKER then butlast (first_line xs) else first_line xs)"
proof (cases "first_line xs = []")
  case True then show ?thesis by (cases xs) (auto simp: to_reader_def split: if_splits)
next
  case False
  then have e: "first_line xs = butlast (first_line xs) @ [last (first_line xs)]" by simp
  have b: "to_reader (butlast (first_line xs)) = butlast (first_line xs)"
    using no_marker_butlast [of xs] by (auto simp: to_reader_def filter_id_conv)
  have "to_reader (first_line xs) = butlast (first_line xs) @ to_reader [last (first_line xs)]"
    by (subst e) (simp add: to_reader_def b [unfolded to_reader_def])
  moreover have "xs \<noteq> []" using False by auto
  ultimately show ?thesis using False by (auto simp: to_reader_def)
qed

text \<open>One buffer: the ring without its first characters.\<close>

definition taken_out :: "nat \<Rightarrow> int \<Rightarrow> tty_struct \<Rightarrow> tty_struct" where
  "taken_out n e t = t\<lparr>tty_intail := slot t n, tty_lfct := tty_lfct t - e\<rparr>"

lemma typed_Suc:
  assumes "tty_intail t < TTY_IN_BYTES" and "nat (tty_incount t) = Suc n"
  shows "typed t = tty_inqueue t (tty_intail t) # map (\<lambda>k. tty_inqueue t (slot t (Suc k))) [0..<n]"
  using assms by (simp add: typed_def map_upt_Suc slot_def del: upt_Suc)

lemma fill_buf_line:
  assumes "tty_intail t < TTY_IN_BYTES"
  shows "fill_buf n True en t =
    (let L = first_line (map (\<lambda>k. tty_inqueue t (slot t k)) [0..<n])
     in (L, L \<noteq> [] \<and> last L = MARKER, if ends_line L then True else en,
         taken_out (length L) (if ends_line L then 1 else 0) t))"
  using assms
proof (induction n arbitrary: en t)
  case 0 then show ?case by (simp add: taken_out_def slot_def ends_line_def)
next
  case (Suc n)
  define t1 where "t1 = t\<lparr>tty_intail := ring_next (tty_intail t)\<rparr>"
  define c where "c = tty_inqueue t (tty_intail t)"
  have nx: "ring_next (tty_intail t) = (tty_intail t + 1) mod TTY_IN_BYTES" by (rule ring_next_mod [OF Suc.prems])
  have sl: "slot t1 k = slot t (Suc k)" for k
    by (simp add: slot_def t1_def nx mod_add_left_eq)
  have t1: "tty_intail t1 < TTY_IN_BYTES" "tty_inqueue t1 = tty_inqueue t" by (simp_all add: t1_def nx)
  have m: "map (\<lambda>k. tty_inqueue t (slot t k)) [0..<Suc n] = c # map (\<lambda>k. tty_inqueue t1 (slot t1 k)) [0..<n]"
    unfolding c_def by (simp add: map_upt_Suc sl t1(2) del: upt_Suc) (simp add: slot_def Suc.prems)
  show ?case
  proof (cases "line_end c")
    case True
    then show ?thesis unfolding m
      by (simp add: c_def [symmetric] t1_def [symmetric] line_end_def Let_def ends_line_def)
        (simp add: taken_out_def t1_def nx slot_def)
  next
    case False
    have "taken_out k e t1 = taken_out (Suc k) e t" for k e
      by (simp add: taken_out_def sl) (simp add: t1_def)
    then show ?thesis using False unfolding m
      by (simp add: c_def [symmetric] t1_def [symmetric] line_end_def Let_def Suc.IH [OF t1(1)] ends_line_def)
  qed
qed

lemma typed_taken_out:
  assumes "ring_ok t" and "n \<le> nat (tty_incount t)"
  shows "typed ((taken_out n e t)\<lparr>tty_inleft := l, tty_incount := tty_incount t - int n\<rparr>) = drop n (typed t)"
    "ring_ok ((taken_out n e t)\<lparr>tty_inleft := l, tty_incount := tty_incount t - int n\<rparr>)"
proof -
  define t' where "t' = (taken_out n e t)\<lparr>tty_inleft := l, tty_incount := tty_incount t - int n\<rparr>"
  have s: "slot t' k = slot t (n + k)" for k
    by (simp add: t'_def slot_def taken_out_def mod_add_left_eq add.assoc)
  have c: "nat (tty_incount t - int n) = nat (tty_incount t) - n" using assms(2) by simp
  have "typed t' = map (\<lambda>k. tty_inqueue t (slot t (n + k))) [0..<nat (tty_incount t) - n]"
    by (simp add: typed_def s) (simp add: t'_def taken_out_def c)
  also have "\<dots> = drop n (typed t)"
    using assms(2) by (intro nth_equalityI) (simp_all add: typed_def less_diff_conv add.commute)
  finally show "typed ((taken_out n e t)\<lparr>tty_inleft := l, tty_incount := tty_incount t - int n\<rparr>) = drop n (typed t)"
    by (simp add: t'_def)
  show "ring_ok ((taken_out n e t)\<lparr>tty_inleft := l, tty_incount := tty_incount t - int n\<rparr>)"
    unfolding t'_def [symmetric] ring_ok_def s using assms c
    by (simp add: t'_def taken_out_def ring_ok_def) linarith
qed

text \<open>Consecutive pieces in memory.\<close>

lemma store_bytes_append:
  assumes "length xs + length ys < 2 ^ 32"
  shows "store_bytes (p + of_nat (length xs)) ys (store_bytes p xs m) = store_bytes p (xs @ ys) m"
proof
  fix a :: addr
  define d where "d = a - p"
  have u: "unat (a - (p + of_nat (length xs))) = (if length xs \<le> unat d then unat d - length xs else 2 ^ 32 - length xs + unat d)"
  proof -
    have e: "a - (p + of_nat (length xs)) = d - of_nat (length xs)" by (simp add: d_def)
    have l: "unat (of_nat (length xs) :: addr) = length xs" using assms by (simp add: unat_of_nat)
    show ?thesis unfolding e using l assms by (auto simp: unat_sub_if' not_le word_le_nat_alt)
  qed
  show "store_bytes (p + of_nat (length xs)) ys (store_bytes p xs m) a = store_bytes p (xs @ ys) m a"
    using assms unsigned_less [of d] by (auto simp: store_bytes_def u d_def [symmetric] nth_append)
qed

lemma store_bytes_Nil [simp]: "store_bytes p [] m = m"
  by (simp add: store_bytes_def)

text \<open>What the loop of \<open>rd_chars\<close> reads in cooked mode.\<close>

definition read_part :: "tty_struct \<Rightarrow> 8 word list" where
  "read_part t = first_line (take (nat (tty_inleft t)) (typed t))"

lemma buffer_part:
  assumes "ring_ok t" and "b = min (min (tty_inleft t) (tty_incount t)) (int TTY_BUF_SIZE)" and "0 < b"
  shows "map (\<lambda>k. tty_inqueue t (slot t k)) [0..<nat b] = take (nat b) (typed t)"
  using assms by (simp add: typed_def take_map)

lemma rd_loop_reads:
  assumes "ring_ok (ttys s tp)" and "tty_inleft (ttys s tp) > 0 \<Longrightarrow> tty_incount (ttys s tp) > 0"
    and "tty_incount (ttys s tp) \<le> int TTY_BUF_SIZE * int n" and "0 \<le> tty_inleft (ttys s tp)"
  shows "\<exists>s'. rd_loop (Suc n) tp True p cum s =
      Done (cum + int (length (to_reader (read_part (ttys s tp)))), s') \<and>
    ram s' = store_bytes p (to_reader (read_part (ttys s tp))) (ram s) \<and>
    ring_ok (ttys s' tp) \<and> typed (ttys s' tp) = drop (length (read_part (ttys s tp))) (typed (ttys s tp)) \<and>
    tty_lfct (ttys s' tp) = tty_lfct (ttys s tp) - (if ends_line (read_part (ttys s tp)) then 1 else 0) \<and>
    tty_inproc (ttys s' tp) = tty_inproc (ttys s tp) \<and> tty_incaller (ttys s' tp) = tty_incaller (ttys s tp) \<and>
    answers s' = answers s"
  using assms
proof (induction n arbitrary: p cum s)
  case 0
  then have "tty_inleft (ttys s tp) = 0" by (cases "tty_inleft (ttys s tp) > 0") (auto simp: ring_ok_def)
  then show ?case using 0 by (simp add: read_part_def to_reader_def ends_line_def)
next
  case (Suc n)
  define t where "t = ttys s tp"
  show ?case
  proof (cases "tty_inleft t > 0")
    case False
    then have "tty_inleft t = 0" using Suc.prems(4) by (simp add: t_def)
    then show ?thesis using Suc.prems(1) False
      by (simp add: t_def [symmetric] read_part_def to_reader_def ends_line_def)
  next
    case True
    define b where "b = min (min (tty_inleft t) (tty_incount t)) (int TTY_BUF_SIZE)"
    have ic: "tty_incount t > 0" using Suc.prems(2) True by (simp add: t_def)
    have b: "0 < b" "b \<le> tty_inleft t" "b \<le> tty_incount t" "b \<le> int TTY_BUF_SIZE" using True ic by (auto simp: b_def)
    have ok: "ring_ok t" using Suc.prems(1) by (simp add: t_def)
    have tl: "tty_intail t < TTY_IN_BYTES" using ok by (simp add: ring_ok_def)
    define L where "L = first_line (take (nat b) (typed t))"
    define en where "en \<longleftrightarrow> ends_line L"
    have fb: "fill_buf (nat b) True False t = (L, L \<noteq> [] \<and> last L = MARKER, en, taken_out (length L) (if en then 1 else 0) t)"
      using fill_buf_line [OF tl, of "nat b" False] buffer_part [OF ok b_def b(1)] by (simp add: L_def en_def Let_def)
    have lb: "length L \<le> nat b" using length_first_line [of "take (nat b) (typed t)"] by (simp add: L_def)
    have li: "length L \<le> nat (tty_incount t)" using lb b by linarith
    define out where "out = (if L \<noteq> [] \<and> last L = MARKER then butlast L else L)"
    have ne: "take (nat b) (typed t) \<noteq> []" using b ic by (auto simp: typed_def)
    have out: "out = to_reader L"
      using to_reader_line [of "take (nat b) (typed t)"] ne by (auto simp: out_def L_def to_reader_def)
    define t1 where "t1 = (taken_out (length L) (if en then 1 else 0) t)
        \<lparr>tty_inleft := tty_inleft t - int (length L), tty_incount := tty_incount t - int (length L)\<rparr>"
    define s1 where "s1 = upd_ram (store_bytes p out) (upd_tty tp (\<lambda>_. t1) s)"
    have t1: "typed t1 = drop (length L) (typed t)" "ring_ok t1"
      unfolding t1_def by (rule typed_taken_out [OF ok li])+
    have s1: "ttys s1 tp = t1" "ram s1 = store_bytes p out (ram s)" "answers s1 = answers s" by (simp_all add: s1_def)
    have t1f: "tty_inproc t1 = tty_inproc t" "tty_incaller t1 = tty_incaller t"
        "tty_lfct t1 = tty_lfct t - (if en then 1 else 0)" "tty_inleft t1 = tty_inleft t - int (length L)"
        "tty_incount t1 = tty_incount t - int (length L)"
      by (simp_all add: t1_def taken_out_def)
    have step: "rd_loop (Suc (Suc n)) tp True p cum s =
        (if tty_incount t1 = 0 \<or> en then Done (cum + int (length out), s1)
         else rd_loop (Suc n) tp True (p + of_nat (length out)) (cum + int (length out)) s1)"
      using True unfolding rd_loop.simps(2) [of "Suc n"] t_def [symmetric] b_def [symmetric] Let_def fb prod.case out_def [symmetric]
      by (simp add: taken_out_def t1_def s1_def upd_tty_def upd_ram_def)
    show ?thesis
    proof (cases "en \<or> tty_incount t1 = 0")
      case True
      have rp: "read_part t = L"
      proof (cases en)
        case e: True
        have "take (nat (tty_inleft t)) (typed t) = take (nat b) (typed t) @ drop (nat b) (take (nat (tty_inleft t)) (typed t))"
          using b by (metis append_take_drop_id nat_mono min.absorb1 take_take)
        then show ?thesis using e first_line_append [of "take (nat b) (typed t)"] by (metis read_part_def L_def en_def)
      next
        case e: False
        then have "int (length L) = tty_incount t" using True t1f by simp
        then have "tty_incount t \<le> b" using lb b(1) by linarith
        then have "take (nat b) (typed t) = typed t" "take (nat (tty_inleft t)) (typed t) = typed t"
          using b by (simp_all add: nat_mono)
        then show ?thesis by (simp add: read_part_def L_def)
      qed
      show ?thesis using True step s1 t1 t1f
        by (intro exI [of _ s1]) (auto simp: t_def [symmetric] rp out en_def [symmetric])
    next
      case False
      then have L: "L = take (nat b) (typed t)" using first_line_whole by (auto simp: en_def L_def)
      have ll: "length L = nat b" using b by (simp add: L nat_mono)
      have i1: "tty_inleft t1 > 0 \<Longrightarrow> tty_incount t1 > 0" using False t1(2) by (auto simp: ring_ok_def)
      have "tty_incount t \<le> 256 + 256 * int n" using Suc.prems(3) by (simp add: t_def)
      moreover have "256 \<le> b \<or> tty_inleft t \<le> b \<or> tty_incount t \<le> b" by (auto simp: b_def)
      ultimately have room: "tty_incount t1 \<le> int TTY_BUF_SIZE * int n \<or> tty_inleft t1 = 0"
        using False t1f ll b by auto
      have l1: "0 \<le> tty_inleft t1" using t1f ll b by simp
      have rest: "read_part t = L @ read_part t1"
      proof -
        have "take (nat (tty_inleft t)) (typed t) = L @ take (nat (tty_inleft t) - nat b) (drop (nat b) (typed t))"
          using b by (simp add: L take_add [symmetric] nat_mono)
        then show ?thesis
          using False first_line_append [of L] b ll
          by (simp add: read_part_def t1 t1f nat_diff_distrib first_line_whole L_def [symmetric] en_def)
            (metis L L_def en_def)
      qed
      obtain s' where s': "rd_loop (Suc n) tp True (p + of_nat (length out)) (cum + int (length out)) s1 =
          Done (cum + int (length out) + int (length (to_reader (read_part t1))), s')"
        "ram s' = store_bytes (p + of_nat (length out)) (to_reader (read_part t1)) (ram s1)"
        "ring_ok (ttys s' tp)" "typed (ttys s' tp) = drop (length (read_part t1)) (typed t1)"
        "tty_lfct (ttys s' tp) = tty_lfct t1 - (if ends_line (read_part t1) then 1 else 0)"
        "tty_inproc (ttys s' tp) = tty_inproc t1" "tty_incaller (ttys s' tp) = tty_incaller t1" "answers s' = answers s1"
      proof (cases "tty_inleft t1 = 0")
        case z: True
        then show thesis using that [of s1] t1(2) s1
          by (simp add: read_part_def to_reader_def ends_line_def)
      next
        case nz: False
        then have "tty_incount t1 \<le> int TTY_BUF_SIZE * int n" using room by simp
        then show thesis using Suc.IH [of s1 "p + of_nat (length out)" "cum + int (length out)"] i1 l1 t1(2) s1 that
          by (auto simp: s1)
      qed
      have tr: "to_reader (read_part t) = out @ to_reader (read_part t1)" by (simp add: rest out to_reader_def)
      have len: "length out + length (to_reader (read_part t1)) < 2 ^ 32"
      proof -
        have "length (read_part t) \<le> nat (tty_incount t)"
          using length_first_line [of "take (nat (tty_inleft t)) (typed t)"] by (simp add: read_part_def)
        moreover have "length (to_reader (read_part t)) \<le> length (read_part t)" by (simp add: to_reader_def)
        moreover have "tty_incount t \<le> 1000" using ok by (simp add: ring_ok_def)
        ultimately show ?thesis by (simp add: tr)
      qed
      have ends: "ends_line (read_part t) \<longleftrightarrow> ends_line (read_part t1)"
        using False by (auto simp: rest ends_line_def en_def last_append)
      have "ram s' = store_bytes p (to_reader (read_part t)) (ram s)"
        using s'(2) store_bytes_append [OF len] by (simp add: s1 tr)
      moreover have "length (read_part t) = length L + length (read_part t1)"
        "length (to_reader (read_part t)) = length out + length (to_reader (read_part t1))"
        using rest tr by simp_all
      ultimately show ?thesis
        using False step s' s1 t1 t1f ends
        by (intro exI [of _ s']) (auto simp: t_def [symmetric] add.commute simp del: rd_loop.simps)
    qed
  qed
qed

end
