(* ===== verification/Tty_Wire.thy ===== *)
theory Tty_Wire
  imports Tty_Serial Tty_Screen
begin

section \<open>Terminals: what arrives at the other end of a serial line\<close>

text \<open>
  A write on a serial line, from the request to its completion: the characters of the user are
  expanded as the mode of the line says, every one is sent once and in order, and when the last one
  is out the task is told.
\<close>

unbundle bit_operations_syntax

subsection \<open>Expansion\<close>

definition next_col :: "int \<Rightarrow> 8 word \<Rightarrow> u16 \<Rightarrow> int" where
  "next_col col c mode =
     (if c = c_BS then wrap (col - 2) else if c = c_CR \<or> c = c_LF \<and> mode AND CRMOD \<noteq> 0 then -1
      else if c = c_HT then wrap (col + (tab_width col - 1)) else col)"

definition expand1 :: "u16 \<Rightarrow> int \<Rightarrow> 8 word \<Rightarrow> 8 word list \<times> int" where
  "expand1 mode col c =
     (if c = c_HT \<and> mode AND XTABS = XTABS
      then (replicate (nat (tab_width col)) c_SP, wrap (col + tab_width col))
      else ((if c = c_LF \<and> mode AND CRMOD \<noteq> 0 then [c_CR, c_LF] else [c]), wrap (next_col col c mode + 1)))"

primrec expands :: "u16 \<Rightarrow> int \<Rightarrow> 8 word list \<Rightarrow> 8 word list \<times> int" where
  "expands mode col [] = ([], col)"
| "expands mode col (c # cs) =
     (let (xs, col) = expand1 mode col c; (ys, col) = expands mode col cs in (xs @ ys, col))"

lemma tab_width_pos: "1 \<le> tab_width col"
proof -
  have "\<bar>col\<bar> mod 8 < 8" by simp
  moreover have "col smod 8 \<le> \<bar>col\<bar> mod 8"
    by (simp add: signed_modulo_int_def signed_divide_int_def sgn_if split: if_splits)
  ultimately show ?thesis by (simp add: tab_width_def)
qed

lemma expand1_nonempty: "fst (expand1 mode col c) \<noteq> []"
  using tab_width_pos [of col] by (simp add: expand1_def)

lemma expands_append:
  "expands mode col (xs @ ys) =
     (fst (expands mode col xs) @ fst (expands mode (snd (expands mode col xs)) ys),
      snd (expands mode (snd (expands mode col xs)) ys))"
  by (induction xs arbitrary: col) (auto simp: Let_def split: prod.split)

lemma expands_nonempty: "cs \<noteq> [] \<Longrightarrow> fst (expands mode col cs) \<noteq> []"
  using expand1_nonempty by (cases cs) (auto simp: Let_def split: prod.split, metis fst_conv)

subsection \<open>The buffer\<close>

definition queued :: "rs_struct \<Rightarrow> 8 word list" where
  "queued r = map (\<lambda>k. rs_buf r (rs_next r + int k)) [0..<nat (rs_left r)]"

lemma rs_put_fields [simp]:
  "rs_next (rs_put c r) = rs_next r" "rs_left (rs_put c r) = rs_left r + 1" "rs_busy (rs_put c r) = rs_busy r"
  by (simp_all add: rs_put_def)

lemma rs_puts_fields [simp]:
  "rs_next (fold rs_put cs r) = rs_next r" "rs_left (fold rs_put cs r) = rs_left r + int (length cs)"
  "rs_busy (fold rs_put cs r) = rs_busy r"
  by (induction cs arbitrary: r) simp_all

lemma queued_put:
  assumes "0 \<le> rs_left r" shows "queued (rs_put c r) = queued r @ [c]"
proof -
  have n: "nat (rs_left r + 1) = Suc (nat (rs_left r))" using assms by simp
  have "map (\<lambda>k. rs_buf (rs_put c r) (rs_next r + int k)) [0..<nat (rs_left r)] = queued r"
    unfolding queued_def by (rule map_cong [OF refl]) (simp add: rs_put_def, linarith)
  moreover have "rs_buf (rs_put c r) (rs_next r + int (nat (rs_left r))) = c"
    using assms by (simp add: rs_put_def)
  ultimately show ?thesis by (simp add: queued_def n)
qed

lemma queued_puts: "0 \<le> rs_left r \<Longrightarrow> queued (fold rs_put cs r) = queued r @ cs"
  by (induction cs arbitrary: r) (simp_all add: queued_put)

lemma queued_Nil: "0 \<le> rs_left r \<Longrightarrow> queued r = [] \<longleftrightarrow> rs_left r = 0"
  by (simp add: queued_def)

lemma queued_feed:
  assumes "0 < rs_left r"
  shows "queued r = rs_buf r (rs_next r) # queued (r\<lparr>rs_next := rs_next r + 1, rs_left := rs_left r - 1\<rparr>)"
proof -
  obtain n where n: "nat (rs_left r) = Suc n" "nat (rs_left r - 1) = n" using assms by (cases "nat (rs_left r)") auto
  show ?thesis
    unfolding queued_def by (simp add: n(1) map_upt_Suc del: upt_Suc) (simp add: n(2) add.assoc)
qed

lemma fold_rs_put_replicate: "(rs_put c ^^ n) r = fold rs_put (replicate n c) r"
  by (induction n arbitrary: r) (simp_all add: funpow_swap1)

subsection \<open>Filling the buffer\<close>

text \<open>The state after some bytes have gone from the user into the buffer.\<close>

definition taken :: "int \<Rightarrow> int \<Rightarrow> int \<Rightarrow> rs_struct \<Rightarrow> tstate \<Rightarrow> tstate" where
  "taken tp col left r s =
     upd_tty tp (\<lambda>t. t\<lparr>tty_column := col, tty_outleft := left\<rparr>) (upd_rs (tp - NR_CONS) (\<lambda>_. r) s)"

lemma taken_fields [simp]:
  "rss (taken tp col left r s) = (rss s)(tp - NR_CONS := r)"
  "ttys (taken tp col left r s) = (ttys s)(tp := (ttys s tp)\<lparr>tty_column := col, tty_outleft := left\<rparr>)"
  "ram (taken tp col left r s) = ram s" "kern (taken tp col left r s) = kern s" "wire (taken tp col left r s) = wire s"
  "output_done (taken tp col left r s) = output_done s" "answers (taken tp col left r s) = answers s"
  by (simp_all add: taken_def)

lemma taken_taken [simp]: "taken tp c' l' r' (taken tp c l r s) = taken tp c' l' r' s"
  by (cases s) (simp add: taken_def upd_tty_def upd_rs_def)

lemma taken_triv [simp]: "taken tp (tty_column (ttys s tp)) (tty_outleft (ttys s tp)) (rss s (tp - NR_CONS)) s = s"
  by (cases s) (simp add: taken_def upd_tty_def upd_rs_def fun_upd_def fun_eq_iff)

lemma upd_swap: "upd_rs i g (upd_tty j f s) = upd_tty j f (upd_rs i g s)"
  by (simp add: upd_tty_def upd_rs_def)

lemma upd_twice: "upd_tty i f (upd_tty i g s) = upd_tty i (\<lambda>t. f (g t)) s" "upd_rs i h (upd_rs i k s) = upd_rs i (\<lambda>r. h (k r)) s"
  by (simp_all add: upd_tty_def upd_rs_def)

lemma taken_eq:
  assumes "s1 = upd_tty tp f (upd_rs (tp - NR_CONS) g s)" and "f (ttys s tp) = (ttys s tp)\<lparr>tty_column := col, tty_outleft := left\<rparr>"
    and "g (rss s (tp - NR_CONS)) = r"
  shows "s1 = taken tp col left r s"
  using assms by (simp add: taken_def upd_tty_def upd_rs_def)

lemma one_less: "tty_outleft_update (\<lambda>l. l - 1) t = t\<lparr>tty_outleft := tty_outleft t - 1\<rparr>"
  by (cases t) simp

lemma take_byte:
  assumes "rs = rss s (tp - NR_CONS)" and "E = expand1 (tty_mode (ttys s tp)) (tty_column (ttys s tp)) c"
  shows "(let s = upd_tty tp (tty_outleft_update (\<lambda>l. l - 1)) s
          in if sint c < 32 then rs_expand tp c s
             else set_column tp (tty_column (ttys s tp) + 1) (upd_rs (tp - NR_CONS) (rs_put c) s))
    = taken tp (snd E) (tty_outleft (ttys s tp) - 1) (fold rs_put (fst E) rs) s"
proof -
  have w: "wrap (-1) = -1" by (simp add: wrap_def)
  have ctl: "sint c < 32" if "c = c_HT \<or> c = c_BS \<or> c = c_CR \<or> c = c_LF" using that by auto
  note defs = rs_expand_def set_column_def expand1_def next_col_def Let_def upd_swap upd_twice one_less
  consider (tab) "c = c_HT" "tty_mode (ttys s tp) AND XTABS = XTABS" | (ht) "c = c_HT" "tty_mode (ttys s tp) AND XTABS \<noteq> XTABS"
    | (nl) "c = c_LF" "tty_mode (ttys s tp) AND CRMOD \<noteq> 0" | (lf) "c = c_LF" "tty_mode (ttys s tp) AND CRMOD = 0"
    | (bs) "c = c_BS" | (cr) "c = c_CR" | (other) "c \<noteq> c_HT" "c \<noteq> c_LF" "c \<noteq> c_BS" "c \<noteq> c_CR" by auto
  then show ?thesis
  proof cases
    case tab show ?thesis unfolding assms
      by (rule taken_eq [where g = "rs_put c_SP ^^ nat (tab_width (tty_column (ttys s tp)))"
            and f = "\<lambda>t. t\<lparr>tty_outleft := tty_outleft t - 1, tty_column := wrap (tty_column (ttys s tp) + tab_width (tty_column (ttys s tp)))\<rparr>"])
        (use tab ctl in \<open>simp_all add: defs\<close>)
  next
    case ht show ?thesis unfolding assms
      by (rule taken_eq [where g = "rs_put c"
            and f = "\<lambda>t. t\<lparr>tty_outleft := tty_outleft t - 1, tty_column := wrap (next_col (tty_column (ttys s tp)) c (tty_mode (ttys s tp)) + 1)\<rparr>"])
        (use ht ctl in \<open>simp_all add: defs\<close>)
  next
    case nl show ?thesis unfolding assms
      by (rule taken_eq [where g = "\<lambda>r. rs_put c_LF (rs_put c_CR r)"
            and f = "\<lambda>t. t\<lparr>tty_outleft := tty_outleft t - 1, tty_column := wrap 0\<rparr>"])
        (use nl ctl w in \<open>simp_all add: defs\<close>)
  next
    case lf show ?thesis unfolding assms
      by (rule taken_eq [where g = "rs_put c"
            and f = "\<lambda>t. t\<lparr>tty_outleft := tty_outleft t - 1, tty_column := wrap (tty_column (ttys s tp) + 1)\<rparr>"])
        (use lf ctl in \<open>simp_all add: defs\<close>)
  next
    case bs show ?thesis unfolding assms
      by (rule taken_eq [where g = "rs_put c"
            and f = "\<lambda>t. t\<lparr>tty_outleft := tty_outleft t - 1, tty_column := wrap (wrap (tty_column (ttys s tp) - 2) + 1)\<rparr>"])
        (use bs ctl in \<open>simp_all add: defs\<close>)
  next
    case cr show ?thesis unfolding assms
      by (rule taken_eq [where g = "rs_put c"
            and f = "\<lambda>t. t\<lparr>tty_outleft := tty_outleft t - 1, tty_column := wrap 0\<rparr>"])
        (use cr ctl w in \<open>simp_all add: defs\<close>)
  next
    case other show ?thesis unfolding assms
      by (rule taken_eq [where g = "rs_put c"
            and f = "\<lambda>t. t\<lparr>tty_outleft := tty_outleft t - 1, tty_column := wrap (tty_column (ttys s tp) + 1)\<rparr>"])
        (use other in \<open>simp_all add: defs\<close>)
  qed
qed

definition user_bytes :: "tstate \<Rightarrow> addr \<Rightarrow> nat \<Rightarrow> 8 word list" where
  "user_bytes s p n = map (\<lambda>k. ram s (p + of_nat k)) [0..<n]"

lemma user_bytes_Suc: "user_bytes s p (Suc n) = ram s p # user_bytes s (p + 1) n"
  by (simp only: user_bytes_def map_upt_Suc) (simp add: add.assoc)

lemma serial_loop_takes:
  "\<exists>m\<le>n. let E = expands (tty_mode (ttys s tp)) (tty_column (ttys s tp)) (user_bytes s p m) in
     serial_loop n tp p b s = (b + int m, taken tp (snd E) (tty_outleft (ttys s tp) - int m) (fold rs_put (fst E) (rss s (tp - NR_CONS))) s) \<and>
     (n > 0 \<longrightarrow> rs_next (rss s (tp - NR_CONS)) + rs_left (rss s (tp - NR_CONS)) < RS_BUF_SIZE - SPARE \<longrightarrow> m > 0)"
proof (induction n arbitrary: p b s)
  case 0 then show ?case by (simp add: user_bytes_def)
next
  case (Suc n)
  define r where "r = rss s (tp - NR_CONS)"
  define E where "E = expand1 (tty_mode (ttys s tp)) (tty_column (ttys s tp)) (ram s p)"
  show ?case
  proof (cases "rs_next r + rs_left r < RS_BUF_SIZE - SPARE")
    case False
    then show ?thesis by (intro exI [of _ 0]) (simp add: user_bytes_def Let_def r_def)
  next
    case True
    define s1 where "s1 = taken tp (snd E) (tty_outleft (ttys s tp) - 1) (fold rs_put (fst E) r) s"
    have e: "serial_loop (Suc n) tp p b s = serial_loop n tp (p + 1) (b + 1) s1"
      using True take_byte [OF r_def E_def] by (simp add: r_def [symmetric] s1_def Let_def)
    obtain m where m: "m \<le> n" "serial_loop n tp (p + 1) (b + 1) s1 =
        (b + 1 + int m, let F = expands (tty_mode (ttys s1 tp)) (tty_column (ttys s1 tp)) (user_bytes s1 (p + 1) m) in
           taken tp (snd F) (tty_outleft (ttys s1 tp) - int m) (fold rs_put (fst F) (rss s1 (tp - NR_CONS))) s1)"
      using Suc.IH [of s1 "p + 1" "b + 1"] by (auto simp: Let_def)
    have ub: "user_bytes s1 (p + 1) m = user_bytes s (p + 1) m" by (simp add: user_bytes_def s1_def)
    have "serial_loop (Suc n) tp p b s =
        (b + int (Suc m), let F = expands (tty_mode (ttys s tp)) (snd E) (user_bytes s (p + 1) m) in
           taken tp (snd F) (tty_outleft (ttys s tp) - int (Suc m)) (fold rs_put (fst E @ fst F) r) s)"
      unfolding e m(2) ub by (simp add: s1_def Let_def algebra_simps)
    then show ?thesis using m(1)
      by (intro exI [of _ "Suc m"]) (simp add: user_bytes_Suc E_def [symmetric] r_def [symmetric] Let_def split: prod.split)
  qed
qed


subsection \<open>Interrupt by interrupt\<close>

text \<open>What the line has still to send: the buffer, and what the bytes left with the user expand to.\<close>

definition ahead :: "int \<Rightarrow> tstate \<Rightarrow> 8 word list" where
  "ahead tp s = queued (rss s (tp - NR_CONS)) @
     fst (expands (tty_mode (ttys s tp)) (tty_column (ttys s tp)) (user_bytes s (tty_phys (ttys s tp)) (nat (tty_outleft (ttys s tp)))))"

text \<open>A line that is running and has somebody waiting for the end of his write; \<open>len\<close> is the length of
  the write.\<close>

definition writing :: "int \<Rightarrow> int \<Rightarrow> tstate \<Rightarrow> bool" where
  "writing tp len s \<longleftrightarrow> tty_inhibited (ttys s tp) = RUNNING \<and> tty_waiting (ttys s tp) = WAITING \<and>
     0 \<le> tty_outleft (ttys s tp) \<and> 0 \<le> tty_cum (ttys s tp) \<and> tty_cum (ttys s tp) + tty_outleft (ttys s tp) = len \<and>
     len \<le> 32767 \<and> 0 \<le> rs_left (rss s (tp - NR_CONS))"

definition beside_line :: "tstate \<Rightarrow> tstate \<Rightarrow> bool" where
  "beside_line s s' \<longleftrightarrow> kern s' = kern s \<and> output_done s' = output_done s \<and> answers s' = answers s"

lemma beside_trans: "beside_line s s1 \<Longrightarrow> beside_line s1 s2 \<Longrightarrow> beside_line s s2"
  by (simp add: beside_line_def)

lemma user_bytes_split:
  "m \<le> n \<Longrightarrow> user_bytes s p n = user_bytes s p m @ user_bytes s (p + of_nat m) (n - m)"
proof -
  assume m: "m \<le> n"
  have "[0..<n] = [0..<m] @ map (\<lambda>k. m + k) [0..<n - m]"
    using m upt_add_eq_append [of 0 m "n - m"] by (simp add: map_add_upt add.commute)
  then show ?thesis by (simp add: user_bytes_def comp_def add.assoc)
qed

lemma feed_one:
  assumes "writing tp len s" and "0 < rs_left (rss s (tp - NR_CONS))"
  shows "wire (rs_feed (tp - NR_CONS) s) = hd (ahead tp s) # wire s"
    "ahead tp (rs_feed (tp - NR_CONS) s) = tl (ahead tp s)"
    "writing tp len (rs_feed (tp - NR_CONS) s)" "beside_line s (rs_feed (tp - NR_CONS) s)"
proof -
  define r where "r = rss s (tp - NR_CONS)"
  have q: "queued r = rs_buf r (rs_next r) # queued (r\<lparr>rs_next := rs_next r + 1, rs_left := rs_left r - 1\<rparr>)"
    by (rule queued_feed) (use assms(2) in \<open>simp add: r_def\<close>)
  have e: "rs_feed (tp - NR_CONS) s =
      upd_rs (tp - NR_CONS) (\<lambda>r. r\<lparr>rs_next := rs_next r + 1, rs_left := rs_left r - 1\<rparr>) (siaout (rs_buf r (rs_next r)) s)"
    using assms(2) by (simp add: rs_feed_def r_def)
  have f: "rss (siaout c s) = rss s" "ttys (siaout c s) = ttys s" "ram (siaout c s) = ram s" "wire (siaout c s) = c # wire s"
    "kern (siaout c s) = kern s" "output_done (siaout c s) = output_done s" "answers (siaout c s) = answers s" for c
    by (simp_all add: siaout_def ram_def)
  show "wire (rs_feed (tp - NR_CONS) s) = hd (ahead tp s) # wire s"
    "ahead tp (rs_feed (tp - NR_CONS) s) = tl (ahead tp s)"
    "writing tp len (rs_feed (tp - NR_CONS) s)" "beside_line s (rs_feed (tp - NR_CONS) s)"
    using assms q by (simp_all add: e f ahead_def r_def [symmetric] user_bytes_def writing_def beside_line_def)
qed

lemma wrap_sum: "0 \<le> a \<Longrightarrow> 0 \<le> b \<Longrightarrow> a + b \<le> 32767 \<Longrightarrow> wrap (a + b) = a + b"
  by (rule wrap_small) auto

text \<open>An idle line that is started fills its buffer and sends the first character.\<close>

lemma start_line:
  assumes w: "writing tp len s" and idle: "\<not> rs_busy (rss s (tp - NR_CONS))" "rs_left (rss s (tp - NR_CONS)) = 0"
    "rs_next (rss s (tp - NR_CONS)) = 0" and more: "0 < tty_outleft (ttys s tp)"
  shows "wire (serial_out tp s) = hd (ahead tp s) # wire s" "ahead tp (serial_out tp s) = tl (ahead tp s)"
    "writing tp len (serial_out tp s)" "beside_line s (serial_out tp s)"
proof -
  define r t n where "r = rss s (tp - NR_CONS)" and "t = ttys s tp" and "n = nat (tty_outleft (ttys s tp))"
  obtain m where m: "m \<le> n" "m > 0" and loop: "serial_loop n tp (tty_phys t) 0 s =
      (int m, let E = expands (tty_mode t) (tty_column t) (user_bytes s (tty_phys t) m) in
         taken tp (snd E) (tty_outleft t - int m) (fold rs_put (fst E) r) s)"
    using serial_loop_takes [of n s tp "tty_phys t" 0] idle more by (auto simp: Let_def r_def t_def n_def)
  define E where "E = expands (tty_mode t) (tty_column t) (user_bytes s (tty_phys t) m)"
  define s1 where "s1 = upd_tty tp (\<lambda>t. t\<lparr>tty_cum := wrap (tty_cum t + int m), tty_phys := tty_phys t + word_of_int (int m)\<rparr>)
      (taken tp (snd E) (tty_outleft t - int m) (fold rs_put (fst E) r) s)"
  define s2 where "s2 = upd_rs (tp - NR_CONS) (rs_busy_update (\<lambda>_. True)) s1"
  have ne: "fst E \<noteq> []" unfolding E_def
    by (rule expands_nonempty) (use m(2) in \<open>simp add: user_bytes_def\<close>)
  have nb: "\<not> rs_busy (rss s1 (tp - NR_CONS))" using idle(1) by (simp add: s1_def r_def)
  have out: "serial_out tp s = rs_feed (tp - NR_CONS) s2"
    using w loop nb by (simp add: serial_out_def writing_def t_def [symmetric] n_def E_def [symmetric] s1_def rs_start_def s2_def Let_def)
  have n: "int n = tty_outleft t" using more by (simp add: n_def t_def)
  have cum: "wrap (tty_cum t + int m) = tty_cum t + int m"
    by (rule wrap_sum) (use w m n in \<open>auto simp: writing_def t_def\<close>)
  have w2: "writing tp len s2"
    using w m n cum idle(2) by (simp add: writing_def s2_def s1_def t_def [symmetric] r_def [symmetric])
  have left: "0 < rs_left (rss s2 (tp - NR_CONS))" using ne idle(2) by (simp add: s2_def s1_def r_def)
  have "queued ((fold rs_put (fst E) r)\<lparr>rs_busy := True\<rparr>) = queued (fold rs_put (fst E) r)"
    by (simp add: queued_def)
  also have "\<dots> = fst E" using idle(2) by (simp add: queued_puts r_def [symmetric]) (simp add: queued_def)
  finally have q: "queued (rss s2 (tp - NR_CONS)) = fst E" by (simp add: s2_def s1_def)
  have split: "user_bytes s (tty_phys t) n = user_bytes s (tty_phys t) m @ user_bytes s (tty_phys t + of_nat m) (n - m)"
    by (rule user_bytes_split [OF m(1)])
  have "ahead tp s = fst (expands (tty_mode t) (tty_column t) (user_bytes s (tty_phys t) n))"
    using idle(2) by (simp add: ahead_def t_def n_def queued_def)
  also have "\<dots> = fst E @ fst (expands (tty_mode t) (snd E) (user_bytes s (tty_phys t + of_nat m) (n - m)))"
    unfolding split expands_append E_def by simp
  also have "\<dots> = ahead tp s2"
    unfolding ahead_def q using m(1) n
    by (simp add: s2_def s1_def t_def [symmetric] user_bytes_def nat_diff_distrib' flip: n)
  finally have a: "ahead tp s = ahead tp s2" .
  have wr: "wire s2 = wire s" and b: "beside_line s s2" by (simp_all add: s2_def s1_def beside_line_def)
  show "wire (serial_out tp s) = hd (ahead tp s) # wire s" "ahead tp (serial_out tp s) = tl (ahead tp s)"
    "writing tp len (serial_out tp s)" "beside_line s (serial_out tp s)"
    unfolding out using feed_one [OF w2 left] a wr beside_trans [OF b] by simp_all
qed

text \<open>A transmit interrupt sends the next character, and fills the buffer again when it is empty.\<close>

lemma interrupt_sends:
  assumes w: "writing tp len s" and "ahead tp s \<noteq> []"
  shows "\<exists>s'. rs_write_int tp s = Done s' \<and> wire s' = hd (ahead tp s) # wire s \<and> ahead tp s' = tl (ahead tp s) \<and>
           writing tp len s' \<and> beside_line s s'"
proof (cases "0 < rs_left (rss s (tp - NR_CONS))")
  case True
  then show ?thesis using feed_one [OF w True] by (simp add: rs_write_int_def Let_def)
next
  case False
  then have l0: "rs_left (rss s (tp - NR_CONS)) = 0" using w by (simp add: writing_def)
  define s1 where "s1 = upd_rs (tp - NR_CONS) (\<lambda>r. r\<lparr>rs_busy := False, rs_next := 0\<rparr>) s"
  have a: "ahead tp s1 = ahead tp s" using l0 by (simp add: ahead_def s1_def queued_def user_bytes_def)
  have w1: "writing tp len s1" and b: "beside_line s s1" and wr: "wire s1 = wire s"
    using w by (simp_all add: s1_def writing_def beside_line_def)
  have "0 < tty_outleft (ttys s tp)"
    using assms(2) l0 w by (cases "tty_outleft (ttys s tp) = 0") (simp_all add: ahead_def queued_def user_bytes_def writing_def)
  then have more: "0 < tty_outleft (ttys s1 tp)" by (simp add: s1_def)
  have e: "rs_write_int tp s = Done (serial_out tp s1)"
    using l0 more by (simp add: rs_write_int_def Let_def s1_def)
  have idle: "\<not> rs_busy (rss s1 (tp - NR_CONS))" "rs_left (rss s1 (tp - NR_CONS)) = 0" "rs_next (rss s1 (tp - NR_CONS)) = 0"
    using l0 by (simp_all add: s1_def)
  show ?thesis
    using start_line [OF w1 idle more] a wr beside_trans [OF b] by (simp add: e)
qed

lemma interrupt_completes:
  assumes w: "writing tp len s" and "ahead tp s = []"
  shows "tty_cum (ttys s tp) = len"
    "rs_write_int tp s = kernel_call (interrupt TTY_TASK)
       ((upd_tty tp (tty_waiting_update (\<lambda>_. COMPLETED)) (upd_rs (tp - NR_CONS) (\<lambda>r. r\<lparr>rs_busy := False, rs_next := 0\<rparr>) s))
          \<lparr>output_done := output_done s + 1\<rparr>)"
proof -
  have q: "queued (rss s (tp - NR_CONS)) = []" using assms(2) by (simp add: ahead_def)
  then have l0: "rs_left (rss s (tp - NR_CONS)) = 0" using w by (simp add: queued_Nil writing_def)
  have "user_bytes s (tty_phys (ttys s tp)) (nat (tty_outleft (ttys s tp))) = []"
    using assms(2) expands_nonempty by (auto simp: ahead_def)
  then have o0: "tty_outleft (ttys s tp) = 0" using w by (simp add: user_bytes_def writing_def)
  then show "tty_cum (ttys s tp) = len" using w by (simp add: writing_def)
  show "rs_write_int tp s = kernel_call (interrupt TTY_TASK)
       ((upd_tty tp (tty_waiting_update (\<lambda>_. COMPLETED)) (upd_rs (tp - NR_CONS) (\<lambda>r. r\<lparr>rs_busy := False, rs_next := 0\<rparr>) s))
          \<lparr>output_done := output_done s + 1\<rparr>)"
    using l0 o0 w by (simp add: rs_write_int_def Let_def writing_def)
qed

text \<open>\<open>n\<close> transmit interrupts.\<close>

primrec transmit :: "nat \<Rightarrow> int \<Rightarrow> tstate \<Rightarrow> tstate run" where
  "transmit 0 tp s = Done s"
| "transmit (Suc n) tp s = andthen (rs_write_int tp s) (transmit n tp)"

lemma transmit_all:
  assumes "writing tp len s"
  shows "\<exists>s'. transmit (length (ahead tp s)) tp s = Done s' \<and> wire s' = rev (ahead tp s) @ wire s \<and> ahead tp s' = [] \<and>
           writing tp len s' \<and> beside_line s s'"
  using assms
proof (induction "length (ahead tp s)" arbitrary: s)
  case 0 then show ?case by (simp add: beside_line_def)
next
  case (Suc n)
  then have "ahead tp s \<noteq> []" by auto
  then obtain s1 where s1: "rs_write_int tp s = Done s1" "wire s1 = hd (ahead tp s) # wire s" "ahead tp s1 = tl (ahead tp s)"
      "writing tp len s1" "beside_line s s1"
    using interrupt_sends [OF Suc.prems] by blast
  have n: "n = length (ahead tp s1)" using Suc.hyps(2) s1(3) by simp
  obtain s' where s': "transmit (length (ahead tp s1)) tp s1 = Done s'" "wire s' = rev (ahead tp s1) @ wire s1" "ahead tp s' = []"
      "writing tp len s'" "beside_line s1 s'"
    using Suc.hyps(1) [OF n s1(4)] by blast
  have "rev (ahead tp s1) @ wire s1 = rev (ahead tp s) @ wire s"
    using s1(2,3) \<open>ahead tp s \<noteq> []\<close> by (cases "ahead tp s") simp_all
  then show ?case
    using s' s1(1) beside_trans [OF s1(5) s'(5)] unfolding Suc.hyps(2) [symmetric] n by simp
qed

subsection \<open>The property\<close>


text \<open>The same for a request of three bytes, \<open>a\<close>, tab and line feed, on a line that expands both.\<close>

definition serial_demo :: tstate where
  "serial_demo = upd_ram (\<lambda>m. m(0x2000 := 97, 0x2001 := 9, 0x2002 := 10))
     (upd_tty 1 (\<lambda>t. t\<lparr>tty_waiting := WAITING, tty_phys := 0x2000, tty_outleft := 3\<rparr>) (blank_term blank))"


subsection \<open>Where the code goes wrong\<close>

text \<open>An echo writes behind the buffer when there is one byte left in it and two to be put.\<close>

lemma echo_overruns:
  assumes "rs_next (rss s 0) + rs_left (rss s 0) = RS_BUF_SIZE - 1" and "tty_mode (ttys s 1) AND CRMOD \<noteq> 0"
    and "rs_busy (rss s 0)"
  shows "rs_next (rss (rs_out_char 1 c_LF s) 0) + rs_left (rss (rs_out_char 1 c_LF s) 0) = RS_BUF_SIZE + 1"
  using assms by (simp add: rs_out_char_def Let_def rs_expand_def rs_start_def set_column_def)

text \<open>Starting an idle line with nothing to send, as \<open>do_write\<close> does when the address is bad, marks it busy;
  no transmit interrupt will follow.\<close>

lemma empty_start_wedges:
  assumes "tty_inhibited (ttys s 1) = RUNNING" and "tty_outleft (ttys s 1) = 0"
    and "rs_left (rss s 0) = 0" and "\<not> rs_busy (rss s 0)"
  shows "rs_busy (rss (start_rs232 1 s) 0)" "wire (start_rs232 1 s) = wire s"
  using assms by (simp_all add: start_rs232_def serial_out_def rs_start_def rs_feed_def Let_def)

end
