(* ===== verification/Tty_Edit.thy ===== *)
theory Tty_Edit
  imports Tty_Ring Tty_Wire
begin

section \<open>Terminals: the line discipline\<close>

text \<open>
  The properties of the terminal task: a read in cooked mode gets a line, typing edits the line as the
  erase, kill and escape characters say, and the parameters of a line are read back as they were set.
\<close>

unbundle bit_operations_syntax

subsection \<open>Reading\<close>

text \<open>
  C26: Reading in cooked mode.  A read on a line where nobody else is reading is answered with
  \<open>SUSPEND\<close>, and the request is kept, as long as no complete line has been typed; otherwise the
  reader gets, in his buffer and in order, what has been typed up to the first line feed or end of file,
  at most as many characters as he asked for and not the end of file itself, the
  answer is their number, and exactly these characters (with the end of file) leave the queue.
\<close>

theorem read_gets_line:
  assumes "ring_ok (ttys s tp)" and "in_mode (ttys s tp) = 0" and "tty_inleft (ttys s tp) = 0" and "0 < dm_count m"
    and "proc_addr (dm_proc m) = Done rp" and "umap (procs (kern s) rp) 1 (dm_addr m) (word_of_int (dm_count m)) = phys" and "phys \<noteq> 0"
    and "L = first_line (take (nat (dm_count m)) (typed (ttys s tp)))"
  shows "\<exists>s'. do_read tp m s = Done s' \<and> ring_ok (ttys s' tp) \<and>
    (if tty_incount (ttys s tp) = 0 \<or> tty_lfct (ttys s tp) = 0
     then ram s' = ram s \<and> typed (ttys s' tp) = typed (ttys s tp) \<and> tty_inleft (ttys s' tp) = dm_count m \<and>
          answers s' = answers (tty_reply TTY_TASK_REPLY (dm_source m) (dm_proc m) TTY_SUSPEND 0 0 s)
     else ram s' = store_bytes phys (to_reader L) (ram s) \<and> typed (ttys s' tp) = drop (length L) (typed (ttys s tp)) \<and>
          tty_inleft (ttys s' tp) = 0 \<and>
          answers s' = answers (tty_reply TTY_TASK_REPLY (dm_source m) (dm_proc m) (int (length (to_reader L))) 0 0 s))"
proof -
  define s1 where "s1 = upd_tty tp (\<lambda>t. t\<lparr>tty_incaller := dm_source m, tty_inproc := dm_proc m, tty_in_vir := dm_addr m,
      tty_inleft := dm_count m\<rparr>) s"
  have ty: "typed (t\<lparr>tty_incaller := a, tty_inproc := b, tty_in_vir := c, tty_inleft := d\<rparr>) = typed t"
      "ring_ok (t\<lparr>tty_incaller := a, tty_inproc := b, tty_in_vir := c, tty_inleft := d\<rparr>) = ring_ok t" for t a b c d
    by (simp_all add: typed_def slot_def ring_ok_def)
  have ty0: "typed (t\<lparr>tty_inleft := d\<rparr>) = typed t" "ring_ok (t\<lparr>tty_inleft := d\<rparr>) = ring_ok t" for t d
    by (simp_all add: typed_def slot_def ring_ok_def)
  have f: "ring_ok (ttys s1 tp)" "typed (ttys s1 tp) = typed (ttys s tp)" "tty_inleft (ttys s1 tp) = dm_count m"
      "tty_incount (ttys s1 tp) = tty_incount (ttys s tp)" "tty_lfct (ttys s1 tp) = tty_lfct (ttys s tp)" "ram s1 = ram s"
      "tty_inproc (ttys s1 tp) = dm_proc m" "in_mode (ttys s1 tp) = 0" "answers s1 = answers s" "procs (kern s1) = procs (kern s)"
      "tty_in_vir (ttys s1 tp) = dm_addr m"
    using assms(1,2) by (simp_all add: s1_def ty in_mode_def)
  have rd: "do_read tp m s = andthen (rd_chars tp s1) (\<lambda>(code, s).
      Done (tty_reply TTY_TASK_REPLY (dm_source m) (tty_inproc (ttys s tp)) code 0 0 s))"
    using assms(3) by (simp add: do_read_def s1_def)
  show ?thesis
  proof (cases "tty_incount (ttys s tp) = 0 \<or> tty_lfct (ttys s tp) = 0")
    case True
    then have "rd_chars tp s1 = Done (TTY_SUSPEND, s1)" by (auto simp: rd_chars_def f)
    then show ?thesis using True f by (simp add: rd)
  next
    case False
    have part: "read_part (ttys s1 tp) = L" using assms(8) by (simp add: read_part_def f)
    have "tty_incount (ttys s1 tp) > 0" "tty_incount (ttys s1 tp) \<le> int TTY_BUF_SIZE * int 5" "0 \<le> tty_inleft (ttys s1 tp)"
      using f(1) False f(3,4) assms(4) by (auto simp: ring_ok_def)
    then obtain s2 where s2: "rd_loop (Suc 5) tp True phys 0 s1 = Done (int (length (to_reader L)), s2)"
        "ram s2 = store_bytes phys (to_reader L) (ram s1)" "ring_ok (ttys s2 tp)"
        "typed (ttys s2 tp) = drop (length L) (typed (ttys s1 tp))" "tty_inproc (ttys s2 tp) = dm_proc m" "answers s2 = answers s1"
      using rd_loop_reads [of s1 tp 5 phys 0] f unfolding part by auto
    have "rd_chars tp s1 = Done (int (length (to_reader L)), upd_tty tp (tty_inleft_update (\<lambda>_. 0)) s2)"
      using False assms(5-7) s2(1) by (simp add: rd_chars_def f eval_nat_numeral del: rd_loop.simps)
    then show ?thesis using False s2 f by (simp add: rd ty0)
  qed
qed

text \<open>A process that has typed \<open>hi\<close> and a line feed, and more, reads ten characters.\<close>

definition reader_kern :: kstate where
  "reader_kern = upd_proc 13 (p_map_update (\<lambda>_ _. \<lparr>mem_vir = 0, mem_phys = 0, mem_len = 0x100\<rparr>)) blank"

definition reader_demo :: tstate where
  "reader_demo = upd_tty 0 (\<lambda>t. t\<lparr>tty_inqueue := (\<lambda>k. if k < 4 then [104, 105, 10, 120] ! k else 0), tty_inhead := 4,
     tty_incount := 4, tty_lfct := 1\<rparr>) (blank_term reader_kern)"

definition read_request :: driver_mess where
  "read_request = \<lparr>dm_source = 1, dm_type = TTY_READ, dm_line = 0, dm_proc = 4, dm_count = 10, dm_spek = 0, dm_flags = 0,
     dm_addr = 0x2000\<rparr>"

lemma read_gets_line_witness:
  "\<exists>s'. do_read 0 read_request reader_demo = Done s' \<and> ram s' = store_bytes 0x2000 [104, 105, 10] (ram reader_demo) \<and>
     typed (ttys s' 0) = [120]"
proof -
  have t: "ttys reader_demo 0 = blank_tty\<lparr>tty_inqueue := (\<lambda>k. if k < 4 then [104, 105, 10, 120] ! k else 0), tty_inhead := 4,
     tty_incount := 4, tty_lfct := 1\<rparr>" "kern reader_demo = reader_kern"
    by (simp_all add: reader_demo_def blank_term_def)
  have ty: "typed (ttys reader_demo 0) = [104, 105, 10, 120]"
    by (simp add: t typed_def slot_def upt_rec blank_tty_def)
  have L: "first_line (take (nat (dm_count read_request)) (typed (ttys reader_demo 0))) = [104, 105, 10]"
    by (simp add: ty read_request_def line_end_def)
  have u: "umap (procs (kern reader_demo) 13) 1 (dm_addr read_request) (word_of_int (dm_count read_request)) = 0x2000"
    by (simp add: t reader_kern_def read_request_def umap_def blank_def Let_def)
  have p: "proc_addr (dm_proc read_request) = Done 13"
    by (simp add: read_request_def proc_addr_Done)
  have r: "ring_ok (ttys reader_demo 0)" "in_mode (ttys reader_demo 0) = 0" "tty_inleft (ttys reader_demo 0) = 0"
      "tty_incount (ttys reader_demo 0) = 4" "tty_lfct (ttys reader_demo 0) = 1"
    by (simp_all add: t ring_ok_def slot_def in_mode_def blank_tty_def)
  have c: "0 < dm_count read_request" by (simp add: read_request_def)
  show ?thesis
    using read_gets_line [OF r(1-3) c p u _ L [symmetric]] r(4,5)
    by (auto simp: ty to_reader_def)
qed

subsection \<open>Typing\<close>

definition drop_last :: "8 word list \<Rightarrow> 8 word list" where
  "drop_last q = (if q = [] \<or> last q = c_LF \<or> last q = c_CR then q else butlast q)"

definition drop_line :: "8 word list \<Rightarrow> 8 word list" where
  "drop_line q = rev (dropWhile (\<lambda>c. c \<noteq> c_LF \<and> c \<noteq> c_CR) (rev q))"

text \<open>What typing \<open>ch\<close> makes of the queue and of the escape flag.\<close>

definition to_lf :: "tty_struct \<Rightarrow> 8 word \<Rightarrow> 8 word" where
  "to_lf t ch = (if ch = c_CR \<and> tty_mode t AND CRMOD \<noteq> 0 then c_LF else ch)"

definition edit :: "tty_struct \<Rightarrow> 8 word \<Rightarrow> 8 word list \<Rightarrow> 8 word list \<times> bool" where
  "edit t ch q =
     (if tty_escaped t then
        (if ch = tty_erase t \<or> ch = tty_kill t \<or> ch = tty_eof t then q @ [to_lf t ch] else q @ [c_BACKSLASH, to_lf t ch], False)
      else if ch = tty_erase t then (drop_last q, False)
      else if ch = tty_kill t then (drop_line q, False)
      else if ch = c_BACKSLASH then (q, True)
      else if ch = tty_eof t then (q @ [MARKER], False)
      else (q @ [to_lf t ch], False))"

text \<open>A line whose echo cannot fail: a serial line, or one that does not echo.\<close>

definition echo_safe :: "int \<Rightarrow> tstate \<Rightarrow> bool" where
  "echo_safe tp s \<longleftrightarrow> tty_rwords (ttys s tp) = 0 \<and> (tp \<ge> NR_CONS \<or> tty_mode (ttys s tp) AND ECHO = 0)"

lemma rs_start_ttys [simp]: "ttys (rs_start rs s) = ttys s"
  by (simp add: rs_start_def rs_feed_def siaout_def)

lemma rs_expand_ttys: "\<exists>col. ttys (rs_expand tp c s) = (ttys s)(tp := (ttys s tp)\<lparr>tty_column := col\<rparr>)"
  by (simp add: rs_expand_def set_column_def Let_def) blast

lemma rs_out_char_ttys: "\<exists>col. ttys (rs_out_char tp c s) = (ttys s)(tp := (ttys s tp)\<lparr>tty_column := col\<rparr>)"
proof (cases "rs_next (rss s (tp - NR_CONS)) + rs_left (rss s (tp - NR_CONS)) = RS_BUF_SIZE")
  case True
  then show ?thesis by (intro exI [of _ "tty_column (ttys s tp)"]) (simp add: rs_out_char_def Let_def)
next
  case False then show ?thesis using rs_expand_ttys [of tp c s] by (simp add: rs_out_char_def Let_def)
qed

lemma echo_column:
  assumes "echo_safe tp s"
  shows "\<exists>s' col. echo tp c s = Done s' \<and> ttys s' = (ttys s)(tp := (ttys s tp)\<lparr>tty_column := col\<rparr>) \<and> echo_safe tp s'"
proof (cases "tty_mode (ttys s tp) AND ECHO = 0")
  case True
  then show ?thesis using assms by (intro exI [of _ s] exI [of _ "tty_column (ttys s tp)"]) (simp add: echo_def)
next
  case False
  then have tp: "tp \<ge> NR_CONS" "\<not> tp < NR_CONS" using assms by (auto simp: echo_safe_def)
  define s1 where "s1 = (if c \<noteq> MARKER \<or> tty_mode (ttys s tp) AND (CBREAK OR RAW) \<noteq> 0 then rs_out_char tp c s else s)"
  have "\<exists>col. ttys s1 = (ttys s)(tp := (ttys s tp)\<lparr>tty_column := col\<rparr>)"
    using rs_out_char_ttys [of tp c s] by (auto simp: s1_def intro: exI [of _ "tty_column (ttys s tp)"])
  then obtain col where col: "ttys s1 = (ttys s)(tp := (ttys s tp)\<lparr>tty_column := col\<rparr>)" by blast
  have "echo tp c s = flush tp s1" using False tp(2) by (simp add: echo_def s1_def)
  also have "\<dots> = Done s1" using assms col by (simp add: flush_def echo_safe_def)
  finally show ?thesis using col assms tp by (intro exI [of _ s1] exI [of _ col]) (simp add: echo_safe_def)
qed

text \<open>What an echo leaves of a line.\<close>

definition input_part :: "tty_struct \<Rightarrow> 8 word list \<times> bool \<times> bool \<times> int" where
  "input_part t = (typed t, ring_ok t, tty_escaped t, tty_lfct t)"

lemma input_part_column [simp]: "input_part (t\<lparr>tty_column := c\<rparr>) = input_part t"
  by (simp add: input_part_def typed_def slot_def ring_ok_def)

lemma echo_input:
  assumes "echo_safe tp s"
  shows "\<exists>s'. echo tp c s = Done s' \<and> input_part (ttys s' tp) = input_part (ttys s tp) \<and> echo_safe tp s'"
  using echo_column [OF assms, of c] by auto

text \<open>A chuck changes the two numbers of the ring and nothing else.\<close>

definition chucked :: "tty_struct \<Rightarrow> tty_struct" where
  "chucked t = (if drop_last (typed t) = typed t then t else unput t)"

lemma butlast_shorter: "butlast q = q \<longleftrightarrow> q = []"
  by (metis append_butlast_last_id append_self_conv butlast.simps(1) list.distinct(1))

lemma chuck_chucked:
  assumes "ring_ok (ttys s tp)"
  shows "chuck tp s = (if drop_last (typed (ttys s tp)) = typed (ttys s tp) then (-1, s) else (OK, upd_tty tp unput s))"
proof (cases "tty_incount (ttys s tp) = 0")
  case True then show ?thesis by (simp add: chuck_def Let_def drop_last_def typed_def)
next
  case False
  with last_typed [OF assms] show ?thesis
    by (simp add: chuck_def Let_def drop_last_def butlast_shorter upd_tty_def unput_def)
qed

lemma chucked_ring:
  assumes "ring_ok t"
  shows "typed (chucked t) = drop_last (typed t)" "ring_ok (chucked t)"
proof -
  have c: "tty_incount t \<noteq> 0" if "drop_last (typed t) \<noteq> typed t" using that by (auto simp: drop_last_def typed_def split: if_splits)
  show "typed (chucked t) = drop_last (typed t)"
    using unput_ring(2) [OF assms c] by (auto simp: chucked_def drop_last_def)
  show "ring_ok (chucked t)" using assms unput_ring(1) [OF assms c] by (auto simp: chucked_def)
qed

text \<open>Two lines that differ in the ring only.\<close>

definition off_ring :: "tty_struct \<Rightarrow> tty_struct" where
  "off_ring t = t\<lparr>tty_inhead := 0, tty_incount := 0\<rparr>"

lemma off_ring_unput [simp]: "off_ring (unput t) = off_ring t"
  by (simp add: off_ring_def unput_def)

lemma chuck_typed:
  assumes "ring_ok (ttys s tp)" and "chuck tp s = (r, s')"
  shows "typed (ttys s' tp) = drop_last (typed (ttys s tp))" "ring_ok (ttys s' tp)"
    "r = (if drop_last (typed (ttys s tp)) = typed (ttys s tp) then -1 else OK)"
    "off_ring (ttys s' tp) = off_ring (ttys s tp)"
  using assms chucked_ring [OF assms(1)] by (auto simp: chuck_chucked chucked_def split: if_splits)

lemma drop_line_step:
  "drop_line q = (if drop_last q = q then q else drop_line (drop_last q))"
proof (cases q rule: rev_cases)
  case Nil then show ?thesis by (simp add: drop_line_def drop_last_def)
next
  case (snoc xs c) then show ?thesis by (auto simp: drop_line_def drop_last_def)
qed

lemma kill_loop_typed:
  assumes "ring_ok (ttys s tp)" and "length (typed (ttys s tp)) < n"
  shows "typed (ttys (kill_loop n tp s) tp) = drop_line (typed (ttys s tp)) \<and> ring_ok (ttys (kill_loop n tp s) tp) \<and>
    off_ring (ttys (kill_loop n tp s) tp) = off_ring (ttys s tp)"
  using assms
proof (induction n arbitrary: s)
  case (Suc n)
  obtain r s1 where c: "chuck tp s = (r, s1)" by fastforce
  note ch = chuck_typed [OF Suc.prems(1) c]
  show ?case
  proof (cases "drop_last (typed (ttys s tp)) = typed (ttys s tp)")
    case True
    then have "kill_loop (Suc n) tp s = s1" using c ch(3) by simp
    then show ?thesis using True ch drop_line_step [of "typed (ttys s tp)"] by simp
  next
    case False
    then have k: "kill_loop (Suc n) tp s = kill_loop n tp s1" using c ch(3) by simp
    have "length (typed (ttys s1 tp)) < length (typed (ttys s tp))"
      using False by (auto simp: ch(1) drop_last_def simp del: length_typed split: if_splits)
    then have "length (typed (ttys s1 tp)) < n" using Suc.prems(2) by linarith
    with Suc.IH [OF ch(2)] show ?thesis
      using False ch(1,4) drop_line_step [of "typed (ttys s tp)"] unfolding k by simp
  qed
qed simp

lemma echo_safe_cong:
  assumes "tty_rwords (ttys s' tp) = tty_rwords (ttys s tp)" and "tty_mode (ttys s' tp) = tty_mode (ttys s tp)" and "echo_safe tp s"
  shows "echo_safe tp s'"
  using assms by (simp add: echo_safe_def)

lemma off_ring_fields:
  assumes "off_ring t' = off_ring t"
  shows "tty_rwords t' = tty_rwords t" "tty_mode t' = tty_mode t" "tty_escaped t' = tty_escaped t" "tty_lfct t' = tty_lfct t"
  using assms by (auto simp: off_ring_def dest: arg_cong [where f = tty_rwords] arg_cong [where f = tty_mode]
      arg_cong [where f = tty_escaped] arg_cong [where f = tty_lfct])

text \<open>Several echoes in a row.\<close>

lemma echoes_input:
  assumes "echo_safe tp s" and "\<And>s1. input_part (ttys s1 tp) = input_part (ttys s tp) \<Longrightarrow> echo_safe tp s1 \<Longrightarrow> \<exists>s'. f s1 = Done s' \<and> P s'"
  shows "\<exists>s'. andthen (echo tp c s) f = Done s' \<and> P s'"
  using echo_input [OF assms(1), of c] assms(2) by auto

text \<open>A character that is neither a signal nor flow control.\<close>

definition ordinary :: "tty_struct \<Rightarrow> 8 word \<Rightarrow> bool" where
  "ordinary t c \<longleftrightarrow> tty_inhibited t \<noteq> STOPPED \<and> c \<noteq> tty_intr t \<and> c \<noteq> tty_quit t \<and> c \<noteq> tty_xoff t"

lemma special_pass: "ordinary (ttys s tp) (to_lf (ttys s tp) c) \<Longrightarrow> special_char tp c s = Done (Some (to_lf (ttys s tp) c), s)"
  by (auto simp: special_char_def ordinary_def to_lf_def Let_def)

lemma store_char_input:
  assumes "ring_ok (ttys s tp)" and "tty_incount (ttys s tp) < int TTY_IN_BYTES" and "echo_safe tp s"
  shows "\<exists>s'. store_char tp c s = Done s' \<and> input_part (ttys s' tp) =
    (typed (ttys s tp) @ [c], True, tty_escaped (ttys s tp), tty_lfct (ttys s tp) + (if c = c_LF then 1 else 0))"
proof -
  define t where "t = (if c = c_LF then (ttys s tp)\<lparr>tty_lfct := tty_lfct (ttys s tp) + 1\<rparr> else ttys s tp)"
  have t: "ring_ok t" "typed t = typed (ttys s tp)" "tty_incount t < int TTY_IN_BYTES"
    using assms(1,2) by (simp_all add: t_def ring_ok_def typed_def slot_def)
  define s1 where "s1 = upd_tty tp (\<lambda>_. in_put c t) s"
  have "store_char tp c s = echo tp c s1" by (simp add: store_char_def s1_def t_def upd_tty_def)
  moreover have "echo_safe tp s1" using assms(3) by (rule echo_safe_cong [rotated 2]) (simp_all add: s1_def t_def in_put_def)
  moreover have "input_part (ttys s1 tp) = (typed t @ [c], True, tty_escaped t, tty_lfct t)"
    using in_put_ring [OF t(1,3)] by (simp add: s1_def input_part_def) (simp add: in_put_def)
  ultimately show ?thesis using echo_input [of tp s1 c] t(2) by (auto simp: t_def)
qed

text \<open>What follows the cooked-mode switch.\<close>

definition pass_on :: "int \<Rightarrow> 8 word option \<times> tstate \<Rightarrow> tstate run" where
  "pass_on tp = (\<lambda>(next, s). case next of None \<Rightarrow> Done s
     | Some ch \<Rightarrow> andthen (special_char tp ch s) (\<lambda>(next, s). case next of None \<Rightarrow> Done s | Some ch \<Rightarrow> store_char tp ch s))"

lemma in_char_cooked:
  assumes "in_mode (ttys s tp) = 0" and "0 \<le> tp" and "tty_incount (ttys s tp) < int TTY_IN_BYTES"
  shows "in_char tp ch s = andthen (cooked_char tp (ch AND 0x7F) s) (pass_on tp)"
  using assms by (simp add: in_char_def Let_def pass_on_def cong: option.case_cong)

lemma pass_on_None [simp]: "pass_on tp (None, s) = Done s"
  by (simp add: pass_on_def)

lemma pass_on_stores:
  assumes "ring_ok (ttys s tp)" and "tty_incount (ttys s tp) < int TTY_IN_BYTES" and "echo_safe tp s"
    and "ordinary (ttys s tp) (to_lf (ttys s tp) c)"
  shows "\<exists>s'. pass_on tp (Some c, s) = Done s' \<and> input_part (ttys s' tp) =
    (typed (ttys s tp) @ [to_lf (ttys s tp) c], True, tty_escaped (ttys s tp),
     tty_lfct (ttys s tp) + (if to_lf (ttys s tp) c = c_LF then 1 else 0))"
  using store_char_input [OF assms(1-3)] by (simp add: pass_on_def special_pass [OF assms(4)])

text \<open>The three requests to edit.\<close>

lemma erase_typed:
  assumes "ring_ok (ttys s tp)" and "echo_safe tp s" and "c = tty_erase (ttys s tp)" and "\<not> tty_escaped (ttys s tp)"
  shows "\<exists>s'. andthen (cooked_char tp c s) (pass_on tp) = Done s' \<and>
    input_part (ttys s' tp) = (drop_last (typed (ttys s tp)), True, False, tty_lfct (ttys s tp))"
proof -
  obtain r s1 where ch: "chuck tp s = (r, s1)" by fastforce
  note c1 = chuck_typed [OF assms(1) ch]
  note f = off_ring_fields [OF c1(4)]
  have p: "input_part (ttys s1 tp) = (drop_last (typed (ttys s tp)), True, False, tty_lfct (ttys s tp))"
    using c1(1,2) f assms(4) by (simp add: input_part_def)
  have safe: "echo_safe tp s1" by (rule echo_safe_cong [OF f(1,2) assms(2)])
  have cc: "cooked_char tp c s = (if r \<noteq> -1 then
      andthen (echo tp c_BS s1) (\<lambda>s. andthen (echo tp c_SP s) (\<lambda>s. andthen (echo tp c_BS s) (\<lambda>s. Done (None, s))))
      else Done (None, s1))"
    using assms(3,4) ch by (simp add: cooked_char_def)
  show ?thesis
  proof (cases "r = -1")
    case True then show ?thesis using cc p by simp
  next
    case False
    obtain s2 where s2: "echo tp c_BS s1 = Done s2" "input_part (ttys s2 tp) = input_part (ttys s1 tp)" "echo_safe tp s2"
      using echo_input [OF safe] by blast
    obtain s3 where s3: "echo tp c_SP s2 = Done s3" "input_part (ttys s3 tp) = input_part (ttys s2 tp)" "echo_safe tp s3"
      using echo_input [OF s2(3)] by blast
    obtain s4 where s4: "echo tp c_BS s3 = Done s4" "input_part (ttys s4 tp) = input_part (ttys s3 tp)"
      using echo_input [OF s3(3)] by blast
    show ?thesis using False cc s2 s3 s4 p by simp
  qed
qed

lemma kill_typed:
  assumes "ring_ok (ttys s tp)" and "echo_safe tp s" and "c = tty_kill (ttys s tp)" and "c \<noteq> tty_erase (ttys s tp)"
    and "\<not> tty_escaped (ttys s tp)"
  shows "\<exists>s'. andthen (cooked_char tp c s) (pass_on tp) = Done s' \<and>
    input_part (ttys s' tp) = (drop_line (typed (ttys s tp)), True, False, tty_lfct (ttys s tp))"
proof -
  define s1 where "s1 = kill_loop (nat (tty_incount (ttys s tp)) + 1) tp s"
  have k: "typed (ttys s1 tp) = drop_line (typed (ttys s tp))" "ring_ok (ttys s1 tp)" "off_ring (ttys s1 tp) = off_ring (ttys s tp)"
    using kill_loop_typed [OF assms(1), of "nat (tty_incount (ttys s tp)) + 1"] by (simp_all add: s1_def)
  note f = off_ring_fields [OF k(3)]
  have p: "input_part (ttys s1 tp) = (drop_line (typed (ttys s tp)), True, False, tty_lfct (ttys s tp))"
    using k(1,2) f assms(5) by (simp add: input_part_def)
  have safe: "echo_safe tp s1" by (rule echo_safe_cong [OF f(1,2) assms(2)])
  have cc: "cooked_char tp c s = andthen (echo tp c s1) (\<lambda>s. andthen (echo tp c_LF s) (\<lambda>s. Done (None, s)))"
    using assms(3-5) by (simp add: cooked_char_def Let_def s1_def)
  obtain s2 where s2: "echo tp c s1 = Done s2" "input_part (ttys s2 tp) = input_part (ttys s1 tp)" "echo_safe tp s2"
    using echo_input [OF safe] by blast
  obtain s3 where s3: "echo tp c_LF s2 = Done s3" "input_part (ttys s3 tp) = input_part (ttys s2 tp)"
    using echo_input [OF s2(3)] by blast
  show ?thesis using cc s2 s3 p by simp
qed

lemma escape_typed:
  assumes "ring_ok (ttys s tp)" and "echo_safe tp s" and "\<not> tty_escaped (ttys s tp)"
    and "c_BACKSLASH \<noteq> tty_erase (ttys s tp)" and "c_BACKSLASH \<noteq> tty_kill (ttys s tp)"
  shows "\<exists>s'. andthen (cooked_char tp c_BACKSLASH s) (pass_on tp) = Done s' \<and>
    input_part (ttys s' tp) = (typed (ttys s tp), True, True, tty_lfct (ttys s tp))"
proof -
  define s1 where "s1 = upd_tty tp (tty_escaped_update (\<lambda>_. True)) s"
  have p: "input_part (ttys s1 tp) = (typed (ttys s tp), True, True, tty_lfct (ttys s tp))"
    using assms(1) by (simp add: s1_def input_part_def typed_def slot_def ring_ok_def)
  have safe: "echo_safe tp s1" by (rule echo_safe_cong [OF _ _ assms(2)]) (simp_all add: s1_def)
  have "cooked_char tp c_BACKSLASH s = andthen (echo tp c_BACKSLASH s1) (\<lambda>s. Done (None, s))"
    using assms(3-5) by (simp add: cooked_char_def Let_def s1_def)
  then show ?thesis using echo_input [OF safe, of c_BACKSLASH] p by auto
qed

text \<open>The two that store: a character, or the one that was escaped.\<close>

lemma plain_typed:
  assumes "ring_ok (ttys s tp)" and "echo_safe tp s" and "\<not> tty_escaped (ttys s tp)" and "tty_incount (ttys s tp) < int TTY_IN_BYTES"
    and "c \<noteq> tty_erase (ttys s tp)" and "c \<noteq> tty_kill (ttys s tp)" and "c \<noteq> c_BACKSLASH"
    and "x = (if c = tty_eof (ttys s tp) then MARKER else to_lf (ttys s tp) c)" and "ordinary (ttys s tp) x"
  shows "\<exists>s'. andthen (cooked_char tp c s) (pass_on tp) = Done s' \<and>
    input_part (ttys s' tp) = (typed (ttys s tp) @ [x], True, False,
      tty_lfct (ttys s tp) + (if c = tty_eof (ttys s tp) \<or> x = c_LF then 1 else 0))"
proof (cases "c = tty_eof (ttys s tp)")
  case True
  define s1 where "s1 = upd_tty tp (tty_lfct_update (\<lambda>n. n + 1)) s"
  have t: "typed (ttys s1 tp) = typed (ttys s tp)" "ring_ok (ttys s1 tp)" "tty_incount (ttys s1 tp) < int TTY_IN_BYTES"
      "to_lf (ttys s1 tp) MARKER = MARKER" "ordinary (ttys s1 tp) MARKER" "x = MARKER"
    using assms True by (simp_all add: s1_def typed_def slot_def ring_ok_def to_lf_def ordinary_def)
  have safe: "echo_safe tp s1" by (rule echo_safe_cong [OF _ _ assms(2)]) (simp_all add: s1_def)
  have "cooked_char tp c s = Done (Some MARKER, s1)"
    using assms(3,5-7) True by (simp add: cooked_char_def Let_def s1_def)
  then show ?thesis using pass_on_stores [OF t(2,3) safe, of MARKER] t assms(3) True by (auto simp: s1_def)
next
  case False
  have "cooked_char tp c s = Done (Some c, s)" using assms(3,5-7) False by (simp add: cooked_char_def Let_def)
  then show ?thesis using pass_on_stores [OF assms(1,4,2), of c] assms(3,8,9) False by simp
qed

lemma escaped_typed:
  assumes "ring_ok (ttys s tp)" and "echo_safe tp s" and "tty_escaped (ttys s tp)" and "tty_incount (ttys s tp) \<le> 998"
    and "ordinary (ttys s tp) (to_lf (ttys s tp) c)"
    and "esc = (if c = tty_erase (ttys s tp) \<or> c = tty_kill (ttys s tp) \<or> c = tty_eof (ttys s tp) then [] else [c_BACKSLASH])"
  shows "\<exists>s'. andthen (cooked_char tp c s) (pass_on tp) = Done s' \<and>
    input_part (ttys s' tp) = (typed (ttys s tp) @ esc @ [to_lf (ttys s tp) c], True, False,
      tty_lfct (ttys s tp) + (if to_lf (ttys s tp) c = c_LF then 1 else 0))"
proof -
  define t where "t = (ttys s tp)\<lparr>tty_escaped := False\<rparr>"
  have t: "ring_ok t" "typed t = typed (ttys s tp)" "tty_incount t < int TTY_IN_BYTES"
    using assms(1,4) by (simp_all add: t_def ring_ok_def typed_def slot_def)
  define s1 where "s1 = (if esc = [] then upd_tty tp (tty_escaped_update (\<lambda>_. False)) s
      else upd_tty tp (in_put c_BACKSLASH) (upd_tty tp (tty_escaped_update (\<lambda>_. False)) s))"
  have t1: "ttys s1 tp = (if esc = [] then t else in_put c_BACKSLASH t)" by (simp add: s1_def t_def)
  have e: "esc = [] \<or> esc = [c_BACKSLASH]" using assms(6) by auto
  have r: "ring_ok (ttys s1 tp)" "typed (ttys s1 tp) = typed (ttys s tp) @ esc" "tty_incount (ttys s1 tp) < int TTY_IN_BYTES"
    using in_put_ring [OF t(1,3), of c_BACKSLASH] t e assms(4) unfolding t1 by (auto simp: in_put_def t_def)
  have f: "tty_escaped (ttys s1 tp) = False" "tty_lfct (ttys s1 tp) = tty_lfct (ttys s tp)"
      "to_lf (ttys s1 tp) c = to_lf (ttys s tp) c" "ordinary (ttys s1 tp) x = ordinary (ttys s tp) x"
      "tty_rwords (ttys s1 tp) = tty_rwords (ttys s tp)" "tty_mode (ttys s1 tp) = tty_mode (ttys s tp)" for x
    by (simp_all add: t1 t_def in_put_def to_lf_def ordinary_def)
  have safe: "echo_safe tp s1" by (rule echo_safe_cong [OF f(5,6) assms(2)])
  have "cooked_char tp c s = Done (Some c, s1)"
    using assms(3,6) by (auto simp: cooked_char_def Let_def s1_def)
  then show ?thesis using pass_on_stores [OF r(1,3) safe, of c] r(2) f assms(5) by simp
qed

lemma low_ascii: "(ch :: 8 word) AND 0x7F \<noteq> MARKER"
proof
  assume "ch AND 0x7F = MARKER"
  then have "bit (ch AND 0x7F) 7 = bit MARKER 7" by simp
  then show False by (simp add: bit_simps)
qed


text \<open>A \<open>@\<close>, the kill character, is typed after \<open>ab\<close>, a line feed, \<open>cd\<close> on the serial line, which does not echo.\<close>

definition edit_demo :: tstate where
  "edit_demo = upd_tty 1 (\<lambda>t. t\<lparr>tty_inqueue := (\<lambda>k. if k < 5 then [97, 98, 10, 99, 100] ! k else 0), tty_inhead := 5,
     tty_incount := 5, tty_lfct := 1, tty_erase := 8, tty_kill := 64, tty_intr := 127, tty_quit := 28, tty_xoff := 19, tty_eof := 4,
     tty_mode := CRMOD\<rparr>) (blank_term blank)"


end
