(* ===== verification/Tty_Keyboard.thy ===== *)
theory Tty_Keyboard
  imports Tty_Ring
begin

section \<open>Terminals: the keyboard\<close>

text \<open>
  kernel/stkbd.c with \<open>KEYBOARD\<close> set to \<open>VT100\<close>.  The keyboard gives codes, several at one interrupt, and the driver
  makes characters of them and puts these, with their line, in the buffer that \<open>charint\<close> empties.
  The tables of keymap.h are data, fields of the state.  A character is an \<open>int\<close>, as in the code, and loses its
  high bits when it is stored.  \<open>kbdinit\<close> only sets registers of the keyboard chip and is left out; a restart of the
  machine by Control-Alternate-Delete is the outcome \<open>Panics\<close>.  Code 0, which no key has, would end the search of
  \<open>national\<close> at the end of its table.
\<close>

unbundle bit_operations_syntax

subsection \<open>Tables\<close>

definition f_keys :: "nat list" where
  "f_keys = replicate 0x3B 0 @ [1, 2, 3, 4, 5, 6, 7, 8, 9, 10, 0, 0, 17, 16, 0, 26, 13, 0, 15, 30, 0, 14, 0, 18, 0,
     1, 2, 3, 4, 5, 6, 7, 8, 9, 10, 0, 0, 0, 11, 12, 19, 20, 21, 22, 23, 24, 25, 27, 28, 29, 31, 32, 33, 34, 35, 36] @ replicate 13 0"

text \<open>Entry \<open>f\<close> of \<open>ftbl\<close>: what the key gives alone and with Shift.\<close>

definition ftbl :: "(int \<times> int) list" where
  "ftbl = [(1, 21), (2, 23), (3, 24), (4, 25), (5, 26), (6, 31), (17, 32), (18, 33), (19, 34), (20, 35), (36, 37), (28, 29),
     (68, 0), (66, 0), (67, 0), (65, 0), (72, 74), (73, 0),
     (80, 0), (81, 0), (82, 0), (83, 0), (119, 0), (120, 0), (121, 0), (109, 0), (116, 0), (117, 0), (118, 0), (108, 0),
     (113, 0), (114, 0), (115, 0), (112, 0), (110, 0), (77, 0)]"

text \<open>The keys that Alternate changes on a German, a French and a Spanish keyboard; the tables are signed characters.\<close>

definition germany :: "(nat \<times> int \<times> int) list" where
  "germany = [(0x1A, 64, 92), (0x27, 91, 123), (0x28, 93, 125)]"

definition france :: "(nat \<times> int \<times> int) list" where
  "france = [(0x1A, 91, 123), (0x1B, 93, 125), (0x28, 92, 0), (0x2B, 64, 126)]"

definition spain :: "(nat \<times> int \<times> int) list" where
  "spain = [(0x1A, 91, 123), (0x1B, 93, 125), (0x28, -127, -102), (0x2B, 35, 64)]"

definition national :: "nat \<Rightarrow> int \<Rightarrow> tstate \<Rightarrow> int" where
  "national code c s =
     (let p = (if keynorm s 0x1A = 0x81 then germany else if keynorm s 0x1A = 94 then france
               else if keynorm s 0x1A = 39 then spain else [])
      in case map_of p code of None \<Rightarrow> c
         | Some (lower, upper) \<Rightarrow>
             let x = (if shift1 s \<or> shift2 s then upper else lower) in if x = 0 then c else x)"

subsection \<open>Characters to the terminal task\<close>

definition kbdput :: "int \<Rightarrow> int \<Rightarrow> tstate \<Rightarrow> tstate" where
  "kbdput c line s = (if drv_count s \<ge> drv_max s then s else drv_store (word_of_int c) line s)"

definition kbdkeypad :: "int \<Rightarrow> tstate \<Rightarrow> tstate" where
  "kbdkeypad c s = kbdput c CONSOLE (kbdput 79 CONSOLE (kbdput 27 CONSOLE s))"

definition kbdarrow :: "int \<Rightarrow> tstate \<Rightarrow> tstate" where
  "kbdarrow c s = kbdput c CONSOLE (kbdput 91 CONSOLE (kbdput 27 CONSOLE s))"

definition kbdpf :: "int \<Rightarrow> tstate \<Rightarrow> tstate" where
  "kbdpf c s =
     (let s = kbdput 91 CONSOLE (kbdput 27 CONSOLE s);
          s = (if c div 10 > 0 then kbdput (c div 10 + 48) CONSOLE s else s)
      in kbdput 126 CONSOLE (kbdput (c mod 10 + 48) CONSOLE s))"

subsection \<open>A key goes down\<close>

definition key_char :: "nat \<Rightarrow> tstate \<Rightarrow> int" where
  "key_char code s =
     uint ((if shift1 s \<or> shift2 s then keyshft s else if capslock s then keycaps s else keynorm s) code)"

text \<open>A key that is not a function key.\<close>

definition plain_key :: "nat \<Rightarrow> int \<Rightarrow> tstate \<Rightarrow> tstate run" where
  "plain_key code c s =
     (let c = (if alt s then national code (c OR 0x80) s else c) in
      if control s \<and> c = 0xFF then Panics ''reboot''
      else
        let c = (if control s then c AND 0x1F else c); t = ttys s CONSOLE in
        if in_mode t = 0 \<and> sint (tty_xoff t) = c
        then Done (upd_tty CONSOLE (tty_inhibited_update (\<lambda>_. STOPPED)) s)
        else Done (kbdput c CONSOLE s))"

text \<open>Function key number \<open>f\<close>, from 0.\<close>

definition function_key :: "nat \<Rightarrow> int \<Rightarrow> tstate \<Rightarrow> tstate" where
  "function_key f c s =
     (let fc = (if shift1 s \<or> shift2 s then snd (ftbl ! f) else fst (ftbl ! f)) in
      if fc = 0 then s
      else if f < 12 then kbdpf fc s
      else if f < 18 then (if app_mode s then kbdkeypad fc s else kbdarrow fc s)
      else if keypad s then kbdkeypad fc s
      else kbdput c CONSOLE s)"

definition kbdkey :: "nat \<Rightarrow> tstate \<Rightarrow> tstate run" where
  "kbdkey code s =
     (let f = f_keys ! code; c = key_char code s in
      if f = 0 then plain_key code c s
      else if control s \<and> alt s \<and> 0x3B \<le> code \<and> code \<le> 0x44 then Done (kbdput (int code - 0x3B + 1) OPERATOR s)
      else Done (function_key (f - 1) c s))"

subsection \<open>Interrupts\<close>

text \<open>One code: the shift-like keys are remembered, a release ends the repeating of the last key.\<close>

definition kbd_code :: "8 word \<Rightarrow> tstate \<Rightarrow> tstate run" where
  "kbd_code b s =
     (let make = (b AND 0x80 = 0); code = unat (b AND 0x7F) in
      if code = 0x2A then Done (s\<lparr>shift1 := make\<rparr>)
      else if code = 0x36 then Done (s\<lparr>shift2 := make\<rparr>)
      else if code = 0x1D then Done (s\<lparr>control := make\<rparr>)
      else if code = 0x38 then Done (s\<lparr>alt := make\<rparr>)
      else if code = 0x3A then Done (if make then s\<lparr>capslock := \<not> capslock s\<rparr> else s)
      else if \<not> make then Done (s\<lparr>repeattic := 0\<rparr>)
      else kbdkey code (s\<lparr>repeatkey := code, repeattic := 24\<rparr>))"

primrec kbd_codes :: "8 word list \<Rightarrow> tstate \<Rightarrow> tstate run" where
  "kbd_codes [] s = Done s"
| "kbd_codes (b # bs) s = andthen (kbd_code b s) (kbd_codes bs)"

text \<open>The task is told at once when there is much, otherwise by the clock.\<close>

definition tell_task :: "tstate \<Rightarrow> tstate run" where
  "tell_task s = (if drv_count s < THRESHOLD then Done (s\<lparr>flush_flag := flush_flag s + 1\<rparr>) else rs_flush s)"

definition kbdint :: "8 word list \<Rightarrow> tstate \<Rightarrow> tstate run" where
  "kbdint bs s = andthen (kbd_codes bs s) tell_task"

definition kb_timer :: "tstate \<Rightarrow> tstate run" where
  "kb_timer s =
     (if repeattic s = 0 then Done s
      else
        let s = s\<lparr>repeattic := repeattic s - 1\<rparr> in
        if repeattic s \<noteq> 0 then Done s
        else
          andthen (kbdkey (repeatkey s) s) (\<lambda>s1.
          andthen (if drv_count s1 \<noteq> drv_count s then tell_task s1 else Done s1) (\<lambda>s.
          Done (s\<lparr>repeattic := 4\<rparr>))))"

end
