(* ===== verification/Tty_Safe.thy ===== *)
theory Tty_Safe
  imports Tty_Keyboard
begin

section \<open>Terminals: everything that can happen keeps the tables well formed\<close>

text \<open>
  The events of the terminal task and its drivers as a step relation: a message to the task, the interrupts of the
  serial chip and of the keyboard, the repeating of a key and the flush by the clock.  Whatever the
  order in which they come, the indices into the input queues stay inside them and the buffer of the drivers is never overrun.
\<close>

unbundle bit_operations_syntax

subsection \<open>What the screen leaves alone\<close>

definition kept :: "tstate \<Rightarrow> (int \<Rightarrow> tty_struct) \<times> int \<times> int" where
  "kept s = (\<lambda>i. (ttys s i)\<lparr>tty_devstart := No_start, tty_column := 0\<rparr>, drv_count s, drv_max s)"

lemma kept_simps [simp]:
  "kept (upd_ram g s) = kept s" "kept (upd_vdu h s) = kept s" "kept (upd_rs i r s) = kept s"
  "kept (s\<lparr>video := v\<rparr>) = kept s" "kept (s\<lparr>keypad := b\<rparr>) = kept s" "kept (s\<lparr>app_mode := b\<rparr>) = kept s"
  "kept (s\<lparr>lastchar := c, wire := w\<rparr>) = kept s" "kept (s\<lparr>kern := k\<rparr>) = kept s" "kept (upd_kproc rp p s) = kept s"
  "kept (tty_reply a1 a2 a3 a4 a5 a6 s) = kept s"
  "kept (upd_tty tp (tty_devstart_update d) s) = kept s" "kept (upd_tty tp (tty_column_update cc) s) = kept s"
  by (auto simp: kept_def fun_eq_iff upd_kproc_def tty_reply_def)

lemma kept_fold: "(\<And>x s. kept (f x s) = kept s) \<Longrightarrow> kept (fold f xs s) = kept s"
  by (induction xs arbitrary: s) auto

lemma kept_screen [simp]:
  "kept (cpyline r1 r2 s) = kept s" "kept (clrline r s) = kept s" "kept (clrchar r c s) = kept s"
  "kept (cpychar r1 c1 r2 c2 s) = kept s" "kept (moveto r c s) = kept s" "kept (paint ch s) = kept s"
  "kept (vducursor s) = kept s" "kept (set_rgb k w s) = kept s" "kept (carriage_return s) = kept s"
  by (simp_all add: cpyline_def clrline_def clrchar_def cpychar_def moveto_def paint_def vducursor_def set_rgb_def
      carriage_return_def Let_def)

lemma kept_clrarea [simp]: "kept (clrarea r1 c1 r2 c2 s) = kept s"
  by (simp add: clrarea_def Let_def kept_fold split: prod.split)

lemma kept_lines [simp]:
  "kept (line_down s) = kept s" "kept (newline s) = kept s" "kept (insert_lines i s) = kept s" "kept (delete_lines i s) = kept s"
  "kept (insert_chars i s) = kept s" "kept (delete_chars i s) = kept s" "kept (reverse_index s) = kept s"
  by (simp_all add: line_down_def newline_def insert_lines_def delete_lines_def insert_chars_def delete_chars_def
      reverse_index_def kept_fold Let_def)

lemma kept_vduinit [simp]: "kept (vduinit s) = kept s"
  by (simp add: vduinit_def Let_def)

lemma kept_rendition [simp]: "kept (rendition j s) = kept s"
  by (simp add: rendition_def)

lemma kept_renditions [simp]: "kept (renditions n j p s) = kept s"
  by (induction n arbitrary: j p s) (auto simp: Let_def split: prod.split)

lemma kept_sequences [simp]:
  "kept (minix_sequence j p s) = kept s" "kept (erase_display j s) = kept s" "kept (erase_line j s) = kept s"
  "kept (set_mode r p s) = kept s" "kept (restore_cursor s) = kept s"
  by (simp_all add: minix_sequence_def erase_display_def erase_line_def set_mode_def restore_cursor_def set_lines_def Let_def
      split: prod.split)

lemma kept_ansi [simp]: "kept (ansi_command c j p s) = kept s"
  by (simp add: ansi_command_def Let_def)

lemma kept_vdu [simp]: "kept (vduansi c n s) = kept s" "kept (vduesc c n s) = kept s"
  by (simp_all add: vduansi_def vduesc_def Let_def split: prod.split) 

lemma kept_out_print [simp]: "kept (out_print c s) = kept s"
  by (simp add: out_print_def Let_def split: option.split)

lemma kept_tab_loop: "tab_loop n s = Done s' \<Longrightarrow> kept s' = kept s"
  by (induction n arbitrary: s) (auto simp: Let_def split: if_split_asm)

lemma kept_out_char: "out_char c s = Done s' \<Longrightarrow> kept s' = kept s"
  by (auto simp: out_char_def vductrl_def dest: kept_tab_loop split: if_split_asm)

subsection \<open>Well-formed lines\<close>

definition ring_in :: "tty_struct \<Rightarrow> bool" where
  "ring_in t \<longleftrightarrow> tty_inhead t < TTY_IN_BYTES \<and> tty_intail t < TTY_IN_BYTES"

definition lines_ok :: "tstate \<Rightarrow> bool" where
  "lines_ok s \<longleftrightarrow> ring_in (ttys s CONSOLE) \<and> ring_in (ttys s SERIAL1) \<and> 0 \<le> drv_count s \<and> drv_count s \<le> int MAX_OVERRUN \<and>
     drv_max s = int MAX_OVERRUN"

lemma lines_ok_kept: "kept s' = kept s \<Longrightarrow> lines_ok s \<Longrightarrow> lines_ok s'"
proof -
  assume k: "kept s' = kept s" and ok: "lines_ok s"
  have "(ttys s' i)\<lparr>tty_devstart := No_start, tty_column := 0\<rparr> = (ttys s i)\<lparr>tty_devstart := No_start, tty_column := 0\<rparr>" for i
    using k by (simp add: kept_def fun_eq_iff)
  from arg_cong [OF this, of tty_inhead] arg_cong [OF this, of tty_intail]
  have "tty_inhead (ttys s' i) = tty_inhead (ttys s i)" "tty_intail (ttys s' i) = tty_intail (ttys s i)" for i by simp_all
  then show "lines_ok s'" using k ok by (simp add: lines_ok_def ring_in_def kept_def)
qed

lemma lines_ok_upd: "lines_ok s \<Longrightarrow> (ring_in (ttys s tp) \<Longrightarrow> ring_in (f (ttys s tp))) \<Longrightarrow> lines_ok (upd_tty tp f s)"
  by (auto simp: lines_ok_def)

lemma lines_ok_upd_all [simp]: "lines_ok s \<Longrightarrow> (\<And>t. ring_in t \<Longrightarrow> ring_in (f t)) \<Longrightarrow> lines_ok (upd_tty tp f s)"
  by (rule lines_ok_upd)

lemma lines_ok_screen [simp]:
  "lines_ok s \<Longrightarrow> lines_ok (upd_ram g s)" "lines_ok s \<Longrightarrow> lines_ok (upd_rs i r s)" "lines_ok s \<Longrightarrow> lines_ok (vducursor s)"
  "lines_ok s \<Longrightarrow> lines_ok (upd_kproc rp p s)" "lines_ok s \<Longrightarrow> lines_ok (tty_reply a1 a2 a3 a4 a5 a6 s)"
  "lines_ok s \<Longrightarrow> lines_ok (vduinit s)" "lines_ok s \<Longrightarrow> lines_ok (s\<lparr>kern := k\<rparr>)"
  by (auto elim: lines_ok_kept [rotated])

lemma lines_ok_fields [simp]:
  "lines_ok (s\<lparr>output_done := n\<rparr>) = lines_ok s" "lines_ok (s\<lparr>flush_flag := n\<rparr>) = lines_ok s"
  "lines_ok (s\<lparr>lastchar := c\<rparr>) = lines_ok s" "lines_ok (s\<lparr>wire := w\<rparr>) = lines_ok s" "lines_ok (s\<lparr>st_do_dump := b\<rparr>) = lines_ok s"
  "lines_ok (s\<lparr>st_use_con := b\<rparr>) = lines_ok s" "lines_ok (s\<lparr>st_use_prt := b\<rparr>) = lines_ok s"
  "lines_ok (s\<lparr>mf_ucr := m\<rparr>) = lines_ok s" "lines_ok (s\<lparr>mf_tddr := m\<rparr>) = lines_ok s"
  "lines_ok (s\<lparr>shift1 := b\<rparr>) = lines_ok s" "lines_ok (s\<lparr>shift2 := b\<rparr>) = lines_ok s" "lines_ok (s\<lparr>control := b\<rparr>) = lines_ok s"
  "lines_ok (s\<lparr>alt := b\<rparr>) = lines_ok s" "lines_ok (s\<lparr>capslock := b\<rparr>) = lines_ok s" "lines_ok (s\<lparr>repeattic := n\<rparr>) = lines_ok s"
  "lines_ok (s\<lparr>repeatkey := k\<rparr>) = lines_ok s"
  by (simp_all add: lines_ok_def)

text \<open>Changes of a line that do not touch its ring.\<close>

lemma ring_in_simps [simp]:
  "ring_in (tty_inhibited_update f1 t) = ring_in t" "ring_in (tty_waiting_update f1 t) = ring_in t" "ring_in (tty_lfct_update f1 t) = ring_in t"
  "ring_in (tty_escaped_update f2 t) = ring_in t" "ring_in (tty_speed_update f3 t) = ring_in t" "ring_in (tty_phys_update f4 t) = ring_in t"
  "ring_in (tty_pgrp_update f1 t) = ring_in t" "ring_in (tty_inleft_update f1 t) = ring_in t" "ring_in (tty_outleft_update f1 t) = ring_in t"
  "ring_in (tty_column_update f1 t) = ring_in t" "ring_in (tty_rwords_update f1 t) = ring_in t" "ring_in (tty_cum_update f1 t) = ring_in t"
  "ring_in (tty_incount_update f1 t) = ring_in t" "ring_in (tty_mode_update f3 t) = ring_in t"
  "ring_in (tty_devstart_update d t) = ring_in t" "ring_in (tty_erase_update c t) = ring_in t" "ring_in (tty_kill_update c t) = ring_in t"
  "ring_in (tty_intr_update c t) = ring_in t" "ring_in (tty_quit_update c t) = ring_in t" "ring_in (tty_xon_update c t) = ring_in t"
  "ring_in (tty_xoff_update c t) = ring_in t" "ring_in (tty_eof_update c t) = ring_in t"
  "ring_in (tty_incaller_update f1 t) = ring_in t" "ring_in (tty_inproc_update f1 t) = ring_in t" "ring_in (tty_in_vir_update f4 t) = ring_in t"
  "ring_in (tty_otcaller_update f1 t) = ring_in t" "ring_in (tty_outproc_update f1 t) = ring_in t" "ring_in (tty_out_vir_update f4 t) = ring_in t"
  by (simp_all add: ring_in_def)

lemma ring_in_ring [simp]: "ring_in (in_flush t)" "ring_in t \<Longrightarrow> ring_in (in_put c t)" "ring_in (default_chars t)"
  by (auto simp: ring_in_def in_flush_def in_put_def default_chars_def ring_next_def)

lemma ring_prev_less: "p < TTY_IN_BYTES \<Longrightarrow> ring_prev p < TTY_IN_BYTES"
  by (auto simp: ring_prev_def)

subsection \<open>Output\<close>

lemma out_char_lines: "out_char c s = Done s' \<Longrightarrow> lines_ok s \<Longrightarrow> lines_ok s'"
  by (metis kept_out_char lines_ok_kept)

lemma finish_lines: "finish tp code s = Done s' \<Longrightarrow> lines_ok s \<Longrightarrow> lines_ok s'"
  by (auto simp: finish_def Let_def outcome_simps split: if_split_asm)

lemma kernel_call_lines: "kernel_call f s = Done s' \<Longrightarrow> lines_ok s \<Longrightarrow> lines_ok s'"
  by (auto simp: kernel_call_def outcome_simps)

lemma flush_loop_lines: "flush_loop n tp rq s = Done s' \<Longrightarrow> lines_ok s \<Longrightarrow> lines_ok s'"
proof (induction n arbitrary: rq s)
  case (Suc n)
  then show ?case
    by (auto simp: Let_def outcome_simps split: if_split_asm dest!: out_char_lines)
qed simp

lemma flush_lines: "flush tp s = Done s' \<Longrightarrow> lines_ok s \<Longrightarrow> lines_ok s'"
  by (auto simp: flush_def outcome_simps split: if_split_asm dest!: flush_loop_lines)

lemma console_loop_lines: "console_loop n tp p c s = Done (k, s') \<Longrightarrow> lines_ok s \<Longrightarrow> lines_ok s'"
proof (induction n arbitrary: p c s)
  case (Suc n)
  then show ?case
    by (auto simp: Let_def outcome_simps split: if_split_asm dest!: out_char_lines)
qed simp

lemma console_lines: "console tp s = Done s' \<Longrightarrow> lines_ok s \<Longrightarrow> lines_ok s'"
  by (auto simp: console_def Let_def outcome_simps split: if_split_asm prod.split_asm
      dest!: console_loop_lines flush_lines finish_lines)

lemma serial_simps [simp]:
  "lines_ok s \<Longrightarrow> lines_ok (rs_feed i s)" "lines_ok s \<Longrightarrow> lines_ok (set_column tp c s)"
  by (simp_all add: rs_feed_def siaout_def set_column_def)

lemma rs_expand_lines [simp]: "lines_ok s \<Longrightarrow> lines_ok (rs_expand tp c s)"
  by (simp add: rs_expand_def Let_def)

lemma serial_loop_lines [simp]: "lines_ok s \<Longrightarrow> lines_ok (snd (serial_loop n tp p b s))"
  by (induction n arbitrary: p b s) (simp_all add: Let_def)

lemma rs_start_lines [simp]: "lines_ok s \<Longrightarrow> lines_ok (rs_start i s)"
  by (simp add: rs_start_def)

lemma serial_out_lines [simp]:
  assumes "lines_ok s" shows "lines_ok (serial_out tp s)"
proof -
  obtain bytes s1 where l: "serial_loop (nat (tty_outleft (ttys s tp))) tp (tty_phys (ttys s tp)) 0 s = (bytes, s1)" by fastforce
  then have "lines_ok s1" using serial_loop_lines [OF assms] by (metis snd_conv)
  then show ?thesis using assms by (simp add: serial_out_def Let_def l)
qed

lemma rs_out_char_lines [simp]: "lines_ok s \<Longrightarrow> lines_ok (rs_out_char tp c s)"
  by (simp add: rs_out_char_def Let_def)

lemma dev_start_lines: "dev_start tp s = Done s' \<Longrightarrow> lines_ok s \<Longrightarrow> lines_ok s'"
  by (auto simp: dev_start_def start_rs232_def split: devstart.split_asm dest: console_lines)

subsection \<open>Interrupts\<close>

lemma rs_flush_lines: "rs_flush s = Done s' \<Longrightarrow> lines_ok s \<Longrightarrow> lines_ok s'"
  by (auto simp: rs_flush_def Let_def split: if_split_asm dest!: kernel_call_lines)

lemma drv_store_lines [simp]: "lines_ok s \<Longrightarrow> drv_count s < drv_max s \<Longrightarrow> lines_ok (drv_store c line s)"
  by (simp add: drv_store_def lines_ok_def Let_def)

lemma rs_read_int_lines: "rs_read_int line v s = Done s' \<Longrightarrow> lines_ok s \<Longrightarrow> lines_ok s'"
  by (auto simp: rs_read_int_def Let_def split: if_split_asm dest!: rs_flush_lines)

lemma rs_write_int_lines: "rs_write_int line s = Done s' \<Longrightarrow> lines_ok s \<Longrightarrow> lines_ok s'"
  by (auto simp: rs_write_int_def Let_def split: if_split_asm dest!: kernel_call_lines)

lemma siaint_lines: "siaint t v r s = Done s' \<Longrightarrow> lines_ok s \<Longrightarrow> lines_ok s'"
  by (auto simp: siaint_def siaout_def Let_def split: if_split_asm dest: rs_read_int_lines rs_write_int_lines)

lemma kbd_put_lines [simp]:
  "lines_ok s \<Longrightarrow> lines_ok (kbdput c line s)" "lines_ok s \<Longrightarrow> lines_ok (kbdkeypad c s)" "lines_ok s \<Longrightarrow> lines_ok (kbdarrow c s)"
  "lines_ok s \<Longrightarrow> lines_ok (kbdpf c s)"
  by (simp_all add: kbdkeypad_def kbdarrow_def kbdpf_def Let_def kbdput_def)

lemma kbdkey_lines: "kbdkey code s = Done s' \<Longrightarrow> lines_ok s \<Longrightarrow> lines_ok s'"
  by (auto simp: kbdkey_def plain_key_def function_key_def Let_def split: if_split_asm)

lemma kbd_code_lines: "kbd_code b s = Done s' \<Longrightarrow> lines_ok s \<Longrightarrow> lines_ok s'"
  by (auto simp: kbd_code_def Let_def split: if_split_asm dest!: kbdkey_lines)

lemma kbd_codes_lines: "kbd_codes bs s = Done s' \<Longrightarrow> lines_ok s \<Longrightarrow> lines_ok s'"
  by (induction bs arbitrary: s) (auto simp: outcome_simps dest!: kbd_code_lines)

lemma tell_task_lines: "tell_task s = Done s' \<Longrightarrow> lines_ok s \<Longrightarrow> lines_ok s'"
  by (auto simp: tell_task_def split: if_split_asm dest!: rs_flush_lines)

lemma kbdint_lines: "kbdint bs s = Done s' \<Longrightarrow> lines_ok s \<Longrightarrow> lines_ok s'"
  by (auto simp: kbdint_def outcome_simps dest!: kbd_codes_lines tell_task_lines)

lemma kb_timer_lines: "kb_timer s = Done s' \<Longrightarrow> lines_ok s \<Longrightarrow> lines_ok s'"
  by (auto simp: kb_timer_def Let_def outcome_simps split: if_split_asm dest!: kbdkey_lines tell_task_lines)

subsection \<open>The task\<close>

lemma sigchar_lines: "sigchar tp sig s = Done s' \<Longrightarrow> lines_ok s \<Longrightarrow> lines_ok s'"
  by (auto simp: sigchar_def rs_sig_def Let_def outcome_simps split: if_split_asm dest!: finish_lines kernel_call_lines)

lemma func_key_lines: "func_key c s = Done s' \<Longrightarrow> lines_ok s \<Longrightarrow> lines_ok s'"
  by (auto simp: func_key_def split: if_split_asm dest: sigchar_lines)

lemma chuck_lines: "chuck tp s = (r, s') \<Longrightarrow> lines_ok s \<Longrightarrow> lines_ok s'"
  by (auto simp: chuck_def Let_def ring_in_def ring_prev_less intro!: lines_ok_upd split: if_split_asm)

lemma kill_loop_lines [simp]: "lines_ok s \<Longrightarrow> lines_ok (kill_loop n tp s)"
  by (induction n arbitrary: s) (auto split: prod.split dest: chuck_lines)

lemma echo_lines: "echo tp c s = Done s' \<Longrightarrow> lines_ok s \<Longrightarrow> lines_ok s'"
  by (auto simp: echo_def outcome_simps split: if_split_asm dest!: out_char_lines flush_lines)

lemma cooked_char_lines: "cooked_char tp c s = Done (x, s') \<Longrightarrow> lines_ok s \<Longrightarrow> lines_ok s'"
  by (auto simp: cooked_char_def Let_def outcome_simps split: if_split_asm prod.split_asm dest!: echo_lines chuck_lines)

lemma special_char_lines: "special_char tp c s = Done (x, s') \<Longrightarrow> lines_ok s \<Longrightarrow> lines_ok s'"
  by (auto simp: special_char_def Let_def outcome_simps split: if_split_asm dest!: sigchar_lines dev_start_lines)

lemma store_char_lines: "store_char tp c s = Done s' \<Longrightarrow> lines_ok s \<Longrightarrow> lines_ok s'"
  by (auto simp: store_char_def Let_def split: if_split_asm dest!: echo_lines)

lemma in_char_lines: "in_char tp c s = Done s' \<Longrightarrow> lines_ok s \<Longrightarrow> lines_ok s'"
  by (auto simp: in_char_def Let_def outcome_simps split: if_split_asm option.split_asm
      dest!: func_key_lines cooked_char_lines special_char_lines store_char_lines)

lemma fill_buf_ring: "fill_buf n ck en t = (cs, e1, e2, t') \<Longrightarrow> ring_in t \<Longrightarrow> ring_in t'"
proof (induction n arbitrary: en t cs e1 e2)
  case (Suc n)
  have nx: "ring_in (t\<lparr>tty_intail := ring_next (tty_intail t)\<rparr>)"
    using Suc.prems(2) by (auto simp: ring_in_def ring_next_def)
  then have nx': "ring_in (t\<lparr>tty_intail := ring_next (tty_intail t), tty_lfct := l\<rparr>)" for l by (simp add: ring_in_def)
  show ?case using Suc.prems(1) Suc.IH [OF _ nx] Suc.IH [OF _ nx'] nx'
    by (auto simp: Let_def split: if_split_asm prod.split_asm)
qed simp

lemma rd_loop_lines: "rd_loop n tp ck p cum s = Done (k, s') \<Longrightarrow> lines_ok s \<Longrightarrow> lines_ok s'"
proof (induction n arbitrary: p cum s)
  case (Suc n)
  show ?case
  proof (cases "tty_inleft (ttys s tp) > 0")
    case True
    define b where "b = min (min (tty_inleft (ttys s tp)) (tty_incount (ttys s tp))) (int TTY_BUF_SIZE)"
    obtain cs eot en t where f: "fill_buf (nat b) ck False (ttys s tp) = (cs, eot, en, t)" by (metis prod_cases4)
    define s1 where "s1 = upd_ram (store_bytes p (if eot then butlast cs else cs))
      (upd_tty tp (\<lambda>_. t\<lparr>tty_inleft := tty_inleft t - int (length cs), tty_incount := tty_incount t - int (length cs)\<rparr>) s)"
    have ok: "lines_ok s1" unfolding s1_def
      by (intro lines_ok_screen(1) lines_ok_upd Suc.prems(2)) (use fill_buf_ring [OF f] in simp)
    have "(if tty_incount (ttys s1 tp) = 0 \<or> en then Done (cum + int (length (if eot then butlast cs else cs)), s1)
        else rd_loop n tp ck (p + of_nat (length (if eot then butlast cs else cs))) (cum + int (length (if eot then butlast cs else cs))) s1) =
        Done (k, s')"
      using Suc.prems(1) True unfolding rd_loop.simps(2) Let_def b_def [symmetric] f prod.case s1_def [symmetric] by simp
    then show ?thesis using Suc.IH [OF _ ok] ok by (auto split: if_split_asm)
  next
    case False then show ?thesis using Suc.prems by simp
  qed
qed simp

lemma rd_chars_lines: "rd_chars tp s = Done (k, s') \<Longrightarrow> lines_ok s \<Longrightarrow> lines_ok s'"
  by (auto simp: rd_chars_def Let_def outcome_simps simp del: rd_loop.simps split: if_split_asm prod.split_asm dest!: rd_loop_lines)

lemma do_read_lines: "Tty_Line.do_read tp m s = Done s' \<Longrightarrow> lines_ok s \<Longrightarrow> lines_ok s'"
  by (auto simp: do_read_def Let_def outcome_simps split: if_split_asm dest!: rd_chars_lines)

lemma serve_reader_lines: "serve_reader tp s = Done s' \<Longrightarrow> lines_ok s \<Longrightarrow> lines_ok s'"
  by (auto simp: serve_reader_def Let_def outcome_simps split: if_split_asm dest!: rd_chars_lines)

lemma charint_loop_lines: "charint_loop cs s = Done s' \<Longrightarrow> lines_ok s \<Longrightarrow> lines_ok s'"
  by (induction cs arbitrary: s) (auto simp: outcome_simps dest!: in_char_lines serve_reader_lines)

lemma charint_lines: "charint s = Done s' \<Longrightarrow> lines_ok s \<Longrightarrow> lines_ok s'"
  by (auto simp: charint_def lines_ok_def dest!: charint_loop_lines)

lemma tty_o_done_lines: "tty_o_done s = Done (b, s') \<Longrightarrow> lines_ok s \<Longrightarrow> lines_ok s'"
  by (auto simp: tty_o_done_def Let_def outcome_simps split: option.split_asm)

lemma do_int_lines: "do_int s = Done s' \<Longrightarrow> lines_ok s \<Longrightarrow> lines_ok s'"
  by (auto simp: do_int_def outcome_simps split: if_split_asm dest!: tty_o_done_lines charint_lines)

lemma do_write_lines: "Tty_Line.do_write tp m s = Done s' \<Longrightarrow> lines_ok s \<Longrightarrow> lines_ok s'"
  by (auto simp: do_write_def Let_def outcome_simps split: if_split_asm dest!: dev_start_lines)

lemma config_lines [simp]: "lines_ok s \<Longrightarrow> lines_ok (config_rs232 l a b c d e s)" "lines_ok s \<Longrightarrow> lines_ok (set_uart l md sp s)"
  by (simp_all add: config_rs232_def set_uart_def Let_def split: option.split)

lemma drained_lines: "lines_ok s \<Longrightarrow> lines_ok (s\<lparr>drv_count := 0\<rparr>)"
  by (simp add: lines_ok_def)

lemma do_ioctl_lines [simp]: "lines_ok s \<Longrightarrow> lines_ok (Tty_Line.do_ioctl tp m s)"
  by (auto simp: do_ioctl_def set_params_def set_chars_def Let_def split: prod.split intro!: lines_ok_screen(5) drained_lines)

lemma do_setpgrp_lines [simp]: "lines_ok s \<Longrightarrow> lines_ok (do_setpgrp tp m s)"
  by (simp add: do_setpgrp_def)

lemma do_cancel_lines [simp]: "lines_ok s \<Longrightarrow> lines_ok (do_cancel tp m s)"
  by (simp add: do_cancel_def Let_def)

lemma tty_task_lines: "tty_task m s = Done s' \<Longrightarrow> lines_ok s \<Longrightarrow> lines_ok s'"
  by (auto simp: tty_task_def Let_def split: if_split_asm dest: do_int_lines do_read_lines do_write_lines)

subsection \<open>The life of the terminals\<close>

inductive tty_step :: "tstate \<Rightarrow> tstate \<Rightarrow> bool" where
  message: "tty_task m s = Done s' \<Longrightarrow> tty_step s s'"
| serial: "siaint type val tsr s = Done s' \<Longrightarrow> tty_step s s'"
| keys: "kbdint bs s = Done s' \<Longrightarrow> tty_step s s'"
| repeating: "kb_timer s = Done s' \<Longrightarrow> tty_step s s'"
| flushing: "rs_flush s = Done s' \<Longrightarrow> tty_step s s'"
| printing: "putc c s = Done s' \<Longrightarrow> tty_step s s'"

inductive_cases tty_stepE: "tty_step s s'"

inductive tty_life :: "tstate \<Rightarrow> tstate \<Rightarrow> bool" for s0 where
  start: "tty_life s0 (tty_start s0)"
| step: "tty_life s0 s \<Longrightarrow> tty_step s s' \<Longrightarrow> tty_life s0 s'"

lemma putc_lines: "putc c s = Done s' \<Longrightarrow> lines_ok s \<Longrightarrow> lines_ok s'"
  by (auto simp: putc_def outcome_simps split: if_split_asm dest!: out_char_lines)

lemma tty_step_lines: "tty_step s s' \<Longrightarrow> lines_ok s \<Longrightarrow> lines_ok s'"
  by (elim tty_stepE) (blast dest: tty_task_lines siaint_lines kbdint_lines kb_timer_lines rs_flush_lines putc_lines)+

lemma drv_kept: "kept s' = kept s \<Longrightarrow> drv_count s' = drv_count s" "kept s' = kept s \<Longrightarrow> drv_max s' = drv_max s"
  by (simp_all add: kept_def)

lemma drv_vduinit [simp]: "drv_count (vduinit s) = drv_count s" "drv_max (vduinit s) = drv_max s"
  by (simp_all add: drv_kept [OF kept_vduinit])

lemma ring_in_vduinit [simp]: "ring_in (ttys (vduinit s) i) = ring_in (ttys s i)"
proof -
  have "(ttys (vduinit s) i)\<lparr>tty_devstart := No_start, tty_column := 0\<rparr> = (ttys s i)\<lparr>tty_devstart := No_start, tty_column := 0\<rparr>"
    using kept_vduinit [of s] by (simp add: kept_def fun_eq_iff)
  from arg_cong [OF this, of ring_in] show ?thesis by simp
qed

lemma tty_init_half:
  "ring_in (ttys (tty_init s) CONSOLE)" "drv_count (tty_init s) = 0" "drv_max (tty_init s) = 500"
  by (simp_all add: tty_init_def Let_def)

lemma init_rs232_lines:
  assumes "ring_in (ttys s CONSOLE)" and "drv_count s = 0" and "drv_max s = 500"
  shows "lines_ok (init_rs232 s)" "drv_count (init_rs232 s) = 0"
proof -
  define s1 where "s1 = upd_tty 1 (\<lambda>t. (default_chars t)\<lparr>tty_mode := RAW OR BITS8, tty_devstart := Start_rs232\<rparr>) s"
  have ok: "lines_ok s1" using assms by (simp add: s1_def lines_ok_def)
  have i: "init_rs232 s = config_rs232 1 DEF_BAUD DEF_BAUD (-1) 1 8 (upd_rs 0 (\<lambda>r. r\<lparr>rs_next := 0, rs_left := 0, rs_busy := False\<rparr>) s1)"
    by (simp add: init_rs232_def s1_def)
  show "lines_ok (init_rs232 s)" unfolding i using ok by simp
  show "drv_count (init_rs232 s) = 0" unfolding i using assms(2) by (simp add: s1_def config_rs232_def Let_def split: option.split)
qed

lemma tty_start_lines: "lines_ok (tty_start s0)" "drv_count (tty_start s0) = 0"
  unfolding tty_start_def by (rule init_rs232_lines [OF tty_init_half])+

text \<open>
  C29: The tables of the terminals are well formed at every moment.  After start-up, and after any sequence of
  messages, interrupts of the serial line and of the keyboard, key repeats, flushes and kernel output, both lines
  have their input indices inside the ring of 1000 characters, and the buffer the
  interrupt routines fill holds at most its 500 entries.
\<close>

theorem tty_life_well_formed:
  assumes "tty_life s0 s"
  shows "ring_in (ttys s CONSOLE) \<and> ring_in (ttys s SERIAL1) \<and> 0 \<le> drv_count s \<and> drv_count s \<le> int MAX_OVERRUN"
proof -
  from assms have "lines_ok s"
    by induction (auto simp: tty_start_lines dest: tty_step_lines)
  then show ?thesis by (simp add: lines_ok_def)
qed

text \<open>A shift key is released, and the clock looks for keys to repeat.\<close>

lemma tty_life_well_formed_witness:
  "\<exists>s. kbdint [0xAA] (tty_start (blank_term blank)) = Done s \<and> ring_in (ttys s CONSOLE) \<and> drv_count s \<le> 500"
proof -
  define s0 where "s0 = tty_start (blank_term blank)"
  have "drv_count s0 < THRESHOLD" by (simp add: s0_def tty_start_lines)
  then have k: "kbdint [0xAA] s0 = Done (s0\<lparr>shift1 := False, flush_flag := flush_flag s0 + 1\<rparr>)"
    by (simp add: kbdint_def kbd_code_def tell_task_def)
  have "tty_life (blank_term blank) (s0\<lparr>shift1 := False, flush_flag := flush_flag s0 + 1\<rparr>)"
    by (rule tty_life.step [OF tty_life.start]) (rule keys, fold s0_def, rule k)
  from tty_life_well_formed [OF this] show ?thesis using k by (auto simp: s0_def)
qed

end
