(* ===== verification/Tty_Keys.thy ===== *)
theory Tty_Keys
  imports Tty_Edit Tty_Safe
begin

section \<open>Terminals: from the keyboard to the reader\<close>

text \<open>
  The keyboard interrupt, the buffer of the drivers, the line discipline and the waiting reader together: a line
  that is typed is what the process reading the console gets.
\<close>

unbundle bit_operations_syntax

subsection \<open>Keys to the buffer\<close>

text \<open>What a key interrupt changes.\<close>

definition only_keys :: "tstate \<Rightarrow> tstate \<Rightarrow> bool" where
  "only_keys s s' \<longleftrightarrow> s'\<lparr>repeatkey := repeatkey s, repeattic := repeattic s, drv_buf := drv_buf s, drv_count := drv_count s,
     flush_flag := flush_flag s\<rparr> = s"

lemma only_keys_trans: "only_keys s s' \<Longrightarrow> only_keys s' s'' \<Longrightarrow> only_keys s s''"
  by (cases s; cases s'; cases s'') (simp add: only_keys_def)

lemma only_keys_fields:
  assumes "only_keys s s'"
  shows "ttys s' = ttys s" "kern s' = kern s" "answers s' = answers s" "output_done s' = output_done s" "drv_max s' = drv_max s"
    "alt s' = alt s" "control s' = control s" "key_char c s' = key_char c s" "ram s' = ram s"
  using assms by (cases s; cases s'; simp add: only_keys_def key_char_def ram_def)+

lemma collected_store:
  assumes "0 \<le> drv_count s"
  shows "collected (drv_store c line s) = collected s @ [(c, sint (word_of_int line :: 8 word))]"
proof -
  define n where "n = nat (drv_count s)"
  have d: "drv_count s = int n" using assms by (simp add: n_def)
  define b where "b = (drv_buf s)(2 * n := c, 2 * n + 1 := word_of_int line)"
  have new: "b (2 * n) = c" "b (2 * n + 1) = word_of_int line" by (simp_all add: b_def)
  have old: "b (2 * k) = drv_buf s (2 * k)" "b (2 * k + 1) = drv_buf s (2 * k + 1)" if "k < n" for k
    using that by (simp_all add: b_def)
  have e: "drv_store c line s = s\<lparr>drv_buf := b, drv_count := drv_count s + 1\<rparr>"
    by (simp add: drv_store_def d b_def Let_def)
  have "nat (int n + 1) = Suc n" by simp
  then have "collected (drv_store c line s) = map (\<lambda>k. (b (2 * k), sint (b (2 * k + 1)))) [0..<Suc n]"
    by (simp add: collected_def e d del: upt_Suc)
  also have "\<dots> = map (\<lambda>k. (drv_buf s (2 * k), sint (drv_buf s (2 * k + 1)))) [0..<n] @ [(c, sint (word_of_int line :: 8 word))]"
    using old by (simp add: new [simplified] del: fun_upd_apply)
  finally show ?thesis by (simp add: collected_def d)
qed

text \<open>A key of the text: not a shift key or function key, and not the character that stops output.\<close>

definition text_key :: "tstate \<Rightarrow> 8 word \<Rightarrow> bool" where
  "text_key s b \<longleftrightarrow> b AND 0x80 = 0 \<and> unat (b AND 0x7F) \<notin> {0x2A, 0x36, 0x1D, 0x38, 0x3A} \<and> f_keys ! unat (b AND 0x7F) = 0 \<and>
     key_char (unat (b AND 0x7F)) s \<noteq> sint (tty_xoff (ttys s CONSOLE))"

definition key_text :: "tstate \<Rightarrow> 8 word \<Rightarrow> 8 word" where
  "key_text s b = word_of_int (key_char (unat (b AND 0x7F)) s)"

lemma kbd_code_text:
  assumes "text_key s b" and "\<not> alt s" and "\<not> control s" and "0 \<le> drv_count s" and "drv_count s < drv_max s"
  shows "\<exists>s'. kbd_code b s = Done s' \<and> only_keys s s' \<and> collected s' = collected s @ [(key_text s b, CONSOLE)] \<and>
    drv_count s' = drv_count s + 1"
proof -
  define k where "k = unat (b AND 0x7F)"
  define s1 where "s1 = s\<lparr>repeatkey := k, repeattic := 24\<rparr>"
  define s' where "s' = drv_store (key_text s b) CONSOLE s1"
  have f: "key_char c s1 = key_char c s" "alt s1 = alt s" "control s1 = control s" "ttys s1 = ttys s" "drv_count s1 = drv_count s"
      "drv_max s1 = drv_max s" "collected s1 = collected s" for c
    by (simp_all add: s1_def key_char_def collected_def)
  have "kbd_code b s = kbdkey k s1"
    using assms(1) by (simp add: kbd_code_def text_key_def k_def s1_def Let_def)
  also have "\<dots> = Done s'"
    using assms by (simp add: kbdkey_def plain_key_def text_key_def k_def [symmetric] f kbdput_def s'_def key_text_def Let_def)
  finally have "kbd_code b s = Done s'" .
  moreover have "only_keys s s'" by (cases s) (simp add: only_keys_def s'_def s1_def drv_store_def Let_def)
  moreover have "collected s' = collected s @ [(key_text s b, CONSOLE)]"
    using collected_store [of s1] assms(4) by (simp add: s'_def f)
  moreover have "drv_count s' = drv_count s + 1" by (simp add: s'_def drv_store_def f Let_def)
  ultimately show ?thesis by blast
qed

lemma kbd_codes_text:
  assumes "\<forall>b\<in>set bs. text_key s b" and "\<not> alt s" and "\<not> control s" and "0 \<le> drv_count s"
    and "drv_count s + int (length bs) \<le> drv_max s"
  shows "\<exists>s'. kbd_codes bs s = Done s' \<and> only_keys s s' \<and> collected s' = collected s @ map (\<lambda>b. (key_text s b, CONSOLE)) bs \<and>
    drv_count s' = drv_count s + int (length bs)"
  using assms
proof (induction bs arbitrary: s)
  case Nil
  then show ?case by (cases s) (simp add: only_keys_def)
next
  case (Cons b bs)
  obtain s1 where s1: "kbd_code b s = Done s1" "only_keys s s1" "collected s1 = collected s @ [(key_text s b, CONSOLE)]"
      "drv_count s1 = drv_count s + 1"
    using kbd_code_text [of s b] Cons.prems by auto
  note f = only_keys_fields [OF s1(2)]
  have same: "text_key s1 x = text_key s x" "key_text s1 x = key_text s x" for x
    by (simp_all add: text_key_def key_text_def f)
  obtain s2 where s2: "kbd_codes bs s1 = Done s2" "only_keys s1 s2"
      "collected s2 = collected s1 @ map (\<lambda>b. (key_text s b, CONSOLE)) bs" "drv_count s2 = drv_count s1 + int (length bs)"
    using Cons.IH [of s1] Cons.prems by (auto simp: same f s1(4))
  show ?case using s1 s2 only_keys_trans [OF s1(2) s2(2)] by simp
qed

subsection \<open>The buffer to the line\<close>

text \<open>A line in cooked mode that does not echo, and a character of the text on it.\<close>

definition silent :: "tty_struct \<Rightarrow> bool" where
  "silent t \<longleftrightarrow> ring_ok t \<and> in_mode t = 0 \<and> tty_mode t AND ECHO = 0 \<and> tty_mode t AND CRMOD \<noteq> 0 \<and> \<not> tty_escaped t \<and>
     tty_inhibited t = RUNNING"

definition text_char :: "tty_struct \<Rightarrow> 8 word \<Rightarrow> bool" where
  "text_char t c \<longleftrightarrow> c AND 0x7F = c \<and> c \<noteq> tty_erase t \<and> c \<noteq> tty_kill t \<and> c \<noteq> tty_eof t \<and> c \<noteq> c_BACKSLASH \<and>
     to_lf t c \<notin> {tty_intr t, tty_quit t, tty_xoff t}"

definition put_line :: "8 word \<Rightarrow> tty_struct \<Rightarrow> tty_struct" where
  "put_line c t = in_put c (if c = c_LF then t\<lparr>tty_lfct := tty_lfct t + 1\<rparr> else t)"

lemma in_char_silent:
  assumes "silent (ttys s tp)" and "tty_incount (ttys s tp) < int TTY_IN_BYTES" and "0 \<le> tp" and "text_char (ttys s tp) c"
  shows "in_char tp c s = Done (upd_tty tp (put_line (to_lf (ttys s tp) c)) s)"
proof -
  define t where "t = ttys s tp"
  have c: "c AND 0x7F = c" using assms(4) by (simp add: text_char_def)
  have o: "ordinary t (to_lf t c)" using assms(1,4) by (auto simp: ordinary_def silent_def text_char_def t_def)
  have "cooked_char tp c s = Done (Some c, s)"
    using assms(1,4) by (simp add: cooked_char_def silent_def text_char_def Let_def)
  then have "in_char tp c s = store_char tp (to_lf t c) s"
    using in_char_cooked [of s tp c] assms(1-3) special_pass [of s tp c] o
    by (simp add: c pass_on_def silent_def t_def)
  also have "\<dots> = Done (upd_tty tp (put_line (to_lf t c)) s)"
    using assms(1) by (simp add: store_char_def put_line_def [abs_def] echo_def silent_def in_put_def)
  finally show ?thesis by (simp add: t_def)
qed

lemma put_line_fields [simp]:
  "tty_mode (put_line c t) = tty_mode t" "tty_escaped (put_line c t) = tty_escaped t" "tty_inhibited (put_line c t) = tty_inhibited t"
  "tty_incount (put_line c t) = tty_incount t + 1" "tty_lfct (put_line c t) = tty_lfct t + (if c = c_LF then 1 else 0)"
  "tty_inleft (put_line c t) = tty_inleft t" "tty_inproc (put_line c t) = tty_inproc t" "tty_incaller (put_line c t) = tty_incaller t"
  "tty_in_vir (put_line c t) = tty_in_vir t" "in_mode (put_line c t) = in_mode t"
  "text_char (put_line c t) d = text_char t d" "to_lf (put_line c t) d = to_lf t d"
  by (simp_all add: put_line_def in_put_def in_mode_def text_char_def to_lf_def)

lemma put_line_ring:
  assumes "silent t" and "tty_incount t < int TTY_IN_BYTES"
  shows "silent (put_line c t)" "typed (put_line c t) = typed t @ [c]"
proof -
  define t' where "t' = (if c = c_LF then t\<lparr>tty_lfct := tty_lfct t + 1\<rparr> else t)"
  have t': "ring_ok t'" "typed t' = typed t" "tty_incount t' < int TTY_IN_BYTES"
    using assms by (simp_all add: t'_def silent_def ring_ok_def typed_def slot_def)
  then show "typed (put_line c t) = typed t @ [c]" using in_put_ring(2) [OF t'(1,3)] by (simp add: put_line_def t'_def [symmetric])
  show "silent (put_line c t)" using in_put_ring(1) [OF t'(1,3), of c] assms(1)
    by (simp add: silent_def) (simp add: put_line_def t'_def)
qed

lemma fold_put_line:
  assumes "silent t" and "tty_incount t + int (length cs) \<le> int TTY_IN_BYTES" and "c_LF \<notin> set cs"
  shows "silent (fold put_line cs t) \<and> typed (fold put_line cs t) = typed t @ cs \<and> tty_incount (fold put_line cs t) = tty_incount t + int (length cs) \<and>
    tty_lfct (fold put_line cs t) = tty_lfct t \<and> tty_inleft (fold put_line cs t) = tty_inleft t \<and>
    tty_inproc (fold put_line cs t) = tty_inproc t \<and> tty_incaller (fold put_line cs t) = tty_incaller t \<and>
    tty_in_vir (fold put_line cs t) = tty_in_vir t \<and> (\<forall>d. text_char (fold put_line cs t) d = text_char t d \<and> to_lf (fold put_line cs t) d = to_lf t d)"
  using assms
proof (induction cs arbitrary: t)
  case (Cons c cs)
  have "tty_incount t < int TTY_IN_BYTES" using Cons.prems(2) by simp
  note r = put_line_ring [OF Cons.prems(1) this, of c]
  show ?case using Cons.IH [OF r(1)] Cons.prems by (simp add: r(2))
qed simp

text \<open>The task takes the characters of the text one by one; nobody is answered yet.\<close>

lemma charint_text:
  assumes "silent (ttys s tp)" and "tty_incount (ttys s tp) + int (length cs) \<le> int TTY_IN_BYTES" and "0 \<le> tp"
    and "tty_lfct (ttys s tp) = 0" and "\<forall>c\<in>set cs. text_char (ttys s tp) c \<and> c \<noteq> c_LF \<and> c \<noteq> c_CR"
  shows "charint_loop (map (\<lambda>c. (c, tp)) cs) s = Done (upd_tty tp (fold put_line cs) s)"
  using assms
proof (induction cs arbitrary: s)
  case Nil
  then show ?case by (simp add: upd_tty_def)
next
  case (Cons c cs)
  define s1 where "s1 = upd_tty tp (put_line c) s"
  have room: "tty_incount (ttys s tp) < int TTY_IN_BYTES" using Cons.prems(2) by simp
  have c: "text_char (ttys s tp) c" "c \<noteq> c_LF" "to_lf (ttys s tp) c = c" using Cons.prems(5) by (auto simp: to_lf_def)
  have "in_char tp c s = Done s1" using in_char_silent [OF Cons.prems(1) room Cons.prems(3) c(1)] c(3) by (simp add: s1_def)
  moreover have "serve_reader tp s1 = Done s1"
    using Cons.prems(1,4) c(2) by (simp add: serve_reader_def s1_def silent_def)
  moreover have "charint_loop (map (\<lambda>c. (c, tp)) cs) s1 = Done (upd_tty tp (fold put_line cs) s1)"
    using Cons.prems put_line_ring(1) [OF Cons.prems(1) room] c(2) by (intro Cons.IH) (auto simp: s1_def)
  ultimately show ?case by (simp add: s1_def upd_tty_def)
qed

subsection \<open>The line to the reader\<close>

lemma charint_loop_append: "charint_loop (xs @ ys) s = andthen (charint_loop xs s) (charint_loop ys)"
proof (induction xs arbitrary: s)
  case (Cons x xs)
  then have "charint_loop (xs @ ys) = (\<lambda>s. andthen (charint_loop xs s) (charint_loop ys))" by (simp add: fun_eq_iff)
  then show ?case by (simp add: andthen_assoc)
qed simp

lemma first_line_text: "\<forall>c\<in>set cs. \<not> line_end c \<Longrightarrow> first_line (cs @ [c_LF]) = cs @ [c_LF]"
  by (induction cs) (auto simp: line_end_def)

lemma text_char_no_marker: "text_char t c \<Longrightarrow> c \<noteq> MARKER"
  using low_ascii [of c] by (auto simp: text_char_def)

lemma rd_chars_line:
  assumes "ring_ok (ttys s tp)" and "in_mode (ttys s tp) = 0" and "typed (ttys s tp) = cs @ [c_LF]" and "\<forall>c\<in>set cs. \<not> line_end c"
    and "tty_lfct (ttys s tp) \<noteq> 0" and "int (length cs) < tty_inleft (ttys s tp)"
    and "proc_addr (tty_inproc (ttys s tp)) = Done rp"
    and "umap (procs (kern s) rp) 1 (tty_in_vir (ttys s tp)) (word_of_int (tty_inleft (ttys s tp))) = phys" and "phys \<noteq> 0"
  shows "\<exists>s'. rd_chars tp s = Done (int (length cs) + 1, s') \<and> ram s' = store_bytes phys (cs @ [c_LF]) (ram s) \<and>
    typed (ttys s' tp) = [] \<and> tty_incaller (ttys s' tp) = tty_incaller (ttys s tp) \<and> tty_inproc (ttys s' tp) = tty_inproc (ttys s tp) \<and>
    answers s' = answers s"
proof -
  have n: "nat (tty_incount (ttys s tp)) = length cs + 1" using arg_cong [OF assms(3), of length] by simp
  then have ic: "tty_incount (ttys s tp) = int (length cs) + 1" by linarith
  have part: "read_part (ttys s tp) = cs @ [c_LF]"
    using assms(3,6) first_line_text [OF assms(4)] by (simp add: read_part_def nat_less_iff)
  have rd: "to_reader (cs @ [c_LF]) = cs @ [c_LF]"
    using assms(4) by (auto simp: to_reader_def line_end_def filter_id_conv)
  have "tty_incount (ttys s tp) \<le> int TTY_BUF_SIZE * int 5" using assms(1) by (simp add: ring_ok_def)
  then obtain s2 where s2: "rd_loop (Suc 5) tp True phys 0 s = Done (int (length cs) + 1, s2)" "ram s2 = store_bytes phys (cs @ [c_LF]) (ram s)"
      "typed (ttys s2 tp) = []" "tty_inproc (ttys s2 tp) = tty_inproc (ttys s tp)" "tty_incaller (ttys s2 tp) = tty_incaller (ttys s tp)"
      "answers s2 = answers s"
    using rd_loop_reads [of s tp 5 phys 0] assms(1,3,6) ic unfolding part rd by (auto simp: add.commute simp del: rd_loop.simps)
  have "rd_chars tp s = Done (int (length cs) + 1, upd_tty tp (tty_inleft_update (\<lambda>_. 0)) s2)"
    using assms(2,5,7-9) ic s2(1) by (simp add: rd_chars_def eval_nat_numeral Let_def del: rd_loop.simps)
  moreover have "typed (t\<lparr>tty_inleft := d\<rparr>) = typed t" for t d by (simp add: typed_def slot_def)
  ultimately show ?thesis using s2 by simp
qed

text \<open>
  C28: A line typed on the keyboard reaches the process that waits for it.  The console is in cooked
  mode without echo, somebody waits for at least as much as the line, and keys of plain text and Return are pressed, fewer than make the interrupt
  routine hurry.  Then the interrupts return, the next turn of the task returns, and the reader is
  revived with the length of the line, the characters of the keys and a line feed in his buffer; the queue is empty again.
\<close>

theorem typed_line_reaches_reader:
  assumes "silent (ttys s CONSOLE)" and "tty_incount (ttys s CONSOLE) = 0" and "tty_lfct (ttys s CONSOLE) = 0"
    and "drv_count s = 0" and "drv_max s = int MAX_OVERRUN" and "output_done s = 0" and "int (length bs) + 1 < THRESHOLD"
    and "\<not> alt s" and "\<not> control s"
    and "\<forall>b\<in>set bs. text_key s b \<and> text_char (ttys s CONSOLE) (key_text s b) \<and> key_text s b \<noteq> c_LF \<and> key_text s b \<noteq> c_CR"
    and "text_key s ret" and "key_text s ret = c_CR" and "text_char (ttys s CONSOLE) c_CR"
    and "int (length bs) < tty_inleft (ttys s CONSOLE)" and "proc_addr (tty_inproc (ttys s CONSOLE)) = Done rp"
    and "umap (procs (kern s) rp) 1 (tty_in_vir (ttys s CONSOLE)) (word_of_int (tty_inleft (ttys s CONSOLE))) = phys" and "phys \<noteq> 0"
  shows "\<exists>s1 s2. kbdint (bs @ [ret]) s = Done s1 \<and> do_int s1 = Done s2 \<and>
    ram s2 = store_bytes phys (map (key_text s) bs @ [c_LF]) (ram s) \<and> typed (ttys s2 CONSOLE) = [] \<and>
    answers s2 = answers (tty_reply TTY_REVIVE (tty_incaller (ttys s CONSOLE)) (tty_inproc (ttys s CONSOLE)) (int (length bs) + 1) 0 0 s)"
proof -
  define t where "t = ttys s CONSOLE"
  define cs where "cs = map (key_text s) bs"
  have "\<forall>b\<in>set (bs @ [ret]). text_key s b" using assms(10,11) by auto
  moreover have none: "collected s = []" using assms(4) by (simp add: collected_def)
  moreover have same: "map (\<lambda>b. (key_text s b, CONSOLE)) bs = map (\<lambda>c. (c, CONSOLE)) cs" by (simp add: cs_def)
  ultimately obtain s0 where s0: "kbd_codes (bs @ [ret]) s = Done s0" "only_keys s s0"
      "collected s0 = map (\<lambda>c. (c, CONSOLE)) cs @ [(c_CR, CONSOLE)]" "drv_count s0 = int (length bs) + 1"
    using kbd_codes_text [of "bs @ [ret]" s] assms(4,5,7-9,12) none same by auto
  define s1 where "s1 = s0\<lparr>flush_flag := flush_flag s0 + 1\<rparr>"
  have k: "kbdint (bs @ [ret]) s = Done s1" using s0(1,4) assms(7) by (simp add: kbdint_def tell_task_def s1_def)
  note f0 = only_keys_fields [OF s0(2)]
  define sa where "sa = s1\<lparr>drv_count := 0\<rparr>"
  have fa: "ttys sa = ttys s" "kern sa = kern s" "answers sa = answers s" "ram sa = ram s"
    by (simp_all add: sa_def s1_def f0 ram_def)
  have "collected s1 = map (\<lambda>c. (c, CONSOLE)) cs @ [(c_CR, CONSOLE)]" using s0(3) by (simp add: s1_def collected_def)
  then have di: "do_int s1 = charint_loop (map (\<lambda>c. (c, CONSOLE)) cs @ [(c_CR, CONSOLE)]) sa"
    using assms(6) by (simp add: do_int_def charint_def s1_def f0 sa_def)
  have plain: "\<forall>c\<in>set cs. text_char t c \<and> c \<noteq> c_LF \<and> c \<noteq> c_CR" using assms(10) by (auto simp: cs_def t_def)
  have len: "length cs = length bs" by (simp add: cs_def)
  define s2 where "s2 = upd_tty CONSOLE (fold put_line cs) sa"
  have l1: "charint_loop (map (\<lambda>c. (c, CONSOLE)) cs) sa = Done s2"
    unfolding s2_def using assms(1-3,7) plain by (intro charint_text) (simp_all add: fa t_def len)
  define t2 where "t2 = fold put_line cs t"
  have "c_LF \<notin> set cs" using plain by auto
  from fold_put_line [OF _ _ this, of t] have f2: "silent t2" "typed t2 = typed t @ cs" "tty_incount t2 = int (length bs)" "tty_lfct t2 = 0"
      "tty_inleft t2 = tty_inleft t" "tty_inproc t2 = tty_inproc t" "tty_incaller t2 = tty_incaller t" "tty_in_vir t2 = tty_in_vir t"
      "text_char t2 d = text_char t d" "to_lf t2 d = to_lf t d" for d
    using assms(1-3,7) by (auto simp: t2_def t_def len)
  have tt: "ttys s2 CONSOLE = t2" by (simp add: s2_def t2_def fa t_def)
  define s3 where "s3 = upd_tty CONSOLE (put_line c_LF) s2"
  have lf: "to_lf t c_CR = c_LF" using assms(1) by (simp add: to_lf_def silent_def t_def)
  have room: "tty_incount t2 < int TTY_IN_BYTES" using f2(3) assms(7) by simp
  have l2: "in_char CONSOLE c_CR s2 = Done s3"
    using in_char_silent [of s2 CONSOLE c_CR] f2(1) room assms(13) by (simp add: tt f2(9,10) lf [unfolded t_def] s3_def t_def)
  define t3 where "t3 = put_line c_LF t2"
  have t3: "ttys s3 CONSOLE = t3" by (simp add: s3_def tt t3_def)
  have e: "typed t = []" using assms(2) by (simp add: t_def typed_def)
  have r3: "ring_ok t3" "in_mode t3 = 0" "typed t3 = cs @ [c_LF]" "tty_lfct t3 = 1"
    using put_line_ring [OF f2(1) room, of c_LF] f2(2,4) e by (simp_all add: t3_def silent_def)
  have nl: "\<forall>c\<in>set cs. \<not> line_end c" using plain text_char_no_marker by (auto simp: line_end_def)
  have k3: "kern s3 = kern s" "ram s3 = ram s" "answers s3 = answers s" by (simp_all add: s3_def s2_def fa)
  have f3: "tty_inleft t3 = tty_inleft t" "tty_inproc t3 = tty_inproc t" "tty_incaller t3 = tty_incaller t" "tty_in_vir t3 = tty_in_vir t"
    using f2 by (simp_all add: t3_def)
  obtain s4 where s4: "rd_chars CONSOLE s3 = Done (int (length cs) + 1, s4)" "ram s4 = store_bytes phys (cs @ [c_LF]) (ram s3)"
      "typed (ttys s4 CONSOLE) = []" "tty_incaller (ttys s4 CONSOLE) = tty_incaller t" "tty_inproc (ttys s4 CONSOLE) = tty_inproc t"
      "answers s4 = answers s3"
    using rd_chars_line [of s3 CONSOLE cs rp phys] r3 nl assms(14-17) by (auto simp: t3 f3 k3 len t_def)
  have "serve_reader CONSOLE s3 = Done (tty_reply TTY_REVIVE (tty_incaller t) (tty_inproc t) (int (length cs) + 1) 0 0 s4)"
    using s4 assms(14) r3(4) by (simp add: serve_reader_def t3 f3 t_def)
  then have "do_int s1 = Done (tty_reply TTY_REVIVE (tty_incaller t) (tty_inproc t) (int (length cs) + 1) 0 0 s4)"
    unfolding di charint_loop_append using l1 l2 by simp
  then show ?thesis using k s4 by (simp add: k3 len cs_def t_def)
qed

text \<open>Process 4 waits for ten characters; the keys \<open>h\<close>, \<open>i\<close> and Return go down.\<close>

definition keys_demo :: tstate where
  "keys_demo = (upd_tty 0 (\<lambda>t. t\<lparr>tty_mode := CRMOD, tty_inleft := 10, tty_inproc := 4, tty_incaller := 1, tty_in_vir := 0x2000,
     tty_erase := 8, tty_kill := 64, tty_intr := 127, tty_quit := 28, tty_xoff := 19, tty_eof := 4\<rparr>) (blank_term reader_kern))
     \<lparr>drv_max := 500, keynorm := (\<lambda>_. 0)(0x23 := 104, 0x17 := 105, 0x1C := 13)\<rparr>"

lemma typed_line_reaches_reader_witness:
  "\<exists>s1 s2. kbdint [0x23, 0x17, 0x1C] keys_demo = Done s1 \<and> do_int s1 = Done s2 \<and>
     ram s2 = store_bytes 0x2000 [104, 105, 10] (ram keys_demo) \<and> typed (ttys s2 0) = []"
proof -
  have t: "ttys keys_demo 0 = blank_tty\<lparr>tty_mode := CRMOD, tty_inleft := 10, tty_inproc := 4, tty_incaller := 1, tty_in_vir := 0x2000,
      tty_erase := 8, tty_kill := 64, tty_intr := 127, tty_quit := 28, tty_xoff := 19, tty_eof := 4\<rparr>"
    and k: "kern keys_demo = reader_kern" "keynorm keys_demo = (\<lambda>_. 0)(0x23 := 104, 0x17 := 105, 0x1C := 13)"
      "\<not> shift1 keys_demo" "\<not> shift2 keys_demo" "\<not> capslock keys_demo"
    by (simp_all add: keys_demo_def blank_term_def upd_tty_def)
  have a: "silent (ttys keys_demo 0)" "tty_incount (ttys keys_demo 0) = 0" "tty_lfct (ttys keys_demo 0) = 0" "drv_count keys_demo = 0"
      "drv_max keys_demo = int 500" "output_done keys_demo = 0" "int (length [0x23, 0x17 :: 8 word]) + 1 < 20" "\<not> alt keys_demo" "\<not> control keys_demo"
    by (simp_all add: t silent_def ring_ok_def slot_def in_mode_def blank_tty_def) (simp_all add: keys_demo_def blank_term_def upd_tty_def)
  have c: "key_text keys_demo 0x23 = 104" "key_text keys_demo 0x17 = 105" "key_text keys_demo 0x1C = 13"
    by (simp_all add: key_text_def key_char_def k)
  have b: "\<forall>b\<in>set [0x23, 0x17]. text_key keys_demo b \<and> text_char (ttys keys_demo 0) (key_text keys_demo b) \<and>
      key_text keys_demo b \<noteq> 10 \<and> key_text keys_demo b \<noteq> 13" "text_key keys_demo 0x1C"
    by (simp_all add: c t text_key_def text_char_def to_lf_def key_char_def k f_keys_def nth_append)
  have d: "text_char (ttys keys_demo 0) 13" "int (length [0x23, 0x17 :: 8 word]) < tty_inleft (ttys keys_demo 0)"
      "proc_addr (tty_inproc (ttys keys_demo 0)) = Done 13"
      "umap (procs (kern keys_demo) 13) 1 (tty_in_vir (ttys keys_demo 0)) (word_of_int (tty_inleft (ttys keys_demo 0))) = 0x2000"
      "(0x2000 :: addr) \<noteq> 0"
    by (simp_all add: t text_char_def to_lf_def proc_addr_Done k reader_kern_def umap_def blank_def Let_def)
  show ?thesis using typed_line_reaches_reader [OF a b c(3) d] by (auto simp: c)
qed

end
