(* ===== verification/Kernel_Memory.thy ===== *)
theory Kernel_Memory
  imports Kernel_System Kernel_Main Kernel_Props Mm_Props
begin

section \<open>Kernel: the memory driver\<close>

text \<open>
  kernel/memory.c, the driver of /dev/ram, /dev/mem, /dev/kmem and /dev/null, and \<open>do_vrdwt\<close> of
  kernel/misc.c, which unpacks a vector of requests.  A device is a range of main memory, from
  \<open>ram_origin\<close> up to \<open>ram_limit\<close>, two signed longs.  Requests are records with the fields of the message;
  the copy of a vector that \<open>do_vrdwt\<close> keeps in the kernel is a list of records.
\<close>

unbundle bit_operations_syntax

abbreviation (input) "NR_RAMS \<equiv> (4::int)"
abbreviation (input) "RAM_DEV \<equiv> (0::int)"
abbreviation (input) "MEM_DEV \<equiv> (1::int)"
abbreviation (input) "KMEM_DEV \<equiv> (2::int)"
abbreviation (input) "NULL_DEV \<equiv> (3::int)"
abbreviation (input) "MEM_BYTES \<equiv> (0x1000000::addr)"
abbreviation (input) "DISK_READ \<equiv> (3::int)"
abbreviation (input) "DISK_WRITE \<equiv> (4::int)"
abbreviation (input) "DISK_IOCTL \<equiv> (5::int)"
abbreviation (input) "SCATTERED_IO \<equiv> (6::int)"
abbreviation (input) "OPTIONAL_IO \<equiv> (16::u16)"
abbreviation (input) "NR_IOVEC \<equiv> (30::nat)"
abbreviation (input) "dev_ENXIO \<equiv> (-6::int)"
abbreviation (input) "dev_EINVAL \<equiv> (-22::int)"

subsection \<open>Requests and state\<close>

record mem_mess =
  md_source :: int
  md_type :: int
  md_device :: int
  md_proc :: int
  md_count :: int
  md_position :: addr
  md_address :: addr

record iorequest =
  io_position :: addr
  io_buf :: addr
  io_nbytes :: u16
  io_request :: u16

record ram_state =
  mem_kern :: kstate
  ram_origin :: "int \<Rightarrow> addr"
  ram_limit :: "int \<Rightarrow> addr"
  mem_answers :: "(int \<times> int \<times> int) list"

definition upd_kern :: "(kstate \<Rightarrow> kstate) \<Rightarrow> ram_state \<Rightarrow> ram_state" where
  "upd_kern f s = s\<lparr>mem_kern := f (mem_kern s)\<rparr>"

definition main_mem :: "ram_state \<Rightarrow> addr \<Rightarrow> 8 word" where
  "main_mem s = kmem (mem_kern s)"

subsection \<open>Reading and writing\<close>

definition do_mem :: "mem_mess \<Rightarrow> ram_state \<Rightarrow> (int \<times> ram_state) run" where
  "do_mem m s =
     (let device = md_device m in
      if device < 0 \<or> device \<ge> NR_RAMS then Done (dev_ENXIO, s)
      else if device = NULL_DEV then Done (if md_type m = DISK_READ then 0 else md_count m, s)
      else if sint (md_position m) < 0 then Done (dev_ENXIO, s)
      else
        let mem_phys = ram_origin s device + md_position m; limit = ram_limit s device in
        if sint mem_phys \<ge> sint limit then Done (0, s)
        else
          let count = (if sint (mem_phys + word_of_int (md_count m)) > sint limit
                       then sint (ucast (limit - mem_phys) :: u16) else md_count m)
          in andthen (numap (md_proc m) (md_address m) (word_of_int count) (mem_kern s)) (\<lambda>user_phys.
          if user_phys = 0 then Done (E_BAD_ADDR, s)
          else Done (count,
            upd_kern (upd_mem (if md_type m = DISK_READ then phys_copy mem_phys user_phys (nat count)
                               else phys_copy user_phys mem_phys (nat count))) s)))"

definition do_setup :: "mem_mess \<Rightarrow> ram_state \<Rightarrow> int \<times> ram_state" where
  "do_setup m s =
     (let device = md_device m in
      if device \<noteq> RAM_DEV then (dev_ENXIO, s)
      else (OK, s\<lparr>ram_origin := (ram_origin s)(device := md_position m),
                  ram_limit := (ram_limit s)(device := md_position m + word_of_int (md_count m * 1024))\<rparr>))"

subsection \<open>Vectors of requests\<close>

definition get_request :: "(addr \<Rightarrow> 8 word) \<Rightarrow> addr \<Rightarrow> iorequest" where
  "get_request m a = \<lparr>io_position = get32 m a, io_buf = get32 m (a + 4), io_nbytes = get16 m (a + 8),
     io_request = get16 m (a + 10)\<rparr>"

definition put_request :: "addr \<Rightarrow> iorequest \<Rightarrow> (addr \<Rightarrow> 8 word) \<Rightarrow> addr \<Rightarrow> 8 word" where
  "put_request a r m =
     put16 (a + 10) (io_request r) (put16 (a + 8) (io_nbytes r) (put32 (a + 4) (io_buf r) (put32 a (io_position r) m)))"

definition get_vector :: "(addr \<Rightarrow> 8 word) \<Rightarrow> addr \<Rightarrow> nat \<Rightarrow> iorequest list" where
  "get_vector m a n = map (\<lambda>k. get_request m (a + of_nat (12 * k))) [0..<n]"

definition put_vector :: "addr \<Rightarrow> iorequest list \<Rightarrow> (addr \<Rightarrow> 8 word) \<Rightarrow> addr \<Rightarrow> 8 word" where
  "put_vector a rs m = fold (\<lambda>k. put_request (a + of_nat (12 * k)) (rs ! k)) [0..<length rs] m"

text \<open>One request of the vector as a message to the driver.\<close>

definition vmessage :: "mem_mess \<Rightarrow> iorequest \<Rightarrow> mem_mess" where
  "vmessage m r = m\<lparr>md_type := sint (io_request r AND NOT OPTIONAL_IO), md_count := sint (io_nbytes r),
     md_position := io_position r, md_address := io_buf r\<rparr>"

primrec vrdwt_loop :: "(mem_mess \<Rightarrow> ram_state \<Rightarrow> (int \<times> ram_state) run) \<Rightarrow> mem_mess \<Rightarrow> iorequest list \<Rightarrow> ram_state \<Rightarrow>
    (iorequest list \<times> ram_state) run" where
  "vrdwt_loop do_rdwt m [] s = Done ([], s)"
| "vrdwt_loop do_rdwt m (r # rs) s =
     andthen (do_rdwt (vmessage m r) s) (\<lambda>(result, s).
     if result = 0 then Done (r # rs, s)
     else if result < 0 \<and> io_request r AND OPTIONAL_IO \<noteq> 0 then Done (r\<lparr>io_nbytes := word_of_int result\<rparr> # rs, s)
     else
       let r = r\<lparr>io_nbytes := (if result < 0 then word_of_int result else io_nbytes r - word_of_int result)\<rparr>
       in andthen (vrdwt_loop do_rdwt m rs s) (\<lambda>(rs, s). Done (r # rs, s)))"

definition do_vrdwt :: "(mem_mess \<Rightarrow> ram_state \<Rightarrow> (int \<times> ram_state) run) \<Rightarrow> mem_mess \<Rightarrow> ram_state \<Rightarrow> (int \<times> ram_state) run" where
  "do_vrdwt do_rdwt m s =
     (let nr_requests = unat (word_of_int (md_count m) :: u16) in
      if nr_requests > NR_IOVEC then Panics ''FS gave some driver too big an i/o vector''
      else
        andthen (numap (md_proc m) (md_address m) (of_nat (12 * nr_requests)) (mem_kern s)) (\<lambda>user_iovec_phys.
        if user_iovec_phys = 0 then Panics ''FS gave some driver bad i/o vector''
        else
          andthen (vrdwt_loop do_rdwt m (get_vector (main_mem s) user_iovec_phys nr_requests) s) (\<lambda>(iovec, s).
          Done (OK, upd_kern (upd_mem (put_vector user_iovec_phys iovec)) s))))"

subsection \<open>The task\<close>

definition mem_start :: "boot \<Rightarrow> ram_state \<Rightarrow> ram_state run" where
  "mem_start b s =
     andthen (numap SYSTASK 0 1 (mem_kern s)) (\<lambda>origin.
     Done (s\<lparr>ram_origin := (ram_origin s)(KMEM_DEV := origin),
             ram_limit := (ram_limit s)(KMEM_DEV := click_addr (sizes b 1) + origin, MEM_DEV := MEM_BYTES)\<rparr>))"

definition mem_task :: "mem_mess \<Rightarrow> ram_state \<Rightarrow> ram_state run" where
  "mem_task m s =
     (if md_source m < 0 then Panics ''mem task got message from ''
      else
        andthen
          (if md_type m = DISK_READ \<or> md_type m = DISK_WRITE then do_mem m s
           else if md_type m = SCATTERED_IO then do_vrdwt do_mem m s
           else if md_type m = DISK_IOCTL then Done (do_setup m s)
           else Done (dev_EINVAL, s)) (\<lambda>(r, s).
        Done (s\<lparr>mem_answers := (md_source m, md_proc m, r) # mem_answers s\<rparr>)))"

subsection \<open>A device is an array of bytes\<close>

definition dev_size :: "ram_state \<Rightarrow> int \<Rightarrow> nat" where
  "dev_size s d = nat (sint (ram_limit s d) - sint (ram_origin s d))"

definition dev_bytes :: "ram_state \<Rightarrow> int \<Rightarrow> 8 word list" where
  "dev_bytes s d = map (\<lambda>k. main_mem s (ram_origin s d + of_nat k)) [0..<dev_size s d]"

definition bytes_at :: "(addr \<Rightarrow> 8 word) \<Rightarrow> addr \<Rightarrow> nat \<Rightarrow> 8 word list" where
  "bytes_at m a n = map (\<lambda>k. m (a + of_nat k)) [0..<n]"

text \<open>A device lies in the 24 bits of addresses that the machine has.\<close>

definition dev_ok :: "ram_state \<Rightarrow> int \<Rightarrow> bool" where
  "dev_ok s d \<longleftrightarrow> 0 \<le> d \<and> d < NULL_DEV \<and> unat (ram_origin s d) \<le> unat (ram_limit s d) \<and> unat (ram_limit s d) \<le> 2 ^ 24"

lemma sint_low: "unat a < 2 ^ 31 \<Longrightarrow> sint a = int (unat a)" for a :: addr
proof -
  assume a: "unat a < 2 ^ 31"
  have "uint a < 2 ^ 31" using a by (metis of_nat_less_iff of_nat_numeral of_nat_power uint_nat)
  moreover have "- (2 ^ 31) \<le> uint a" by (rule order_trans [of _ 0]) simp_all
  ultimately show ?thesis using signed_take_bit_int_eq_self [of 31 "uint a"] by (simp add: sint_uint)
qed

lemma unat_plus_low: "unat a + n < 2 ^ 32 \<Longrightarrow> unat ((a :: addr) + of_nat n) = unat a + n"
  by (simp add: unat_word_ariths(1) unat_of_nat mod_add_right_eq)

lemma dev_size_nat:
  assumes "dev_ok s d" shows "dev_size s d = unat (ram_limit s d) - unat (ram_origin s d)" "dev_size s d \<le> 16777216"
proof -
  have l: "unat (ram_origin s d) \<le> unat (ram_limit s d)" "unat (ram_limit s d) \<le> 16777216" using assms by (simp_all add: dev_ok_def)
  then have "sint (ram_limit s d) = int (unat (ram_limit s d))" "sint (ram_origin s d) = int (unat (ram_origin s d))"
    by (simp_all add: sint_low del: of_nat_unat)
  then show "dev_size s d = unat (ram_limit s d) - unat (ram_origin s d)" using l by (simp add: dev_size_def nat_diff_distrib')
  then show "dev_size s d \<le> 16777216" using l by simp
qed

lemma phys_copy_at:
  assumes "unat (a - dst) < n" shows "phys_copy src dst n m a = m (src + (a - dst))"
  using assms by (simp add: phys_copy_def)

lemma phys_copy_elsewhere:
  assumes "\<And>k. k < n \<Longrightarrow> a \<noteq> dst + of_nat k" shows "phys_copy src dst n m a = m a"
proof -
  have "\<not> unat (a - dst) < n"
  proof
    assume "unat (a - dst) < n"
    from assms [OF this] show False by simp
  qed
  then show ?thesis by (simp add: phys_copy_def)
qed

text \<open>The number of bytes of a transfer, and where it goes.\<close>

lemma do_mem_transfer:
  assumes "dev_ok s (md_device m)" and "unat (md_position m) < 2 ^ 30" and "0 < md_count m" and "md_count m < 2 ^ 15"
    and "n = min (nat (md_count m)) (dev_size s (md_device m) - unat (md_position m))"
    and "proc_addr (md_proc m) = Done rp" and "buf = umap (procs (mem_kern s) rp) 1 (md_address m) (of_nat n)"
    and "at = ram_origin s (md_device m) + md_position m"
  shows "do_mem m s =
    (if n = 0 then Done (0, s)
     else if buf = 0 then Done (E_BAD_ADDR, s)
     else Done (int n, upd_kern (upd_mem (if md_type m = DISK_READ then phys_copy at buf n else phys_copy buf at n)) s))"
proof -
  define l where "l = ram_limit s (md_device m)"
  have d: "0 \<le> md_device m" "md_device m < NR_RAMS" "md_device m \<noteq> NULL_DEV" using assms(1) by (auto simp: dev_ok_def)
  have ol: "unat (ram_origin s (md_device m)) \<le> unat l" "unat l \<le> 16777216" using assms(1) by (simp_all add: dev_ok_def l_def)
  have pos: "unat (md_position m) < 1073741824" using assms(2) by simp
  have sl: "sint l = int (unat l)" using ol by (intro sint_low) simp
  have so: "sint (ram_origin s (md_device m)) = int (unat (ram_origin s (md_device m)))" using ol by (intro sint_low) simp
  have size: "dev_size s (md_device m) = unat l - unat (ram_origin s (md_device m))"
    using ol by (simp add: dev_size_def so sl l_def [symmetric] nat_diff_distrib')
  have "unat (ram_origin s (md_device m) + of_nat (unat (md_position m))) = unat (ram_origin s (md_device m)) + unat (md_position m)"
    using ol pos by (intro unat_plus_low) simp
  then have ua: "unat at = unat (ram_origin s (md_device m)) + unat (md_position m)" by (simp add: assms(8))
  then have sa: "sint at = int (unat (ram_origin s (md_device m)) + unat (md_position m))" using ol pos by (subst sint_low) simp_all
  have sp: "sint (md_position m) = int (unat (md_position m))" using pos by (intro sint_low) simp
  obtain c where c: "md_count m = int c" "0 < c" "c < 2 ^ 15" using assms(3,4) by (cases "md_count m") auto
  have "unat (at + of_nat c) = unat at + c" using ua ol pos c(3) by (intro unat_plus_low) simp
  then have sc: "sint (at + word_of_int (md_count m)) = int (unat at + c)"
    using ua ol pos c by (subst sint_low) simp_all
  show ?thesis
  proof (cases "n = 0")
    case True
    then have "unat l \<le> unat at" using assms(5) c unfolding size ua by (auto simp: min_def split: if_splits)
    then have "sint l \<le> sint at" unfolding sl sa ua [symmetric] by (simp only: of_nat_le_iff)
    then show ?thesis using True d sp by (simp add: do_mem_def Let_def assms(8) [symmetric] l_def [symmetric])
  next
    case False
    then have less: "unat at < unat l" using assms(5) by (auto simp: size ua)
    have diff: "sint (ucast (l - at) :: u16) = int (unat l - unat at)" if "unat l - unat at < 2 ^ 15"
    proof -
      have u: "unat (l - at) = unat l - unat at" using less by (simp add: unat_sub word_le_nat_alt)
      have "ucast (l - at) = (word_of_int (int (unat l - unat at)) :: u16)" by (simp add: u [symmetric])
      then show ?thesis using sint_small(1) [of "int (unat l - unat at)"] that by simp
    qed
    have count: "(if sint (at + word_of_int (md_count m)) > sint l then sint (ucast (l - at) :: u16) else md_count m) = int n"
    proof (cases "unat at + c > unat l")
      case True
      then have "n = unat l - unat at" "unat l - unat at < 2 ^ 15" using assms(5) c unfolding size ua by (auto simp: min_def)
      then show ?thesis using True diff unfolding sc sl by (simp only: of_nat_less_iff if_True)
    next
      case False
      then have "n = c" using assms(5) c less unfolding size ua by (auto simp: min_def)
      then show ?thesis using False unfolding sc sl by (simp only: of_nat_less_iff if_False c(1))
    qed
    have below: "\<not> sint l \<le> sint at" using less unfolding sl sa ua [symmetric] by (simp only: of_nat_le_iff not_le)
    have "\<not> sint (md_position m) < 0" unfolding sp by simp
    then have "do_mem m s = andthen (numap (md_proc m) (md_address m) (word_of_int (int n)) (mem_kern s)) (\<lambda>user_phys.
          if user_phys = 0 then Done (E_BAD_ADDR, s)
          else Done (int n,
            upd_kern (upd_mem (if md_type m = DISK_READ then phys_copy at user_phys (nat (int n))
                               else phys_copy user_phys at (nat (int n)))) s))"
      using below d unfolding do_mem_def Let_def assms(8) [symmetric] l_def [symmetric] count by simp
    then show ?thesis using False assms(6) by (simp add: numap_def assms(7) [symmetric])
  qed
qed

text \<open>Pieces of memory.\<close>

lemma length_bytes_at [simp]: "length (bytes_at m a n) = n"
  by (simp add: bytes_at_def)

lemma bytes_at_append: "bytes_at m a (i + j) = bytes_at m a i @ bytes_at m (a + of_nat i) j"
  by (rule nth_equalityI) (auto simp: bytes_at_def nth_append add.assoc)

lemma bytes_at_cong: "(\<And>k. k < n \<Longrightarrow> m (a + of_nat k) = m' (a + of_nat k)) \<Longrightarrow> bytes_at m a n = bytes_at m' a n"
  by (simp add: bytes_at_def)

lemma bytes_at_part: "p + n \<le> sz \<Longrightarrow> take n (drop p (bytes_at m a sz)) = bytes_at m (a + of_nat p) n"
  by (rule nth_equalityI) (auto simp: bytes_at_def add.assoc)

lemma bytes_at_copy:
  assumes "n \<le> 2 ^ 31" shows "bytes_at (phys_copy src dst n m) dst n = bytes_at m src n"
proof -
  have "unat (of_nat k :: addr) = k" if "k < n" for k using that assms by (simp add: unat_of_nat)
  then show ?thesis by (simp add: bytes_at_def phys_copy_def)
qed

lemma unat_low: "k < 2 ^ 31 \<Longrightarrow> unat (of_nat k :: addr) = k"
  by (simp add: unat_of_nat)

lemma other_places: "j \<noteq> k \<Longrightarrow> j < 2 ^ 31 \<Longrightarrow> k < 2 ^ 31 \<Longrightarrow> (a :: addr) + of_nat j \<noteq> a + of_nat k"
  by (metis (mono_tags, lifting) add_left_cancel unat_low)

lemma dev_bytes_at: "dev_bytes s d = bytes_at (main_mem s) (ram_origin s d) (dev_size s d)"
  by (simp add: dev_bytes_def bytes_at_def)

lemma upd_kern_simps [simp]:
  "ram_origin (upd_kern f s) = ram_origin s" "ram_limit (upd_kern f s) = ram_limit s"
  "mem_answers (upd_kern f s) = mem_answers s" "main_mem (upd_kern (upd_mem g) s) = g (main_mem s)"
  "dev_size (upd_kern f s) = dev_size s"
  by (simp_all add: upd_kern_def main_mem_def upd_mem_def dev_size_def fun_eq_iff)

lemma bytes_at_overwrite:
  assumes "p + n \<le> sz" and "sz < 2 ^ 31"
  shows "bytes_at (phys_copy src (a + of_nat p) n m) a sz =
    take p (bytes_at m a sz) @ bytes_at m src n @ drop (p + n) (bytes_at m a sz)"
proof -
  define m' where "m' = phys_copy src (a + of_nat p) n m"
  have same: "m' (a + of_nat k) = m (a + of_nat k)" if "k < p \<or> p + n \<le> k" "k < sz" for k
    unfolding m'_def
  proof (rule phys_copy_elsewhere)
    fix j assume "j < n"
    then show "a + of_nat k \<noteq> a + of_nat p + of_nat j"
      using other_places [of k "p + j" a] that assms by (auto simp: add.assoc)
  qed
  define q where "q = sz - (p + n)"
  have split: "sz = p + (n + q)" using assms(1) by (simp add: q_def)
  have three: "bytes_at x a sz = bytes_at x a p @ bytes_at x (a + of_nat p) n @ bytes_at x (a + of_nat p + of_nat n) q" for x
    unfolding split bytes_at_append ..
  have "bytes_at m' a p = bytes_at m a p" using assms(1) by (intro bytes_at_cong same) simp_all
  moreover have "bytes_at m' (a + of_nat p) n = bytes_at m src n" unfolding m'_def using assms by (intro bytes_at_copy) simp
  moreover have "bytes_at m' (a + of_nat p + of_nat n) q = bytes_at m (a + of_nat p + of_nat n) q"
    using same [of "p + n + k" for k] by (intro bytes_at_cong) (simp add: add.assoc split)
  ultimately have "bytes_at m' a sz = bytes_at m a p @ bytes_at m src n @ bytes_at m (a + of_nat p + of_nat n) q"
    using three by simp
  moreover have "take p (bytes_at m a sz) = bytes_at m a p" "drop (p + n) (bytes_at m a sz) = bytes_at m (a + of_nat p + of_nat n) q"
    by (simp_all add: three)
  ultimately show ?thesis by (simp add: m'_def)
qed

text \<open>Memory that a device does not share.\<close>

definition apart :: "ram_state \<Rightarrow> int \<Rightarrow> addr \<Rightarrow> nat \<Rightarrow> bool" where
  "apart s d a n \<longleftrightarrow> (\<forall>i<n. \<forall>k<dev_size s d. a + of_nat i \<noteq> ram_origin s d + of_nat k)"


text \<open>A RAM disk of one block at \<open>0x80000\<close>; FS writes four bytes of it.\<close>

definition ram_demo :: ram_state where
  "ram_demo = snd (do_setup \<lparr>md_source = 1, md_type = DISK_IOCTL, md_device = 0, md_proc = 1, md_count = 1,
       md_position = 0x80000, md_address = 0\<rparr>
     \<lparr>mem_kern = upd_mem (\<lambda>m a. ucast a) (upd_proc 10 (p_map_update (\<lambda>_ _. \<lparr>mem_vir = 0, mem_phys = 0, mem_len = 0x100\<rparr>)) blank),
      ram_origin = (\<lambda>_. 0), ram_limit = (\<lambda>_. 0), mem_answers = []\<rparr>)"

definition write_demo :: mem_mess where
  "write_demo = \<lparr>md_source = 1, md_type = DISK_WRITE, md_device = 0, md_proc = 1, md_count = 4, md_position = 0x3FE, md_address = 0x2001\<rparr>"


subsection \<open>Two limits that do not hold\<close>

text \<open>The sum of the origin and a position is a signed long; a position near the end of the range makes it
  negative, so it passes the test against the limit and memory below the device is read.\<close>

lemma position_wraps:
  "\<exists>s'. do_mem (write_demo\<lparr>md_type := DISK_READ, md_position := 0x7FFFFF00\<rparr>) ram_demo = Done (4, s') \<and>
     main_mem s' 0x2001 = main_mem ram_demo (0x80000 + 0x7FFFFF00)"
  by (simp add: do_mem_def write_demo_def ram_demo_def do_setup_def numap_def proc_addr_def isokprocn_def cproc_addr_def umap_def
      blank_def Let_def upd_kern_def main_mem_def upd_mem_def phys_copy_def)

text \<open>/dev/kmem starts at 0 and ends after as many bytes as the kernel has data; but the data start behind the text.\<close>

lemma kmem_ends_early:
  assumes "p_shadow (procs (mem_kern s) 7) = 0" and "mem_start b s = Done s'"
  shows "ram_origin s' KMEM_DEV = 0 \<and> ram_limit s' KMEM_DEV = click_addr (sizes b 1)"
  using assms by (auto simp: mem_start_def numap_def proc_addr_def isokprocn_def cproc_addr_def umap_def Let_def)

end
