(* ===== verification/Spec2Isabelle.thy ===== *)
theory Spec2Isabelle
  imports Prelude Mm_Alloc Kernel_Props Kernel_Clock Mm_Break Mm_Props Fs_Serve Fs_Names Tty_Keys Kernel_Memory
begin

text \<open>
  A verification development of MINIX ST 1.5: its kernel, its memory manager (MM) and its file
  system (FS), for the Atari ST (68000, \<open>int\<close> of 16 bits, no relocation hardware).

  \<^bold>\<open>The program.\<close>  The kernel (src/src/kernel) schedules processes, passes messages of 24 bytes
  between them and contains the tasks: the drivers, the clock and the system task.  MM
  (src/src/mm) and FS (src/src/fs) are two server processes; a user process calls them by
  \<open>sendrec\<close>, they call each other (MM tells FS of fork, exit, exec and signals through
  \<open>tell_fs\<close>) and the tasks.  Each server is a loop: receive a request, look its handler up in a
  table, run it to the end, reply.  So each server is modelled as a state record, one function per
  C function, and one function for a turn of the loop (\<open>serve\<close> in Mm_Main, \<open>fs_turn\<close> in
  Fs_Serve, \<open>sys_task\<close> in Kernel_System, \<open>clock_task\<close> in Kernel_Clock).

  \<^bold>\<open>How C is rendered.\<close>  A table of structures is a function from indices to records, a pointer into
  it an index or \<open>None\<close>, an unsigned 16-bit number a \<open>u16\<close>, a \<open>long\<close> or an address an \<open>addr\<close>
  (32 bits), an \<open>int\<close> an \<open>int\<close> with the wrap written out where the code can reach it.  A result
  of type \<open>'a run\<close> is \<open>Done\<close>, \<open>Panics\<close> with the message of \<open>panic\<close>, or \<open>Stuck\<close>: a nil pointer
  dereferenced, an index outside its table, or a loop that has used up its fuel.  What a server
  sends to others is appended to a log (\<open>sent\<close>) and the answers come from an environment (a record
  of functions of the log), because the other side is another process; theorems about it state
  what they need of the environment as a hypothesis, and their witnesses provide one.

  \<^bold>\<open>Kernel.\<close>  Kernel_State: proc.h, type.h, memory.  Kernel_Sched: \<open>ready\<close>, \<open>unready\<close>,
  \<open>pick_proc\<close>, \<open>sched\<close> of proc.c.  Kernel_Ipc: \<open>sys_call\<close>, \<open>mini_send\<close>, \<open>mini_rec\<close>, \<open>cp_mess\<close>,
  \<open>cause_sig\<close>, \<open>inform\<close>.  Kernel_Call: \<open>interrupt\<close>, \<open>unhold\<close>.  Kernel_System: system.c and
  stshadow.c.  Kernel_Main: \<open>main\<close> of stmain.c.  Kernel_Clock: clock.c.  Kernel_Inv states when
  the process table is consistent, Kernel_Msg and Kernel_Proc show that every operation keeps it so,
  Kernel_Run combines them into a step relation with reachable states, and Kernel_Props
  holds the properties: calls return, ready queues are exact, no lost wake-up, no mutual wait, first
  in first out, interrupts are not lost.

  \<^bold>\<open>Terminals and the memory driver.\<close>  The terminal task and its drivers share a state, \<open>tstate\<close> of
  Tty_State (tty.h and the data of the drivers), which contains the kernel's.  Tty_Vdu: stvdu.c, the screen with its
  escape sequences, painting into the video RAM.  Tty_Serial: rs232.c and the output half of tty.c.
  Tty_Line: tty.c and stcon.c, with \<open>tty_task\<close> as one turn of the task's loop.  Tty_Keyboard: stkbd.c.  Interrupts
  are operations of their own that fill the buffer \<open>drv_buf\<close>, which \<open>charint\<close> empties.  The proofs: Tty_Screen
  (a character changes the video RAM and nothing else), Tty_Wire (what is written goes out, in order, and the
  writer is answered), Tty_Ring (the input ring as a list), Tty_Edit (reading and line editing on that list),
  Tty_Safe (every event keeps the indices inside their arrays, as a step relation) and Tty_Keys (from the keys to
  the reader).  Kernel_Memory: memory.c and \<open>do_vrdwt\<close> of misc.c; a memory device is an array of bytes.

  \<^bold>\<open>Memory manager.\<close>  Mm_Alloc: alloc.c, with first fit and coalescing as the abstract
  specification and the locale \<open>click_pool\<close> for its contract.  Mm_State: the tables.  Mm_Break:
  break.c.  Mm_Exit: forkexit.c.  Mm_Signal: signal.c, trace.c.  Mm_Core: utility.c and core images.
  Mm_Exec: exec.c.  Mm_Main: main.c, getset.c, table.c.  Mm_Table, Mm_Fork and Mm_Reach hold what the
  operations keep of the process table; Mm_Props has the properties.

  \<^bold>\<open>File system.\<close>  Fs_State: the tables.  Fs_Device: filedes.c, device.c, suspension of pipe.c.
  Fs_Cache: cache.c.  Fs_Super: super.c, zones.  Fs_Inode: inode.c, \<open>read_map\<close>.  Fs_Write: write.c,
  read-ahead.  Fs_Path: path.c, \<open>forbidden\<close>.  Fs_File: read.c, pipe.c.  Fs_Open: open.c.
  Fs_Calls: link.c, protect.c.  Fs_Main: stadir.c, mount.c, misc.c, time.c.  Fs_Serve: main.c, table.c.
  The proofs: Fs_Sort (the Shell sort sorts), Fs_Cache_Inv, Fs_Cache_Get and Fs_Cache_Run
  (the LRU and hash chains stay in order in every life of the cache), Fs_Disk (the cache is
  transparent when the drivers work), Fs_Store (that contract as the locale \<open>block_store\<close>,
  interpreted on \<open>get_block\<close> and \<open>put_block\<close>), and on top of it Fs_Map (\<open>read_map\<close> follows the
  layout), Fs_Inode_Disk (inodes survive the disk), Fs_Bits (bit maps) and Fs_Names (permissions
  and path components).

  \<^bold>\<open>Bounds and fuel.\<close>  Walks along the process queues take the number of slots (41) as fuel; the invariant
  bounds their length.  \<open>new_pid\<close> looks at 128 numbers; at most 2 * 32 + 1 can be taken, so one is
  found (Mm_Fork).  \<open>cleanup\<close> recurses at most twice (\<open>cleanup_two_levels\<close>).
  \<open>load_loop\<close> takes 1024 pieces of at least 31 kilobytes, more than an address space, \<open>relocs\<close> the
  length of the longest file, \<open>patch_from\<close> the longs of a stack.  In FS the hash and LRU walks take
  the 30 buffers, \<open>rw_loop\<close> 64 chunks of a kilobyte (a count is below 32768 bytes, hence at most 33),
  \<open>rahead\<close> the blocks left plus 32, crossing of mounts 6 (the super blocks), strings 4096.
  A tab on the screen takes at most the 80 columns, \<open>rd_loop\<close> six buffers of 256 characters (the ring has 1000),
  \<open>kill_loop\<close> the characters in the ring; the loops over output count what is left to write.

  \<^bold>\<open>Not modelled.\<close>  The drivers for disks, printer, clock chip and sound (hardware registers), initialisation of the
  hardware, the debug dumps, printing and \<open>panic\<close> beyond being an outcome, code for other machines (INTEL).
  The commands, the C library, the tests and the boot tools are programs of their own that use the
  system through its calls.  The .ll files are generated, the headers in kernel_cpp17 are not part
  of the build.
\<close>

end
